(* ===== verification/Prelude.thy ===== *)
theory Prelude
  imports Complex_Main "HOL-Library.Word" "HOL-Library.AList" "HOL-Library.Sublist"
begin

text \<open>
  The vocabulary of the development: the JavaScript values and standard-library
  operations that the sources under \<open>src/src/\<close> use, written once.

  \<^item> A JavaScript string is a \<open>string\<close> that lists the UTF-8 bytes of the text, so encoding
    and decoding text are the identity on bytes; on ASCII text it is the string itself.
    Case mapping and trimming act on the ASCII letters and white space.
  \<^item> A plain object is an association list in insertion order, written with \<open>AList.update\<close>,
    which overwrites in place and appends new keys, as property assignment does.
  \<^item> A number is one of the IEEE specials or an exact rational.
  \<^item> A \<open>throw\<close> is the left side of a sum.
\<close>

named_theorems wire_simps "evaluation of the binary readers and writers"
named_theorems str_simps "unfolding of the string operations"
named_theorems beh_simps "running the behaviour of a handler"

section \<open>Errors as values\<close>

definition ebind :: "'e + 'a \<Rightarrow> ('a \<Rightarrow> 'e + 'b) \<Rightarrow> 'e + 'b" where
  "ebind m f = (case m of Inl e \<Rightarrow> Inl e | Inr x \<Rightarrow> f x)"

lemma ebind_Inl [simp]: "ebind (Inl e) f = Inl e"
  by (simp add: ebind_def)

lemma ebind_Inr [simp]: "ebind (Inr x) f = f x"
  by (simp add: ebind_def)

lemma ebind_eq_Inr: "ebind m f = Inr y \<longleftrightarrow> (\<exists>x. m = Inr x \<and> f x = Inr y)"
  by (cases m) auto

lemma ebind_eq_InrE:
  assumes "ebind m f = Inr y"
  obtains x where "m = Inr x" "f x = Inr y"
  using assms by (auto simp: ebind_eq_Inr)

section \<open>Bytes and text\<close>

type_synonym byte = "8 word"
type_synonym u32 = "32 word"

definition byte_of_char :: "char \<Rightarrow> byte" where
  "byte_of_char c = of_nat (of_char c)"

definition char_of_byte :: "byte \<Rightarrow> char" where
  "char_of_byte b = char_of (unat b)"

text \<open>\<open>textEncoder.encode\<close>, \<open>Buffer.from(s, "utf8")\<close> and their inverse.  A text is kept as the bytes of its
  UTF-8 form, one \<open>char\<close> a byte; that a decoder replaces malformed sequences and drops a leading byte order mark is
  not modelled.\<close>

definition text_encode :: "string \<Rightarrow> byte list" where
  "text_encode s = map byte_of_char s"

definition text_decode :: "byte list \<Rightarrow> string" where
  "text_decode bs = map char_of_byte bs"

lemma of_char_lt_256: "(of_char c :: nat) < 256"
  by (cases c) (simp add: of_char_def)

lemma char_of_byte_of_char [simp]: "char_of_byte (byte_of_char c) = c"
  using of_char_lt_256 [of c]
  by (simp add: char_of_byte_def byte_of_char_def unat_of_nat)

lemma byte_of_char_of_byte [simp]: "byte_of_char (char_of_byte b) = b"
  using unsigned_less [of b, where ?'a = nat] by (simp add: char_of_byte_def byte_of_char_def)

lemma text_decode_encode [simp]: "text_decode (text_encode s) = s"
  by (simp add: text_decode_def text_encode_def comp_def)

lemma text_encode_decode [simp]: "text_encode (text_decode b) = b"
  by (simp add: text_decode_def text_encode_def comp_def)

lemma length_text_encode [simp]: "length (text_encode s) = length s"
  by (simp add: text_encode_def)

lemma length_text_decode [simp]: "length (text_decode b) = length b"
  by (simp add: text_decode_def)

lemma text_encode_inj [simp]: "text_encode s = text_encode t \<longleftrightarrow> s = t"
  by (metis text_decode_encode)

lemma text_encode_append [simp]: "text_encode (s @ t) = text_encode s @ text_encode t"
  by (simp add: text_encode_def)

section \<open>Words assembled from bytes\<close>

unbundle bit_operations_syntax

lemma unat_byte_lt: "unat (b :: byte) < 256"
  using unsigned_less [of b, where ?'a = nat] by simp

lemma nat_or_push_bit: "a < 2 ^ n \<Longrightarrow> a OR push_bit n b = a + 2 ^ n * (b::nat)"
proof -
  assume a: "a < 2 ^ n"
  then have "take_bit n a = a" by (simp add: take_bit_nat_eq_self_iff)
  then have "a + push_bit n b = a OR push_bit n b"
    by (intro disjunctive_add) (metis bit_push_bit_iff bit_take_bit_iff linorder_not_le)
  then show ?thesis by (simp add: push_bit_eq_mult mult.commute)
qed

lemma unat_ucast_byte: "unat (ucast (b::byte) :: u32) = unat b"
  using unat_byte_lt [of b] by (simp add: unsigned_ucast_eq take_bit_nat_eq_self_iff)

lemma unat_push_byte: "n \<le> 24 \<Longrightarrow> unat (push_bit n (ucast (b::byte)) :: u32) = push_bit n (unat b)"
proof -
  assume n: "n \<le> 24"
  have "(2::nat) ^ n * unat b < 2 ^ 24 * 256"
    using n unat_byte_lt [of b] power_increasing [of n 24 "2::nat"]
    by (intro mult_le_less_imp_less) auto
  then have "push_bit n (unat b) < 2 ^ 32" by (simp add: push_bit_eq_mult mult.commute)
  then show ?thesis
    by (simp only: unsigned_push_bit_eq unat_ucast_byte) (simp add: take_bit_nat_eq_self)
qed

lemma u16_value:
  "unat ((ucast (b0::byte) :: u32) OR push_bit 8 (ucast (b1::byte))) = unat b0 + 256 * unat b1"
proof -
  have "unat ((ucast (b0::byte) :: u32) OR push_bit 8 (ucast (b1::byte))) = unat b0 OR push_bit 8 (unat b1)"
    by (simp only: unsigned_or_eq unat_ucast_byte unat_push_byte) 
  also have "\<dots> = unat b0 + 2 ^ 8 * unat b1"
    using unat_byte_lt [of b0] by (intro nat_or_push_bit) simp
  finally show ?thesis by simp
qed

lemma u32_value:
  "unat ((ucast (b0::byte) :: u32) OR push_bit 8 (ucast (b1::byte))
      OR push_bit 16 (ucast (b2::byte)) OR push_bit 24 (ucast (b3::byte)))
   = unat b0 + 256 * unat b1 + 65536 * unat b2 + 16777216 * unat b3"
proof -
  have "unat ((ucast (b0::byte) :: u32) OR push_bit 8 (ucast (b1::byte)) OR push_bit 16 (ucast (b2::byte)) OR push_bit 24 (ucast (b3::byte)))
      = ((unat b0 OR push_bit 8 (unat b1)) OR push_bit 16 (unat b2)) OR push_bit 24 (unat b3)"
    by (simp only: unsigned_or_eq unat_ucast_byte unat_push_byte order_refl) (simp add: or.assoc)
  also have "unat b0 OR push_bit 8 (unat b1) = unat b0 + 2 ^ 8 * unat b1"
    using unat_byte_lt [of b0] by (intro nat_or_push_bit) simp
  also have "\<dots> OR push_bit 16 (unat b2) = unat b0 + 2 ^ 8 * unat b1 + 2 ^ 16 * unat b2"
    using unat_byte_lt [of b0] unat_byte_lt [of b1] by (intro nat_or_push_bit) simp
  also have "\<dots> OR push_bit 24 (unat b3) = unat b0 + 2 ^ 8 * unat b1 + 2 ^ 16 * unat b2 + 2 ^ 24 * unat b3"
    using unat_byte_lt [of b0] unat_byte_lt [of b1] unat_byte_lt [of b2] by (intro nat_or_push_bit) simp
  finally show ?thesis by simp
qed

lemma byte_of_nat_eq: "(of_nat m :: byte) = of_nat n \<longleftrightarrow> m mod 256 = n mod 256"
  by (simp add: word_of_nat_eq_iff take_bit_eq_mod)

text \<open>The bytes that \<open>value & 0xff\<close>, \<open>(value >>> 8) & 0xff\<close>, ... store.\<close>

lemma ff_mask: "(0xff :: u32) = mask 8"
  by (simp add: mask_eq_exp_minus_1)

lemma byte_low: "(ucast ((word_of_int v :: u32) AND 0xff) :: byte) = of_int v"
  unfolding ff_mask by (rule bit_word_eqI) (auto simp: bit_simps)

lemma byte_shift: "n \<le> 24 \<Longrightarrow> (ucast (drop_bit n (word_of_int v :: u32) AND 0xff) :: byte) = of_int (drop_bit n v)"
  unfolding ff_mask by (rule bit_word_eqI) (auto simp: bit_simps)
section \<open>String operations\<close>

definition CR :: char where "CR = CHR 0x0D"
definition LF :: char where "LF = CHR 0x0A"
definition DQ :: char where "DQ = CHR 0x22"

definition startsWith :: "string \<Rightarrow> string \<Rightarrow> bool" where
  "startsWith s p \<longleftrightarrow> take (length p) s = p"

definition endsWith :: "string \<Rightarrow> string \<Rightarrow> bool" where
  "endsWith s p \<longleftrightarrow> startsWith (rev s) (rev p)"

text \<open>\<open>s.indexOf(p)\<close>: the least offset where \<open>p\<close> occurs; \<open>None\<close> is \<open>-1\<close>.\<close>

fun indexOf :: "string \<Rightarrow> string \<Rightarrow> nat option" where
  "indexOf [] p = (if p = [] then Some 0 else None)"
| "indexOf (c # cs) p =
     (if startsWith (c # cs) p then Some 0 else map_option Suc (indexOf cs p))"

definition contains :: "string \<Rightarrow> string \<Rightarrow> bool" where
  "contains s p \<longleftrightarrow> indexOf s p \<noteq> None"

text \<open>\<open>s.split(c)\<close> for a one-character separator: never the empty list.\<close>

fun split_on :: "char \<Rightarrow> string \<Rightarrow> string list" where
  "split_on c [] = [[]]"
| "split_on c (x # xs) =
     (if x = c then [] # split_on c xs
      else (case split_on c xs of [] \<Rightarrow> [[x]] | p # ps \<Rightarrow> (x # p) # ps))"

fun join :: "string \<Rightarrow> string list \<Rightarrow> string" where
  "join sep [] = []"
| "join sep [x] = x"
| "join sep (x # y # zs) = x @ sep @ join sep (y # zs)"

definition is_ws :: "char \<Rightarrow> bool" where
  "is_ws c \<longleftrightarrow> c \<in> {CHR 0x20, CHR 0x09, CHR 0x0A, CHR 0x0B, CHR 0x0C, CHR 0x0D}"

definition trim :: "string \<Rightarrow> string" where
  "trim s = rev (dropWhile is_ws (rev (dropWhile is_ws s)))"

definition lower_char :: "char \<Rightarrow> char" where
  "lower_char c =
     (let n = (of_char c :: nat) in if 65 \<le> n \<and> n \<le> 90 then char_of (n + 32) else c)"

definition upper_char :: "char \<Rightarrow> char" where
  "upper_char c =
     (let n = (of_char c :: nat) in if 97 \<le> n \<and> n \<le> 122 then char_of (n - 32) else c)"

definition toLowerCase :: "string \<Rightarrow> string" where
  "toLowerCase s = map lower_char s"

definition toUpperCase :: "string \<Rightarrow> string" where
  "toUpperCase s = map upper_char s"

definition is_digit :: "char \<Rightarrow> bool" where
  "is_digit c \<longleftrightarrow> (let n = (of_char c :: nat) in 48 \<le> n \<and> n \<le> 57)"

definition digit_val :: "char \<Rightarrow> nat" where
  "digit_val c = of_char c - 48"

definition digits_val :: "string \<Rightarrow> nat" where
  "digits_val s = foldl (\<lambda>a c. 10 * a + digit_val c) 0 s"

fun nat_digits :: "nat \<Rightarrow> string" where
  "nat_digits n =
     (if n < 10 then [char_of (48 + n)] else nat_digits (n div 10) @ [char_of (48 + n mod 10)])"

declare nat_digits.simps [simp del]

definition int_to_string :: "int \<Rightarrow> string" where
  "int_to_string i = (if i < 0 then ''-'' @ nat_digits (nat (- i)) else nat_digits (nat i))"

lemma startsWith_append [simp]: "startsWith (p @ s) p"
  by (simp add: startsWith_def)

lemma startsWith_Nil [simp]: "startsWith s []"
  by (simp add: startsWith_def)

lemma startsWith_iff: "startsWith s p \<longleftrightarrow> (\<exists>t. s = p @ t)"
  by (auto simp: startsWith_def) (metis append_take_drop_id)

lemma startsWith_drop: "startsWith s p \<Longrightarrow> s = p @ drop (length p) s"
  by (auto simp: startsWith_iff)

lemma split_on_nonempty [simp]: "split_on c s \<noteq> []"
  by (induction s) (auto split: list.splits)

lemma split_on_no_sep: "p \<in> set (split_on c s) \<Longrightarrow> c \<notin> set p"
proof (induction s arbitrary: p)
  case Nil
  then show ?case by simp
next
  case (Cons x xs)
  then show ?case by (fastforce split: list.splits if_splits)
qed

lemma split_on_single: "c \<notin> set s \<Longrightarrow> split_on c s = [s]"
  by (induction s) auto

lemma split_on_sep: "c \<notin> set p \<Longrightarrow> split_on c (p @ c # s) = p # split_on c s"
  by (induction p) auto

lemma join_split_on: "join [c] (split_on c s) = s"
proof (induction s)
  case Nil
  then show ?case by simp
next
  case (Cons x xs)
  obtain p ps where sp: "split_on c xs = p # ps"
    by (meson list.exhaust split_on_nonempty)
  show ?case
  proof (cases "x = c")
    case True
    with Cons sp show ?thesis by simp
  next
    case False
    with Cons sp show ?thesis by (cases ps) auto
  qed
qed

lemma length_toLowerCase [simp]: "length (toLowerCase s) = length s"
  by (simp add: toLowerCase_def)

lemma contains_iff: "contains s p \<longleftrightarrow> (\<exists>a b. s = a @ p @ b)"
proof (induction s)
  case Nil
  then show ?case by (simp add: contains_def)
next
  case (Cons c s)
  have "contains (c # s) p \<longleftrightarrow> startsWith (c # s) p \<or> contains s p"
    by (simp add: contains_def)
  also have "\<dots> \<longleftrightarrow> (\<exists>a b. c # s = a @ p @ b)"
    unfolding startsWith_iff Cons.IH
    by (metis append_Cons append_Nil list.inject neq_Nil_conv)
  finally show ?case .
qed

lemma contains_char: "contains s [c] \<longleftrightarrow> c \<in> set s"
  unfolding contains_iff by (metis append_Cons append_Nil in_set_conv_decomp)

section \<open>Numbers\<close>

text \<open>A JavaScript number: the specials, or a rational that stands for a finite double.\<close>

datatype jnum = NaN | PInf | NInf | Fin rat

definition truthy_num :: "jnum \<Rightarrow> bool" where
  "truthy_num x \<longleftrightarrow> x \<noteq> NaN \<and> x \<noteq> Fin 0"

text \<open>\<open>x || d\<close>\<close>

definition num_or :: "jnum \<Rightarrow> jnum \<Rightarrow> jnum" where
  "num_or x d = (if truthy_num x then x else d)"

definition num_floor :: "jnum \<Rightarrow> jnum" where
  "num_floor x = (case x of Fin r \<Rightarrow> Fin (of_int \<lfloor>r\<rfloor>) | _ \<Rightarrow> x)"

definition num_le :: "jnum \<Rightarrow> jnum \<Rightarrow> bool" where
  "num_le x y = (case (x, y) of
     (NaN, _) \<Rightarrow> False | (_, NaN) \<Rightarrow> False | (NInf, _) \<Rightarrow> True | (_, PInf) \<Rightarrow> True
   | (Fin a, Fin b) \<Rightarrow> a \<le> b | _ \<Rightarrow> False)"

definition num_lt :: "jnum \<Rightarrow> jnum \<Rightarrow> bool" where
  "num_lt x y \<longleftrightarrow> num_le x y \<and> x \<noteq> y"

definition num_max :: "jnum \<Rightarrow> jnum \<Rightarrow> jnum" where
  "num_max x y = (if x = NaN \<or> y = NaN then NaN else if num_le x y then y else x)"

definition num_min :: "jnum \<Rightarrow> jnum \<Rightarrow> jnum" where
  "num_min x y = (if x = NaN \<or> y = NaN then NaN else if num_le x y then x else y)"

text \<open>What the bit operators make of a number that is an integer or special.\<close>

definition num_bits :: "jnum \<Rightarrow> int" where
  "num_bits x = (case x of Fin r \<Rightarrow> (if r < 0 then \<lceil>r\<rceil> else \<lfloor>r\<rfloor>) | _ \<Rightarrow> 0)"

section \<open>More on strings\<close>

text \<open>A global replacement of matches of a fixed width.\<close>

fun replace_all :: "(string \<Rightarrow> bool) \<Rightarrow> nat \<Rightarrow> string \<Rightarrow> string \<Rightarrow> string" where
  "replace_all m n rep [] = []"
| "replace_all m n rep (c # cs) =
     (if m (c # cs) then rep @ replace_all m n rep (drop (n - 1) cs)
      else c # replace_all m n rep cs)"

lemma replace_all_set: "set (replace_all m n rep s) \<subseteq> set rep \<union> set s"
proof (induction m n rep s rule: replace_all.induct)
  case (2 m n rep c cs)
  then show ?case using set_drop_subset [of "n - 1" cs] by (cases "m (c # cs)") auto
qed simp

lemma toLowerCase_idem [simp]: "toLowerCase (toLowerCase s) = toLowerCase s"
proof -
  have "lower_char (lower_char c) = lower_char c" for c
    using of_char_lt_256 [of c] by (auto simp: lower_char_def Let_def)
  then show ?thesis by (simp add: toLowerCase_def)
qed

text \<open>The word characters of regular expressions.\<close>

definition is_word :: "char \<Rightarrow> bool" where
  "is_word c \<longleftrightarrow>
     (let n = (of_char c :: nat) in is_digit c \<or> 65 \<le> n \<and> n \<le> 90 \<or> 97 \<le> n \<and> n \<le> 122 \<or> n = 95)"

definition truthy_str :: "string option \<Rightarrow> bool" where
  "truthy_str s \<longleftrightarrow> s \<noteq> None \<and> s \<noteq> Some []"

lemma map_of_update: "map_of (AList.update k v al) x = (if x = k then Some v else map_of al x)"
  by (simp add: update_conv')

text \<open>\<open>parseInt(s, 10)\<close>: white space, an optional sign, the digits that follow; \<open>None\<close> is \<open>NaN\<close>.\<close>

definition parseInt10 :: "string \<Rightarrow> int option" where
  "parseInt10 s =
     (let t = dropWhile is_ws s;
          neg = (case t of c # _ \<Rightarrow> c = CHR ''-'' | [] \<Rightarrow> False);
          u = (case t of c # cs \<Rightarrow> if c = CHR ''-'' \<or> c = CHR ''+'' then cs else t | [] \<Rightarrow> []);
          ds = takeWhile is_digit u in
      if ds = [] then None
      else Some (if neg then - int (digits_val ds) else int (digits_val ds)))"

lemma is_digit_char: "(n :: nat) < 10 \<Longrightarrow> is_digit (char_of (48 + n))"
  by (simp add: is_digit_def)

lemma digit_val_char: "(n :: nat) < 10 \<Longrightarrow> digit_val (char_of (48 + n)) = n"
  by (simp add: digit_val_def)

lemma nat_digits_digits: "\<forall>c\<in>set (nat_digits n). is_digit c"
proof (induction n rule: nat_digits.induct)
  case (1 n)
  then show ?case
    by (subst nat_digits.simps) (auto simp: is_digit_char)
qed

lemma nat_digits_nonempty [simp]: "nat_digits n \<noteq> []"
  by (subst nat_digits.simps) simp

lemma digits_val_snoc: "digits_val (s @ [c]) = 10 * digits_val s + digit_val c"
  by (simp add: digits_val_def)

lemma digits_val_nat_digits: "digits_val (nat_digits n) = n"
proof (induction n rule: nat_digits.induct)
  case (1 n)
  show ?case
  proof (cases "n < 10")
    case True
    then show ?thesis
      by (subst nat_digits.simps) (simp add: digits_val_def digit_val_char)
  next
    case False
    have "digits_val (nat_digits n) = digits_val (nat_digits (n div 10) @ [char_of (48 + n mod 10)])"
      using False by (subst nat_digits.simps) simp
    then show ?thesis using 1 False by (simp add: digits_val_snoc digit_val_char)
  qed
qed

lemma digit_not_special: "is_digit c \<Longrightarrow> \<not> is_ws c \<and> c \<noteq> CHR ''-'' \<and> c \<noteq> CHR ''+'' \<and> c \<noteq> CHR ''.'' \<and> c \<noteq> CHR ''/'' \<and> c \<noteq> CHR '':''"
  by (auto simp: is_digit_def is_ws_def)

lemma parseInt10_nat_digits:
  assumes "rest = [] \<or> \<not> is_digit (hd rest)"
  shows "parseInt10 (nat_digits n @ rest) = Some (int n)"
proof -
  obtain c cs where d: "nat_digits n = c # cs" by (cases "nat_digits n") auto
  have c: "is_digit c" using nat_digits_digits [of n] d by simp
  have "takeWhile is_digit (nat_digits n @ rest) = nat_digits n"
    using nat_digits_digits [of n] assms by (cases rest) (auto simp: takeWhile_append)
  then show ?thesis
    using digit_not_special [OF c] d digits_val_nat_digits [of n] by (simp add: parseInt10_def Let_def)
qed

end
