(* ===== verification/BridgeCodec.thy ===== *)
theory BridgeCodec
  imports Prelude
begin

text \<open>
  The binary protocol of \<open>src/src/bridge.js\<close>: the little-endian readers and writers, the
  decoder of request envelopes, and the encoders of response and stream-start envelopes with
  the header-name cache they share.  Readers work on the whole buffer and an offset, as the
  code does; the writers fill a buffer of arbitrary contents (\<open>Buffer.allocUnsafe\<close>) at
  increasing offsets.  The locale \<open>wire_field\<close> states what a field of the protocol promises;
  its consequences lift from one field to a counted list of fields.
\<close>

unbundle bit_operations_syntax

section \<open>Errors of the codec\<close>

datatype bridge_error =
    Truncated
  | UnsupportedVersion nat
  | UnknownMethodCode nat
  | HeaderNameTooLong nat
  | HeaderValueTooLong nat
  | RangeErr

section \<open>Readers\<close>

definition readBytes :: "byte list \<Rightarrow> nat \<Rightarrow> nat \<Rightarrow> bridge_error + byte list" where
  "readBytes bytes offset len =
     (if offset + len > length bytes then Inl Truncated
      else Inr (take len (drop offset bytes)))"

definition readU8 :: "byte list \<Rightarrow> nat \<Rightarrow> bridge_error + nat" where
  "readU8 bytes offset =
     (if offset + 1 > length bytes then Inl Truncated
      else Inr (unat (bytes ! offset)))"

definition readU16 :: "byte list \<Rightarrow> nat \<Rightarrow> bridge_error + nat" where
  "readU16 bytes offset =
     (if offset + 2 > length bytes then Inl Truncated
      else Inr (unat ((ucast (bytes ! offset) :: u32)
             OR push_bit 8 (ucast (bytes ! (offset + 1))))))"

definition readU32 :: "byte list \<Rightarrow> nat \<Rightarrow> bridge_error + nat" where
  "readU32 bytes offset =
     (if offset + 4 > length bytes then Inl Truncated
      else Inr (unat ((ucast (bytes ! offset) :: u32)
             OR push_bit 8 (ucast (bytes ! (offset + 1)))
             OR push_bit 16 (ucast (bytes ! (offset + 2)))
             OR push_bit 24 (ucast (bytes ! (offset + 3))))))"

section \<open>Writers\<close>

text \<open>
  A number is written through \<open>ToInt32\<close>, so any integer is taken modulo \<open>2 ^ 32\<close>.
  \<open>output.set\<close> raises a \<open>RangeError\<close> when the source does not fit.
\<close>

definition writeU16 :: "byte list \<Rightarrow> nat \<Rightarrow> int \<Rightarrow> byte list" where
  "writeU16 bytes offset value =
     (let w = (word_of_int value :: u32)
      in bytes[offset := ucast (w AND 0xff),
               offset + 1 := ucast (drop_bit 8 w AND 0xff)])"

definition writeU32 :: "byte list \<Rightarrow> nat \<Rightarrow> int \<Rightarrow> byte list" where
  "writeU32 bytes offset value =
     (let w = (word_of_int value :: u32)
      in bytes[offset := ucast (w AND 0xff),
               offset + 1 := ucast (drop_bit 8 w AND 0xff),
               offset + 2 := ucast (drop_bit 16 w AND 0xff),
               offset + 3 := ucast (drop_bit 24 w AND 0xff)])"

definition setBytes :: "byte list \<Rightarrow> nat \<Rightarrow> byte list \<Rightarrow> bridge_error + byte list" where
  "setBytes output offset src =
     (if offset + length src > length output then Inl RangeErr
      else Inr (take offset output @ src @ drop (offset + length src) output))"

section \<open>Little-endian reference encodings\<close>

definition u8le :: "int \<Rightarrow> byte list" where
  "u8le v = [word_of_int v]"

definition u16le :: "int \<Rightarrow> byte list" where
  "u16le v = [word_of_int v, word_of_int (v div 256)]"

definition u32le :: "int \<Rightarrow> byte list" where
  "u32le v = [word_of_int v, word_of_int (v div 256), word_of_int (v div 65536),
              word_of_int (v div 16777216)]"

lemma length_ule [simp]:
  "length (u8le v) = 1" "length (u16le v) = 2" "length (u32le v) = 4"
  by (simp_all add: u8le_def u16le_def u32le_def)

lemma unat_byte_of_nat: "unat (word_of_nat n :: byte) = n mod 256"
  by (simp add: unsigned_of_nat take_bit_eq_mod)

lemma unat_byte_of_int_div:
  "unat (word_of_int (int n div numeral k) :: byte) = n div numeral k mod 256"
proof -
  have "int n div numeral k = int (n div numeral k)" by (simp add: zdiv_int)
  then show ?thesis by (simp add: unat_byte_of_nat)
qed

lemma base256_digits:
  fixes n :: nat
  assumes "n < 4294967296"
  shows "n mod 256 + 256 * (n div 256 mod 256) + 65536 * (n div 65536 mod 256)
      + 16777216 * (n div 16777216 mod 256) = n"
proof -
  define a b c where "a = n div 256" and "b = a div 256" and "c = b div 256"
  have n: "n = n mod 256 + 256 * a" and a: "a = a mod 256 + 256 * b"
    and b: "b = b mod 256 + 256 * c"
    by (simp_all add: a_def b_def c_def)
  have "b = n div 65536" and "c = n div 16777216"
    by (simp_all add: a_def b_def c_def div_mult2_eq [symmetric])
  moreover have "c mod 256 = c"
    using assms \<open>c = n div 16777216\<close> by simp
  ultimately show ?thesis
    using n a b by (simp add: a_def [symmetric])
qed

lemma readU8_at :
  assumes "n < 256"
  shows "readU8 (pre @ u8le (int n) @ post) (length pre) = Inr n"
  using assms by (simp add: readU8_def u8le_def nth_append unsigned_of_nat take_bit_eq_mod)

lemma readU16_at :
  assumes "n < 65536"
  shows "readU16 (pre @ u16le (int n) @ post) (length pre) = Inr n"
proof -
  have "n div 256 mod 256 = n div 256" using assms by simp
  then show ?thesis
    unfolding readU16_def u16_value
    by (simp add: u16le_def nth_append unat_byte_of_nat unat_byte_of_int_div)
qed

lemma readU32_at :
  assumes "n < 4294967296"
  shows "readU32 (pre @ u32le (int n) @ post) (length pre) = Inr n"
  unfolding readU32_def u32_value
  by (simp add: u32le_def nth_append unat_byte_of_nat unat_byte_of_int_div
      base256_digits [OF assms])

lemma readBytes_at :
  "readBytes (pre @ x @ post) (length pre) (length x) = Inr x"
  by (simp add: readBytes_def)

text \<open>Every reader stays inside the buffer and returns what the buffer holds there.\<close>

lemma take_Suc_drop:
  "off < length b \<Longrightarrow> take (Suc n) (drop off b) = b ! off # take n (drop (Suc off) b)"
  by (metis Cons_nth_drop_Suc take_Suc_Cons)

lemma byte_of_nat_unat_add:
  "256 dvd m \<Longrightarrow> (word_of_nat (unat (b :: byte) + m) :: byte) = b"
  by (simp add: word_of_nat_eq_0_iff [THEN iffD2])

lemma byte_of_int_div:
  "n div numeral k = unat (b :: byte) + 256 * m \<Longrightarrow> (word_of_int (int n div numeral k) :: byte) = b"
proof -
  assume n: "n div numeral k = unat b + 256 * m"
  have "int n div numeral k = int (n div numeral k)"
    by (simp add: zdiv_int)
  then have "(word_of_int (int n div numeral k) :: byte) = word_of_nat (n div numeral k)"
    by (metis of_int_of_nat_eq)
  also have "\<dots> = b"
    unfolding n by (rule byte_of_nat_unat_add) simp
  finally show ?thesis .
qed

lemma byte_of_int_low:
  "n = unat (b :: byte) + 256 * m \<Longrightarrow> (word_of_int (int n) :: byte) = b"
  by (simp only: of_int_of_nat_eq, rule byte_of_nat_unat_add) simp

lemma readU8_Inr:
  assumes "readU8 b off = Inr n"
  shows "off + 1 \<le> length b \<and> n < 256 \<and> take 1 (drop off b) = u8le (int n)"
  using assms by (auto simp: readU8_def u8le_def unat_byte_lt take_Suc_drop split: if_splits)

lemma readU16_Inr:
  assumes "readU16 b off = Inr n"
  shows "off + 2 \<le> length b \<and> n < 65536 \<and> take 2 (drop off b) = u16le (int n)"
proof -
  from assms have len: "off + 2 \<le> length b"
    and n: "n = unat (b ! off) + 256 * unat (b ! (off + 1))"
    by (auto simp: readU16_def u16_value split: if_splits)
  have lt: "unat (b ! off) < 256" "unat (b ! (off + 1)) < 256"
    by (rule unat_byte_lt)+
  have "n div 256 = unat (b ! (off + 1)) + 256 * 0"
    using n lt by simp
  then have "u16le (int n) = [b ! off, b ! (off + 1)]"
    unfolding u16le_def using n by (simp only: byte_of_int_low byte_of_int_div)
  then show ?thesis
    using len lt n by (simp add: take_Suc_drop numeral_2_eq_2)
qed

lemma readU32_Inr:
  assumes "readU32 b off = Inr n"
  shows "off + 4 \<le> length b \<and> n < 4294967296 \<and> take 4 (drop off b) = u32le (int n)"
proof -
  from assms have len: "off + 4 \<le> length b"
    and n: "n = unat (b ! off) + 256 * unat (b ! (off + 1)) + 65536 * unat (b ! (off + 2))
        + 16777216 * unat (b ! (off + 3))"
    by (auto simp: readU32_def u32_value split: if_splits)
  have lt: "unat (b ! off) < 256" "unat (b ! (off + 1)) < 256"
    "unat (b ! (off + 2)) < 256" "unat (b ! (off + 3)) < 256"
    by (rule unat_byte_lt)+
  define y z where "y = unat (b ! (off + 1)) + 256 * z"
    and "z = unat (b ! (off + 2)) + 256 * unat (b ! (off + 3))"
  have n0: "n = unat (b ! off) + 256 * y"
    by (simp add: n y_def z_def)
  have n1: "n div 256 = y" using lt by (simp add: n0)
  have n2: "n div 65536 = z"
    using n1 div_mult2_eq [of n 256 256] lt by (simp add: y_def)
  have n3: "n div 16777216 = unat (b ! (off + 3)) + 256 * 0"
    using n2 div_mult2_eq [of n 65536 256] lt by (simp add: z_def)
  note n0 n1 [unfolded y_def] n2 [unfolded z_def] n3
  then have "u32le (int n) = [b ! off, b ! (off + 1), b ! (off + 2), b ! (off + 3)]"
    unfolding u32le_def by (simp only: byte_of_int_low byte_of_int_div)
  moreover have "n < 4294967296"
    using lt by (simp add: n)
  moreover have "take 4 (drop off b) = [b ! off, b ! (off + 1), b ! (off + 2), b ! (off + 3)]"
    using len by (simp add: take_Suc_drop eval_nat_numeral)
  ultimately show ?thesis
    using len by simp
qed

text \<open>
  The same facts as a cursor: what a reader does where the rest of the buffer is known, and
  what the rest of the buffer is where a reader succeeded.
\<close>

lemma cursor_split: "drop off b = x @ rest \<Longrightarrow> x \<noteq> [] \<Longrightarrow> b = take off b @ x @ rest \<and> off = length (take off b)"
  by (metis append_Nil2 append_is_Nil_conv append_take_drop_id drop_all length_take min.absorb2
      nle_le)

lemma readU8_cur:
  assumes "drop off b = u8le (int n) @ rest" "n < 256"
  shows "readU8 b off = Inr n"
  using cursor_split [OF assms(1)] readU8_at [OF assms(2), of "take off b" rest]
  by (metis u8le_def list.distinct(1))

lemma readU16_cur:
  assumes "drop off b = u16le (int n) @ rest" "n < 65536"
  shows "readU16 b off = Inr n"
  using cursor_split [OF assms(1)] readU16_at [OF assms(2), of "take off b" rest]
  by (metis u16le_def list.distinct(1))

lemma readU32_cur:
  assumes "drop off b = u32le (int n) @ rest" "n < 4294967296"
  shows "readU32 b off = Inr n"
  using cursor_split [OF assms(1)] readU32_at [OF assms(2), of "take off b" rest]
  by (metis u32le_def list.distinct(1))

lemma readBytes_cur:
  assumes "drop off b = x @ rest" "off \<le> length b"
  shows "readBytes b off (length x) = Inr x"
proof -
  have "length b - off = length x + length rest"
    by (metis assms(1) length_append length_drop)
  then show ?thesis
    using assms by (simp add: readBytes_def)
qed

lemma drop_cur: "drop off b = x @ rest \<Longrightarrow> drop (off + length x) b = rest"
  by (metis add.commute append_eq_conv_conj drop_drop)

lemma readU8_rest:
  "readU8 b off = Inr n \<Longrightarrow> n < 256 \<and> off + 1 \<le> length b \<and> drop off b = u8le (int n) @ drop (off + 1) b"
  by (metis add.commute append_take_drop_id drop_drop readU8_Inr)

lemma readU16_rest:
  "readU16 b off = Inr n \<Longrightarrow> n < 65536 \<and> off + 2 \<le> length b \<and> drop off b = u16le (int n) @ drop (off + 2) b"
  by (metis add.commute append_take_drop_id drop_drop readU16_Inr)

lemma readU32_rest:
  "readU32 b off = Inr n \<Longrightarrow> n < 4294967296 \<and> off + 4 \<le> length b \<and> drop off b = u32le (int n) @ drop (off + 4) b"
  by (metis add.commute append_take_drop_id drop_drop readU32_Inr)

lemma readBytes_rest:
  "readBytes b off n = Inr x \<Longrightarrow> length x = n \<and> off + n \<le> length b \<and> drop off b = x @ drop (off + n) b"
  by (auto simp: readBytes_def split: if_splits)
    (metis add.commute append_take_drop_id drop_drop)

lemmas reader_rests = readU8_rest readU16_rest readU32_rest readBytes_rest

section \<open>Fields of the protocol\<close>

text \<open>
  A field has a reader on the buffer and an encoding.  The reader decodes the encoding wherever
  it stands, and it accepts nothing but encodings: the two laws together make the field a
  bijection between values and byte strings.
\<close>

fun read_many :: "(byte list \<Rightarrow> nat \<Rightarrow> bridge_error + ('a \<times> nat)) \<Rightarrow> nat \<Rightarrow> byte list \<Rightarrow> nat
    \<Rightarrow> bridge_error + ('a list \<times> nat)" where
  "read_many rd 0 b off = Inr ([], off)"
| "read_many rd (Suc n) b off =
     ebind (rd b off) (\<lambda>(x, off1).
     ebind (read_many rd n b off1) (\<lambda>(xs, off2). Inr (x # xs, off2)))"

locale wire_field =
  fixes rd :: "byte list \<Rightarrow> nat \<Rightarrow> bridge_error + ('a \<times> nat)"
    and enc :: "'a \<Rightarrow> byte list"
    and ok :: "'a \<Rightarrow> bool"
  assumes rd_enc: "ok x \<Longrightarrow> off \<le> length b \<Longrightarrow> drop off b = enc x @ rest
      \<Longrightarrow> rd b off = Inr (x, off + length (enc x))"
    and enc_rd: "off \<le> length b \<Longrightarrow> rd b off = Inr (x, off')
      \<Longrightarrow> ok x \<and> off' = off + length (enc x) \<and> off' \<le> length b \<and> drop off b = enc x @ drop off' b"
begin

lemma rd_many_enc:
  assumes "\<forall>x\<in>set xs. ok x" "off \<le> length b" "drop off b = concat (map enc xs) @ rest"
  shows "read_many rd (length xs) b off = Inr (xs, off + length (concat (map enc xs)))"
  using assms
proof (induction xs arbitrary: off)
  case Nil
  then show ?case by simp
next
  case (Cons x xs)
  let ?off = "off + length (enc x)"
  from Cons.prems have d: "drop off b = enc x @ (concat (map enc xs) @ rest)" by simp
  have "?off \<le> length b"
    by (metis Cons.prems(2) d le_add_diff_inverse length_append length_drop nat_add_left_cancel_le
        le_add1)
  moreover have "rd b off = Inr (x, ?off)"
    using Cons.prems d by (intro rd_enc) auto
  ultimately show ?case
    using Cons.IH [of ?off] Cons.prems drop_cur [OF d] by (simp add: add.assoc)
qed

lemma many_enc_rd:
  assumes "off \<le> length b" "read_many rd n b off = Inr (xs, off')"
  shows "length xs = n \<and> (\<forall>x\<in>set xs. ok x) \<and> off' = off + length (concat (map enc xs))
    \<and> off' \<le> length b \<and> drop off b = concat (map enc xs) @ drop off' b"
  using assms
proof (induction n arbitrary: off xs)
  case 0
  then show ?case by simp
next
  case (Suc n)
  from Suc.prems obtain x off1 ys where r: "rd b off = Inr (x, off1)"
    and m: "read_many rd n b off1 = Inr (ys, off')" and xs: "xs = x # ys"
    by (auto simp: ebind_eq_Inr)
  from enc_rd [OF Suc.prems(1) r] Suc.IH [OF _ m] xs show ?case by auto
qed

end

section \<open>Request envelopes\<close>

definition BRIDGE_VERSION :: nat where "BRIDGE_VERSION = 2"
definition REQUEST_FLAG_QUERY_PRESENT :: nat where "REQUEST_FLAG_QUERY_PRESENT = 1"
definition REQUEST_FLAG_BODY_PRESENT :: nat where "REQUEST_FLAG_BODY_PRESENT = 2"

definition METHOD_CODES :: "(string \<times> nat) list" where
  "METHOD_CODES = [(''GET'', 1), (''POST'', 2), (''PUT'', 3), (''DELETE'', 4), (''PATCH'', 5),
     (''OPTIONS'', 6), (''HEAD'', 7)]"

record request_envelope =
  env_handlerId :: nat
  env_flags :: nat
  env_methodCode :: nat
  env_urlBytes :: "byte list"
  env_pathBytes :: "byte list"
  env_ipBytes :: "byte list"
  env_paramValues :: "byte list list"
  env_rawHeaders :: "(byte list \<times> byte list) list"
  env_bodyBytes :: "byte list option"

text \<open>The bodies of the two loops of the decoder.\<close>

definition decode_param :: "byte list \<Rightarrow> nat \<Rightarrow> bridge_error + (byte list \<times> nat)" where
  "decode_param bytes offset =
     ebind (readU16 bytes offset) (\<lambda>valueLength.
     ebind (readBytes bytes (offset + 2) valueLength) (\<lambda>valueBytes.
     Inr (valueBytes, offset + 2 + valueLength)))"

definition decode_header :: "byte list \<Rightarrow> nat \<Rightarrow> bridge_error + ((byte list \<times> byte list) \<times> nat)" where
  "decode_header bytes offset =
     ebind (readU8 bytes offset) (\<lambda>nameLength.
     ebind (readU16 bytes (offset + 1)) (\<lambda>valueLength.
     ebind (readBytes bytes (offset + 3) nameLength) (\<lambda>nameBytes.
     ebind (readBytes bytes (offset + 3 + nameLength) valueLength) (\<lambda>valueBytes.
     Inr ((nameBytes, valueBytes), offset + 3 + nameLength + valueLength)))))"

definition known_method_code :: "nat \<Rightarrow> bool" where
  "known_method_code c \<longleftrightarrow> c \<in> {1, 2, 3, 4, 5, 6, 7}"

definition decodeRequestEnvelope :: "byte list \<Rightarrow> bridge_error + request_envelope" where
  "decodeRequestEnvelope bytes =
     ebind (readU8 bytes 0) (\<lambda>version.
     if version \<noteq> BRIDGE_VERSION then Inl (UnsupportedVersion version) else
     ebind (readU8 bytes 1) (\<lambda>methodCode.
     ebind (readU16 bytes 2) (\<lambda>flags.
     ebind (readU32 bytes 4) (\<lambda>handlerId.
     ebind (readU32 bytes 8) (\<lambda>urlLength.
     ebind (readU16 bytes 12) (\<lambda>pathLength.
     ebind (readU16 bytes 14) (\<lambda>paramCount.
     ebind (readU16 bytes 16) (\<lambda>headerCount.
     ebind (readU32 bytes 18) (\<lambda>bodyLength.
     ebind (readU16 bytes 22) (\<lambda>ipLength.
     let o1 = 24 in
     ebind (readBytes bytes o1 urlLength) (\<lambda>urlBytes.
     let o2 = o1 + urlLength in
     ebind (readBytes bytes o2 pathLength) (\<lambda>pathBytes.
     let o3 = o2 + pathLength in
     ebind (readBytes bytes o3 ipLength) (\<lambda>ipBytes.
     let o4 = o3 + ipLength in
     ebind (read_many decode_param paramCount bytes o4) (\<lambda>(paramValues, o5).
     ebind (read_many decode_header headerCount bytes o5) (\<lambda>(rawHeaders, o6).
     ebind (if bodyLength > 0 then map_sum id Some (readBytes bytes o6 bodyLength) else Inr None)
       (\<lambda>bodyBytes.
     if methodCode \<noteq> 0 \<and> \<not> known_method_code methodCode
     then Inl (UnknownMethodCode methodCode)
     else Inr \<lparr>env_handlerId = handlerId, env_flags = flags, env_methodCode = methodCode,
       env_urlBytes = urlBytes, env_pathBytes = pathBytes, env_ipBytes = ipBytes,
       env_paramValues = paramValues, env_rawHeaders = rawHeaders,
       env_bodyBytes = bodyBytes\<rparr>))))))))))))))))"

text \<open>The layout the comment of the decoder documents, as a reference encoding.\<close>

definition enc_param :: "byte list \<Rightarrow> byte list" where
  "enc_param v = u16le (int (length v)) @ v"

definition enc_header :: "byte list \<times> byte list \<Rightarrow> byte list" where
  "enc_header h = u8le (int (length (fst h))) @ u16le (int (length (snd h))) @ fst h @ snd h"

definition ok_param :: "byte list \<Rightarrow> bool" where
  "ok_param v \<longleftrightarrow> length v < 65536"

definition ok_header :: "byte list \<times> byte list \<Rightarrow> bool" where
  "ok_header h \<longleftrightarrow> length (fst h) < 256 \<and> length (snd h) < 65536"

definition body_of :: "byte list option \<Rightarrow> byte list" where
  "body_of b = (case b of None \<Rightarrow> [] | Some x \<Rightarrow> x)"

definition request_frame :: "request_envelope \<Rightarrow> byte list" where
  "request_frame e =
     u8le 2 @ u8le (int (env_methodCode e)) @ u16le (int (env_flags e))
     @ u32le (int (env_handlerId e)) @ u32le (int (length (env_urlBytes e)))
     @ u16le (int (length (env_pathBytes e))) @ u16le (int (length (env_paramValues e)))
     @ u16le (int (length (env_rawHeaders e))) @ u32le (int (length (body_of (env_bodyBytes e))))
     @ u16le (int (length (env_ipBytes e)))
     @ env_urlBytes e @ env_pathBytes e @ env_ipBytes e
     @ concat (map enc_param (env_paramValues e)) @ concat (map enc_header (env_rawHeaders e))
     @ body_of (env_bodyBytes e)"

definition wf_envelope :: "request_envelope \<Rightarrow> bool" where
  "wf_envelope e \<longleftrightarrow>
     (env_methodCode e = 0 \<or> known_method_code (env_methodCode e)) \<and> env_flags e < 65536
     \<and> env_handlerId e < 4294967296 \<and> length (env_urlBytes e) < 4294967296
     \<and> length (env_pathBytes e) < 65536 \<and> length (env_ipBytes e) < 65536
     \<and> length (env_paramValues e) < 65536 \<and> (\<forall>v\<in>set (env_paramValues e). ok_param v)
     \<and> length (env_rawHeaders e) < 65536 \<and> (\<forall>h\<in>set (env_rawHeaders e). ok_header h)
     \<and> length (body_of (env_bodyBytes e)) < 4294967296 \<and> env_bodyBytes e \<noteq> Some []"

interpretation param_field: wire_field decode_param enc_param ok_param
proof
  fix x :: "byte list" and off :: nat and b rest :: "byte list"
  assume "ok_param x" "off \<le> length b" and d: "drop off b = enc_param x @ rest"
  then have d1: "drop off b = u16le (int (length x)) @ x @ rest" by (simp add: enc_param_def)
  have d2: "drop (off + 2) b = x @ rest" using drop_cur [OF d1] by simp
  have "off + 2 \<le> length b"
    using readU16_rest [OF readU16_cur [OF d1]] \<open>ok_param x\<close> by (simp add: ok_param_def)
  then show "decode_param b off = Inr (x, off + length (enc_param x))"
    using \<open>ok_param x\<close> readU16_cur [OF d1] readBytes_cur [OF d2]
    by (simp add: decode_param_def ok_param_def enc_param_def)
next
  fix x :: "byte list" and off off' :: nat and b :: "byte list"
  assume "off \<le> length b" "decode_param b off = Inr (x, off')"
  then show "ok_param x \<and> off' = off + length (enc_param x) \<and> off' \<le> length b
      \<and> drop off b = enc_param x @ drop off' b"
    by (auto simp: decode_param_def ebind_eq_Inr ok_param_def enc_param_def add.assoc
        dest!: reader_rests)
qed

interpretation header_field: wire_field decode_header enc_header ok_header
proof
  fix x :: "byte list \<times> byte list" and off :: nat and b rest :: "byte list"
  assume ok: "ok_header x" and "off \<le> length b" and d: "drop off b = enc_header x @ rest"
  have d1: "drop off b = u8le (int (length (fst x))) @ u16le (int (length (snd x))) @ fst x @ snd x @ rest"
    using d by (simp add: enc_header_def)
  have d2: "drop (off + 1) b = u16le (int (length (snd x))) @ fst x @ snd x @ rest"
    using drop_cur [OF d1] by simp
  have d3: "drop (off + 3) b = fst x @ snd x @ rest"
    using drop_cur [OF d2] by (simp add: numeral_3_eq_3)
  have d4: "drop (off + 3 + length (fst x)) b = snd x @ rest"
    by (rule drop_cur [OF d3])
  have len: "off + 3 + length (fst x) + length (snd x) \<le> length b"
  proof -
    have "length (drop off b) = 3 + length (fst x) + length (snd x) + length rest"
      by (simp add: d1)
    then show ?thesis by simp
  qed
  then show "decode_header b off = Inr (x, off + length (enc_header x))"
    using ok readU8_cur [OF d1] readU16_cur [OF d2] readBytes_cur [OF d3] readBytes_cur [OF d4]
    by (cases x) (simp add: decode_header_def ok_header_def enc_header_def)
next
  fix x :: "byte list \<times> byte list" and off off' :: nat and b :: "byte list"
  assume "off \<le> length b" and r: "decode_header b off = Inr (x, off')"
  from r obtain n m where r1: "readU8 b off = Inr n" and r2: "readU16 b (off + 1) = Inr m"
    and r3: "readBytes b (off + 3) n = Inr (fst x)"
    and r4: "readBytes b (off + 3 + n) m = Inr (snd x)" and o: "off' = off + 3 + n + m"
    by (auto simp: decode_header_def ebind_eq_Inr)
  show "ok_header x \<and> off' = off + length (enc_header x) \<and> off' \<le> length b
      \<and> drop off b = enc_header x @ drop off' b"
    using readU8_rest [OF r1] readU16_rest [OF r2] readBytes_rest [OF r3] readBytes_rest [OF r4]
    by (simp add: ok_header_def enc_header_def o numeral_3_eq_3)
qed

text \<open>The decoder inverts the layout, whatever follows the frame in the buffer.\<close>

lemma fixed_part_cur:
  assumes b: "b = u8le (int v0) @ u8le (int v1) @ u16le (int v2) @ u32le (int v3) @ u32le (int v4)
      @ u16le (int v5) @ u16le (int v6) @ u16le (int v7) @ u32le (int v8) @ u16le (int v9) @ t"
    and lt: "v0 < 256" "v1 < 256" "v2 < 65536" "v3 < 4294967296" "v4 < 4294967296" "v5 < 65536"
      "v6 < 65536" "v7 < 65536" "v8 < 4294967296" "v9 < 65536"
  shows "readU8 b 0 = Inr v0" "readU8 b 1 = Inr v1" "readU16 b 2 = Inr v2" "readU32 b 4 = Inr v3"
    "readU32 b 8 = Inr v4" "readU16 b 12 = Inr v5" "readU16 b 14 = Inr v6" "readU16 b 16 = Inr v7"
    "readU32 b 18 = Inr v8" "readU16 b 22 = Inr v9" "drop 24 b = t" "24 \<le> length b"
proof -
  have c: "drop 0 b = u8le (int v0) @ drop 1 b" "drop 1 b = u8le (int v1) @ drop 2 b"
    "drop 2 b = u16le (int v2) @ drop 4 b" "drop 4 b = u32le (int v3) @ drop 8 b"
    "drop 8 b = u32le (int v4) @ drop 12 b" "drop 12 b = u16le (int v5) @ drop 14 b"
    "drop 14 b = u16le (int v6) @ drop 16 b" "drop 16 b = u16le (int v7) @ drop 18 b"
    "drop 18 b = u32le (int v8) @ drop 22 b" "drop 22 b = u16le (int v9) @ drop 24 b"
    "drop 24 b = t" "24 \<le> length b"
    unfolding b by (simp_all only: u8le_def u16le_def u32le_def append_Cons append_Nil) simp_all
  show "readU8 b 0 = Inr v0" "readU8 b 1 = Inr v1" by (rule readU8_cur; fact c lt)+
  show "readU16 b 2 = Inr v2" "readU16 b 12 = Inr v5" "readU16 b 14 = Inr v6" "readU16 b 16 = Inr v7"
    "readU16 b 22 = Inr v9" by (rule readU16_cur; fact c lt)+
  show "readU32 b 4 = Inr v3" "readU32 b 8 = Inr v4" "readU32 b 18 = Inr v8"
    by (rule readU32_cur; fact c lt)+
  show "drop 24 b = t" "24 \<le> length b" by (fact c)+
qed

lemma variable_part_cur:
  assumes b: "drop o1 b = ub @ pb @ ib @ concat (map enc_param ps) @ concat (map enc_header hs) @ bb @ rest"
      "o1 \<le> length b"
    and ok: "\<forall>v\<in>set ps. ok_param v" "\<forall>h\<in>set hs. ok_header h"
  shows "readBytes b o1 (length ub) = Inr ub"
    "readBytes b (o1 + length ub) (length pb) = Inr pb"
    "readBytes b (o1 + length ub + length pb) (length ib) = Inr ib"
    "\<exists>o5 o6. read_many decode_param (length ps) b (o1 + length ub + length pb + length ib) = Inr (ps, o5)
      \<and> read_many decode_header (length hs) b o5 = Inr (hs, o6) \<and> readBytes b o6 (length bb) = Inr bb"
proof -
  let ?o2 = "o1 + length ub"
  let ?o3 = "?o2 + length pb"
  let ?o4 = "?o3 + length ib"
  let ?o5 = "?o4 + length (concat (map enc_param ps))"
  let ?o6 = "?o5 + length (concat (map enc_header hs))"
  note d2 = drop_cur [OF b(1)]
  note d3 = drop_cur [OF d2]
  note d4 = drop_cur [OF d3]
  note d5 = drop_cur [OF d4]
  note d6 = drop_cur [OF d5]
  have "length b - o1 = length ub + length pb + length ib + length (concat (map enc_param ps))
      + length (concat (map enc_header hs)) + length bb + length rest"
    by (simp only: length_drop [symmetric] b(1) length_append add.assoc)
  then have l: "?o6 \<le> length b" using b(2) by simp
  then have l5: "?o5 \<le> length b" and l4: "?o4 \<le> length b" by simp_all
  show "readBytes b o1 (length ub) = Inr ub" by (rule readBytes_cur [OF b])
  show "readBytes b ?o2 (length pb) = Inr pb" by (rule readBytes_cur [OF d2]) (use l4 in simp)
  show "readBytes b ?o3 (length ib) = Inr ib" by (rule readBytes_cur [OF d3]) (use l4 in simp)
  show "\<exists>o5 o6. read_many decode_param (length ps) b ?o4 = Inr (ps, o5)
      \<and> read_many decode_header (length hs) b o5 = Inr (hs, o6) \<and> readBytes b o6 (length bb) = Inr bb"
    using param_field.rd_many_enc [OF ok(1) l4 d4] header_field.rd_many_enc [OF ok(2) l5 d5]
      readBytes_cur [OF d6 l] by blast
qed

lemma decode_request_frame:
  assumes wf: "wf_envelope e"
  shows "decodeRequestEnvelope (request_frame e @ rest) = Inr e"
proof -
  define b where "b = request_frame e @ rest"
  define t where "t = env_urlBytes e @ env_pathBytes e @ env_ipBytes e
    @ concat (map enc_param (env_paramValues e)) @ concat (map enc_header (env_rawHeaders e))
    @ body_of (env_bodyBytes e) @ rest"
  have "b = u8le (int 2) @ u8le (int (env_methodCode e)) @ u16le (int (env_flags e))
     @ u32le (int (env_handlerId e)) @ u32le (int (length (env_urlBytes e)))
     @ u16le (int (length (env_pathBytes e))) @ u16le (int (length (env_paramValues e)))
     @ u16le (int (length (env_rawHeaders e))) @ u32le (int (length (body_of (env_bodyBytes e))))
     @ u16le (int (length (env_ipBytes e))) @ t"
    by (simp add: b_def request_frame_def t_def)
  note f = fixed_part_cur [OF this]
  have "env_methodCode e < 256"
    using wf by (auto simp: wf_envelope_def known_method_code_def)
  note f = f [OF _ this]
  have f24: "drop 24 b = t" "24 \<le> length b"
    using f(11,12) wf by (simp_all add: wf_envelope_def)
  note v = variable_part_cur [OF f24(1) [unfolded t_def] f24(2)]
  obtain o5 o6 where
    ps: "read_many decode_param (length (env_paramValues e)) b
        (24 + length (env_urlBytes e) + length (env_pathBytes e) + length (env_ipBytes e))
      = Inr (env_paramValues e, o5)"
    and hs: "read_many decode_header (length (env_rawHeaders e)) b o5 = Inr (env_rawHeaders e, o6)"
    and bd: "readBytes b o6 (length (body_of (env_bodyBytes e))) = Inr (body_of (env_bodyBytes e))"
    using v(4) wf by (auto simp: wf_envelope_def)
  have body: "(if length (body_of (env_bodyBytes e)) > 0
      then map_sum id Some (readBytes b o6 (length (body_of (env_bodyBytes e)))) else Inr None)
    = Inr (env_bodyBytes e)"
    using bd wf by (cases "env_bodyBytes e") (auto simp: body_of_def wf_envelope_def)
  show ?thesis
    using f v(1-3) ps hs body wf
    unfolding decodeRequestEnvelope_def Let_def BRIDGE_VERSION_def b_def [symmetric]
    by (simp add: wf_envelope_def)
qed

text \<open>And it accepts nothing else: whatever decodes is the frame of what was decoded.\<close>

lemma request_frame_decode:
  assumes "decodeRequestEnvelope b = Inr e"
  shows "wf_envelope e \<and> (\<exists>rest. b = request_frame e @ rest)"
proof -
  from assms obtain mc fl hid ul pl pc hc bl il ub pb ib ps o5 hs o6 bb where
    r: "readU8 b 0 = Inr 2" "readU8 b 1 = Inr mc" "readU16 b 2 = Inr fl" "readU32 b 4 = Inr hid"
      "readU32 b 8 = Inr ul" "readU16 b 12 = Inr pl" "readU16 b 14 = Inr pc"
      "readU16 b 16 = Inr hc" "readU32 b 18 = Inr bl" "readU16 b 22 = Inr il"
      "readBytes b 24 ul = Inr ub" "readBytes b (24 + ul) pl = Inr pb"
      "readBytes b (24 + ul + pl) il = Inr ib"
    and ps: "read_many decode_param pc b (24 + ul + pl + il) = Inr (ps, o5)"
    and hs: "read_many decode_header hc b o5 = Inr (hs, o6)"
    and bb: "(if bl > 0 then map_sum id Some (readBytes b o6 bl) else Inr None) = Inr bb"
    and mc: "mc = 0 \<or> known_method_code mc"
    and e: "e = \<lparr>env_handlerId = hid, env_flags = fl, env_methodCode = mc, env_urlBytes = ub,
      env_pathBytes = pb, env_ipBytes = ib, env_paramValues = ps, env_rawHeaders = hs,
      env_bodyBytes = bb\<rparr>"
    unfolding decodeRequestEnvelope_def Let_def
    by (auto simp: ebind_eq_Inr BRIDGE_VERSION_def split: if_splits)
  have P: "length ps = pc \<and> (\<forall>x\<in>set ps. ok_param x) \<and> o5 \<le> length b
      \<and> drop (24 + ul + pl + il) b = concat (map enc_param ps) @ drop o5 b"
    using param_field.many_enc_rd [OF _ ps] readBytes_rest [OF r(13)] by simp
  have H: "length hs = hc \<and> (\<forall>x\<in>set hs. ok_header x) \<and> o6 \<le> length b
      \<and> drop o5 b = concat (map enc_header hs) @ drop o6 b"
    using header_field.many_enc_rd [OF _ hs] P by simp
  have B: "length (body_of bb) = bl \<and> bb \<noteq> Some [] \<and> drop o6 b = body_of bb @ drop (o6 + bl) b"
    using bb readBytes_rest [of b o6 bl]
    by (cases "readBytes b o6 bl") (auto simp: body_of_def split: if_splits)
  have "b = request_frame e @ drop (o6 + bl) b"
    using readU8_rest [OF r(1)] readU8_rest [OF r(2)] readU16_rest [OF r(3)] readU32_rest [OF r(4)]
      readU32_rest [OF r(5)] readU16_rest [OF r(6)] readU16_rest [OF r(7)] readU16_rest [OF r(8)]
      readU32_rest [OF r(9)] readU16_rest [OF r(10)] readBytes_rest [OF r(11)]
      readBytes_rest [OF r(12)] readBytes_rest [OF r(13)] P H B
    by (simp add: e request_frame_def del: One_nat_def)
  moreover have "wf_envelope e"
    using readU16_rest [OF r(3)] readU32_rest [OF r(4)] readU32_rest [OF r(5)] readU16_rest [OF r(6)]
      readU16_rest [OF r(7)] readU16_rest [OF r(8)] readU32_rest [OF r(9)] readU16_rest [OF r(10)]
      readBytes_rest [OF r(11)] readBytes_rest [OF r(12)] readBytes_rest [OF r(13)] P H B mc
    by (simp add: e wf_envelope_def)
  ultimately show ?thesis by blast
qed

section \<open>Response envelopes\<close>

text \<open>
  The snapshot of a response: status, headers in insertion order, body and the optional
  native-cache instruction \<open>(ttl, maxEntries)\<close>.  The header-name cache is a \<open>Map\<close> of at most
  64 entries that the encoders read and fill.
\<close>

record snapshot =
  sn_status :: int
  sn_headers :: "(string \<times> string) list"
  sn_body :: "byte list"
  sn_ncache :: "(int \<times> int) option"

type_synonym name_cache = "(string \<times> byte list) list"

definition getCachedHeaderNameBytes :: "name_cache \<Rightarrow> string \<Rightarrow> byte list \<times> name_cache" where
  "getCachedHeaderNameBytes cache name =
     (case map_of cache name of
        Some bytes \<Rightarrow> (bytes, cache)
      | None \<Rightarrow>
          let bytes = text_encode name in
          (bytes, if length cache < 64 then AList.update name bytes cache else cache))"

definition CT_NAME_BYTES :: "byte list" where
  "CT_NAME_BYTES = text_encode ''content-type''"

definition PREENCODED_CT_VALUES :: "(string \<times> byte list) list" where
  "PREENCODED_CT_VALUES =
     [(''application/json; charset=utf-8'', text_encode ''application/json; charset=utf-8''),
      (''text/plain; charset=utf-8'', text_encode ''text/plain; charset=utf-8''),
      (''text/html; charset=utf-8'', text_encode ''text/html; charset=utf-8''),
      (''application/octet-stream'', text_encode ''application/octet-stream'')]"

text \<open>
  \<open>PREENCODED_CT_VALUES[rawValue]\<close> is a lookup on an ordinary object, so the names of
  \<open>Object.prototype\<close> are found too: the value is then a function of the given \<open>length\<close>, which
  \<open>output.set\<close> copies as that many zero bytes.  For \<open>__proto__\<close> the length is undefined: it
  passes both checks, makes \<open>totalLength\<close> \<open>NaN\<close>, and \<open>Buffer.allocUnsafe\<close> throws.
\<close>

definition OBJECT_PROTOTYPE_LENGTHS :: "(string \<times> nat) list" where
  "OBJECT_PROTOTYPE_LENGTHS =
     [(''constructor'', 1), (''hasOwnProperty'', 1), (''isPrototypeOf'', 1),
      (''propertyIsEnumerable'', 1), (''toLocaleString'', 0), (''toString'', 0), (''valueOf'', 0),
      (''__defineGetter__'', 2), (''__defineSetter__'', 2), (''__lookupGetter__'', 1),
      (''__lookupSetter__'', 1), (''__proto__'', 0)]"

definition ct_value_bytes :: "string \<Rightarrow> byte list" where
  "ct_value_bytes rawValue =
     (case map_of PREENCODED_CT_VALUES rawValue of
        Some preValue \<Rightarrow> preValue
      | None \<Rightarrow>
          (case map_of OBJECT_PROTOTYPE_LENGTHS rawValue of
             Some n \<Rightarrow> replicate n 0
           | None \<Rightarrow> text_encode rawValue))"

text \<open>The first loop: encode each name and value, check the widths, add up the length.\<close>

fun encode_headers :: "name_cache \<Rightarrow> (string \<times> string) list
    \<Rightarrow> bridge_error + ((byte list \<times> byte list) list \<times> nat \<times> name_cache)" where
  "encode_headers cache [] = Inr ([], 0, cache)"
| "encode_headers cache ((name, rawValue) # rest) =
     (let (nameBytes, valueBytes, cache') =
        (if name = ''content-type''
         then (CT_NAME_BYTES, ct_value_bytes rawValue, cache)
         else (let (nb, c) = getCachedHeaderNameBytes cache name in (nb, text_encode rawValue, c)))
      in if length nameBytes > 0xff then Inl (HeaderNameTooLong (length nameBytes))
         else if length valueBytes > 0xffff then Inl (HeaderValueTooLong (length valueBytes))
         else ebind (encode_headers cache' rest) (\<lambda>(hs, n, c).
           Inr ((nameBytes, valueBytes) # hs, 3 + length nameBytes + length valueBytes + n, c)))"

text \<open>The second loop: \<open>output[offset++] = n; writeU16; output.set; output.set\<close>.\<close>

fun write_headers :: "byte list \<Rightarrow> nat \<Rightarrow> (byte list \<times> byte list) list
    \<Rightarrow> bridge_error + (byte list \<times> nat)" where
  "write_headers output offset [] = Inr (output, offset)"
| "write_headers output offset ((nameBytes, valueBytes) # rest) =
     (let out1 = output[offset := word_of_nat (length nameBytes)];
          out2 = writeU16 out1 (offset + 1) (int (length valueBytes)) in
      ebind (setBytes out2 (offset + 3) nameBytes) (\<lambda>out3.
      ebind (setBytes out3 (offset + 3 + length nameBytes) valueBytes) (\<lambda>out4.
      write_headers out4 (offset + 3 + length nameBytes + length valueBytes) rest)))"

definition encodeResponseEnvelope ::
  "(nat \<Rightarrow> byte list) \<Rightarrow> name_cache \<Rightarrow> snapshot \<Rightarrow> bridge_error + (byte list \<times> name_cache)" where
  "encodeResponseEnvelope allocUnsafe cache sn =
     (let body = sn_body sn; headerCount = length (sn_headers sn) in
      ebind (encode_headers cache (sn_headers sn)) (\<lambda>(encodedHeaders, hlen, cache').
      if (''content-type'', ''__proto__'') \<in> set (sn_headers sn) then Inl RangeErr else
      let totalLength = 8 + length body + (if sn_ncache sn \<noteq> None then 10 else 0) + hlen;
          out0 = allocUnsafe totalLength;
          out1 = writeU16 out0 0 (sn_status sn);
          out2 = writeU16 out1 2 (int headerCount);
          out3 = writeU32 out2 4 (int (length body)) in
      ebind (write_headers out3 8 encodedHeaders) (\<lambda>(out4, offset).
      ebind (setBytes out4 offset body) (\<lambda>out5.
      let offset = offset + length body in
      case sn_ncache sn of
        None \<Rightarrow> Inr (out5, cache')
      | Some (ttl, maxEntries) \<Rightarrow>
          let out6 = out5[offset := 0xca, offset + 1 := 0xce];
              out7 = writeU32 out6 (offset + 2) ttl;
              out8 = writeU32 out7 (offset + 6) maxEntries in
          Inr (out8, cache')))))"

text \<open>
  The stream-start envelope: the same header layout behind a sentinel and the stream id, split
  into two 32-bit halves; this encoder does not check the widths.
\<close>

fun encode_stream_headers :: "name_cache \<Rightarrow> (string \<times> string) list
    \<Rightarrow> (byte list \<times> byte list) list \<times> nat \<times> name_cache" where
  "encode_stream_headers cache [] = ([], 0, cache)"
| "encode_stream_headers cache ((name, value) # rest) =
     (let (nameBytes, cache1) = getCachedHeaderNameBytes cache name;
          valueBytes = text_encode value;
          (hs, n, cache2) = encode_stream_headers cache1 rest in
      ((nameBytes, valueBytes) # hs, 3 + length nameBytes + length valueBytes + n, cache2))"

definition encodeStreamStartEnvelope ::
  "(nat \<Rightarrow> byte list) \<Rightarrow> name_cache \<Rightarrow> nat \<Rightarrow> snapshot \<Rightarrow> bridge_error + (byte list \<times> name_cache)" where
  "encodeStreamStartEnvelope allocUnsafe cache streamId sn =
     (let (encodedHeaders, headersSize, cache') = encode_stream_headers cache (sn_headers sn);
          headerCount = length (sn_headers sn);
          totalLength = 2 + 8 + 2 + 2 + headersSize;
          out0 = allocUnsafe totalLength;
          out1 = out0[0 := 0xff, 1 := 0x53];
          low = sint ((word_of_nat streamId :: u32) AND 0xffffffff);
          high = int (unat (word_of_nat (streamId div 0x100000000) :: u32));
          out2 = writeU32 out1 2 low;
          out3 = writeU32 out2 6 high;
          out4 = writeU16 out3 10 (sn_status sn);
          out5 = writeU16 out4 12 (int headerCount) in
      ebind (write_headers out5 14 encodedHeaders) (\<lambda>(out6, offset). Inr (out6, cache')))"

section \<open>The encoders produce their documented layout\<close>

definition response_header_bytes :: "(string \<times> string) list \<Rightarrow> byte list" where
  "response_header_bytes hs =
     concat (map (\<lambda>(n, v). enc_header (text_encode n, text_encode v)) hs)"

definition ncache_trailer :: "(int \<times> int) option \<Rightarrow> byte list" where
  "ncache_trailer nc = (case nc of None \<Rightarrow> []
     | Some (ttl, maxEntries) \<Rightarrow> [0xca, 0xce] @ u32le ttl @ u32le maxEntries)"

definition response_frame :: "snapshot \<Rightarrow> byte list" where
  "response_frame sn =
     u16le (sn_status sn) @ u16le (int (length (sn_headers sn))) @ u32le (int (length (sn_body sn)))
     @ response_header_bytes (sn_headers sn) @ sn_body sn @ ncache_trailer (sn_ncache sn)"

definition stream_frame :: "nat \<Rightarrow> snapshot \<Rightarrow> byte list" where
  "stream_frame streamId sn =
     [0xff, 0x53] @ u32le (int streamId) @ u32le (int (streamId div 4294967296))
     @ u16le (sn_status sn) @ u16le (int (length (sn_headers sn)))
     @ response_header_bytes (sn_headers sn)"


definition plain_header :: "string \<times> string \<Rightarrow> bool" where
  "plain_header h \<longleftrightarrow> fst h = ''content-type'' \<longrightarrow> map_of OBJECT_PROTOTYPE_LENGTHS (snd h) = None"

definition fits_header :: "string \<times> string \<Rightarrow> bool" where
  "fits_header h \<longleftrightarrow> length (fst h) \<le> 255 \<and> length (snd h) \<le> 65535"

text \<open>The header-name cache never changes an answer.\<close>

definition wf_cache :: "name_cache \<Rightarrow> bool" where
  "wf_cache cache \<longleftrightarrow> (\<forall>n b. map_of cache n = Some b \<longrightarrow> b = text_encode n) \<and> length cache \<le> 64"

lemma getCached_bytes:
  assumes "wf_cache cache"
  shows "\<exists>c. getCachedHeaderNameBytes cache name = (text_encode name, c) \<and> wf_cache c"
proof -
  have len: "length (AList.update name b cache) = Suc (length cache)" if "map_of cache name = None" for b
    using that by (induction cache) (auto split: if_splits)
  show ?thesis
    using assms len
    by (auto simp: getCachedHeaderNameBytes_def wf_cache_def Let_def update_conv' split: option.splits)
qed

lemma ct_value_plain: "map_of OBJECT_PROTOTYPE_LENGTHS v = None \<Longrightarrow> ct_value_bytes v = text_encode v"
  by (auto simp: ct_value_bytes_def PREENCODED_CT_VALUES_def)

text \<open>One turn of the first loop, once the caches have been seen through.\<close>

lemma encode_headers_step:
  assumes "wf_cache cache" "plain_header (n, v)"
  obtains c1 where "wf_cache c1"
    "encode_headers cache ((n, v) # hs) =
      (if length n > 255 then Inl (HeaderNameTooLong (length n))
       else if length v > 65535 then Inl (HeaderValueTooLong (length v))
       else ebind (encode_headers c1 hs) (\<lambda>(es, m, c).
         Inr ((text_encode n, text_encode v) # es, 3 + length n + length v + m, c)))"
proof (cases "n = ''content-type''")
  case True
  then show ?thesis
    using that [OF assms(1)] assms(2) ct_value_plain [of v]
    by (simp add: plain_header_def CT_NAME_BYTES_def)
next
  case False
  obtain c where "getCachedHeaderNameBytes cache n = (text_encode n, c)" "wf_cache c"
    using getCached_bytes [OF assms(1)] by blast
  then show ?thesis
    using that [of c] False by simp
qed

definition encoded_pairs :: "(string \<times> string) list \<Rightarrow> (byte list \<times> byte list) list" where
  "encoded_pairs hs = map (\<lambda>(n, v). (text_encode n, text_encode v)) hs"

lemma encode_headers_ok:
  assumes "wf_cache cache" "\<forall>h\<in>set hs. plain_header h \<and> fits_header h"
  shows "\<exists>c. encode_headers cache hs
      = Inr (encoded_pairs hs, length (response_header_bytes hs), c) \<and> wf_cache c"
  using assms
proof (induction hs arbitrary: cache)
  case Nil
  then show ?case by (simp add: encoded_pairs_def response_header_bytes_def)
next
  case (Cons h hs)
  obtain n v where h: "h = (n, v)" by (cases h)
  have p: "plain_header (n, v)" using Cons.prems(2) by (simp add: h)
  obtain c1 where "wf_cache c1" and e: "encode_headers cache ((n, v) # hs) =
      (if length n > 255 then Inl (HeaderNameTooLong (length n))
       else if length v > 65535 then Inl (HeaderValueTooLong (length v))
       else ebind (encode_headers c1 hs) (\<lambda>(es, m, c).
         Inr ((text_encode n, text_encode v) # es, 3 + length n + length v + m, c)))"
    using encode_headers_step [OF Cons.prems(1) p] by blast
  with Cons.IH [of c1] Cons.prems(2) show ?case
    by (auto simp: h e fits_header_def encoded_pairs_def response_header_bytes_def enc_header_def
        simp del: encode_headers.simps)
qed

lemma encode_headers_error:
  assumes "wf_cache cache" "\<forall>h\<in>set hs. plain_header h" "\<exists>h\<in>set hs. \<not> fits_header h"
  shows "\<exists>n. encode_headers cache hs \<in> {Inl (HeaderNameTooLong n), Inl (HeaderValueTooLong n)}"
  using assms
proof (induction hs arbitrary: cache)
  case Nil
  then show ?case by simp
next
  case (Cons h hs)
  obtain n v where h: "h = (n, v)" by (cases h)
  have p: "plain_header (n, v)" using Cons.prems(2) by (simp add: h)
  obtain c1 where "wf_cache c1" and e: "encode_headers cache ((n, v) # hs) =
      (if length n > 255 then Inl (HeaderNameTooLong (length n))
       else if length v > 65535 then Inl (HeaderValueTooLong (length v))
       else ebind (encode_headers c1 hs) (\<lambda>(es, m, c).
         Inr ((text_encode n, text_encode v) # es, 3 + length n + length v + m, c)))"
    using encode_headers_step [OF Cons.prems(1) p] by blast
  show ?case
  proof (cases "fits_header h")
    case True
    then show ?thesis
      using Cons.IH [OF \<open>wf_cache c1\<close>] Cons.prems(2,3) by (auto simp: h e fits_header_def simp del: encode_headers.simps)
  next
    case False
    then show ?thesis by (auto simp: h e fits_header_def simp del: encode_headers.simps)
  qed
qed

text \<open>A buffer of \<open>n\<close> bytes whose first bytes have been written; the rest is arbitrary.\<close>

definition filled :: "byte list \<Rightarrow> nat \<Rightarrow> byte list \<Rightarrow> bool" where
  "filled buf n out \<longleftrightarrow> length buf = n \<and> length out \<le> n \<and> take (length out) buf = out"

lemma filled_Nil: "length buf = n \<Longrightarrow> filled buf n []"
  by (simp add: filled_def)

lemma filled_full: "filled buf n out \<Longrightarrow> length out = n \<Longrightarrow> buf = out"
  by (auto simp: filled_def)

lemma filled_byte:
  "filled buf n out \<Longrightarrow> length out < n \<Longrightarrow> filled (buf[length out := x]) n (out @ [x])"
  by (simp add: filled_def take_Suc_conv_app_nth)

lemma filled_byte_at:
  "filled buf n out \<Longrightarrow> off = length out \<Longrightarrow> off < n \<Longrightarrow> filled (buf[off := x]) n (out @ [x])"
  by (simp add: filled_byte)

lemma byte_div:
  "(ucast (drop_bit 8 (word_of_int v :: u32) AND 0xff) :: byte) = of_int (v div 256)"
  "(ucast (drop_bit 16 (word_of_int v :: u32) AND 0xff) :: byte) = of_int (v div 65536)"
  "(ucast (drop_bit 24 (word_of_int v :: u32) AND 0xff) :: byte) = of_int (v div 16777216)"
  using byte_shift [of 8 v] byte_shift [of 16 v] byte_shift [of 24 v]
  by (simp_all add: drop_bit_eq_div [of _ "v :: int"])

lemma filled_u16:
  assumes "filled buf n out" "off = length out" "off + 2 \<le> n"
  shows "filled (writeU16 buf off v) n (out @ u16le v)"
proof -
  have "filled (buf[off := of_int v, off + 1 := of_int (v div 256)]) n ((out @ [of_int v]) @ [of_int (v div 256)])"
    using assms by (intro filled_byte_at) auto
  then show ?thesis
    by (simp add: writeU16_def u16le_def byte_low byte_div Let_def)
qed

lemma filled_u32:
  assumes "filled buf n out" "off = length out" "off + 4 \<le> n"
  shows "filled (writeU32 buf off v) n (out @ u32le v)"
proof -
  have "filled (buf[off := of_int v, off + 1 := of_int (v div 256), off + 2 := of_int (v div 65536),
      off + 3 := of_int (v div 16777216)]) n ((((out @ [of_int v]) @ [of_int (v div 256)])
      @ [of_int (v div 65536)]) @ [of_int (v div 16777216)])"
    using assms by (intro filled_byte_at) auto
  then show ?thesis
    by (simp add: writeU32_def u32le_def byte_low byte_div Let_def)
qed

lemma filled_set:
  assumes "filled buf n out" "off = length out" "off + length src \<le> n"
  shows "\<exists>buf'. setBytes buf off src = Inr buf' \<and> filled buf' n (out @ src)"
  using assms by (auto simp: setBytes_def filled_def)

lemma filled_headers:
  assumes "filled buf n out" "off = length out" "off + length (response_header_bytes hs) \<le> n"
  shows "\<exists>buf'. write_headers buf off (encoded_pairs hs)
      = Inr (buf', off + length (response_header_bytes hs))
    \<and> filled buf' n (out @ response_header_bytes hs)"
  using assms
proof (induction hs arbitrary: buf off out)
  case Nil
  then show ?case by (simp add: encoded_pairs_def response_header_bytes_def)
next
  case (Cons h hs)
  obtain k v where h: "h = (k, v)" by (cases h)
  have len: "off + (3 + length k + length v) + length (response_header_bytes hs) \<le> n"
    using Cons.prems(3) by (simp add: h response_header_bytes_def enc_header_def)
  define b2 where "b2 = writeU16 (buf[off := word_of_nat (length k)]) (off + 1) (int (length v))"
  define o2 where "o2 = out @ u8le (int (length k)) @ u16le (int (length v))"
  have "filled (buf[off := word_of_nat (length k)]) n (out @ u8le (int (length k)))"
    using filled_byte_at [OF Cons.prems(1,2)] len by (simp add: u8le_def)
  then have "filled b2 n o2"
    unfolding b2_def o2_def append_assoc [symmetric]
    by (rule filled_u16) (use Cons.prems(2) len in simp_all)
  then obtain b3 where b3: "setBytes b2 (off + 3) (text_encode k) = Inr b3"
      "filled b3 n (o2 @ text_encode k)"
    using filled_set [of b2 n o2 "off + 3" "text_encode k"] Cons.prems(2) len by (auto simp: o2_def)
  then obtain b4 where b4: "setBytes b3 (off + 3 + length k) (text_encode v) = Inr b4"
      "filled b4 n ((o2 @ text_encode k) @ text_encode v)"
    using filled_set [of b3 n "o2 @ text_encode k" "off + 3 + length k" "text_encode v"] Cons.prems(2) len
    by (auto simp: o2_def)
  have wh: "write_headers buf off (encoded_pairs (h # hs))
      = write_headers b4 (off + 3 + length k + length v) (encoded_pairs hs)"
    using b3(1) b4(1) by (simp add: h encoded_pairs_def b2_def Let_def del: One_nat_def)
  have o: "(o2 @ text_encode k) @ text_encode v = out @ enc_header (text_encode k, text_encode v)"
    by (simp add: o2_def enc_header_def)
  have r: "response_header_bytes (h # hs)
      = enc_header (text_encode k, text_encode v) @ response_header_bytes hs"
    by (simp add: h response_header_bytes_def)
  then have rl: "length (response_header_bytes (h # hs))
      = 3 + length k + length v + length (response_header_bytes hs)"
    by (simp add: enc_header_def)
  show ?case
    using Cons.IH [OF b4(2) [unfolded o], of "off + 3 + length k + length v"] Cons.prems(2) len
    unfolding wh rl unfolding r by (simp add: enc_header_def add.assoc)
qed

text \<open>The encoders, for whatever bytes \<open>allocUnsafe\<close> hands out.\<close>

lemma encodeResponseEnvelope_frame:
  assumes alloc: "\<And>n. length (allocUnsafe n) = n" and "wf_cache cache"
    and hs: "\<forall>h\<in>set (sn_headers sn). plain_header h \<and> fits_header h"
  shows "\<exists>c. encodeResponseEnvelope allocUnsafe cache sn = Inr (response_frame sn, c) \<and> wf_cache c"
proof -
  let ?H = "response_header_bytes (sn_headers sn)"
  define n where "n = 8 + length (sn_body sn) + (if sn_ncache sn \<noteq> None then 10 else 0) + length ?H"
  obtain c where c: "encode_headers cache (sn_headers sn)
      = Inr (encoded_pairs (sn_headers sn), length ?H, c)" "wf_cache c"
    using encode_headers_ok assms(2,3) by blast
  have np: "(''content-type'', ''__proto__'') \<notin> set (sn_headers sn)"
    using hs by (auto simp: plain_header_def OBJECT_PROTOTYPE_LENGTHS_def)
  let ?o3 = "u16le (sn_status sn) @ u16le (int (length (sn_headers sn))) @ u32le (int (length (sn_body sn)))"
  define b3 where "b3 = writeU32 (writeU16 (writeU16 (allocUnsafe n) 0 (sn_status sn)) 2
      (int (length (sn_headers sn)))) 4 (int (length (sn_body sn)))"
  have "filled (allocUnsafe n) n []" by (simp add: filled_def alloc)
  from filled_u16 [OF this] have "filled (writeU16 (allocUnsafe n) 0 (sn_status sn)) n (u16le (sn_status sn))"
    by (simp add: n_def)
  from filled_u16 [OF this] have "filled (writeU16 (writeU16 (allocUnsafe n) 0 (sn_status sn)) 2
      (int (length (sn_headers sn)))) n (u16le (sn_status sn) @ u16le (int (length (sn_headers sn))))"
    by (simp add: n_def)
  from filled_u32 [OF this] have "filled b3 n ?o3"
    by (simp add: b3_def n_def)
  from filled_headers [OF this, of 8 "sn_headers sn"] obtain b4 where
    b4: "write_headers b3 8 (encoded_pairs (sn_headers sn)) = Inr (b4, 8 + length ?H)"
      "filled b4 n (?o3 @ ?H)"
    by (auto simp: n_def)
  from filled_set [OF b4(2), of "8 + length ?H" "sn_body sn"] obtain b5 where
    b5: "setBytes b4 (8 + length ?H) (sn_body sn) = Inr b5" "filled b5 n ((?o3 @ ?H) @ sn_body sn)"
    by (auto simp: n_def)
  note run = c(1) np b4(1) b5(1) n_def [symmetric] b3_def [symmetric]
  show ?thesis
  proof (cases "sn_ncache sn")
    case None
    have "b5 = response_frame sn"
      using filled_full [OF b5(2)] by (simp add: n_def response_frame_def ncache_trailer_def None)
    then show ?thesis
      using c(2) run by (simp add: encodeResponseEnvelope_def Let_def None)
  next
    case (Some p)
    obtain ttl mx where p: "p = (ttl, mx)" by (cases p)
    let ?off = "8 + length ?H + length (sn_body sn)"
    let ?b8 = "writeU32 (writeU32 (b5[?off := 0xca, ?off + 1 := 0xce]) (?off + 2) ttl) (?off + 6) mx"
    have "filled (b5[?off := 0xca, ?off + 1 := 0xce]) n (((((?o3 @ ?H) @ sn_body sn) @ [0xca]) @ [0xce]))"
      using b5(2) by (intro filled_byte_at) (auto simp: n_def Some)
    then have "filled ?b8 n ((((((?o3 @ ?H) @ sn_body sn) @ [0xca]) @ [0xce]) @ u32le ttl) @ u32le mx)"
      by (intro filled_u32) (auto simp: n_def Some)
    from filled_full [OF this] have "?b8 = response_frame sn"
      by (simp add: n_def response_frame_def ncache_trailer_def Some p)
    then show ?thesis
      using c(2) run by (simp add: encodeResponseEnvelope_def Let_def Some p add.assoc)
  qed
qed

lemma encodeResponseEnvelope_error:
  assumes "wf_cache cache" "\<forall>h\<in>set (sn_headers sn). plain_header h"
    "\<exists>h\<in>set (sn_headers sn). \<not> fits_header h"
  shows "\<exists>n. encodeResponseEnvelope allocUnsafe cache sn
      \<in> {Inl (HeaderNameTooLong n), Inl (HeaderValueTooLong n)}"
  using encode_headers_error [OF assms] by (auto simp: encodeResponseEnvelope_def)

text \<open>The stream encoder checks no width: the lengths it writes wrap, as \<open>u8le\<close> and \<open>u16le\<close> do.\<close>

lemma encode_stream_headers_ok:
  assumes "wf_cache cache"
  shows "\<exists>c. encode_stream_headers cache hs
      = (encoded_pairs hs, length (response_header_bytes hs), c) \<and> wf_cache c"
  using assms
proof (induction hs arbitrary: cache)
  case Nil
  then show ?case by (simp add: encoded_pairs_def response_header_bytes_def)
next
  case (Cons h hs)
  obtain n v where h: "h = (n, v)" by (cases h)
  obtain c1 where c1: "getCachedHeaderNameBytes cache n = (text_encode n, c1)" "wf_cache c1"
    using getCached_bytes [OF Cons.prems] by blast
  from Cons.IH [OF c1(2)] c1(1) show ?case
    by (auto simp: h encoded_pairs_def response_header_bytes_def enc_header_def)
qed

lemma u32le_word:
  "u32le v = (let w = (word_of_int v :: u32) in
     [ucast (w AND 0xff), ucast (drop_bit 8 w AND 0xff), ucast (drop_bit 16 w AND 0xff),
      ucast (drop_bit 24 w AND 0xff)])"
  unfolding Let_def by (simp only: u32le_def byte_low byte_div)

lemma u32le_cong: "(word_of_int v :: u32) = word_of_int w \<Longrightarrow> u32le v = u32le w"
  by (simp only: u32le_word)

lemma stream_id_low: "u32le (sint ((word_of_nat i :: u32) AND 0xffffffff)) = u32le (int i)"
proof -
  have "(0xffffffff :: u32) = - 1" by simp
  then have "(word_of_nat i :: u32) AND 0xffffffff = word_of_nat i"
    by (simp only: and.right_neutral)
  then show ?thesis by (intro u32le_cong) simp
qed

lemma stream_id_high: "u32le (int (unat (word_of_nat j :: u32))) = u32le (int j)"
  by (rule u32le_cong) simp

lemma encodeStreamStartEnvelope_frame:
  assumes alloc: "\<And>n. length (allocUnsafe n) = n" and "wf_cache cache"
  shows "\<exists>c. encodeStreamStartEnvelope allocUnsafe cache i sn = Inr (stream_frame i sn, c) \<and> wf_cache c"
proof -
  let ?H = "response_header_bytes (sn_headers sn)"
  define n where "n = 14 + length ?H"
  obtain c where c: "encode_stream_headers cache (sn_headers sn)
      = (encoded_pairs (sn_headers sn), length ?H, c)" "wf_cache c"
    using encode_stream_headers_ok assms(2) by blast
  define low where "low = sint ((word_of_nat i :: u32) AND 0xffffffff)"
  define high where "high = int (unat (word_of_nat (i div 4294967296) :: u32))"
  define b1 where "b1 = (allocUnsafe n)[0 := 0xff, 1 := 0x53]"
  define b5 where "b5 = writeU16 (writeU16 (writeU32 (writeU32 b1 2 low) 6 high) 10 (sn_status sn)) 12
      (int (length (sn_headers sn)))"
  let ?o1 = "([] @ [0xff]) @ [0x53]"
  let ?o5 = "(((?o1 @ u32le low) @ u32le high) @ u16le (sn_status sn)) @ u16le (int (length (sn_headers sn)))"
  have "filled b1 n ?o1"
    unfolding b1_def by (intro filled_byte_at filled_Nil) (auto simp: alloc n_def)
  then have "filled b5 n ?o5"
    unfolding b5_def by (intro filled_u16 filled_u32) (auto simp: n_def)
  from filled_headers [OF this, of 14 "sn_headers sn"] obtain b6 where
    b6: "write_headers b5 14 (encoded_pairs (sn_headers sn)) = Inr (b6, 14 + length ?H)"
      "filled b6 n (?o5 @ ?H)"
    by (auto simp: n_def)
  have "b6 = ?o5 @ ?H"
    by (rule filled_full [OF b6(2)]) (simp add: n_def)
  also have "\<dots> = stream_frame i sn"
    by (simp only: stream_frame_def low_def high_def stream_id_low stream_id_high append_assoc
        append_Cons append_Nil)
  finally have e: "b6 = stream_frame i sn" .
  have "2 + 8 + 2 + 2 + length ?H = n" by (simp add: n_def)
  then show ?thesis
    using c b6(1) unfolding e
    by (simp add: encodeStreamStartEnvelope_def Let_def low_def high_def b1_def b5_def)
qed

section \<open>Properties\<close>

text \<open>
  A small request: \<open>GET /u/7\<close> with one parameter, one header and a body, and a response with two
  headers and a cache instruction.
\<close>

definition sample_envelope :: request_envelope where
  "sample_envelope =
     \<lparr>env_handlerId = 300, env_flags = 2, env_methodCode = 1, env_urlBytes = [47, 117, 47, 55],
      env_pathBytes = [47, 117, 47, 55], env_ipBytes = [58, 58, 49], env_paramValues = [[55]],
      env_rawHeaders = [([97], [98, 99])], env_bodyBytes = Some [123, 125]\<rparr>"

definition sample_snapshot :: snapshot where
  "sample_snapshot =
     \<lparr>sn_status = 200, sn_headers = [(''content-type'', ''text/plain; charset=utf-8''), (''x'', ''1'')],
      sn_body = [104, 105], sn_ncache = Some (60, 256)\<rparr>"

lemma sample_envelope_wf: "wf_envelope sample_envelope"
  by (simp add: wf_envelope_def sample_envelope_def known_method_code_def ok_param_def ok_header_def
      body_of_def)

lemma sample_headers: "h \<in> set (sn_headers sample_snapshot) \<Longrightarrow> plain_header h \<and> fits_header h"
  by (auto simp: sample_snapshot_def plain_header_def fits_header_def OBJECT_PROTOTYPE_LENGTHS_def)

text \<open>C1: decoding the documented layout of a well-formed request envelope gives the envelope back, whatever
  bytes follow it.\<close>

theorem decode_of_frame:
  assumes "wf_envelope e"
  shows "decodeRequestEnvelope (request_frame e @ trailing) = Inr e"
  using assms by (rule decode_request_frame)

theorem decode_of_frame_witness:
  "decodeRequestEnvelope (request_frame sample_envelope @ [1, 2]) = Inr sample_envelope"
  by (rule decode_of_frame [OF sample_envelope_wf])

text \<open>C16: the decoder accepts nothing but the documented layout: a buffer that decodes is the frame of a
  well-formed envelope, so distinct envelopes have distinct frames and truncated input is rejected.\<close>

theorem decode_accepts_frames_only:
  assumes "decodeRequestEnvelope b = Inr e"
  shows "wf_envelope e \<and> (\<exists>trailing. b = request_frame e @ trailing)"
  using assms by (rule request_frame_decode)

theorem decode_accepts_frames_only_witness:
  "wf_envelope sample_envelope
    \<and> (\<exists>trailing. request_frame sample_envelope @ [] = request_frame sample_envelope @ trailing)"
  by (rule decode_accepts_frames_only, rule decode_request_frame, rule sample_envelope_wf)

text \<open>C3: the response encoder writes exactly its documented layout, whatever the fresh buffer held before
  and whatever header names the shared cache holds, and it keeps the cache correct.\<close>

theorem encode_response_layout:
  assumes "\<And>n. length (allocUnsafe n) = n" and "wf_cache cache"
    and "\<forall>h\<in>set (sn_headers sn). plain_header h \<and> fits_header h"
  shows "\<exists>c. encodeResponseEnvelope allocUnsafe cache sn = Inr (response_frame sn, c) \<and> wf_cache c"
  using assms by (rule encodeResponseEnvelope_frame)

theorem encode_response_layout_witness:
  "\<exists>c. encodeResponseEnvelope (\<lambda>n. replicate n 0x5a) [] sample_snapshot
      = Inr (response_frame sample_snapshot, c) \<and> wf_cache c"
  by (rule encode_response_layout) (auto simp: wf_cache_def dest: sample_headers)

text \<open>a header whose name exceeds 255 bytes or whose value exceeds 65535 bytes makes the response encoder
  throw; it never writes a truncated length.\<close>

theorem encode_response_too_long:
  assumes "wf_cache cache" "\<forall>h\<in>set (sn_headers sn). plain_header h"
    and "\<exists>h\<in>set (sn_headers sn). \<not> fits_header h"
  shows "\<exists>n. encodeResponseEnvelope allocUnsafe cache sn
      \<in> {Inl (HeaderNameTooLong n), Inl (HeaderValueTooLong n)}"
  using assms by (rule encodeResponseEnvelope_error)

theorem encode_response_too_long_witness:
  "\<exists>n. encodeResponseEnvelope (\<lambda>n. replicate n 0) []
      (sample_snapshot\<lparr>sn_headers := [(replicate 256 (CHR ''a''), [])]\<rparr>)
      \<in> {Inl (HeaderNameTooLong n), Inl (HeaderValueTooLong n)}"
  by (rule encode_response_too_long)
    (auto simp: wf_cache_def plain_header_def fits_header_def OBJECT_PROTOTYPE_LENGTHS_def)

text \<open>the stream-start encoder writes its documented layout for every stream id and header list; the
  two 32-bit halves put the id together again, and lengths that do not fit wrap.\<close>

theorem encode_stream_layout:
  assumes "\<And>n. length (allocUnsafe n) = n" and "wf_cache cache"
  shows "\<exists>c. encodeStreamStartEnvelope allocUnsafe cache streamId sn = Inr (stream_frame streamId sn, c)
    \<and> wf_cache c"
  using assms by (rule encodeStreamStartEnvelope_frame)

theorem encode_stream_layout_witness:
  "\<exists>c. encodeStreamStartEnvelope (\<lambda>n. replicate n 0x5a) [] 5000000000 sample_snapshot
      = Inr (stream_frame 5000000000 sample_snapshot, c) \<and> wf_cache c"
  by (rule encode_stream_layout) (simp_all add: wf_cache_def)

end
