(* ===== verification/Json.thy ===== *)
theory Json
  imports Prelude
begin

text \<open>
  JSON values and their text, and the two serializers of \<open>src/src/bridge.js\<close>
  (\<open>createJsonSerializer\<close>): the one that calls \<open>JSON.stringify\<close> and the one specialised to a
  list of keys.  Numbers are integers, objects list their members in enumeration order.
\<close>

section \<open>Values and \<open>JSON.stringify\<close>\<close>

datatype json =
    JNull
  | JBool bool
  | JNum int
  | JStr string
  | JArr "json list"
  | JObj "(string \<times> json) list"

definition hex_lower :: "nat \<Rightarrow> char" where
  "hex_lower n = char_of (if n < 10 then 48 + n else 87 + n)"

definition BS :: char where "BS = CHR 0x5C"

text \<open>The escapes of \<open>JSON.stringify\<close>.\<close>

definition json_escape_char :: "char \<Rightarrow> string" where
  "json_escape_char c =
     (let ch = (of_char c :: nat) in
      if ch = 0x22 then [BS, DQ]
      else if ch = 0x5c then [BS, BS]
      else if ch = 0x08 then [BS, CHR ''b'']
      else if ch = 0x0c then [BS, CHR ''f'']
      else if ch = 0x0a then [BS, CHR ''n'']
      else if ch = 0x0d then [BS, CHR ''r'']
      else if ch = 0x09 then [BS, CHR ''t'']
      else if ch < 0x20 then [BS] @ ''u00'' @ [hex_lower (ch div 16), hex_lower (ch mod 16)]
      else [c])"

definition json_escape :: "string \<Rightarrow> string" where
  "json_escape s = concat (map json_escape_char s)"

definition json_quote :: "string \<Rightarrow> string" where
  "json_quote s = [DQ] @ json_escape s @ [DQ]"

fun stringify :: "json \<Rightarrow> string"
and stringify_items :: "json list \<Rightarrow> string list"
and stringify_members :: "(string \<times> json) list \<Rightarrow> string list" where
  "stringify JNull = ''null''"
| "stringify (JBool b) = (if b then ''true'' else ''false'')"
| "stringify (JNum i) = int_to_string i"
| "stringify (JStr s) = json_quote s"
| "stringify (JArr xs) = ''['' @ join '','' (stringify_items xs) @ '']''"
| "stringify (JObj ms) = ''{'' @ join '','' (stringify_members ms) @ ''}''"
| "stringify_items [] = []"
| "stringify_items (x # xs) = stringify x # stringify_items xs"
| "stringify_members [] = []"
| "stringify_members (m # ms) = (json_quote (fst m) @ '':'' @ stringify (snd m)) # stringify_members ms"

section \<open>The specialised serializer\<close>

definition escapeJsonChar :: "char \<Rightarrow> string" where
  "escapeJsonChar c =
     (let ch = (of_char c :: nat) in
      if ch = 0x22 then [BS, DQ]
      else if ch = 0x5c then [BS, BS]
      else if ch = 0x0a then [BS, CHR ''n'']
      else if ch = 0x0d then [BS, CHR ''r'']
      else if ch = 0x09 then [BS, CHR ''t'']
      else if ch < 0x20 then [BS] @ ''u00'' @ [hex_lower (ch div 16), hex_lower (ch mod 16)]
      else [c])"

definition escapeJsonString :: "string \<Rightarrow> string" where
  "escapeJsonString str = foldl (\<lambda>escaped c. escaped @ escapeJsonChar c) [] str"

definition shape_prefix :: "nat \<Rightarrow> string \<Rightarrow> string" where
  "shape_prefix i k =
     (if i = 0 then ''{'' @ [DQ] else '','' @ [DQ]) @ escapeJsonString k @ [DQ] @ '':''"

text \<open>\<open>value[key]\<close> of an object; a missing key is \<open>undefined\<close>, which is printed as \<open>null\<close>.\<close>

definition shape_value :: "json option \<Rightarrow> string" where
  "shape_value v =
     (case v of
        Some (JStr s) \<Rightarrow> [DQ] @ escapeJsonString s @ [DQ]
      | None \<Rightarrow> ''null''
      | Some JNull \<Rightarrow> ''null''
      | Some w \<Rightarrow> stringify w)"

fun shape_members :: "nat \<Rightarrow> string list \<Rightarrow> (string \<times> json) list \<Rightarrow> string" where
  "shape_members i [] ms = []"
| "shape_members i (k # ks) ms =
     shape_prefix i k @ shape_value (map_of ms k) @ shape_members (Suc i) ks ms"

datatype serializer_mode = FallbackMode | GenericMode | SpecializedMode | ShapeMode

text \<open>The value is an object, or \<open>None\<close> for \<open>null\<close> and \<open>undefined\<close>.\<close>

definition createJsonSerializer ::
  "serializer_mode \<Rightarrow> string list \<Rightarrow> (string \<times> json) list option \<Rightarrow> byte list" where
  "createJsonSerializer mode keys v =
     (if mode = ShapeMode \<and> keys \<noteq> []
      then (case v of
              None \<Rightarrow> text_encode ''null''
            | Some ms \<Rightarrow> text_encode (shape_members 0 keys ms @ ''}''))
      else text_encode (stringify (case v of None \<Rightarrow> JNull | Some ms \<Rightarrow> JObj ms)))"

section \<open>Agreement\<close>

text \<open>The two escapes differ on backspace and form feed only.\<close>

definition no_bf :: "string \<Rightarrow> bool" where
  "no_bf s \<longleftrightarrow> (\<forall>c\<in>set s. (of_char c :: nat) \<noteq> 8 \<and> (of_char c :: nat) \<noteq> 12)"

lemma escape_char_agree:
  "(of_char c :: nat) \<noteq> 8 \<Longrightarrow> (of_char c :: nat) \<noteq> 12 \<Longrightarrow> escapeJsonChar c = json_escape_char c"
  by (simp add: escapeJsonChar_def json_escape_char_def Let_def)

lemma foldl_append_concat: "foldl (\<lambda>acc c. acc @ f c) a s = a @ concat (map f s)"
  by (induction s arbitrary: a) simp_all

lemma escape_agree: "no_bf s \<Longrightarrow> escapeJsonString s = json_escape s"
  unfolding escapeJsonString_def foldl_append_concat json_escape_def no_bf_def
  by (simp add: escape_char_agree cong: map_cong)

definition top_plain :: "(string \<times> json) list \<Rightarrow> bool" where
  "top_plain ms \<longleftrightarrow>
     (\<forall>(k, v)\<in>set ms. no_bf k \<and> (case v of JStr s \<Rightarrow> no_bf s | _ \<Rightarrow> True))"

lemma shape_value_agree:
  "(case v of JStr s \<Rightarrow> no_bf s | _ \<Rightarrow> True) \<Longrightarrow> shape_value (Some v) = stringify v"
  by (cases v) (simp_all add: shape_value_def escape_agree json_quote_def)

lemma shape_members_agree:
  assumes "top_plain ms" "\<And>k v. (k, v) \<in> set ms \<Longrightarrow> map_of all k = Some v"
  shows "shape_members i (map fst ms) all
    = (if ms = [] then [] else (if i = 0 then ''{'' else '','') @ join '','' (stringify_members ms))"
  using assms
proof (induction ms arbitrary: i)
  case Nil
  then show ?case by simp
next
  case (Cons m ms)
  obtain k v where m: "m = (k, v)" by (cases m)
  have "top_plain ms" using Cons.prems(1) by (simp add: top_plain_def)
  note IH = Cons.IH [OF this, of "Suc i"]
  have "no_bf k" and v: "shape_value (Some v) = stringify v"
    using Cons.prems(1) shape_value_agree [of v] by (auto simp: m top_plain_def)
  then have p: "shape_prefix i k = (if i = 0 then ''{'' else '','') @ json_quote k @ '':''"
    by (simp add: shape_prefix_def json_quote_def escape_agree)
  have "map_of all k = Some v" using Cons.prems(2) m by simp
  moreover have "shape_members (Suc i) (map fst ms) all
      = (if ms = [] then [] else '','' @ join '','' (stringify_members ms))"
    using IH Cons.prems(2) by simp
  ultimately show ?case
    by (cases ms) (simp_all add: m p v)
qed

lemma shape_agrees:
  assumes "ms \<noteq> []" "distinct (map fst ms)" "top_plain ms"
  shows "createJsonSerializer ShapeMode (map fst ms) (Some ms)
    = createJsonSerializer FallbackMode [] (Some ms)"
  using assms shape_members_agree [OF assms(3), of ms 0]
  by (simp add: createJsonSerializer_def)

text \<open>Nothing a string can hold ends the literal early or breaks out of it.\<close>

definition clean_literal :: "string \<Rightarrow> bool" where
  "clean_literal s \<longleftrightarrow> (\<forall>c\<in>set s. 32 \<le> (of_char c :: nat))"

lemma escaped_printable: "n < 16 \<Longrightarrow> 32 \<le> (of_char (hex_lower n) :: nat)"
  by (simp add: hex_lower_def)

lemma json_escape_clean: "clean_literal (json_escape s)"
proof -
  have "32 \<le> (of_char d :: nat)" if "d \<in> set (json_escape_char c)" for c d
    using that of_char_lt_256 [of c] escaped_printable [of "of_char c div 16"]
      escaped_printable [of "of_char c mod 16"]
    by (auto simp: json_escape_char_def Let_def BS_def DQ_def less_mult_imp_div_less split: if_splits)
  then show ?thesis by (auto simp: clean_literal_def json_escape_def)
qed

section \<open>Properties\<close>

text \<open>the serializer specialised to the keys of an object writes the same bytes as \<open>JSON.stringify\<close>, as long as
  no key and no string value at the top level holds a backspace or a form feed.\<close>

theorem shape_serializer_agrees:
  assumes "ms \<noteq> []" "distinct (map fst ms)" "top_plain ms"
  shows "createJsonSerializer ShapeMode (map fst ms) (Some ms)
    = createJsonSerializer FallbackMode [] (Some ms)"
  using assms by (rule shape_agrees)

theorem shape_serializer_agrees_witness:
  "createJsonSerializer ShapeMode (map fst [(''id'', JNum 7), (''n'', JStr ''x'')])
      (Some [(''id'', JNum 7), (''n'', JStr ''x'')])
    = createJsonSerializer FallbackMode [] (Some [(''id'', JNum 7), (''n'', JStr ''x'')])"
  by (rule shape_serializer_agrees) (auto simp: top_plain_def no_bf_def)

end
