(* ===== verification/Paths.thy ===== *)
theory Paths
  imports Prelude
begin

text \<open>
  Path prefixes and route paths of \<open>src/src/index.js\<close>: the normal form that every registration
  goes through, prefix matching for middlewares, and the composition of group prefixes; and the
  operations of \<open>node:path\<close> that the sources use on paths of files.
\<close>

section \<open>Operations\<close>

definition strip_slashes :: "string \<Rightarrow> string" where
  "strip_slashes s = rev (dropWhile (\<lambda>c. c = CHR ''/'') (rev s))"

definition normalizePathPrefix :: "string \<Rightarrow> string" where
  "normalizePathPrefix path =
     (if path = ''/'' then ''/''
      else
        let trimmed = strip_slashes path in
        if startsWith trimmed ''/'' then trimmed else ''/'' @ trimmed)"

text \<open>\<open>None\<close> is the \<open>TypeError\<close>.\<close>

definition normalizeRoutePath :: "string \<Rightarrow> string option" where
  "normalizeRoutePath path =
     (if \<not> startsWith path ''/'' then None else Some (normalizePathPrefix path))"

definition pathPrefixMatches :: "string \<Rightarrow> string \<Rightarrow> bool" where
  "pathPrefixMatches pathPrefix requestPath =
     (if pathPrefix = ''/'' then True
      else requestPath = pathPrefix \<or> startsWith requestPath (pathPrefix @ ''/''))"

definition combinePathPrefixes :: "string \<Rightarrow> string \<Rightarrow> string" where
  "combinePathPrefixes basePrefix nextPrefix =
     (if basePrefix = ''/'' then nextPrefix
      else if nextPrefix = ''/'' then basePrefix
      else basePrefix @ nextPrefix)"

definition applyGroupPrefixToRoutePath :: "string \<Rightarrow> string \<Rightarrow> string" where
  "applyGroupPrefixToRoutePath routePath groupPrefix =
     (if groupPrefix = ''/'' then routePath
      else if routePath = ''/'' then groupPrefix
      else groupPrefix @ routePath)"

section \<open>The normal form\<close>

definition normal_path :: "string \<Rightarrow> bool" where
  "normal_path p \<longleftrightarrow> p = ''/'' \<or> (startsWith p ''/'' \<and> last p \<noteq> CHR ''/'')"

lemma strip_slashes_last: "strip_slashes s = [] \<or> last (strip_slashes s) \<noteq> CHR ''/''"
proof -
  have "dropWhile (\<lambda>c. c = CHR ''/'') (rev s) = []
      \<or> hd (dropWhile (\<lambda>c. c = CHR ''/'') (rev s)) \<noteq> CHR ''/''"
    using hd_dropWhile [of "\<lambda>c. c = CHR ''/''" "rev s"] by metis
  then show ?thesis by (auto simp: strip_slashes_def last_rev)
qed

lemma strip_slashes_id: "s \<noteq> [] \<Longrightarrow> last s \<noteq> CHR ''/'' \<Longrightarrow> strip_slashes s = s"
proof -
  assume a: "s \<noteq> []" "last s \<noteq> CHR ''/''"
  then obtain t x where "s = t @ [x]" "x \<noteq> CHR ''/''"
    by (metis append_butlast_last_id)
  then show ?thesis by (simp add: strip_slashes_def)
qed

lemma startsWith_Cons: "startsWith s [c] \<longleftrightarrow> s \<noteq> [] \<and> hd s = c"
  by (cases s) (simp_all add: startsWith_def)

lemma normalize_normal: "normal_path (normalizePathPrefix p)"
  using strip_slashes_last [of p]
  by (auto simp: normalizePathPrefix_def normal_path_def Let_def startsWith_Cons)

lemma normalize_id: "normal_path p \<Longrightarrow> normalizePathPrefix p = p"
  by (auto simp: normalizePathPrefix_def normal_path_def strip_slashes_id startsWith_Cons Let_def)

lemma normal_nonempty: "normal_path p \<Longrightarrow> p \<noteq> []"
  by (auto simp: normal_path_def startsWith_Cons)

lemma combine_normal: "normal_path a \<Longrightarrow> normal_path b \<Longrightarrow> normal_path (combinePathPrefixes a b)"
  by (auto simp: combinePathPrefixes_def normal_path_def startsWith_Cons)

lemma combine_assoc:
  "normal_path a \<Longrightarrow> normal_path b \<Longrightarrow> normal_path c \<Longrightarrow>
    combinePathPrefixes (combinePathPrefixes a b) c = combinePathPrefixes a (combinePathPrefixes b c)"
  by (auto simp: combinePathPrefixes_def normal_path_def startsWith_Cons append_eq_Cons_conv)

lemma apply_group_combine:
  "applyGroupPrefixToRoutePath r (combinePathPrefixes g h)
    = applyGroupPrefixToRoutePath (applyGroupPrefixToRoutePath r h) g"
  if "normal_path g" "normal_path h" "normal_path r"
  using that
  by (auto simp: combinePathPrefixes_def applyGroupPrefixToRoutePath_def normal_path_def
      startsWith_Cons append_eq_Cons_conv)

lemma normal_decomp: "normal_path p \<Longrightarrow> p \<noteq> ''/'' \<Longrightarrow> \<exists>t. p = CHR ''/'' # t \<and> t \<noteq> []"
  by (cases p) (auto simp: normal_path_def startsWith_Cons)

lemma group_route_matches:
  assumes "normal_path g" "normal_path r"
  shows "pathPrefixMatches g (applyGroupPrefixToRoutePath r g)"
proof -
  have "startsWith (g @ r) (g @ ''/'')" if "r \<noteq> ''/''"
    using normal_decomp [OF assms(2) that] by (auto simp: startsWith_iff)
  then show ?thesis by (auto simp: pathPrefixMatches_def applyGroupPrefixToRoutePath_def)
qed

lemma matches_trans:
  assumes "normal_path a" "pathPrefixMatches a b" "pathPrefixMatches b c" "normal_path b"
  shows "pathPrefixMatches a c"
proof (cases "a = ''/'' \<or> b = ''/''")
  case True
  moreover have "a = ''/''" if "b = ''/''"
    using assms(1,2) that normal_decomp [OF assms(1)]
    by (auto simp: pathPrefixMatches_def startsWith_iff Cons_eq_append_conv split: if_splits)
  ultimately show ?thesis by (auto simp: pathPrefixMatches_def)
next
  case False
  then show ?thesis
    using assms(2,3) by (auto simp: pathPrefixMatches_def startsWith_iff)
qed

lemma matches_segments:
  "pathPrefixMatches p q \<longleftrightarrow> p = ''/'' \<or> q = p \<or> (\<exists>t. q = p @ ''/'' @ t)"
  by (auto simp: pathPrefixMatches_def startsWith_iff)

section \<open>Paths of files\<close>

text \<open>
  Paths with \<open>/\<close> as separator.  \<open>basename\<close> is the last nonempty segment; \<open>resolve\<close> gives the
  normalised absolute path, from the working directory \<open>cwd\<close> when the path is relative.
\<close>

definition segments :: "string \<Rightarrow> string list" where
  "segments p = filter (\<lambda>s. s \<noteq> []) (split_on (CHR ''/'') p)"

definition basename :: "string \<Rightarrow> string" where
  "basename p = (if segments p = [] then [] else last (segments p))"

definition push_segment :: "string list \<Rightarrow> string \<Rightarrow> string list" where
  "push_segment acc s = (if s = ''.'' then acc else if s = ''..'' then butlast acc else acc @ [s])"

definition resolve_segments :: "string list \<Rightarrow> string \<Rightarrow> string list" where
  "resolve_segments cwd p =
     foldl push_segment (if startsWith p ''/'' then [] else cwd) (segments p)"

definition path_text :: "string list \<Rightarrow> string" where
  "path_text ss = ''/'' @ join ''/'' ss"

definition resolve :: "string list \<Rightarrow> string \<Rightarrow> string" where
  "resolve cwd p = path_text (resolve_segments cwd p)"

section \<open>Properties\<close>

text \<open>every route of a group lies under the prefix of the group, prefixes compose associatively through nested
  groups, and normalising a path twice changes nothing.\<close>

theorem group_prefix_laws:
  assumes "normal_path g" "normal_path h" "normal_path r"
  shows "pathPrefixMatches g (applyGroupPrefixToRoutePath r g)
    \<and> applyGroupPrefixToRoutePath r (combinePathPrefixes g h)
      = applyGroupPrefixToRoutePath (applyGroupPrefixToRoutePath r h) g
    \<and> normal_path (combinePathPrefixes g h)
    \<and> normalizePathPrefix (normalizePathPrefix p) = normalizePathPrefix p"
  using assms by (simp add: group_route_matches apply_group_combine combine_normal normalize_id
      normalize_normal)

theorem group_prefix_laws_witness:
  "pathPrefixMatches ''/api'' (applyGroupPrefixToRoutePath ''/users'' ''/api'')
    \<and> applyGroupPrefixToRoutePath ''/users'' (combinePathPrefixes ''/api'' ''/v1'')
      = applyGroupPrefixToRoutePath (applyGroupPrefixToRoutePath ''/users'' ''/v1'') ''/api''
    \<and> normal_path (combinePathPrefixes ''/api'' ''/v1'')
    \<and> normalizePathPrefix (normalizePathPrefix ''a//'') = normalizePathPrefix ''a//''"
  by (rule group_prefix_laws) (simp_all add: normal_path_def startsWith_def)

end
