(* ===== verification/Response.thy ===== *)
theory Response
  imports BridgeCodec Json Paths
begin

text \<open>
  The response object of \<open>src/src/index.js\<close> (\<open>RESPONSE_PROTO\<close>): the state it writes, every
  method on it, the pools behind \<open>createResponseEnvelope\<close>, and the HTML payloads.  The theorems
  are the guard against header injection and the rule that the first body wins.  A method that
  throws is the left side.
\<close>

section \<open>State\<close>

record res_state =
  rs_status :: jnum
  rs_headers :: "(string \<times> string) list"
  rs_body :: "byte list"
  rs_finished :: bool
  rs_locals :: "(string \<times> json) list"
  rs_ncache :: "(jnum \<times> jnum) option"
  rs_streaming :: bool
  rs_streamId :: "nat option"

definition fresh_state :: res_state where
  "fresh_state =
     \<lparr>rs_status = Fin 200, rs_headers = [], rs_body = [], rs_finished = False, rs_locals = [],
      rs_ncache = None, rs_streaming = False, rs_streamId = None\<rparr>"

section \<open>Header helpers\<close>

definition has_crlf :: "string \<Rightarrow> bool" where
  "has_crlf s \<longleftrightarrow> contains s [CR] \<or> contains s [LF]"

definition normalizeContentType :: "string \<Rightarrow> string" where
  "normalizeContentType type =
     (if contains type ''/'' then type
      else if type = ''json'' then ''application/json; charset=utf-8''
      else if type = ''html'' then ''text/html; charset=utf-8''
      else if type = ''text'' then ''text/plain; charset=utf-8''
      else type)"

definition record_header :: "(string \<times> string) list \<Rightarrow> string \<times> string \<Rightarrow> (string \<times> string) list" where
  "record_header normalized entry =
     (let headerName = toLowerCase (fst entry); headerValue = snd entry in
      if has_crlf headerName \<or> has_crlf headerValue then normalized
      else AList.update headerName headerValue normalized)"

definition normalizeHeaderRecord :: "(string \<times> string) list option \<Rightarrow> (string \<times> string) list" where
  "normalizeHeaderRecord headers =
     (case headers of None \<Rightarrow> [] | Some hs \<Rightarrow> foldl record_header [] hs)"

section \<open>HTML payloads\<close>

record html_options =
  ho_status :: "jnum option"
  ho_headers :: "(string \<times> string) list option"
  ho_objects :: "json option"

definition html_status :: "jnum option \<Rightarrow> jnum" where
  "html_status s =
     (case s of
        None \<Rightarrow> Fin 200
      | Some x \<Rightarrow> num_max (Fin 100) (num_min (Fin 599) (num_floor (num_or x (Fin 200)))))"

definition normalizeHtmlResponseOptions ::
  "html_options option \<Rightarrow> jnum \<times> (string \<times> string) list \<times> json option" where
  "normalizeHtmlResponseOptions options =
     (case options of
        None \<Rightarrow> (Fin 200, [], None)
      | Some opts \<Rightarrow> (html_status (ho_status opts), normalizeHeaderRecord (ho_headers opts), ho_objects opts))"

text \<open>The replacements act on the UTF-8 bytes: U+2028 and U+2029 are three bytes each.\<close>

definition LS_BYTES :: string where "LS_BYTES = [CHR 0xE2, CHR 0x80, CHR 0xA8]"
definition PS_BYTES :: string where "PS_BYTES = [CHR 0xE2, CHR 0x80, CHR 0xA9]"

definition escapeInlineScriptJson :: "json \<Rightarrow> string" where
  "escapeInlineScriptJson v =
     (let s1 = replace_all (\<lambda>s. startsWith s ''<'') 1 (BS # ''u003c'') (stringify v);
          s2 = replace_all (\<lambda>s. startsWith s ''-->'') 3 (''--'' @ BS # ''u003e'') s1;
          s3 = replace_all (\<lambda>s. startsWith s LS_BYTES) 3 (BS # ''u2028'') s2;
          s4 = replace_all (\<lambda>s. startsWith s PS_BYTES) 3 (BS # ''u2029'') s3 in
      replace_all (\<lambda>s. startsWith (toLowerCase s) ''</script'') 8 (''<'' @ BS # ''/script'') s4)"

text \<open>\<open>/<\\/body\\s*>/i.exec(markup)\<close>: the offset of the first closing tag.\<close>

definition body_close_at :: "string \<Rightarrow> bool" where
  "body_close_at s \<longleftrightarrow> startsWith (toLowerCase s) ''</body''
     \<and> (case dropWhile is_ws (drop 6 s) of c # _ \<Rightarrow> c = CHR ''>'' | [] \<Rightarrow> False)"

fun body_close_index :: "string \<Rightarrow> nat option" where
  "body_close_index [] = None"
| "body_close_index (c # cs) =
     (if body_close_at (c # cs) then Some 0 else map_option Suc (body_close_index cs))"

definition hn_script :: "string \<Rightarrow> string" where
  "hn_script payload = ''<script>window.hnSSR=window.hnSSR||{};window.hnSSR.objects='' @ payload @ '';</script>''"

definition injectHtmlObjectsScript :: "string \<Rightarrow> json option \<Rightarrow> string" where
  "injectHtmlObjectsScript markup objects =
     (if objects = None \<or> objects = Some JNull then markup
      else
        let script = hn_script (escapeInlineScriptJson (the objects)) in
        case body_close_index markup of
          None \<Rightarrow> markup @ script
        | Some i \<Rightarrow> take i markup @ script @ drop i markup)"

definition default_header :: "string \<Rightarrow> (string \<times> string) list \<Rightarrow> (string \<times> string) list" where
  "default_header v headers =
     (if truthy_str (map_of headers ''content-type'') then headers
      else AList.update ''content-type'' v headers)"

definition buildHtmlResponsePayload ::
  "string \<Rightarrow> html_options option \<Rightarrow> jnum \<times> (string \<times> string) list \<times> string" where
  "buildHtmlResponsePayload html options =
     (let (status, headers, objects) = normalizeHtmlResponseOptions options in
      (status, default_header ''text/html; charset=utf-8'' headers,
       injectHtmlObjectsScript html objects))"

section \<open>Methods\<close>

datatype res_error = CrlfInRedirect

definition res_status :: "jnum \<Rightarrow> res_state \<Rightarrow> res_state" where
  "res_status code st = st\<lparr>rs_status := code\<rparr>"

definition res_set :: "string \<Rightarrow> string \<Rightarrow> res_state \<Rightarrow> res_state" where
  "res_set name v st =
     (let headerName = toLowerCase name in
      if has_crlf headerName \<or> has_crlf v then st
      else st\<lparr>rs_headers := AList.update headerName v (rs_headers st)\<rparr>)"

definition res_get :: "string \<Rightarrow> res_state \<Rightarrow> string option" where
  "res_get name st = map_of (rs_headers st) (toLowerCase name)"

definition res_type :: "string \<Rightarrow> res_state \<Rightarrow> res_state" where
  "res_type v st = res_set ''content-type'' (normalizeContentType v) st"

definition finish_with :: "string \<Rightarrow> byte list \<Rightarrow> res_state \<Rightarrow> res_state" where
  "finish_with ct body st =
     st\<lparr>rs_headers := default_header ct (rs_headers st), rs_body := body, rs_finished := True\<rparr>"

definition res_json :: "(json \<Rightarrow> byte list) \<Rightarrow> json \<Rightarrow> res_state \<Rightarrow> res_state" where
  "res_json jsonSerializer d st =
     (if rs_finished st then st
      else finish_with ''application/json; charset=utf-8'' (jsonSerializer d) st)"

definition res_html :: "string \<Rightarrow> html_options option \<Rightarrow> res_state \<Rightarrow> res_state" where
  "res_html html options st =
     (if rs_finished st then st
      else
        let (status, headers, body) = buildHtmlResponsePayload html options in
        st\<lparr>rs_status := status,
           rs_headers := foldl (\<lambda>hs (n, v). AList.update n v hs) (rs_headers st) headers,
           rs_body := text_encode body, rs_finished := True\<rparr>)"

datatype send_data = SendBytes "byte list" | SendText string | SendNothing | SendJson json

definition res_send :: "(json \<Rightarrow> byte list) \<Rightarrow> send_data \<Rightarrow> res_state \<Rightarrow> res_state" where
  "res_send jsonSerializer d st =
     (if rs_finished st then st
      else
        (case d of
           SendBytes b \<Rightarrow> finish_with ''application/octet-stream'' b st
         | SendText s \<Rightarrow> finish_with ''text/plain; charset=utf-8'' (text_encode s) st
         | SendNothing \<Rightarrow> st\<lparr>rs_body := [], rs_finished := True\<rparr>
         | SendJson j \<Rightarrow> res_json jsonSerializer j st))"

text \<open>The status code is an integer here, so \<open>String(code)\<close> is its decimal text.\<close>

definition res_sendStatus :: "(json \<Rightarrow> byte list) \<Rightarrow> int \<Rightarrow> res_state \<Rightarrow> res_state" where
  "res_sendStatus jsonSerializer code st =
     (let st1 = res_status (Fin (of_int code)) st;
          st2 = st1\<lparr>rs_headers := default_header ''text/plain; charset=utf-8'' (rs_headers st1)\<rparr> in
      res_send jsonSerializer (SendText (int_to_string code)) st2)"

definition res_ncache :: "(json \<Rightarrow> byte list) \<Rightarrow> json \<Rightarrow> jnum \<Rightarrow> jnum \<Rightarrow> res_state \<Rightarrow> res_state" where
  "res_ncache jsonSerializer d ttl maxEntries st =
     (if rs_finished st then st
      else
        let ttlSecs = num_max (Fin 1) (num_floor (num_or ttl (Fin 60)));
            mx = num_max (Fin 1) (num_floor (num_or maxEntries (Fin 256))) in
        (finish_with ''application/json; charset=utf-8'' (jsonSerializer d) st)
          \<lparr>rs_ncache := Some (ttlSecs, mx)\<rparr>)"

text \<open>The stream id comes from the native module.\<close>

definition res_stream :: "nat \<Rightarrow> string option \<Rightarrow> res_state \<Rightarrow> nat option \<times> res_state" where
  "res_stream streamId contentType st =
     (if rs_finished st then (None, st)
      else
        let ct = (if truthy_str contentType then the contentType else ''application/octet-stream'') in
        (Some streamId,
         st\<lparr>rs_headers := default_header ct (rs_headers st), rs_finished := True,
            rs_streaming := True, rs_streamId := Some streamId\<rparr>))"

text \<open>A redirect that throws has already stored the status.\<close>

definition res_redirect :: "string \<Rightarrow> jnum \<Rightarrow> res_state \<Rightarrow> res_error option \<times> res_state" where
  "res_redirect url status st =
     (if rs_finished st then (None, st)
      else
        let st1 = st\<lparr>rs_status := status\<rparr> in
        if has_crlf url then (Some CrlfInRedirect, st1)
        else (None, st1\<lparr>rs_headers := AList.update ''location'' url (rs_headers st1),
                rs_body := [], rs_finished := True\<rparr>))"

datatype res_op =
    OpStatus jnum
  | OpSet string string
  | OpType string
  | OpJson json
  | OpHtml string "html_options option"
  | OpSend send_data
  | OpSendStatus int
  | OpNcache json jnum jnum
  | OpStream nat "string option"
  | OpRedirect string jnum

fun apply_op :: "(json \<Rightarrow> byte list) \<Rightarrow> res_op \<Rightarrow> res_state \<Rightarrow> res_state" where
  "apply_op ser (OpStatus c) st = res_status c st"
| "apply_op ser (OpSet n v) st = res_set n v st"
| "apply_op ser (OpType t) st = res_type t st"
| "apply_op ser (OpJson j) st = res_json ser j st"
| "apply_op ser (OpHtml h opts) st = res_html h opts st"
| "apply_op ser (OpSend d) st = res_send ser d st"
| "apply_op ser (OpSendStatus c) st = res_sendStatus ser c st"
| "apply_op ser (OpNcache j t m) st = res_ncache ser j t m st"
| "apply_op ser (OpStream i ct) st = snd (res_stream i ct st)"
| "apply_op ser (OpRedirect u s) st = snd (res_redirect u s st)"

definition apply_ops :: "(json \<Rightarrow> byte list) \<Rightarrow> res_op list \<Rightarrow> res_state \<Rightarrow> res_state" where
  "apply_ops ser ops st = foldl (\<lambda>st f. apply_op ser f st) st ops"

definition createStaticHtmlFallbackHandler ::
  "jnum \<times> (string \<times> string) list \<times> string \<Rightarrow> res_op list" where
  "createStaticHtmlFallbackHandler staticResponse =
     (let (status, headers, body) = staticResponse in
      OpStatus status # map (\<lambda>(n, v). OpSet n v) headers @ [OpSend (SendText body)])"

section \<open>Envelopes and pools\<close>

definition RESPONSE_POOL_MAX :: nat where "RESPONSE_POOL_MAX = 512"

definition pool_pop :: "'a list \<Rightarrow> 'a option \<times> 'a list" where
  "pool_pop xs = (if xs = [] then (None, []) else (Some (last xs), butlast xs))"

definition reset_state :: "res_state \<Rightarrow> res_state" where
  "reset_state pooled =
     pooled\<lparr>rs_status := Fin 200, rs_headers := [], rs_body := [], rs_finished := False,
       rs_locals := [], rs_ncache := None, rs_streaming := False, rs_streamId := None\<rparr>"

definition acquireResponseState :: "res_state list \<Rightarrow> res_state \<times> res_state list" where
  "acquireResponseState pool =
     (case pool_pop pool of (Some pooled, p) \<Rightarrow> (reset_state pooled, p) | (None, p) \<Rightarrow> (fresh_state, p))"

definition releaseResponseState :: "res_state \<Rightarrow> res_state list \<Rightarrow> res_state list" where
  "releaseResponseState st pool = (if length pool < RESPONSE_POOL_MAX then pool @ [st] else pool)"

text \<open>
  The response object apart from its state: the properties that middlewares hang on it.
\<close>

record response_obj =
  ro_inUse :: bool
  ro_props :: "(string \<times> json) list"

record response_pools =
  rp_states :: "res_state list"
  rp_objects :: "response_obj list"

definition createResponseEnvelope :: "response_pools \<Rightarrow> (response_obj \<times> res_state) \<times> response_pools" where
  "createResponseEnvelope pools =
     (let (st, ps) = acquireResponseState (rp_states pools);
          (ob, po) = pool_pop (rp_objects pools);
          response = (case ob of Some x \<Rightarrow> x | None \<Rightarrow> \<lparr>ro_inUse = False, ro_props = []\<rparr>) in
      ((response\<lparr>ro_inUse := True\<rparr>, st), \<lparr>rp_states = ps, rp_objects = po\<rparr>))"

definition release_response :: "response_obj \<Rightarrow> res_state \<Rightarrow> response_pools \<Rightarrow> response_pools" where
  "release_response response st pools =
     \<lparr>rp_states = releaseResponseState st (rp_states pools),
      rp_objects = (if length (rp_objects pools) < RESPONSE_POOL_MAX
        then rp_objects pools @ [response\<lparr>ro_inUse := False\<rparr>] else rp_objects pools)\<rparr>"

definition take_snapshot :: "res_state \<Rightarrow> snapshot" where
  "take_snapshot st =
     \<lparr>sn_status = num_bits (rs_status st), sn_headers = rs_headers st, sn_body = rs_body st,
      sn_ncache = map_option (\<lambda>(t, m). (num_bits t, num_bits m)) (rs_ncache st)\<rparr>"

section \<open>Invariants of every method\<close>

text \<open>An invariant that each method keeps holds after any sequence of calls.\<close>

locale method_invariant =
  fixes ser :: "json \<Rightarrow> byte list" and allowed :: "res_op \<Rightarrow> bool" and inv :: "res_state \<Rightarrow> bool"
  assumes keeps: "allowed f \<Longrightarrow> inv st \<Longrightarrow> inv (apply_op ser f st)"
begin

lemma keeps_all: "(\<forall>f\<in>set ops. allowed f) \<Longrightarrow> inv st \<Longrightarrow> inv (apply_ops ser ops st)"
  unfolding apply_ops_def by (induction ops arbitrary: st) (auto intro: keeps)

end

definition clean_header :: "string \<times> string \<Rightarrow> bool" where
  "clean_header h \<longleftrightarrow> \<not> has_crlf (fst h) \<and> \<not> has_crlf (snd h) \<and> toLowerCase (fst h) = fst h"

definition clean_headers :: "(string \<times> string) list \<Rightarrow> bool" where
  "clean_headers hs \<longleftrightarrow> (\<forall>h\<in>set hs. clean_header h) \<and> distinct (map fst hs)"

lemma has_crlf_iff: "has_crlf s \<longleftrightarrow> CR \<in> set s \<or> LF \<in> set s"
  by (simp add: has_crlf_def contains_char)

lemma update_entries: "set (AList.update k v al) \<subseteq> insert (k, v) (set al)"
  by (induction al) auto

lemma clean_headers_update:
  "clean_headers hs \<Longrightarrow> clean_header (k, v) \<Longrightarrow> clean_headers (AList.update k v hs)"
  using update_entries [of k v hs] by (auto simp: clean_headers_def distinct_update)

lemma const_clean:
  "clean_header (''content-type'', ''application/json; charset=utf-8'')"
  "clean_header (''content-type'', ''application/octet-stream'')"
  "clean_header (''content-type'', ''text/plain; charset=utf-8'')"
  "clean_header (''content-type'', ''text/html; charset=utf-8'')"
  by (simp_all add: clean_header_def has_crlf_iff CR_def LF_def toLowerCase_def lower_char_def)

lemma clean_default:
  "clean_headers hs \<Longrightarrow> clean_header (''content-type'', v) \<Longrightarrow> clean_headers (default_header v hs)"
  by (simp add: default_header_def clean_headers_update)

lemma clean_record: "clean_headers hs \<Longrightarrow> clean_headers (record_header hs e)"
  by (auto simp: record_header_def Let_def clean_header_def intro!: clean_headers_update)

lemma clean_foldl:
  "(\<And>hs e. e \<in> set es \<Longrightarrow> clean_headers hs \<Longrightarrow> clean_headers (g hs e)) \<Longrightarrow> clean_headers hs
    \<Longrightarrow> clean_headers (foldl g hs es)"
  by (induction es arbitrary: hs) auto

lemma clean_html_headers:
  "clean_headers (fst (snd (buildHtmlResponsePayload html options)))"
  unfolding buildHtmlResponsePayload_def normalizeHtmlResponseOptions_def normalizeHeaderRecord_def
  by (auto simp: Let_def clean_headers_def [of "[]"] split: option.split
      intro!: clean_default const_clean clean_foldl clean_record)

definition guarded_op :: "res_op \<Rightarrow> bool" where
  "guarded_op f \<longleftrightarrow>
     (case f of OpStream i (Some ct) \<Rightarrow> \<not> has_crlf ct | _ \<Rightarrow> True)"

lemma clean_stream_type:
  "guarded_op (OpStream i ct) \<Longrightarrow> clean_header (''content-type'',
    if truthy_str ct then the ct else ''application/octet-stream'')"
  using const_clean(2)
  by (cases ct) (auto simp: guarded_op_def clean_header_def has_crlf_iff truthy_str_def)

lemma lower_const: "toLowerCase ''location'' = ''location''" "\<not> has_crlf ''location''"
  by (simp_all add: toLowerCase_def lower_char_def has_crlf_iff CR_def LF_def)

lemma clean_set: "clean_headers (rs_headers st) \<Longrightarrow> clean_headers (rs_headers (res_set n v st))"
  by (auto simp: res_set_def Let_def clean_header_def intro!: clean_headers_update)

lemma clean_html:
  assumes "clean_headers (rs_headers st)"
  shows "clean_headers (rs_headers (res_html h opts st))"
proof -
  obtain status headers body where b: "buildHtmlResponsePayload h opts = (status, headers, body)"
    by (cases "buildHtmlResponsePayload h opts") auto
  have "\<forall>e\<in>set headers. clean_header e"
    using clean_html_headers [of h opts] by (simp add: b clean_headers_def)
  then have "clean_headers (foldl (\<lambda>hs (n, v). AList.update n v hs) (rs_headers st) headers)"
    using assms by (intro clean_foldl) (auto intro: clean_headers_update)
  then show ?thesis using assms by (simp add: res_html_def b)
qed

lemma clean_finish:
  "clean_headers (rs_headers st) \<Longrightarrow> clean_header (''content-type'', ct)
    \<Longrightarrow> clean_headers (rs_headers (finish_with ct b st))"
  by (simp add: finish_with_def clean_default)

lemma clean_send:
  "clean_headers (rs_headers st) \<Longrightarrow> clean_headers (rs_headers (res_send ser d st))"
  by (cases d) (simp_all add: res_send_def res_json_def clean_finish const_clean)

interpretation header_guard: method_invariant ser guarded_op "\<lambda>st. clean_headers (rs_headers st)" for ser
proof
  fix f and st :: res_state
  assume g: "guarded_op f" and c: "clean_headers (rs_headers st)"
  show "clean_headers (rs_headers (apply_op ser f st))"
  proof (cases f)
    case (OpStream i ct)
    then show ?thesis
      using c clean_default [OF c clean_stream_type] g
      by (simp add: res_stream_def Let_def)
  next
    case (OpRedirect u x)
    then show ?thesis
      using c by (auto simp: res_redirect_def Let_def clean_header_def lower_const
          intro!: clean_headers_update)
  qed (use c in \<open>simp_all add: res_status_def clean_set res_type_def clean_html clean_send res_json_def
      res_sendStatus_def res_ncache_def clean_finish const_clean clean_default Let_def\<close>)
qed

text \<open>Once the response is finished its body is final; status and headers are not.\<close>

definition same_payload :: "res_state \<Rightarrow> res_state \<Rightarrow> bool" where
  "same_payload a b \<longleftrightarrow> rs_finished b \<and> rs_body a = rs_body b \<and> rs_ncache a = rs_ncache b
     \<and> rs_streaming a = rs_streaming b \<and> rs_streamId a = rs_streamId b"

interpretation first_body: method_invariant ser "\<lambda>_. True" "same_payload a" for ser a
proof
  fix f and st :: res_state
  assume "same_payload a st"
  then show "same_payload a (apply_op ser f st)"
    by (cases f) (simp_all add: same_payload_def res_status_def res_set_def res_type_def res_json_def
        res_html_def res_send_def res_sendStatus_def res_ncache_def res_stream_def res_redirect_def Let_def)
qed

lemma body_final: "rs_finished st \<Longrightarrow> same_payload st (apply_ops ser ops st)"
  by (rule first_body.keeps_all) (simp_all add: same_payload_def)

section \<open>HTML\<close>

lemma html_status_range:
  "\<exists>r. html_status s = Fin r \<and> 100 \<le> r \<and> r \<le> 599"
proof (cases s)
  case None
  then show ?thesis by (simp add: html_status_def)
next
  case (Some x)
  have "num_max (Fin 100) (num_min (Fin 599) (num_floor y)) \<in> {Fin r |r. 100 \<le> r \<and> r \<le> 599}" if "y \<noteq> NaN" for y
    using that by (cases y) (auto simp: num_max_def num_min_def num_floor_def num_le_def)
  moreover have "num_or x (Fin 200) \<noteq> NaN" by (simp add: num_or_def truthy_num_def)
  ultimately show ?thesis using Some by (auto simp: html_status_def)
qed

lemma replace_first_char: "c \<notin> set rep \<Longrightarrow> c \<notin> set (replace_all (\<lambda>s. startsWith s [c]) 1 rep s)"
  by (induction "\<lambda>s. startsWith s [c]" "1::nat" rep s rule: replace_all.induct)
    (auto simp: startsWith_def)

lemma replace_none: "(\<And>t. suffix t s \<Longrightarrow> t \<noteq> [] \<Longrightarrow> \<not> m t) \<Longrightarrow> replace_all m n rep s = s"
proof (induction m n rep s rule: replace_all.induct)
  case (2 m n rep c cs)
  have "\<not> m (c # cs)" using 2(3) by simp
  moreover have "replace_all m n rep cs = cs"
    using 2(2) [OF calculation] 2(3) by (meson suffix_ConsI)
  ultimately show ?case by simp
qed simp

lemma BS_ne_lt: "BS \<noteq> CHR ''<''"
  by (simp add: BS_def)

lemma lower_lt: "lower_char c = CHR ''<'' \<longleftrightarrow> c = CHR ''<''"
proof -
  have "lower_char c = CHR ''<'' \<Longrightarrow> c = CHR ''<''"
    using of_char_lt_256 [of c]
    by (auto simp: lower_char_def Let_def dest!: arg_cong [of _ _ "of_char :: char \<Rightarrow> nat"] split: if_splits)
  then show ?thesis by (auto simp: lower_char_def)
qed

text \<open>No serialized value can close the script element it is embedded in.\<close>

lemma escape_inline_no_lt: "CHR ''<'' \<notin> set (escapeInlineScriptJson v)"
proof -
  define s1 where "s1 = replace_all (\<lambda>s. startsWith s ''<'') 1 (BS # ''u003c'') (stringify v)"
  define s4 where "s4 = replace_all (\<lambda>s. startsWith s PS_BYTES) 3 (BS # ''u2029'')
    (replace_all (\<lambda>s. startsWith s LS_BYTES) 3 (BS # ''u2028'')
      (replace_all (\<lambda>s. startsWith s ''-->'') 3 (''--'' @ BS # ''u003e'') s1))"
  have "CHR ''<'' \<notin> set s1"
    unfolding s1_def using BS_ne_lt by (intro replace_first_char) simp
  then have s4: "CHR ''<'' \<notin> set s4"
    unfolding s4_def using BS_ne_lt by (auto dest!: subsetD [OF replace_all_set])
  have "\<not> startsWith (toLowerCase t) ''</script''" if "suffix t s4" for t
  proof
    assume "startsWith (toLowerCase t) ''</script''"
    then have "CHR ''<'' \<in> set (toLowerCase t)" by (auto simp: startsWith_iff)
    then obtain x where "x \<in> set t" "lower_char x = CHR ''<''" by (auto simp: toLowerCase_def)
    then have "CHR ''<'' \<in> set t" using lower_lt [of x] by simp
    then show False using s4 that by (auto dest: set_mono_suffix)
  qed
  then have "replace_all (\<lambda>s. startsWith (toLowerCase s) ''</script'') 8 (''<'' @ BS # ''/script'') s4 = s4"
    by (intro replace_none)
  then have "escapeInlineScriptJson v = s4"
    unfolding escapeInlineScriptJson_def Let_def s1_def [symmetric] s4_def [symmetric] .
  then show ?thesis using s4 by simp
qed

section \<open>Pools\<close>

lemma reset_fresh [simp]: "reset_state st = fresh_state"
  by (cases st) (simp add: reset_state_def fresh_state_def)

lemma acquired_state: "snd (fst (createResponseEnvelope pools)) = fresh_state"
  by (simp add: createResponseEnvelope_def acquireResponseState_def pool_pop_def split_beta)

lemma release_bound:
  "length (rp_states pools) \<le> RESPONSE_POOL_MAX \<Longrightarrow> length (rp_objects pools) \<le> RESPONSE_POOL_MAX
    \<Longrightarrow> length (rp_states (release_response ob st pools)) \<le> RESPONSE_POOL_MAX
      \<and> length (rp_objects (release_response ob st pools)) \<le> RESPONSE_POOL_MAX"
  by (simp add: release_response_def releaseResponseState_def)

lemma recycled_props:
  "length (rp_objects pools) < RESPONSE_POOL_MAX
    \<Longrightarrow> ro_props (fst (fst (createResponseEnvelope (release_response ob st pools)))) = ro_props ob"
  by (simp add: createResponseEnvelope_def release_response_def pool_pop_def split_beta)

section \<open>Properties\<close>

text \<open>C17: no sequence of calls on the response object can put a carriage return or a line feed into a header
  name or value, except \<open>stream\<close> with such a content type; names stay lower case and unique.\<close>

theorem header_injection_guard:
  assumes "\<forall>f\<in>set ops. guarded_op f"
  shows "clean_headers (rs_headers (apply_ops serializer ops fresh_state))"
  by (rule header_guard.keeps_all [OF assms]) (simp add: fresh_state_def clean_headers_def)

theorem header_injection_guard_witness:
  "clean_headers (rs_headers (apply_ops (\<lambda>_. []) [OpSet ''X-A'' [CR], OpRedirect [LF] (Fin 302), OpJson JNull]
    fresh_state))"
  by (rule header_injection_guard) (simp add: guarded_op_def)

text \<open>the exception is real: a content type handed to \<open>stream\<close> reaches the headers with its line breaks.\<close>

theorem stream_bypasses_guard:
  "\<exists>h\<in>set (rs_headers (apply_ops serializer [OpStream 1 (Some (''a'' @ [CR, LF] @ ''x: y''))] fresh_state)).
     has_crlf (snd h)"
  by (simp add: apply_ops_def res_stream_def Let_def fresh_state_def truthy_str_def default_header_def
      has_crlf_iff)

text \<open>the first body wins: once a response is finished, no later call changes its body, its cache
  instruction or its stream.\<close>

theorem first_body_wins:
  assumes "rs_finished st"
  shows "same_payload st (apply_ops serializer ops st)"
  using assms by (rule body_final)

theorem first_body_wins_witness:
  "same_payload (res_send (\<lambda>_. []) (SendText ''a'') fresh_state)
    (apply_ops (\<lambda>_. []) [OpJson JNull, OpSendStatus 500] (res_send (\<lambda>_. []) (SendText ''a'') fresh_state))"
  by (rule first_body_wins) (simp add: res_send_def finish_with_def fresh_state_def)

text \<open>a value embedded into an HTML page as script data contains no \<open><\<close>, so it can neither close the script
  element nor open another one.\<close>

theorem inline_json_cannot_close_script:
  "CHR ''<'' \<notin> set (escapeInlineScriptJson v)"
  by (rule escape_inline_no_lt)

text \<open>every request starts from the initial response state whatever the pool holds, but the properties
  that middlewares hung on the response object of an earlier request are still there.\<close>

theorem pooled_response:
  "snd (fst (createResponseEnvelope pools)) = fresh_state
    \<and> (length (rp_objects pools) < RESPONSE_POOL_MAX \<longrightarrow>
        ro_props (fst (fst (createResponseEnvelope (release_response ob st pools)))) = ro_props ob)"
  using acquired_state recycled_props by blast

theorem pooled_response_witness:
  "ro_props (fst (fst (createResponseEnvelope
      (release_response \<lparr>ro_inUse = True, ro_props = [(''_sessionId'', JStr ''s1'')]\<rparr> fresh_state
        \<lparr>rp_states = [], rp_objects = []\<rparr>)))) = [(''_sessionId'', JStr ''s1'')]"
  using pooled_response [of "\<lparr>rp_states = [], rp_objects = []\<rparr>"
    "\<lparr>ro_inUse = True, ro_props = [(''_sessionId'', JStr ''s1'')]\<rparr>" fresh_state]
  by (simp add: RESPONSE_POOL_MAX_def)

end
