(* ===== verification/AccessPlan.thy ===== *)
theory AccessPlan
  imports Prelude
begin

text \<open>
  The static analysis of \<open>src/src/bridge.js\<close> that decides which parts of the request a handler
  needs: the access plan, the walk over the syntax tree that acorn returns, the recognition of
  \<open>req\<close> accesses, and the merging of the plans of a route, its middlewares and its error
  handlers.  Syntax trees have the shape of the ESTree objects: a type and named fields, each
  of which is a node, a list of nodes or a primitive value.  The locale \<open>accumulator\<close> is the
  contract of every loop that only ever adds demands to a plan.
\<close>

section \<open>Plans\<close>

datatype dispatch_kind = Specialized | GenericFallback
datatype json_fast_path = JFallback | JGeneric | JSpecialized

record access_plan =
  pl_method :: bool
  pl_path :: bool
  pl_url :: bool
  pl_fullParams :: bool
  pl_fullQuery :: bool
  pl_fullHeaders :: bool
  pl_paramKeys :: "string list"
  pl_queryKeys :: "string list"
  pl_headerKeys :: "string list"
  pl_dispatchKind :: dispatch_kind
  pl_jsonFastPath :: json_fast_path

definition createEmptyAccessPlan :: access_plan where
  "createEmptyAccessPlan =
     \<lparr>pl_method = False, pl_path = False, pl_url = False, pl_fullParams = False,
      pl_fullQuery = False, pl_fullHeaders = False, pl_paramKeys = [], pl_queryKeys = [],
      pl_headerKeys = [], pl_dispatchKind = Specialized, pl_jsonFastPath = JFallback\<rparr>"

text \<open>A JavaScript \<open>Set\<close> keeps the order of insertion.\<close>

definition set_add :: "'a list \<Rightarrow> 'a \<Rightarrow> 'a list" where
  "set_add s x = (if x \<in> set s then s else s @ [x])"

definition addSetEntries :: "'a list \<Rightarrow> 'a list \<Rightarrow> 'a list" where
  "addSetEntries target source = foldl set_add target source"

lemma set_set_add [simp]: "set (set_add s x) = insert x (set s)"
  by (auto simp: set_add_def)

lemma set_addSetEntries [simp]: "set (addSetEntries t s) = set t \<union> set s"
  unfolding addSetEntries_def by (induction s arbitrary: t) auto

section \<open>Syntax trees\<close>

datatype ast = Node (ntype: string) (nprops: "(string \<times> field) list")
and field =
    FNode ast
  | FNodes "ast option list"
  | FStr string
  | FBool bool
  | FNum int
  | FNull
  | FObj

definition prop_of :: "ast \<Rightarrow> string \<Rightarrow> field option" where
  "prop_of n k = map_of (nprops n) k"

definition node_at :: "ast \<Rightarrow> string \<Rightarrow> ast option" where
  "node_at n k = (case prop_of n k of Some (FNode m) \<Rightarrow> Some m | _ \<Rightarrow> None)"

definition nodes_at :: "ast \<Rightarrow> string \<Rightarrow> ast option list" where
  "nodes_at n k = (case prop_of n k of Some (FNodes ms) \<Rightarrow> ms | _ \<Rightarrow> [])"

definition str_at :: "ast \<Rightarrow> string \<Rightarrow> string option" where
  "str_at n k = (case prop_of n k of Some (FStr s) \<Rightarrow> Some s | _ \<Rightarrow> None)"

definition is_computed :: "ast \<Rightarrow> bool" where
  "is_computed n \<longleftrightarrow> prop_of n ''computed'' = Some (FBool True)"

definition type_at :: "ast \<Rightarrow> string \<Rightarrow> string option" where
  "type_at n k = map_option ntype (node_at n k)"

text \<open>
  The calls \<open>visitor(node)\<close> of \<open>walkNode\<close> in order, each with the \<open>_parent\<close> that was set on the
  node and the field of the parent that holds it.
\<close>

type_synonym parent = "(ast \<times> string) option"

fun trace_node :: "parent \<Rightarrow> ast \<Rightarrow> (parent \<times> ast) list"
and trace_props :: "ast \<Rightarrow> (string \<times> field) list \<Rightarrow> (parent \<times> ast) list"
and trace_field :: "ast \<Rightarrow> string \<Rightarrow> field \<Rightarrow> (parent \<times> ast) list"
and trace_items :: "ast \<Rightarrow> string \<Rightarrow> ast option list \<Rightarrow> (parent \<times> ast) list" where
  "trace_node par (Node t ps) = (par, Node t ps) # trace_props (Node t ps) ps"
| "trace_props n [] = []"
| "trace_props n (kf # ps) = trace_field n (fst kf) (snd kf) @ trace_props n ps"
| "trace_field n k (FNode m) = trace_node (Some (n, k)) m"
| "trace_field n k (FNodes ms) = trace_items n k ms"
| "trace_field n k (FStr s) = []"
| "trace_field n k (FBool b) = []"
| "trace_field n k (FNum i) = []"
| "trace_field n k FNull = []"
| "trace_field n k FObj = []"
| "trace_items n k [] = []"
| "trace_items n k (None # ms) = trace_items n k ms"
| "trace_items n k (Some m # ms) = trace_node (Some (n, k)) m @ trace_items n k ms"

definition walkNode :: "(parent \<Rightarrow> ast \<Rightarrow> 's \<Rightarrow> 's) \<Rightarrow> ast \<Rightarrow> 's \<Rightarrow> 's" where
  "walkNode visitor node s = foldl (\<lambda>s e. visitor (fst e) (snd e) s) s (trace_node None node)"

section \<open>Recognising the request\<close>

definition visit_function :: "parent \<Rightarrow> ast \<Rightarrow> string list \<Rightarrow> string list" where
  "visit_function par node names =
     (if ntype node \<in> {''ArrowFunctionExpression'', ''FunctionExpression'', ''FunctionDeclaration''}
      then (case nodes_at node ''params'' of
              Some first # _ \<Rightarrow>
                if ntype first = ''Identifier''
                then (case str_at first ''name'' of Some x \<Rightarrow> set_add names x | None \<Rightarrow> names)
                else if ntype first = ''ObjectPattern'' then set_add names ''__destructured__''
                else names
            | _ \<Rightarrow> names)
      else names)"

definition findReqParamNames :: "ast \<Rightarrow> string list" where
  "findReqParamNames ast = walkNode visit_function ast []"

definition isReqIdentifier :: "ast option \<Rightarrow> string list \<Rightarrow> bool" where
  "isReqIdentifier node reqNames =
     (case node of
        Some n \<Rightarrow> ntype n = ''Identifier'' \<and>
          (case str_at n ''name'' of Some x \<Rightarrow> x \<in> set reqNames | None \<Rightarrow> False)
      | None \<Rightarrow> False)"

definition memberPropName :: "ast \<Rightarrow> string option" where
  "memberPropName node =
     (if \<not> is_computed node \<and> type_at node ''property'' = Some ''Identifier''
      then Option.bind (node_at node ''property'') (\<lambda>p. str_at p ''name'')
      else if is_computed node \<and> type_at node ''property'' = Some ''Literal''
      then Option.bind (node_at node ''property'') (\<lambda>p. str_at p ''value'')
      else None)"

text \<open>An empty name is falsy, so \<open>if (!prop)\<close> and \<open>if (key)\<close> treat it as no name.\<close>

definition static_name :: "ast \<Rightarrow> string option" where
  "static_name n = (case memberPropName n of Some [] \<Rightarrow> None | r \<Rightarrow> r)"

definition normalizeHeaderLookup :: "string \<Rightarrow> string" where
  "normalizeHeaderLookup v = toLowerCase v"

datatype section_kind = ParamsSec | QuerySec | HeadersSec

definition mark_full :: "section_kind \<Rightarrow> access_plan \<Rightarrow> access_plan" where
  "mark_full s plan =
     (case s of
        ParamsSec \<Rightarrow> plan\<lparr>pl_fullParams := True, pl_dispatchKind := GenericFallback\<rparr>
      | QuerySec \<Rightarrow> plan\<lparr>pl_fullQuery := True, pl_dispatchKind := GenericFallback\<rparr>
      | HeadersSec \<Rightarrow> plan\<lparr>pl_fullHeaders := True, pl_dispatchKind := GenericFallback\<rparr>)"

definition mark_key :: "section_kind \<Rightarrow> string \<Rightarrow> access_plan \<Rightarrow> access_plan" where
  "mark_key s k plan =
     (case s of
        ParamsSec \<Rightarrow> plan\<lparr>pl_paramKeys := set_add (pl_paramKeys plan) k\<rparr>
      | QuerySec \<Rightarrow> plan\<lparr>pl_queryKeys := set_add (pl_queryKeys plan) k\<rparr>
      | HeadersSec \<Rightarrow>
          plan\<lparr>pl_headerKeys := set_add (pl_headerKeys plan) (normalizeHeaderLookup k)\<rparr>)"

text \<open>
  \<open>grandparent.object !== parentNode\<close> compares references: the node is the object of its parent
  exactly when it was reached through the field \<open>object\<close>.
\<close>

definition markSubAccess :: "parent \<Rightarrow> section_kind \<Rightarrow> access_plan \<Rightarrow> access_plan" where
  "markSubAccess par s plan =
     (case par of
        Some (g, k) \<Rightarrow>
          if ntype g \<noteq> ''MemberExpression'' \<or> k \<noteq> ''object'' then mark_full s plan
          else (case static_name g of
                  Some key \<Rightarrow> mark_key s key plan
                | None \<Rightarrow> mark_full s plan)
      | None \<Rightarrow> mark_full s plan)"

definition markCallArg :: "parent \<Rightarrow> section_kind \<Rightarrow> access_plan \<Rightarrow> access_plan" where
  "markCallArg par s plan =
     (case par of
        Some (g, k) \<Rightarrow>
          if ntype g = ''CallExpression'' \<and> k = ''callee''
          then (case nodes_at g ''arguments'' of
                  Some arg # _ \<Rightarrow>
                    if ntype arg = ''Literal''
                    then (case str_at arg ''value'' of
                            Some v \<Rightarrow> mark_key s v plan
                          | None \<Rightarrow> mark_full s plan)
                    else mark_full s plan
                | _ \<Rightarrow> mark_full s plan)
          else mark_full s plan
      | None \<Rightarrow> mark_full s plan)"

text \<open>The key of a destructured property: \<open>prop.key?.name ?? prop.key?.value\<close>, if truthy.\<close>

datatype pattern_key = NoKey | Key string | OtherKey

definition pattern_key :: "ast \<Rightarrow> pattern_key" where
  "pattern_key p =
     (case node_at p ''key'' of
        None \<Rightarrow> NoKey
      | Some k \<Rightarrow>
          (case prop_of k ''name'' of
             Some (FStr x) \<Rightarrow> (if x = [] then NoKey else Key x)
           | _ \<Rightarrow>
               (case prop_of k ''value'' of
                  Some (FStr x) \<Rightarrow> (if x = [] then NoKey else Key x)
                | Some (FNum i) \<Rightarrow> (if i = 0 then NoKey else OtherKey)
                | Some (FBool b) \<Rightarrow> (if b then OtherKey else NoKey)
                | Some FNull \<Rightarrow> NoKey
                | None \<Rightarrow> NoKey
                | Some _ \<Rightarrow> OtherKey)))"

definition mark_three :: "access_plan \<Rightarrow> access_plan" where
  "mark_three plan = mark_full HeadersSec (mark_full QuerySec (mark_full ParamsSec plan))"

definition mark_everything :: "access_plan \<Rightarrow> access_plan" where
  "mark_everything plan = mark_three (plan\<lparr>pl_method := True, pl_path := True, pl_url := True\<rparr>)"

definition mark_destructured :: "access_plan \<Rightarrow> ast option \<Rightarrow> access_plan" where
  "mark_destructured plan prop =
     (case prop of
        None \<Rightarrow> plan
      | Some p \<Rightarrow>
          (case pattern_key p of
             NoKey \<Rightarrow> mark_three plan
           | OtherKey \<Rightarrow> plan
           | Key k \<Rightarrow>
               if k = ''method'' then plan\<lparr>pl_method := True\<rparr>
               else if k = ''path'' then plan\<lparr>pl_path := True\<rparr>
               else if k = ''url'' then plan\<lparr>pl_url := True\<rparr>
               else if k = ''params'' then mark_full ParamsSec plan
               else if k = ''query'' then mark_full QuerySec plan
               else if k = ''headers'' then mark_full HeadersSec plan
               else plan))"

definition visit_access :: "string list \<Rightarrow> parent \<Rightarrow> ast \<Rightarrow> access_plan \<Rightarrow> access_plan" where
  "visit_access reqNames par node plan =
     (if ntype node = ''VariableDeclarator'' \<and> type_at node ''id'' = Some ''ObjectPattern''
         \<and> isReqIdentifier (node_at node ''init'') reqNames
      then foldl mark_destructured plan
        (case node_at node ''id'' of Some i \<Rightarrow> nodes_at i ''properties'' | None \<Rightarrow> [])
      else if ntype node \<noteq> ''MemberExpression'' then plan
      else if \<not> isReqIdentifier (node_at node ''object'') reqNames then plan
      else
        (case static_name node of
           None \<Rightarrow> mark_everything plan
         | Some prop \<Rightarrow>
             if prop = ''method'' then plan\<lparr>pl_method := True\<rparr>
             else if prop = ''path'' then plan\<lparr>pl_path := True\<rparr>
             else if prop = ''url'' then plan\<lparr>pl_url := True\<rparr>
             else if prop = ''params'' then markSubAccess par ParamsSec plan
             else if prop = ''query'' then markSubAccess par QuerySec plan
             else if prop = ''headers'' then markSubAccess par HeadersSec plan
             else if prop = ''header'' then markCallArg par HeadersSec plan
             else plan))"

text \<open>acorn is a parameter: \<open>None\<close> where it throws, and the caller falls back.\<close>

definition analyzeRequestAccessAST :: "(string \<Rightarrow> ast option) \<Rightarrow> string \<Rightarrow> access_plan option" where
  "analyzeRequestAccessAST acornParse source =
     (case acornParse (''('' @ source @ '')'') of
        None \<Rightarrow> None
      | Some ast \<Rightarrow>
          let plan = createEmptyAccessPlan; reqNames = findReqParamNames ast in
          if reqNames = [] then Some plan
          else Some (walkNode (visit_access reqNames) ast plan))"

text \<open>\<open>/res\\.json\\(\\s*[{[]/\<close>: an occurrence of the call followed by an object or array literal.\<close>

definition literal_follows :: "string \<Rightarrow> bool" where
  "literal_follows s = (case dropWhile is_ws s of c # _ \<Rightarrow> c = CHR ''{'' \<or> c = CHR ''['' | [] \<Rightarrow> False)"

fun json_call_literal :: "string \<Rightarrow> bool" where
  "json_call_literal [] = False"
| "json_call_literal (c # cs) \<longleftrightarrow>
     (startsWith (c # cs) ''res.json('' \<and> literal_follows (drop 9 (c # cs))) \<or> json_call_literal cs"

definition detectJsonFastPath :: "string \<Rightarrow> json_fast_path" where
  "detectJsonFastPath source =
     (if \<not> contains source ''res.json('' then JFallback
      else if json_call_literal source then JSpecialized
      else JGeneric)"

section \<open>Merging\<close>

definition merge_step :: "access_plan \<Rightarrow> access_plan option \<Rightarrow> access_plan" where
  "merge_step merged plan =
     (case plan of
        None \<Rightarrow> merged
      | Some p \<Rightarrow>
          merged\<lparr>pl_method := pl_method merged \<or> pl_method p,
            pl_path := pl_path merged \<or> pl_path p,
            pl_url := pl_url merged \<or> pl_url p,
            pl_fullParams := pl_fullParams merged \<or> pl_fullParams p,
            pl_fullQuery := pl_fullQuery merged \<or> pl_fullQuery p,
            pl_fullHeaders := pl_fullHeaders merged \<or> pl_fullHeaders p,
            pl_dispatchKind :=
              (if pl_dispatchKind p = GenericFallback then GenericFallback
               else pl_dispatchKind merged),
            pl_jsonFastPath :=
              (if pl_jsonFastPath p = JSpecialized then JSpecialized
               else if pl_jsonFastPath p = JGeneric \<and> pl_jsonFastPath merged = JFallback
               then JGeneric else pl_jsonFastPath merged),
            pl_paramKeys := addSetEntries (pl_paramKeys merged) (pl_paramKeys p),
            pl_queryKeys := addSetEntries (pl_queryKeys merged) (pl_queryKeys p),
            pl_headerKeys := addSetEntries (pl_headerKeys merged) (pl_headerKeys p)\<rparr>)"

definition mergeRequestAccessPlans :: "access_plan option list \<Rightarrow> access_plan" where
  "mergeRequestAccessPlans plans = foldl merge_step createEmptyAccessPlan plans"

section \<open>Loops that only add\<close>

locale accumulator =
  fixes le :: "'s \<Rightarrow> 's \<Rightarrow> bool" and step :: "'e \<Rightarrow> 's \<Rightarrow> 's"
  assumes le_refl: "le s s"
    and le_trans: "le s t \<Longrightarrow> le t u \<Longrightarrow> le s u"
    and step_le: "le s (step e s)"
begin

lemma start_le: "le s (foldl (\<lambda>s e. step e s) s es)"
proof (induction es arbitrary: s)
  case Nil
  then show ?case by (simp add: le_refl)
next
  case (Cons e es)
  then show ?case using le_trans [OF step_le [of s e] Cons.IH [of "step e s"]] by simp
qed

lemma each_le: "e \<in> set es \<Longrightarrow> \<exists>t. le (step e t) (foldl (\<lambda>s e. step e s) s es)"
proof (induction es arbitrary: s)
  case Nil
  then show ?case by simp
next
  case (Cons a es)
  then show ?case using start_le [of "step a s" es] by auto
qed

end

text \<open>A loop whose result is the least one above the start and everything it was given.\<close>

locale joining = accumulator le step for le :: "'s \<Rightarrow> 's \<Rightarrow> bool" and step :: "'e \<Rightarrow> 's \<Rightarrow> 's" +
  fixes below :: "'e \<Rightarrow> 's \<Rightarrow> bool"
  assumes below_step: "below e (step e s)"
    and below_mono: "below e s \<Longrightarrow> le s t \<Longrightarrow> below e t"
    and step_least: "below e t \<Longrightarrow> le s t \<Longrightarrow> le (step e s) t"
begin

lemma each_below: "e \<in> set es \<Longrightarrow> below e (foldl (\<lambda>s e. step e s) s es)"
  using each_le below_step below_mono by blast

lemma result_least: "le s t \<Longrightarrow> (\<And>e. e \<in> set es \<Longrightarrow> below e t) \<Longrightarrow> le (foldl (\<lambda>s e. step e s) s es) t"
  by (induction es arbitrary: s) (auto intro: step_least)

end

section \<open>Plans as demands\<close>

definition json_rank :: "json_fast_path \<Rightarrow> nat" where
  "json_rank j = (case j of JFallback \<Rightarrow> 0 | JGeneric \<Rightarrow> 1 | JSpecialized \<Rightarrow> 2)"

text \<open>The more general kind is the greater one; merging takes the greatest.\<close>

instantiation json_fast_path :: linorder
begin

definition less_eq_json_fast_path :: "json_fast_path \<Rightarrow> json_fast_path \<Rightarrow> bool" where
  "a \<le> b \<longleftrightarrow> json_rank a \<le> json_rank b"

definition less_json_fast_path :: "json_fast_path \<Rightarrow> json_fast_path \<Rightarrow> bool" where
  "a < b \<longleftrightarrow> json_rank a < json_rank b"

instance
  by standard (auto simp: less_eq_json_fast_path_def less_json_fast_path_def json_rank_def split: json_fast_path.splits)

end

lemma other_kind: "a \<noteq> GenericFallback \<Longrightarrow> b \<noteq> GenericFallback \<Longrightarrow> a = (b :: dispatch_kind)"
  by (cases a; cases b) simp_all

instantiation dispatch_kind :: linorder
begin

definition less_eq_dispatch_kind :: "dispatch_kind \<Rightarrow> dispatch_kind \<Rightarrow> bool" where
  "a \<le> b \<longleftrightarrow> (a = GenericFallback \<longrightarrow> b = GenericFallback)"

definition less_dispatch_kind :: "dispatch_kind \<Rightarrow> dispatch_kind \<Rightarrow> bool" where
  "a < b \<longleftrightarrow> a = Specialized \<and> b = GenericFallback"

instance
  by standard (auto simp: less_eq_dispatch_kind_def less_dispatch_kind_def intro: other_kind)

end

lemma merged_kinds:
  "pl_dispatchKind (merge_step merged (Some p)) = max (pl_dispatchKind merged) (pl_dispatchKind p)"
  "pl_jsonFastPath (merge_step merged (Some p)) = max (pl_jsonFastPath merged) (pl_jsonFastPath p)"
  by (auto simp: merge_step_def max_def less_eq_json_fast_path_def less_eq_dispatch_kind_def json_rank_def
      split: json_fast_path.splits intro: other_kind)

definition plan_le :: "access_plan \<Rightarrow> access_plan \<Rightarrow> bool" where
  "plan_le p q \<longleftrightarrow>
     (pl_method p \<longrightarrow> pl_method q) \<and> (pl_path p \<longrightarrow> pl_path q) \<and> (pl_url p \<longrightarrow> pl_url q)
     \<and> (pl_fullParams p \<longrightarrow> pl_fullParams q) \<and> (pl_fullQuery p \<longrightarrow> pl_fullQuery q)
     \<and> (pl_fullHeaders p \<longrightarrow> pl_fullHeaders q)
     \<and> set (pl_paramKeys p) \<subseteq> set (pl_paramKeys q) \<and> set (pl_queryKeys p) \<subseteq> set (pl_queryKeys q)
     \<and> set (pl_headerKeys p) \<subseteq> set (pl_headerKeys q)
     \<and> pl_dispatchKind p \<le> pl_dispatchKind q \<and> pl_jsonFastPath p \<le> pl_jsonFastPath q"

lemmas plan_le_simps = plan_le_def less_eq_json_fast_path_def less_eq_dispatch_kind_def

lemma plan_le_refl [simp]: "plan_le p p"
  by (simp add: plan_le_simps)

lemma plan_le_trans: "plan_le p q \<Longrightarrow> plan_le q r \<Longrightarrow> plan_le p r"
  unfolding plan_le_simps by (metis order_trans)

text \<open>A demand is a part of the request that running the handler reads.\<close>

datatype demand = DMethod | DPath | DUrl | DKey section_kind string | DWhole section_kind

definition covers :: "access_plan \<Rightarrow> demand \<Rightarrow> bool" where
  "covers p d =
     (case d of
        DMethod \<Rightarrow> pl_method p
      | DPath \<Rightarrow> pl_path p
      | DUrl \<Rightarrow> pl_url p
      | DKey ParamsSec k \<Rightarrow> pl_fullParams p \<or> k \<in> set (pl_paramKeys p)
      | DKey QuerySec k \<Rightarrow> pl_fullQuery p \<or> k \<in> set (pl_queryKeys p)
      | DKey HeadersSec k \<Rightarrow>
          pl_fullHeaders p \<or> normalizeHeaderLookup k \<in> set (pl_headerKeys p)
      | DWhole ParamsSec \<Rightarrow> pl_fullParams p
      | DWhole QuerySec \<Rightarrow> pl_fullQuery p
      | DWhole HeadersSec \<Rightarrow> pl_fullHeaders p)"

lemma covers_mono: "covers p d \<Longrightarrow> plan_le p q \<Longrightarrow> covers q d"
  by (auto simp: covers_def plan_le_simps split: demand.splits section_kind.splits)

lemma covers_mark_full [simp]: "covers (mark_full s p) (DWhole s)" "covers (mark_full s p) (DKey s k)"
  by (cases s; simp add: covers_def mark_full_def)+

lemma covers_mark_key [simp]: "covers (mark_key s k p) (DKey s k)"
  by (cases s) (simp_all add: covers_def mark_key_def)

lemma mark_le [simp]:
  "plan_le p (mark_full s p)" "plan_le p (mark_key s k p)"
  "plan_le p (p\<lparr>pl_method := True\<rparr>)" "plan_le p (p\<lparr>pl_path := True\<rparr>)" "plan_le p (p\<lparr>pl_url := True\<rparr>)"
  by (cases s; auto simp: plan_le_simps mark_full_def mark_key_def)+

lemma mark_three_le [simp]: "plan_le p (mark_three p)"
  unfolding mark_three_def by (meson mark_le plan_le_trans)

lemma mark_everything_le [simp]: "plan_le p (mark_everything p)"
  by (rule plan_le_trans [OF _ mark_three_le [of "p\<lparr>pl_method := True, pl_path := True, pl_url := True\<rparr>",
    folded mark_everything_def]]) (simp add: plan_le_simps)

lemma covers_mark_three: "covers (mark_three p) (DWhole s)" "covers (mark_three p) (DKey s k)"
  by (cases s; simp add: covers_def mark_three_def mark_full_def)+

lemma covers_mark_everything: "covers (mark_everything p) d"
  by (cases d; cases "case d of DKey s k \<Rightarrow> s | DWhole s \<Rightarrow> s | _ \<Rightarrow> ParamsSec")
    (simp_all add: covers_def mark_everything_def mark_three_def mark_full_def)

lemma mark_destructured_le: "plan_le p (mark_destructured p prop)"
  by (auto simp: mark_destructured_def split: option.splits pattern_key.splits)

interpretation pattern_loop: accumulator plan_le "\<lambda>prop plan. mark_destructured plan prop"
  by unfold_locales (auto intro: plan_le_trans mark_destructured_le)

lemma markSubAccess_le: "plan_le p (markSubAccess par s p)"
  by (auto simp: markSubAccess_def split: option.splits)

lemma markCallArg_le: "plan_le p (markCallArg par s p)"
  by (auto simp: markCallArg_def split: option.splits list.splits)

lemma visit_access_le: "plan_le p (visit_access names par n p)"
  using pattern_loop.start_le markSubAccess_le markCallArg_le
  by (auto simp: visit_access_def split: option.splits)

interpretation access_walk: accumulator plan_le "\<lambda>e plan. visit_access names (fst e) (snd e) plan" for names
  by unfold_locales (auto intro: plan_le_trans visit_access_le)

text \<open>Merging joins the demands.\<close>

lemma json_rank_join:
  "json_rank (if a = JSpecialized then JSpecialized
     else if a = JGeneric \<and> b = JFallback then JGeneric else b) = max (json_rank a) (json_rank b)"
  by (cases a; cases b) (simp_all add: json_rank_def)

lemma merge_step_le_iff:
  "plan_le (merge_step s (Some p)) t \<longleftrightarrow> plan_le s t \<and> plan_le p t"
proof -
  have d: "((if a = GenericFallback then GenericFallback else b) = GenericFallback \<longrightarrow> q)
      \<longleftrightarrow> (b = GenericFallback \<longrightarrow> q) \<and> (a = GenericFallback \<longrightarrow> q)" for a b q
    by (cases a; cases b) auto
  show ?thesis
    by (cases s, cases p, cases t)
      (simp only: merge_step_def option.case access_plan.simps plan_le_simps json_rank_join d imp_disjL
        set_addSetEntries Un_subset_iff max.bounded_iff,
       rule iffI; elim conjE; intro conjI; assumption)
qed

lemma merge_step_ge [simp]:
  "plan_le s (merge_step s (Some p))" "plan_le p (merge_step s (Some p))"
  by (rule merge_step_le_iff [THEN iffD1, OF plan_le_refl, THEN conjunct1],
      rule merge_step_le_iff [THEN iffD1, OF plan_le_refl, THEN conjunct2])

lemma merge_step_None [simp]: "merge_step s None = s"
  by (simp add: merge_step_def)

interpretation merge_loop: joining plan_le "\<lambda>p merged. merge_step merged p"
    "\<lambda>p q. case p of None \<Rightarrow> True | Some p \<Rightarrow> plan_le p q"
proof
  fix s t u :: access_plan
  show "plan_le s s" by simp
  show "plan_le s t \<Longrightarrow> plan_le t u \<Longrightarrow> plan_le s u" by (rule plan_le_trans)
next
  fix s t :: access_plan and e :: "access_plan option"
  show "plan_le s (merge_step s e)" by (cases e) simp_all
  show "case e of None \<Rightarrow> True | Some p \<Rightarrow> plan_le p (merge_step s e)" by (cases e) simp_all
  show "(case e of None \<Rightarrow> True | Some p \<Rightarrow> plan_le p s) \<Longrightarrow> plan_le s t
      \<Longrightarrow> case e of None \<Rightarrow> True | Some p \<Rightarrow> plan_le p t"
    by (auto intro: plan_le_trans split: option.splits)
  show "(case e of None \<Rightarrow> True | Some p \<Rightarrow> plan_le p t) \<Longrightarrow> plan_le s t \<Longrightarrow> plan_le (merge_step s e) t"
    by (cases e) (simp_all add: merge_step_le_iff)
qed

lemma empty_plan_le: "plan_le createEmptyAccessPlan p"
  by (simp add: plan_le_simps createEmptyAccessPlan_def json_rank_def)

lemma merge_upper: "Some p \<in> set plans \<Longrightarrow> plan_le p (mergeRequestAccessPlans plans)"
  using merge_loop.each_below [of "Some p" plans createEmptyAccessPlan]
  by (simp add: mergeRequestAccessPlans_def)

lemma merge_least:
  "(\<And>p. Some p \<in> set plans \<Longrightarrow> plan_le p q) \<Longrightarrow> plan_le (mergeRequestAccessPlans plans) q"
  unfolding mergeRequestAccessPlans_def
  by (rule merge_loop.result_least) (auto simp: empty_plan_le split: option.splits)

section \<open>What a handler reads\<close>

definition req_member :: "string list \<Rightarrow> ast \<Rightarrow> string option \<Rightarrow> bool" where
  "req_member names n prop \<longleftrightarrow> ntype n = ''MemberExpression''
     \<and> isReqIdentifier (node_at n ''object'') names \<and> static_name n = prop"

definition section_name :: "section_kind \<Rightarrow> string" where
  "section_name s = (case s of ParamsSec \<Rightarrow> ''params'' | QuerySec \<Rightarrow> ''query'' | HeadersSec \<Rightarrow> ''headers'')"

definition literal_arg :: "ast \<Rightarrow> string option" where
  "literal_arg c =
     (case nodes_at c ''arguments'' of
        Some a # _ \<Rightarrow> if ntype a = ''Literal'' then str_at a ''value'' else None
      | _ \<Rightarrow> None)"

text \<open>
  What a handler reads at a place of its tree, by the meaning of JavaScript.  A property of the request that is read
  under the name of the parameter is needed itself; of \<open>params\<close>, \<open>query\<close> and \<open>headers\<close> only one key is needed when
  the value is used at once for a member with a static name, and everything for every other use: passed on, spread,
  returned, indexed by an expression.  The same holds for \<open>req.header\<close> and its first argument.  A property whose
  name is computed may be any.  A declaration \<open>const {..} = req\<close> needs each property it names, and a rest element
  needs every section.
\<close>

definition member_of :: "parent \<Rightarrow> string option" where
  "member_of par =
     (case par of
        Some (g, k) \<Rightarrow> if ntype g = ''MemberExpression'' \<and> k = ''object'' then static_name g else None
      | None \<Rightarrow> None)"

definition called_with :: "parent \<Rightarrow> string option" where
  "called_with par =
     (case par of
        Some (g, k) \<Rightarrow> if ntype g = ''CallExpression'' \<and> k = ''callee'' then literal_arg g else None
      | None \<Rightarrow> None)"

definition keyed :: "section_kind \<Rightarrow> string option \<Rightarrow> demand" where
  "keyed s k = (case k of Some k \<Rightarrow> DKey s k | None \<Rightarrow> DWhole s)"

definition declares :: "string list \<Rightarrow> ast \<Rightarrow> ast \<Rightarrow> bool" where
  "declares names n prop \<longleftrightarrow> ntype n = ''VariableDeclarator'' \<and> isReqIdentifier (node_at n ''init'') names
     \<and> (\<exists>i. node_at n ''id'' = Some i \<and> ntype i = ''ObjectPattern'' \<and> Some prop \<in> set (nodes_at i ''properties''))"

inductive reads :: "string list \<Rightarrow> parent \<Rightarrow> ast \<Rightarrow> demand \<Rightarrow> bool" for names where
  reads_method: "req_member names n (Some ''method'') \<Longrightarrow> reads names par n DMethod"
| reads_path: "req_member names n (Some ''path'') \<Longrightarrow> reads names par n DPath"
| reads_url: "req_member names n (Some ''url'') \<Longrightarrow> reads names par n DUrl"
| reads_section: "req_member names n (Some (section_name s)) \<Longrightarrow> reads names par n (keyed s (member_of par))"
| reads_header: "req_member names n (Some ''header'') \<Longrightarrow> reads names par n (keyed HeadersSec (called_with par))"
| reads_any: "req_member names n None \<Longrightarrow> reads names par n d"
| declares_method: "declares names n prop \<Longrightarrow> \<not> is_computed prop \<Longrightarrow> pattern_key prop = Key ''method'' \<Longrightarrow> reads names par n DMethod"
| declares_path: "declares names n prop \<Longrightarrow> \<not> is_computed prop \<Longrightarrow> pattern_key prop = Key ''path'' \<Longrightarrow> reads names par n DPath"
| declares_url: "declares names n prop \<Longrightarrow> \<not> is_computed prop \<Longrightarrow> pattern_key prop = Key ''url'' \<Longrightarrow> reads names par n DUrl"
| declares_section: "declares names n prop \<Longrightarrow> \<not> is_computed prop \<Longrightarrow> pattern_key prop = Key (section_name s)
    \<Longrightarrow> reads names par n (DWhole s)"
| declares_rest: "declares names n prop \<Longrightarrow> node_at prop ''key'' = None \<Longrightarrow> reads names par n (DWhole s)"

inductive_cases reads_cases: "reads names par n d"

section \<open>The walk finds every read\<close>

lemma trace_node_self: "(par, n) \<in> set (trace_node par n)"
  by (cases n) simp

lemma walk_covers:
  assumes "(par, n) \<in> set (trace_node None prog)" "\<And>p. covers (visit_access names par n p) d"
  shows "covers (walkNode (visit_access names) prog p0) d"
proof -
  obtain p where "plan_le (visit_access names par n p) (walkNode (visit_access names) prog p0)"
    using access_walk.each_le [OF assms(1), of names p0] by (auto simp: walkNode_def)
  then show ?thesis using assms(2) covers_mono by blast
qed

text \<open>The visits that record each form.\<close>

lemma visit_req_member:
  assumes "req_member names n prop"
  shows "visit_access names par n p =
    (case prop of
       None \<Rightarrow> mark_everything p
     | Some prop \<Rightarrow>
         if prop = ''method'' then p\<lparr>pl_method := True\<rparr>
         else if prop = ''path'' then p\<lparr>pl_path := True\<rparr>
         else if prop = ''url'' then p\<lparr>pl_url := True\<rparr>
         else if prop = ''params'' then markSubAccess par ParamsSec p
         else if prop = ''query'' then markSubAccess par QuerySec p
         else if prop = ''headers'' then markSubAccess par HeadersSec p
         else if prop = ''header'' then markCallArg par HeadersSec p
         else p)"
  using assms by (simp add: req_member_def visit_access_def)

lemma visit_section:
  "req_member names m (Some (section_name s)) \<Longrightarrow> visit_access names par m p = markSubAccess par s p"
  by (cases s) (simp_all add: visit_req_member section_name_def)

lemma visit_header:
  "req_member names m (Some ''header'') \<Longrightarrow> visit_access names par m p = markCallArg par HeadersSec p"
  by (simp add: visit_req_member)

lemma marked_member: "covers (markSubAccess par s p) (keyed s (member_of par))"
  by (auto simp: markSubAccess_def member_of_def keyed_def split: option.splits prod.splits)

lemma marked_call: "covers (markCallArg par s p) (keyed s (called_with par))"
  by (auto simp: markCallArg_def called_with_def literal_arg_def keyed_def split: option.splits list.splits)

lemma destructured_covers:
  "pattern_key prop = Key ''method'' \<Longrightarrow> covers (mark_destructured p (Some prop)) DMethod"
  "pattern_key prop = Key ''path'' \<Longrightarrow> covers (mark_destructured p (Some prop)) DPath"
  "pattern_key prop = Key ''url'' \<Longrightarrow> covers (mark_destructured p (Some prop)) DUrl"
  "pattern_key prop = Key (section_name s) \<Longrightarrow> covers (mark_destructured p (Some prop)) (DWhole s)"
  "pattern_key prop = NoKey \<Longrightarrow> covers (mark_destructured p (Some prop)) (DWhole s)"
  by (cases s; simp add: mark_destructured_def section_name_def covers_mark_three; simp add: covers_def)+

lemma visit_declared:
  assumes "declares names n prop" "\<And>p. covers (mark_destructured p (Some prop)) d"
  shows "covers (visit_access names par n p) d"
proof -
  obtain i where i: "ntype n = ''VariableDeclarator''" "isReqIdentifier (node_at n ''init'') names"
    "node_at n ''id'' = Some i" "ntype i = ''ObjectPattern''" "Some prop \<in> set (nodes_at i ''properties'')"
    using assms(1) by (auto simp: declares_def)
  obtain q where "plan_le (mark_destructured q (Some prop)) (foldl mark_destructured p (nodes_at i ''properties''))"
    using pattern_loop.each_le [OF i(5)] by blast
  then have "covers (foldl mark_destructured p (nodes_at i ''properties'')) d"
    using assms(2) covers_mono by blast
  then show ?thesis using i by (simp add: visit_access_def type_at_def)
qed

lemma visit_covers:
  assumes "reads names par n d"
  shows "covers (visit_access names par n p) d"
  using assms
proof cases
  case (reads_section s)
  then show ?thesis by (simp only: visit_section [OF reads_section(2)] marked_member)
next
  case (declares_rest pr s)
  then show ?thesis by (intro visit_declared [OF declares_rest(2)]) (auto simp: destructured_covers pattern_key_def)
qed (auto simp: visit_req_member visit_section visit_header marked_member marked_call covers_mark_everything
    destructured_covers intro!: visit_declared, simp_all add: covers_def)

lemma walk_reads:
  assumes "reads names par n d" "(par, n) \<in> set (trace_node None prog)"
  shows "covers (walkNode (visit_access names) prog p0) d"
  by (rule walk_covers [OF assms(2) visit_covers [OF assms(1)]])

lemma reads_needs_names: "\<not> reads [] par n d"
  by (auto simp: req_member_def isReqIdentifier_def declares_def elim!: reads_cases split: option.splits)

lemma analyze_covers:
  assumes "acornParse (''('' @ source @ '')'') = Some prog"
    and "(par, n) \<in> set (trace_node None prog)" and "reads (findReqParamNames prog) par n d"
  shows "\<exists>plan. analyzeRequestAccessAST acornParse source = Some plan \<and> covers plan d"
proof -
  have "findReqParamNames prog \<noteq> []" using assms(3) reads_needs_names by metis
  then show ?thesis
    using walk_reads [OF assms(3,2)] assms(1) by (simp add: analyzeRequestAccessAST_def Let_def)
qed

section \<open>Properties\<close>

text \<open>The tree of \<open>(req) => req.params.id\<close>, and of a handler that first renames its request.\<close>

definition ident :: "string \<Rightarrow> ast" where
  "ident x = Node ''Identifier'' [(''name'', FStr x)]"

definition member :: "ast \<Rightarrow> string \<Rightarrow> ast" where
  "member ob p = Node ''MemberExpression''
     [(''object'', FNode ob), (''property'', FNode (ident p)), (''computed'', FBool False)]"

definition arrow :: "string \<Rightarrow> ast \<Rightarrow> ast" where
  "arrow p b = Node ''Program'' [(''body'', FNodes [Some (Node ''ExpressionStatement''
     [(''expression'', FNode (Node ''ArrowFunctionExpression''
       [(''params'', FNodes [Some (ident p)]), (''body'', FNode b)]))])])]"

definition sample_handler :: ast where
  "sample_handler = arrow ''req'' (member (member (ident ''req'') ''params'') ''id'')"

definition alias_handler :: ast where
  "alias_handler = arrow ''req'' (Node ''BlockStatement'' [(''body'', FNodes
     [Some (Node ''VariableDeclaration'' [(''declarations'', FNodes [Some (Node ''VariableDeclarator''
        [(''id'', FNode (ident ''r'')), (''init'', FNode (ident ''req''))])])]),
      Some (Node ''ReturnStatement'' [(''argument'', FNode (member (member (ident ''r'') ''params'') ''id''))])])])"


lemma sample_names: "findReqParamNames sample_handler = [''req'']"
  by (simp add: sample_handler_def arrow_def member_def ident_def findReqParamNames_def walkNode_def
      visit_function_def nodes_at_def prop_of_def str_at_def set_add_def)

lemma sample_reads:
  "reads [''req''] (Some (member (member (ident ''req'') ''params'') ''id'', ''object'')) (member (ident ''req'') ''params'') (DKey ParamsSec ''id'')"
proof -
  have "reads [''req''] (Some (member (member (ident ''req'') ''params'') ''id'', ''object'')) (member (ident ''req'') ''params'')
      (keyed ParamsSec (member_of (Some (member (member (ident ''req'') ''params'') ''id'', ''object''))))"
    by (rule reads_section)
      (simp add: member_def ident_def node_at_def prop_of_def req_member_def isReqIdentifier_def
        static_name_def memberPropName_def is_computed_def type_at_def str_at_def section_name_def)
  then show ?thesis
    by (simp add: keyed_def member_of_def member_def ident_def static_name_def memberPropName_def is_computed_def
        type_at_def str_at_def node_at_def prop_of_def)
qed


text \<open>the merged plan of a route is the least plan above the plans of its handler, its middlewares and
  the error handlers: it asks for everything one of them asks for, and for nothing else.\<close>

theorem merge_is_least_upper_bound:
  "(Some p \<in> set plans \<longrightarrow> plan_le p (mergeRequestAccessPlans plans))
    \<and> ((\<forall>q. Some q \<in> set plans \<longrightarrow> plan_le q r) \<longrightarrow> plan_le (mergeRequestAccessPlans plans) r)"
  using merge_upper merge_least by blast

theorem merge_is_least_upper_bound_witness:
  "plan_le (createEmptyAccessPlan\<lparr>pl_url := True\<rparr>)
    (mergeRequestAccessPlans [None, Some (createEmptyAccessPlan\<lparr>pl_url := True\<rparr>)])"
  using merge_is_least_upper_bound [of "createEmptyAccessPlan\<lparr>pl_url := True\<rparr>"
    "[None, Some (createEmptyAccessPlan\<lparr>pl_url := True\<rparr>)]" createEmptyAccessPlan] by simp

text \<open>the analysis does not follow the request through another name: for a handler that binds the request
  to a second variable and reads \<open>params\<close> through that, the plan is empty.\<close>

theorem access_analysis_misses_alias:
  "analyzeRequestAccessAST (\<lambda>_. Some alias_handler) source = Some createEmptyAccessPlan"
  by (simp add: alias_handler_def arrow_def member_def ident_def analyzeRequestAccessAST_def
      findReqParamNames_def walkNode_def visit_function_def visit_access_def nodes_at_def node_at_def
      prop_of_def str_at_def set_add_def type_at_def isReqIdentifier_def)

text \<open>Two more reads that the analysis misses: a handler that destructures its parameter, for which a comment promises
  full access, and a computed key in a destructuring declaration, which is taken for the name of its variable.\<close>

definition pattern_member :: "ast \<Rightarrow> bool \<Rightarrow> ast" where
  "pattern_member k computed = Node ''Property'' [(''key'', FNode k), (''computed'', FBool computed)]"

definition object_pattern :: "ast \<Rightarrow> ast" where
  "object_pattern p = Node ''ObjectPattern'' [(''properties'', FNodes [Some p])]"

definition handler_of :: "ast \<Rightarrow> ast \<Rightarrow> ast" where
  "handler_of p b = Node ''Program'' [(''body'', FNodes [Some (Node ''ExpressionStatement''
     [(''expression'', FNode (Node ''ArrowFunctionExpression''
       [(''params'', FNodes [Some p]), (''body'', FNode b)]))])])]"

lemma destructured_reads_are_missed:
  "analyzeRequestAccessAST (\<lambda>_. Some (handler_of (object_pattern (pattern_member (ident ''params'') False)) (member (ident ''params'') ''id''))) source
    = Some createEmptyAccessPlan"
  "analyzeRequestAccessAST (\<lambda>_. Some (handler_of (ident ''req'') (Node ''VariableDeclaration'' [(''declarations'', FNodes
      [Some (Node ''VariableDeclarator'' [(''id'', FNode (object_pattern (pattern_member (ident ''k'') True))), (''init'', FNode (ident ''req''))])])]))) source
    = Some createEmptyAccessPlan"
  by (simp_all add: handler_of_def object_pattern_def pattern_member_def member_def ident_def analyzeRequestAccessAST_def
      findReqParamNames_def walkNode_def visit_function_def visit_access_def nodes_at_def node_at_def
      prop_of_def str_at_def set_add_def type_at_def isReqIdentifier_def mark_destructured_def pattern_key_def)

end
