(* ===== verification/RouteCache.thy ===== *)
theory RouteCache
  imports Response AccessPlan
begin

text \<open>
  The runtime response cache of \<open>src/src/index.js\<close>: which routes may have one, the hash of a
  snapshot, and the promotion of a response that stayed the same for sixteen dispatches in a row.
\<close>

unbundle bit_operations_syntax

section \<open>The key\<close>

text \<open>One step of FNV-1a, also used by the optimiser and the file watcher.\<close>

definition fnv32_byte :: "u32 \<Rightarrow> byte \<Rightarrow> u32" where
  "fnv32_byte h b = (h XOR ucast b) * 0x01000193"

type_synonym lanes = "u32 \<times> u32"

definition fnv_seed :: "u32 \<Rightarrow> lanes" where
  "fnv_seed seed = (seed, seed XOR 0x6c62272e)"

definition fnv_byte :: "lanes \<Rightarrow> byte \<Rightarrow> lanes" where
  "fnv_byte h b =
     ((fst h XOR ucast b) * 0x01000193, (snd h XOR ucast b) * 0x01000193)"

definition fnv1aString :: "lanes \<Rightarrow> string \<Rightarrow> lanes" where
  "fnv1aString h v = foldl fnv_byte h (map byte_of_char v)"

definition fnv1aBytes :: "lanes \<Rightarrow> byte list \<Rightarrow> lanes" where
  "fnv1aBytes h bytes = foldl fnv_byte h bytes"

text \<open>The sum is a double: 53 significant bits, ties to even.\<close>

fun bit_length :: "nat \<Rightarrow> nat" where
  "bit_length n = (if n = 0 then 0 else Suc (bit_length (n div 2)))"

declare bit_length.simps [simp del]

definition double_of_nat :: "nat \<Rightarrow> nat" where
  "double_of_nat n =
     (let e = bit_length n - 53; q = n div 2 ^ e; r = n mod 2 ^ e in
      if e = 0 then n
      else if 2 * r > 2 ^ e \<or> (2 * r = 2 ^ e \<and> odd q) then (q + 1) * 2 ^ e
      else q * 2 ^ e)"

fun hex_digits :: "nat \<Rightarrow> string" where
  "hex_digits n = (if n < 16 then [hex_lower n] else hex_digits (n div 16) @ [hex_lower (n mod 16)])"

declare hex_digits.simps [simp del]

definition fnv1aFinish :: "lanes \<Rightarrow> string" where
  "fnv1aFinish h = hex_digits (double_of_nat (unat (snd h) * 4294967296 + unat (fst h)))"

definition hash_headers :: "lanes \<Rightarrow> (string \<times> string) list \<Rightarrow> lanes" where
  "hash_headers h hs = foldl (\<lambda>h (n, v). fnv1aString (fnv1aString h n) v) h hs"

definition snapshot_lanes :: "snapshot \<Rightarrow> lanes" where
  "snapshot_lanes sn =
     fnv1aBytes (hash_headers (fnv1aString (fnv_seed 0x811c9dc5) (int_to_string (sn_status sn)))
       (sn_headers sn)) (sn_body sn)"

definition buildSnapshotCacheKey :: "snapshot \<Rightarrow> string" where
  "buildSnapshotCacheKey sn =
     fnv1aFinish (snapshot_lanes sn) @ '':'' @ nat_digits (length (sn_body sn)) @ '':''
       @ nat_digits (length (sn_headers sn))"

section \<open>The cache\<close>

record route_cache =
  rc_encoded :: "byte list option"
  rc_lastKey :: string
  rc_stableHits :: nat

definition ROUTE_CACHE_PROMOTE_HITS :: nat where "ROUTE_CACHE_PROMOTE_HITS = 16"

definition empty_route_cache :: route_cache where
  "empty_route_cache = \<lparr>rc_encoded = None, rc_lastKey = [], rc_stableHits = 0\<rparr>"

definition hasNoRequestAccess :: "access_plan \<Rightarrow> bool" where
  "hasNoRequestAccess plan \<longleftrightarrow>
     \<not> pl_method plan \<and> \<not> pl_path plan \<and> \<not> pl_url plan \<and> \<not> pl_fullParams plan
     \<and> \<not> pl_fullQuery plan \<and> \<not> pl_fullHeaders plan \<and> pl_paramKeys plan = []
     \<and> pl_queryKeys plan = [] \<and> pl_headerKeys plan = []"

definition impure_source :: "string \<Rightarrow> bool" where
  "impure_source source \<longleftrightarrow>
     contains source ''Date.now'' \<or> contains source ''new Date''
     \<or> contains source ''Math.random'' \<or> contains source ''crypto.''"

definition createRouteResponseCache ::
  "bool \<Rightarrow> string \<Rightarrow> string \<Rightarrow> string \<Rightarrow> nat \<Rightarrow> access_plan \<Rightarrow> bool \<Rightarrow> route_cache option" where
  "createRouteResponseCache isStatic method path handlerSource middlewareCount requestPlan optCache =
     (if isStatic then None
      else if \<not> optCache then None
      else if method \<noteq> ''GET'' \<or> contains path '':'' then None
      else if middlewareCount > 0 then None
      else if \<not> hasNoRequestAccess requestPlan then None
      else if contains handlerSource ''await'' then None
      else if impure_source handlerSource then None
      else Some empty_route_cache)"

text \<open>An encoded response is never empty, so the test \<open>cache.encoded\<close> is a test for \<open>null\<close>.\<close>

definition promote :: "snapshot \<Rightarrow> byte list \<Rightarrow> route_cache \<Rightarrow> route_cache" where
  "promote sn encoded cache =
     (if rc_encoded cache \<noteq> None then cache
      else
        let key = buildSnapshotCacheKey sn;
            c1 = (if key = rc_lastKey cache
                  then cache\<lparr>rc_stableHits := rc_stableHits cache + 1\<rparr>
                  else cache\<lparr>rc_lastKey := key, rc_stableHits := 1\<rparr>) in
        if rc_stableHits c1 \<ge> ROUTE_CACHE_PROMOTE_HITS then c1\<lparr>rc_encoded := Some encoded\<rparr> else c1)"

definition maybePromoteRouteResponseCache ::
  "snapshot \<Rightarrow> byte list \<Rightarrow> route_cache option \<Rightarrow> route_cache option" where
  "maybePromoteRouteResponseCache sn encoded cache = map_option (promote sn encoded) cache"

section \<open>When a response is promoted\<close>

text \<open>The cache after a history of dispatches that ended in the snapshots given.\<close>

definition cache_after :: "(snapshot \<times> byte list) list \<Rightarrow> route_cache" where
  "cache_after h = foldl (\<lambda>c (sn, enc). promote sn enc c) empty_route_cache h"

definition trailing_same :: "string \<Rightarrow> (snapshot \<times> byte list) list \<Rightarrow> nat" where
  "trailing_same k h = length (takeWhile (\<lambda>p. buildSnapshotCacheKey (fst p) = k) (rev h))"

text \<open>
  Until promotion the counter is the length of the run of equal keys at the end of the history,
  and what gets promoted closes a run of sixteen.
\<close>

definition cache_inv :: "(snapshot \<times> byte list) list \<Rightarrow> route_cache \<Rightarrow> bool" where
  "cache_inv h c \<longleftrightarrow>
     (case rc_encoded c of
        None \<Rightarrow> rc_stableHits c < ROUTE_CACHE_PROMOTE_HITS
          \<and> (h \<noteq> [] \<longrightarrow> rc_stableHits c = trailing_same (rc_lastKey c) h
               \<and> rc_lastKey c = buildSnapshotCacheKey (fst (last h)))
          \<and> (h = [] \<longrightarrow> c = empty_route_cache)
      | Some enc \<Rightarrow> \<exists>h1 sn h2. h = h1 @ (sn, enc) # h2
          \<and> trailing_same (buildSnapshotCacheKey sn) (h1 @ [(sn, enc)]) = ROUTE_CACHE_PROMOTE_HITS)"

lemma trailing_same_snoc:
  "trailing_same k (h @ [p]) = (if buildSnapshotCacheKey (fst p) = k then Suc (trailing_same k h) else 0)"
  by (simp add: trailing_same_def)

lemma key_nonempty: "buildSnapshotCacheKey sn \<noteq> []"
  by (simp add: buildSnapshotCacheKey_def)

lemma promote_inv:
  assumes "cache_inv h c"
  shows "cache_inv (h @ [(sn, enc)]) (promote sn enc c)"
proof (cases "rc_encoded c")
  case (Some e)
  then obtain h1 s1 h2 where "h = h1 @ (s1, e) # h2"
      "trailing_same (buildSnapshotCacheKey s1) (h1 @ [(s1, e)]) = ROUTE_CACHE_PROMOTE_HITS"
    using assms by (auto simp: cache_inv_def)
  then have "h @ [(sn, enc)] = h1 @ (s1, e) # (h2 @ [(sn, enc)])" by simp
  with Some \<open>trailing_same _ _ = _\<close> show ?thesis
    by (auto simp: promote_def cache_inv_def)
next
  case None
  let ?k = "buildSnapshotCacheKey sn"
  define n where "n = (if ?k = rc_lastKey c then rc_stableHits c + 1 else 1)"
  have n: "trailing_same ?k (h @ [(sn, enc)]) = n"
  proof (cases "h = []")
    case True
    then have "c = empty_route_cache" using assms None by (simp add: cache_inv_def)
    then show ?thesis
      using True key_nonempty [of sn] by (simp add: trailing_same_def n_def empty_route_cache_def)
  next
    case False
    then have h: "rc_stableHits c = trailing_same (rc_lastKey c) h"
      "rc_lastKey c = buildSnapshotCacheKey (fst (last h))"
      using assms None by (simp_all add: cache_inv_def)
    have "trailing_same ?k h = 0" if "?k \<noteq> rc_lastKey c"
    proof -
      have "h = butlast h @ [last h]" using False by simp
      then have "trailing_same ?k h = trailing_same ?k (butlast h @ [last h])" by simp
      then show ?thesis using that h(2) by (simp add: trailing_same_snoc)
    qed
    then show ?thesis using h by (simp add: n_def trailing_same_snoc)
  qed
  have "rc_stableHits c < ROUTE_CACHE_PROMOTE_HITS" using assms None by (simp add: cache_inv_def)
  then have le: "n \<le> ROUTE_CACHE_PROMOTE_HITS" by (simp add: n_def ROUTE_CACHE_PROMOTE_HITS_def)
  show ?thesis
  proof (cases "n = ROUTE_CACHE_PROMOTE_HITS")
    case True
    then have "rc_encoded (promote sn enc c) = Some enc"
      using None by (simp add: promote_def n_def Let_def split: if_splits)
    then show ?thesis using n True by (auto simp: cache_inv_def)
  next
    case False
    then have "rc_encoded (promote sn enc c) = None" "rc_stableHits (promote sn enc c) = n"
      "rc_lastKey (promote sn enc c) = ?k"
      using None le by (auto simp: promote_def n_def Let_def)
    then show ?thesis using n le False by (simp add: cache_inv_def)
  qed
qed

lemma cache_after_inv: "cache_inv h (cache_after h)"
proof (induction h rule: rev_induct)
  case Nil
  then show ?case
    by (simp add: cache_inv_def cache_after_def empty_route_cache_def ROUTE_CACHE_PROMOTE_HITS_def)
next
  case (snoc p h)
  obtain sn enc where "p = (sn, enc)" by (cases p)
  then show ?case using promote_inv [OF snoc.IH, of sn enc] by (simp add: cache_after_def)
qed

text \<open>A handler that always answers the same is served the same after promotion.\<close>

lemma promoted_from_history: "rc_encoded (cache_after h) = Some enc \<Longrightarrow> \<exists>sn. (sn, enc) \<in> set h"
  using cache_after_inv [of h] by (auto simp: cache_inv_def)

section \<open>What the hash does not see\<close>

text \<open>Both lanes multiply by the same odd constant, so their lowest bits never differ.\<close>

lemma bit0_mult_odd: "bit (a * b) 0 \<longleftrightarrow> bit a 0 \<and> bit b 0" for a b :: u32
  by (simp add: bit_0)

lemma lanes_bit0_step: "bit (fst h) 0 = bit (snd h) 0 \<Longrightarrow> bit (fst (fnv_byte h b)) 0 = bit (snd (fnv_byte h b)) 0"
  by (simp add: fnv_byte_def bit0_mult_odd bit_xor_iff)

lemma lanes_bit0_fold:
  "bit (fst h) 0 = bit (snd h) 0 \<Longrightarrow> bit (fst (foldl fnv_byte h bs)) 0 = bit (snd (foldl fnv_byte h bs)) 0"
  by (induction bs arbitrary: h) (auto simp: lanes_bit0_step)

lemma lanes_bit0_headers:
  "bit (fst h) 0 = bit (snd h) 0 \<Longrightarrow> bit (fst (hash_headers h hs)) 0 = bit (snd (hash_headers h hs)) 0"
  by (induction hs arbitrary: h) (auto simp: hash_headers_def fnv1aString_def lanes_bit0_fold split_beta)

lemma snapshot_lanes_bit0: "bit (fst (snapshot_lanes sn)) 0 = bit (snd (snapshot_lanes sn)) 0"
proof -
  have "bit (fst (fnv_seed 0x811c9dc5)) 0 = bit (snd (fnv_seed 0x811c9dc5)) 0"
    by (simp add: fnv_seed_def bit_xor_iff)
  then show ?thesis
    by (simp add: snapshot_lanes_def fnv1aBytes_def fnv1aString_def lanes_bit0_fold lanes_bit0_headers)
qed

text \<open>Names, values and body run into each other: bytes may move across the borders.\<close>

lemma hash_headers_shift:
  "hash_headers h ((n @ x, v) # hs) = hash_headers h ((n, x @ v) # hs)"
  by (simp add: hash_headers_def fnv1aString_def)

lemma key_shift:
  "buildSnapshotCacheKey (sn\<lparr>sn_headers := (n @ x, v) # hs\<rparr>)
    = buildSnapshotCacheKey (sn\<lparr>sn_headers := (n, x @ v) # hs\<rparr>)"
  by (simp add: buildSnapshotCacheKey_def snapshot_lanes_def hash_headers_shift)

section \<open>Properties\<close>

text \<open>a response is promoted to the runtime cache only after sixteen dispatches in a row whose snapshots have
  the same key, and what is served from then on is the encoding of the sixteenth.\<close>

theorem promotion_after_stable_run:
  assumes "rc_encoded (cache_after h) = Some enc"
  shows "\<exists>h1 sn h2. h = h1 @ (sn, enc) # h2
    \<and> trailing_same (buildSnapshotCacheKey sn) (h1 @ [(sn, enc)]) = ROUTE_CACHE_PROMOTE_HITS"
  using cache_after_inv [of h] assms by (simp add: cache_inv_def)

lemma promote_sixteen:
  "rc_encoded (cache_after (replicate 16 (sn, enc))) = Some enc"
  by (simp add: cache_after_def promote_def Let_def empty_route_cache_def key_nonempty
      ROUTE_CACHE_PROMOTE_HITS_def eval_nat_numeral)

theorem promotion_after_stable_run_witness:
  "\<exists>h1 sn h2. replicate 16 (sample_snapshot, [1]) = h1 @ (sn, [1]) # h2
    \<and> trailing_same (buildSnapshotCacheKey sn) (h1 @ [(sn, [1])]) = ROUTE_CACHE_PROMOTE_HITS"
  by (rule promotion_after_stable_run, rule promote_sixteen)

text \<open>the key does not separate snapshots as its comment promises: bytes may move from a header's name to its
  value without changing it, and the lowest bits of the two lanes always agree.\<close>

theorem cache_key_is_not_injective:
  "buildSnapshotCacheKey (sn\<lparr>sn_headers := (n @ x, v) # hs\<rparr>)
      = buildSnapshotCacheKey (sn\<lparr>sn_headers := (n, x @ v) # hs\<rparr>)
    \<and> bit (fst (snapshot_lanes sn)) 0 = bit (snd (snapshot_lanes sn)) 0"
  using key_shift snapshot_lanes_bit0 by blast

end
