(* ===== verification/Middleware.thy ===== *)
theory Middleware
  imports Prelude
begin

text \<open>
  The compiled middleware runner of \<open>src/src/index.js\<close> (\<open>createMiddlewareRunner\<close>).  A handler is a
  behaviour: a tree of effects on the shared state, questions to it, awaits, throws and
  \<open>await next()\<close>, the latter with the code that follows and the code of a surrounding
  \<open>catch\<close>/\<open>finally\<close>.  Calling an async function runs it up to its first await and yields a promise;
  a promise is the work that is left.  \<open>exec\<close> runs a behaviour to its end, \<open>exec_sync\<close> runs what
  happens before the caller gets control back.  Between two awaits of one request the other
  requests may run; what they do to shared data is part of the effects.
\<close>

section \<open>Behaviours\<close>

datatype 'e run_error = UserErr 'e | NextTwice | NextUndefined

datatype ('s, 'e) beh =
    Return
  | Throw 'e
  | Act "'s \<Rightarrow> 's" "('s, 'e) beh"
  | Ask "'s \<Rightarrow> ('s, 'e) beh"
  | Await "('s, 'e) beh"
  | Next "('s, 'e) beh" "'e run_error \<Rightarrow> ('s, 'e) beh option"

text \<open>
  The state of one run: the closure variable \<open>index\<close>, the request state, and for the statements
  below the positions of the handlers entered so far.
\<close>

record 's run =
  idx :: int
  entered :: "nat list"
  stt :: 's

type_synonym ('s, 'e) rest = "'s run \<Rightarrow> 's run \<times> 'e run_error option"

text \<open>In \<open>Next k h\<close>, \<open>h e = None\<close> lets the error through.\<close>

primrec exec :: "('s, 'e) beh \<Rightarrow> ('s, 'e) rest \<Rightarrow> ('s, 'e) rest" where
  "exec Return nx r = (r, None)"
| "exec (Throw e) nx r = (r, Some (UserErr e))"
| "exec (Act f k) nx r = exec k nx (r\<lparr>stt := f (stt r)\<rparr>)"
| "exec (Ask g) nx r = exec (g (stt r)) nx r"
| "exec (Await k) nx r = exec k nx r"
| "exec (Next k h) nx r =
     (case nx r of
        (r', None) \<Rightarrow> exec k nx r'
      | (r', Some e) \<Rightarrow>
          (case map_option (\<lambda>b. exec b nx r') (h e) of
             None \<Rightarrow> (r', Some e)
           | Some res \<Rightarrow> res))"

datatype ('s, 'e) outcome = Done | Failed "'e run_error" | Pending "('s, 'e) rest"

text \<open>
  What runs before the first await: \<open>nxs\<close> is the synchronous part of \<open>next()\<close> with its promise,
  \<open>nx\<close> a complete \<open>next()\<close> for the code that runs later.
\<close>

primrec exec_sync :: "('s, 'e) beh \<Rightarrow> ('s run \<Rightarrow> 's run \<times> ('s, 'e) rest) \<Rightarrow> ('s, 'e) rest
    \<Rightarrow> 's run \<Rightarrow> 's run \<times> ('s, 'e) outcome" where
  "exec_sync Return nxs nx r = (r, Done)"
| "exec_sync (Throw e) nxs nx r = (r, Failed (UserErr e))"
| "exec_sync (Act f k) nxs nx r = exec_sync k nxs nx (r\<lparr>stt := f (stt r)\<rparr>)"
| "exec_sync (Ask g) nxs nx r = exec_sync (g (stt r)) nxs nx r"
| "exec_sync (Await k) nxs nx r = (r, Pending (exec k nx))"
| "exec_sync (Next k h) nxs nx r =
     (let (r1, promise) = nxs r in
      (r1, Pending (\<lambda>r2.
         case promise r2 of
           (r', None) \<Rightarrow> exec k nx r'
         | (r', Some e) \<Rightarrow>
             (case map_option (\<lambda>b. exec b nx r') (h e) of
                None \<Rightarrow> (r', Some e)
              | Some res \<Rightarrow> res))))"

definition settle :: "('s, 'e) outcome \<Rightarrow> ('s, 'e) rest" where
  "settle out r = (case out of Done \<Rightarrow> (r, None) | Failed e \<Rightarrow> (r, Some e) | Pending f \<Rightarrow> f r)"

section \<open>The compiled chain\<close>

text \<open>A middleware is classified by \<open>handler.length >= 3\<close>.\<close>

record ('s, 'e) middleware =
  needsNext :: bool
  isAsync :: bool
  body :: "('s, 'e) beh"

text \<open>What the caller of an async function gets is a promise, a rejected one if it threw.\<close>

definition as_promise :: "bool \<Rightarrow> ('s, 'e) outcome \<Rightarrow> ('s, 'e) outcome" where
  "as_promise async out =
     (if async
      then (case out of
              Done \<Rightarrow> Pending (\<lambda>r. (r, None))
            | Failed e \<Rightarrow> Pending (\<lambda>r. (r, Some e))
            | Pending f \<Rightarrow> Pending f)
      else out)"

lemma settle_promise [simp]: "settle (as_promise async out) r = settle out r"
  by (simp add: as_promise_def settle_def split: outcome.split)

text \<open>A handler that takes no \<open>next\<close> cannot call it.\<close>

definition no_next :: "('s, 'e) rest" where
  "no_next r = (r, Some NextUndefined)"

definition no_next_sync :: "'s run \<Rightarrow> 's run \<times> ('s, 'e) rest" where
  "no_next_sync r = (r, no_next)"

text \<open>\<open>dispatch(position)\<close> to its end; the list holds the middlewares from \<open>position\<close> on.\<close>

fun dispatch :: "('s \<Rightarrow> bool) \<Rightarrow> ('s, 'e) middleware list \<Rightarrow> nat \<Rightarrow> ('s, 'e) rest" where
  "dispatch fin [] position r =
     (if int position \<le> idx r then (r, Some NextTwice)
      else (r\<lparr>idx := int position\<rparr>, None))"
| "dispatch fin (m # ms) position r =
     (if int position \<le> idx r then (r, Some NextTwice)
      else
        let r1 = r\<lparr>idx := int position\<rparr> in
        if fin (stt r1) then (r1, None)
        else
          let r2 = r1\<lparr>entered := entered r1 @ [position]\<rparr> in
          if needsNext m then exec (body m) (dispatch fin ms (position + 1)) r2
          else
            (case exec (body m) no_next r2 of
               (r3, Some e) \<Rightarrow> (r3, Some e)
             | (r3, None) \<Rightarrow>
                 if \<not> fin (stt r3) then dispatch fin ms (position + 1) r3 else (r3, None)))"

text \<open>The same call up to its first await, with the promise it returns.\<close>

fun dispatch_sync :: "('s \<Rightarrow> bool) \<Rightarrow> ('s, 'e) middleware list \<Rightarrow> nat
    \<Rightarrow> 's run \<Rightarrow> 's run \<times> ('s, 'e) rest" where
  "dispatch_sync fin [] position r =
     (if int position \<le> idx r then (r, \<lambda>r'. (r', Some NextTwice))
      else (r\<lparr>idx := int position\<rparr>, \<lambda>r'. (r', None)))"
| "dispatch_sync fin (m # ms) position r =
     (if int position \<le> idx r then (r, \<lambda>r'. (r', Some NextTwice))
      else
        let r1 = r\<lparr>idx := int position\<rparr> in
        if fin (stt r1) then (r1, \<lambda>r'. (r', None))
        else
          let r2 = r1\<lparr>entered := entered r1 @ [position]\<rparr> in
          if needsNext m
          then (let (r3, out) = exec_sync (body m) (dispatch_sync fin ms (position + 1))
                     (dispatch fin ms (position + 1)) r2 in
                (r3, settle out))
          else (let (r3, out) = exec_sync (body m) no_next_sync no_next r2 in
                (r3, \<lambda>r4.
                   case settle out r4 of
                     (r5, Some e) \<Rightarrow> (r5, Some e)
                   | (r5, None) \<Rightarrow>
                       if \<not> fin (stt r5) then dispatch fin ms (position + 1) r5
                       else (r5, None))))"

definition start_run :: "'s \<Rightarrow> 's run" where
  "start_run s = \<lparr>idx = -1, entered = [], stt = s\<rparr>"

text \<open>
  \<open>NOOP_NEXT\<close> returns \<open>undefined\<close>.  The runner for one middleware calls the handler directly:
  a handler that is no async function throws into its caller.
\<close>

definition noop_next :: "('s, 'e) rest" where
  "noop_next r = (r, None)"

definition noop_next_sync :: "'s run \<Rightarrow> 's run \<times> ('s, 'e) rest" where
  "noop_next_sync r = (r, noop_next)"

definition run_single_sync :: "('s, 'e) middleware \<Rightarrow> 's run \<Rightarrow> 's run \<times> ('s, 'e) outcome" where
  "run_single_sync m r =
     (let r2 = r\<lparr>entered := entered r @ [0]\<rparr> in
      map_prod id (as_promise (isAsync m))
        (if needsNext m then exec_sync (body m) noop_next_sync noop_next r2
         else exec_sync (body m) no_next_sync no_next r2))"

definition run_single :: "('s, 'e) middleware \<Rightarrow> ('s, 'e) rest" where
  "run_single m r =
     (let r2 = r\<lparr>entered := entered r @ [0]\<rparr> in
      if needsNext m then exec (body m) noop_next r2 else exec (body m) no_next r2)"

definition createMiddlewareRunner :: "('s \<Rightarrow> bool) \<Rightarrow> ('s, 'e) middleware list
    \<Rightarrow> 's \<Rightarrow> 's run \<times> ('s, 'e) outcome" where
  "createMiddlewareRunner fin middlewares s =
     (case middlewares of
        [] \<Rightarrow> (start_run s, Done)
      | [mw] \<Rightarrow> run_single_sync mw (start_run s)
      | _ \<Rightarrow>
          let (r, promise) = dispatch_sync fin middlewares 0 (start_run s) in (r, Pending promise))"

definition run_to_end :: "('s \<Rightarrow> bool) \<Rightarrow> ('s, 'e) middleware list \<Rightarrow> 's \<Rightarrow> 's run \<times> 'e run_error option" where
  "run_to_end fin middlewares s =
     (let (r, out) = createMiddlewareRunner fin middlewares s in settle out r)"

section \<open>Running in two parts is running\<close>

lemma exec_sync_settle:
  assumes "\<And>r. snd (nxs r) (fst (nxs r)) = nx r"
  shows "settle (snd (exec_sync b nxs nx r)) (fst (exec_sync b nxs nx r)) = exec b nx r"
proof (induction b arbitrary: r)
  case (Next k h)
  obtain r1 p where n: "nxs r = (r1, p)" by (cases "nxs r")
  then have p: "p r1 = nx r" using assms [of r] by simp
  obtain r2 oe where "nx r = (r2, oe)" by (cases "nx r")
  then show ?case by (cases oe) (simp_all add: settle_def n p)
qed (simp_all add: settle_def)

lemma no_next_settle: "settle (snd (exec_sync b no_next_sync no_next r)) (fst (exec_sync b no_next_sync no_next r))
    = exec b no_next r"
  by (rule exec_sync_settle) (simp add: no_next_sync_def)

lemma noop_next_settle: "settle (snd (exec_sync b noop_next_sync noop_next r))
    (fst (exec_sync b noop_next_sync noop_next r)) = exec b noop_next r"
  by (rule exec_sync_settle) (simp add: noop_next_sync_def)

lemma dispatch_sync_settle:
  "snd (dispatch_sync fin ms position r) (fst (dispatch_sync fin ms position r)) = dispatch fin ms position r"
proof (induction ms arbitrary: position r)
  case Nil
  then show ?case by simp
next
  case (Cons m ms)
  let ?r2 = "r\<lparr>idx := int position, entered := entered r @ [position]\<rparr>"
  obtain r3 out where b: "exec_sync (body m) no_next_sync no_next ?r2 = (r3, out)"
    by (cases "exec_sync (body m) no_next_sync no_next ?r2")
  then have b': "settle out r3 = exec (body m) no_next ?r2"
    using no_next_settle [of "body m" ?r2] by simp
  obtain r4 out4 where c: "exec_sync (body m) (dispatch_sync fin ms (position + 1))
      (dispatch fin ms (position + 1)) ?r2 = (r4, out4)"
    by (cases "exec_sync (body m) (dispatch_sync fin ms (position + 1)) (dispatch fin ms (position + 1)) ?r2")
  then have c': "settle out4 r4 = exec (body m) (dispatch fin ms (position + 1)) ?r2"
    using exec_sync_settle [of "dispatch_sync fin ms (position + 1)" "dispatch fin ms (position + 1)"
      "body m" ?r2] Cons.IH by simp
  show ?case
  proof (cases "int position \<le> idx r \<or> fin (stt r)")
    case True
    then show ?thesis by auto
  next
    case False
    then show ?thesis using b b' c c' by (simp add: Let_def)
  qed
qed

lemma single_settle: "settle (snd (run_single_sync m r)) (fst (run_single_sync m r)) = run_single m r"
  by (simp add: run_single_sync_def run_single_def Let_def no_next_settle noop_next_settle)

lemma run_to_end_simps:
  "run_to_end fin [] s = (start_run s, None)"
  "run_to_end fin [m] s = run_single m (start_run s)"
  "run_to_end fin (m # n # ms) s = dispatch fin (m # n # ms) 0 (start_run s)"
  using single_settle [of m "start_run s"] dispatch_sync_settle [of fin "m # n # ms" 0 "start_run s"]
  by (simp_all add: run_to_end_def createMiddlewareRunner_def settle_def case_prod_unfold Let_def
      del: dispatch.simps dispatch_sync.simps)

section \<open>Order of entry\<close>

text \<open>A property of runs that \<open>next\<close> and effects keep is kept by a whole behaviour.\<close>

locale run_invariant =
  fixes P :: "'s run \<Rightarrow> bool"
  assumes effect: "P r \<Longrightarrow> P (r\<lparr>stt := x\<rparr>)"
begin

lemma exec_keeps: "(\<And>r. P r \<Longrightarrow> P (fst (nx r))) \<Longrightarrow> P r \<Longrightarrow> P (fst (exec b nx r))"
proof (induction b arbitrary: r)
  case (Next k h)
  obtain r1 oe where n: "nx r = (r1, oe)" by (cases "nx r")
  then have "P r1" using Next.prems(1) [OF Next.prems(2)] by simp
  have hk: "P (fst (exec b nx r1))" if "h e = Some b" for e b
    using Next.IH(2) [of "Some b" b r1] Next.prems(1) that \<open>P r1\<close> by (metis option.set_intros rangeI)
  show ?case
  proof (cases oe)
    case None
    then show ?thesis using Next.IH(1) Next.prems(1) n \<open>P r1\<close> by simp
  next
    case (Some e)
    then show ?thesis using n \<open>P r1\<close> hk [of e] by (cases "h e") simp_all
  qed
qed (auto intro: effect)

end

definition in_order :: "nat \<Rightarrow> nat \<Rightarrow> 's run \<Rightarrow> bool" where
  "in_order p n r \<longleftrightarrow> (\<exists>k. p \<le> k \<and> k \<le> n \<and> entered r = [0..<k] \<and> int k \<le> idx r + 1)"

interpretation order_inv: run_invariant "in_order p n" for p n
  by unfold_locales (simp add: in_order_def)

lemma in_order_weaken: "in_order (Suc p) n r \<Longrightarrow> in_order p n r"
  unfolding in_order_def using Suc_leD by blast

lemma enter_in_order:
  assumes "in_order p n r" "\<not> int p \<le> idx r" "p < n"
  shows "in_order (Suc p) n (r\<lparr>idx := int p, entered := entered r @ [p]\<rparr>)"
proof -
  obtain k where "p \<le> k" "entered r = [0..<k]" "int k \<le> idx r + 1"
    using assms(1) by (auto simp: in_order_def)
  then have "k = p" using assms(2) by simp
  then show ?thesis using assms(3) \<open>entered r = [0..<k]\<close> by (auto simp: in_order_def)
qed

lemma no_next_run [simp]: "fst (no_next r) = r" "fst (noop_next r) = r"
  by (simp_all add: no_next_def noop_next_def)

lemma dispatch_in_order:
  "in_order p (p + length ms) r \<Longrightarrow> in_order p (p + length ms) (fst (dispatch fin ms p r))"
proof (induction ms arbitrary: p r)
  case Nil
  then show ?case by (auto simp: in_order_def)
next
  case (Cons m ms)
  let ?n = "p + length (m # ms)"
  let ?r2 = "r\<lparr>idx := int p, entered := entered r @ [p]\<rparr>"
  have IH: "in_order (Suc p) ?n r' \<Longrightarrow> in_order (Suc p) ?n (fst (dispatch fin ms (p + 1) r'))" for r'
    using Cons.IH [of "p + 1" r'] by simp
  consider "int p \<le> idx r" | "\<not> int p \<le> idx r" "fin (stt r)" | "\<not> int p \<le> idx r" "\<not> fin (stt r)"
    by blast
  then show ?case
  proof cases
    case 1
    then show ?thesis using Cons.prems by simp
  next
    case 2
    then show ?thesis using Cons.prems by (auto simp: in_order_def)
  next
    case 3
    have r2: "in_order (Suc p) ?n ?r2" using enter_in_order [OF Cons.prems 3(1)] by simp
    have a: "in_order (Suc p) ?n (fst (exec (body m) (dispatch fin ms (p + 1)) ?r2))"
      by (rule order_inv.exec_keeps [OF IH r2])
    have b: "in_order (Suc p) ?n (fst (exec (body m) no_next ?r2))"
      by (rule order_inv.exec_keeps [OF _ r2]) simp
    show ?thesis
    proof (cases "needsNext m")
      case True
      then show ?thesis using 3 in_order_weaken [OF a] by (simp add: Let_def)
    next
      case False
      obtain r3 oe where e: "exec (body m) no_next ?r2 = (r3, oe)" by (cases "exec (body m) no_next ?r2")
      then show ?thesis
        using 3 False in_order_weaken b IH [of r3] by (cases oe) (auto simp: Let_def)
    qed
  qed
qed

interpretation entered_inv: run_invariant "\<lambda>r. entered r = xs" for xs
  by unfold_locales simp

lemma single_entered: "entered (fst (run_single m (start_run s))) = [0]"
proof -
  have "entered (fst (exec (body m) noop_next (start_run s\<lparr>entered := [0]\<rparr>))) = [0]"
    by (rule entered_inv.exec_keeps) simp_all
  moreover have "entered (fst (exec (body m) no_next (start_run s\<lparr>entered := [0]\<rparr>))) = [0]"
    by (rule entered_inv.exec_keeps) simp_all
  ultimately show ?thesis by (simp add: run_single_def start_run_def Let_def)
qed

lemma run_in_order: "\<exists>k \<le> length ms. entered (fst (run_to_end fin ms s)) = [0..<k]"
proof -
  consider "ms = []" | m where "ms = [m]" | m n ms' where "ms = m # n # ms'"
    by (metis list.exhaust)
  then show ?thesis
  proof cases
    case 1
    then show ?thesis by (simp add: run_to_end_simps start_run_def)
  next
    case (2 m)
    then show ?thesis by (simp add: run_to_end_simps single_entered exI [of _ 1])
  next
    case (3 m n ms')
    have "in_order 0 (length ms) (start_run s)"
      by (auto simp: in_order_def start_run_def)
    then have "in_order 0 (length ms) (fst (run_to_end fin ms s))"
      using dispatch_in_order [of 0 ms "start_run s" fin] 3 by (simp add: run_to_end_simps)
    then show ?thesis by (auto simp: in_order_def)
  qed
qed

section \<open>The onion\<close>

text \<open>
  Middlewares of the usual form: some work, \<open>await next()\<close>, some work; or, without \<open>next\<close>, just
  work.
\<close>

datatype 's layer = Wrap "'s \<Rightarrow> 's" "'s \<Rightarrow> 's" | Auto "'s \<Rightarrow> 's"

fun layer_mw :: "'s layer \<Rightarrow> ('s, 'e) middleware" where
  "layer_mw (Wrap pre post) =
     \<lparr>needsNext = True, isAsync = True, body = Act pre (Next (Act post Return) (\<lambda>_. None))\<rparr>"
| "layer_mw (Auto f) = \<lparr>needsNext = False, isAsync = False, body = Act f Return\<rparr>"

fun onion :: "('s \<Rightarrow> bool) \<Rightarrow> 's layer list \<Rightarrow> 's \<Rightarrow> 's" where
  "onion fin [] s = s"
| "onion fin (Wrap pre post # ls) s = (if fin s then s else post (onion fin ls (pre s)))"
| "onion fin (Auto f # ls) s =
     (if fin s then s else let s' = f s in if fin s' then s' else onion fin ls s')"

lemma dispatch_onion:
  "idx r < int p \<Longrightarrow>
    \<exists>r'. dispatch fin (map layer_mw ls) p r = (r', None) \<and> stt r' = onion fin ls (stt r)"
proof (induction ls arbitrary: p r)
  case Nil
  then show ?case by simp
next
  case (Cons l ls)
  show ?case
  proof (cases l)
    case (Wrap pre post)
    let ?r = "r\<lparr>idx := int p, entered := entered r @ [p], stt := pre (stt r)\<rparr>"
    show ?thesis using Cons.IH [of ?r "p + 1"] Cons.prems Wrap by (auto simp: Let_def)
  next
    case (Auto f)
    let ?r = "r\<lparr>idx := int p, entered := entered r @ [p], stt := f (stt r)\<rparr>"
    show ?thesis using Cons.IH [of ?r "p + 1"] Cons.prems Auto by (auto simp: Let_def)
  qed
qed

lemma run_onion:
  "2 \<le> length ls \<Longrightarrow>
    \<exists>r. run_to_end fin (map layer_mw ls) s = (r, None :: 'e run_error option) \<and> stt r = onion fin ls s"
proof -
  assume "2 \<le> length ls"
  then obtain a b ls' where "ls = a # b # ls'"
    by (metis One_nat_def Suc_1 Suc_le_length_iff)
  then show ?thesis
    using dispatch_onion [of "start_run s" 0 fin ls] by (simp add: run_to_end_simps start_run_def)
qed

text \<open>What has happened when the runner hands control back: no code behind an await.\<close>

fun before_await :: "('s \<Rightarrow> bool) \<Rightarrow> 's layer list \<Rightarrow> 's \<Rightarrow> 's" where
  "before_await fin [] s = s"
| "before_await fin (Wrap pre post # ls) s = (if fin s then s else before_await fin ls (pre s))"
| "before_await fin (Auto f # ls) s = (if fin s then s else f s)"

lemma dispatch_sync_before:
  "idx r < int p \<Longrightarrow> stt (fst (dispatch_sync fin (map layer_mw ls) p r)) = before_await fin ls (stt r)"
proof (induction ls arbitrary: p r)
  case Nil
  then show ?case by simp
next
  case (Cons l ls)
  show ?case
  proof (cases l)
    case (Wrap pre post)
    let ?r = "r\<lparr>idx := int p, entered := entered r @ [p], stt := pre (stt r)\<rparr>"
    show ?thesis
      using Cons.IH [of ?r "p + 1"] Cons.prems Wrap by (simp add: Let_def split_beta)
  next
    case (Auto f)
    then show ?thesis using Cons.prems by (simp add: Let_def)
  qed
qed

lemma runner_before_await:
  "2 \<le> length ls \<Longrightarrow>
    stt (fst (createMiddlewareRunner fin (map layer_mw ls) s :: 's run \<times> ('s, 'e) outcome))
      = before_await fin ls s"
proof -
  assume "2 \<le> length ls"
  then obtain a b ls' where l: "ls = a # b # ls'"
    by (metis One_nat_def Suc_1 Suc_le_length_iff)
  have "stt (fst (dispatch_sync fin (map layer_mw ls) 0 (start_run s) :: 's run \<times> ('s, 'e) rest))
      = before_await fin ls s"
    using dispatch_sync_before [of "start_run s" 0 fin ls] by (simp add: start_run_def)
  then show ?thesis
    by (simp add: l createMiddlewareRunner_def split_beta Let_def del: dispatch_sync.simps before_await.simps)
qed

section \<open>One middleware\<close>

text \<open>Calls \<open>next\<close> never, at most once.\<close>

primrec next_free :: "('s, 'e) beh \<Rightarrow> bool" where
  "next_free Return = True"
| "next_free (Throw e) = True"
| "next_free (Act f k) = next_free k"
| "next_free (Ask g) = (\<forall>s. next_free (g s))"
| "next_free (Await k) = next_free k"
| "next_free (Next k h) = False"

primrec next_once :: "('s, 'e) beh \<Rightarrow> bool" where
  "next_once Return = True"
| "next_once (Throw e) = True"
| "next_once (Act f k) = next_once k"
| "next_once (Ask g) = (\<forall>s. next_once (g s))"
| "next_once (Await k) = next_once k"
| "next_once (Next k h) = next_free k"

definition outcome_of :: "'s run \<times> 'e run_error option \<Rightarrow> 's \<times> 'e run_error option" where
  "outcome_of p = (stt (fst p), snd p)"

lemma exec_next_free:
  "next_free b \<Longrightarrow> stt r = stt r' \<Longrightarrow> outcome_of (exec b nx r) = outcome_of (exec b nx' r')"
  by (induction b arbitrary: r r') (auto simp: outcome_of_def)

lemma dispatch_end: "idx r < 1 \<Longrightarrow> dispatch fin [] 1 r = (r\<lparr>idx := 1\<rparr>, None)"
  by simp

lemma noop_next_app: "noop_next r = (r, None)"
  by (simp add: noop_next_def)

lemma no_next_app: "no_next r = (r, Some NextUndefined)"
  by (simp add: no_next_def)

lemma exec_next_once:
  "next_once b \<Longrightarrow> stt r = stt r' \<Longrightarrow> idx r' < 1 \<Longrightarrow>
    outcome_of (exec b noop_next r) = outcome_of (exec b (dispatch fin [] 1) r')"
proof (induction b arbitrary: r r')
  case (Next k h)
  have "outcome_of (exec k noop_next r) = outcome_of (exec k (dispatch fin [] 1) (r'\<lparr>idx := 1\<rparr>))"
    by (rule exec_next_free) (use Next.prems in simp_all)
  then show ?case
    using Next.prems by (simp only: exec.simps noop_next_app [of r] dispatch_end prod.case option.case)
qed (auto simp: outcome_of_def)

lemma exec_no_next: "stt r = stt r' \<Longrightarrow> outcome_of (exec b no_next r) = outcome_of (exec b no_next r')"
proof (induction b arbitrary: r r')
  case (Act f k)
  show ?case unfolding exec.simps by (rule Act.IH) (use Act.prems in simp)
next
  case (Ask g)
  show ?case unfolding exec.simps Ask.prems by (rule Ask.IH) (use Ask.prems in simp_all)
next
  case (Await k)
  show ?case unfolding exec.simps by (rule Await.IH) (rule Await.prems)
next
  case (Next k h)
  show ?case
  proof (cases "h NextUndefined")
    case None
    then show ?thesis using Next.prems by (simp add: no_next_app [of r] no_next_app [of r'] outcome_of_def)
  next
    case (Some b)
    then have "outcome_of (exec b no_next r) = outcome_of (exec b no_next r')"
      using Next.IH(2) [of "Some b" b r r'] Next.prems by (metis option.set_intros rangeI)
    then show ?thesis using Some by (simp add: no_next_app [of r] no_next_app [of r'])
  qed
qed (simp_all add: outcome_of_def)

interpretation idx_inv: run_invariant "\<lambda>r. idx r = i" for i
  by unfold_locales simp

lemma single_is_dispatch:
  assumes "next_once (body m)" "\<not> fin s"
  shows "outcome_of (run_single m (start_run s)) = outcome_of (dispatch fin [m] 0 (start_run s))"
proof -
  let ?r = "start_run s\<lparr>entered := [0]\<rparr>"
  let ?r' = "start_run s\<lparr>idx := 0, entered := [0]\<rparr>"
  have a: "outcome_of (exec (body m) noop_next ?r) = outcome_of (exec (body m) (dispatch fin [] 1) ?r')"
    by (rule exec_next_once [OF assms(1)]) (simp_all add: start_run_def)
  have b: "outcome_of (exec (body m) no_next ?r) = outcome_of (exec (body m) no_next ?r')"
    by (rule exec_no_next) simp
  have i: "idx (fst (exec (body m) no_next ?r')) = 0"
    by (rule idx_inv.exec_keeps) simp_all
  have e: "entered (start_run s) = []" "stt (start_run s) = s" "idx (start_run s) = - 1"
    by (simp_all add: start_run_def)
  obtain r3 oe where n: "exec (body m) no_next ?r' = (r3, oe)" by (cases "exec (body m) no_next ?r'")
  show ?thesis
    using a b i assms(2) n
    by (cases oe) (simp_all add: run_single_def e outcome_of_def Let_def)
qed

text \<open>Without \<open>index\<close> a second call of \<open>next\<close> goes unnoticed.\<close>

definition twice :: "('s, 'e) middleware" where
  "twice = \<lparr>needsNext = True, isAsync = True, body = Next (Next Return (\<lambda>_. None)) (\<lambda>_. None)\<rparr>"

lemma twice_single: "snd (run_to_end fin [twice] s) = None"
  by (simp add: run_to_end_simps run_single_def twice_def noop_next_def Let_def)

section \<open>Properties\<close>

text \<open>C8: whatever the middlewares do, each is entered at most once, in the order of registration and without
  gaps.\<close>

theorem middlewares_entered_in_order:
  "\<exists>k. k \<le> length middlewares \<and> entered (fst (run_to_end fin middlewares s)) = [0..<k]"
  by (rule run_in_order)

text \<open>C7: a chain of middlewares that work before and after \<open>await next()\<close> runs as an onion: the parts before in
  order, the parts after in reverse order, cut short where the response is finished, with no error.\<close>

theorem middleware_chain_is_onion:
  assumes "2 \<le> length layers"
  shows "\<exists>r. run_to_end fin (map layer_mw layers) s = (r, None :: 'e run_error option)
    \<and> stt r = onion fin layers s"
  using assms by (rule run_onion)

theorem middleware_chain_is_onion_witness:
  "\<exists>r. run_to_end (\<lambda>_. False)
      (map layer_mw [Wrap (\<lambda>s. s @ [1]) (\<lambda>s. s @ [2]), Wrap (\<lambda>s. s @ [3]) (\<lambda>s. s @ [4 :: nat])]) []
      = (r, None :: string run_error option)
    \<and> stt r = onion (\<lambda>_. False) [Wrap (\<lambda>s. s @ [1]) (\<lambda>s. s @ [2]), Wrap (\<lambda>s. s @ [3]) (\<lambda>s. s @ [4])] []"
  by (rule middleware_chain_is_onion) simp

text \<open>the runner specialised to one middleware gives the same state and error as the general chain, for a
  handler that calls \<open>next\<close> at most once.\<close>

theorem single_runner_is_chain:
  assumes "next_once (body m)" "\<not> fin s"
  shows "outcome_of (run_to_end fin [m] s) = outcome_of (Middleware.dispatch fin [m] 0 (start_run s))"
  unfolding run_to_end_simps by (rule single_is_dispatch) (rule assms)+

theorem single_runner_is_chain_witness:
  "outcome_of (run_to_end (\<lambda>_. False) [layer_mw (Wrap Suc Suc) :: (nat, string) middleware] 0)
    = outcome_of (Middleware.dispatch (\<lambda>_. False) [layer_mw (Wrap Suc Suc)] 0 (start_run 0))"
  by (rule single_runner_is_chain) simp_all

text \<open>calling \<open>next\<close> twice goes unnoticed when the middleware is the only one and is an error when there are
  two.\<close>

theorem double_next_detection:
  "snd (run_to_end (\<lambda>_. False) [twice] s) = None
    \<and> snd (run_to_end (\<lambda>_. False) [twice, layer_mw (Auto f)] s) = Some NextTwice"
proof
  show "snd (run_to_end (\<lambda>_. False) [twice] s) = None" by (rule twice_single)
  show "snd (run_to_end (\<lambda>_. False) [twice, layer_mw (Auto f)] s) = Some NextTwice"
    by (simp add: run_to_end_simps twice_def start_run_def Let_def)
qed

text \<open>when the runner hands control back to the dispatcher, the middlewares have run up to their first await
  and no further: no code behind \<open>await next()\<close> has run.\<close>

theorem runner_stops_at_first_await:
  assumes "2 \<le> length layers"
  shows "stt (fst (createMiddlewareRunner fin (map layer_mw layers) s :: 's run \<times> ('s, 'e) outcome))
    = before_await fin layers s"
  using assms by (rule runner_before_await)

theorem runner_stops_at_first_await_witness:
  "stt (fst (createMiddlewareRunner (\<lambda>_. False) (map layer_mw [Wrap Suc Suc, Auto Suc]) 0
      :: nat run \<times> (nat, string) outcome))
    = before_await (\<lambda>_. False) [Wrap Suc Suc, Auto Suc] 0"
  by (rule runner_stops_at_first_await) simp

end
