(* ===== verification/QueryParams.thy ===== *)
theory QueryParams
  imports AccessPlan BridgeCodec
begin

text \<open>
  The objects that handlers see: the query-string parser of \<open>src/src/bridge.js\<close> with its
  selective variant, percent decoding, and the materialisation of route parameters and headers
  into null-prototype objects.  The reference is the list of decoded pairs of the query string:
  an object maps a key to all its values, and the selective routines are restrictions of the full
  ones.
\<close>

section \<open>Percent decoding\<close>

text \<open>
  \<open>decodeURIComponent\<close>: a \<open>%XX\<close> below 128 is that character, a larger one starts a sequence of
  escaped bytes that must be well-formed UTF-8; everything else is copied.  \<open>None\<close> is the
  \<open>URIError\<close>.
\<close>

definition hex_val :: "char \<Rightarrow> nat option" where
  "hex_val c =
     (let n = (of_char c :: nat) in
      if 48 \<le> n \<and> n \<le> 57 then Some (n - 48)
      else if 65 \<le> n \<and> n \<le> 70 then Some (n - 55)
      else if 97 \<le> n \<and> n \<le> 102 then Some (n - 87)
      else None)"

fun take_octet :: "string \<Rightarrow> (nat \<times> string) option" where
  "take_octet (p # h # l # rest) =
     (if p = CHR ''%'' then
        (case (hex_val h, hex_val l) of
           (Some a, Some b) \<Rightarrow> Some (16 * a + b, rest)
         | _ \<Rightarrow> None)
      else None)"
| "take_octet _ = None"

fun take_octets :: "nat \<Rightarrow> string \<Rightarrow> (nat list \<times> string) option" where
  "take_octets 0 s = Some ([], s)"
| "take_octets (Suc n) s =
     (case take_octet s of
        None \<Rightarrow> None
      | Some (b, rest) \<Rightarrow>
          (case take_octets n rest of
             None \<Rightarrow> None
           | Some (bs, rest') \<Rightarrow> Some (b # bs, rest')))"

definition utf8_followers :: "nat \<Rightarrow> nat option" where
  "utf8_followers b =
     (if b < 128 then Some 0 else if b < 192 then None else if b < 224 then Some 1
      else if b < 240 then Some 2 else if b < 248 then Some 3 else None)"

definition utf8_value :: "nat list \<Rightarrow> nat" where
  "utf8_value bs =
     (case bs of
        [] \<Rightarrow> 0
      | b # cs \<Rightarrow> foldl (\<lambda>v c. 64 * v + (c - 128)) (b mod 2 ^ (6 - length cs)) cs)"

definition valid_utf8 :: "nat list \<Rightarrow> bool" where
  "valid_utf8 bs =
     (case bs of
        [] \<Rightarrow> False
      | b # cs \<Rightarrow>
          utf8_followers b = Some (length cs) \<and> (\<forall>c\<in>set cs. 128 \<le> c \<and> c < 192)
          \<and> (let v = utf8_value bs in
             if length cs = 0 then True
             else if length cs = 1 then 0x80 \<le> v
             else if length cs = 2 then 0x800 \<le> v \<and> \<not> (0xD800 \<le> v \<and> v \<le> 0xDFFF)
             else 0x10000 \<le> v \<and> v \<le> 0x10FFFF))"

lemma take_octet_shorter: "take_octet s = Some (b, rest) \<Longrightarrow> length rest < length s"
  by (induction s rule: take_octet.induct) (auto split: if_splits option.splits)

lemma take_octets_shorter: "take_octets n s = Some (bs, rest) \<Longrightarrow> length rest \<le> length s"
  by (induction n arbitrary: s bs)
    (auto split: option.splits dest: take_octet_shorter intro: less_imp_le order_trans
      dest!: take_octet_shorter, fastforce dest: take_octet_shorter)

function decodeURIComponent :: "string \<Rightarrow> string option" where
  "decodeURIComponent s =
     (case s of
        [] \<Rightarrow> Some []
      | c # cs \<Rightarrow>
          if c \<noteq> CHR ''%'' then map_option (Cons c) (decodeURIComponent cs)
          else
            (case take_octet s of
               None \<Rightarrow> None
             | Some (b, rest) \<Rightarrow>
                 (case utf8_followers b of
                    None \<Rightarrow> None
                  | Some n \<Rightarrow>
                      (case take_octets n rest of
                         None \<Rightarrow> None
                       | Some (bs, rest') \<Rightarrow>
                           if valid_utf8 (b # bs)
                           then map_option ((@) (map char_of (b # bs))) (decodeURIComponent rest')
                           else None))))"
  by pat_completeness auto
termination
  by (relation "measure length")
    (auto dest!: take_octet_shorter take_octets_shorter)

declare decodeURIComponent.simps [simp del]

definition plus_to_space :: "string \<Rightarrow> string" where
  "plus_to_space s = map (\<lambda>c. if c = CHR ''+'' then CHR 0x20 else c) s"

definition decodeUriComponentFast :: "string \<Rightarrow> string" where
  "decodeUriComponentFast str =
     (let normalized = plus_to_space str in
      case decodeURIComponent normalized of Some d \<Rightarrow> d | None \<Rightarrow> normalized)"

section \<open>Null-prototype objects\<close>

datatype qvalue = QStr string | QArr "string list"

definition DANGEROUS_KEYS :: "string list" where
  "DANGEROUS_KEYS =
     [''__proto__'', ''constructor'', ''prototype'', ''__defineGetter__'', ''__defineSetter__'',
      ''__lookupGetter__'', ''__lookupSetter__'']"

definition pushQueryEntry :: "(string \<times> qvalue) list \<Rightarrow> string \<Rightarrow> string \<Rightarrow> (string \<times> qvalue) list" where
  "pushQueryEntry result key v =
     (case map_of result key of
        Some (QArr vs) \<Rightarrow> AList.update key (QArr (vs @ [v])) result
      | Some (QStr w) \<Rightarrow> AList.update key (QArr [w, v]) result
      | None \<Rightarrow> AList.update key (QStr v) result)"

definition decode_pair :: "string \<Rightarrow> string \<times> string" where
  "decode_pair pair =
     (case indexOf pair ''='' of
        None \<Rightarrow> (decodeUriComponentFast pair, [])
      | Some eqIndex \<Rightarrow>
          (decodeUriComponentFast (take eqIndex pair),
           decodeUriComponentFast (drop (eqIndex + 1) pair)))"

definition query_step :: "(string \<times> qvalue) list \<Rightarrow> string \<Rightarrow> (string \<times> qvalue) list" where
  "query_step result pair =
     (if pair = [] then result
      else
        let (key, v) = decode_pair pair in
        if key \<in> set DANGEROUS_KEYS then result else pushQueryEntry result key v)"

definition parseQuery :: "string \<Rightarrow> (string \<times> qvalue) list" where
  "parseQuery url =
     (case indexOf url ''?'' of
        None \<Rightarrow> []
      | Some queryStart \<Rightarrow>
          if queryStart = length url - 1 then []
          else foldl query_step [] (split_on CHR ''&'' (drop (queryStart + 1) url)))"

definition selected_step ::
  "string list \<Rightarrow> (string \<times> qvalue) list \<Rightarrow> string \<Rightarrow> (string \<times> qvalue) list" where
  "selected_step selectedKeys result pair =
     (if pair = [] then result
      else
        let (key, v) = decode_pair pair in
        if key \<in> set selectedKeys \<and> key \<notin> set DANGEROUS_KEYS
        then pushQueryEntry result key v else result)"

definition parseSelectedQuery :: "string \<Rightarrow> string list \<Rightarrow> (string \<times> qvalue) list" where
  "parseSelectedQuery url selectedKeys =
     (if selectedKeys = [] then []
      else
        (case indexOf url ''?'' of
           None \<Rightarrow> []
         | Some queryStart \<Rightarrow>
             if queryStart = length url - 1 then []
             else foldl (selected_step selectedKeys) []
               (split_on CHR ''&'' (drop (queryStart + 1) url))))"

definition flag_set :: "nat \<Rightarrow> nat \<Rightarrow> bool" where
  "flag_set flags f \<longleftrightarrow> and flags f \<noteq> 0"

definition materializeQueryObject :: "string \<Rightarrow> nat \<Rightarrow> access_plan \<Rightarrow> (string \<times> qvalue) list" where
  "materializeQueryObject url flags plan =
     (if \<not> flag_set flags REQUEST_FLAG_QUERY_PRESENT then []
      else if pl_fullQuery plan then parseQuery url
      else parseSelectedQuery url (pl_queryKeys plan))"

text \<open>
  The loops over the route parameters: \<open>paramNames[index]\<close> beyond the end is \<open>undefined\<close>, which is
  in no set and becomes the property \<open>undefined\<close>.
\<close>

fun materializeParamPairs_from ::
  "(string \<times> string) list \<Rightarrow> byte list list \<Rightarrow> string list \<Rightarrow> (string \<times> string) list" where
  "materializeParamPairs_from result [] names = result"
| "materializeParamPairs_from result (e # es) [] =
     materializeParamPairs_from (AList.update ''undefined'' (text_decode e) result) es []"
| "materializeParamPairs_from result (e # es) (key # names) =
     (if key \<in> set DANGEROUS_KEYS then materializeParamPairs_from result es names
      else materializeParamPairs_from (AList.update key (text_decode e) result) es names)"

definition materializeParamPairs :: "byte list list \<Rightarrow> string list \<Rightarrow> (string \<times> string) list" where
  "materializeParamPairs entries paramNames = materializeParamPairs_from [] entries paramNames"

fun selectedParamPairs_from ::
  "string list \<Rightarrow> (string \<times> string) list \<Rightarrow> byte list list \<Rightarrow> string list \<Rightarrow> (string \<times> string) list" where
  "selectedParamPairs_from sel result [] names = result"
| "selectedParamPairs_from sel result (e # es) [] = selectedParamPairs_from sel result es []"
| "selectedParamPairs_from sel result (e # es) (key # names) =
     (if key \<in> set sel \<and> key \<notin> set DANGEROUS_KEYS
      then selectedParamPairs_from sel (AList.update key (text_decode e) result) es names
      else selectedParamPairs_from sel result es names)"

definition materializeSelectedParamPairs ::
  "byte list list \<Rightarrow> string list \<Rightarrow> string list \<Rightarrow> (string \<times> string) list" where
  "materializeSelectedParamPairs entries paramNames selectedKeys =
     (if selectedKeys = [] then [] else selectedParamPairs_from selectedKeys [] entries paramNames)"

definition materializeParamObject ::
  "byte list list \<Rightarrow> string list \<Rightarrow> access_plan \<Rightarrow> (string \<times> string) list" where
  "materializeParamObject entries paramNames plan =
     (if pl_fullParams plan then materializeParamPairs entries paramNames
      else materializeSelectedParamPairs entries paramNames (pl_paramKeys plan))"

definition header_lookup_step :: "(string \<times> string) list \<Rightarrow> byte list \<times> byte list \<Rightarrow> (string \<times> string) list" where
  "header_lookup_step result entry =
     (let name = toLowerCase (text_decode (fst entry)) in
      if name \<in> set DANGEROUS_KEYS then result
      else AList.update name (text_decode (snd entry)) result)"

definition buildHeaderLookup :: "(byte list \<times> byte list) list \<Rightarrow> (string \<times> string) list" where
  "buildHeaderLookup entries = foldl header_lookup_step [] entries"

definition selected_header_step ::
  "(string \<times> string) list \<Rightarrow> (string \<times> string) list \<Rightarrow> string \<Rightarrow> (string \<times> string) list" where
  "selected_header_step headerLookup result key =
     (if key \<in> set DANGEROUS_KEYS then result
      else (case map_of headerLookup key of
              Some v \<Rightarrow> AList.update key v result
            | None \<Rightarrow> result))"

definition materializeSelectedHeadersFromLookup ::
  "(string \<times> string) list \<Rightarrow> string list \<Rightarrow> (string \<times> string) list" where
  "materializeSelectedHeadersFromLookup headerLookup selectedKeys =
     (if selectedKeys = [] \<or> headerLookup = [] then []
      else foldl (selected_header_step headerLookup) [] selectedKeys)"

section \<open>The reference: all decoded pairs\<close>

definition query_pairs :: "string \<Rightarrow> (string \<times> string) list" where
  "query_pairs url =
     (case indexOf url ''?'' of
        None \<Rightarrow> []
      | Some i \<Rightarrow>
          map decode_pair (filter (\<lambda>p. p \<noteq> []) (split_on CHR ''&'' (drop (i + 1) url))))"

definition collect :: "string list \<Rightarrow> qvalue option" where
  "collect vs = (case vs of [] \<Rightarrow> None | [v] \<Rightarrow> Some (QStr v) | _ \<Rightarrow> Some (QArr vs))"

definition values_of :: "string \<Rightarrow> (string \<times> string) list \<Rightarrow> string list" where
  "values_of k ps = map snd (filter (\<lambda>p. fst p = k) ps)"

definition push_all :: "(string \<times> qvalue) list \<Rightarrow> (string \<times> string) list \<Rightarrow> (string \<times> qvalue) list" where
  "push_all r ps = foldl (\<lambda>r p. pushQueryEntry r (fst p) (snd p)) r ps"

lemma collect_snoc:
  "collect (vs @ [v]) = Some (case collect vs of None \<Rightarrow> QStr v | Some (QStr w) \<Rightarrow> QArr [w, v]
     | Some (QArr ws) \<Rightarrow> QArr (ws @ [v]))"
  by (auto simp: collect_def split: list.splits)

lemma map_of_push:
  "map_of (pushQueryEntry r key v) k
    = (if k = key then Some (case map_of r key of None \<Rightarrow> QStr v | Some (QStr w) \<Rightarrow> QArr [w, v]
         | Some (QArr ws) \<Rightarrow> QArr (ws @ [v])) else map_of r k)"
  by (auto simp: pushQueryEntry_def update_conv' split: option.splits qvalue.splits)

lemma push_all_collects:
  assumes "\<And>k. map_of r k = collect (f k)"
  shows "map_of (push_all r ps) k = collect (f k @ values_of k ps)"
  using assms
proof (induction ps arbitrary: r f)
  case Nil
  then show ?case by (simp add: push_all_def values_of_def)
next
  case (Cons p ps)
  have "map_of (pushQueryEntry r (fst p) (snd p)) k = collect ((f(fst p := f (fst p) @ [snd p])) k)" for k
    by (simp add: map_of_push Cons.prems collect_snoc)
  from Cons.IH [OF this] show ?case
    by (simp add: push_all_def values_of_def)
qed

lemma foldl_filter_step:
  assumes "\<And>r x. step r x = (if P x then g r (f x) else r)"
  shows "foldl step r xs = foldl g r (map f (filter P xs))"
  by (induction xs arbitrary: r) (simp_all add: assms)

lemma query_fold:
  "foldl query_step r segs
    = push_all r (filter (\<lambda>p. fst p \<notin> set DANGEROUS_KEYS) (map decode_pair (filter (\<lambda>p. p \<noteq> []) segs)))"
  by (induction segs arbitrary: r) (auto simp: query_step_def push_all_def Let_def split: prod.splits)

lemma selected_fold:
  "foldl (selected_step K) r segs
    = push_all r (filter (\<lambda>p. fst p \<in> set K \<and> fst p \<notin> set DANGEROUS_KEYS)
        (map decode_pair (filter (\<lambda>p. p \<noteq> []) segs)))"
  by (induction segs arbitrary: r) (auto simp: selected_step_def push_all_def Let_def split: prod.splits)

lemma indexOf_bound: "indexOf s p = Some i \<Longrightarrow> p \<noteq> [] \<Longrightarrow> i < length s"
  by (induction s arbitrary: i) (auto split: if_splits)

lemma query_pairs_last: "indexOf url ''?'' = Some i \<Longrightarrow> i = length url - 1 \<Longrightarrow> query_pairs url = []"
  using indexOf_bound [of url "''?''" i] by (simp add: query_pairs_def)

lemma parseQuery_pairs:
  "parseQuery url = push_all [] (filter (\<lambda>p. fst p \<notin> set DANGEROUS_KEYS) (query_pairs url))"
  using query_pairs_last [of url]
  by (auto simp: parseQuery_def query_fold query_pairs_def push_all_def split: option.splits)

lemma parseSelectedQuery_pairs:
  "parseSelectedQuery url K
    = push_all [] (filter (\<lambda>p. fst p \<in> set K \<and> fst p \<notin> set DANGEROUS_KEYS) (query_pairs url))"
  using query_pairs_last [of url]
  by (auto simp: parseSelectedQuery_def selected_fold query_pairs_def push_all_def split: option.splits)

lemma values_of_filter:
  "values_of k (filter (\<lambda>p. P (fst p)) ps) = (if P k then values_of k ps else [])"
  by (induction ps) (auto simp: values_of_def)

lemma push_all_Nil: "map_of (push_all [] ps) k = collect (values_of k ps)"
  using push_all_collects [of "[]" "\<lambda>_. []"] by (simp add: collect_def)

lemma parseQuery_lookup:
  "map_of (parseQuery url) k
    = (if k \<in> set DANGEROUS_KEYS then None else collect (values_of k (query_pairs url)))"
  by (simp add: parseQuery_pairs push_all_Nil values_of_filter [of k "\<lambda>k. k \<notin> set DANGEROUS_KEYS"])
    (simp add: collect_def)

lemma parseSelectedQuery_lookup:
  "map_of (parseSelectedQuery url K) k = (if k \<in> set K then map_of (parseQuery url) k else None)"
  by (simp add: parseQuery_lookup parseSelectedQuery_pairs push_all_Nil
      values_of_filter [of k "\<lambda>k. k \<in> set K \<and> k \<notin> set DANGEROUS_KEYS"])
    (simp add: collect_def)

section \<open>Selective routines\<close>

text \<open>
  The contract that lets the access plan pick a cheaper routine: the selection answers for its
  keys what the full object answers, and nothing else.
\<close>

locale selection =
  fixes full :: "(string \<times> 'v) list" and sel :: "string list \<Rightarrow> (string \<times> 'v) list"
  assumes restricts: "map_of (sel K) k = (if k \<in> set K then map_of full k else None)"
begin

lemma agrees: "k \<in> set K \<Longrightarrow> map_of (sel K) k = map_of full k"
  by (simp add: restricts)

lemma sound: "map_of (sel K) k = Some v \<Longrightarrow> map_of full k = Some v \<and> k \<in> set K"
  by (simp add: restricts split: if_splits)

lemma grows: "set K \<subseteq> set L \<Longrightarrow> map_of (sel K) k = Some v \<Longrightarrow> map_of (sel L) k = Some v"
  by (auto simp: restricts split: if_splits)

end

interpretation query_selection: selection "parseQuery url" "parseSelectedQuery url" for url
  by unfold_locales (rule parseSelectedQuery_lookup)

lemma selectedParam_lookup:
  assumes "length entries \<le> length names"
    and "\<And>k. map_of sr k = (if k \<in> set K then map_of r k else None)"
  shows "map_of (selectedParamPairs_from K sr entries names) k
    = (if k \<in> set K then map_of (materializeParamPairs_from r entries names) k else None)"
  using assms
proof (induction r entries names arbitrary: sr rule: materializeParamPairs_from.induct)
  case (3 r e es key names)
  show ?case
  proof (cases "key \<in> set DANGEROUS_KEYS")
    case True
    then show ?thesis using 3 by simp
  next
    case False
    let ?sr = "if key \<in> set K then AList.update key (text_decode e) sr else sr"
    have "map_of ?sr k = (if k \<in> set K then map_of (AList.update key (text_decode e) r) k else None)" for k
      using 3(4) by (auto simp: update_conv')
    then show ?thesis using 3(2) [of ?sr] 3(3) False by (cases "key \<in> set K") simp_all
  qed
qed auto

lemma selectedParam_take:
  "selectedParamPairs_from K sr (take (length names) entries) names
    = selectedParamPairs_from K sr entries names"
proof (induction K sr entries names rule: selectedParamPairs_from.induct)
  case (2 sel result e es)
  then show ?case by (cases es) simp_all
qed simp_all

text \<open>A value without a name is only seen by the full routine, as the property \<open>undefined\<close>.\<close>

interpretation param_selection: selection "materializeParamPairs (take (length names) entries) names"
    "materializeSelectedParamPairs entries names" for entries names
proof
  fix K k
  have "length (take (length names) entries) \<le> length names" by simp
  from selectedParam_lookup [OF this, of "[]" K "[]" k]
  show "map_of (materializeSelectedParamPairs entries names K) k
    = (if k \<in> set K then map_of (materializeParamPairs (take (length names) entries) names) k else None)"
    by (simp add: materializeSelectedParamPairs_def materializeParamPairs_def selectedParam_take)
qed

lemma header_lookup_no_dangerous:
  "(\<forall>k\<in>set DANGEROUS_KEYS. map_of r k = None)
    \<Longrightarrow> k \<in> set DANGEROUS_KEYS \<Longrightarrow> map_of (foldl header_lookup_step r es) k = None"
proof (induction es arbitrary: r)
  case Nil
  then show ?case by simp
next
  case (Cons e es)
  have "\<forall>k\<in>set DANGEROUS_KEYS. map_of (header_lookup_step r e) k = None"
    using Cons.prems(1) by (auto simp: header_lookup_step_def Let_def update_conv')
  from Cons.IH [OF this Cons.prems(2)] show ?case by simp
qed

lemma selected_header_fold:
  "map_of (foldl (selected_header_step h) r K) k
    = (if k \<in> set K \<and> k \<notin> set DANGEROUS_KEYS \<and> map_of h k \<noteq> None then map_of h k else map_of r k)"
  by (induction K arbitrary: r)
    (auto simp: selected_header_step_def update_conv' split: option.splits)

interpretation header_selection: selection "buildHeaderLookup entries"
    "materializeSelectedHeadersFromLookup (buildHeaderLookup entries)" for entries
proof
  fix K k
  have "k \<in> set DANGEROUS_KEYS \<Longrightarrow> map_of (buildHeaderLookup entries) k = None"
    by (simp add: buildHeaderLookup_def header_lookup_no_dangerous)
  then show "map_of (materializeSelectedHeadersFromLookup (buildHeaderLookup entries) K) k
    = (if k \<in> set K then map_of (buildHeaderLookup entries) k else None)"
    by (auto simp: materializeSelectedHeadersFromLookup_def selected_header_fold)
qed

lemma param_no_dangerous:
  "(\<forall>k\<in>set DANGEROUS_KEYS. map_of r k = None) \<Longrightarrow> k \<in> set DANGEROUS_KEYS
    \<Longrightarrow> map_of (materializeParamPairs_from r es names) k = None"
proof (induction r es names rule: materializeParamPairs_from.induct)
  case (2 r e es)
  have "''undefined'' \<notin> set DANGEROUS_KEYS" by (simp add: DANGEROUS_KEYS_def)
  then have "map_of (AList.update ''undefined'' (text_decode e) r) k = None"
    if "k \<in> set DANGEROUS_KEYS" for k
    using 2(2) that by (auto simp: update_conv')
  with 2 show ?case by simp
next
  case (3 r e es key names)
  show ?case
  proof (cases "key \<in> set DANGEROUS_KEYS")
    case True
    then show ?thesis using 3 by simp
  next
    case False
    then have "\<forall>k\<in>set DANGEROUS_KEYS. map_of (AList.update key (text_decode e) r) k = None"
      using 3(3) by (auto simp: update_conv')
    then show ?thesis using 3(2) [OF False] 3(4) False by simp
  qed
qed simp

section \<open>Percent encoding is undone\<close>

text \<open>The encoder of \<open>encodeURIComponent\<close> on ASCII text, for the round trip.\<close>

definition hex_digit :: "nat \<Rightarrow> char" where
  "hex_digit n = char_of (if n < 10 then 48 + n else 55 + n)"

definition uri_unreserved :: "char \<Rightarrow> bool" where
  "uri_unreserved c \<longleftrightarrow>
     (let n = (of_char c :: nat) in
      48 \<le> n \<and> n \<le> 57 \<or> 65 \<le> n \<and> n \<le> 90 \<or> 97 \<le> n \<and> n \<le> 122 \<or> c \<in> set ''-_.!~*'' \<or> n \<in> {39, 40, 41})"

definition percent :: "char \<Rightarrow> string" where
  "percent c = (if uri_unreserved c then [c]
     else [CHR ''%'', hex_digit (of_char c div 16), hex_digit (of_char c mod 16)])"

definition encodeURIComponent :: "string \<Rightarrow> string" where
  "encodeURIComponent s = concat (map percent s)"

definition is_ascii :: "string \<Rightarrow> bool" where
  "is_ascii s \<longleftrightarrow> (\<forall>c\<in>set s. (of_char c :: nat) < 128)"

lemma hex_val_digit: "n < 16 \<Longrightarrow> hex_val (hex_digit n) = Some n"
  by (auto simp: hex_val_def hex_digit_def Let_def)

lemma decode_percent:
  assumes "(of_char c :: nat) < 128"
  shows "decodeURIComponent (percent c @ s) = map_option (Cons c) (decodeURIComponent s)"
proof (cases "uri_unreserved c")
  case True
  then have "c \<noteq> CHR ''%''" by (auto simp: uri_unreserved_def)
  then show ?thesis
    using True by (simp add: percent_def decodeURIComponent.simps [of "c # s"])
next
  case False
  have append_one: "(@) [c] = (#) c" by auto
  have "(of_char c :: nat) div 16 < 16" using assms by simp
  then have "take_octet (percent c @ s) = Some (of_char c, s)"
    using False by (simp add: percent_def hex_val_digit)
  moreover have "utf8_followers (of_char c) = Some 0" and "valid_utf8 [of_char c]"
    using assms by (simp_all add: utf8_followers_def valid_utf8_def)
  ultimately show ?thesis
    using False append_one by (subst decodeURIComponent.simps) (simp add: percent_def)
qed

lemma decode_encode: "is_ascii s \<Longrightarrow> decodeURIComponent (encodeURIComponent s) = Some s"
proof (induction s)
  case Nil
  then show ?case by (simp add: encodeURIComponent_def decodeURIComponent.simps)
next
  case (Cons c s)
  then show ?case
    using decode_percent [of c "concat (map percent s)"] by (simp add: encodeURIComponent_def is_ascii_def)
qed

lemma hex_digit_range:
  "n < 16 \<Longrightarrow> (of_char (hex_digit n) :: nat) = (if n < 10 then 48 + n else 55 + n)"
  by (simp add: hex_digit_def)

lemma percent_char_cases:
  assumes "c \<in> set (percent d)"
  shows "uri_unreserved c \<or> c = CHR ''%'' \<or> 48 \<le> (of_char c :: nat) \<and> (of_char c :: nat) \<le> 70 \<and> of_char c \<notin> {61, 63 :: nat}"
proof -
  have "(of_char d :: nat) div 16 < 16" "(of_char d :: nat) mod 16 < 16"
    using of_char_lt_256 [of d] by (simp_all add: less_mult_imp_div_less)
  then show ?thesis
    using assms by (auto simp: percent_def hex_digit_range split: if_splits)
qed

lemma percent_chars:
  assumes "c \<in> set ''+&=?#''"
  shows "c \<notin> set (encodeURIComponent s)"
proof -
  have "c \<notin> set (percent d)" for d
    using assms percent_char_cases [of c d] by (auto simp: uri_unreserved_def)
  then show ?thesis by (auto simp: encodeURIComponent_def)
qed

lemma fast_decode_encode: "is_ascii s \<Longrightarrow> decodeUriComponentFast (encodeURIComponent s) = s"
proof -
  assume "is_ascii s"
  have "plus_to_space (encodeURIComponent s) = encodeURIComponent s"
    unfolding plus_to_space_def using percent_chars [of "CHR ''+''" s] by (auto intro!: map_idI)
  then show ?thesis
    using decode_encode [OF \<open>is_ascii s\<close>] by (simp add: decodeUriComponentFast_def)
qed

section \<open>Properties\<close>

text \<open>the query object maps a key to all its decoded values in the order of the URL, a single value as a
  string and several as an array, and has no entry for keys that occur nowhere or could reach a prototype.\<close>

theorem query_object_collects_values:
  "map_of (parseQuery url) k
    = (if k \<in> set DANGEROUS_KEYS then None else collect (values_of k (query_pairs url)))"
  by (rule parseQuery_lookup)

text \<open>the selective query parser answers for every selected key what the full parser answers, and has no
  other key.\<close>

theorem selected_query_is_restriction:
  "map_of (parseSelectedQuery url keys) k = (if k \<in> set keys then map_of (parseQuery url) k else None)"
  by (rule query_selection.restricts)

text \<open>no object that a handler receives has a key that names a prototype accessor, whatever the client
  sends as query string, parameter or header.\<close>

theorem no_prototype_keys:
  assumes "k \<in> set DANGEROUS_KEYS"
  shows "map_of (materializeQueryObject url flags plan) k = None
    \<and> map_of (materializeParamObject entries names plan) k = None
    \<and> map_of (buildHeaderLookup headers) k = None"
proof -
  have "map_of (materializeParamPairs entries names) k = None" for entries
    using assms by (simp add: materializeParamPairs_def param_no_dangerous)
  then show ?thesis
    using assms by (simp add: materializeQueryObject_def parseSelectedQuery_lookup parseQuery_lookup
        materializeParamObject_def param_selection.restricts buildHeaderLookup_def
        header_lookup_no_dangerous)
qed

theorem no_prototype_keys_witness:
  "map_of (materializeQueryObject ''/?__proto__=1'' 1 createEmptyAccessPlan) ''__proto__'' = None
    \<and> map_of (materializeParamObject [[49]] [''__proto__''] createEmptyAccessPlan) ''__proto__'' = None
    \<and> map_of (buildHeaderLookup [([95], [49])]) ''__proto__'' = None"
  by (rule no_prototype_keys) (simp add: DANGEROUS_KEYS_def)

text \<open>percent-encoding ASCII text with \<open>encodeURIComponent\<close> and decoding it with the decoder of the query
  parser gives the text back.\<close>

theorem percent_decoding_inverts:
  assumes "is_ascii s"
  shows "decodeUriComponentFast (encodeURIComponent s) = s"
  using assms by (rule fast_decode_encode)

theorem percent_decoding_inverts_witness:
  "decodeUriComponentFast (encodeURIComponent ''a b&c=d%+'') = ''a b&c=d%+''"
  by (rule percent_decoding_inverts) (simp add: is_ascii_def)

end
