(* ===== verification/RequestObject.thy ===== *)
theory RequestObject
  imports QueryParams Json
begin

text \<open>
  Request objects of \<open>src/src/bridge.js\<close>: the pools they come from, the factory that prepares a
  pooled or fresh object for a route, the lazy getters with their caches, \<open>req.header\<close> with its
  own name cache, and the body accessors.  Properties that middlewares add are kept in
  \<open>rq_extra\<close>.  The locale \<open>object_pool\<close> is what every pool promises.
\<close>

section \<open>State\<close>

type_synonym strings = "(string \<times> string) list"

record request =
  rq_method :: string
  rq_path :: "string option"
  rq_url :: "string option"
  rq_ip :: "string option"
  rq_params :: "strings option"
  rq_query :: "(string \<times> qvalue) list option"
  rq_headers :: "strings option"
  rq_headerLookup :: "strings option"
  rq_bodyParsed :: "json option"
  rq_decoded :: "request_envelope option"
  rq_routeParamNames :: "string list"
  rq_plan :: access_plan
  rq_routeMethod :: "string option"
  rq_validatedBody :: "json option"
  rq_validatedQuery :: "json option"
  rq_validatedParams :: "json option"
  rq_extra :: "(string \<times> json) list"

section \<open>Pools\<close>

definition REQUEST_POOL_MAX :: nat where "REQUEST_POOL_MAX = 512"
definition HEADER_POOL_MAX :: nat where "HEADER_POOL_MAX = 256"
definition PARAMS_POOL_MAX :: nat where "PARAMS_POOL_MAX = 128"

text \<open>\<open>pool.pop()\<close> takes the last element, \<open>undefined\<close> when there is none.\<close>

definition pop :: "'a list \<Rightarrow> 'a option \<times> 'a list" where
  "pop xs = (if xs = [] then (None, []) else (Some (last xs), butlast xs))"

definition acquireHeaderObject :: "strings list \<Rightarrow> strings \<times> strings list" where
  "acquireHeaderObject headerPool =
     (case pop headerPool of (Some x, p) \<Rightarrow> (x, p) | (None, p) \<Rightarrow> ([], p))"

definition delete_keys :: "strings \<Rightarrow> strings" where
  "delete_keys obj = foldl (\<lambda>o' k. AList.delete k o') obj (map fst obj)"

definition releaseHeaderObject :: "strings \<Rightarrow> strings list \<Rightarrow> strings list" where
  "releaseHeaderObject obj headerPool =
     (if length headerPool \<ge> HEADER_POOL_MAX then headerPool else headerPool @ [delete_keys obj])"

definition acquireParamsObject :: "strings list \<Rightarrow> strings \<times> strings list" where
  "acquireParamsObject paramsPool =
     (case pop paramsPool of (Some x, p) \<Rightarrow> (x, p) | (None, p) \<Rightarrow> ([], p))"

definition releaseParamsObject :: "strings \<Rightarrow> strings list \<Rightarrow> strings list" where
  "releaseParamsObject obj paramsPool =
     (if length paramsPool \<ge> PARAMS_POOL_MAX then paramsPool else paramsPool @ [delete_keys obj])"

definition acquireRequestObject :: "request list \<Rightarrow> request option \<times> request list" where
  "acquireRequestObject requestPool = pop requestPool"

definition reset_request :: "request \<Rightarrow> request" where
  "reset_request req =
     req\<lparr>rq_method := [], rq_path := None, rq_url := None, rq_ip := None, rq_params := None,
       rq_query := None, rq_headers := None, rq_headerLookup := None, rq_decoded := None,
       rq_routeParamNames := [], rq_plan := createEmptyAccessPlan, rq_routeMethod := None,
       rq_validatedBody := None, rq_validatedQuery := None, rq_validatedParams := None\<rparr>"

definition releaseRequestObject :: "request \<Rightarrow> request list \<Rightarrow> request list" where
  "releaseRequestObject req requestPool =
     (if length requestPool \<ge> REQUEST_POOL_MAX then requestPool
      else requestPool @ [reset_request req])"

definition createPooledRequest :: request where
  "createPooledRequest =
     \<lparr>rq_method = [], rq_path = None, rq_url = None, rq_ip = None, rq_params = None,
      rq_query = None, rq_headers = None, rq_headerLookup = None, rq_bodyParsed = None,
      rq_decoded = None, rq_routeParamNames = [], rq_plan = createEmptyAccessPlan,
      rq_routeMethod = None, rq_validatedBody = None, rq_validatedQuery = None,
      rq_validatedParams = None, rq_extra = []\<rparr>"

definition methodNameFromCode :: "nat \<Rightarrow> string" where
  "methodNameFromCode methodCode =
     (if methodCode = 1 then ''GET'' else if methodCode = 2 then ''POST''
      else if methodCode = 3 then ''PUT'' else if methodCode = 4 then ''DELETE''
      else if methodCode = 5 then ''PATCH'' else if methodCode = 6 then ''OPTIONS''
      else if methodCode = 7 then ''HEAD'' else [])"

definition buildRequest ::
  "access_plan \<Rightarrow> string list \<Rightarrow> string option \<Rightarrow> request_envelope \<Rightarrow> request list
    \<Rightarrow> request \<times> request list" where
  "buildRequest plan routeParamNames routeMethod decoded requestPool =
     (let (r, pool) = acquireRequestObject requestPool;
          request = (case r of Some x \<Rightarrow> x | None \<Rightarrow> createPooledRequest) in
      (request\<lparr>rq_decoded := Some decoded, rq_routeParamNames := routeParamNames,
         rq_plan := plan, rq_routeMethod := routeMethod,
         rq_method := (case routeMethod of Some m \<Rightarrow> m
                       | None \<Rightarrow> methodNameFromCode (env_methodCode decoded)),
         rq_path := None, rq_url := None, rq_ip := None, rq_params := None, rq_query := None,
         rq_headers := None, rq_headerLookup := None, rq_bodyParsed := None\<rparr>, pool))"

section \<open>Lazy getters\<close>

text \<open>
  A getter reads \<open>_decoded\<close>; on an object that is not in use this is a \<open>TypeError\<close>, the left side.
\<close>

datatype req_error = TypeErr | SyntaxErr string

definition decoded_of :: "request \<Rightarrow> req_error + request_envelope" where
  "decoded_of req = (case rq_decoded req of Some d \<Rightarrow> Inr d | None \<Rightarrow> Inl TypeErr)"

definition get_path :: "request \<Rightarrow> req_error + (string \<times> request)" where
  "get_path req =
     (case rq_path req of
        Some p \<Rightarrow> Inr (p, req)
      | None \<Rightarrow> ebind (decoded_of req) (\<lambda>d.
          let p = text_decode (env_pathBytes d) in Inr (p, req\<lparr>rq_path := Some p\<rparr>)))"

definition get_url :: "request \<Rightarrow> req_error + (string \<times> request)" where
  "get_url req =
     (case rq_url req of
        Some u \<Rightarrow> Inr (u, req)
      | None \<Rightarrow> ebind (decoded_of req) (\<lambda>d.
          let u = text_decode (env_urlBytes d) in Inr (u, req\<lparr>rq_url := Some u\<rparr>)))"

definition get_ip :: "request \<Rightarrow> req_error + (string \<times> request)" where
  "get_ip req =
     (case rq_ip req of
        Some i \<Rightarrow> Inr (i, req)
      | None \<Rightarrow> ebind (decoded_of req) (\<lambda>d.
          let i = text_decode (env_ipBytes d) in Inr (i, req\<lparr>rq_ip := Some i\<rparr>)))"

definition get_params :: "request \<Rightarrow> req_error + (strings \<times> request)" where
  "get_params req =
     (case rq_params req of
        Some p \<Rightarrow> Inr (p, req)
      | None \<Rightarrow>
          if pl_fullParams (rq_plan req) \<or> pl_paramKeys (rq_plan req) \<noteq> []
          then ebind (decoded_of req) (\<lambda>d.
            let p = materializeParamObject (env_paramValues d) (rq_routeParamNames req) (rq_plan req)
            in Inr (p, req\<lparr>rq_params := Some p\<rparr>))
          else Inr ([], req\<lparr>rq_params := Some []\<rparr>))"

definition get_query :: "request \<Rightarrow> req_error + ((string \<times> qvalue) list \<times> request)" where
  "get_query req =
     (case rq_query req of
        Some q \<Rightarrow> Inr (q, req)
      | None \<Rightarrow>
          if pl_fullQuery (rq_plan req) \<or> pl_queryKeys (rq_plan req) \<noteq> []
          then ebind (get_url req) (\<lambda>(u, req1).
            ebind (decoded_of req1) (\<lambda>d.
            let q = materializeQueryObject u (env_flags d) (rq_plan req1)
            in Inr (q, req1\<lparr>rq_query := Some q\<rparr>)))
          else Inr ([], req\<lparr>rq_query := Some []\<rparr>))"

definition ensureHeaderLookup :: "request \<Rightarrow> req_error + (strings \<times> request)" where
  "ensureHeaderLookup req =
     (case rq_headerLookup req of
        Some h \<Rightarrow> Inr (h, req)
      | None \<Rightarrow> ebind (decoded_of req) (\<lambda>d.
          let h = buildHeaderLookup (env_rawHeaders d) in Inr (h, req\<lparr>rq_headerLookup := Some h\<rparr>)))"

definition get_headers :: "request \<Rightarrow> req_error + (strings \<times> request)" where
  "get_headers req =
     (case rq_headers req of
        Some h \<Rightarrow> Inr (h, req)
      | None \<Rightarrow>
          if \<not> (pl_fullHeaders (rq_plan req) \<or> pl_headerKeys (rq_plan req) \<noteq> [])
          then Inr ([], req\<lparr>rq_headers := Some []\<rparr>)
          else ebind (ensureHeaderLookup req) (\<lambda>(lookup, req1).
            let h = (if pl_fullHeaders (rq_plan req) then lookup
                     else materializeSelectedHeadersFromLookup lookup (pl_headerKeys (rq_plan req)))
            in Inr (h, req1\<lparr>rq_headers := Some h\<rparr>)))"

text \<open>\<open>normalizeHeaderLookupCached\<close>: a \<open>Map\<close> of at most 128 lower-cased names.\<close>

definition HEADER_LOOKUP_CACHE_MAX :: nat where "HEADER_LOOKUP_CACHE_MAX = 128"

definition normalizeHeaderLookupCached :: "strings \<Rightarrow> string \<Rightarrow> string \<times> strings" where
  "normalizeHeaderLookupCached cache v =
     (case map_of cache v of
        Some cached \<Rightarrow> (cached, cache)
      | None \<Rightarrow>
          let normalized = toLowerCase v in
          (normalized,
           if length cache < HEADER_LOOKUP_CACHE_MAX then AList.update v normalized cache else cache))"

definition req_header ::
  "strings \<Rightarrow> request \<Rightarrow> string \<Rightarrow> req_error + (string option \<times> request \<times> strings)" where
  "req_header cache req name =
     (let (lookup, cache') = normalizeHeaderLookupCached cache name in
      case (case rq_headers req of Some h \<Rightarrow> map_of h lookup | None \<Rightarrow> None) of
        Some v \<Rightarrow> Inr (Some v, req, cache')
      | None \<Rightarrow> ebind (ensureHeaderLookup req) (\<lambda>(h, req1). Inr (map_of h lookup, req1, cache')))"

section \<open>Body\<close>

definition get_body :: "request \<Rightarrow> req_error + byte list option" where
  "get_body req = ebind (decoded_of req) (\<lambda>d. Inr (env_bodyBytes d))"

definition req_text :: "request \<Rightarrow> req_error + string" where
  "req_text req = ebind (decoded_of req) (\<lambda>d.
     Inr (case env_bodyBytes d of
            None \<Rightarrow> []
          | Some b \<Rightarrow> if b = [] then [] else text_decode b))"

definition req_arrayBuffer :: "request \<Rightarrow> req_error + byte list" where
  "req_arrayBuffer req = ebind (decoded_of req) (\<lambda>d.
     Inr (case env_bodyBytes d of None \<Rightarrow> [] | Some b \<Rightarrow> b))"

text \<open>\<open>JSON.parse\<close> is the parameter: a value, or the message of its \<open>SyntaxError\<close>.\<close>

definition req_json :: "(string \<Rightarrow> string + json) \<Rightarrow> request \<Rightarrow> req_error + (json \<times> request)" where
  "req_json jsonParse req =
     (case rq_bodyParsed req of
        Some j \<Rightarrow> Inr (j, req)
      | None \<Rightarrow> ebind (decoded_of req) (\<lambda>d.
          (case env_bodyBytes d of
             None \<Rightarrow> Inr (JNull, req\<lparr>rq_bodyParsed := Some JNull\<rparr>)
           | Some b \<Rightarrow>
               if b = [] then Inr (JNull, req\<lparr>rq_bodyParsed := Some JNull\<rparr>)
               else
                 (case jsonParse (text_decode b) of
                    Inl msg \<Rightarrow> Inl (SyntaxErr (''Invalid JSON in request body: '' @ msg))
                  | Inr j \<Rightarrow> Inr (j, req\<lparr>rq_bodyParsed := Some j\<rparr>)))))"

section \<open>What a pool promises\<close>

datatype 'o pool_op = Acquire | Release 'o

fun pool_run :: "('o list \<Rightarrow> 'o option \<times> 'o list) \<Rightarrow> ('o \<Rightarrow> 'o list \<Rightarrow> 'o list)
    \<Rightarrow> 'o pool_op list \<Rightarrow> 'o list \<Rightarrow> 'o list" where
  "pool_run acq rel [] p = p"
| "pool_run acq rel (Acquire # ops) p = pool_run acq rel ops (snd (acq p))"
| "pool_run acq rel (Release x # ops) p = pool_run acq rel ops (rel x p)"

locale object_pool =
  fixes acq :: "'o list \<Rightarrow> 'o option \<times> 'o list"
    and rel :: "'o \<Rightarrow> 'o list \<Rightarrow> 'o list"
    and limit :: nat
    and clean :: "'o \<Rightarrow> bool"
  assumes acq_law: "acq p = (r, p') \<Longrightarrow> (\<forall>x. r = Some x \<longrightarrow> x \<in> set p \<or> clean x)
      \<and> set p' \<subseteq> set p \<and> length p' \<le> length p"
    and rel_clean: "y \<in> set (rel x p) \<Longrightarrow> y \<in> set p \<or> clean y"
    and rel_bound: "length p \<le> limit \<Longrightarrow> length (rel x p) \<le> limit"
begin

definition pool_ok :: "'o list \<Rightarrow> bool" where
  "pool_ok p \<longleftrightarrow> length p \<le> limit \<and> (\<forall>x\<in>set p. clean x)"

lemma run_ok: "pool_ok p \<Longrightarrow> pool_ok (pool_run acq rel ops p)"
proof (induction ops arbitrary: p)
  case Nil
  then show ?case by simp
next
  case (Cons a ops)
  show ?case
  proof (cases a)
    case Acquire
    have "pool_ok (snd (acq p))"
      using acq_law [of p "fst (acq p)" "snd (acq p)"] Cons.prems by (auto simp: pool_ok_def)
    then show ?thesis using Cons.IH Acquire by simp
  next
    case (Release x)
    have "pool_ok (rel x p)"
      using rel_clean [of _ x p] rel_bound [of p x] Cons.prems by (auto simp: pool_ok_def)
    then show ?thesis using Cons.IH Release by simp
  qed
qed

lemma acquired_clean: "pool_ok p \<Longrightarrow> acq p = (Some x, p') \<Longrightarrow> clean x"
  using acq_law by (fastforce simp: pool_ok_def)

end

lemma pop_law:
  "pop p = (r, p') \<Longrightarrow> (\<forall>x. r = Some x \<longrightarrow> x \<in> set p) \<and> set p' \<subseteq> set p \<and> length p' \<le> length p"
  by (auto simp: pop_def dest: in_set_butlastD split: if_splits)

lemma delete_keys_Nil: "delete_keys obj = []"
proof -
  have "set (map fst (foldl (\<lambda>o' k. AList.delete k o') ob ks)) = set (map fst ob) - set ks"
    for ob :: strings and ks
    by (induction ks arbitrary: ob) (auto simp: AList.delete_keys simp del: set_map)
  from this [of obj "map fst obj"] show ?thesis by (simp add: delete_keys_def)
qed

text \<open>The properties a released request object has been cleared of.\<close>

definition cleared :: "request \<Rightarrow> bool" where
  "cleared r \<longleftrightarrow> rq_params r = None \<and> rq_query r = None \<and> rq_headers r = None
     \<and> rq_headerLookup r = None \<and> rq_path r = None \<and> rq_url r = None \<and> rq_ip r = None
     \<and> rq_decoded r = None \<and> rq_validatedBody r = None \<and> rq_validatedQuery r = None
     \<and> rq_validatedParams r = None"

lemma cleared_reset [simp]: "cleared (reset_request r)"
  by (simp add: cleared_def reset_request_def)

interpretation request_pool: object_pool acquireRequestObject releaseRequestObject REQUEST_POOL_MAX cleared
  by unfold_locales
    (use pop_law in \<open>auto simp: acquireRequestObject_def releaseRequestObject_def split: if_splits\<close>)

interpretation header_pool: object_pool
    "\<lambda>p. (Some (fst (acquireHeaderObject p)), snd (acquireHeaderObject p))"
    releaseHeaderObject HEADER_POOL_MAX "\<lambda>x. x = []"
  by unfold_locales
    (use pop_law in \<open>auto simp: acquireHeaderObject_def releaseHeaderObject_def delete_keys_Nil
      split: if_splits prod.splits option.splits\<close>)

interpretation params_pool: object_pool
    "\<lambda>p. (Some (fst (acquireParamsObject p)), snd (acquireParamsObject p))"
    releaseParamsObject PARAMS_POOL_MAX "\<lambda>x. x = []"
  by unfold_locales
    (use pop_law in \<open>auto simp: acquireParamsObject_def releaseParamsObject_def delete_keys_Nil
      split: if_splits prod.splits option.splits\<close>)

section \<open>The caches are invisible\<close>

text \<open>The values the getters stand for: functions of the envelope, the plan and the names.\<close>

definition view_params :: "request_envelope \<Rightarrow> request \<Rightarrow> strings" where
  "view_params d req =
     (if pl_fullParams (rq_plan req) \<or> pl_paramKeys (rq_plan req) \<noteq> []
      then materializeParamObject (env_paramValues d) (rq_routeParamNames req) (rq_plan req) else [])"

definition view_query :: "request_envelope \<Rightarrow> request \<Rightarrow> (string \<times> qvalue) list" where
  "view_query d req =
     (if pl_fullQuery (rq_plan req) \<or> pl_queryKeys (rq_plan req) \<noteq> []
      then materializeQueryObject (text_decode (env_urlBytes d)) (env_flags d) (rq_plan req) else [])"

definition view_headers :: "request_envelope \<Rightarrow> request \<Rightarrow> strings" where
  "view_headers d req =
     (let lookup = buildHeaderLookup (env_rawHeaders d) in
      if pl_fullHeaders (rq_plan req) then lookup
      else if pl_headerKeys (rq_plan req) \<noteq> []
      then materializeSelectedHeadersFromLookup lookup (pl_headerKeys (rq_plan req))
      else [])"

definition cached :: "'a option \<Rightarrow> 'a \<Rightarrow> bool" where
  "cached c v \<longleftrightarrow> c = None \<or> c = Some v"

definition coherent :: "request_envelope \<Rightarrow> request \<Rightarrow> bool" where
  "coherent d req \<longleftrightarrow> rq_decoded req = Some d
     \<and> cached (rq_path req) (text_decode (env_pathBytes d))
     \<and> cached (rq_url req) (text_decode (env_urlBytes d))
     \<and> cached (rq_ip req) (text_decode (env_ipBytes d))
     \<and> cached (rq_params req) (view_params d req)
     \<and> cached (rq_query req) (view_query d req)
     \<and> cached (rq_headers req) (view_headers d req)
     \<and> cached (rq_headerLookup req) (buildHeaderLookup (env_rawHeaders d))"

definition same_source :: "request \<Rightarrow> request \<Rightarrow> bool" where
  "same_source a b \<longleftrightarrow> rq_decoded a = rq_decoded b \<and> rq_plan a = rq_plan b
     \<and> rq_routeParamNames a = rq_routeParamNames b \<and> rq_method a = rq_method b
     \<and> rq_extra a = rq_extra b"

lemmas view_defs = view_params_def view_query_def view_headers_def

lemma cached_simps [simp]: "cached None v" "cached (Some w) v \<longleftrightarrow> w = v"
  by (auto simp: cached_def)

text \<open>
  The contract of a lazy getter: on a coherent request it returns the value it stands for and
  leaves a coherent request with the same source.
\<close>

locale lazy_getter =
  fixes get :: "request \<Rightarrow> req_error + ('v \<times> request)"
    and view :: "request_envelope \<Rightarrow> request \<Rightarrow> 'v"
  assumes get_ok: "coherent d req \<Longrightarrow>
      \<exists>req'. get req = Inr (view d req, req') \<and> coherent d req' \<and> same_source req req'"
    and view_source: "same_source a b \<Longrightarrow> view d a = view d b"
begin

lemma get_again:
  assumes "coherent d req" "get req = Inr (v, req')"
  shows "\<exists>req''. get req' = Inr (v, req'')"
  using get_ok [OF assms(1)] get_ok [of d req'] view_source assms by fastforce

lemma get_value: "coherent d req \<Longrightarrow> get req = Inr (v, req') \<Longrightarrow> v = view d req"
  using get_ok by fastforce

end

lemma same_source_views:
  assumes "same_source a b"
  shows "view_params d a = view_params d b" "view_query d a = view_query d b"
    "view_headers d a = view_headers d b"
  using assms by (simp_all add: view_defs same_source_def Let_def)

lemma view_update [simp]:
  "view_params d (req\<lparr>rq_path := x0\<rparr>) = view_params d req"
  "view_params d (req\<lparr>rq_url := x1\<rparr>) = view_params d req"
  "view_params d (req\<lparr>rq_ip := x2\<rparr>) = view_params d req"
  "view_params d (req\<lparr>rq_params := x3\<rparr>) = view_params d req"
  "view_params d (req\<lparr>rq_query := x4\<rparr>) = view_params d req"
  "view_params d (req\<lparr>rq_headers := x5\<rparr>) = view_params d req"
  "view_params d (req\<lparr>rq_headerLookup := x6\<rparr>) = view_params d req"
  "view_query d (req\<lparr>rq_path := x0\<rparr>) = view_query d req"
  "view_query d (req\<lparr>rq_url := x1\<rparr>) = view_query d req"
  "view_query d (req\<lparr>rq_ip := x2\<rparr>) = view_query d req"
  "view_query d (req\<lparr>rq_params := x3\<rparr>) = view_query d req"
  "view_query d (req\<lparr>rq_query := x4\<rparr>) = view_query d req"
  "view_query d (req\<lparr>rq_headers := x5\<rparr>) = view_query d req"
  "view_query d (req\<lparr>rq_headerLookup := x6\<rparr>) = view_query d req"
  "view_headers d (req\<lparr>rq_path := x0\<rparr>) = view_headers d req"
  "view_headers d (req\<lparr>rq_url := x1\<rparr>) = view_headers d req"
  "view_headers d (req\<lparr>rq_ip := x2\<rparr>) = view_headers d req"
  "view_headers d (req\<lparr>rq_params := x3\<rparr>) = view_headers d req"
  "view_headers d (req\<lparr>rq_query := x4\<rparr>) = view_headers d req"
  "view_headers d (req\<lparr>rq_headers := x5\<rparr>) = view_headers d req"
  "view_headers d (req\<lparr>rq_headerLookup := x6\<rparr>) = view_headers d req"
  by (simp_all add: view_defs Let_def)

interpretation path_getter: lazy_getter get_path "\<lambda>d req. text_decode (env_pathBytes d)"
  by unfold_locales
    (auto simp: get_path_def coherent_def same_source_def decoded_of_def Let_def split: option.split)

interpretation url_getter: lazy_getter get_url "\<lambda>d req. text_decode (env_urlBytes d)"
  by unfold_locales
    (auto simp: get_url_def coherent_def same_source_def decoded_of_def Let_def split: option.split)

interpretation ip_getter: lazy_getter get_ip "\<lambda>d req. text_decode (env_ipBytes d)"
  by unfold_locales
    (auto simp: get_ip_def coherent_def same_source_def decoded_of_def Let_def split: option.split)

lemma coherent_store:
  "coherent d req \<Longrightarrow> coherent d (req\<lparr>rq_params := Some (view_params d req)\<rparr>)"
  "coherent d req \<Longrightarrow> coherent d (req\<lparr>rq_query := Some (view_query d req)\<rparr>)"
  "coherent d req \<Longrightarrow> coherent d (req\<lparr>rq_headers := Some (view_headers d req)\<rparr>)"
  by (simp_all add: coherent_def)

interpretation params_getter: lazy_getter get_params view_params
proof
  fix d req
  assume c: "coherent d req"
  then have "rq_params req = None \<Longrightarrow>
      get_params req = Inr (view_params d req, req\<lparr>rq_params := Some (view_params d req)\<rparr>)"
    by (simp add: get_params_def view_params_def decoded_of_def coherent_def Let_def)
  then show "\<exists>req'. get_params req = Inr (view_params d req, req') \<and> coherent d req' \<and> same_source req req'"
    using c coherent_store(1) [OF c]
    by (cases "rq_params req") (simp_all add: get_params_def same_source_def coherent_def)
qed (rule same_source_views)

interpretation lookup_getter: lazy_getter ensureHeaderLookup "\<lambda>d req. buildHeaderLookup (env_rawHeaders d)"
  by unfold_locales
    (auto simp: ensureHeaderLookup_def coherent_def same_source_def decoded_of_def Let_def
      split: option.split)

interpretation query_getter: lazy_getter get_query view_query
proof
  fix d req
  assume c: "coherent d req"
  obtain r1 where r1: "get_url req = Inr (text_decode (env_urlBytes d), r1)" "coherent d r1" "same_source req r1"
    using url_getter.get_ok [OF c] by blast
  have v: "view_query d r1 = view_query d req" using same_source_views(2) [OF r1(3)] by simp
  have p: "rq_plan r1 = rq_plan req" and dd: "rq_decoded r1 = Some d"
    using r1 by (simp_all add: same_source_def coherent_def)
  show "\<exists>req'. get_query req = Inr (view_query d req, req') \<and> coherent d req' \<and> same_source req req'"
  proof (cases "rq_query req")
    case (Some q)
    then show ?thesis using c by (simp add: get_query_def coherent_def same_source_def)
  next
    case None
    show ?thesis
    proof (cases "pl_fullQuery (rq_plan req) \<or> pl_queryKeys (rq_plan req) \<noteq> []")
      case True
      then have "get_query req = Inr (view_query d req, r1\<lparr>rq_query := Some (view_query d req)\<rparr>)"
        using r1 p dd None by (simp add: get_query_def decoded_of_def view_query_def Let_def)
      then show ?thesis
        using coherent_store(2) [OF r1(2)] r1(3) v by (simp add: same_source_def)
    next
      case False
      then show ?thesis
        using None coherent_store(2) [OF c] by (simp add: get_query_def view_query_def same_source_def)
    qed
  qed
qed (rule same_source_views)

interpretation headers_getter: lazy_getter get_headers view_headers
proof
  fix d req
  assume c: "coherent d req"
  obtain r1 where r1: "ensureHeaderLookup req = Inr (buildHeaderLookup (env_rawHeaders d), r1)"
      "coherent d r1" "same_source req r1"
    using lookup_getter.get_ok [OF c] by blast
  have v: "view_headers d r1 = view_headers d req" using same_source_views(3) [OF r1(3)] by simp
  show "\<exists>req'. get_headers req = Inr (view_headers d req, req') \<and> coherent d req' \<and> same_source req req'"
  proof (cases "rq_headers req")
    case (Some h)
    then show ?thesis using c by (simp add: get_headers_def coherent_def same_source_def)
  next
    case None
    show ?thesis
    proof (cases "pl_fullHeaders (rq_plan req) \<or> pl_headerKeys (rq_plan req) \<noteq> []")
      case True
      then have "get_headers req = Inr (view_headers d req, r1\<lparr>rq_headers := Some (view_headers d req)\<rparr>)"
        using r1 None by (auto simp: get_headers_def view_headers_def Let_def)
      then show ?thesis
        using coherent_store(3) [OF r1(2)] r1(3) v by (simp add: same_source_def)
    next
      case False
      then show ?thesis
        using None coherent_store(3) [OF c] by (simp add: get_headers_def view_headers_def same_source_def)
    qed
  qed
qed (rule same_source_views)

section \<open>\<open>req.header\<close>\<close>

definition wf_lookup_cache :: "strings \<Rightarrow> bool" where
  "wf_lookup_cache cache \<longleftrightarrow> (\<forall>k v. map_of cache k = Some v \<longrightarrow> v = toLowerCase k)
     \<and> length cache \<le> HEADER_LOOKUP_CACHE_MAX"

lemma normalizeHeaderLookupCached_ok:
  assumes "wf_lookup_cache cache"
  shows "\<exists>c. normalizeHeaderLookupCached cache v = (toLowerCase v, c) \<and> wf_lookup_cache c"
proof -
  have len: "length (AList.update n b c) = Suc (length c)" if "map_of c n = None" for n b and c :: strings
    using that by (induction c) (auto split: if_splits)
  show ?thesis
    using assms len
    by (auto simp: normalizeHeaderLookupCached_def wf_lookup_cache_def Let_def update_conv' split: option.splits)
qed

lemma view_headers_sound: "map_of (view_headers d req) k = Some v
    \<Longrightarrow> map_of (buildHeaderLookup (env_rawHeaders d)) k = Some v"
  by (auto simp: view_headers_def Let_def dest: header_selection.sound split: if_splits)

lemma req_header_ok:
  assumes c: "coherent d req" and "wf_lookup_cache cache"
  shows "\<exists>req' cache'. req_header cache req name
      = Inr (map_of (buildHeaderLookup (env_rawHeaders d)) (toLowerCase name), req', cache')
    \<and> coherent d req' \<and> same_source req req' \<and> wf_lookup_cache cache'"
proof -
  obtain c' where n: "normalizeHeaderLookupCached cache name = (toLowerCase name, c')" "wf_lookup_cache c'"
    using normalizeHeaderLookupCached_ok assms(2) by blast
  obtain r1 where r1: "ensureHeaderLookup req = Inr (buildHeaderLookup (env_rawHeaders d), r1)"
      "coherent d r1" "same_source req r1"
    using lookup_getter.get_ok [OF c] by blast
  have "rq_headers req = Some h \<Longrightarrow> h = view_headers d req" for h
    using c by (simp add: coherent_def)
  then show ?thesis
    using n r1 c view_headers_sound [of d req]
    by (cases "rq_headers req"; cases "map_of (the (rq_headers req)) (toLowerCase name)")
      (auto simp: req_header_def same_source_def)
qed

lemma build_coherent: "coherent d (fst (buildRequest plan names m d pool))"
  by (simp add: buildRequest_def coherent_def Let_def split: prod.split)

section \<open>Properties\<close>

text \<open>
  A demand read through the lazy getters, and the same demand read from the envelope with every
  part materialised.
\<close>

definition full_view :: "request_envelope \<Rightarrow> string list \<Rightarrow> section_kind \<Rightarrow> string \<Rightarrow> qvalue option" where
  "full_view d names s k =
     (case s of
        ParamsSec \<Rightarrow> map_option QStr (map_of (materializeParamPairs (env_paramValues d) names) k)
      | QuerySec \<Rightarrow> (if flag_set (env_flags d) REQUEST_FLAG_QUERY_PRESENT
          then map_of (parseQuery (text_decode (env_urlBytes d))) k else None)
      | HeadersSec \<Rightarrow> map_option QStr (map_of (buildHeaderLookup (env_rawHeaders d)) k))"

definition lazy_view :: "request \<Rightarrow> section_kind \<Rightarrow> string \<Rightarrow> qvalue option option" where
  "lazy_view req s k =
     (case s of
        ParamsSec \<Rightarrow> (case get_params req of Inr (p, r) \<Rightarrow> Some (map_option QStr (map_of p k)) | Inl e \<Rightarrow> None)
      | QuerySec \<Rightarrow> (case get_query req of Inr (q, r) \<Rightarrow> Some (map_of q k) | Inl e \<Rightarrow> None)
      | HeadersSec \<Rightarrow> (case get_headers req of Inr (h, r) \<Rightarrow> Some (map_option QStr (map_of h k)) | Inl e \<Rightarrow> None))"

text \<open>Header plans hold lower-case names, so the key is given in lower case.\<close>

lemma covered_params:
  assumes "covers (rq_plan req) (DKey ParamsSec k)" "length (env_paramValues d) \<le> length (rq_routeParamNames req)"
  shows "map_of (view_params d req) k = map_of (materializeParamPairs (env_paramValues d) (rq_routeParamNames req)) k"
  using assms param_selection.agrees [of k "pl_paramKeys (rq_plan req)" "env_paramValues d" "rq_routeParamNames req"]
  by (auto simp: covers_def view_params_def materializeParamObject_def)

lemma covered_query:
  assumes "covers (rq_plan req) (DKey QuerySec k)"
  shows "map_of (view_query d req) k = (if flag_set (env_flags d) REQUEST_FLAG_QUERY_PRESENT
    then map_of (parseQuery (text_decode (env_urlBytes d))) k else None)"
  using assms query_selection.agrees [of k "pl_queryKeys (rq_plan req)" "text_decode (env_urlBytes d)"]
  by (auto simp: covers_def view_query_def materializeQueryObject_def)

lemma covered_headers:
  assumes "covers (rq_plan req) (DKey HeadersSec k)" "toLowerCase k = k"
  shows "map_of (view_headers d req) k = map_of (buildHeaderLookup (env_rawHeaders d)) k"
  using assms header_selection.agrees [of k "pl_headerKeys (rq_plan req)" "env_rawHeaders d"]
  by (auto simp: covers_def view_headers_def normalizeHeaderLookup_def Let_def)

text \<open>C6: the optimisation is invisible: for every key that the plan covers, the lazily and selectively
  materialised request gives the same value as a request with everything materialised.\<close>

theorem covered_reads_see_full_request:
  assumes "coherent d req" "covers (rq_plan req) (DKey s k)" "s = HeadersSec \<longrightarrow> toLowerCase k = k"
    and "length (env_paramValues d) \<le> length (rq_routeParamNames req)"
  shows "lazy_view req s k = Some (full_view d (rq_routeParamNames req) s k)"
proof (cases s)
  case ParamsSec
  then show ?thesis
    using params_getter.get_ok [OF assms(1)] covered_params [of req k d] assms(2,4)
    by (auto simp: lazy_view_def full_view_def)
next
  case QuerySec
  then show ?thesis
    using query_getter.get_ok [OF assms(1)] covered_query [of req k d] assms(2)
    by (auto simp: lazy_view_def full_view_def)
next
  case HeadersSec
  then show ?thesis
    using headers_getter.get_ok [OF assms(1)] covered_headers [of req k d] assms(2,3)
    by (auto simp: lazy_view_def full_view_def)
qed

theorem covered_reads_see_full_request_witness:
  "lazy_view (fst (buildRequest (createEmptyAccessPlan\<lparr>pl_paramKeys := [''id'']\<rparr>) [''id''] (Some ''GET'')
      sample_envelope [])) ParamsSec ''id''
    = Some (full_view sample_envelope [''id''] ParamsSec ''id'')"
  using covered_reads_see_full_request [OF build_coherent, of "createEmptyAccessPlan\<lparr>pl_paramKeys := [''id'']\<rparr>"
      "[''id'']" "Some ''GET''" sample_envelope "[]" ParamsSec "''id''"]
  by (simp add: buildRequest_def acquireRequestObject_def pop_def covers_def sample_envelope_def)

text \<open>\<open>req.header(name)\<close> answers for every name, in any case and at any point of the life of the request, what the
  headers of the envelope say, whatever the plan selected and whatever has been cached.\<close>

theorem header_call_is_lookup:
  assumes "coherent d req" "wf_lookup_cache cache"
  shows "\<exists>req' cache'. req_header cache req name
      = Inr (map_of (buildHeaderLookup (env_rawHeaders d)) (toLowerCase name), req', cache')
    \<and> coherent d req' \<and> wf_lookup_cache cache'"
  using req_header_ok [OF assms] by blast

theorem header_call_is_lookup_witness:
  "\<exists>req' cache'. req_header [] (fst (buildRequest createEmptyAccessPlan [] None sample_envelope [])) ''A''
      = Inr (map_of (buildHeaderLookup (env_rawHeaders sample_envelope)) (toLowerCase ''A''), req', cache')
    \<and> coherent sample_envelope req' \<and> wf_lookup_cache cache'"
  by (rule header_call_is_lookup) (simp_all add: build_coherent wf_lookup_cache_def)

text \<open>after any sequence of acquisitions and releases the request pool holds at most 512 objects, none of
  which keeps an envelope, a parsed part or a validated value of the request it served.\<close>

theorem request_pool_is_clean:
  "length (pool_run acquireRequestObject releaseRequestObject ops []) \<le> REQUEST_POOL_MAX
    \<and> list_all cleared (pool_run acquireRequestObject releaseRequestObject ops [])"
  using request_pool.run_ok [of "[]" ops] by (simp add: request_pool.pool_ok_def list_all_iff)

text \<open>properties that middlewares added to a request object survive its way through the pool: the next
  request that is built from the object carries them.\<close>

theorem pooled_request_keeps_extras:
  assumes "length pool < REQUEST_POOL_MAX"
  shows "rq_extra (fst (buildRequest plan names m d (releaseRequestObject req pool))) = rq_extra req"
  using assms by (simp add: buildRequest_def releaseRequestObject_def acquireRequestObject_def pop_def
      reset_request_def Let_def)

theorem pooled_request_keeps_extras_witness:
  "rq_extra (fst (buildRequest createEmptyAccessPlan [] None sample_envelope
      (releaseRequestObject (createPooledRequest\<lparr>rq_extra := [(''session'', JStr ''s1'')]\<rparr>) [])))
    = rq_extra (createPooledRequest\<lparr>rq_extra := [(''session'', JStr ''s1'')]\<rparr>)"
  by (rule pooled_request_keeps_extras) (simp add: REQUEST_POOL_MAX_def)

end
