(* ===== verification/Dispatcher.thy ===== *)
theory Dispatcher
  imports RouteCache Middleware RequestObject
begin

text \<open>
  The dispatcher of \<open>src/src/index.js\<close>: default error responses, \<open>finalizeError\<close> with the chain of
  error handlers, and the path of an HTTP request from the envelope of the native layer to the
  encoded response, with the pools, the route table and the response caches it updates.  Work that
  handlers have left behind an await when the response is sent is returned as \<open>deferred\<close>: it runs
  after the request and response objects have gone back to their pools.
\<close>

section \<open>Errors\<close>

record error_value =
  ev_status :: "jnum option"
  ev_statusCode :: "jnum option"
  ev_isError :: bool
  ev_message :: string
  ev_text :: string
  ev_code :: "string option"

definition is_integer_num :: "jnum \<Rightarrow> bool" where
  "is_integer_num x = (case x of Fin r \<Rightarrow> of_int \<lfloor>r\<rfloor> = r | _ \<Rightarrow> False)"

definition normalizeErrorStatus :: "error_value \<Rightarrow> jnum \<Rightarrow> jnum" where
  "normalizeErrorStatus error fallbackStatus =
     (let status = (case ev_status error of Some s \<Rightarrow> s
                    | None \<Rightarrow> (case ev_statusCode error of Some s \<Rightarrow> s | None \<Rightarrow> fallbackStatus)) in
      if is_integer_num status \<and> num_le (Fin 400) status \<and> num_le status (Fin 599)
      then status else fallbackStatus)"

definition createHttpError :: "jnum \<Rightarrow> string \<Rightarrow> string option \<Rightarrow> error_value" where
  "createHttpError status message code =
     \<lparr>ev_status = Some status, ev_statusCode = None, ev_isError = True, ev_message = message,
      ev_text = ''Error: '' @ message, ev_code = (if truthy_str code then code else None)\<rparr>"

definition plain_error :: "string \<Rightarrow> error_value" where
  "plain_error message =
     \<lparr>ev_status = None, ev_statusCode = None, ev_isError = True, ev_message = message,
      ev_text = ''Error: '' @ message, ev_code = None\<rparr>"

definition bridge_message :: "bridge_error \<Rightarrow> string" where
  "bridge_message e =
     (case e of
        Truncated \<Rightarrow> ''Request envelope truncated''
      | UnsupportedVersion v \<Rightarrow> ''Unsupported request envelope version '' @ nat_digits v
      | UnknownMethodCode c \<Rightarrow> ''Unknown method code '' @ nat_digits c
      | HeaderNameTooLong n \<Rightarrow> ''Response header name too long: '' @ nat_digits n
      | HeaderValueTooLong n \<Rightarrow> ''Response header value too long: '' @ nat_digits n
      | RangeErr \<Rightarrow> ''The value of \"size\" is out of range.'')"

definition run_error_value :: "error_value run_error \<Rightarrow> error_value" where
  "run_error_value e =
     (case e of
        UserErr v \<Rightarrow> v
      | NextTwice \<Rightarrow> plain_error ''Middleware next() called multiple times''
      | NextUndefined \<Rightarrow> plain_error ''next is not a function'')"

definition num_text :: "jnum \<Rightarrow> string" where
  "num_text x = (case x of NaN \<Rightarrow> ''NaN'' | PInf \<Rightarrow> ''Infinity'' | NInf \<Rightarrow> ''-Infinity''
     | Fin r \<Rightarrow> int_to_string \<lfloor>r\<rfloor>)"

definition JSON_CT :: "(string \<times> string) list" where
  "JSON_CT = [(''content-type'', ''application/json; charset=utf-8'')]"

definition error_snapshot :: "jnum \<Rightarrow> (string \<times> string) list \<Rightarrow> string \<Rightarrow> snapshot" where
  "error_snapshot status headers text =
     \<lparr>sn_status = num_bits status, sn_headers = headers, sn_body = text_encode text, sn_ncache = None\<rparr>"

definition buildDefaultErrorSnapshot :: "bool \<Rightarrow> error_value \<Rightarrow> jnum \<Rightarrow> snapshot" where
  "buildDefaultErrorSnapshot isProduction error fallbackStatus =
     (let status = normalizeErrorStatus error fallbackStatus in
      if status = Fin 404
      then error_snapshot status [(''content-type'', ''text/plain; charset=utf-8'')] ''Not Found''
      else
        let body =
          (if num_le (Fin 500) status
           then (if isProduction then JObj [(''error'', JStr ''Internal Server Error'')]
                 else JObj [(''error'', JStr ''Internal Server Error''),
                   (''detail'', JStr (if ev_isError error then ev_message error else ev_text error))])
           else JObj [(''error'', JStr (if ev_isError error \<and> ev_message error \<noteq> []
                        then ev_message error else ''HTTP '' @ num_text status))]) in
        error_snapshot status JSON_CT (stringify body))"

section \<open>The world of the dispatcher\<close>

record 'g ctx =
  cx_req :: request
  cx_res :: res_state
  cx_obj :: response_obj
  cx_serializer :: "json \<Rightarrow> byte list"
  cx_glob :: 'g

type_synonym 'g behaviour = "('g ctx, error_value) beh"
type_synonym 'g run_out = "('g ctx, error_value) outcome"

definition res_finished :: "'g ctx \<Rightarrow> bool" where
  "res_finished c \<longleftrightarrow> rs_finished (cx_res c)"

record 'g handler =
  h_async :: bool
  h_body :: "'g behaviour"

record 'g route =
  rt_handlerId :: nat
  rt_middlewares :: "('g ctx, error_value) middleware list"
  rt_handler :: "'g handler"
  rt_plan :: access_plan
  rt_paramNames :: "string list"
  rt_method :: string
  rt_serializer :: "json \<Rightarrow> byte list"

record 'g app =
  ap_routes :: "'g route list"
  ap_errorHandlers :: "(error_value \<Rightarrow> 'g handler) list"
  ap_production :: bool
  ap_alloc :: "nat \<Rightarrow> byte list"

record 'g world =
  wd_cache :: name_cache
  wd_reqPool :: "request list"
  wd_resPools :: response_pools
  wd_routeCaches :: "nat \<Rightarrow> route_cache option"
  wd_glob :: 'g

section \<open>Calling handlers\<close>

text \<open>
  A handler is called; a synchronous throw is seen; a promise is awaited unless the response is
  finished by then.
\<close>

definition call_out :: "'g ctx run \<times> 'g run_out \<Rightarrow> 'g ctx run \<times> error_value run_error option \<times> 'g run_out list" where
  "call_out p =
     (let (r, out) = p in
      case out of
        Done \<Rightarrow> (r, None, [])
      | Failed e \<Rightarrow> (r, Some e, [])
      | Pending f \<Rightarrow>
          if res_finished (stt r) then (r, None, [Pending f])
          else (let (r', e) = f r in (r', e, [])))"

definition call_handler ::
  "'g handler \<Rightarrow> 'g ctx run \<Rightarrow> 'g ctx run \<times> error_value run_error option \<times> 'g run_out list" where
  "call_handler h r =
     call_out (map_prod id (as_promise (h_async h)) (exec_sync (h_body h) no_next_sync no_next r))"

fun run_error_handlers ::
  "'g handler list \<Rightarrow> 'g ctx run \<Rightarrow> 'g ctx run \<times> error_value run_error option \<times> 'g run_out list" where
  "run_error_handlers [] r = (r, None, [])"
| "run_error_handlers (h # hs) r =
     (case call_handler h r of
        (r1, Some e, d) \<Rightarrow> (r1, Some e, d)
      | (r1, None, d) \<Rightarrow>
          if res_finished (stt r1) then (r1, None, d)
          else (let (r2, e, d') = run_error_handlers hs r1 in (r2, e, d @ d')))"

definition serializeErrorResponse ::
  "'g app \<Rightarrow> name_cache \<Rightarrow> error_value \<Rightarrow> bridge_error + (byte list \<times> name_cache)" where
  "serializeErrorResponse app cache error =
     encodeResponseEnvelope (ap_alloc app) cache
       (buildDefaultErrorSnapshot (ap_production app) error (Fin 500))"

text \<open>The \<open>finally\<close> block: the request and the response go back to their pools.\<close>

definition release_both :: "'g ctx \<Rightarrow> 'g world \<Rightarrow> 'g world" where
  "release_both c w =
     w\<lparr>wd_reqPool := releaseRequestObject (cx_req c) (wd_reqPool w),
       wd_resPools := release_response (cx_obj c) (cx_res c) (wd_resPools w),
       wd_glob := cx_glob c\<rparr>"

type_synonym 'g reply = "(bridge_error + byte list) \<times> 'g run_out list \<times> 'g world"

definition reply_with :: "bridge_error + (byte list \<times> name_cache) \<Rightarrow> 'g run_out list \<Rightarrow> 'g world \<Rightarrow> 'g reply" where
  "reply_with r d w =
     (case r of
        Inl e \<Rightarrow> (Inl e, d, w)
      | Inr (bytes, cache) \<Rightarrow> (Inr bytes, d, w\<lparr>wd_cache := cache\<rparr>))"

definition finalizeError ::
  "'g app \<Rightarrow> error_value \<Rightarrow> 'g ctx run \<Rightarrow> 'g run_out list \<Rightarrow> jnum \<Rightarrow> 'g world \<Rightarrow> 'g reply" where
  "finalizeError app error r d fallbackStatus w =
     (let (r1, thrown, d1) =
        (if \<not> res_finished (stt r)
         then run_error_handlers (map (\<lambda>h. h error) (ap_errorHandlers app)) r
         else (r, None, []));
          attempt =
        (case thrown of
           Some e \<Rightarrow> Inl (run_error_value e)
         | None \<Rightarrow>
             map_sum (\<lambda>e. plain_error (bridge_message e)) id
               (if \<not> res_finished (stt r1)
                then encodeResponseEnvelope (ap_alloc app) (wd_cache w)
                  (buildDefaultErrorSnapshot (ap_production app) error fallbackStatus)
                else encodeResponseEnvelope (ap_alloc app) (wd_cache w)
                  (take_snapshot (cx_res (stt r1)))));
          result =
        (case attempt of
           Inr x \<Rightarrow> Inr x
         | Inl handlerError \<Rightarrow> serializeErrorResponse app (wd_cache w) handlerError) in
      reply_with result (d @ d1) (release_both (stt r1) w))"

section \<open>One HTTP request\<close>

definition ERROR_REQUEST_PLAN :: access_plan where
  "ERROR_REQUEST_PLAN =
     \<lparr>pl_method = True, pl_path = True, pl_url = True, pl_fullParams = False, pl_fullQuery = True,
      pl_fullHeaders = True, pl_paramKeys = [], pl_queryKeys = [], pl_headerKeys = [],
      pl_dispatchKind = GenericFallback, pl_jsonFastPath = JFallback\<rparr>"

definition default_serializer :: "json \<Rightarrow> byte list" where
  "default_serializer j = text_encode (stringify j)"

definition make_ctx ::
  "access_plan \<Rightarrow> string list \<Rightarrow> string option \<Rightarrow> (json \<Rightarrow> byte list) \<Rightarrow> request_envelope \<Rightarrow> 'g world
    \<Rightarrow> 'g ctx \<times> 'g world" where
  "make_ctx plan names method ser decoded w =
     (let (req, rp) = buildRequest plan names method decoded (wd_reqPool w);
          ((ob, st), pools) = createResponseEnvelope (wd_resPools w) in
      (\<lparr>cx_req = req, cx_res = st, cx_obj = ob, cx_serializer = ser, cx_glob = wd_glob w\<rparr>,
       w\<lparr>wd_reqPool := rp, wd_resPools := pools\<rparr>))"

definition find_route :: "'g app \<Rightarrow> nat \<Rightarrow> 'g route option" where
  "find_route app i = find (\<lambda>rt. rt_handlerId rt = i) (rev (ap_routes app))"

text \<open>The \<open>try\<close> block: the middlewares, then the handler if the response is still open.\<close>

definition run_route :: "'g route \<Rightarrow> 'g ctx \<Rightarrow> 'g ctx run \<times> error_value run_error option \<times> 'g run_out list" where
  "run_route rt c =
     (case (if rt_middlewares rt \<noteq> []
            then call_out (createMiddlewareRunner res_finished (rt_middlewares rt) c)
            else (start_run c, None, [])) of
        (r1, Some e, d) \<Rightarrow> (r1, Some e, d)
      | (r1, None, d) \<Rightarrow>
          if res_finished (stt r1) then (r1, None, d)
          else (let (r2, e, d2) = call_handler (rt_handler rt) r1 in (r2, e, d @ d2)))"

definition finish_request ::
  "'g app \<Rightarrow> 'g route \<Rightarrow> 'g ctx \<Rightarrow> 'g run_out list \<Rightarrow> 'g world \<Rightarrow> 'g reply" where
  "finish_request app rt c d w =
     (let sn = take_snapshot (cx_res c); w1 = w\<lparr>wd_glob := cx_glob c\<rparr> in
      if rs_streaming (cx_res c)
      then reply_with
        (encodeStreamStartEnvelope (ap_alloc app) (wd_cache w)
           (case rs_streamId (cx_res c) of Some i \<Rightarrow> i | None \<Rightarrow> 0) sn) d
        (w1\<lparr>wd_reqPool := releaseRequestObject (cx_req c) (wd_reqPool w1)\<rparr>)
      else
        (case encodeResponseEnvelope (ap_alloc app) (wd_cache w) sn of
           Inl e \<Rightarrow> (Inl e, d, w1)
         | Inr (encoded, cache) \<Rightarrow>
             (Inr encoded, d,
              (release_both c w1)
                \<lparr>wd_cache := cache,
                 wd_routeCaches := (wd_routeCaches w1)(rt_handlerId rt :=
                   maybePromoteRouteResponseCache sn encoded (wd_routeCaches w1 (rt_handlerId rt)))\<rparr>)))"

definition dispatch_request :: "'g app \<Rightarrow> byte list \<Rightarrow> 'g world \<Rightarrow> 'g reply" where
  "dispatch_request app requestBuffer w =
     (case decodeRequestEnvelope requestBuffer of
        Inl e \<Rightarrow> reply_with (serializeErrorResponse app (wd_cache w) (plain_error (bridge_message e))) [] w
      | Inr decoded \<Rightarrow>
          if env_handlerId decoded = 0
          then (let (c, w1) = make_ctx ERROR_REQUEST_PLAN [] None default_serializer decoded w in
                finalizeError app (createHttpError (Fin 404) ''Route not found'' (Some ''NOT_FOUND'')) (start_run c) []
                  (Fin 404) w1)
          else
            (case find_route app (env_handlerId decoded) of
               None \<Rightarrow> reply_with (serializeErrorResponse app (wd_cache w)
                 (plain_error (''Unknown handler id '' @ nat_digits (env_handlerId decoded)))) [] w
             | Some rt \<Rightarrow>
                 (case Option.bind (wd_routeCaches w (rt_handlerId rt)) rc_encoded of
                    Some bytes \<Rightarrow> (Inr bytes, [], w)
                  | None \<Rightarrow>
                      let (c, w1) = make_ctx (rt_plan rt) (rt_paramNames rt) (Some (rt_method rt))
                            (rt_serializer rt) decoded w in
                      (case run_route rt c of
                         (r, Some e, d) \<Rightarrow> finalizeError app (run_error_value e) r d (Fin 500) w1
                       | (r, None, d) \<Rightarrow> finish_request app rt (stt r) d w1))))"

section \<open>WebSocket events\<close>

datatype ws_event = WsOpen | WsText string | WsBinary "byte list" | WsClose | WsOther nat

text \<open>
  \<open>None\<close> where the buffer is too short, which throws; the offsets are those of the native builder.
\<close>

fun bits_of :: "nat \<Rightarrow> nat" where
  "bits_of n = (if n = 0 then 0 else Suc (bits_of (n div 2)))"

declare bits_of.simps [simp del]

text \<open>\<open>Number(bigint)\<close>: the nearest double, ties to the even one.\<close>

definition number_of_big :: "nat \<Rightarrow> nat" where
  "number_of_big n =
     (if n \<le> 2 ^ 53 then n
      else
        let u = 2 ^ (bits_of n - 53); q = n div u; r = n mod u in
        (if 2 * r > u \<or> (2 * r = u \<and> odd q) then (q + 1) * u else q * u))"

lemma number_of_big_small [simp]: "n \<le> 2 ^ 53 \<Longrightarrow> number_of_big n = n"
  by (simp add: number_of_big_def)

definition decode_ws_event :: "byte list \<Rightarrow> bridge_error + (ws_event \<times> nat \<times> nat)" where
  "decode_ws_event b =
     ebind (readU8 b 1) (\<lambda>eventType.
     ebind (readU32 b 2) (\<lambda>lo. ebind (readU32 b 6) (\<lambda>hi.
     ebind (readU32 b 10) (\<lambda>handlerId.
     ebind (readU32 b 14) (\<lambda>dataLen.
     let dat = (if dataLen > 0 then Some (take dataLen (drop 18 b)) else None);
         bytes = (case dat of Some d \<Rightarrow> d | None \<Rightarrow> []) in
     Inr (if eventType = 1 then WsOpen
          else if eventType = 2 then WsText (text_decode bytes)
          else if eventType = 4 then WsBinary bytes
          else if eventType = 3 then WsClose
          else WsOther eventType,
          number_of_big (lo + 4294967296 * hi), handlerId))))))"

text \<open>The set of open sockets; a handler that throws is logged and changes nothing here.\<close>

definition ws_track :: "ws_event \<Rightarrow> nat \<Rightarrow> nat list \<Rightarrow> nat list" where
  "ws_track ev wsId active =
     (case ev of
        WsOpen \<Rightarrow> set_add active wsId
      | WsClose \<Rightarrow> removeAll wsId active
      | _ \<Rightarrow> active)"

section \<open>Error responses\<close>

definition error_status_ok :: "jnum \<Rightarrow> bool" where
  "error_status_ok x \<longleftrightarrow> is_integer_num x \<and> num_le (Fin 400) x \<and> num_le x (Fin 599)"

lemma normalizeErrorStatus_ok: "error_status_ok f \<Longrightarrow> error_status_ok (normalizeErrorStatus e f)"
  by (simp add: normalizeErrorStatus_def error_status_ok_def Let_def)

lemma error_headers_fit:
  "h \<in> set (sn_headers (buildDefaultErrorSnapshot isProd e f)) \<Longrightarrow> plain_header h \<and> fits_header h"
  by (auto simp: buildDefaultErrorSnapshot_def error_snapshot_def JSON_CT_def Let_def plain_header_def
      fits_header_def OBJECT_PROTOTYPE_LENGTHS_def split: if_splits)

definition good_app :: "'g app \<Rightarrow> bool" where
  "good_app app \<longleftrightarrow> (\<forall>n. length (ap_alloc app n) = n)"

lemma encode_error_snapshot:
  assumes "good_app app" "wf_cache cache"
  shows "\<exists>c. encodeResponseEnvelope (ap_alloc app) cache (buildDefaultErrorSnapshot isProd e f)
      = Inr (response_frame (buildDefaultErrorSnapshot isProd e f), c) \<and> wf_cache c"
  by (rule encodeResponseEnvelope_frame)
    (use assms error_headers_fit in \<open>auto simp: good_app_def\<close>)

lemma serialize_error:
  assumes "good_app app" "wf_cache cache"
  shows "\<exists>c. serializeErrorResponse app cache e
      = Inr (response_frame (buildDefaultErrorSnapshot (ap_production app) e (Fin 500)), c) \<and> wf_cache c"
  unfolding serializeErrorResponse_def by (rule encode_error_snapshot [OF assms])

text \<open>In production a server error says nothing about its cause.\<close>

lemma production_opaque:
  assumes "num_le (Fin 500) (normalizeErrorStatus e f)"
  shows "buildDefaultErrorSnapshot True e f
    = error_snapshot (normalizeErrorStatus e f) JSON_CT (stringify (JObj [(''error'', JStr ''Internal Server Error'')]))"
  using assms by (auto simp: buildDefaultErrorSnapshot_def Let_def num_le_def)

section \<open>\<open>finalizeError\<close>\<close>

lemma reply_with_simps [simp]:
  "reply_with (Inl e) d w = (Inl e, d, w)"
  "reply_with (Inr (b, c)) d w = (Inr b, d, w\<lparr>wd_cache := c\<rparr>)"
  by (simp_all add: reply_with_def)

lemma release_both_cache [simp]: "wd_cache (release_both c w) = wd_cache w"
  by (simp add: release_both_def)

lemma encode_keeps_cache:
  assumes "wf_cache cache" "encodeResponseEnvelope alloc cache sn = Inr (b, c)"
  shows "wf_cache c"
proof -
  have ct: "encode_headers cache hs = Inr (es, n, c') \<Longrightarrow> wf_cache cache \<Longrightarrow> wf_cache c'" for hs cache es n c'
  proof (induction cache hs arbitrary: es n c' rule: encode_headers.induct)
    case (1 cache)
    then show ?case by simp
  next
    case (2 cache name v rest)
    obtain c1 where g: "getCachedHeaderNameBytes cache name = (text_encode name, c1)" "wf_cache c1"
      using getCached_bytes [OF 2(3)] by blast
    show ?case
      using 2 g by (auto simp: Let_def ebind_eq_Inr split: if_splits)
  qed
  then show ?thesis
    using assms by (fastforce simp: encodeResponseEnvelope_def Let_def ebind_eq_Inr
        split: if_splits option.splits)
qed

lemma finalizeError_replies:
  assumes "good_app app" "wf_cache (wd_cache w)"
  shows "\<exists>bytes. fst (finalizeError app error r d f w) = Inr bytes"
    and "wf_cache (wd_cache (snd (snd (finalizeError app error r d f w))))"
proof -
  obtain r1 thrown d1 where run: "(if \<not> res_finished (stt r)
      then run_error_handlers (map (\<lambda>h. h error) (ap_errorHandlers app)) r else (r, None, [])) = (r1, thrown, d1)"
    by (metis prod_cases3)
  let ?ser = "serializeErrorResponse app (wd_cache w)"
  have ser: "\<exists>b c. ?ser e = Inr (b, c) \<and> wf_cache c" for e
    using serialize_error [OF assms] by blast
  have att: "\<exists>b c. (case map_sum (\<lambda>e. plain_error (bridge_message e)) id x of Inr y \<Rightarrow> Inr y | Inl e \<Rightarrow> ?ser e)
      = Inr (b, c) \<and> wf_cache c" if "\<And>b c. x = Inr (b, c) \<Longrightarrow> wf_cache c" for x
    using that ser by (cases x) auto
  have "\<exists>b c. (case (case thrown of Some e \<Rightarrow> Inl (run_error_value e)
      | None \<Rightarrow> map_sum (\<lambda>e. plain_error (bridge_message e)) id
          (if \<not> res_finished (stt r1)
           then encodeResponseEnvelope (ap_alloc app) (wd_cache w)
             (buildDefaultErrorSnapshot (ap_production app) error f)
           else encodeResponseEnvelope (ap_alloc app) (wd_cache w) (take_snapshot (cx_res (stt r1)))))
      of Inr x \<Rightarrow> Inr x | Inl e \<Rightarrow> ?ser e) = Inr (b, c) \<and> wf_cache c"
    using ser att encode_keeps_cache [OF assms(2)] by (cases thrown) (simp_all split: if_split)
  then obtain b c where bc: "wf_cache c" "(case (case thrown of Some e \<Rightarrow> Inl (run_error_value e)
      | None \<Rightarrow> map_sum (\<lambda>e. plain_error (bridge_message e)) id
          (if \<not> res_finished (stt r1)
           then encodeResponseEnvelope (ap_alloc app) (wd_cache w)
             (buildDefaultErrorSnapshot (ap_production app) error f)
           else encodeResponseEnvelope (ap_alloc app) (wd_cache w) (take_snapshot (cx_res (stt r1)))))
      of Inr x \<Rightarrow> Inr x | Inl e \<Rightarrow> ?ser e) = Inr (b, c)" by blast
  then have "finalizeError app error r d f w = reply_with (Inr (b, c)) (d @ d1) (release_both (stt r1) w)"
    unfolding finalizeError_def run by (simp add: Let_def)
  then show "\<exists>bytes. fst (finalizeError app error r d f w) = Inr bytes"
    "wf_cache (wd_cache (snd (snd (finalizeError app error r d f w))))"
    using bc(1) by simp_all
qed

lemma finalizeError_default:
  assumes "good_app app" "wf_cache (wd_cache w)" "ap_errorHandlers app = []" "\<not> res_finished (stt r)"
  shows "fst (finalizeError app error r d f w)
    = Inr (response_frame (buildDefaultErrorSnapshot (ap_production app) error f))"
  using encode_error_snapshot [OF assms(1,2), of "ap_production app" error f] assms(3,4)
  by (auto simp: finalizeError_def Let_def)

section \<open>A request from the pools\<close>

lemma make_ctx_fresh:
  assumes "make_ctx plan names m ser d w = (c, w')"
  shows "coherent d (cx_req c) \<and> rq_plan (cx_req c) = plan \<and> rq_routeParamNames (cx_req c) = names
    \<and> cx_res c = fresh_state \<and> cx_glob c = wd_glob w"
  using assms acquired_state [of "wd_resPools w"] build_coherent [of d plan names m "wd_reqPool w"]
  by (auto simp: make_ctx_def buildRequest_def Let_def split: prod.splits)

lemma make_ctx_cache [simp]: "wd_cache (snd (make_ctx plan names m ser d w)) = wd_cache w"
  by (simp add: make_ctx_def split_beta Let_def)

lemma make_ctx_caches [simp]: "wd_routeCaches (snd (make_ctx plan names m ser d w)) = wd_routeCaches w"
  by (simp add: make_ctx_def split_beta Let_def)

section \<open>Replies of the dispatcher\<close>

lemma dispatch_not_found:
  assumes "good_app app" "wf_cache (wd_cache w)" "ap_errorHandlers app = []"
    and "decodeRequestEnvelope b = Inr d" "env_handlerId d = 0"
  shows "fst (dispatch_request app b w)
    = Inr (response_frame (error_snapshot (Fin 404) [(''content-type'', ''text/plain; charset=utf-8'')] ''Not Found''))"
proof -
  obtain c w1 where m: "make_ctx ERROR_REQUEST_PLAN [] None default_serializer d w = (c, w1)"
    by (cases "make_ctx ERROR_REQUEST_PLAN [] None default_serializer d w")
  have w1: "wf_cache (wd_cache w1)"
    using make_ctx_cache [of ERROR_REQUEST_PLAN "[]" None default_serializer d w] m assms(2) by simp
  have "\<not> res_finished (stt (start_run c))"
    using make_ctx_fresh [OF m] by (simp add: res_finished_def start_run_def fresh_state_def)
  note f = finalizeError_default [OF assms(1) w1 assms(3) this]
  have "buildDefaultErrorSnapshot p (createHttpError (Fin 404) t code) (Fin 404)
      = error_snapshot (Fin 404) [(''content-type'', ''text/plain; charset=utf-8'')] ''Not Found''" for p t code
    by (simp add: buildDefaultErrorSnapshot_def normalizeErrorStatus_def createHttpError_def
        is_integer_num_def num_le_def)
  then show ?thesis
    by (simp add: dispatch_request_def assms(4,5) m f)
qed

lemma dispatch_cached:
  assumes "decodeRequestEnvelope b = Inr d" "env_handlerId d \<noteq> 0" "find_route app (env_handlerId d) = Some rt"
    and "Option.bind (wd_routeCaches w (rt_handlerId rt)) rc_encoded = Some bytes"
  shows "dispatch_request app b w = (Inr bytes, [], w)"
  using assms by (simp add: dispatch_request_def)

text \<open>The route of a request whose response is not cached yet.\<close>

definition reaches :: "'g app \<Rightarrow> byte list \<Rightarrow> 'g world \<Rightarrow> 'g route \<Rightarrow> 'g ctx \<Rightarrow> 'g world \<Rightarrow> bool" where
  "reaches app b w rt c w1 \<longleftrightarrow>
     (\<exists>d. decodeRequestEnvelope b = Inr d \<and> env_handlerId d \<noteq> 0
        \<and> find_route app (env_handlerId d) = Some rt
        \<and> Option.bind (wd_routeCaches w (rt_handlerId rt)) rc_encoded = None
        \<and> make_ctx (rt_plan rt) (rt_paramNames rt) (Some (rt_method rt)) (rt_serializer rt) d w = (c, w1))"

lemma reaches_dispatch:
  "reaches app b w rt c w1 \<Longrightarrow> dispatch_request app b w =
     (case run_route rt c of
        (r, Some e, d) \<Rightarrow> finalizeError app (run_error_value e) r d (Fin 500) w1
      | (r, None, d) \<Rightarrow> finish_request app rt (stt r) d w1)"
  by (auto simp: reaches_def dispatch_request_def)

lemma reaches_cache: "reaches app b w rt c w1 \<Longrightarrow> wd_cache w1 = wd_cache w"
  unfolding reaches_def by (metis make_ctx_cache snd_conv)

lemma dispatch_error:
  assumes "good_app app" "wf_cache (wd_cache w)" "ap_errorHandlers app = []"
    and "reaches app b w rt c w1" "run_route rt c = (r, Some e, d)" "\<not> res_finished (stt r)"
  shows "fst (dispatch_request app b w)
    = Inr (response_frame (buildDefaultErrorSnapshot (ap_production app) (run_error_value e) (Fin 500)))"
  using finalizeError_default [OF assms(1) _ assms(3,6)] assms(2)
  by (simp add: reaches_dispatch [OF assms(4)] assms(5) reaches_cache [OF assms(4)])

lemma dispatch_ok:
  assumes "good_app app" "wf_cache (wd_cache w)" "reaches app b w rt c w1"
    and "run_route rt c = (r, None, d)" "\<not> rs_streaming (cx_res (stt r))"
    and "\<forall>h\<in>set (rs_headers (cx_res (stt r))). plain_header h \<and> fits_header h"
  shows "fst (dispatch_request app b w) = Inr (response_frame (take_snapshot (cx_res (stt r))))"
proof -
  have "\<exists>c. encodeResponseEnvelope (ap_alloc app) (wd_cache w1) (take_snapshot (cx_res (stt r)))
      = Inr (response_frame (take_snapshot (cx_res (stt r))), c) \<and> wf_cache c"
    by (rule encodeResponseEnvelope_frame)
      (use assms reaches_cache [OF assms(3)] in \<open>simp_all add: good_app_def take_snapshot_def\<close>)
  then show ?thesis
    using assms(5) by (auto simp: reaches_dispatch [OF assms(3)] assms(4) finish_request_def Let_def)
qed

lemma dispatch_stream:
  assumes "good_app app" "wf_cache (wd_cache w)" "reaches app b w rt c w1" "run_route rt c = (r, None, d)"
    and "rs_streaming (cx_res (stt r))"
  shows "fst (dispatch_request app b w) = Inr (stream_frame
    (case rs_streamId (cx_res (stt r)) of Some i \<Rightarrow> i | None \<Rightarrow> 0) (take_snapshot (cx_res (stt r))))"
proof -
  define i where "i = (case rs_streamId (cx_res (stt r)) of Some i \<Rightarrow> i | None \<Rightarrow> 0)"
  obtain ca where e: "encodeStreamStartEnvelope (ap_alloc app) (wd_cache w) i (take_snapshot (cx_res (stt r)))
      = Inr (stream_frame i (take_snapshot (cx_res (stt r))), ca)"
    using encodeStreamStartEnvelope_frame assms(1,2) unfolding good_app_def by blast
  have "dispatch_request app b w = finish_request app rt (stt r) d w1"
    by (simp add: reaches_dispatch [OF assms(3)] assms(4))
  then show ?thesis
    using e assms(5) reaches_cache [OF assms(3)]
    by (simp add: finish_request_def Let_def reply_with_def flip: i_def)
qed

text \<open>A header that does not fit makes the promise of the dispatcher reject: no reply at all.\<close>

lemma dispatch_rejects:
  assumes "wf_cache (wd_cache w)" "reaches app b w rt c w1" "run_route rt c = (r, None, d)"
    and "\<not> rs_streaming (cx_res (stt r))" "\<forall>h\<in>set (rs_headers (cx_res (stt r))). plain_header h"
    and "\<exists>h\<in>set (rs_headers (cx_res (stt r))). \<not> fits_header h"
  shows "\<exists>e. fst (dispatch_request app b w) = Inl e"
proof -
  obtain n where "encodeResponseEnvelope (ap_alloc app) (wd_cache w1) (take_snapshot (cx_res (stt r)))
      \<in> {Inl (HeaderNameTooLong n), Inl (HeaderValueTooLong n)}"
    using encodeResponseEnvelope_error [of "wd_cache w1" "take_snapshot (cx_res (stt r))" "ap_alloc app"]
      assms reaches_cache [OF assms(2)] by (auto simp: take_snapshot_def)
  then show ?thesis
    using assms(4) by (auto simp: reaches_dispatch [OF assms(2)] assms(3) finish_request_def Let_def)
qed

section \<open>What runs before the handler and after the response\<close>

lemma run_route_unfinished:
  fixes rt :: "'g route"
  assumes "rt_middlewares rt = map layer_mw ls" "2 \<le> length ls"
    and "\<not> res_finished (before_await res_finished ls c)" "\<not> res_finished (onion res_finished ls c)"
  shows "\<exists>r. stt r = onion res_finished ls c \<and> run_route rt c = call_handler (rt_handler rt) r"
proof -
  let ?run = "createMiddlewareRunner res_finished (map layer_mw ls) c :: 'g ctx run \<times> 'g run_out"
  obtain r0 out where run: "?run = (r0, out)" by (cases ?run)
  have r0: "stt r0 = before_await res_finished ls c"
    using runner_before_await [where 'e = error_value, OF assms(2), of res_finished c] run by simp
  obtain a b ls' where ls: "ls = a # b # ls'"
    using assms(2) by (metis One_nat_def Suc_1 Suc_le_length_iff)
  obtain p where p: "out = Pending p"
    using run by (auto simp: ls createMiddlewareRunner_def split_beta Let_def simp del: dispatch_sync.simps)
  obtain r where r: "p r0 = (r, None)" "stt r = onion res_finished ls c"
    using run_onion [where 'e = error_value, OF assms(2), of res_finished c] run p by (auto simp: run_to_end_def settle_def)
  have "rt_middlewares rt \<noteq> []" using assms(1) ls by simp
  then have "run_route rt c = call_handler (rt_handler rt) r"
    using assms r run r0 p by (simp add: run_route_def call_out_def split_beta)
  with r(2) show ?thesis by blast
qed

lemma run_route_deferred:
  fixes rt :: "'g route"
  assumes "rt_middlewares rt = map layer_mw ls" "2 \<le> length ls"
    and "res_finished (before_await res_finished ls c)"
  shows "\<exists>r p. stt r = before_await res_finished ls c \<and> run_route rt c = (r, None, [Pending p])"
proof -
  let ?run = "createMiddlewareRunner res_finished (map layer_mw ls) c :: 'g ctx run \<times> 'g run_out"
  obtain r0 out where run: "?run = (r0, out)" by (cases ?run)
  have r0: "stt r0 = before_await res_finished ls c"
    using runner_before_await [where 'e = error_value, OF assms(2), of res_finished c] run by simp
  obtain a b ls' where ls: "ls = a # b # ls'"
    using assms(2) by (metis One_nat_def Suc_1 Suc_le_length_iff)
  obtain p where p: "out = Pending p"
    using run by (auto simp: ls createMiddlewareRunner_def split_beta Let_def simp del: dispatch_sync.simps)
  have "rt_middlewares rt \<noteq> []" using assms(1) ls by simp
  then show ?thesis
    using assms r0 run p by (auto simp: run_route_def call_out_def)
qed

section \<open>Properties\<close>

text \<open>An application with one route, one request for it and one for no route.\<close>

definition demo_handler :: "nat behaviour \<Rightarrow> nat handler" where
  "demo_handler b = \<lparr>h_async = False, h_body = b\<rparr>"

definition demo_route :: "(nat ctx, error_value) middleware list \<Rightarrow> nat behaviour \<Rightarrow> nat route" where
  "demo_route ms b =
     \<lparr>rt_handlerId = 300, rt_middlewares = ms, rt_handler = demo_handler b,
      rt_plan = createEmptyAccessPlan, rt_paramNames = [''id''], rt_method = ''GET'',
      rt_serializer = default_serializer\<rparr>"

definition demo_app :: "nat route \<Rightarrow> nat app" where
  "demo_app rt =
     \<lparr>ap_routes = [rt], ap_errorHandlers = [], ap_production = True,
      ap_alloc = (\<lambda>n. replicate n 0)\<rparr>"

definition demo_world :: "nat world" where
  "demo_world =
     \<lparr>wd_cache = [], wd_reqPool = [], wd_resPools = \<lparr>rp_states = [], rp_objects = []\<rparr>,
      wd_routeCaches = (\<lambda>_. None), wd_glob = 0\<rparr>"

definition demo_ctx :: "nat route \<Rightarrow> nat ctx \<times> nat world" where
  "demo_ctx rt = make_ctx (rt_plan rt) (rt_paramNames rt) (Some (rt_method rt)) (rt_serializer rt)
     sample_envelope demo_world"

lemma demo_good: "good_app (demo_app rt)" "wf_cache (wd_cache demo_world)"
  by (simp_all add: good_app_def demo_app_def demo_world_def wf_cache_def)

lemma demo_reaches:
  "reaches (demo_app (demo_route ms b)) (request_frame sample_envelope @ []) demo_world (demo_route ms b)
    (fst (demo_ctx (demo_route ms b))) (snd (demo_ctx (demo_route ms b)))"
  using decode_request_frame [OF sample_envelope_wf, of "[]"]
  by (auto simp: reaches_def demo_app_def find_route_def demo_route_def demo_world_def demo_ctx_def
      sample_envelope_def)

lemma demo_fresh: "cx_res (fst (demo_ctx rt)) = fresh_state"
  using make_ctx_fresh [OF prod.collapse [symmetric]] unfolding demo_ctx_def by blast

text \<open>C9: an error never leaves a request without a reply: whatever the error, the error handlers and the response
  they leave, \<open>finalizeError\<close> produces bytes.\<close>

theorem error_path_always_replies:
  assumes "good_app app" "wf_cache (wd_cache w)"
  shows "\<exists>bytes. fst (finalizeError app error r deferred fallback w) = Inr bytes"
  using assms by (rule finalizeError_replies(1))

theorem error_path_always_replies_witness:
  "\<exists>bytes. fst (finalizeError (demo_app (demo_route [] Return)) (plain_error ''boom'')
    (start_run (fst (demo_ctx (demo_route [] Return)))) [] (Fin 500) demo_world) = Inr bytes"
  by (rule error_path_always_replies [OF demo_good])

text \<open>C10: When a handler or middleware fails before the response is finished, in an application without error
  handlers, in production the response to an error with a status of 500 or more has a constant body and constant headers: of the
  error it depends on the status only.\<close>

theorem uncaught_errors_are_opaque:
  assumes "good_app app" "wf_cache (wd_cache w)" "ap_errorHandlers app = []" "ap_production app"
    and "reaches app b w rt c w1" "run_route rt c = (r, Some e, d)" "\<not> res_finished (stt r)"
    and "num_le (Fin 500) (normalizeErrorStatus (run_error_value e) (Fin 500))"
  shows "fst (dispatch_request app b w)
    = Inr (response_frame (error_snapshot (normalizeErrorStatus (run_error_value e) (Fin 500)) JSON_CT
        (stringify (JObj [(''error'', JStr ''Internal Server Error'')]))))"
  using dispatch_error [OF assms(1-3,5-7)] production_opaque [OF assms(8)] assms(4) by simp

lemma demo_throw:
  "run_route (demo_route [] (Throw (plain_error t))) c = (start_run c, Some (UserErr (plain_error t)), [])"
  if "\<not> res_finished c"
  using that by (simp add: run_route_def demo_route_def demo_handler_def call_handler_def call_out_def
      as_promise_def start_run_def)

theorem uncaught_errors_are_opaque_witness:
  "fst (dispatch_request (demo_app (demo_route [] (Throw (plain_error ''secret''))))
      (request_frame sample_envelope @ []) demo_world)
    = Inr (response_frame (error_snapshot (normalizeErrorStatus
        (run_error_value (UserErr (plain_error ''secret''))) (Fin 500)) JSON_CT
        (stringify (JObj [(''error'', JStr ''Internal Server Error'')]))))"
  by (rule uncaught_errors_are_opaque [OF demo_good _ _ demo_reaches demo_throw])
    (simp_all add: demo_app_def demo_fresh res_finished_def fresh_state_def start_run_def
      normalizeErrorStatus_def plain_error_def is_integer_num_def num_le_def run_error_value_def)

text \<open>a request that the native router could not match gets the plain 404 response.\<close>

theorem unmatched_request_gets_404:
  assumes "good_app app" "wf_cache (wd_cache w)" "ap_errorHandlers app = []"
    and "decodeRequestEnvelope b = Inr d" "env_handlerId d = 0"
  shows "fst (dispatch_request app b w) = Inr (response_frame
    (error_snapshot (Fin 404) [(''content-type'', ''text/plain; charset=utf-8'')] ''Not Found''))"
  using assms by (rule dispatch_not_found)

theorem unmatched_request_gets_404_witness:
  "fst (dispatch_request (demo_app (demo_route [] Return))
      (request_frame (sample_envelope\<lparr>env_handlerId := 0\<rparr>) @ []) demo_world)
    = Inr (response_frame
        (error_snapshot (Fin 404) [(''content-type'', ''text/plain; charset=utf-8'')] ''Not Found''))"
proof (rule unmatched_request_gets_404 [OF demo_good])
  show "decodeRequestEnvelope (request_frame (sample_envelope\<lparr>env_handlerId := 0\<rparr>) @ [])
      = Inr (sample_envelope\<lparr>env_handlerId := 0\<rparr>)"
    using sample_envelope_wf by (intro decode_request_frame) (simp add: wf_envelope_def)
qed (simp_all add: demo_app_def)

text \<open>C11: When the route of a request runs without error, the reply is determined by the response state the handlers
  left: a stream-start envelope if it is streaming, otherwise the documented encoding of the response if its headers
  fit, and otherwise no reply at all, since encoding them throws outside of the \<open>try\<close> block.  Content types that name
  a member of \<open>Object.prototype\<close> are excluded.\<close>

theorem successful_request_reply:
  assumes "good_app app" "wf_cache (wd_cache w)" "reaches app b w rt c w1" "run_route rt c = (r, None, d)"
    and "\<forall>h\<in>set (rs_headers (cx_res (stt r))). plain_header h"
  shows "if rs_streaming (cx_res (stt r))
    then fst (dispatch_request app b w) = Inr (stream_frame
      (case rs_streamId (cx_res (stt r)) of Some i \<Rightarrow> i | None \<Rightarrow> 0) (take_snapshot (cx_res (stt r))))
    else if \<forall>h\<in>set (rs_headers (cx_res (stt r))). fits_header h
    then fst (dispatch_request app b w) = Inr (response_frame (take_snapshot (cx_res (stt r))))
    else \<exists>e. fst (dispatch_request app b w) = Inl e"
  using dispatch_ok [OF assms(1-4)] dispatch_rejects [OF assms(2-4)] dispatch_stream [OF assms(1-4)] assms(5)
  by auto

theorem successful_request_reply_witness:
  "fst (dispatch_request (demo_app (demo_route [] Return)) (request_frame sample_envelope @ []) demo_world)
    = Inr (response_frame (take_snapshot (cx_res (stt (start_run (fst (demo_ctx (demo_route [] Return))))))))"
proof -
  let ?r = "start_run (fst (demo_ctx (demo_route [] Return)))"
  have "run_route (demo_route [] Return) (fst (demo_ctx (demo_route [] Return))) = (?r, None, [])"
    by (simp add: run_route_def demo_route_def demo_handler_def call_handler_def call_out_def
        as_promise_def start_run_def demo_fresh res_finished_def fresh_state_def)
  from successful_request_reply [OF demo_good demo_reaches this] show ?thesis
    by (simp add: start_run_def demo_fresh fresh_state_def)
qed

text \<open>Headers that do not fit, alone: encoding happens outside the \<open>try\<close> block, so one
  oversized header makes the dispatcher itself fail, and the client gets no error response.\<close>

theorem oversized_header_rejects:
  assumes "wf_cache (wd_cache w)" "reaches app b w rt c w1" "run_route rt c = (r, None, d)"
    and "\<not> rs_streaming (cx_res (stt r))" "\<forall>h\<in>set (rs_headers (cx_res (stt r))). plain_header h"
    and "\<exists>h\<in>set (rs_headers (cx_res (stt r))). \<not> fits_header h"
  shows "\<exists>e. fst (dispatch_request app b w) = Inl e"
  using assms by (rule dispatch_rejects)

definition big_header :: "nat behaviour" where
  "big_header = Act (\<lambda>c. c\<lparr>cx_res := (cx_res c)\<lparr>rs_headers := [(replicate 256 (CHR ''a''), [])]\<rparr>\<rparr>) Return"

theorem oversized_header_rejects_witness:
  "\<exists>e. fst (dispatch_request (demo_app (demo_route [] big_header))
      (request_frame sample_envelope @ []) demo_world) = Inl e"
  by (rule oversized_header_rejects [OF demo_good(2) demo_reaches, where d = "[]" and
        r = "(start_run (fst (demo_ctx (demo_route [] big_header))))
          \<lparr>stt := (fst (demo_ctx (demo_route [] big_header)))
             \<lparr>cx_res := fresh_state\<lparr>rs_headers := [(replicate 256 (CHR ''a''), [])]\<rparr>\<rparr>\<rparr>"])
    (auto simp: run_route_def demo_route_def demo_handler_def call_handler_def call_out_def as_promise_def
      start_run_def demo_fresh res_finished_def fresh_state_def big_header_def plain_header_def
      fits_header_def OBJECT_PROTOTYPE_LENGTHS_def)

text \<open>C18: the handler of a route runs after the whole middleware chain, the code behind \<open>await next()\<close> included: what
  that code sees and writes is the state before the handler.\<close>

theorem handler_runs_after_whole_chain:
  fixes rt :: "'g route"
  assumes "rt_middlewares rt = map layer_mw layers" "2 \<le> length layers"
    and "\<not> res_finished (before_await res_finished layers c)" "\<not> res_finished (onion res_finished layers c)"
  shows "\<exists>r. stt r = onion res_finished layers c \<and> run_route rt c = call_handler (rt_handler rt) r"
  using assms by (rule run_route_unfinished)

theorem handler_runs_after_whole_chain_witness:
  "\<exists>r. stt r = onion res_finished [Wrap id id, Wrap id id] (fst (demo_ctx (demo_route [] Return)))
    \<and> run_route (demo_route (map layer_mw [Wrap id id, Wrap id id]) Return) (fst (demo_ctx (demo_route [] Return)))
      = call_handler (rt_handler (demo_route (map layer_mw [Wrap id id, Wrap id id]) Return)) r"
  by (rule handler_runs_after_whole_chain)
    (simp_all add: demo_fresh res_finished_def fresh_state_def, simp add: demo_route_def)

text \<open>when a middleware finishes the response before the first await, the reply is made from the state at that
  moment and the code behind every \<open>await next()\<close> is left over: it runs when the request and the response
  are back in their pools.\<close>

theorem short_circuit_defers_after_next:
  fixes rt :: "'g route"
  assumes "rt_middlewares rt = map layer_mw layers" "2 \<le> length layers"
    and "res_finished (before_await res_finished layers c)"
  shows "\<exists>r p. stt r = before_await res_finished layers c \<and> run_route rt c = (r, None, [Pending p])"
  using assms by (rule run_route_deferred)

definition finish_layer :: "nat ctx layer" where
  "finish_layer = Auto (\<lambda>c. c\<lparr>cx_res := res_send (cx_serializer c) (SendText ''no'') (cx_res c)\<rparr>)"

theorem short_circuit_defers_after_next_witness:
  "\<exists>r p. stt r = before_await res_finished [Wrap id id, finish_layer] (fst (demo_ctx (demo_route [] Return)))
    \<and> run_route (demo_route (map layer_mw [Wrap id id, finish_layer]) Return)
        (fst (demo_ctx (demo_route [] Return))) = (r, None, [Pending p])"
  by (rule short_circuit_defers_after_next)
    (simp_all add: finish_layer_def demo_fresh res_finished_def fresh_state_def res_send_def finish_with_def,
      simp add: demo_route_def)

end
