(* ===== verification/CircuitBreaker.thy ===== *)
theory CircuitBreaker
  imports Prelude
begin

text \<open>
  The circuit breaker of \<open>src/src/circuit-breaker.js\<close>.  A call has a beginning, where it is let
  through or rejected, and an end, where it succeeds or fails; other calls may begin and end in
  between, so the model is a state machine over these events with the calls in flight as part of
  the state.  The lifecycle callbacks only observe and are left out.
\<close>

section \<open>State and operations\<close>

datatype cb_state = Closed | Open | HalfOpen

record cb_config =
  cf_threshold :: int
  cf_timeout :: int
  cf_halfOpenMax :: int

record breaker =
  cb_state :: cb_state
  cb_failureCount :: int
  cb_lastFailureTime :: int
  cb_halfOpenActive :: int

definition new_breaker :: breaker where
  "new_breaker =
     \<lparr>cb_state = Closed, cb_failureCount = 0, cb_lastFailureTime = 0, cb_halfOpenActive = 0\<rparr>"

definition cb_trip :: "int \<Rightarrow> breaker \<Rightarrow> breaker" where
  "cb_trip now b =
     (if cb_state b = Open then b else b\<lparr>cb_state := Open, cb_lastFailureTime := now\<rparr>)"

definition cb_reset :: "breaker \<Rightarrow> breaker" where
  "cb_reset b =
     (let b1 = b\<lparr>cb_failureCount := 0, cb_halfOpenActive := 0\<rparr> in
      if cb_state b1 \<noteq> Closed then b1\<lparr>cb_state := Closed\<rparr> else b1)"

definition cb_tryHalfOpen :: "cb_config \<Rightarrow> int \<Rightarrow> breaker \<Rightarrow> bool \<times> breaker" where
  "cb_tryHalfOpen cfg now b =
     (if cb_state b \<noteq> Open then (False, b)
      else if now - cb_lastFailureTime b < cf_timeout cfg then (False, b)
      else if cb_halfOpenActive b \<ge> cf_halfOpenMax cfg then (False, b)
      else
        let b1 = (if cb_state b \<noteq> HalfOpen then b\<lparr>cb_state := HalfOpen\<rparr> else b) in
        (True, b1\<lparr>cb_halfOpenActive := cb_halfOpenActive b1 + 1\<rparr>))"

text \<open>
  A call remembers the branch of \<open>call(fn)\<close> it took: the one of the closed circuit or the probing
  one.  \<open>None\<close> is the \<open>CircuitOpenError\<close>.
\<close>

datatype branch = ClosedCall | ProbeCall

definition cb_begin :: "cb_config \<Rightarrow> int \<Rightarrow> breaker \<Rightarrow> branch option \<times> breaker" where
  "cb_begin cfg now b =
     (if cb_state b = Closed then (Some ClosedCall, b)
      else if cb_state b = Open
      then (let (ok, b1) = cb_tryHalfOpen cfg now b in
            if \<not> ok then (None, b1) else (Some ProbeCall, b1))
      else (Some ProbeCall, b))"

definition cb_succeed :: "branch \<Rightarrow> breaker \<Rightarrow> breaker" where
  "cb_succeed br b =
     (case br of ClosedCall \<Rightarrow> b\<lparr>cb_failureCount := 0\<rparr> | ProbeCall \<Rightarrow> cb_reset b)"

definition cb_fail :: "cb_config \<Rightarrow> int \<Rightarrow> bool \<Rightarrow> branch \<Rightarrow> breaker \<Rightarrow> breaker" where
  "cb_fail cfg now isFailure br b =
     (case br of
        ClosedCall \<Rightarrow>
          if isFailure
          then (let b1 = b\<lparr>cb_failureCount := cb_failureCount b + 1\<rparr> in
                if cb_failureCount b1 \<ge> cf_threshold cfg then cb_trip now b1 else b1)
          else b
      | ProbeCall \<Rightarrow> cb_trip now (b\<lparr>cb_halfOpenActive := cb_halfOpenActive b - 1\<rparr>))"

section \<open>The machine\<close>

datatype cb_event =
    Begin nat
  | Succeed nat
  | Fail nat bool
  | ManualReset
  | ManualTrip

record machine =
  mc_breaker :: breaker
  mc_flight :: "(nat \<times> branch) list"
  mc_now :: int

definition new_machine :: machine where
  "new_machine = \<lparr>mc_breaker = new_breaker, mc_flight = [], mc_now = 0\<rparr>"

text \<open>An event happens some milliseconds after the last one.\<close>

inductive cb_step :: "cb_config \<Rightarrow> machine \<Rightarrow> nat \<times> cb_event \<Rightarrow> machine \<Rightarrow> bool" for cfg where
  begin_ok: "t = mc_now m + int d \<Longrightarrow> i \<notin> fst ` set (mc_flight m)
    \<Longrightarrow> cb_begin cfg t (mc_breaker m) = (Some br, b)
    \<Longrightarrow> cb_step cfg m (d, Begin i) \<lparr>mc_breaker = b, mc_flight = (i, br) # mc_flight m, mc_now = t\<rparr>"
| begin_rejected: "t = mc_now m + int d \<Longrightarrow> cb_begin cfg t (mc_breaker m) = (None, b)
    \<Longrightarrow> cb_step cfg m (d, Begin i) (m\<lparr>mc_breaker := b, mc_now := t\<rparr>)"
| succeed: "t = mc_now m + int d \<Longrightarrow> map_of (mc_flight m) i = Some br
    \<Longrightarrow> cb_step cfg m (d, Succeed i)
      \<lparr>mc_breaker = cb_succeed br (mc_breaker m), mc_flight = AList.delete i (mc_flight m), mc_now = t\<rparr>"
| fail: "t = mc_now m + int d \<Longrightarrow> map_of (mc_flight m) i = Some br
    \<Longrightarrow> cb_step cfg m (d, Fail i isF)
      \<lparr>mc_breaker = cb_fail cfg t isF br (mc_breaker m), mc_flight = AList.delete i (mc_flight m), mc_now = t\<rparr>"
| manual_reset: "cb_step cfg m (d, ManualReset)
      (m\<lparr>mc_breaker := cb_reset (mc_breaker m), mc_now := mc_now m + int d\<rparr>)"
| manual_trip: "cb_step cfg m (d, ManualTrip)
      (m\<lparr>mc_breaker := cb_trip (mc_now m + int d) (mc_breaker m), mc_now := mc_now m + int d\<rparr>)"

inductive_cases cb_step_cases: "cb_step cfg m (d, e) m'"

inductive cb_run :: "cb_config \<Rightarrow> machine \<Rightarrow> (nat \<times> cb_event) list \<Rightarrow> machine \<Rightarrow> bool" for cfg where
  cb_done: "cb_run cfg m [] m"
| cb_more: "cb_step cfg m e m1 \<Longrightarrow> cb_run cfg m1 es m2 \<Longrightarrow> cb_run cfg m (e # es) m2"

inductive_simps cb_run_Cons: "cb_run cfg m (e # es) m'"
inductive_simps cb_run_Nil: "cb_run cfg m [] m'"

section \<open>Invariants\<close>

locale cb_invariant =
  fixes cfg :: cb_config and inv :: "machine \<Rightarrow> bool"
  assumes start: "inv new_machine"
    and step: "inv m \<Longrightarrow> cb_step cfg m e m' \<Longrightarrow> inv m'"
begin

lemma run_keeps: "cb_run cfg m es m' \<Longrightarrow> inv m \<Longrightarrow> inv m'"
  by (induction rule: cb_run.induct) (auto intro: step)

lemma reachable: "cb_run cfg new_machine es m' \<Longrightarrow> inv m'"
  using run_keeps start by blast

end

text \<open>A closed circuit has seen fewer failures in a row than the threshold.\<close>

definition closed_below :: "cb_config \<Rightarrow> breaker \<Rightarrow> bool" where
  "closed_below cfg b \<longleftrightarrow>
     (cb_state b = Closed \<longrightarrow> 0 \<le> cb_failureCount b \<and> cb_failureCount b < max 1 (cf_threshold cfg))
     \<and> 0 \<le> cb_failureCount b"

lemmas cb_defs = cb_trip_def cb_reset_def cb_tryHalfOpen_def cb_begin_def cb_succeed_def cb_fail_def Let_def

lemma closed_below_ops:
  assumes "closed_below cfg b"
  shows "closed_below cfg (snd (cb_begin cfg t b))" "closed_below cfg (cb_succeed br b)"
    "closed_below cfg (cb_fail cfg t f br b)" "closed_below cfg (cb_reset b)" "closed_below cfg (cb_trip t b)"
  using assms by (auto simp: closed_below_def cb_defs split: branch.split cb_state.splits)

interpretation closed_inv: cb_invariant cfg "\<lambda>m. closed_below cfg (mc_breaker m)" for cfg
proof
  show "closed_below cfg (mc_breaker new_machine)"
    by (simp add: new_machine_def new_breaker_def closed_below_def)
next
  fix m e m'
  assume inv: "closed_below cfg (mc_breaker m)" and st: "cb_step cfg m e m'"
  note ops = closed_below_ops [OF inv]
  from st show "closed_below cfg (mc_breaker m')"
  proof cases
    case (begin_ok t d i br b)
    then show ?thesis using ops(1) [of t] by simp
  next
    case (begin_rejected t d b i)
    then show ?thesis using ops(1) [of t] by simp
  qed (use ops in simp_all)
qed

text \<open>
  The moves of the state: a closed circuit never starts probing, and an open one starts probing
  only after the timeout.
\<close>

lemma probing_only_after_timeout:
  assumes "cb_step cfg m e m'" "cb_state (mc_breaker m) \<noteq> HalfOpen" "cb_state (mc_breaker m') = HalfOpen"
  shows "cb_state (mc_breaker m) = Open
    \<and> cf_timeout cfg \<le> mc_now m' - cb_lastFailureTime (mc_breaker m)
    \<and> cb_halfOpenActive (mc_breaker m) < cf_halfOpenMax cfg"
  using assms(1)
proof cases
  case (begin_ok t d i br b)
  then show ?thesis using assms(2,3) by (auto simp: cb_defs split: if_splits)
next
  case (begin_rejected t d b i)
  then show ?thesis using assms(2,3) by (auto simp: cb_defs split: if_splits)
qed (use assms(2,3) in \<open>auto simp: cb_defs split: branch.splits if_splits\<close>)

text \<open>Rejection: an open circuit lets nothing through before the timeout, and does not change.\<close>

lemma open_rejects:
  "cb_state b = Open \<Longrightarrow> now - cb_lastFailureTime b < cf_timeout cfg \<Longrightarrow> cb_begin cfg now b = (None, b)"
  by (simp add: cb_defs)

lemma closed_admits: "cb_state b = Closed \<Longrightarrow> cb_begin cfg now b = (Some ClosedCall, b)"
  by (simp add: cb_begin_def)

lemma open_probes:
  "cb_state b = Open \<Longrightarrow> cf_timeout cfg \<le> now - cb_lastFailureTime b \<Longrightarrow> cb_halfOpenActive b < cf_halfOpenMax cfg
    \<Longrightarrow> cb_begin cfg now b
      = (Some ProbeCall, b\<lparr>cb_state := HalfOpen, cb_halfOpenActive := cb_halfOpenActive b + 1\<rparr>)"
  by (simp add: cb_defs)

lemma probe_success_closes:
  "cb_state (cb_succeed ProbeCall b) = Closed \<and> cb_failureCount (cb_succeed ProbeCall b) = 0"
  by (simp add: cb_defs)

lemma probe_failure_opens: "cb_state (cb_fail cfg now f ProbeCall b) = Open"
  by (simp add: cb_defs)

text \<open>A run of failures opens the circuit exactly at the threshold.\<close>

fun fail_times :: "cb_config \<Rightarrow> int \<Rightarrow> nat \<Rightarrow> breaker \<Rightarrow> breaker" where
  "fail_times cfg now 0 b = b"
| "fail_times cfg now (Suc n) b = cb_fail cfg now True ClosedCall (fail_times cfg now n b)"

lemma fail_times_closed:
  "cb_state b = Closed \<Longrightarrow> cb_failureCount b + int n < cf_threshold cfg
    \<Longrightarrow> fail_times cfg now n b = b\<lparr>cb_failureCount := cb_failureCount b + int n\<rparr>"
  by (induction n) (simp_all add: cb_fail_def Let_def)

lemma fail_times_opens:
  assumes "cb_state b = Closed" "cb_failureCount b = 0" "0 < n" "int n = cf_threshold cfg"
  shows "cb_state (fail_times cfg now n b) = Open \<and> cb_lastFailureTime (fail_times cfg now n b) = now"
proof -
  obtain k where n: "n = Suc k" using assms(3) by (cases n) auto
  then have "fail_times cfg now k b = b\<lparr>cb_failureCount := int k\<rparr>"
    using fail_times_closed [of b k cfg now] assms by simp
  then show ?thesis
    using n assms by (simp add: cb_fail_def cb_trip_def Let_def)
qed

section \<open>The bound on probes\<close>

text \<open>
  Once the circuit is half-open every call is a probe: \<open>halfOpenMax\<close> is consulted only where an
  open circuit becomes half-open, and probes that were never counted are subtracted.
\<close>

lemma half_open_admits_all: "cb_state b = HalfOpen \<Longrightarrow> cb_begin cfg now b = (Some ProbeCall, b)"
  by (simp add: cb_begin_def)

definition half_open_machine :: "nat \<Rightarrow> nat \<Rightarrow> machine" where
  "half_open_machine t n =
     \<lparr>mc_breaker = \<lparr>cb_state = HalfOpen, cb_failureCount = 0, cb_lastFailureTime = 0, cb_halfOpenActive = 1\<rparr>,
      mc_flight = rev (map (\<lambda>i. (i, ProbeCall)) [0..<Suc n]), mc_now = int t\<rparr>"

lemma half_open_machine_step:
  "cb_step cfg (half_open_machine t n) (0, Begin (Suc n)) (half_open_machine t (Suc n))"
proof -
  let ?b = "\<lparr>cb_state = HalfOpen, cb_failureCount = 0, cb_lastFailureTime = 0, cb_halfOpenActive = 1\<rparr>"
  have e: "half_open_machine t (Suc n)
      = \<lparr>mc_breaker = ?b, mc_flight = (Suc n, ProbeCall) # mc_flight (half_open_machine t n), mc_now = int t\<rparr>"
    by (simp add: half_open_machine_def)
  show ?thesis
    unfolding e by (rule begin_ok) (auto simp: half_open_machine_def half_open_admits_all)
qed

lemma cb_run_snoc: "cb_run cfg m es m1 \<Longrightarrow> cb_step cfg m1 e m2 \<Longrightarrow> cb_run cfg m (es @ [e]) m2"
  by (induction rule: cb_run.induct) (auto intro: cb_run.intros)

lemma unbounded_probes:
  assumes "1 \<le> cf_halfOpenMax cfg"
  shows "\<exists>es. cb_run cfg new_machine es (half_open_machine (nat (cf_timeout cfg)) n)"
proof (induction n)
  case 0
  let ?t = "nat (cf_timeout cfg)"
  let ?b1 = "cb_trip 0 new_breaker"
  let ?m1 = "new_machine\<lparr>mc_breaker := ?b1, mc_now := 0\<rparr>"
  have s1: "cb_step cfg new_machine (0, ManualTrip) ?m1"
    using manual_trip [of cfg new_machine 0] by (simp add: new_machine_def)
  have "cb_begin cfg (int ?t) ?b1 = (Some ProbeCall, ?b1\<lparr>cb_state := HalfOpen, cb_halfOpenActive := 1\<rparr>)"
    using assms by (simp add: cb_defs new_breaker_def)
  then have s2: "cb_step cfg ?m1 (?t, Begin 0)
      \<lparr>mc_breaker = ?b1\<lparr>cb_state := HalfOpen, cb_halfOpenActive := 1\<rparr>, mc_flight = [(0, ProbeCall)],
       mc_now = int ?t\<rparr>"
    using begin_ok [of "int ?t" ?m1 ?t 0 cfg ProbeCall] by (simp add: new_machine_def)
  have "half_open_machine ?t 0
      = \<lparr>mc_breaker = ?b1\<lparr>cb_state := HalfOpen, cb_halfOpenActive := 1\<rparr>, mc_flight = [(0, ProbeCall)],
         mc_now = int ?t\<rparr>"
    by (simp add: half_open_machine_def cb_defs new_breaker_def)
  then show ?case using s1 s2 by (metis cb_run.intros)
next
  case (Suc n)
  then show ?case using cb_run_snoc half_open_machine_step by blast
qed

lemma half_open_flight:
  "cb_state (mc_breaker (half_open_machine t n)) = HalfOpen"
  "length (filter (\<lambda>c. snd c = ProbeCall) (mc_flight (half_open_machine t n))) = Suc n"
  by (simp_all add: half_open_machine_def)

text \<open>Two probes that fail leave the counter at -1.\<close>

lemma negative_counter:
  "cb_halfOpenActive (cb_fail cfg t f ProbeCall (cb_fail cfg t f ProbeCall
     (mc_breaker (half_open_machine t' 1)))) = -1"
  by (simp add: half_open_machine_def cb_fail_def cb_trip_def)

section \<open>Properties\<close>

text \<open>C32: in every reachable state a closed circuit has counted fewer consecutive failures than the threshold, so the
  failure that reaches the threshold is the one that opens it.\<close>

theorem closed_circuit_is_below_threshold:
  assumes "cb_run cfg new_machine events m" "cb_state (mc_breaker m) = Closed"
  shows "0 \<le> cb_failureCount (mc_breaker m) \<and> cb_failureCount (mc_breaker m) < max 1 (cf_threshold cfg)"
  using closed_inv.reachable [OF assms(1)] assms(2) by (simp add: closed_below_def)

theorem closed_circuit_is_below_threshold_witness:
  "0 \<le> cb_failureCount (mc_breaker new_machine)
    \<and> cb_failureCount (mc_breaker new_machine) < max 1 (cf_threshold \<lparr>cf_threshold = 5, cf_timeout = 10, cf_halfOpenMax = 1\<rparr>)"
  by (rule closed_circuit_is_below_threshold [OF cb_done]) (simp add: new_machine_def new_breaker_def)

text \<open>the circuit starts probing only from the open state, only after the timeout has passed and only while the
  number of counted probes is below its bound; before that an open circuit rejects every call unchanged.\<close>

theorem probing_needs_timeout:
  assumes "cb_step cfg m e m'" "cb_state (mc_breaker m) \<noteq> HalfOpen" "cb_state (mc_breaker m') = HalfOpen"
  shows "cb_state (mc_breaker m) = Open
    \<and> cf_timeout cfg \<le> mc_now m' - cb_lastFailureTime (mc_breaker m)
    \<and> cb_halfOpenActive (mc_breaker m) < cf_halfOpenMax cfg"
  using assms by (rule probing_only_after_timeout)

lemma sample_probe_step:
  "cb_step \<lparr>cf_threshold = 1, cf_timeout = 5, cf_halfOpenMax = 1\<rparr>
    (new_machine\<lparr>mc_breaker := cb_trip 0 new_breaker\<rparr>) (5, Begin 0)
    \<lparr>mc_breaker = \<lparr>cb_state = HalfOpen, cb_failureCount = 0, cb_lastFailureTime = 0, cb_halfOpenActive = 1\<rparr>,
     mc_flight = [(0, ProbeCall)], mc_now = 5\<rparr>"
  using begin_ok [of 5 "new_machine\<lparr>mc_breaker := cb_trip 0 new_breaker\<rparr>" 5 0
      "\<lparr>cf_threshold = 1, cf_timeout = 5, cf_halfOpenMax = 1\<rparr>" ProbeCall]
  by (simp add: new_machine_def cb_defs new_breaker_def)

theorem probing_needs_timeout_witness:
  "cb_state (mc_breaker (new_machine\<lparr>mc_breaker := cb_trip 0 new_breaker\<rparr>)) = Open \<and> (5 :: int) \<le> 5 - 0 \<and> (0 :: int) < 1"
  using probing_needs_timeout [OF sample_probe_step] by (simp add: new_machine_def cb_defs new_breaker_def)

text \<open>\<open>halfOpenMax\<close> does not bound the probes in flight: for every configuration that allows one probe and every
  number there is a run into the half-open state with more probes in flight than that number.\<close>

theorem half_open_bound_not_enforced:
  assumes "1 \<le> cf_halfOpenMax cfg"
  shows "\<exists>events m. cb_run cfg new_machine events m \<and> cb_state (mc_breaker m) = HalfOpen
    \<and> length (filter (\<lambda>c. snd c = ProbeCall) (mc_flight m)) > n"
  using unbounded_probes [OF assms, of n] half_open_flight by (metis lessI)

theorem half_open_bound_not_enforced_witness:
  "\<exists>events m. cb_run \<lparr>cf_threshold = 5, cf_timeout = 30000, cf_halfOpenMax = 1\<rparr> new_machine events m
    \<and> cb_state (mc_breaker m) = HalfOpen \<and> length (filter (\<lambda>c. snd c = ProbeCall) (mc_flight m)) > 100"
  by (rule half_open_bound_not_enforced) simp

end
