(* ===== verification/MiddlewareKit.thy ===== *)
theory MiddlewareKit
  imports Dispatcher
begin

text \<open>
  What the middlewares of the package share: reading the request of a context, writing its
  response, and the contract of a gate, a middleware that lets a request through to \<open>next\<close> or
  answers it itself.
\<close>

section \<open>Reading and writing the context\<close>

definition ctx_ip :: "'g ctx \<Rightarrow> string" where
  "ctx_ip c = (case get_ip (cx_req c) of Inr (ip, r) \<Rightarrow> ip | Inl e \<Rightarrow> [])"

definition ctx_header :: "'g ctx \<Rightarrow> string \<Rightarrow> string option" where
  "ctx_header c name = (case req_header [] (cx_req c) name of Inr (v, r, cache) \<Rightarrow> v | Inl e \<Rightarrow> None)"

definition ctx_path :: "'g ctx \<Rightarrow> string" where
  "ctx_path c = (case get_path (cx_req c) of Inr (p, r) \<Rightarrow> p | Inl e \<Rightarrow> [])"

definition ctx_url :: "'g ctx \<Rightarrow> string" where
  "ctx_url c = (case get_url (cx_req c) of Inr (u, r) \<Rightarrow> u | Inl e \<Rightarrow> [])"

definition on_res :: "(res_state \<Rightarrow> res_state) \<Rightarrow> 'g ctx \<Rightarrow> 'g ctx" where
  "on_res f c = c\<lparr>cx_res := f (cx_res c)\<rparr>"

definition set_header :: "string \<Rightarrow> string \<Rightarrow> 'g ctx \<Rightarrow> 'g ctx" where
  "set_header n v = on_res (res_set n v)"

text \<open>\<open>res.status(code).json(data)\<close>\<close>

definition status_json :: "jnum \<Rightarrow> json \<Rightarrow> 'g ctx \<Rightarrow> 'g ctx" where
  "status_json code d c = on_res (\<lambda>st. res_json (cx_serializer c) d (res_status code st)) c"

definition error_json :: "string \<Rightarrow> json" where
  "error_json t = JObj [(''error'', JStr t)]"

text \<open>\<open>req.headers[name]\<close>, the request body and the properties middlewares hang on the request.\<close>

definition ctx_headers_get :: "'g ctx \<Rightarrow> string \<Rightarrow> string option" where
  "ctx_headers_get c name = (case get_headers (cx_req c) of Inr (h, r) \<Rightarrow> map_of h name | Inl e \<Rightarrow> None)"

definition ctx_body :: "'g ctx \<Rightarrow> byte list option" where
  "ctx_body c = (case get_body (cx_req c) of Inr b \<Rightarrow> b | Inl e \<Rightarrow> None)"

definition set_extra :: "string \<Rightarrow> json \<Rightarrow> 'g ctx \<Rightarrow> 'g ctx" where
  "set_extra name v c = c\<lparr>cx_req := (cx_req c)\<lparr>rq_extra := AList.update name v (rq_extra (cx_req c))\<rparr>\<rparr>"

definition get_extra :: "string \<Rightarrow> 'g ctx \<Rightarrow> json option" where
  "get_extra name c = map_of (rq_extra (cx_req c)) name"

text \<open>A number and the truth of a property in JSON.\<close>

definition num_json :: "jnum \<Rightarrow> json" where
  "num_json x = (case x of Fin r \<Rightarrow> JNum \<lfloor>r\<rfloor> | _ \<Rightarrow> JNull)"

definition truthy_extra :: "json option \<Rightarrow> bool" where
  "truthy_extra v = (case v of None \<Rightarrow> False | Some JNull \<Rightarrow> False | Some (JBool b) \<Rightarrow> b
     | Some (JNum i) \<Rightarrow> i \<noteq> 0 | Some (JStr s) \<Rightarrow> s \<noteq> [] | Some _ \<Rightarrow> True)"

definition pass :: "'g behaviour" where
  "pass = Next Return (\<lambda>_. None)"

lemma exec_pass [beh_simps]: "exec pass nx r = nx r"
  by (cases "nx r"; cases "snd (nx r)") (simp_all add: pass_def)

lemma on_res_simps [simp]:
  "cx_req (on_res f c) = cx_req c" "cx_res (on_res f c) = f (cx_res c)"
  "cx_serializer (on_res f c) = cx_serializer c" "cx_glob (on_res f c) = cx_glob c"
  by (simp_all add: on_res_def)

lemma set_extra_simps [simp]:
  "cx_res (set_extra n v c) = cx_res c" "cx_glob (set_extra n v c) = cx_glob c"
  "cx_serializer (set_extra n v c) = cx_serializer c"
  "get_extra n (set_extra n v c) = Some v" "get_extra n (on_res f c) = get_extra n c"
  by (simp_all add: set_extra_def get_extra_def map_of_update)

lemma set_header_simps [simp]:
  "cx_req (set_header n v c) = cx_req c" "cx_res (set_header n v c) = res_set n v (cx_res c)"
  "cx_serializer (set_header n v c) = cx_serializer c" "cx_glob (set_header n v c) = cx_glob c"
  "get_extra m (set_header n v c) = get_extra m c"
  by (simp_all add: set_header_def)

text \<open>\<open>res.set\<close> and \<open>res.get\<close>.\<close>

lemma res_get_set:
  "res_get m (res_set n v st)
    = (if toLowerCase m = toLowerCase n \<and> \<not> has_crlf (toLowerCase n) \<and> \<not> has_crlf v then Some v else res_get m st)"
  by (simp add: res_get_def res_set_def Let_def map_of_update)

lemma res_set_finished [simp]: "rs_finished (res_set n v st) = rs_finished st"
  by (simp add: res_set_def Let_def)

lemma res_set_status [simp]: "rs_status (res_set n v st) = rs_status st"
  by (simp add: res_set_def Let_def)

lemma set_header_unfinished [simp]: "res_finished (set_header n v c) = res_finished c"
  by (simp add: res_finished_def)

lemma coherent_ip: "coherent d (cx_req c) \<Longrightarrow> ctx_ip c = text_decode (env_ipBytes d)"
  using ip_getter.get_ok [of d "cx_req c"] by (auto simp: ctx_ip_def)

lemma coherent_header:
  "coherent d (cx_req c) \<Longrightarrow> ctx_header c name = map_of (buildHeaderLookup (env_rawHeaders d)) (toLowerCase name)"
  using req_header_ok [of d "cx_req c" "[]" name] by (auto simp: ctx_header_def wf_lookup_cache_def)

lemma status_json_finishes: "rs_finished (cx_res (status_json code d c))"
  by (simp add: status_json_def res_json_def finish_with_def res_status_def)

lemma status_json_status: "rs_status (cx_res (status_json code d c)) = code"
  by (simp add: status_json_def res_json_def finish_with_def res_status_def)

section \<open>Cookie headers\<close>

definition pair_text :: "string \<times> string \<Rightarrow> string" where
  "pair_text p = fst p @ ''='' @ snd p"

definition cookie_text :: "(string \<times> string) list \<Rightarrow> string" where
  "cookie_text ps = join ''; '' (map pair_text ps)"

definition cookie_pair_ok :: "string \<times> string \<Rightarrow> bool" where
  "cookie_pair_ok p \<longleftrightarrow> (\<forall>c\<in>set (fst p). c \<noteq> CHR ''='' \<and> c \<noteq> CHR '';'' \<and> \<not> is_ws c)
     \<and> (\<forall>c\<in>set (snd p). c \<noteq> CHR '';'' \<and> \<not> is_ws c)"

lemma trim_id: "\<forall>c\<in>set s. \<not> is_ws c \<Longrightarrow> trim s = s"
proof -
  have d: "\<forall>c\<in>set t. \<not> is_ws c \<Longrightarrow> dropWhile is_ws t = t" for t
    by (cases t) auto
  show "\<forall>c\<in>set s. \<not> is_ws c \<Longrightarrow> trim s = s"
    using d [of s] d [of "rev s"] by (simp add: trim_def)
qed

lemma trim_space: "trim (CHR 0x20 # s) = trim s"
  by (simp add: trim_def is_ws_def)

lemma pair_text_ok:
  "cookie_pair_ok p \<Longrightarrow> CHR '';'' \<notin> set (pair_text p) \<and> trim (pair_text p) = pair_text p"
  by (intro conjI trim_id) (auto simp: cookie_pair_ok_def pair_text_def is_ws_def)

lemma split_space: "map trim (split_on (CHR '';'') (CHR 0x20 # s)) = map trim (split_on (CHR '';'') s)"
  by (cases "split_on (CHR '';'') s") (auto simp: trim_space)

lemma cookie_parts:
  assumes "\<forall>p\<in>set ps. cookie_pair_ok p" "ps \<noteq> []"
  shows "map trim (split_on (CHR '';'') (cookie_text ps)) = map pair_text ps"
  using assms
proof (induction ps rule: induct_list012)
  case (2 p)
  then show ?case using pair_text_ok [of p] by (simp add: cookie_text_def split_on_single)
next
  case (3 p q ps)
  have t: "cookie_text (p # q # ps) = pair_text p @ CHR '';'' # CHR 0x20 # cookie_text (q # ps)"
    by (simp add: cookie_text_def)
  have "split_on (CHR '';'') (cookie_text (p # q # ps))
      = pair_text p # split_on (CHR '';'') (CHR 0x20 # cookie_text (q # ps))"
    unfolding t using 3(3) pair_text_ok [of p] by (intro split_on_sep) simp
  then have "map trim (split_on (CHR '';'') (cookie_text (p # q # ps)))
      = trim (pair_text p) # map trim (split_on (CHR '';'') (cookie_text (q # ps)))"
    by (simp only: list.map split_space)
  also have "\<dots> = map pair_text (p # q # ps)"
    using 3(2) 3(3) pair_text_ok [of p] by simp
  finally show ?case .
qed simp

lemma cookie_prefix:
  assumes "CHR ''='' \<notin> set n" "CHR ''='' \<notin> set m"
  shows "startsWith (pair_text (n, v)) (m @ ''='') \<longleftrightarrow> n = m"
proof
  assume "startsWith (pair_text (n, v)) (m @ ''='')"
  then obtain t where "n @ CHR ''='' # v = m @ CHR ''='' # t" by (auto simp: startsWith_iff pair_text_def)
  then have "takeWhile (\<lambda>c. c \<noteq> CHR ''='') (n @ CHR ''='' # v) = takeWhile (\<lambda>c. c \<noteq> CHR ''='') (m @ CHR ''='' # t)"
    by (rule arg_cong)
  moreover have "takeWhile (\<lambda>c. c \<noteq> CHR ''='') (k @ CHR ''='' # w) = k" if "CHR ''='' \<notin> set k" for k w
    using that by (induction k) auto
  ultimately show "n = m" using assms by simp
qed (simp add: startsWith_iff pair_text_def)

section \<open>A sample request\<close>

definition sample_request ::
  "string \<Rightarrow> string \<Rightarrow> (string \<times> string) list \<Rightarrow> byte list option \<Rightarrow> request_envelope" where
  "sample_request path ip headers b =
     sample_envelope\<lparr>env_urlBytes := text_encode path, env_pathBytes := text_encode path,
       env_ipBytes := text_encode ip,
       env_rawHeaders := map (\<lambda>(n, v). (text_encode n, text_encode v)) headers, env_bodyBytes := b\<rparr>"

definition sample_ctx ::
  "string \<Rightarrow> string \<Rightarrow> string \<Rightarrow> (string \<times> string) list \<Rightarrow> byte list option \<Rightarrow> nat ctx" where
  "sample_ctx method path ip headers b =
     fst (make_ctx ERROR_REQUEST_PLAN [] (Some method) default_serializer
       (sample_request path ip headers b) demo_world)"

lemma sample_fresh:
  "coherent (sample_request p ip hs b) (cx_req (sample_ctx m p ip hs b))"
  "cx_res (sample_ctx m p ip hs b) = fresh_state"
  using make_ctx_fresh [OF prod.collapse [symmetric]] unfolding sample_ctx_def by blast+

lemma sample_open [simp]: "\<not> res_finished (sample_ctx m p ip hs b)"
  by (simp add: res_finished_def sample_fresh fresh_state_def)

lemma sample_ip [simp]: "ctx_ip (sample_ctx m p ip hs b) = ip"
  using coherent_ip [OF sample_fresh(1)] by (simp add: sample_request_def)

lemma sample_method [simp]: "rq_method (cx_req (sample_ctx m p ip hs b)) = m"
  by (simp add: sample_ctx_def make_ctx_def buildRequest_def Let_def split_beta)

lemma sample_body [simp]: "ctx_body (sample_ctx m p ip hs b) = b"
  using sample_fresh(1) [of p ip hs b m]
  by (simp add: ctx_body_def get_body_def decoded_of_def coherent_def sample_request_def)

lemma sample_header [simp]:
  "ctx_header (sample_ctx m p ip hs b) n
    = map_of (buildHeaderLookup (map (\<lambda>(n, v). (text_encode n, text_encode v)) hs)) (toLowerCase n)"
  using coherent_header [OF sample_fresh(1)] by (simp add: sample_request_def)

text \<open>The same context with other shared state.\<close>

definition with_glob :: "'h \<Rightarrow> 'g ctx \<Rightarrow> 'h ctx" where
  "with_glob g c = \<lparr>cx_req = cx_req c, cx_res = cx_res c, cx_obj = cx_obj c,
     cx_serializer = cx_serializer c, cx_glob = g\<rparr>"

lemma with_glob_simps [simp]:
  "cx_req (with_glob g c) = cx_req c" "cx_res (with_glob g c) = cx_res c" "cx_glob (with_glob g c) = g"
  "ctx_ip (with_glob g c) = ctx_ip c" "ctx_body (with_glob g c) = ctx_body c"
  "ctx_header (with_glob g c) n = ctx_header c n" "res_finished (with_glob g c) = res_finished c"
  by (simp_all add: with_glob_def ctx_ip_def ctx_body_def ctx_header_def res_finished_def)

section \<open>Checkpoints and gates\<close>

text \<open>
  A checkpoint looks at the request and lets it through to \<open>next\<close>, answers it or throws; a gate is a
  checkpoint that never throws.
\<close>

datatype 'g verdict = PassOn "'g ctx" | StopHere "'g ctx" | FailWith error_value "'g ctx"

locale checkpoint =
  fixes mw :: "('g ctx, error_value) middleware"
    and verdict :: "'g ctx \<Rightarrow> 'g verdict"
  assumes takes_next: "needsNext mw"
    and runs: "exec (body mw) nx r =
      (case verdict (stt r) of
         PassOn c \<Rightarrow> nx (r\<lparr>stt := c\<rparr>)
       | StopHere c \<Rightarrow> (r\<lparr>stt := c\<rparr>, None)
       | FailWith e c \<Rightarrow> (r\<lparr>stt := c\<rparr>, Some (UserErr e)))"
begin

lemma chain_verdict:
  assumes "\<not> res_finished c"
  shows "run_to_end res_finished (mw # m # ms) c =
    (case verdict c of
       PassOn c' \<Rightarrow> Middleware.dispatch res_finished (m # ms) 1 \<lparr>idx = 0, entered = [0], stt = c'\<rparr>
     | StopHere c' \<Rightarrow> (\<lparr>idx = 0, entered = [0], stt = c'\<rparr>, None)
     | FailWith e c' \<Rightarrow> (\<lparr>idx = 0, entered = [0], stt = c'\<rparr>, Some (UserErr e)))"
proof -
  have "run_to_end res_finished (mw # m # ms) c
      = exec (body mw) (Middleware.dispatch res_finished (m # ms) (0 + 1)) \<lparr>idx = 0, entered = [0], stt = c\<rparr>"
    using assms takes_next by (simp add: run_to_end_simps start_run_def Let_def del: dispatch.simps)
      (simp add: Let_def)
  then show ?thesis
    unfolding runs by (auto split: verdict.split)
qed

end

locale gate =
  fixes mw :: "('g ctx, error_value) middleware"
    and passes :: "'g ctx \<Rightarrow> bool"
    and prepare :: "'g ctx \<Rightarrow> 'g ctx"
    and reject :: "'g ctx \<Rightarrow> 'g ctx"
  assumes takes_next: "needsNext mw"
    and lets_through: "passes (stt r) \<Longrightarrow> exec (body mw) nx r = nx (r\<lparr>stt := prepare (stt r)\<rparr>)"
    and stops: "\<not> passes (stt r) \<Longrightarrow> exec (body mw) nx r = (r\<lparr>stt := reject (stt r)\<rparr>, None)"

sublocale gate \<subseteq> point: checkpoint mw "\<lambda>c. if passes c then PassOn (prepare c) else StopHere (reject c)"
  by unfold_locales (simp_all add: takes_next lets_through stops)

context gate
begin

lemma rejected_goes_no_further:
  assumes "\<not> passes c" "\<not> res_finished c"
  shows "run_to_end res_finished (mw # m # ms) c
    = (\<lparr>idx = 0, entered = [0], stt = reject c\<rparr>, None)"
  using point.chain_verdict [OF assms(2)] assms(1) by simp

lemma passed_goes_on:
  assumes "passes c" "\<not> res_finished c"
  shows "run_to_end res_finished (mw # m # ms) c
    = Middleware.dispatch res_finished (m # ms) 1 \<lparr>idx = 0, entered = [0], stt = prepare c\<rparr>"
  using point.chain_verdict [OF assms(2)] assms(1) by simp

end

text \<open>
  A guard is a checkpoint whose \<open>try\<close> block encloses \<open>await next()\<close>: for a request that came in as
  \<open>c\<close>, \<open>recover c\<close> says which errors of the handlers behind it the \<open>catch\<close> block turns into a response.
\<close>

locale guard =
  fixes mw :: "('g ctx, error_value) middleware"
    and verdict :: "'g ctx \<Rightarrow> 'g verdict"
    and recover :: "'g ctx \<Rightarrow> error_value run_error \<Rightarrow> ('g ctx \<Rightarrow> 'g ctx) option"
  assumes takes_next: "needsNext mw"
    and runs: "exec (body mw) nx r =
      (case verdict (stt r) of
         PassOn c \<Rightarrow>
           (case nx (r\<lparr>stt := c\<rparr>) of
              (r', None) \<Rightarrow> (r', None)
            | (r', Some e) \<Rightarrow> (case recover (stt r) e of None \<Rightarrow> (r', Some e)
                             | Some f \<Rightarrow> (r'\<lparr>stt := f (stt r')\<rparr>, None)))
       | StopHere c \<Rightarrow> (r\<lparr>stt := c\<rparr>, None)
       | FailWith e c \<Rightarrow> (r\<lparr>stt := c\<rparr>, Some (UserErr e)))"
begin

lemma chain_guarded:
  assumes "\<not> res_finished c"
  shows "run_to_end res_finished (mw # m # ms) c =
    (case verdict c of
       PassOn c' \<Rightarrow>
         (case Middleware.dispatch res_finished (m # ms) 1 \<lparr>idx = 0, entered = [0], stt = c'\<rparr> of
            (r', None) \<Rightarrow> (r', None)
          | (r', Some e) \<Rightarrow> (case recover c e of None \<Rightarrow> (r', Some e)
                           | Some f \<Rightarrow> (r'\<lparr>stt := f (stt r')\<rparr>, None)))
     | StopHere c' \<Rightarrow> (\<lparr>idx = 0, entered = [0], stt = c'\<rparr>, None)
     | FailWith e c' \<Rightarrow> (\<lparr>idx = 0, entered = [0], stt = c'\<rparr>, Some (UserErr e)))"
proof -
  have "run_to_end res_finished (mw # m # ms) c
      = exec (body mw) (Middleware.dispatch res_finished (m # ms) (0 + 1)) \<lparr>idx = 0, entered = [0], stt = c\<rparr>"
    using assms takes_next by (simp add: run_to_end_simps start_run_def Let_def del: dispatch.simps)
      (simp add: Let_def)
  then show ?thesis
    unfolding runs by (auto split: verdict.split option.split prod.split simp del: dispatch.simps)
qed

lemma recovered_error:
  assumes "\<not> res_finished c" "verdict c = PassOn c'"
    and "Middleware.dispatch res_finished (m # ms) 1 \<lparr>idx = 0, entered = [0], stt = c'\<rparr> = (r', Some e)"
    and "recover c e = Some f"
  shows "run_to_end res_finished (mw # m # ms) c = (r'\<lparr>stt := f (stt r')\<rparr>, None)"
  using chain_guarded [OF assms(1), of m ms] assms(2-) by (simp del: dispatch.simps)

end

text \<open>The body of such a middleware.\<close>

definition guarded_body ::
  "('g ctx \<Rightarrow> 'g verdict) \<Rightarrow> ('g ctx \<Rightarrow> error_value run_error \<Rightarrow> ('g ctx \<Rightarrow> 'g ctx) option) \<Rightarrow> 'g behaviour" where
  "guarded_body verdict recover =
     Ask (\<lambda>c. case verdict c of
        PassOn c' \<Rightarrow> Act (\<lambda>_. c') (Next Return (\<lambda>e. map_option (\<lambda>f. Act f Return) (recover c e)))
      | StopHere c' \<Rightarrow> Act (\<lambda>_. c') Return
      | FailWith e c' \<Rightarrow> Act (\<lambda>_. c') (Throw e))"

lemma exec_guarded_body:
  "exec (guarded_body verdict recover) nx r =
      (case verdict (stt r) of
         PassOn c \<Rightarrow>
           (case nx (r\<lparr>stt := c\<rparr>) of
              (r', None) \<Rightarrow> (r', None)
            | (r', Some e) \<Rightarrow> (case recover (stt r) e of None \<Rightarrow> (r', Some e)
                             | Some f \<Rightarrow> (r'\<lparr>stt := f (stt r')\<rparr>, None)))
       | StopHere c \<Rightarrow> (r\<lparr>stt := c\<rparr>, None)
       | FailWith e c \<Rightarrow> (r\<lparr>stt := c\<rparr>, Some (UserErr e)))"
  by (auto simp: guarded_body_def split: verdict.split option.split prod.split)

text \<open>
  An observer works before \<open>await next()\<close> and, in a \<open>finally\<close> or \<open>catch\<close> block that throws the error
  again, after it.  \<open>enter\<close> and \<open>leave\<close> are its effects; \<open>leave\<close> sees the state at the entry and the
  error, if any.
\<close>

definition observer_body ::
  "('g ctx \<Rightarrow> 'g ctx) \<Rightarrow> ('g ctx \<Rightarrow> error_value option \<Rightarrow> 'g ctx \<Rightarrow> 'g ctx) \<Rightarrow> 'g behaviour" where
  "observer_body enter leave =
     Ask (\<lambda>c0. Act enter (Next (Act (leave c0 None) Return)
       (\<lambda>e. Some (Act (leave c0 (Some (run_error_value e))) (Throw (run_error_value e))))))"

locale observer =
  fixes mw :: "('g ctx, error_value) middleware"
    and enter :: "'g ctx \<Rightarrow> 'g ctx"
    and leave :: "'g ctx \<Rightarrow> error_value option \<Rightarrow> 'g ctx \<Rightarrow> 'g ctx"
  assumes takes_next: "needsNext mw"
    and observes: "exec (body mw) nx r =
      (case nx (r\<lparr>stt := enter (stt r)\<rparr>) of
         (r', None) \<Rightarrow> (r'\<lparr>stt := leave (stt r) None (stt r')\<rparr>, None)
       | (r', Some e) \<Rightarrow>
           (r'\<lparr>stt := leave (stt r) (Some (run_error_value e)) (stt r')\<rparr>, Some (UserErr (run_error_value e))))"
begin

lemma observed_chain:
  assumes "\<not> res_finished c"
    and "Middleware.dispatch res_finished (m # ms) 1 \<lparr>idx = 0, entered = [0], stt = enter c\<rparr> = (r', oe)"
  shows "run_to_end res_finished (mw # m # ms) c
    = (r'\<lparr>stt := leave c (map_option run_error_value oe) (stt r')\<rparr>, map_option (UserErr \<circ> run_error_value) oe)"
proof -
  have "run_to_end res_finished (mw # m # ms) c
      = exec (body mw) (Middleware.dispatch res_finished (m # ms) (0 + 1)) \<lparr>idx = 0, entered = [0], stt = c\<rparr>"
    using assms(1) takes_next by (simp add: run_to_end_simps start_run_def Let_def del: dispatch.simps)
      (simp add: Let_def)
  then show ?thesis
    unfolding observes using assms(2) by (cases oe) (simp_all del: dispatch.simps)
qed

lemma transparent:
  assumes "\<not> res_finished c"
  shows "map_option run_error_value (snd (run_to_end res_finished (mw # m # ms) c))
    = map_option run_error_value (snd (Middleware.dispatch res_finished (m # ms) 1 \<lparr>idx = 0, entered = [0], stt = enter c\<rparr>))"
proof -
  obtain r' oe where "Middleware.dispatch res_finished (m # ms) 1 \<lparr>idx = 0, entered = [0], stt = enter c\<rparr> = (r', oe)"
    by fastforce
  then show ?thesis
    using observed_chain [OF assms, of m ms r' oe] by (cases oe) (simp_all add: run_error_value_def del: dispatch.simps)
qed

end

lemma exec_observer_body:
  "exec (observer_body enter leave) nx r =
      (case nx (r\<lparr>stt := enter (stt r)\<rparr>) of
         (r', None) \<Rightarrow> (r'\<lparr>stt := leave (stt r) None (stt r')\<rparr>, None)
       | (r', Some e) \<Rightarrow>
           (r'\<lparr>stt := leave (stt r) (Some (run_error_value e)) (stt r')\<rparr>, Some (UserErr (run_error_value e))))"
  by (auto simp: observer_body_def split: option.split prod.split)

end
