(* ===== verification/IpFilter.thy ===== *)
theory IpFilter
  imports MiddlewareKit
begin

text \<open>
  The IP filter of \<open>src/src/ip-filter.js\<close>: addresses and CIDR ranges as 32-bit words, and the
  middleware that admits or denies a request by the address of its client.
\<close>

section \<open>Addresses and ranges\<close>

record cidr =
  cd_ip :: u32
  cd_mask :: u32

datatype cidr_error = InvalidAddress string | InvalidPrefix string

fun parse_octets :: "u32 \<Rightarrow> string list \<Rightarrow> u32 option" where
  "parse_octets acc [] = Some acc"
| "parse_octets acc (p # ps) =
     (case parseInt10 p of
        None \<Rightarrow> None
      | Some octet \<Rightarrow>
          if octet < 0 \<or> octet > 255 then None
          else parse_octets (push_bit 8 acc OR word_of_int octet) ps)"

definition parseIPv4 :: "string \<Rightarrow> u32 option" where
  "parseIPv4 ip =
     (let parts = split_on (CHR ''.'') ip in
      if length parts \<noteq> 4 then None else parse_octets 0 parts)"

definition prefix_mask :: "nat \<Rightarrow> u32" where
  "prefix_mask p = (if p = 0 then 0 else push_bit (32 - p) (NOT 0))"

definition parseCIDR :: "string \<Rightarrow> cidr_error + cidr" where
  "parseCIDR s =
     (let parts = split_on (CHR ''/'') s in
      case parseIPv4 (hd parts) of
        None \<Rightarrow> Inl (InvalidAddress s)
      | Some ip \<Rightarrow>
          (case (if length parts \<ge> 2 then parseInt10 (parts ! 1) else Some 32) of
             None \<Rightarrow> Inl (InvalidPrefix s)
           | Some p \<Rightarrow>
               if p < 0 \<or> p > 32 then Inl (InvalidPrefix s)
               else (let mask = prefix_mask (nat p) in Inr \<lparr>cd_ip = ip AND mask, cd_mask = mask\<rparr>)))"

definition matchesCIDR :: "u32 \<Rightarrow> cidr \<Rightarrow> bool" where
  "matchesCIDR ip rng \<longleftrightarrow> ip AND cd_mask rng = cd_ip rng"

definition extractIPv4 :: "string \<Rightarrow> u32 option" where
  "extractIPv4 ip =
     (if ip = [] then None
      else parseIPv4 (if startsWith ip ''::ffff:'' then drop 7 ip else ip))"

section \<open>The middleware\<close>

text \<open>A custom \<open>onDenied\<close> is its effect on the request context.\<close>

record 'g ip_options =
  io_allow :: "string list option"
  io_deny :: "string list option"
  io_trustProxy :: bool
  io_onDenied :: "('g ctx \<Rightarrow> 'g ctx) option"

record ip_ranges =
  ir_allow :: "cidr list"
  ir_deny :: "cidr list"

datatype ip_setup_error = BadRange cidr_error | NoRanges

fun parse_ranges :: "string list \<Rightarrow> cidr_error + cidr list" where
  "parse_ranges [] = Inr []"
| "parse_ranges (s # ss) = ebind (parseCIDR s) (\<lambda>r. ebind (parse_ranges ss) (\<lambda>rs. Inr (r # rs)))"

definition shouldDeny :: "ip_ranges \<Rightarrow> u32 \<Rightarrow> bool" where
  "shouldDeny rs ip =
     (let isDenied = list_ex (matchesCIDR ip) (ir_deny rs);
          isAllowed = (if length (ir_allow rs) > 0 then list_ex (matchesCIDR ip) (ir_allow rs) else True) in
      (isDenied \<and> \<not> isAllowed) \<or> (length (ir_allow rs) > 0 \<and> \<not> isAllowed))"

definition client_ip :: "bool \<Rightarrow> 'g ctx \<Rightarrow> string" where
  "client_ip trustProxy c =
     (if trustProxy
      then (case ctx_header c ''x-forwarded-for'' of
              None \<Rightarrow> ctx_ip c
            | Some xff \<Rightarrow> if xff = [] then ctx_ip c else trim (hd (split_on (CHR '','') xff)))
      else ctx_ip c)"

definition ip_admits :: "bool \<Rightarrow> ip_ranges \<Rightarrow> 'g ctx \<Rightarrow> bool" where
  "ip_admits trustProxy rs c =
     (case extractIPv4 (client_ip trustProxy c) of None \<Rightarrow> False | Some ip \<Rightarrow> \<not> shouldDeny rs ip)"

definition deny_effect :: "('g ctx \<Rightarrow> 'g ctx) option \<Rightarrow> 'g ctx \<Rightarrow> 'g ctx" where
  "deny_effect onDenied =
     (case onDenied of Some f \<Rightarrow> f | None \<Rightarrow> status_json (Fin 403) (error_json ''Forbidden''))"

definition ip_middleware :: "'g ip_options \<Rightarrow> ip_ranges \<Rightarrow> ('g ctx, error_value) middleware" where
  "ip_middleware opts rs =
     \<lparr>needsNext = True, isAsync = True,
      body = Ask (\<lambda>c. if ip_admits (io_trustProxy opts) rs c then pass
                      else Act (deny_effect (io_onDenied opts)) Return)\<rparr>"

definition ipFilter :: "'g ip_options \<Rightarrow> ip_setup_error + ('g ctx, error_value) middleware" where
  "ipFilter opts =
     (case parse_ranges (case io_allow opts of None \<Rightarrow> [] | Some xs \<Rightarrow> xs) of
        Inl e \<Rightarrow> Inl (BadRange e)
      | Inr al \<Rightarrow>
          (case parse_ranges (case io_deny opts of None \<Rightarrow> [] | Some xs \<Rightarrow> xs) of
             Inl e \<Rightarrow> Inl (BadRange e)
           | Inr de \<Rightarrow>
               if length al = 0 \<and> length de = 0 then Inl NoRanges
               else Inr (ip_middleware opts \<lparr>ir_allow = al, ir_deny = de\<rparr>)))"

interpretation ip_gate: gate "ip_middleware opts rs" "ip_admits (io_trustProxy opts) rs" id
  "deny_effect (io_onDenied opts)" for opts :: "'g ip_options" and rs
proof
  show "needsNext (ip_middleware opts rs)" by (simp add: ip_middleware_def)
next
  fix r :: "'g ctx run" and nx
  show "ip_admits (io_trustProxy opts) rs (stt r) \<Longrightarrow>
      exec (body (ip_middleware opts rs)) nx r = nx (r\<lparr>stt := id (stt r)\<rparr>)"
    by (simp add: ip_middleware_def beh_simps)
  show "\<not> ip_admits (io_trustProxy opts) rs (stt r) \<Longrightarrow>
      exec (body (ip_middleware opts rs)) nx r = (r\<lparr>stt := deny_effect (io_onDenied opts) (stt r)\<rparr>, None)"
    by (simp add: ip_middleware_def)
qed

section \<open>The text of an address\<close>

definition octet :: "nat \<Rightarrow> u32 \<Rightarrow> nat" where
  "octet k w = unat (drop_bit (8 * k) w AND 0xff)"

definition dotted :: "u32 \<Rightarrow> string" where
  "dotted w = join ''.'' (map (\<lambda>k. nat_digits (octet k w)) [3, 2, 1, 0])"

lemma octet_le: "octet k w \<le> 255"
proof -
  have "drop_bit (8 * k) w AND 0xff = take_bit 8 (drop_bit (8 * k) w)"
    unfolding ff_mask by (simp add: take_bit_eq_mask)
  then have "octet k w = take_bit 8 (unat (drop_bit (8 * k) w))"
    unfolding octet_def by (simp only: unsigned_take_bit_eq)
  then show ?thesis using take_bit_nat_less_exp [of 8 "unat (drop_bit (8 * k) w)"] by simp
qed

lemma octet_step: "push_bit 8 (drop_bit 8 x) OR (x AND 0xff) = (x :: u32)"
  unfolding ff_mask by (rule bit_word_eqI) (auto simp: bit_simps)

lemma octets_word:
  "push_bit 8 (push_bit 8 (push_bit 8 (push_bit 8 0 OR (drop_bit 24 w AND 0xff)) OR (drop_bit 16 w AND 0xff))
      OR (drop_bit 8 w AND 0xff)) OR (w AND 0xff) = (w :: u32)"
proof -
  have "push_bit 8 0 OR (drop_bit 24 w AND 0xff) = drop_bit 8 (drop_bit 16 w)"
    unfolding ff_mask by (rule bit_word_eqI) (auto simp: bit_simps dest: bit_imp_le_length)
  moreover have "drop_bit 16 w = drop_bit 8 (drop_bit 8 w)" by simp
  ultimately show ?thesis by (simp only: octet_step)
qed

lemma parse_octets_step:
  "n \<le> 255 \<Longrightarrow> parse_octets acc (nat_digits n # ps) = parse_octets (push_bit 8 acc OR of_nat n) ps"
  using parseInt10_nat_digits [of "[]" n] by simp

lemma no_sep: "c \<in> {CHR ''.'', CHR ''/''} \<Longrightarrow> c \<notin> set (nat_digits n)"
  using nat_digits_digits [of n] digit_not_special by blast

lemma split_dotted: "split_on (CHR ''.'') (dotted w) = map (\<lambda>k. nat_digits (octet k w)) [3, 2, 1, 0]"
  by (simp add: dotted_def split_on_sep split_on_single no_sep)

lemma parse_dotted: "parseIPv4 (dotted w) = Some w"
proof -
  have o: "(of_nat (octet k w) :: u32) = drop_bit (8 * k) w AND 0xff" for k
    by (simp add: octet_def)
  have "parseIPv4 (dotted w) = Some (push_bit 8 (push_bit 8 (push_bit 8 (push_bit 8 0
      OR of_nat (octet 3 w)) OR of_nat (octet 2 w)) OR of_nat (octet 1 w)) OR of_nat (octet 0 w))"
    unfolding parseIPv4_def split_dotted
    by (simp only: list.map parse_octets_step octet_le parse_octets.simps(1) Let_def) simp
  also have "\<dots> = Some w"
    using octets_word [of w] by (simp only: o) simp
  finally show ?thesis .
qed

section \<open>What a range matches\<close>

lemma masked_eq_iff:
  assumes "p \<le> 32"
  shows "(a :: u32) AND prefix_mask p = b AND prefix_mask p \<longleftrightarrow> drop_bit (32 - p) a = drop_bit (32 - p) b"
proof
  assume e: "a AND prefix_mask p = b AND prefix_mask p"
  show "drop_bit (32 - p) a = drop_bit (32 - p) b"
  proof (rule bit_word_eqI)
    fix n assume n: "n < LENGTH(32)"
    show "bit (drop_bit (32 - p) a) n = bit (drop_bit (32 - p) b) n"
    proof (cases "32 - p + n < 32")
      case True
      then have "bit (prefix_mask p) (32 - p + n)" by (auto simp: prefix_mask_def bit_simps)
      moreover have "bit (a AND prefix_mask p) (32 - p + n) = bit (b AND prefix_mask p) (32 - p + n)"
        by (simp only: e)
      ultimately show ?thesis by (simp add: bit_and_iff bit_drop_bit_eq)
    next
      case False
      then show ?thesis using bit_imp_le_length [of a] bit_imp_le_length [of b]
        by (auto simp: bit_drop_bit_eq)
    qed
  qed
next
  assume e: "drop_bit (32 - p) a = drop_bit (32 - p) b"
  show "a AND prefix_mask p = b AND prefix_mask p"
  proof (rule bit_word_eqI)
    fix n
    have "bit (prefix_mask p) n \<Longrightarrow> bit a n = bit b n"
    proof -
      assume "bit (prefix_mask p) n"
      then have "32 - p \<le> n" by (auto simp: prefix_mask_def bit_simps split: if_splits)
      moreover have "bit (drop_bit (32 - p) a) (n - (32 - p)) = bit (drop_bit (32 - p) b) (n - (32 - p))"
        by (simp only: e)
      ultimately show "bit a n = bit b n" by (simp add: bit_drop_bit_eq)
    qed
    then show "bit (a AND prefix_mask p) n = bit (b AND prefix_mask p) n" by (auto simp: bit_and_iff)
  qed
qed

lemma parseCIDR_text:
  assumes "p \<le> 32"
  shows "parseCIDR (dotted w @ ''/'' @ nat_digits p)
    = Inr \<lparr>cd_ip = w AND prefix_mask p, cd_mask = prefix_mask p\<rparr>"
proof -
  have "CHR ''/'' \<notin> set (dotted w)" by (simp add: dotted_def no_sep)
  then have "split_on (CHR ''/'') (dotted w @ ''/'' @ nat_digits p) = [dotted w, nat_digits p]"
    by (simp add: split_on_sep split_on_single no_sep)
  then show ?thesis
    using assms parseInt10_nat_digits [of "[]" p] by (simp add: parseCIDR_def parse_dotted Let_def)
qed

lemma mapped_address: "extractIPv4 (''::ffff:'' @ dotted w) = Some w"
  using parse_dotted by (simp add: extractIPv4_def startsWith_def)

text \<open>The verdict does not depend on the deny list.\<close>

lemma shouldDeny_allow: "shouldDeny rs ip \<longleftrightarrow> ir_allow rs \<noteq> [] \<and> \<not> list_ex (matchesCIDR ip) (ir_allow rs)"
  by (auto simp: shouldDeny_def Let_def)

section \<open>Properties\<close>

text \<open>the text of an address with a prefix length p parses to a range that matches exactly the addresses whose top p
  bits agree with it, for every prefix length from 0 to 32.\<close>

theorem cidr_matches_prefix:
  assumes "p \<le> 32"
  shows "\<exists>rng. parseCIDR (dotted w @ ''/'' @ nat_digits p) = Inr rng
    \<and> (\<forall>ip. matchesCIDR ip rng = (drop_bit (32 - p) ip = drop_bit (32 - p) w))"
  using parseCIDR_text [OF assms] masked_eq_iff [OF assms] by (simp add: matchesCIDR_def)

theorem cidr_matches_prefix_witness:
  "\<exists>rng. parseCIDR (dotted 0x0A000000 @ ''/'' @ nat_digits 8) = Inr rng
    \<and> (\<forall>ip. matchesCIDR ip rng = (drop_bit (32 - 8) ip = drop_bit (32 - 8) 0x0A000000))"
  by (rule cidr_matches_prefix) simp

text \<open>every 32-bit address survives printing and parsing, also in its IPv4-mapped form.\<close>

theorem address_round_trip:
  "parseIPv4 (dotted w) = Some w \<and> extractIPv4 (''::ffff:'' @ dotted w) = Some w"
  using parse_dotted mapped_address by blast

text \<open>the deny list has no effect: whether an address is denied is decided by the allow list alone, and with no
  allow list no address is denied, whatever the deny list says.\<close>

theorem deny_list_is_ignored:
  "shouldDeny (rs\<lparr>ir_deny := d\<rparr>) ip = shouldDeny rs ip \<and> \<not> shouldDeny \<lparr>ir_allow = [], ir_deny = d\<rparr> ip"
  by (simp add: shouldDeny_allow)

text \<open>a filter in front of a chain answers 403 itself and runs nothing behind it when the address of the client
  cannot be parsed or lies in no allowed range.\<close>

theorem filtered_request_stops:
  assumes "ipFilter opts = Inr mw" "io_onDenied opts = None" "ir_allow rs \<noteq> []"
    and "parse_ranges (case io_allow opts of None \<Rightarrow> [] | Some xs \<Rightarrow> xs) = Inr (ir_allow rs)"
    and "\<And>ip. extractIPv4 (client_ip (io_trustProxy opts) c) = Some ip \<Longrightarrow> \<not> list_ex (matchesCIDR ip) (ir_allow rs)"
    and "\<not> res_finished c"
  shows "run_to_end res_finished (mw # m # ms) c
    = (\<lparr>idx = 0, entered = [0], stt = status_json (Fin 403) (error_json ''Forbidden'') c\<rparr>, None)"
proof -
  obtain de where mw: "mw = ip_middleware opts \<lparr>ir_allow = ir_allow rs, ir_deny = de\<rparr>"
    using assms(1,3,4) by (auto simp: ipFilter_def split: sum.splits if_splits)
  have "\<not> ip_admits (io_trustProxy opts) \<lparr>ir_allow = ir_allow rs, ir_deny = de\<rparr> c"
    using assms(3,5) by (auto simp: ip_admits_def shouldDeny_allow split: option.split)
  then show ?thesis
    using ip_gate.rejected_goes_no_further assms(2,6) mw by (fastforce simp: deny_effect_def)
qed

definition sample_ip_options :: "nat ip_options" where
  "sample_ip_options =
     \<lparr>io_allow = Some [''10.0.0.0/8''], io_deny = None, io_trustProxy = False, io_onDenied = None\<rparr>"

lemma sample_ranges:
  "parse_ranges [''10.0.0.0/8''] = Inr [\<lparr>cd_ip = 0x0A000000, cd_mask = 0xFF000000\<rparr>]"
  by code_simp

theorem filtered_request_stops_witness:
  "\<exists>mw. ipFilter sample_ip_options = Inr mw \<and> run_to_end res_finished [mw, mw] (sample_ctx ''GET'' ''/'' ''192.168.0.7'' [] None)
    = (\<lparr>idx = 0, entered = [0], stt = status_json (Fin 403) (error_json ''Forbidden'')
         (sample_ctx ''GET'' ''/'' ''192.168.0.7'' [] None)\<rparr>, None)"
proof -
  let ?c = "sample_ctx ''GET'' ''/'' ''192.168.0.7'' [] None"
  let ?rs = "\<lparr>ir_allow = [\<lparr>cd_ip = 0x0A000000, cd_mask = 0xFF000000\<rparr>], ir_deny = []\<rparr>"
  have f: "ipFilter sample_ip_options = Inr (ip_middleware sample_ip_options ?rs)"
    by (simp add: ipFilter_def sample_ip_options_def sample_ranges del: parse_ranges.simps(2))
  have ip: "extractIPv4 ''192.168.0.7'' = Some 0xC0A80007" by code_simp
  have "run_to_end res_finished (ip_middleware sample_ip_options ?rs # ip_middleware sample_ip_options ?rs # []) ?c
    = (\<lparr>idx = 0, entered = [0], stt = status_json (Fin 403) (error_json ''Forbidden'') ?c\<rparr>, None)"
    by (rule filtered_request_stops [OF f, of ?rs])
      (simp_all add: sample_ip_options_def sample_ranges client_ip_def ip matchesCIDR_def del: parse_ranges.simps(2))
  then show ?thesis using f by blast
qed

end
