(* ===== verification/Cors.thy ===== *)
theory Cors
  imports MiddlewareKit
begin

text \<open>
  Cross-origin requests, \<open>src/src/cors.js\<close>: the matcher of origins and the middleware, which
  answers preflights itself and lets every other request through with or without the headers that
  allow its origin.
\<close>

section \<open>Options\<close>

datatype cors_origin =
    OriginString string
  | OriginFunction "string \<Rightarrow> bool"
  | OriginArray "string list"
  | OriginOther

datatype cors_list = OneString string | ManyStrings "string list"

record cors_options =
  co_origin :: "cors_origin option"
  co_methods :: "cors_list option"
  co_allowedHeaders :: "cors_list option"
  co_exposedHeaders :: "cors_list option"
  co_credentials :: bool
  co_maxAge :: "int option"
  co_preflight :: bool

definition DEFAULT_METHODS :: string where
  "DEFAULT_METHODS = ''GET,HEAD,PUT,PATCH,POST,DELETE''"

definition DEFAULT_HEADERS :: string where
  "DEFAULT_HEADERS = ''Content-Type,Authorization,Accept,X-Requested-With''"

definition cors_list_string :: "cors_list \<Rightarrow> string" where
  "cors_list_string l = (case l of ManyStrings xs \<Rightarrow> join '','' xs | OneString s \<Rightarrow> s)"

definition list_or :: "string \<Rightarrow> cors_list option \<Rightarrow> string" where
  "list_or d l = (case l of None \<Rightarrow> d | Some x \<Rightarrow> cors_list_string x)"

text \<open>An empty string is falsy, an empty array is not.\<close>

definition exposed_string :: "cors_list option \<Rightarrow> string option" where
  "exposed_string l =
     (case l of
        None \<Rightarrow> None
      | Some (OneString s) \<Rightarrow> if s = [] then None else Some s
      | Some (ManyStrings xs) \<Rightarrow> Some (join '','' xs))"

definition origin_of :: "cors_options \<Rightarrow> cors_origin" where
  "origin_of opts = (case co_origin opts of None \<Rightarrow> OriginString ''*'' | Some x \<Rightarrow> x)"

definition buildOriginMatcher :: "cors_origin \<Rightarrow> string \<Rightarrow> bool" where
  "buildOriginMatcher origin requestOrigin =
     (if origin = OriginString ''*'' then True
      else
        (case origin of
           OriginFunction f \<Rightarrow> f requestOrigin
         | OriginString s \<Rightarrow> requestOrigin = s
         | OriginArray xs \<Rightarrow> requestOrigin \<in> set xs
         | OriginOther \<Rightarrow> False))"

section \<open>The middleware\<close>

definition request_origin :: "'g ctx \<Rightarrow> string option" where
  "request_origin c =
     (case ctx_header c ''origin'' of Some v \<Rightarrow> Some v | None \<Rightarrow> ctx_headers_get c ''origin'')"

definition effective_origin :: "cors_options \<Rightarrow> string \<Rightarrow> string" where
  "effective_origin opts requestOrigin =
     (if origin_of opts = OriginString ''*'' \<and> \<not> co_credentials opts then ''*'' else requestOrigin)"

definition set_vary :: "'g ctx \<Rightarrow> 'g ctx" where
  "set_vary c =
     (case res_get ''vary'' (cx_res c) of
        Some existing \<Rightarrow>
          if existing \<noteq> []
          then (if \<not> contains (toLowerCase existing) ''origin''
                then set_header ''vary'' (existing @ '', Origin'') c else c)
          else set_header ''vary'' ''Origin'' c
      | None \<Rightarrow> set_header ''vary'' ''Origin'' c)"

definition allow_origin :: "cors_options \<Rightarrow> string \<Rightarrow> 'g ctx \<Rightarrow> 'g ctx" where
  "allow_origin opts requestOrigin c =
     (let eff = effective_origin opts requestOrigin;
          c1 = set_header ''Access-Control-Allow-Origin'' eff c;
          c2 = (if co_credentials opts then set_header ''Access-Control-Allow-Credentials'' ''true'' c1 else c1);
          c3 = (if eff \<noteq> ''*'' then set_vary c2 else c2) in
      case exposed_string (co_exposedHeaders opts) of
        Some s \<Rightarrow> if s \<noteq> [] then set_header ''Access-Control-Expose-Headers'' s c3 else c3
      | None \<Rightarrow> c3)"

definition preflight_headers :: "cors_options \<Rightarrow> 'g ctx \<Rightarrow> 'g ctx" where
  "preflight_headers opts c =
     (let c1 = set_header ''Access-Control-Allow-Methods'' (list_or DEFAULT_METHODS (co_methods opts)) c;
          c2 = set_header ''Access-Control-Allow-Headers'' (list_or DEFAULT_HEADERS (co_allowedHeaders opts)) c1 in
      case co_maxAge opts of
        Some a \<Rightarrow> set_header ''Access-Control-Max-Age'' (int_to_string a) c2
      | None \<Rightarrow> c2)"

definition allowed_origin :: "cors_options \<Rightarrow> 'g ctx \<Rightarrow> string option" where
  "allowed_origin opts c =
     (case request_origin c of
        None \<Rightarrow> None
      | Some requestOrigin \<Rightarrow>
          if requestOrigin = [] then None
          else if buildOriginMatcher (origin_of opts) requestOrigin then Some requestOrigin else None)"

definition is_preflight :: "cors_options \<Rightarrow> 'g ctx \<Rightarrow> bool" where
  "is_preflight opts c \<longleftrightarrow> co_preflight opts \<and> rq_method (cx_req c) = ''OPTIONS''"

definition send_empty :: "'g ctx \<Rightarrow> 'g ctx" where
  "send_empty c = on_res (\<lambda>st. res_send (cx_serializer c) SendNothing (res_status (Fin 204) st)) c"

definition cors :: "cors_options \<Rightarrow> ('g ctx, error_value) middleware" where
  "cors opts =
     \<lparr>needsNext = True, isAsync = True,
      body = Ask (\<lambda>c.
        case allowed_origin opts c of
          None \<Rightarrow> pass
        | Some requestOrigin \<Rightarrow>
            Act (allow_origin opts requestOrigin)
              (if is_preflight opts c then Act (preflight_headers opts) (Act send_empty Return)
               else pass))\<rparr>"

section \<open>The middleware as a gate\<close>

definition cors_passes :: "cors_options \<Rightarrow> 'g ctx \<Rightarrow> bool" where
  "cors_passes opts c \<longleftrightarrow> allowed_origin opts c = None \<or> \<not> is_preflight opts c"

definition cors_prepare :: "cors_options \<Rightarrow> 'g ctx \<Rightarrow> 'g ctx" where
  "cors_prepare opts c =
     (case allowed_origin opts c of None \<Rightarrow> c | Some requestOrigin \<Rightarrow> allow_origin opts requestOrigin c)"

definition cors_answer :: "cors_options \<Rightarrow> 'g ctx \<Rightarrow> 'g ctx" where
  "cors_answer opts c = send_empty (preflight_headers opts (cors_prepare opts c))"

interpretation cors_gate: gate "cors opts" "cors_passes opts" "cors_prepare opts" "cors_answer opts"
  for opts
proof
  show "needsNext (cors opts)" by (simp add: cors_def)
next
  fix r :: "'g ctx run" and nx
  show "cors_passes opts (stt r) \<Longrightarrow> exec (body (cors opts)) nx r = nx (r\<lparr>stt := cors_prepare opts (stt r)\<rparr>)"
    by (cases "allowed_origin opts (stt r)")
      (simp_all add: cors_def cors_passes_def cors_prepare_def exec_pass)
  show "\<not> cors_passes opts (stt r) \<Longrightarrow>
      exec (body (cors opts)) nx r = (r\<lparr>stt := cors_answer opts (stt r)\<rparr>, None)"
    by (auto simp: cors_def cors_passes_def cors_prepare_def cors_answer_def)
qed

section \<open>The headers\<close>

lemma clean_get: "clean_headers hs \<Longrightarrow> map_of hs n = Some v \<Longrightarrow> \<not> has_crlf v"
  by (auto simp: clean_headers_def clean_header_def dest: map_of_SomeD)

lemma plain_names:
  "toLowerCase ''vary'' = ''vary''" "toLowerCase ''Access-Control-Allow-Origin'' = ''access-control-allow-origin''"
  "toLowerCase ''Access-Control-Allow-Credentials'' = ''access-control-allow-credentials''"
  "toLowerCase ''Access-Control-Expose-Headers'' = ''access-control-expose-headers''"
  "toLowerCase ''access-control-allow-origin'' = ''access-control-allow-origin''"
  "toLowerCase ''access-control-allow-credentials'' = ''access-control-allow-credentials''"
  "\<not> has_crlf ''vary''" "\<not> has_crlf ''access-control-allow-origin''"
  "toLowerCase ''Access-Control-Allow-Methods'' = ''access-control-allow-methods''"
  "toLowerCase ''Access-Control-Allow-Headers'' = ''access-control-allow-headers''"
  "toLowerCase ''Access-Control-Max-Age'' = ''access-control-max-age''"
  "\<not> has_crlf ''access-control-allow-credentials''" "\<not> has_crlf ''Origin''" "\<not> has_crlf ''true''" "\<not> has_crlf ''*''"
  by code_simp+

text \<open>What \<open>Vary\<close> has to be afterwards.\<close>

definition varying :: "string option \<Rightarrow> string" where
  "varying old =
     (case old of
        None \<Rightarrow> ''Origin''
      | Some v \<Rightarrow> if v = [] then ''Origin'' else if contains (toLowerCase v) ''origin'' then v else v @ '', Origin'')"

lemma set_vary_header:
  assumes "\<And>v. res_get ''vary'' (cx_res c) = Some v \<Longrightarrow> \<not> has_crlf v"
  shows "res_get ''vary'' (cx_res (set_vary c)) = Some (varying (res_get ''vary'' (cx_res c)))"
proof -
  have "has_crlf (x @ '', Origin'') = has_crlf x" for x
    by (simp add: has_crlf_iff CR_def LF_def)
  then show ?thesis
    using assms by (auto simp: set_vary_def varying_def res_get_set plain_names split: option.split)
qed

lemma set_vary_other: "toLowerCase n \<noteq> ''vary'' \<Longrightarrow> res_get n (cx_res (set_vary c)) = res_get n (cx_res c)"
  by (simp add: set_vary_def res_get_set plain_names split: option.split)

lemmas cors_header_simps = allow_origin_def Let_def res_get_set plain_names set_vary_other

lemma allow_origin_header:
  assumes "\<not> has_crlf ro"
  shows "res_get ''access-control-allow-origin'' (cx_res (allow_origin opts ro c)) = Some (effective_origin opts ro)"
proof -
  have "\<not> has_crlf (effective_origin opts ro)" using assms by (simp add: effective_origin_def plain_names)
  then show ?thesis by (simp add: cors_header_simps split: option.split)
qed

lemma allow_origin_vary:
  assumes "clean_headers (rs_headers (cx_res c))"
  shows "res_get ''vary'' (cx_res (allow_origin opts ro c))
    = (if effective_origin opts ro = ''*'' then res_get ''vary'' (cx_res c) else Some (varying (res_get ''vary'' (cx_res c))))"
proof -
  let ?c1 = "set_header ''Access-Control-Allow-Origin'' (effective_origin opts ro) c"
  let ?c2 = "if co_credentials opts then set_header ''Access-Control-Allow-Credentials'' ''true'' ?c1 else ?c1"
  have old: "res_get ''vary'' (cx_res ?c2) = res_get ''vary'' (cx_res c)"
    by (simp add: res_get_set plain_names)
  have clean: "\<not> has_crlf v" if "res_get ''vary'' (cx_res ?c2) = Some v" for v
    using that assms clean_get unfolding old by (auto simp: res_get_def plain_names)
  have "res_get ''vary'' (cx_res (set_vary ?c2)) = Some (varying (res_get ''vary'' (cx_res c)))"
    unfolding old [symmetric] by (rule set_vary_header) (rule clean)
  then show ?thesis using old by (auto simp: allow_origin_def Let_def res_get_set plain_names split: option.split)
qed

lemma allow_origin_credentials:
  "res_get ''access-control-allow-credentials'' (cx_res (allow_origin opts ro c))
    = (if co_credentials opts then Some ''true'' else res_get ''access-control-allow-credentials'' (cx_res c))"
  by (simp add: cors_header_simps split: option.split)

lemma send_empty_get: "res_get n (cx_res (send_empty c)) = res_get n (cx_res c)"
  by (simp add: send_empty_def res_get_def res_send_def res_status_def)

lemma preflight_keeps:
  "n \<in> {''access-control-allow-origin'', ''access-control-allow-credentials'', ''vary''}
    \<Longrightarrow> res_get n (cx_res (send_empty (preflight_headers opts c))) = res_get n (cx_res c)"
  by (auto simp: send_empty_get preflight_headers_def Let_def res_get_set plain_names split: option.split)

lemma send_empty_answers:
  "\<not> res_finished c \<Longrightarrow> rs_status (cx_res (send_empty c)) = Fin 204 \<and> res_finished (send_empty c)"
  by (simp add: send_empty_def res_send_def res_status_def res_finished_def)

text \<open>The search for \<open>origin\<close> in \<open>vary\<close> is a substring search: another header name hides it.\<close>

lemma vary_substring:
  "res_get ''vary'' (cx_res c) = Some ''X-Original-Host'' \<Longrightarrow> set_vary c = c"
proof -
  have "contains (toLowerCase ''X-Original-Host'') ''origin''" by code_simp
  then show "res_get ''vary'' (cx_res c) = Some ''X-Original-Host'' \<Longrightarrow> set_vary c = c"
    by (simp add: set_vary_def)
qed

section \<open>Properties\<close>

text \<open>C28: The middleware in front of any others, for any options: a request without an allowed origin goes on
  unchanged.  For an allowed origin the response gets as \<open>Access-Control-Allow-Origin\<close> the star exactly if the option
  is the star without credentials, otherwise the origin of the request; credentials are allowed exactly if the option
  says so (or an earlier handler did); and unless the star is sent, \<open>Vary\<close> is \<open>Origin\<close>, or what it was with
  \<open>Origin\<close> behind it, unless the letters origin already stood in it.  A preflight is then answered with 204 and
  nothing behind the middleware runs; any other request goes on with these headers.\<close>

theorem cors_allows_only_this_origin:
  assumes "\<not> res_finished c" "clean_headers (rs_headers (cx_res c))" "\<And>v. request_origin c = Some v \<Longrightarrow> \<not> has_crlf v"
  shows "case allowed_origin opts c of
      None \<Rightarrow> run_to_end res_finished (cors opts # m # ms) c
        = Middleware.dispatch res_finished (m # ms) 1 \<lparr>idx = 0, entered = [0], stt = c\<rparr>
    | Some ro \<Rightarrow> \<exists>c'.
        (let sent = (if origin_of opts = OriginString ''*'' \<and> \<not> co_credentials opts then ''*'' else ro) in
          res_get ''access-control-allow-origin'' (cx_res c') = Some sent
          \<and> res_get ''vary'' (cx_res c')
            = (if sent = ''*'' then res_get ''vary'' (cx_res c) else Some (varying (res_get ''vary'' (cx_res c)))))
        \<and> res_get ''access-control-allow-credentials'' (cx_res c')
            = (if co_credentials opts then Some ''true'' else res_get ''access-control-allow-credentials'' (cx_res c))
        \<and> (if is_preflight opts c
            then run_to_end res_finished (cors opts # m # ms) c = (\<lparr>idx = 0, entered = [0], stt = c'\<rparr>, None)
              \<and> rs_status (cx_res c') = Fin 204 \<and> res_finished c'
            else run_to_end res_finished (cors opts # m # ms) c
              = Middleware.dispatch res_finished (m # ms) 1 \<lparr>idx = 0, entered = [0], stt = c'\<rparr>)"
proof (cases "allowed_origin opts c")
  case None
  then show ?thesis
    using cors_gate.passed_goes_on [of opts c m ms] assms(1) by (simp add: cors_passes_def cors_prepare_def)
next
  case (Some ro)
  let ?a = "allow_origin opts ro c"
  have "\<not> has_crlf ro" using Some assms(3) by (auto simp: allowed_origin_def split: option.splits if_splits)
  note hs = allow_origin_header [OF this, of opts c] allow_origin_vary [OF assms(2), of opts ro]
    allow_origin_credentials [of opts ro c]
  show ?thesis
  proof (cases "is_preflight opts c")
    case True
    have open': "\<not> res_finished (preflight_headers opts ?a)"
      using assms(1) by (simp add: preflight_headers_def allow_origin_def set_vary_def Let_def split: option.split)
    have "run_to_end res_finished (cors opts # m # ms) c
        = (\<lparr>idx = 0, entered = [0], stt = send_empty (preflight_headers opts ?a)\<rparr>, None)"
      using cors_gate.rejected_goes_no_further [of opts c m ms] True Some assms(1)
      by (simp add: cors_passes_def cors_answer_def cors_prepare_def)
    then show ?thesis
      using Some True hs send_empty_answers [OF open'] unfolding Some option.case
      by (intro exI [of _ "send_empty (preflight_headers opts ?a)"]) (simp add: preflight_keeps effective_origin_def Let_def)
  next
    case False
    have "run_to_end res_finished (cors opts # m # ms) c
        = Middleware.dispatch res_finished (m # ms) 1 \<lparr>idx = 0, entered = [0], stt = ?a\<rparr>"
      using cors_gate.passed_goes_on [of opts c m ms] False Some assms(1) by (simp add: cors_passes_def cors_prepare_def)
    then show ?thesis
      using hs False unfolding Some option.case
      by (intro exI [of _ ?a]) (simp add: effective_origin_def Let_def del: dispatch.simps)
  qed
qed

text \<open>a request from an origin that is not allowed goes on unchanged; a preflight from an allowed origin is answered
  with 204 and nothing behind the middleware runs.\<close>

theorem cors_preflight_and_refusal:
  assumes "\<not> res_finished c"
  shows "(allowed_origin opts c = None \<longrightarrow>
      run_to_end res_finished (cors opts # m # ms) c
        = Middleware.dispatch res_finished (m # ms) 1 \<lparr>idx = 0, entered = [0], stt = c\<rparr>)
    \<and> (allowed_origin opts c \<noteq> None \<and> is_preflight opts c \<longrightarrow>
      run_to_end res_finished (cors opts # m # ms) c
        = (\<lparr>idx = 0, entered = [0], stt = cors_answer opts c\<rparr>, None))"
  using cors_gate.passed_goes_on [of opts c m ms] cors_gate.rejected_goes_no_further [of opts c m ms] assms
  by (auto simp: cors_passes_def cors_prepare_def)

definition sample_cors :: cors_options where
  "sample_cors =
     \<lparr>co_origin = Some (OriginArray [''https://a.example'']), co_methods = None, co_allowedHeaders = None,
      co_exposedHeaders = None, co_credentials = True, co_maxAge = Some 600, co_preflight = True\<rparr>"

lemma sample_origin:
  "allowed_origin sample_cors (sample_ctx m p ip [(''Origin'', ''https://a.example'')] b) = Some ''https://a.example''"
proof -
  have "map_of (buildHeaderLookup [(text_encode ''Origin'', text_encode ''https://a.example'')])
      (toLowerCase ''origin'') = Some ''https://a.example''" by code_simp
  then show ?thesis
    by (simp add: allowed_origin_def request_origin_def sample_cors_def origin_of_def buildOriginMatcher_def)
qed

theorem cors_allows_only_this_origin_witness:
  "\<exists>c'. run_to_end res_finished [cors sample_cors, cors sample_cors]
        (sample_ctx ''OPTIONS'' ''/'' ''10.0.0.1'' [(''Origin'', ''https://a.example'')] None)
      = (\<lparr>idx = 0, entered = [0], stt = c'\<rparr>, None)
    \<and> res_get ''access-control-allow-origin'' (cx_res c') = Some ''https://a.example''
    \<and> res_get ''vary'' (cx_res c') = Some ''Origin''"
proof -
  let ?c = "sample_ctx ''OPTIONS'' ''/'' ''10.0.0.1'' [(''Origin'', ''https://a.example'')] None :: nat ctx"
  have h: "clean_headers (rs_headers (cx_res ?c))" "res_get ''vary'' (cx_res ?c) = None"
    by (simp_all add: sample_fresh fresh_state_def clean_headers_def res_get_def)
  have "request_origin ?c = Some ''https://a.example''"
    using sample_origin [of "''OPTIONS''" "''/''" "''10.0.0.1''" None] by (auto simp: allowed_origin_def split: option.splits if_splits)
  then have n: "\<And>v. request_origin ?c = Some v \<Longrightarrow> \<not> has_crlf v" by (simp, code_simp)
  show ?thesis
    using cors_allows_only_this_origin [OF sample_open h(1) n, of sample_cors "cors sample_cors" "[]"] sample_origin h(2)
    by (auto simp: is_preflight_def sample_cors_def origin_of_def varying_def Let_def)
qed

theorem cors_preflight_and_refusal_witness:
  "run_to_end res_finished [cors sample_cors, cors sample_cors]
     (sample_ctx ''OPTIONS'' ''/'' ''10.0.0.1'' [(''Origin'', ''https://a.example'')] None)
   = (\<lparr>idx = 0, entered = [0], stt = cors_answer sample_cors
        (sample_ctx ''OPTIONS'' ''/'' ''10.0.0.1'' [(''Origin'', ''https://a.example'')] None)\<rparr>, None)"
  using cors_preflight_and_refusal [OF sample_open] sample_origin
  by (simp add: is_preflight_def sample_cors_def)

end
