(* ===== verification/Csrf.thy ===== *)
theory Csrf
  imports MiddlewareKit
begin

text \<open>
  Protection against request forgery, \<open>src/src/csrf.js\<close>: the double-submit cookie.  The random
  token of a new visitor and \<open>JSON.parse\<close> are parameters.
\<close>

section \<open>Cookies\<close>

record csrf_cookie =
  cc_name :: string
  cc_httpOnly :: bool
  cc_sameSite :: string
  cc_secure :: bool
  cc_path :: "string option"
  cc_maxAge :: "int option"

definition default_csrf_cookie :: csrf_cookie where
  "default_csrf_cookie =
     \<lparr>cc_name = ''_csrf'', cc_httpOnly = True, cc_sameSite = ''strict'', cc_secure = False,
      cc_path = Some ''/'', cc_maxAge = None\<rparr>"

definition buildSetCookie :: "string \<Rightarrow> string \<Rightarrow> csrf_cookie \<Rightarrow> string" where
  "buildSetCookie name v opts =
     (let c0 = name @ ''='' @ v @ ''; Path='' @ (case cc_path opts of Some p \<Rightarrow> p | None \<Rightarrow> ''/'');
          c1 = (if cc_httpOnly opts then c0 @ ''; HttpOnly'' else c0);
          c2 = (if cc_secure opts then c1 @ ''; Secure'' else c1);
          c3 = (if cc_sameSite opts \<noteq> [] then c2 @ ''; SameSite='' @ cc_sameSite opts else c2) in
      case cc_maxAge opts of Some a \<Rightarrow> c3 @ ''; Max-Age='' @ int_to_string a | None \<Rightarrow> c3)"

fun find_cookie :: "string \<Rightarrow> string list \<Rightarrow> string option" where
  "find_cookie name_eq [] = None"
| "find_cookie name_eq (p # ps) =
     (let trimmed = trim p in
      if startsWith trimmed name_eq then Some (drop (length name_eq) trimmed) else find_cookie name_eq ps)"

definition parseCookieValue :: "string option \<Rightarrow> string \<Rightarrow> string option" where
  "parseCookieValue cookieHeader name =
     (case cookieHeader of
        None \<Rightarrow> None
      | Some h \<Rightarrow> if h = [] then None else find_cookie (name @ ''='') (split_on (CHR '';'') h))"

section \<open>Tokens\<close>

text \<open>\<open>timingSafeEqual\<close> throws on buffers of different length; the \<open>catch\<close> answers \<open>false\<close>.\<close>

definition safeTokenEquals :: "string option \<Rightarrow> string option \<Rightarrow> bool" where
  "safeTokenEquals a b =
     (case (a, b) of
        (Some x, Some y) \<Rightarrow> length x = length y \<and> text_encode x = text_encode y
      | _ \<Rightarrow> False)"

text \<open>\<open>parsed[field]\<close>, as far as the result can be a string.\<close>

definition string_member :: "json \<Rightarrow> string \<Rightarrow> string option" where
  "string_member j field =
     (case j of
        JObj ms \<Rightarrow> (case map_of ms field of Some (JStr s) \<Rightarrow> Some s | _ \<Rightarrow> None)
      | JArr xs \<Rightarrow>
          (case find (\<lambda>i. nat_digits i = field) [0..<length xs] of
             Some i \<Rightarrow> (case xs ! i of JStr s \<Rightarrow> Some s | _ \<Rightarrow> None)
           | None \<Rightarrow> None)
      | _ \<Rightarrow> None)"

section \<open>The middleware\<close>

record csrf_options =
  cs_cookie :: csrf_cookie
  cs_ignoreMethods :: "string list option"
  cs_tokenHeader :: "string option"
  cs_tokenField :: "string option"

definition SAFE_METHODS :: "string list" where
  "SAFE_METHODS = [''GET'', ''HEAD'', ''OPTIONS'']"

definition ignored_methods :: "csrf_options \<Rightarrow> string list" where
  "ignored_methods opts =
     (case cs_ignoreMethods opts of Some ms \<Rightarrow> map toUpperCase ms | None \<Rightarrow> SAFE_METHODS)"

definition token_header :: "csrf_options \<Rightarrow> string" where
  "token_header opts = toLowerCase (case cs_tokenHeader opts of Some h \<Rightarrow> h | None \<Rightarrow> ''x-csrf-token'')"

definition token_field :: "csrf_options \<Rightarrow> string" where
  "token_field opts = (case cs_tokenField opts of Some f \<Rightarrow> f | None \<Rightarrow> ''_csrf'')"

definition csrf_cookie_value :: "csrf_options \<Rightarrow> 'g ctx \<Rightarrow> string option" where
  "csrf_cookie_value opts c = parseCookieValue (ctx_header c ''cookie'') (cc_name (cs_cookie opts))"

text \<open>The token of the request, and the context once the token is set and exposed.\<close>

definition csrf_token :: "('g ctx \<Rightarrow> string) \<Rightarrow> csrf_options \<Rightarrow> 'g ctx \<Rightarrow> string" where
  "csrf_token generateToken opts c =
     (if truthy_str (csrf_cookie_value opts c) then the (csrf_cookie_value opts c) else generateToken c)"

definition csrf_prepare :: "('g ctx \<Rightarrow> string) \<Rightarrow> csrf_options \<Rightarrow> 'g ctx \<Rightarrow> 'g ctx" where
  "csrf_prepare generateToken opts c =
     (let token = csrf_token generateToken opts c;
          c1 = (if truthy_str (csrf_cookie_value opts c) then c
                else set_header ''set-cookie'' (buildSetCookie (cc_name (cs_cookie opts)) token (cs_cookie opts)) c) in
      set_extra ''csrfToken'' (JStr token) c1)"

definition body_token :: "(string \<Rightarrow> string + json) \<Rightarrow> csrf_options \<Rightarrow> 'g ctx \<Rightarrow> string option" where
  "body_token jsonParse opts c =
     (case ctx_body c of
        None \<Rightarrow> None
      | Some b \<Rightarrow>
          if b = [] then None
          else (case jsonParse (text_decode b) of
                  Inl e \<Rightarrow> None
                | Inr parsed \<Rightarrow> string_member parsed (token_field opts)))"

definition csrf_passes ::
  "(string \<Rightarrow> string + json) \<Rightarrow> ('g ctx \<Rightarrow> string) \<Rightarrow> csrf_options \<Rightarrow> 'g ctx \<Rightarrow> bool" where
  "csrf_passes jsonParse generateToken opts c \<longleftrightarrow>
     rq_method (cx_req c) \<in> set (ignored_methods opts)
     \<or> safeTokenEquals (ctx_header c (token_header opts)) (Some (csrf_token generateToken opts c))
     \<or> safeTokenEquals (body_token jsonParse opts c) (Some (csrf_token generateToken opts c))"

definition csrf_mismatch :: json where
  "csrf_mismatch =
     JObj [(''error'', JStr ''Forbidden''), (''code'', JStr ''CSRF_TOKEN_MISMATCH''),
       (''message'', JStr ''CSRF token validation failed'')]"

definition csrf ::
  "(string \<Rightarrow> string + json) \<Rightarrow> ('g ctx \<Rightarrow> string) \<Rightarrow> csrf_options \<Rightarrow> ('g ctx, error_value) middleware" where
  "csrf jsonParse generateToken opts =
     \<lparr>needsNext = True, isAsync = True,
      body = Ask (\<lambda>c.
        Act (csrf_prepare generateToken opts)
          (if csrf_passes jsonParse generateToken opts c then pass
           else Act (status_json (Fin 403) csrf_mismatch) Return))\<rparr>"

interpretation csrf_gate: gate "csrf jsonParse generateToken opts" "csrf_passes jsonParse generateToken opts"
    "csrf_prepare generateToken opts"
    "\<lambda>c. status_json (Fin 403) csrf_mismatch (csrf_prepare generateToken opts c)"
  for jsonParse generateToken opts
  by unfold_locales (simp_all add: csrf_def exec_pass)

section \<open>Comparing and finding tokens\<close>

lemma safeTokenEquals_iff: "safeTokenEquals a (Some t) \<longleftrightarrow> a = Some t"
  by (cases a) (auto simp: safeTokenEquals_def)

lemma find_cookie_map: "map trim ps = map trim qs \<Longrightarrow> find_cookie k ps = find_cookie k qs"
proof (induction ps arbitrary: qs)
  case Nil
  then show ?case by simp
next
  case (Cons p ps)
  then obtain q qs' where "qs = q # qs'" "trim p = trim q" "map trim ps = map trim qs'"
    by (cases qs) auto
  with Cons.IH [of qs'] show ?case by (simp add: Let_def)
qed

lemma find_cookie_pairs:
  assumes "\<forall>p\<in>set ps. cookie_pair_ok p" "CHR ''='' \<notin> set name"
  shows "find_cookie (name @ ''='') (map pair_text ps) = map_of ps name"
  using assms(1)
proof (induction ps)
  case (Cons p ps)
  obtain n v where p: "p = (n, v)" by (cases p)
  have "trim (pair_text p) = pair_text p" using pair_text_ok [of p] Cons.prems by simp
  moreover have "startsWith (pair_text (n, v)) (name @ ''='') \<longleftrightarrow> n = name"
    using cookie_prefix assms(2) Cons.prems p by (auto simp: cookie_pair_ok_def)
  ultimately show ?case using Cons by (auto simp: p pair_text_def)
qed simp

lemma map_trim_twice: "map trim ps = qs \<Longrightarrow> \<forall>q\<in>set qs. trim q = q \<Longrightarrow> map trim ps = map trim qs"
  by (induction ps arbitrary: qs) auto

lemma parseCookieValue_lookup:
  assumes "\<forall>p\<in>set ps. cookie_pair_ok p" "ps \<noteq> []" "CHR ''='' \<notin> set name"
  shows "parseCookieValue (Some (cookie_text ps)) name = map_of ps name"
proof -
  have "map trim (split_on (CHR '';'') (cookie_text ps)) = map trim (map pair_text ps)"
    by (rule map_trim_twice [OF cookie_parts [OF assms(1,2)]]) (use assms(1) pair_text_ok in auto)
  then have "find_cookie (name @ ''='') (split_on (CHR '';'') (cookie_text ps)) = map_of ps name"
    using find_cookie_map find_cookie_pairs [OF assms(1,3)] by metis
  moreover have "cookie_text ps \<noteq> []"
    using assms(2) by (cases ps; cases "tl ps") (auto simp: cookie_text_def pair_text_def)
  ultimately show ?thesis by (simp add: parseCookieValue_def)
qed

section \<open>Properties\<close>

text \<open>a cookie header that lists pairs parses to the value of the first pair with the name, whatever stands before and
  after it.\<close>

theorem cookie_lookup:
  assumes "\<forall>p\<in>set ps. cookie_pair_ok p" "ps \<noteq> []" "CHR ''='' \<notin> set name"
  shows "parseCookieValue (Some (cookie_text ps)) name = map_of ps name"
  using parseCookieValue_lookup [OF assms] .

theorem cookie_lookup_witness:
  "parseCookieValue (Some (cookie_text [(''a'', ''1''), (''_csrf'', ''t''), (''_csrf'', ''u'')])) ''_csrf''
    = map_of [(''a'', ''1''), (''_csrf'', ''t''), (''_csrf'', ''u'')] ''_csrf''"
  by (rule cookie_lookup) (simp_all add: cookie_pair_ok_def is_ws_def)

text \<open>C27: a request with a method that is not ignored gets past the middleware exactly when it repeats the token, of its
  cookie or a fresh one, in the header or in a JSON body; otherwise it is answered with 403 and nothing
  behind the middleware runs.\<close>

theorem forged_request_is_stopped:
  assumes "rq_method (cx_req c) \<notin> set (ignored_methods opts)" "\<not> res_finished c"
    and "token = csrf_token generateToken opts c"
  shows "run_to_end res_finished (csrf jsonParse generateToken opts # m # ms) c
    = (if ctx_header c (token_header opts) = Some token \<or> body_token jsonParse opts c = Some token
       then Middleware.dispatch res_finished (m # ms) 1
         \<lparr>idx = 0, entered = [0], stt = csrf_prepare generateToken opts c\<rparr>
       else (\<lparr>idx = 0, entered = [0],
         stt = status_json (Fin 403) csrf_mismatch (csrf_prepare generateToken opts c)\<rparr>, None))"
  using csrf_gate.passed_goes_on [of jsonParse generateToken opts c m ms]
    csrf_gate.rejected_goes_no_further [of jsonParse generateToken opts c m ms] assms
  by (auto simp: csrf_passes_def safeTokenEquals_iff)

definition sample_csrf :: csrf_options where
  "sample_csrf = \<lparr>cs_cookie = default_csrf_cookie, cs_ignoreMethods = None, cs_tokenHeader = None, cs_tokenField = None\<rparr>"

definition forged_ctx :: "nat ctx" where
  "forged_ctx = sample_ctx ''POST'' ''/transfer'' ''10.0.0.1''
     [(''Cookie'', ''_csrf=right''), (''X-Csrf-Token'', ''wrong'')] None"

theorem forged_request_is_stopped_witness:
  "run_to_end res_finished [csrf Inl (\<lambda>_. ''fresh'') sample_csrf, csrf Inl (\<lambda>_. ''fresh'') sample_csrf] forged_ctx
    = (\<lparr>idx = 0, entered = [0],
        stt = status_json (Fin 403) csrf_mismatch (csrf_prepare (\<lambda>_. ''fresh'') sample_csrf forged_ctx)\<rparr>, None)"
proof -
  have h: "ctx_header forged_ctx ''cookie'' = Some ''_csrf=right''" "ctx_header forged_ctx ''x-csrf-token'' = Some ''wrong''"
    unfolding forged_ctx_def sample_header by code_simp+
  have l: "token_header sample_csrf = ''x-csrf-token''" by code_simp
  have p: "parseCookieValue (Some ''_csrf=right'') ''_csrf'' = Some ''right''" by code_simp
  have t: "csrf_token (\<lambda>_. ''fresh'') sample_csrf forged_ctx = ''right''"
    by (simp add: csrf_token_def csrf_cookie_value_def h sample_csrf_def default_csrf_cookie_def p truthy_str_def)
  have "rq_method (cx_req forged_ctx) \<notin> set (ignored_methods sample_csrf)" "\<not> res_finished forged_ctx"
    "body_token Inl sample_csrf forged_ctx = None"
    by (simp_all add: forged_ctx_def ignored_methods_def sample_csrf_def SAFE_METHODS_def body_token_def)
  then show ?thesis
    using forged_request_is_stopped [of forged_ctx sample_csrf "''right''" "\<lambda>_. ''fresh''" Inl] by (simp add: t h l)
qed

end
