(* ===== verification/BodyLimit.thy ===== *)
theory BodyLimit
  imports MiddlewareKit
begin

text \<open>
  The limit on request bodies, \<open>src/src/body-limit.js\<close>: the parser of sizes such as \<open>50mb\<close> and the
  middleware that refuses a body that is declared or found to be larger.
\<close>

section \<open>Sizes\<close>

datatype size_input = SizeNumber jnum | SizeText string | SizeOther

datatype size_error = NegativeSize | NotASize | InvalidSize string

text \<open>
  The match of \<open>(\d+(?:\.\d+)?)\s*(b|kb|mb|gb)?\<close> against the whole text: the integer digits,
  the digits after the point and the unit.  A point without digits after it matches nothing.
\<close>

definition match_number :: "string \<Rightarrow> (string \<times> string \<times> string) option" where
  "match_number s =
     (let ds = takeWhile is_digit s; r = dropWhile is_digit s in
      if ds = [] then None
      else
        (case r of
           c # cs \<Rightarrow>
             if c = CHR ''.'' \<and> takeWhile is_digit cs \<noteq> []
             then Some (ds, takeWhile is_digit cs, dropWhile is_digit cs) else Some (ds, [], r)
         | [] \<Rightarrow> Some (ds, [], [])))"

definition match_size :: "string \<Rightarrow> (string \<times> string \<times> string) option" where
  "match_size s =
     (case match_number s of
        None \<Rightarrow> None
      | Some (ds, fs, r) \<Rightarrow>
          (let unit = toLowerCase (dropWhile is_ws r) in
           if unit \<in> {[], ''b'', ''kb'', ''mb'', ''gb''} then Some (ds, fs, unit) else None))"

definition decimal_value :: "string \<Rightarrow> string \<Rightarrow> rat" where
  "decimal_value ds fs = of_nat (digits_val ds) + of_nat (digits_val fs) / 10 ^ length fs"

definition SIZE_UNITS :: "string \<Rightarrow> rat" where
  "SIZE_UNITS unit =
     (if unit = ''kb'' then 1024 else if unit = ''mb'' then 1024 * 1024
      else if unit = ''gb'' then 1024 * 1024 * 1024 else 1)"

definition parseSize :: "size_input \<Rightarrow> size_error + int" where
  "parseSize input =
     (case input of
        SizeNumber (Fin r) \<Rightarrow> if r < 0 then Inl NegativeSize else Inr \<lfloor>r\<rfloor>
      | SizeNumber _ \<Rightarrow> Inl NegativeSize
      | SizeOther \<Rightarrow> Inl NotASize
      | SizeText t \<Rightarrow>
          (case match_size (trim t) of
             None \<Rightarrow> Inl (InvalidSize t)
           | Some (ds, fs, unit) \<Rightarrow> Inr \<lfloor>decimal_value ds fs * SIZE_UNITS unit\<rfloor>))"

section \<open>The middleware\<close>

text \<open>An integer text whose value rounds to \<open>Infinity\<close> is not finite.\<close>

definition finite_double :: "int \<Rightarrow> bool" where
  "finite_double n \<longleftrightarrow> \<bar>n\<bar> < 2 ^ 1024 - 2 ^ 970"

definition declared_too_large :: "int \<Rightarrow> 'g ctx \<Rightarrow> bool" where
  "declared_too_large maxBytes c =
     (case ctx_header c ''content-length'' of
        None \<Rightarrow> False
      | Some t \<Rightarrow> (case parseInt10 t of None \<Rightarrow> False | Some n \<Rightarrow> finite_double n \<and> n > maxBytes))"

definition body_too_large :: "int \<Rightarrow> 'g ctx \<Rightarrow> bool" where
  "body_too_large maxBytes c =
     (case ctx_body c of None \<Rightarrow> False | Some b \<Rightarrow> int (length b) > maxBytes)"

definition too_large_reply :: "'g ctx \<Rightarrow> 'g ctx" where
  "too_large_reply = status_json (Fin 413) (error_json ''Payload Too Large'')"

definition limit_middleware :: "int \<Rightarrow> ('g ctx, error_value) middleware" where
  "limit_middleware maxBytes =
     \<lparr>needsNext = True, isAsync = True,
      body = Ask (\<lambda>c. if declared_too_large maxBytes c then Act too_large_reply Return
               else if body_too_large maxBytes c then Act too_large_reply Return
               else pass)\<rparr>"

definition bodyLimit :: "size_input \<Rightarrow> size_error + ('g ctx, error_value) middleware" where
  "bodyLimit limit = ebind (parseSize limit) (\<lambda>maxBytes. Inr (limit_middleware maxBytes))"

interpretation limit_gate: gate "limit_middleware maxBytes"
    "\<lambda>c. \<not> declared_too_large maxBytes c \<and> \<not> body_too_large maxBytes c" id too_large_reply
  for maxBytes
  by unfold_locales (auto simp: limit_middleware_def exec_pass)

section \<open>Reading sizes\<close>

lemma digits_split:
  assumes "\<forall>c\<in>set ds. is_digit c" "rest = [] \<or> \<not> is_digit (hd rest)"
  shows "takeWhile is_digit (ds @ rest) = ds" "dropWhile is_digit (ds @ rest) = rest"
  using assms by (cases rest; simp add: takeWhile_append dropWhile_append)+

lemma not_digit_point: "\<not> is_digit (CHR ''.'')" by code_simp

lemma match_whole:
  assumes "\<forall>c\<in>set ds. is_digit c" "ds \<noteq> []" "rest = [] \<or> \<not> is_digit (hd rest) \<and> hd rest \<noteq> CHR ''.''"
  shows "match_number (ds @ rest) = Some (ds, [], rest)"
proof (cases rest)
  case Nil
  have "takeWhile is_digit ds = ds" "dropWhile is_digit ds = []" using assms(1) by simp_all
  note e = this
  show ?thesis unfolding match_number_def Let_def Nil append_Nil2 e using assms(2) by simp
next
  case (Cons c cs)
  then show ?thesis
    using assms(2,3) digits_split [OF assms(1), of rest] by (simp add: match_number_def Let_def)
qed

lemma match_fraction:
  assumes "\<forall>c\<in>set ds. is_digit c" "ds \<noteq> []" "\<forall>c\<in>set fs. is_digit c" "fs \<noteq> []" "rest = [] \<or> \<not> is_digit (hd rest)"
  shows "match_number (ds @ CHR ''.'' # fs @ rest) = Some (ds, fs, rest)"
  using digits_split [OF assms(1), of "CHR ''.'' # fs @ rest"] digits_split [OF assms(3,5)] assms(2,4)
  by (simp add: match_number_def Let_def not_digit_point)

definition size_units :: "string list" where
  "size_units = [[], ''b'', ''kb'', ''mb'', ''gb'', ''B'', ''KB'', ''MB'', ''GB'', ''Kb'', ''Mb'', ''Gb'']"

definition unit_text_ok :: "string \<Rightarrow> bool" where
  "unit_text_ok u \<longleftrightarrow> (u = [] \<or> \<not> is_digit (hd u) \<and> hd u \<noteq> CHR ''.'' \<and> \<not> is_ws (hd u))
     \<and> (\<forall>c\<in>set u. \<not> is_ws c) \<and> toLowerCase u \<in> {[], ''b'', ''kb'', ''mb'', ''gb''}"

lemma units_ok: "list_all unit_text_ok size_units"
  by code_simp

lemma unit_ok: "u \<in> set size_units \<Longrightarrow> unit_text_ok u"
  using units_ok by (simp add: list_all_iff)

lemma match_size_units:
  assumes "match_number s = Some (ds, fs, u)" "u \<in> set size_units"
  shows "match_size s = Some (ds, fs, toLowerCase u)"
proof -
  have "dropWhile is_ws u = u" using unit_ok [OF assms(2)] by (cases u) (auto simp: unit_text_ok_def)
  then show ?thesis
    using assms unit_ok [OF assms(2)] by (simp add: match_size_def unit_text_ok_def Let_def)
qed

lemma trim_size:
  assumes "\<forall>c\<in>set s. is_digit c \<or> c = CHR ''.''" "u \<in> set size_units"
  shows "trim (s @ u) = s @ u"
proof (rule trim_id)
  have "\<not> is_ws c" if "c \<in> set s" for c
    using assms(1) that digit_not_special [of c] by (cases "c = CHR ''.''") (auto simp: is_ws_def)
  then show "\<forall>c\<in>set (s @ u). \<not> is_ws c"
    using unit_ok [OF assms(2)] unfolding unit_text_ok_def set_append by blast
qed

lemma digits_val_Nil: "digits_val [] = 0"
  by (simp add: digits_val_def)

section \<open>Properties\<close>

text \<open>the text of a number with or without a fraction, followed by a unit in either case, is read as the number of
  bytes it stands for, rounded down.\<close>

theorem size_text_means_bytes:
  assumes "\<forall>c\<in>set fs. is_digit c" "fs \<noteq> []" "u \<in> set size_units"
  shows "parseSize (SizeText (nat_digits n @ u)) = Inr (\<lfloor>of_nat n * SIZE_UNITS (toLowerCase u)\<rfloor>)
    \<and> parseSize (SizeText (nat_digits n @ ''.'' @ fs @ u))
      = Inr \<lfloor>(of_nat n + of_nat (digits_val fs) / 10 ^ length fs) * SIZE_UNITS (toLowerCase u)\<rfloor>"
proof -
  have d: "\<forall>c\<in>set (nat_digits n). is_digit c" by (rule nat_digits_digits)
  have u: "u = [] \<or> \<not> is_digit (hd u) \<and> hd u \<noteq> CHR ''.''"
    using unit_ok [OF assms(3)] by (auto simp: unit_text_ok_def)
  have "trim (nat_digits n @ u) = nat_digits n @ u" using d trim_size [OF _ assms(3), of "nat_digits n"] by blast
  moreover have "trim ((nat_digits n @ ''.'' @ fs) @ u) = (nat_digits n @ ''.'' @ fs) @ u"
    using d assms(1) by (intro trim_size [OF _ assms(3)]) auto
  ultimately show ?thesis
    using match_size_units [OF match_whole [OF d _ u] assms(3)]
      match_size_units [OF match_fraction [OF d _ assms(1,2), of u] assms(3)] u
    by (auto simp: parseSize_def decimal_value_def digits_val_nat_digits digits_val_Nil)
qed

theorem size_text_means_bytes_witness:
  "parseSize (SizeText (nat_digits 50 @ ''mb'')) = Inr (\<lfloor>of_nat 50 * SIZE_UNITS (toLowerCase ''mb'')\<rfloor>)
    \<and> parseSize (SizeText (nat_digits 50 @ ''.'' @ ''5'' @ ''mb''))
      = Inr \<lfloor>(of_nat 50 + of_nat (digits_val ''5'') / 10 ^ length ''5'') * SIZE_UNITS (toLowerCase ''mb'')\<rfloor>"
  by (rule size_text_means_bytes) (simp_all add: is_digit_def size_units_def)

text \<open>a request gets past the limit exactly when neither its declared length (as far as it is a finite number) nor its
  actual body exceeds the limit; otherwise it is answered with 413 and nothing behind the middleware
  runs.\<close>

theorem body_limit_enforced:
  assumes "bodyLimit limit = Inr mw" "parseSize limit = Inr maxBytes" "\<not> res_finished c"
  shows "run_to_end res_finished (mw # m # ms) c
    = (if declared_too_large maxBytes c \<or> (\<exists>b. ctx_body c = Some b \<and> int (length b) > maxBytes)
       then (\<lparr>idx = 0, entered = [0], stt = too_large_reply c\<rparr>, None)
       else Middleware.dispatch res_finished (m # ms) 1 \<lparr>idx = 0, entered = [0], stt = c\<rparr>)"
proof -
  have mw: "mw = limit_middleware maxBytes" using assms(1,2) by (simp add: bodyLimit_def)
  have b: "body_too_large maxBytes c \<longleftrightarrow> (\<exists>b. ctx_body c = Some b \<and> int (length b) > maxBytes)"
    by (auto simp: body_too_large_def split: option.split)
  show ?thesis
    using limit_gate.passed_goes_on [of maxBytes c m ms] limit_gate.rejected_goes_no_further [of maxBytes c m ms]
      assms(3) by (auto simp: mw b [symmetric])
qed

theorem body_limit_enforced_witness:
  "run_to_end res_finished [limit_middleware 2, limit_middleware 2] (sample_ctx ''POST'' ''/'' ''10.0.0.1'' [] (Some [1, 2, 3]))
    = (\<lparr>idx = 0, entered = [0], stt = too_large_reply (sample_ctx ''POST'' ''/'' ''10.0.0.1'' [] (Some [1, 2, 3]))\<rparr>, None)"
  using body_limit_enforced [of "SizeNumber (Fin 2)" "limit_middleware 2" 2
      "sample_ctx ''POST'' ''/'' ''10.0.0.1'' [] (Some [1, 2, 3])" "limit_middleware 2" "[]"]
  by (simp add: bodyLimit_def parseSize_def)

end
