(* ===== verification/HeaderMiddlewares.thy ===== *)
theory HeaderMiddlewares
  imports MiddlewareKit
begin

text \<open>
  The middlewares that only add to a request and let it through: request ids
  (\<open>src/src/request-id.js\<close>), security headers (\<open>src/src/helmet.js\<close>) and the carrier of the
  compression options (\<open>src/src/compress.js\<close>).
\<close>

section \<open>Request ids\<close>

text \<open>\<open>responseHeader\<close> is absent, \<open>false\<close> or a name.\<close>

datatype response_header = DefaultHeader | NoHeader | NamedHeader string

record request_id_options =
  ri_header :: "string option"
  ri_responseHeader :: response_header

definition id_header :: "request_id_options \<Rightarrow> string" where
  "id_header opts = toLowerCase (case ri_header opts of Some h \<Rightarrow> h | None \<Rightarrow> ''x-request-id'')"

definition id_response_header :: "request_id_options \<Rightarrow> string option" where
  "id_response_header opts =
     (case ri_responseHeader opts of
        NoHeader \<Rightarrow> None
      | NamedHeader h \<Rightarrow> Some (toLowerCase h)
      | DefaultHeader \<Rightarrow> Some (toLowerCase (id_header opts)))"

text \<open>The generator is a parameter; by default it is \<open>crypto.randomUUID\<close>.\<close>

definition request_id_of :: "('g ctx \<Rightarrow> string) \<Rightarrow> request_id_options \<Rightarrow> 'g ctx \<Rightarrow> string" where
  "request_id_of generate opts c =
     (let h = ctx_header c (id_header opts) in if truthy_str h then the h else generate c)"

definition attach_id :: "('g ctx \<Rightarrow> string) \<Rightarrow> request_id_options \<Rightarrow> 'g ctx \<Rightarrow> 'g ctx" where
  "attach_id generate opts c =
     (let i = request_id_of generate opts c;
          c1 = set_extra ''id'' (JStr i) c in
      if truthy_str (id_response_header opts) then set_header (the (id_response_header opts)) i c1 else c1)"

definition requestId :: "('g ctx \<Rightarrow> string) \<Rightarrow> request_id_options \<Rightarrow> ('g ctx, error_value) middleware" where
  "requestId generate opts =
     \<lparr>needsNext = True, isAsync = True, body = Act (attach_id generate opts) pass\<rparr>"

interpretation id_gate: gate "requestId generate opts" "\<lambda>c. True" "attach_id generate opts" id
  for generate opts
  by unfold_locales (simp_all add: requestId_def exec_pass)

section \<open>Security headers\<close>

datatype header_option = HUnset | HFalse | HText string | HOtherValue

record hsts_config =
  hs_maxAge :: "jnum option"
  hs_includeSubDomains :: bool
  hs_preload :: bool

datatype hsts_option = HstsFalse | HstsObject hsts_config | HstsOther

datatype policy_sources = SourceList "string list" | SourceText string

datatype policy_option = PolicyOff | PolicyOn | PolicyObject "(string \<times> policy_sources) list" | PolicyInvalid

record helmet_options =
  hm_xContentTypeOptions :: header_option
  hm_xFrameOptions :: header_option
  hm_xXssProtection :: header_option
  hm_referrerPolicy :: header_option
  hm_hsts :: hsts_option
  hm_contentSecurityPolicy :: policy_option
  hm_crossOriginOpenerPolicy :: header_option
  hm_crossOriginResourcePolicy :: header_option
  hm_permissionsPolicy :: policy_option
  hm_xDnsPrefetchControl :: header_option
  hm_xPermittedCrossDomainPolicies :: header_option

datatype helmet_error = BadMaxAge | BadCsp | BadPermissions

definition DEFAULT_HSTS_MAX_AGE :: jnum where
  "DEFAULT_HSTS_MAX_AGE = Fin 31536000"

definition default_hsts :: hsts_config where
  "default_hsts = \<lparr>hs_maxAge = None, hs_includeSubDomains = True, hs_preload = False\<rparr>"

definition buildHsts :: "hsts_option \<Rightarrow> helmet_error + string option" where
  "buildHsts hsts =
     (case hsts of
        HstsFalse \<Rightarrow> Inr None
      | _ \<Rightarrow>
        (let config = (case hsts of HstsObject c \<Rightarrow> c | _ \<Rightarrow> default_hsts);
             maxAge = (case hs_maxAge config of Some n \<Rightarrow> n | None \<Rightarrow> DEFAULT_HSTS_MAX_AGE) in
         case maxAge of
           Fin r \<Rightarrow>
             if r < 0 then Inl BadMaxAge
             else
               (let v0 = ''max-age='' @ int_to_string \<lfloor>r\<rfloor>;
                    v1 = (if hs_includeSubDomains config then v0 @ ''; includeSubDomains'' else v0) in
                Inr (Some (if hs_preload config then v1 @ ''; preload'' else v1)))
         | _ \<Rightarrow> Inl BadMaxAge))"

text \<open>\<open>key.replace(/[A-Z]/g, c => "-" + c.toLowerCase())\<close>\<close>

definition is_upper :: "char \<Rightarrow> bool" where
  "is_upper c \<longleftrightarrow> (let n = (of_char c :: nat) in 65 \<le> n \<and> n \<le> 90)"

definition kebab :: "string \<Rightarrow> string" where
  "kebab key = concat (map (\<lambda>c. if is_upper c then [CHR ''-'', lower_char c] else [c]) key)"

definition csp_part :: "string \<times> policy_sources \<Rightarrow> string" where
  "csp_part e = kebab (fst e) @ '' '' @ (case snd e of SourceList xs \<Rightarrow> join '' '' xs | SourceText t \<Rightarrow> t)"

definition buildContentSecurityPolicy :: "policy_option \<Rightarrow> helmet_error + string option" where
  "buildContentSecurityPolicy csp =
     (case csp of
        PolicyOff \<Rightarrow> Inr None
      | PolicyOn \<Rightarrow> Inr (Some (''default-src '' @ [CHR 0x27] @ ''self'' @ [CHR 0x27]))
      | PolicyInvalid \<Rightarrow> Inl BadCsp
      | PolicyObject directives \<Rightarrow> Inr (Some (join ''; '' (map csp_part directives))))"

definition permission_part :: "string \<times> policy_sources \<Rightarrow> string" where
  "permission_part e =
     kebab (fst e) @ (case snd e of SourceList xs \<Rightarrow> ''=('' @ join '' '' xs @ '')'' | SourceText t \<Rightarrow> ''='' @ t)"

definition buildPermissionsPolicy :: "policy_option \<Rightarrow> helmet_error + string option" where
  "buildPermissionsPolicy policy =
     (case policy of
        PolicyOff \<Rightarrow> Inr None
      | PolicyOn \<Rightarrow> Inr (Some ''camera=(), microphone=(), geolocation=()'')
      | PolicyInvalid \<Rightarrow> Inl BadPermissions
      | PolicyObject entries \<Rightarrow> Inr (Some (join '', '' (map permission_part entries))))"

definition text_header :: "string \<Rightarrow> string \<Rightarrow> header_option \<Rightarrow> (string \<times> string) list" where
  "text_header name d opt =
     (case opt of HFalse \<Rightarrow> [] | HText t \<Rightarrow> [(name, t)] | _ \<Rightarrow> [(name, d)])"

definition opt_header :: "string \<Rightarrow> string option \<Rightarrow> (string \<times> string) list" where
  "opt_header name v = (case v of None \<Rightarrow> [] | Some x \<Rightarrow> [(name, x)])"

definition buildHeaderMap :: "helmet_options \<Rightarrow> helmet_error + (string \<times> string) list" where
  "buildHeaderMap options =
     ebind (buildHsts (hm_hsts options)) (\<lambda>hstsValue.
     ebind (buildContentSecurityPolicy (hm_contentSecurityPolicy options)) (\<lambda>cspValue.
     ebind (buildPermissionsPolicy (hm_permissionsPolicy options)) (\<lambda>ppValue.
     Inr (
       (if hm_xContentTypeOptions options \<noteq> HFalse then [(''x-content-type-options'', ''nosniff'')] else [])
       @ (case hm_xFrameOptions options of HFalse \<Rightarrow> [] | HText t \<Rightarrow> [(''x-frame-options'', toUpperCase t)]
          | _ \<Rightarrow> [(''x-frame-options'', ''DENY'')])
       @ (if hm_xXssProtection options \<noteq> HFalse then [(''x-xss-protection'', ''0'')] else [])
       @ text_header ''referrer-policy'' ''strict-origin-when-cross-origin'' (hm_referrerPolicy options)
       @ opt_header ''strict-transport-security'' hstsValue
       @ opt_header ''content-security-policy'' cspValue
       @ text_header ''cross-origin-opener-policy'' ''same-origin'' (hm_crossOriginOpenerPolicy options)
       @ text_header ''cross-origin-resource-policy'' ''same-origin'' (hm_crossOriginResourcePolicy options)
       @ opt_header ''permissions-policy'' ppValue
       @ (if hm_xDnsPrefetchControl options \<noteq> HFalse
          then [(''x-dns-prefetch-control'',
                 if hm_xDnsPrefetchControl options = HText ''on'' then ''on'' else ''off'')] else [])
       @ text_header ''x-permitted-cross-domain-policies'' ''none''
           (hm_xPermittedCrossDomainPolicies options)))))"

definition set_all_headers :: "(string \<times> string) list \<Rightarrow> 'g ctx \<Rightarrow> 'g ctx" where
  "set_all_headers headers c = foldl (\<lambda>c' (n, v). set_header n v c') c headers"

definition helmet_middleware :: "(string \<times> string) list \<Rightarrow> ('g ctx, error_value) middleware" where
  "helmet_middleware headers =
     \<lparr>needsNext = True, isAsync = True, body = Act (set_all_headers headers) pass\<rparr>"

definition helmet :: "helmet_options \<Rightarrow> helmet_error + ('g ctx, error_value) middleware" where
  "helmet options = ebind (buildHeaderMap options) (\<lambda>headers. Inr (helmet_middleware headers))"

interpretation helmet_gate: gate "helmet_middleware headers" "\<lambda>c. True" "set_all_headers headers" id
  for headers
  by unfold_locales (simp_all add: helmet_middleware_def exec_pass)

section \<open>Compression\<close>

text \<open>The work is done in the native layer; the middleware only carries the options.\<close>

record compress_config =
  cm_minSize :: jnum
  cm_brotliQuality :: jnum
  cm_gzipLevel :: jnum
  cm_qualityMap :: "json list"

definition compress_config ::
  "jnum option \<Rightarrow> jnum option \<Rightarrow> jnum option \<Rightarrow> json list option \<Rightarrow> compress_config" where
  "compress_config mn br gz qm =
     \<lparr>cm_minSize = (case mn of Some x \<Rightarrow> x | None \<Rightarrow> Fin 1024),
      cm_brotliQuality = (case br of Some x \<Rightarrow> x | None \<Rightarrow> Fin 4),
      cm_gzipLevel = (case gz of Some x \<Rightarrow> x | None \<Rightarrow> Fin 6),
      cm_qualityMap = (case qm of Some x \<Rightarrow> x | None \<Rightarrow> [])\<rparr>"

definition compress :: "('g ctx, error_value) middleware" where
  "compress = \<lparr>needsNext = True, isAsync = False, body = pass\<rparr>"

interpretation compress_gate: gate compress "\<lambda>c. True" id id
  by unfold_locales (simp_all add: compress_def exec_pass)

section \<open>What is set\<close>

lemma set_all_unfinished [simp]: "res_finished (set_all_headers hs c) = res_finished c"
proof (induction hs arbitrary: c)
  case (Cons h hs)
  then show ?case by (cases h) (simp add: set_all_headers_def)
qed (simp add: set_all_headers_def)

lemma set_all_get:
  assumes "distinct (map (toLowerCase \<circ> fst) hs)" "(n, v) \<in> set hs" "\<not> has_crlf (toLowerCase n)" "\<not> has_crlf v"
  shows "res_get n (cx_res (set_all_headers hs c)) = Some v"
  using assms
proof (induction hs arbitrary: c)
  case (Cons h hs)
  obtain m w where h: "h = (m, w)" by (cases h)
  have keep: "res_get n (cx_res (set_all_headers xs c')) = res_get n (cx_res c')"
    if "toLowerCase n \<notin> (toLowerCase \<circ> fst) ` set xs" for xs c'
    using that
  proof (induction xs arbitrary: c')
    case (Cons x xs)
    then show ?case by (cases x) (auto simp: set_all_headers_def res_get_set)
  qed (simp add: set_all_headers_def)
  have step: "set_all_headers (h # hs) c = set_all_headers hs (set_header m w c)"
    by (simp add: set_all_headers_def h)
  show ?case
  proof (cases "(n, v) = h")
    case True
    then have "toLowerCase n \<notin> (toLowerCase \<circ> fst) ` set hs" using Cons.prems(1) h by auto
    then show ?thesis
      using True Cons.prems(3,4) h keep [of hs "set_header m w c"] unfolding step by (simp add: res_get_set comp_def)
  next
    case False
    then show ?thesis using Cons unfolding step by simp
  qed
qed simp

definition helmet_names :: "string list" where
  "helmet_names =
     [''x-content-type-options'', ''x-frame-options'', ''x-xss-protection'', ''referrer-policy'',
      ''strict-transport-security'', ''content-security-policy'', ''cross-origin-opener-policy'',
      ''cross-origin-resource-policy'', ''permissions-policy'', ''x-dns-prefetch-control'',
      ''x-permitted-cross-domain-policies'']"

lemma names_plain: "list_all (\<lambda>n. toLowerCase n = n \<and> \<not> has_crlf n) helmet_names"
  by code_simp

lemma header_map_names:
  assumes "buildHeaderMap options = Inr headers"
  shows "subseq (map fst headers) helmet_names"
proof -
  have t: "map fst (text_header n d opt) = (if opt = HFalse then [] else [n])" for n d opt
    by (cases opt) (simp_all add: text_header_def)
  have o: "map fst (opt_header n v) = (if v = None then [] else [n])" for n v
    by (cases v) (simp_all add: opt_header_def)
  have f: "map fst (case opt of HFalse \<Rightarrow> [] | HText x \<Rightarrow> [(n, toUpperCase x)] | _ \<Rightarrow> [(n, d)])
      = (if opt = HFalse then [] else [n])" for n d opt
    by (cases opt) simp_all
  have s: "subseq xs ys \<Longrightarrow> subseq ((if b then [] else [n]) @ xs) (n # ys)"
    "subseq xs ys \<Longrightarrow> subseq ((if b then [n] else []) @ xs) (n # ys)" for b and n :: string and xs ys
    by auto
  have e: "subseq (if b then [] else [n]) [n]" "subseq (if b then [n] else []) [n]" for b and n :: string
    by simp_all
  obtain hv cv pv where h: "headers =
       (if hm_xContentTypeOptions options \<noteq> HFalse then [(''x-content-type-options'', ''nosniff'')] else [])
       @ (case hm_xFrameOptions options of HFalse \<Rightarrow> [] | HText t \<Rightarrow> [(''x-frame-options'', toUpperCase t)]
          | _ \<Rightarrow> [(''x-frame-options'', ''DENY'')])
       @ (if hm_xXssProtection options \<noteq> HFalse then [(''x-xss-protection'', ''0'')] else [])
       @ text_header ''referrer-policy'' ''strict-origin-when-cross-origin'' (hm_referrerPolicy options)
       @ opt_header ''strict-transport-security'' hv
       @ opt_header ''content-security-policy'' cv
       @ text_header ''cross-origin-opener-policy'' ''same-origin'' (hm_crossOriginOpenerPolicy options)
       @ text_header ''cross-origin-resource-policy'' ''same-origin'' (hm_crossOriginResourcePolicy options)
       @ opt_header ''permissions-policy'' pv
       @ (if hm_xDnsPrefetchControl options \<noteq> HFalse
          then [(''x-dns-prefetch-control'',
                 if hm_xDnsPrefetchControl options = HText ''on'' then ''on'' else ''off'')] else [])
       @ text_header ''x-permitted-cross-domain-policies'' ''none''
           (hm_xPermittedCrossDomainPolicies options)"
    using assms unfolding buildHeaderMap_def ebind_eq_Inr by blast
  have i: "map fst (if b then [(n, w)] else []) = (if b then [n] else [])" for b and n w :: string
    by simp
  show ?thesis
    unfolding h map_append t o f i helmet_names_def by (intro s e)
qed

lemma subseq_subset: "subseq xs ys \<Longrightarrow> set xs \<subseteq> set ys"
  by (induction rule: list_emb.induct) auto

lemma subseq_keeps_distinct: "subseq xs ys \<Longrightarrow> distinct ys \<Longrightarrow> distinct xs"
proof (induction rule: list_emb.induct)
  case (list_emb_Cons2 x y xs ys)
  then show ?case using subseq_subset [of xs ys] by auto
qed simp_all

lemma header_map_keys:
  assumes "buildHeaderMap options = Inr headers"
  shows "distinct (map (toLowerCase \<circ> fst) headers)" "(n, v) \<in> set headers \<Longrightarrow> toLowerCase n = n \<and> \<not> has_crlf n"
proof -
  have sub: "set (map fst headers) \<subseteq> set helmet_names"
    by (rule subseq_subset [OF header_map_names [OF assms]])
  have l: "\<forall>n\<in>set (map fst headers). toLowerCase n = n \<and> \<not> has_crlf n"
    using sub names_plain unfolding list_all_iff by blast
  have "distinct helmet_names" by code_simp
  then have "distinct (map fst headers)" using header_map_names [OF assms] subseq_keeps_distinct by blast
  moreover have "map (toLowerCase \<circ> fst) headers = map fst headers" using l by (intro map_cong) auto
  ultimately show "distinct (map (toLowerCase \<circ> fst) headers)" by metis
  show "(n, v) \<in> set headers \<Longrightarrow> toLowerCase n = n \<and> \<not> has_crlf n" using l by force
qed

section \<open>Properties\<close>

text \<open>behind the middleware every header that the options ask for has exactly its configured value in the response,
  whatever was set before, unless the value holds a line break; the request goes on.\<close>

theorem helmet_sets_headers:
  assumes "buildHeaderMap options = Inr headers" "(n, v) \<in> set headers" "\<not> has_crlf v" "\<not> res_finished c"
  shows "res_get n (cx_res (set_all_headers headers c)) = Some v
    \<and> run_to_end res_finished (helmet_middleware headers # m # ms) c
      = Middleware.dispatch res_finished (m # ms) 1 \<lparr>idx = 0, entered = [0], stt = set_all_headers headers c\<rparr>"
  using set_all_get [OF header_map_keys(1) [OF assms(1)] assms(2) _ assms(3)] header_map_keys(2) [OF assms(1,2)]
    helmet_gate.passed_goes_on [OF TrueI assms(4)] by simp

definition default_helmet :: helmet_options where
  "default_helmet =
     \<lparr>hm_xContentTypeOptions = HUnset, hm_xFrameOptions = HUnset, hm_xXssProtection = HUnset,
      hm_referrerPolicy = HUnset, hm_hsts = HstsOther, hm_contentSecurityPolicy = PolicyOff,
      hm_crossOriginOpenerPolicy = HUnset, hm_crossOriginResourcePolicy = HUnset,
      hm_permissionsPolicy = PolicyOff, hm_xDnsPrefetchControl = HUnset,
      hm_xPermittedCrossDomainPolicies = HUnset\<rparr>"

theorem helmet_sets_headers_witness:
  "\<exists>headers. buildHeaderMap default_helmet = Inr headers
    \<and> res_get ''x-frame-options'' (cx_res (set_all_headers headers (sample_ctx ''GET'' ''/'' ''::1'' [] None))) = Some ''DENY''"
proof -
  obtain headers where h: "buildHeaderMap default_helmet = Inr headers" "(''x-frame-options'', ''DENY'') \<in> set headers"
    by (simp add: buildHeaderMap_def default_helmet_def buildHsts_def DEFAULT_HSTS_MAX_AGE_def default_hsts_def
        buildContentSecurityPolicy_def buildPermissionsPolicy_def Let_def)
  have "\<not> has_crlf ''DENY''" by code_simp
  then show ?thesis using helmet_sets_headers [OF h _ sample_open] h by blast
qed

text \<open>an incoming request id that is not empty is kept, any other request gets a generated one; the id that the
  handlers see on the request is the one the response announces.\<close>

theorem request_id_is_echoed:
  assumes "id_response_header opts = Some h" "h \<noteq> []" "\<not> has_crlf h" "\<not> has_crlf (request_id_of generate opts c)"
  shows "res_get h (cx_res (attach_id generate opts c)) = Some (request_id_of generate opts c)
    \<and> get_extra ''id'' (attach_id generate opts c) = Some (JStr (request_id_of generate opts c))
    \<and> (\<forall>v. ctx_header c (id_header opts) = Some v \<and> v \<noteq> [] \<longrightarrow> request_id_of generate opts c = v)"
proof -
  have "toLowerCase h = h" using assms(1) by (auto simp: id_response_header_def split: response_header.splits)
  then show ?thesis
    using assms by (auto simp: attach_id_def Let_def res_get_set truthy_str_def request_id_of_def)
qed

theorem request_id_is_echoed_witness:
  "get_extra ''id'' (attach_id (\<lambda>_. ''gen'') \<lparr>ri_header = None, ri_responseHeader = DefaultHeader\<rparr>
      (sample_ctx ''GET'' ''/'' ''::1'' [(''X-Request-Id'', ''abc'')] None)) = Some (JStr ''abc'')"
proof -
  let ?o = "\<lparr>ri_header = None, ri_responseHeader = DefaultHeader\<rparr>"
  let ?c = "sample_ctx ''GET'' ''/'' ''::1'' [(''X-Request-Id'', ''abc'')] None"
  have h: "ctx_header ?c (id_header ?o) = Some ''abc''" unfolding sample_header by code_simp
  have o: "id_response_header ?o = Some ''x-request-id''" "\<not> has_crlf ''x-request-id''" "\<not> has_crlf ''abc''" by code_simp+
  have "request_id_of (\<lambda>_. ''gen'') ?o ?c = ''abc''" using h by (simp add: request_id_of_def truthy_str_def del: sample_header)
  then show ?thesis using request_id_is_echoed [OF o(1) _ o(2), of "\<lambda>_. ''gen''" ?c] o(3) by simp
qed

end
