(* ===== verification/SessionStore.thy ===== *)
theory SessionStore
  imports Json
begin

text \<open>
  Where sessions live: the store of the native layer (\<open>rsrc/src/session.rs\<close> and the session
  functions of \<open>rsrc/src/lib.rs\<close>), the class \<open>MemoryStore\<close> of \<open>src/src/session.js\<close> in front of it, and
  the class \<open>RedisStore\<close> in front of a Redis client.  HMAC-SHA256, \<open>JSON.parse\<close> and the Redis client
  are parameters.  Time is a number of milliseconds.  A session store keeps, for each session, a
  map from keys to JSON values: that is the contract \<open>session_store\<close>, which both classes fulfil.
\<close>

section \<open>Hexadecimal ids and signed cookies\<close>

type_synonym session_id = "byte list"

definition SESSION_ID_BYTES :: nat where "SESSION_ID_BYTES = 16"
definition SESSION_ID_HEX_LEN :: nat where "SESSION_ID_HEX_LEN = 32"
definition HMAC_HEX_LEN :: nat where "HMAC_HEX_LEN = 64"
definition SHARD_COUNT :: nat where "SHARD_COUNT = 64"

definition hex_encode :: "byte list \<Rightarrow> string" where
  "hex_encode bytes = concat (map (\<lambda>b. [hex_lower (unat b div 16), hex_lower (unat b mod 16)]) bytes)"

definition hex_nibble :: "char \<Rightarrow> nat option" where
  "hex_nibble c =
     (let n = (of_char c :: nat) in
      if 48 \<le> n \<and> n \<le> 57 then Some (n - 48)
      else if 97 \<le> n \<and> n \<le> 102 then Some (n - 97 + 10)
      else if 65 \<le> n \<and> n \<le> 70 then Some (n - 65 + 10)
      else None)"

fun hex_decode :: "string \<Rightarrow> byte list option" where
  "hex_decode [] = Some []"
| "hex_decode [c] = None"
| "hex_decode (h # l # cs) =
     (case (hex_nibble h, hex_nibble l) of
        (Some x, Some y) \<Rightarrow> map_option (\<lambda>bs. of_nat (16 * x + y) # bs) (hex_decode cs)
      | _ \<Rightarrow> None)"

definition hex_decode_id :: "string \<Rightarrow> session_id option" where
  "hex_decode_id hex = (if length hex \<noteq> SESSION_ID_HEX_LEN then None else hex_decode hex)"

definition build_cookie_value :: "(byte list \<Rightarrow> byte list) \<Rightarrow> session_id \<Rightarrow> string" where
  "build_cookie_value hmac i = hex_encode i @ ''.'' @ hex_encode (hmac i)"

definition verify_cookie :: "(byte list \<Rightarrow> byte list) \<Rightarrow> string \<Rightarrow> session_id option" where
  "verify_cookie hmac cookie_value =
     (case indexOf cookie_value ''.'' of
        None \<Rightarrow> None
      | Some dot \<Rightarrow>
          (let id_hex = take dot cookie_value; sig_hex = drop (dot + 1) cookie_value in
           if length id_hex \<noteq> SESSION_ID_HEX_LEN \<or> length sig_hex \<noteq> HMAC_HEX_LEN then None
           else
             (case hex_decode id_hex of
                None \<Rightarrow> None
              | Some i \<Rightarrow> if length i \<noteq> SESSION_ID_BYTES then None
                          else if hex_decode sig_hex = Some (hmac i) then Some i else None)))"

section \<open>The native store\<close>

record sess_entry =
  se_data :: "(string \<times> byte list) list"
  se_created :: int
  se_accessed :: int
  se_expires :: int

record store_config =
  sc_maxAge :: int
  sc_maxPerShard :: nat
  sc_maxData :: nat

type_synonym shard = "(session_id \<times> sess_entry) list"
type_synonym native_store = "nat \<Rightarrow> shard"

definition shard_index :: "session_id \<Rightarrow> nat" where
  "shard_index i = unat (hd i) mod SHARD_COUNT"

definition new_entry :: "store_config \<Rightarrow> int \<Rightarrow> sess_entry" where
  "new_entry cfg now =
     \<lparr>se_data = [], se_created = now, se_accessed = now, se_expires = now + sc_maxAge cfg\<rparr>"

definition touch :: "store_config \<Rightarrow> int \<Rightarrow> sess_entry \<Rightarrow> sess_entry" where
  "touch cfg now e = e\<lparr>se_accessed := now, se_expires := now + sc_maxAge cfg\<rparr>"

definition store_get :: "store_config \<Rightarrow> int \<Rightarrow> session_id \<Rightarrow> native_store \<Rightarrow> sess_entry option \<times> native_store" where
  "store_get cfg now i st =
     (let k = shard_index i; sh = st k in
      case map_of sh i of
        None \<Rightarrow> (None, st)
      | Some e \<Rightarrow>
          if now \<ge> se_expires e then (None, st(k := AList.delete i sh))
          else (let e' = touch cfg now e in (Some e', st(k := AList.update i e' sh))))"

definition data_size :: "(string \<times> byte list) list \<Rightarrow> nat" where
  "data_size d = sum_list (map (\<lambda>(k, v). length k + length v) d)"

definition projected_data_size ::
  "(string \<times> byte list) list \<Rightarrow> (string \<times> byte list) list \<Rightarrow> string list \<Rightarrow> nat" where
  "projected_data_size current mutations deleted_keys =
     data_size (filter (\<lambda>(k, v). k \<notin> set deleted_keys \<and> k \<notin> fst ` set mutations) current)
     + data_size mutations"

text \<open>
  The least recently used session; between sessions accessed at the same time the iteration order of
  the hash map decides, which is the order of the list here.
\<close>

fun least_recent :: "shard \<Rightarrow> session_id option" where
  "least_recent [] = None"
| "least_recent [(i, e)] = Some i"
| "least_recent ((i, e) # (j, f) # sh) =
     (if se_accessed e \<le> se_accessed f then least_recent ((i, e) # sh) else least_recent ((j, f) # sh))"

definition make_room :: "store_config \<Rightarrow> shard \<Rightarrow> shard" where
  "make_room cfg sh =
     (if length sh \<ge> sc_maxPerShard cfg
      then (case least_recent sh of Some i \<Rightarrow> AList.delete i sh | None \<Rightarrow> sh) else sh)"

definition apply_data ::
  "(string \<times> byte list) list \<Rightarrow> string list \<Rightarrow> (string \<times> byte list) list \<Rightarrow> (string \<times> byte list) list" where
  "apply_data mutations deleted_keys d =
     foldl (\<lambda>d (k, v). AList.update k v d) (foldl (\<lambda>d k. AList.delete k d) d deleted_keys) mutations"

definition upsert :: "store_config \<Rightarrow> int \<Rightarrow> session_id \<Rightarrow> (string \<times> byte list) list \<Rightarrow> string list
    \<Rightarrow> native_store \<Rightarrow> bool \<times> native_store" where
  "upsert cfg now i mutations deleted_keys st =
     (let k = shard_index i; sh = st k;
          current = (case map_of sh i of Some e \<Rightarrow> se_data e | None \<Rightarrow> []) in
      if projected_data_size current mutations deleted_keys > sc_maxData cfg then (False, st)
      else
        let sh1 = (if map_of sh i = None then make_room cfg sh else sh);
            e = (case map_of sh1 i of Some e \<Rightarrow> e | None \<Rightarrow> new_entry cfg now);
            e' = touch cfg now (e\<lparr>se_data := apply_data mutations deleted_keys (se_data e)\<rparr>) in
        (True, st(k := AList.update i e' sh1)))"

definition store_destroy :: "session_id \<Rightarrow> native_store \<Rightarrow> native_store" where
  "store_destroy i st = (let k = shard_index i in st(k := AList.delete i (st k)))"

section \<open>The native functions\<close>

definition sessionGet :: "store_config \<Rightarrow> int \<Rightarrow> string \<Rightarrow> string \<Rightarrow> native_store \<Rightarrow> string option \<times> native_store" where
  "sessionGet cfg now sid key st =
     (case hex_decode_id sid of
        None \<Rightarrow> (None, st)
      | Some i \<Rightarrow>
          (let (e, st') = store_get cfg now i st in
           (case e of None \<Rightarrow> None | Some x \<Rightarrow> map_option text_decode (map_of (se_data x) key), st')))"

definition sessionSet :: "store_config \<Rightarrow> int \<Rightarrow> string \<Rightarrow> string \<Rightarrow> string \<Rightarrow> native_store \<Rightarrow> bool \<times> native_store" where
  "sessionSet cfg now sid key v st =
     (case hex_decode_id sid of
        None \<Rightarrow> (False, st)
      | Some i \<Rightarrow> upsert cfg now i [(key, text_encode v)] [] st)"

definition sessionDelete :: "store_config \<Rightarrow> int \<Rightarrow> string \<Rightarrow> string \<Rightarrow> native_store \<Rightarrow> bool \<times> native_store" where
  "sessionDelete cfg now sid key st =
     (case hex_decode_id sid of
        None \<Rightarrow> (False, st)
      | Some i \<Rightarrow> upsert cfg now i [] [key] st)"

definition sessionDestroy :: "string \<Rightarrow> native_store \<Rightarrow> bool \<times> native_store" where
  "sessionDestroy sid st =
     (case hex_decode_id sid of None \<Rightarrow> (False, st) | Some i \<Rightarrow> (True, store_destroy i st))"

text \<open>
  \<open>serdeParse\<close> is the JSON parser of the native layer.  A value that is not JSON is handed back as a
  string.
\<close>

definition sessionGetAll ::
  "(string \<Rightarrow> json option) \<Rightarrow> store_config \<Rightarrow> int \<Rightarrow> string \<Rightarrow> native_store \<Rightarrow> string option \<times> native_store" where
  "sessionGetAll serdeParse cfg now sid st =
     (case hex_decode_id sid of
        None \<Rightarrow> (None, st)
      | Some i \<Rightarrow>
          (let (e, st') = store_get cfg now i st in
           (map_option (\<lambda>x. stringify (JObj (map (\<lambda>(k, v).
                (k, case serdeParse (text_decode v) of Some j \<Rightarrow> j | None \<Rightarrow> JStr (text_decode v)))
              (se_data x)))) e, st')))"

definition sessionSetAll ::
  "(string \<Rightarrow> json option) \<Rightarrow> store_config \<Rightarrow> int \<Rightarrow> string \<Rightarrow> string \<Rightarrow> native_store \<Rightarrow> bool \<times> native_store" where
  "sessionSetAll serdeParse cfg now sid data_json st =
     (case hex_decode_id sid of
        None \<Rightarrow> (False, st)
      | Some i \<Rightarrow>
          (case serdeParse data_json of
             Some (JObj ms) \<Rightarrow> upsert cfg now i (map (\<lambda>(k, v). (k, text_encode (stringify v))) ms) [] st
           | _ \<Rightarrow> (False, st)))"

section \<open>\<open>MemoryStore\<close>\<close>

text \<open>The result of \<open>sessionSet\<close> and \<open>sessionDelete\<close> is not looked at.\<close>

definition parse_or_raw :: "(string \<Rightarrow> string + json) \<Rightarrow> string \<Rightarrow> json" where
  "parse_or_raw jsonParse raw = (case jsonParse raw of Inr v \<Rightarrow> v | Inl e \<Rightarrow> JStr raw)"

definition memory_get ::
  "(string \<Rightarrow> string + json) \<Rightarrow> store_config \<Rightarrow> int \<Rightarrow> string \<Rightarrow> string \<Rightarrow> native_store \<Rightarrow> json option \<times> native_store" where
  "memory_get jsonParse cfg now sid key st =
     (let (raw, st') = sessionGet cfg now sid key st in (map_option (parse_or_raw jsonParse) raw, st'))"

definition memory_set :: "store_config \<Rightarrow> int \<Rightarrow> string \<Rightarrow> string \<Rightarrow> json \<Rightarrow> native_store \<Rightarrow> native_store" where
  "memory_set cfg now sid key v st = snd (sessionSet cfg now sid key (stringify v) st)"

definition memory_delete :: "store_config \<Rightarrow> int \<Rightarrow> string \<Rightarrow> string \<Rightarrow> native_store \<Rightarrow> native_store" where
  "memory_delete cfg now sid key st = snd (sessionDelete cfg now sid key st)"

definition memory_destroy :: "string \<Rightarrow> native_store \<Rightarrow> native_store" where
  "memory_destroy sid st = snd (sessionDestroy sid st)"

definition memory_getAll ::
  "(string \<Rightarrow> json option) \<Rightarrow> (string \<Rightarrow> string + json) \<Rightarrow> store_config \<Rightarrow> int \<Rightarrow> string \<Rightarrow> native_store
    \<Rightarrow> json option \<times> native_store" where
  "memory_getAll serdeParse jsonParse cfg now sid st =
     (let (raw, st') = sessionGetAll serdeParse cfg now sid st in
      (case raw of None \<Rightarrow> None | Some t \<Rightarrow> (case jsonParse t of Inr v \<Rightarrow> Some v | Inl e \<Rightarrow> None), st'))"

definition memory_setAll ::
  "(string \<Rightarrow> json option) \<Rightarrow> store_config \<Rightarrow> int \<Rightarrow> string \<Rightarrow> json \<Rightarrow> native_store \<Rightarrow> native_store" where
  "memory_setAll serdeParse cfg now sid d st = snd (sessionSetAll serdeParse cfg now sid (stringify d) st)"

section \<open>\<open>RedisStore\<close>\<close>

text \<open>The commands of the client that the class uses; a promise of the client is its effect.\<close>

record 'c redis =
  rd_hget :: "string \<Rightarrow> string \<Rightarrow> 'c \<Rightarrow> string option"
  rd_hset :: "string \<Rightarrow> (string \<times> string) list \<Rightarrow> 'c \<Rightarrow> 'c"
  rd_hdel :: "string \<Rightarrow> string \<Rightarrow> 'c \<Rightarrow> 'c"
  rd_del :: "string \<Rightarrow> 'c \<Rightarrow> 'c"
  rd_hgetall :: "string \<Rightarrow> 'c \<Rightarrow> (string \<times> string) list"
  rd_expire :: "string \<Rightarrow> int \<Rightarrow> 'c \<Rightarrow> 'c"

record redis_options =
  ro_prefix :: string
  ro_maxAge :: int

definition redis_key :: "redis_options \<Rightarrow> string \<Rightarrow> string" where
  "redis_key opts sid = ro_prefix opts @ sid"

definition redis_get ::
  "'c redis \<Rightarrow> redis_options \<Rightarrow> (string \<Rightarrow> string + json) \<Rightarrow> string \<Rightarrow> string \<Rightarrow> 'c \<Rightarrow> json option" where
  "redis_get client opts jsonParse sid key c =
     map_option (parse_or_raw jsonParse) (rd_hget client (redis_key opts sid) key c)"

definition redis_set :: "'c redis \<Rightarrow> redis_options \<Rightarrow> string \<Rightarrow> string \<Rightarrow> json \<Rightarrow> 'c \<Rightarrow> 'c" where
  "redis_set client opts sid key v c =
     (let k = redis_key opts sid in
      rd_expire client k (ro_maxAge opts) (rd_hset client k [(key, stringify v)] c))"

definition redis_delete :: "'c redis \<Rightarrow> redis_options \<Rightarrow> string \<Rightarrow> string \<Rightarrow> 'c \<Rightarrow> 'c" where
  "redis_delete client opts sid key c = rd_hdel client (redis_key opts sid) key c"

definition redis_destroy :: "'c redis \<Rightarrow> redis_options \<Rightarrow> string \<Rightarrow> 'c \<Rightarrow> 'c" where
  "redis_destroy client opts sid c = rd_del client (redis_key opts sid) c"

definition redis_getAll ::
  "'c redis \<Rightarrow> redis_options \<Rightarrow> (string \<Rightarrow> string + json) \<Rightarrow> string \<Rightarrow> 'c \<Rightarrow> (string \<times> json) list option" where
  "redis_getAll client opts jsonParse sid c =
     (let d = rd_hgetall client (redis_key opts sid) c in
      if d = [] then None
      else Some (foldl (\<lambda>r (k, raw). AList.update k (parse_or_raw jsonParse raw) r) [] d))"

definition redis_setAll :: "'c redis \<Rightarrow> redis_options \<Rightarrow> string \<Rightarrow> (string \<times> json) list \<Rightarrow> 'c \<Rightarrow> 'c" where
  "redis_setAll client opts sid d c =
     (let k = redis_key opts sid; flat = map (\<lambda>(key, v). (key, stringify v)) d in
      if length flat > 0 then rd_expire client k (ro_maxAge opts) (rd_hset client k flat c) else c)"

section \<open>The contract\<close>

datatype store_op = DoGet string | DoSet string json | DoDelete string | DoDestroy

fun map_op :: "store_op \<Rightarrow> (string \<Rightarrow> json option) \<Rightarrow> (string \<Rightarrow> json option)" where
  "map_op (DoGet k) m = m"
| "map_op (DoSet k v) m = m(k := Some v)"
| "map_op (DoDelete k) m = m(k := None)"
| "map_op DoDestroy m = (\<lambda>_. None)"

fun map_run :: "store_op list \<Rightarrow> (string \<Rightarrow> json option) \<Rightarrow> (string \<Rightarrow> json option)" where
  "map_run [] m = m"
| "map_run (a # as) m = map_run as (map_op a m)"

text \<open>One operation on a session, and a run of them, for a store given by its four operations.\<close>

fun store_step :: "(string \<Rightarrow> 's \<Rightarrow> json option \<times> 's) \<Rightarrow> (string \<Rightarrow> json \<Rightarrow> 's \<Rightarrow> 's) \<Rightarrow> (string \<Rightarrow> 's \<Rightarrow> 's)
    \<Rightarrow> ('s \<Rightarrow> 's) \<Rightarrow> store_op \<Rightarrow> 's \<Rightarrow> 's" where
  "store_step g st de ds (DoGet k) s = snd (g k s)"
| "store_step g st de ds (DoSet k v) s = st k v s"
| "store_step g st de ds (DoDelete k) s = de k s"
| "store_step g st de ds DoDestroy s = ds s"

fun run_steps :: "(store_op \<Rightarrow> 's \<Rightarrow> 's) \<Rightarrow> store_op list \<Rightarrow> 's \<Rightarrow> 's" where
  "run_steps step [] s = s"
| "run_steps step (a # as) s = run_steps step as (step a s)"

fun all_fit :: "(string \<Rightarrow> json \<Rightarrow> 's \<Rightarrow> bool) \<Rightarrow> (store_op \<Rightarrow> 's \<Rightarrow> 's) \<Rightarrow> store_op list \<Rightarrow> 's \<Rightarrow> bool" where
  "all_fit fits step [] s = True"
| "all_fit fits step (a # as) s =
     ((case a of DoSet k v \<Rightarrow> fits k v s | _ \<Rightarrow> True) \<and> all_fit fits step as (step a s))"

locale session_store =
  fixes sget :: "string \<Rightarrow> 's \<Rightarrow> json option \<times> 's"
    and sset :: "string \<Rightarrow> json \<Rightarrow> 's \<Rightarrow> 's"
    and sdel :: "string \<Rightarrow> 's \<Rightarrow> 's"
    and sdestroy :: "'s \<Rightarrow> 's"
    and ok :: "'s \<Rightarrow> bool"
    and fits :: "string \<Rightarrow> json \<Rightarrow> 's \<Rightarrow> bool"
  assumes get_law: "ok s \<Longrightarrow> ok (snd (sget k s)) \<and> fst (sget k' (snd (sget k s))) = fst (sget k' s)"
    and set_law: "ok s \<Longrightarrow> fits k v s \<Longrightarrow>
      ok (sset k v s) \<and> fst (sget k' (sset k v s)) = (if k' = k then Some v else fst (sget k' s))"
    and del_law: "ok s \<Longrightarrow> ok (sdel k s) \<and> fst (sget k' (sdel k s)) = (if k' = k then None else fst (sget k' s))"
    and destroy_law: "ok s \<Longrightarrow> ok (sdestroy s) \<and> fst (sget k' (sdestroy s)) = None"
begin

abbreviation step :: "store_op \<Rightarrow> 's \<Rightarrow> 's" where
  "step \<equiv> store_step sget sset sdel sdestroy"

lemma step_view:
  "ok s \<Longrightarrow> (case a of DoSet k v \<Rightarrow> fits k v s | _ \<Rightarrow> True)
    \<Longrightarrow> ok (step a s) \<and> (\<lambda>k. fst (sget k (step a s))) = map_op a (\<lambda>k. fst (sget k s))"
  using get_law set_law del_law destroy_law by (cases a) (auto simp: fun_eq_iff)

lemma run_view:
  "ok s \<Longrightarrow> all_fit fits step as s
    \<Longrightarrow> ok (run_steps step as s) \<and> (\<lambda>k. fst (sget k (run_steps step as s))) = map_run as (\<lambda>k. fst (sget k s))"
proof (induction as arbitrary: s)
  case (Cons a as)
  then show ?case using Cons.IH [of "step a s"] step_view [of s a] by simp
qed simp

end

section \<open>The memory store keeps the contract\<close>

lemma hex_nibble_lower: "n < 16 \<Longrightarrow> hex_nibble (hex_lower n) = Some n"
  by (auto simp: hex_nibble_def hex_lower_def Let_def)

lemma hex_round_trip: "hex_decode (hex_encode bs) = Some bs"
proof (induction bs)
  case (Cons b bs)
  have "unat b div 16 < 16" using unat_byte_lt [of b] by simp
  moreover have "16 * (unat b div 16) + unat b mod 16 = unat b" by simp
  ultimately show ?case
    using Cons by (simp add: hex_encode_def hex_nibble_lower del: of_nat_add of_nat_mult)
qed (simp add: hex_encode_def)

lemma length_hex_encode: "length (hex_encode bs) = 2 * length bs"
  by (induction bs) (simp_all add: hex_encode_def)

lemma length_AList_update:
  "length (AList.update k v al) = (if k \<in> fst ` set al then length al else Suc (length al))"
  by (induction al) auto

lemma map_of_AList_delete: "map_of (AList.delete k al) x = (if x = k then None else map_of al x)"
  by (simp add: delete_conv')

lemma data_size_update:
  "distinct (map fst d) \<Longrightarrow> data_size (filter P (AList.update k v d))
    \<le> data_size (filter (\<lambda>(x, y). P (x, y) \<and> x \<noteq> k) d) + (length k + length v)"
proof (induction d)
  case (Cons p d)
  have "data_size (filter P d) = data_size (filter (\<lambda>(x, y). P (x, y) \<and> x \<noteq> k) d)" if "k \<notin> fst ` set d"
  proof -
    have "filter P d = filter (\<lambda>(x, y). P (x, y) \<and> x \<noteq> k) d"
      using that by (intro filter_cong) force+
    then show ?thesis by simp
  qed
  then show ?case using Cons by (cases p) (auto simp: data_size_def)
qed (simp add: data_size_def)

lemma delete_all: "foldl (\<lambda>d k. AList.delete k d) d ks = filter (\<lambda>(x, y). x \<notin> set ks) d"
proof (induction ks arbitrary: d)
  case (Cons k ks)
  have "filter (\<lambda>(x, y). x \<notin> set ks) (AList.delete k d) = filter (\<lambda>(x, y). x \<notin> set (k # ks)) d"
    by (auto simp: AList.delete_eq split_def intro: filter_cong)
  then show ?case using Cons by simp
qed simp

lemma distinct_apply_data: "distinct (map fst d) \<Longrightarrow> distinct (map fst (apply_data ms ds d))"
proof -
  have f: "distinct (map fst d) \<Longrightarrow> distinct (map fst (foldl (\<lambda>d (k, v). AList.update k v d) d ms))"
    for d :: "(string \<times> byte list) list" and ms
  proof (induction ms arbitrary: d)
    case (Cons m ms)
    then show ?case by (cases m) (simp add: distinct_update)
  qed simp
  show "distinct (map fst d) \<Longrightarrow> distinct (map fst (apply_data ms ds d))"
    unfolding apply_data_def delete_all by (rule f) (simp add: distinct_map_filter)
qed

lemma projected_bounds_data:
  assumes "distinct (map fst d)"
  shows "data_size (apply_data ms ds d) \<le> projected_data_size d ms ds"
proof -
  have f: "distinct (map fst d) \<Longrightarrow> data_size (foldl (\<lambda>d (k, v). AList.update k v d) d ms)
      \<le> data_size (filter (\<lambda>(k, v). k \<notin> fst ` set ms) d) + data_size ms"
    for d :: "(string \<times> byte list) list" and ms
  proof (induction ms arbitrary: d)
    case (Cons m ms)
    obtain k v where m: "m = (k, v)" by (cases m)
    have "data_size (foldl (\<lambda>d (k, v). AList.update k v d) d (m # ms))
        \<le> data_size (filter (\<lambda>(x, y). x \<notin> fst ` set ms) (AList.update k v d)) + data_size ms"
      using Cons.IH [of "AList.update k v d"] Cons.prems by (simp add: m distinct_update)
    also have "\<dots> \<le> data_size (filter (\<lambda>(x, y). x \<notin> fst ` set (m # ms)) d) + (length k + length v) + data_size ms"
      using data_size_update [OF Cons.prems, of "\<lambda>(x, y). x \<notin> fst ` set ms" k v]
      by (auto simp: m conj_commute)
    also have "\<dots> = data_size (filter (\<lambda>(x, y). x \<notin> fst ` set (m # ms)) d) + data_size (m # ms)"
      by (simp add: data_size_def m)
    finally show ?case .
  qed (simp add: data_size_def)
  show ?thesis
    using f [of "filter (\<lambda>(x, y). x \<notin> set ds) d" ms] assms
    by (simp add: apply_data_def delete_all projected_data_size_def distinct_map_filter split_def conj_commute)
qed

definition entry_of :: "native_store \<Rightarrow> session_id \<Rightarrow> sess_entry option" where
  "entry_of st i = map_of (st (shard_index i)) i"

definition data_of :: "native_store \<Rightarrow> session_id \<Rightarrow> (string \<times> byte list) list" where
  "data_of st i = (case entry_of st i of Some e \<Rightarrow> se_data e | None \<Rightarrow> [])"

definition entry_ok :: "store_config \<Rightarrow> int \<Rightarrow> sess_entry option \<Rightarrow> bool" where
  "entry_ok cfg now e =
     (case e of
        None \<Rightarrow> True
      | Some x \<Rightarrow> now < se_expires x \<and> distinct (map fst (se_data x)) \<and> data_size (se_data x) \<le> sc_maxData cfg)"

definition memory_ok :: "store_config \<Rightarrow> int \<Rightarrow> session_id \<Rightarrow> native_store \<Rightarrow> bool" where
  "memory_ok cfg now i st \<longleftrightarrow> 0 < sc_maxAge cfg \<and> length i = SESSION_ID_BYTES \<and> entry_ok cfg now (entry_of st i)"

definition memory_fits ::
  "(string \<Rightarrow> string + json) \<Rightarrow> store_config \<Rightarrow> session_id \<Rightarrow> string \<Rightarrow> json \<Rightarrow> native_store \<Rightarrow> bool" where
  "memory_fits jsonParse cfg i k v st \<longleftrightarrow> jsonParse (stringify v) = Inr v
     \<and> projected_data_size (data_of st i) [(k, text_encode (stringify v))] [] \<le> sc_maxData cfg"

lemma decode_id [simp]: "length i = SESSION_ID_BYTES \<Longrightarrow> hex_decode_id (hex_encode i) = Some i"
  by (simp add: hex_decode_id_def hex_round_trip length_hex_encode SESSION_ID_BYTES_def SESSION_ID_HEX_LEN_def)

lemma entry_of_update [simp]: "entry_of (st(shard_index i := AList.update i e sh)) i = Some e"
  by (simp add: entry_of_def map_of_update)

lemma entry_of_delete [simp]: "entry_of (st(shard_index i := AList.delete i sh)) i = None"
  by (simp add: entry_of_def map_of_AList_delete)

lemma make_room_absent: "map_of sh i = None \<Longrightarrow> map_of (make_room cfg sh) i = None"
  by (simp add: make_room_def map_of_AList_delete split: option.split)

lemma store_get_value:
  "entry_ok cfg now (entry_of st i) \<Longrightarrow>
    fst (store_get cfg now i st) = map_option (touch cfg now) (entry_of st i)
    \<and> entry_of (snd (store_get cfg now i st)) i = map_option (touch cfg now) (entry_of st i)"
  by (auto simp: store_get_def entry_ok_def Let_def entry_of_def map_of_update split: option.splits)

lemma upsert_rejected:
  "projected_data_size (data_of st i) ms ds > sc_maxData cfg \<Longrightarrow> upsert cfg now i ms ds st = (False, st)"
  by (simp add: upsert_def data_of_def entry_of_def Let_def)

lemma upsert_accepted:
  assumes "projected_data_size (data_of st i) ms ds \<le> sc_maxData cfg"
  shows "fst (upsert cfg now i ms ds st)
    \<and> (\<exists>e. entry_of (snd (upsert cfg now i ms ds st)) i = Some e
        \<and> se_data e = apply_data ms ds (data_of st i) \<and> se_expires e = now + sc_maxAge cfg)"
proof (cases "map_of (st (shard_index i)) i")
  case None
  then show ?thesis
    using assms make_room_absent [OF None, of cfg]
    by (simp add: upsert_def data_of_def entry_of_def Let_def touch_def new_entry_def map_of_update)
next
  case (Some e)
  then show ?thesis
    using assms by (simp add: upsert_def data_of_def entry_of_def Let_def touch_def map_of_update)
qed

lemma memory_get_value:
  assumes "memory_ok cfg now i st"
  shows "fst (memory_get jsonParse cfg now (hex_encode i) k st)
    = map_option (\<lambda>b. parse_or_raw jsonParse (text_decode b)) (map_of (data_of st i) k)"
proof -
  have "fst (store_get cfg now i st) = map_option (touch cfg now) (entry_of st i)"
    using assms store_get_value [of cfg now st i] by (simp add: memory_ok_def)
  then show ?thesis
    using assms
    by (simp add: memory_get_def sessionGet_def memory_ok_def split_beta data_of_def touch_def
        option.map_comp comp_def split: option.split)
qed

lemma memory_ok_upsert:
  assumes "memory_ok cfg now i st" "projected_data_size (data_of st i) ms ds \<le> sc_maxData cfg"
  shows "memory_ok cfg now i (snd (upsert cfg now i ms ds st))"
    and "data_of (snd (upsert cfg now i ms ds st)) i = apply_data ms ds (data_of st i)"
proof -
  obtain e where e: "entry_of (snd (upsert cfg now i ms ds st)) i = Some e"
      "se_data e = apply_data ms ds (data_of st i)" "se_expires e = now + sc_maxAge cfg"
    using upsert_accepted [OF assms(2)] by blast
  have d: "distinct (map fst (data_of st i))"
    using assms(1) by (auto simp: memory_ok_def entry_ok_def data_of_def split: option.splits)
  show "memory_ok cfg now i (snd (upsert cfg now i ms ds st))"
    using assms(1) e distinct_apply_data [OF d] projected_bounds_data [OF d, of ms ds] assms(2)
    by (auto simp: memory_ok_def entry_ok_def)
  show "data_of (snd (upsert cfg now i ms ds st)) i = apply_data ms ds (data_of st i)"
    using e by (simp add: data_of_def)
qed

lemma delete_fits:
  assumes "memory_ok cfg now i st"
  shows "projected_data_size (data_of st i) [] [k] \<le> sc_maxData cfg"
proof -
  have "data_size (filter P d) \<le> data_size d" for P and d :: "(string \<times> byte list) list"
    by (induction d) (auto simp: data_size_def)
  moreover have "data_size (data_of st i) \<le> sc_maxData cfg"
    using assms by (auto simp: memory_ok_def entry_ok_def data_of_def data_size_def split: option.splits)
  ultimately show ?thesis
    unfolding projected_data_size_def by (simp add: data_size_def) (meson order_trans)
qed

interpretation memory_store: session_store
    "\<lambda>k st. memory_get jsonParse cfg now (hex_encode i) k st"
    "\<lambda>k v st. memory_set cfg now (hex_encode i) k v st"
    "\<lambda>k st. memory_delete cfg now (hex_encode i) k st"
    "\<lambda>st. memory_destroy (hex_encode i) st"
    "memory_ok cfg now i" "memory_fits jsonParse cfg i"
  for jsonParse cfg now i
proof
  fix st :: native_store and k k' v
  assume ok: "memory_ok cfg now i st"
  then have i: "length i = SESSION_ID_BYTES" by (simp add: memory_ok_def)
  have g: "snd (memory_get jsonParse cfg now (hex_encode i) k st) = snd (store_get cfg now i st)"
    using i by (simp add: memory_get_def sessionGet_def split_beta)
  have ok1: "memory_ok cfg now i (snd (store_get cfg now i st))"
    and d1: "data_of (snd (store_get cfg now i st)) i = data_of st i"
    using ok store_get_value [of cfg now st i]
    by (auto simp: memory_ok_def entry_ok_def data_of_def touch_def split: option.splits)
  show "memory_ok cfg now i (snd (memory_get jsonParse cfg now (hex_encode i) k st))
    \<and> fst (memory_get jsonParse cfg now (hex_encode i) k' (snd (memory_get jsonParse cfg now (hex_encode i) k st)))
      = fst (memory_get jsonParse cfg now (hex_encode i) k' st)"
    unfolding g using ok1 memory_get_value [OF ok] memory_get_value [OF ok1] d1 by simp
  show "memory_ok cfg now i (memory_set cfg now (hex_encode i) k v st)
    \<and> fst (memory_get jsonParse cfg now (hex_encode i) k' (memory_set cfg now (hex_encode i) k v st))
      = (if k' = k then Some v else fst (memory_get jsonParse cfg now (hex_encode i) k' st))"
    if fits: "memory_fits jsonParse cfg i k v st"
  proof -
    have p: "projected_data_size (data_of st i) [(k, text_encode (stringify v))] [] \<le> sc_maxData cfg"
      and j: "jsonParse (stringify v) = Inr v"
      using fits by (simp_all add: memory_fits_def)
    note u = memory_ok_upsert [OF ok p]
    have s: "memory_set cfg now (hex_encode i) k v st
        = snd (upsert cfg now i [(k, text_encode (stringify v))] [] st)"
      using i by (simp add: memory_set_def sessionSet_def)
    show ?thesis
      unfolding s using u(1) memory_get_value [OF u(1)] memory_get_value [OF ok]
      by (simp add: u(2) apply_data_def map_of_update j parse_or_raw_def)
  qed
  have p: "projected_data_size (data_of st i) [] [k] \<le> sc_maxData cfg" using delete_fits [OF ok] .
  note u = memory_ok_upsert [OF ok p]
  have s: "memory_delete cfg now (hex_encode i) k st = snd (upsert cfg now i [] [k] st)"
    using i by (simp add: memory_delete_def sessionDelete_def)
  show "memory_ok cfg now i (memory_delete cfg now (hex_encode i) k st)
    \<and> fst (memory_get jsonParse cfg now (hex_encode i) k' (memory_delete cfg now (hex_encode i) k st))
      = (if k' = k then None else fst (memory_get jsonParse cfg now (hex_encode i) k' st))"
    unfolding s using u(1) memory_get_value [OF u(1)] memory_get_value [OF ok]
    by (simp add: u(2) apply_data_def map_of_AList_delete)
  have n: "memory_destroy (hex_encode i) st = store_destroy i st"
    using i by (simp add: memory_destroy_def sessionDestroy_def)
  have ok2: "memory_ok cfg now i (store_destroy i st)" "data_of (store_destroy i st) i = []"
    using ok by (simp_all add: memory_ok_def entry_ok_def store_destroy_def Let_def data_of_def)
  show "memory_ok cfg now i (memory_destroy (hex_encode i) st)
    \<and> fst (memory_get jsonParse cfg now (hex_encode i) k' (memory_destroy (hex_encode i) st)) = None"
    unfolding n using ok2 memory_get_value [OF ok2(1)] by simp
qed

section \<open>The Redis store keeps the contract\<close>

text \<open>What the class relies on: the documented behaviour of the hash commands.\<close>

locale redis_client =
  fixes client :: "'c redis" and opts :: redis_options and jsonParse :: "string \<Rightarrow> string + json"
  assumes hset_law: "rd_hget client k f (rd_hset client k' fvs c)
      = (if k = k' \<and> map_of (rev fvs) f \<noteq> None then map_of (rev fvs) f else rd_hget client k f c)"
    and hdel_law: "rd_hget client k f (rd_hdel client k' f' c)
      = (if k = k' \<and> f = f' then None else rd_hget client k f c)"
    and del_law: "rd_hget client k f (rd_del client k' c) = (if k = k' then None else rd_hget client k f c)"
    and expire_law: "0 < t \<Longrightarrow> rd_hget client k f (rd_expire client k' t c) = rd_hget client k f c"
    and lifetime: "0 < ro_maxAge opts"

sublocale redis_client \<subseteq> redis: session_store
    "\<lambda>k c. (redis_get client opts jsonParse sid k c, c)" "redis_set client opts sid"
    "redis_delete client opts sid" "redis_destroy client opts sid"
    "\<lambda>_. True" "\<lambda>k v _. jsonParse (stringify v) = Inr v" for sid
  by unfold_locales
    (simp_all add: redis_get_def redis_set_def redis_delete_def redis_destroy_def Let_def hset_law hdel_law
      del_law expire_law lifetime parse_or_raw_def)

text \<open>A client over hashes in memory, for which the laws hold.\<close>

definition hash_client :: "(string \<Rightarrow> (string \<times> string) list) redis" where
  "hash_client =
     \<lparr>rd_hget = (\<lambda>k f c. map_of (c k) f),
      rd_hset = (\<lambda>k fvs c. c(k := foldl (\<lambda>h (f, v). AList.update f v h) (c k) fvs)),
      rd_hdel = (\<lambda>k f c. c(k := AList.delete f (c k))),
      rd_del = (\<lambda>k c. c(k := [])),
      rd_hgetall = (\<lambda>k c. c k),
      rd_expire = (\<lambda>k t c. c)\<rparr>"

definition default_redis_options :: redis_options where
  "default_redis_options = \<lparr>ro_prefix = ''sess:'', ro_maxAge = 3600\<rparr>"

lemma map_of_foldl_update:
  "map_of (foldl (\<lambda>h (f, v). AList.update f v h) h fvs) x
    = (if map_of (rev fvs) x \<noteq> None then map_of (rev fvs) x else map_of h x)"
proof (induction fvs arbitrary: h)
  case (Cons p fvs)
  then show ?case by (cases p) (auto simp: map_of_update map_add_def split: option.splits)
qed simp

interpretation hash_redis: redis_client hash_client default_redis_options jsonParse for jsonParse
  by unfold_locales
    (auto simp: hash_client_def map_of_foldl_update map_of_AList_delete default_redis_options_def)

section \<open>Bounds of the native store\<close>

datatype native_op =
    NGet int session_id
  | NUpsert int session_id "(string \<times> byte list) list" "string list"
  | NDestroy session_id

fun native_step :: "store_config \<Rightarrow> native_store \<Rightarrow> native_op \<Rightarrow> native_store" where
  "native_step cfg st (NGet now i) = snd (store_get cfg now i st)"
| "native_step cfg st (NUpsert now i ms ds) = snd (upsert cfg now i ms ds st)"
| "native_step cfg st (NDestroy i) = store_destroy i st"

definition sized :: "store_config \<Rightarrow> sess_entry \<Rightarrow> bool" where
  "sized cfg e \<longleftrightarrow> distinct (map fst (se_data e)) \<and> data_size (se_data e) \<le> sc_maxData cfg"

definition shard_ok :: "store_config \<Rightarrow> shard \<Rightarrow> bool" where
  "shard_ok cfg sh \<longleftrightarrow> distinct (map fst sh) \<and> length sh \<le> sc_maxPerShard cfg \<and> (\<forall>(i, e)\<in>set sh. sized cfg e)"

lemma shard_ok_delete: "shard_ok cfg sh \<Longrightarrow> shard_ok cfg (AList.delete i sh)"
  by (auto simp: shard_ok_def AList.delete_eq distinct_map_filter intro: order_trans [OF length_filter_le])

lemma set_update: "set (AList.update k v al) \<subseteq> insert (k, v) (set al)"
  by (induction al) auto

lemma shard_ok_replace:
  assumes "shard_ok cfg sh" "i \<in> fst ` set sh \<or> length sh < sc_maxPerShard cfg" "sized cfg e"
  shows "shard_ok cfg (AList.update i e sh)"
proof -
  have "\<forall>(j, f)\<in>set (AList.update i e sh). sized cfg f"
    using assms(1,3) set_update [of i e sh] unfolding shard_ok_def by blast
  moreover have "length (AList.update i e sh) \<le> sc_maxPerShard cfg"
    using assms(1,2) by (auto simp: shard_ok_def length_AList_update)
  ultimately show ?thesis using assms(1) by (simp add: shard_ok_def distinct_update)
qed

lemma least_recent_in: "sh \<noteq> [] \<Longrightarrow> \<exists>i. least_recent sh = Some i \<and> i \<in> fst ` set sh"
proof (induction sh rule: least_recent.induct)
  case (3 i e j f sh)
  then show ?case by (cases "se_accessed e \<le> se_accessed f") auto
qed simp_all

lemma length_delete:
  "i \<in> fst ` set sh \<Longrightarrow> length (AList.delete i sh) < length sh" for sh :: shard
  by (auto simp: AList.delete_eq intro!: length_filter_less)

lemma make_room_ok:
  assumes "shard_ok cfg sh" "0 < sc_maxPerShard cfg"
  shows "shard_ok cfg (make_room cfg sh) \<and> length (make_room cfg sh) < sc_maxPerShard cfg"
proof (cases "length sh \<ge> sc_maxPerShard cfg")
  case True
  then have "sh \<noteq> []" using assms(2) by auto
  then obtain i where i: "least_recent sh = Some i" "i \<in> fst ` set sh" using least_recent_in by blast
  have "length (AList.delete i sh) < length sh" by (rule length_delete [OF i(2)])
  then show ?thesis
    using True i(1) assms(1) shard_ok_delete [OF assms(1), of i] by (simp add: make_room_def shard_ok_def)
next
  case False
  then show ?thesis using assms by (simp add: make_room_def)
qed

lemma shard_entry_sized: "shard_ok cfg sh \<Longrightarrow> map_of sh i = Some e \<Longrightarrow> sized cfg e"
  by (auto simp: shard_ok_def dest: map_of_SomeD)

lemma map_of_key: "map_of sh i = Some e \<Longrightarrow> i \<in> fst ` set sh"
  by (metis map_of_eq_None_iff option.distinct(1))

lemma sized_touch [simp]: "sized cfg (touch c now e) = sized cfg e"
  by (simp add: sized_def touch_def)

lemma upsert_shard_ok:
  assumes "\<forall>k. shard_ok cfg (st k)" "0 < sc_maxPerShard cfg"
  shows "shard_ok cfg (snd (upsert cfg now i ms ds st) k)"
proof (cases "projected_data_size (data_of st i) ms ds \<le> sc_maxData cfg")
  case False
  then show ?thesis using assms upsert_rejected [of cfg st i ms ds now] by simp
next
  case True
  let ?sh = "st (shard_index i)"
  let ?sh1 = "if map_of ?sh i = None then make_room cfg ?sh else ?sh"
  let ?e = "case map_of ?sh1 i of Some e \<Rightarrow> e | None \<Rightarrow> new_entry cfg now"
  let ?e' = "touch cfg now (?e\<lparr>se_data := apply_data ms ds (se_data ?e)\<rparr>)"
  have u: "snd (upsert cfg now i ms ds st) = st(shard_index i := AList.update i ?e' ?sh1)"
    using True by (simp add: upsert_def Let_def data_of_def entry_of_def)
  have d: "se_data ?e = data_of st i"
    by (auto simp: data_of_def entry_of_def make_room_absent new_entry_def split: option.split)
  have dist: "distinct (map fst (data_of st i))"
    using assms(1) shard_entry_sized [of cfg ?sh i]
    by (auto simp: data_of_def entry_of_def sized_def split: option.split)
  have "sized cfg ?e'"
    using True projected_bounds_data [OF dist, of ms ds] distinct_apply_data [OF dist, of ms ds]
    unfolding sized_touch by (simp only: sized_def sess_entry.simps d) simp
  moreover have "shard_ok cfg ?sh1" using assms make_room_ok [of cfg ?sh] by simp
  moreover have "i \<in> fst ` set ?sh1 \<or> length ?sh1 < sc_maxPerShard cfg"
    using assms make_room_ok [of cfg ?sh] map_of_key [of ?sh i] by auto
  ultimately show ?thesis
    using assms(1) unfolding u by (simp add: shard_ok_replace)
qed

lemma get_shard_ok:
  assumes "\<forall>k. shard_ok cfg (st k)"
  shows "shard_ok cfg (snd (store_get cfg now i st) k)"
proof (cases "map_of (st (shard_index i)) i")
  case None
  then show ?thesis using assms by (simp add: store_get_def Let_def)
next
  case (Some e)
  have "shard_ok cfg (AList.update i (touch cfg now e) (st (shard_index i)))"
    using assms Some shard_entry_sized [of cfg "st (shard_index i)" i e] map_of_key [OF Some]
    by (intro shard_ok_replace) auto
  then show ?thesis
    using assms Some shard_ok_delete by (simp add: store_get_def Let_def)
qed

lemma native_step_ok:
  "\<forall>k. shard_ok cfg (st k) \<Longrightarrow> 0 < sc_maxPerShard cfg \<Longrightarrow> \<forall>k. shard_ok cfg (native_step cfg st a k)"
  using get_shard_ok upsert_shard_ok shard_ok_delete by (cases a) (simp_all add: store_destroy_def Let_def)

lemma native_run_ok:
  "\<forall>k. shard_ok cfg (st k) \<Longrightarrow> 0 < sc_maxPerShard cfg \<Longrightarrow> shard_ok cfg (foldl (native_step cfg) st as k)"
  by (induction as arbitrary: st) (simp_all add: native_step_ok)

section \<open>Cookies and expiry\<close>

lemma hex_lower_not_dot: "n < 16 \<Longrightarrow> hex_lower n \<noteq> CHR ''.''"
  using hex_nibble_lower [of n] by (auto simp: hex_nibble_def)

lemma hex_encode_no_dot: "CHR ''.'' \<notin> set (hex_encode bs)"
proof (induction bs)
  case (Cons b bs)
  have "unat b div 16 < 16" "unat b mod 16 < 16" using unat_byte_lt [of b] by simp_all
  then have "hex_lower (unat b div 16) \<noteq> CHR ''.''" "hex_lower (unat b mod 16) \<noteq> CHR ''.''"
    by (simp_all add: hex_lower_not_dot)
  then show ?case using Cons by (auto simp: hex_encode_def)
qed (simp add: hex_encode_def)

lemma indexOf_first: "c \<notin> set p \<Longrightarrow> indexOf (p @ c # s) [c] = Some (length p)"
  by (induction p) (auto simp: startsWith_def)

lemma indexOf_Some_take: "indexOf s p = Some i \<Longrightarrow> startsWith (drop i s) p"
proof (induction s p arbitrary: i rule: indexOf.induct)
  case (2 c cs p)
  then show ?case by (cases "startsWith (c # cs) p") auto
qed (auto split: if_splits)

lemma verify_build:
  assumes "length i = SESSION_ID_BYTES" "length (hmac i) = 32"
  shows "verify_cookie hmac (build_cookie_value hmac i) = Some i"
proof -
  have "indexOf (build_cookie_value hmac i) ''.'' = Some (length (hex_encode i))"
    using indexOf_first [OF hex_encode_no_dot, of i] by (simp add: build_cookie_value_def)
  then show ?thesis
    using assms by (simp add: verify_cookie_def Let_def build_cookie_value_def hex_round_trip length_hex_encode
        SESSION_ID_BYTES_def SESSION_ID_HEX_LEN_def HMAC_HEX_LEN_def)
qed

lemma verify_sound:
  assumes "verify_cookie hmac cookie = Some i"
  shows "length i = SESSION_ID_BYTES
    \<and> (\<exists>id_hex sig_hex. cookie = id_hex @ ''.'' @ sig_hex \<and> hex_decode id_hex = Some i \<and> hex_decode sig_hex = Some (hmac i))"
proof -
  obtain dot where dot: "indexOf cookie ''.'' = Some dot"
    using assms by (cases "indexOf cookie ''.''") (auto simp: verify_cookie_def)
  have d: "hex_decode (take dot cookie) = Some i" "hex_decode (drop (dot + 1) cookie) = Some (hmac i)"
    "length i = SESSION_ID_BYTES"
    using assms dot by (auto simp: verify_cookie_def Let_def split: option.splits if_splits)
  have "startsWith (drop dot cookie) ''.''" using indexOf_Some_take [OF dot] .
  then obtain t where "drop dot cookie = CHR ''.'' # t" by (auto simp: startsWith_iff)
  moreover from this have "drop (dot + 1) cookie = t" by (metis drop_Suc list.sel(3) tl_drop Suc_eq_plus1)
  ultimately have "cookie = take dot cookie @ ''.'' @ drop (dot + 1) cookie"
    using append_take_drop_id [of dot cookie] by simp
  then show ?thesis using d by blast
qed

section \<open>Properties\<close>

text \<open>Operations of one moment answer like a map.\<close>

definition memory_step ::
  "(string \<Rightarrow> string + json) \<Rightarrow> store_config \<Rightarrow> int \<Rightarrow> session_id \<Rightarrow> store_op \<Rightarrow> native_store \<Rightarrow> native_store" where
  "memory_step jsonParse cfg now i =
     store_step (\<lambda>k. memory_get jsonParse cfg now (hex_encode i) k) (\<lambda>k v. memory_set cfg now (hex_encode i) k v)
       (\<lambda>k. memory_delete cfg now (hex_encode i) k) (memory_destroy (hex_encode i))"

lemma memory_run_view:
  "memory_ok cfg now i st \<Longrightarrow> all_fit (memory_fits jsonParse cfg i) (memory_step jsonParse cfg now i) ops st \<Longrightarrow>
    (\<lambda>k. fst (memory_get jsonParse cfg now (hex_encode i) k (run_steps (memory_step jsonParse cfg now i) ops st)))
      = map_run ops (\<lambda>k. fst (memory_get jsonParse cfg now (hex_encode i) k st))"
  using memory_store.run_view unfolding memory_step_def by blast

text \<open>Operations on many sessions, each at its own time.  Of a session the user expects a list of entries and the time
  at which it is over: every access puts it off, and a session that is over is empty.  A value too large for the
  session is not written.\<close>

type_synonym timed_op = "int \<times> session_id \<times> store_op"

fun timed_step :: "(string \<Rightarrow> string + json) \<Rightarrow> store_config \<Rightarrow> native_store \<Rightarrow> timed_op \<Rightarrow> native_store" where
  "timed_step jsonParse cfg st (now, j, op) = memory_step jsonParse cfg now j op st"

definition stored :: "(string \<times> json) list \<Rightarrow> (string \<times> byte list) list" where
  "stored al = map (\<lambda>(k, v). (k, text_encode (stringify v))) al"

definition lasting :: "int \<Rightarrow> (string \<times> json) list \<times> int \<Rightarrow> (string \<times> json) list" where
  "lasting now s = (if now < snd s then fst s else [])"

fun session_spec :: "store_config \<Rightarrow> int \<Rightarrow> store_op \<Rightarrow> (string \<times> json) list \<times> int \<Rightarrow> (string \<times> json) list \<times> int" where
  "session_spec cfg now (DoGet k) s = (lasting now s, now + sc_maxAge cfg)"
| "session_spec cfg now (DoSet k v) s =
     (if data_size (stored ((k, v) # AList.delete k (lasting now s))) \<le> sc_maxData cfg
      then (AList.update k v (lasting now s), now + sc_maxAge cfg) else s)"
| "session_spec cfg now (DoDelete k) s = (AList.delete k (lasting now s), now + sc_maxAge cfg)"
| "session_spec cfg now DoDestroy s = ([], now)"

definition session_after :: "store_config \<Rightarrow> session_id \<Rightarrow> timed_op list \<Rightarrow> (string \<times> json) list \<times> int" where
  "session_after cfg i ops = foldl (\<lambda>s (now, j, op). if j = i then session_spec cfg now op s else s) ([], 0) ops"

text \<open>Nothing is written into a session that is over and has not been read since; and the sessions of a shard have
  room in it, so that none is evicted.\<close>

fun writes :: "store_op \<Rightarrow> bool" where
  "writes (DoSet k v) = True"
| "writes (DoDelete k) = True"
| "writes _ = False"

definition in_time :: "store_config \<Rightarrow> session_id \<Rightarrow> timed_op list \<Rightarrow> bool" where
  "in_time cfg i ops \<longleftrightarrow> list_all (\<lambda>n. case ops ! n of (now, j, op) \<Rightarrow>
     j = i \<and> writes op \<longrightarrow> fst (session_after cfg i (take n ops)) = [] \<or> now < snd (session_after cfg i (take n ops)))
     [0..<length ops]"

definition shard_mates :: "nat \<Rightarrow> timed_op list \<Rightarrow> session_id list" where
  "shard_mates k ops = remdups (filter (\<lambda>j. shard_index j = k) (map (fst \<circ> snd) ops))"

lemma stored_update: "stored (AList.update k v al) = AList.update k (text_encode (stringify v)) (stored al)"
  by (induction al) (auto simp: stored_def)

lemma stored_delete: "stored (AList.delete k al) = AList.delete k (stored al)"
  by (simp add: stored_def AList.delete_eq filter_map comp_def split_def)

lemma stored_keys: "map fst (stored al) = map fst al"
  by (simp add: stored_def comp_def split_def)

lemma map_of_stored: "map_of (stored al) k = map_option (text_encode \<circ> stringify) (map_of al k)"
  by (induction al) (auto simp: stored_def)

lemma projected_set: "projected_data_size d [(k, b)] [] = data_size ((k, b) # AList.delete k d)"
proof -
  have "filter (\<lambda>(x, y). x \<noteq> k) d = AList.delete k d" by (auto simp: AList.delete_eq intro: filter_cong)
  then show ?thesis by (simp add: projected_data_size_def data_size_def)
qed

text \<open>The entry of the store against the expectation.\<close>

definition session_shows :: "store_config \<Rightarrow> session_id \<Rightarrow> native_store \<Rightarrow> (string \<times> json) list \<times> int \<Rightarrow> bool" where
  "session_shows cfg i st s \<longleftrightarrow> data_of st i = stored (fst s) \<and> distinct (map fst (fst s))
     \<and> data_size (stored (fst s)) \<le> sc_maxData cfg
     \<and> (fst s \<noteq> [] \<longrightarrow> (\<exists>e. entry_of st i = Some e \<and> se_expires e = snd s))"

lemma shows_get:
  assumes "session_shows cfg i st s"
  shows "session_shows cfg i (snd (store_get cfg now i st)) (lasting now s, now + sc_maxAge cfg)"
    "(case fst (store_get cfg now i st) of None \<Rightarrow> [] | Some e \<Rightarrow> se_data e) = stored (lasting now s)"
proof -
  show "session_shows cfg i (snd (store_get cfg now i st)) (lasting now s, now + sc_maxAge cfg)"
  proof (cases "entry_of st i")
    case None
    then have "map_of (st (shard_index i)) i = None" "fst s = []"
      using assms by (auto simp: session_shows_def entry_of_def)
    then show ?thesis
      using None by (simp add: store_get_def Let_def session_shows_def lasting_def data_of_def stored_def data_size_def)
  next
    case (Some e)
    then have m: "map_of (st (shard_index i)) i = Some e" by (simp add: entry_of_def)
    show ?thesis
      using assms Some
      by (auto simp: store_get_def Let_def m session_shows_def lasting_def data_of_def touch_def stored_def data_size_def)
  qed
  show "(case fst (store_get cfg now i st) of None \<Rightarrow> [] | Some e \<Rightarrow> se_data e) = stored (lasting now s)"
    using assms
    by (auto simp: store_get_def Let_def session_shows_def lasting_def data_of_def entry_of_def touch_def stored_def
        split: option.splits)
qed

lemma shows_upsert:
  assumes "session_shows cfg i st s" "projected_data_size (data_of st i) ms ds \<le> sc_maxData cfg"
    "apply_data ms ds (stored (fst s)) = stored al" "distinct (map fst al)" "data_size (stored al) \<le> sc_maxData cfg"
  shows "session_shows cfg i (snd (upsert cfg now i ms ds st)) (al, now + sc_maxAge cfg)"
  using upsert_accepted [OF assms(2), of now] assms by (auto simp: session_shows_def data_of_def)

lemma shows_own:
  assumes "session_shows cfg i st s" "length i = SESSION_ID_BYTES" "writes op \<Longrightarrow> fst s = [] \<or> now < snd s"
  shows "session_shows cfg i (memory_step jsonParse cfg now i op st) (session_spec cfg now op s)"
proof (cases op)
  case (DoGet k)
  then show ?thesis
    using shows_get(1) [OF assms(1)] assms(2) by (simp add: memory_step_def memory_get_def sessionGet_def split_beta)
next
  case (DoSet k v)
  have l: "lasting now s = fst s" and d: "data_of st i = stored (fst s)"
    using assms(1,3) DoSet by (auto simp: lasting_def session_shows_def)
  have p: "projected_data_size (data_of st i) [(k, text_encode (stringify v))] [] = data_size (stored ((k, v) # AList.delete k (fst s)))"
    unfolding d projected_set stored_delete [symmetric] by (simp add: stored_def)
  have st: "memory_step jsonParse cfg now i op st = snd (upsert cfg now i [(k, text_encode (stringify v))] [] st)"
    using assms(2) DoSet by (simp add: memory_step_def memory_set_def sessionSet_def)
  show ?thesis
  proof (cases "data_size (stored ((k, v) # AList.delete k (fst s))) \<le> sc_maxData cfg")
    case True
    have "distinct (map fst (stored (fst s)))" using assms(1) by (simp add: session_shows_def stored_keys)
    note small = projected_bounds_data [OF this, of "[(k, text_encode (stringify v))]" "[]"]
    have app: "apply_data [(k, text_encode (stringify v))] [] (stored (fst s)) = stored (AList.update k v (fst s))"
      by (simp add: apply_data_def stored_update)
    have "session_shows cfg i (memory_step jsonParse cfg now i op st) (AList.update k v (fst s), now + sc_maxAge cfg)"
      unfolding st using assms(1) True small p d app
      by (intro shows_upsert [OF assms(1)]) (auto simp: session_shows_def distinct_update)
    then show ?thesis using True DoSet l by simp
  next
    case False
    then have "memory_step jsonParse cfg now i op st = st"
      unfolding st using upsert_rejected [of cfg st i] p by simp
    then show ?thesis using False DoSet l assms(1) by simp
  qed
next
  case (DoDelete k)
  have l: "lasting now s = fst s" and d: "data_of st i = stored (fst s)" and dist: "distinct (map fst (stored (fst s)))"
    using assms(1,3) DoDelete by (auto simp: lasting_def session_shows_def stored_keys)
  have app: "apply_data [] [k] (stored (fst s)) = stored (AList.delete k (fst s))"
    by (simp add: apply_data_def stored_delete)
  have "data_size (filter P x) \<le> data_size x" for P and x :: "(string \<times> byte list) list"
    by (induction x) (auto simp: data_size_def)
  then have p: "projected_data_size (data_of st i) [] [k] \<le> sc_maxData cfg"
    using assms(1) d order_trans by (fastforce simp: projected_data_size_def session_shows_def data_size_def)
  have "session_shows cfg i (snd (upsert cfg now i [] [k] st)) (AList.delete k (fst s), now + sc_maxAge cfg)"
    using assms(1) p projected_bounds_data [OF dist, of "[]" "[k]"] d app
    by (intro shows_upsert [OF assms(1)]) (auto simp: session_shows_def distinct_delete)
  then show ?thesis
    using assms(2) DoDelete l by (simp add: memory_step_def memory_delete_def sessionDelete_def)
next
  case DoDestroy
  then show ?thesis
    using assms(2) by (simp add: memory_step_def memory_destroy_def sessionDestroy_def store_destroy_def Let_def
        session_shows_def data_of_def stored_def data_size_def)
qed

text \<open>Other sessions change neither the entry nor, as long as there is room, the place of it.\<close>

definition native_of :: "int \<Rightarrow> session_id \<Rightarrow> store_op \<Rightarrow> native_op" where
  "native_of now j op =
     (case op of
        DoGet k \<Rightarrow> NGet now j
      | DoSet k v \<Rightarrow> NUpsert now j [(k, text_encode (stringify v))] []
      | DoDelete k \<Rightarrow> NUpsert now j [] [k]
      | DoDestroy \<Rightarrow> NDestroy j)"

lemma memory_step_native:
  "memory_step jsonParse cfg now j op st = (if length j = SESSION_ID_BYTES then native_step cfg st (native_of now j op) else st)"
proof -
  have "hex_decode_id (hex_encode j) = None" if "length j \<noteq> SESSION_ID_BYTES"
    using that by (simp add: hex_decode_id_def length_hex_encode SESSION_ID_BYTES_def SESSION_ID_HEX_LEN_def)
  then show ?thesis
    by (cases op) (simp_all add: memory_step_def native_of_def memory_get_def memory_set_def memory_delete_def memory_destroy_def
        sessionGet_def sessionSet_def sessionDelete_def sessionDestroy_def split_beta)
qed

definition roomy :: "store_config \<Rightarrow> session_id \<Rightarrow> shard \<Rightarrow> bool" where
  "roomy cfg j sh \<longleftrightarrow> map_of sh j \<noteq> None \<or> length sh < sc_maxPerShard cfg"

lemma upsert_shard:
  "roomy cfg j (st (shard_index j)) \<Longrightarrow>
    (\<exists>e. snd (upsert cfg now j ms ds st) = st(shard_index j := AList.update j e (st (shard_index j)))) \<or> snd (upsert cfg now j ms ds st) = st"
  by (auto simp: upsert_def Let_def roomy_def make_room_def)

lemma delete_keys: "fst ` set (AList.delete j sh) \<subseteq> fst ` set sh"
  by (auto simp: AList.delete_eq)

lemma native_shards:
  assumes "roomy cfg j (st (shard_index j))" "distinct (map fst (st (shard_index j)))"
  shows "\<exists>sh. native_step cfg st (native_of now j op) = st(shard_index j := sh) \<and> distinct (map fst sh)
    \<and> fst ` set sh \<subseteq> insert j (fst ` set (st (shard_index j))) \<and> (\<forall>i. i \<noteq> j \<longrightarrow> map_of sh i = map_of (st (shard_index j)) i)"
proof -
  let ?sh = "st (shard_index j)"
  let ?ok = "\<lambda>st'. \<exists>sh. st' = st(shard_index j := sh) \<and> distinct (map fst sh)
    \<and> fst ` set sh \<subseteq> insert j (fst ` set ?sh) \<and> (\<forall>i. i \<noteq> j \<longrightarrow> map_of sh i = map_of ?sh i)"
  have same: "?ok st" using assms(2) by (intro exI [of _ ?sh]) auto
  have upd: "?ok (st(shard_index j := AList.update j e ?sh))" for e
    using assms(2) by (intro exI [of _ "AList.update j e ?sh"]) (auto simp: distinct_update map_of_update dom_update)
  have del: "?ok (st(shard_index j := AList.delete j ?sh))"
    using assms(2) delete_keys [of j ?sh]
    by (intro exI [of _ "AList.delete j ?sh"]) (auto simp: distinct_delete map_of_AList_delete)
  have ups: "?ok (snd (upsert cfg now j ms ds st))" for ms ds
    using upsert_shard [where st = st and j = j and cfg = cfg, OF assms(1)] upd same by metis
  have get: "?ok (snd (store_get cfg now j st))"
    using same upd del by (auto simp: store_get_def Let_def split: option.split)
  show ?thesis using get ups del by (cases op) (simp_all add: native_of_def store_destroy_def Let_def)
qed

lemma native_elsewhere: "k \<noteq> shard_index j \<Longrightarrow> native_step cfg st (native_of now j op) k = st k"
  by (cases op) (auto simp: native_of_def store_get_def upsert_def store_destroy_def Let_def split: option.split)

definition shard_known :: "nat \<Rightarrow> session_id list \<Rightarrow> native_store \<Rightarrow> bool" where
  "shard_known k js st \<longleftrightarrow> distinct (map fst (st k)) \<and> fst ` set (st k) \<subseteq> set js"

lemma known_roomy:
  assumes "shard_known k js st" "distinct js" "length js \<le> sc_maxPerShard cfg" "j \<in> set js"
  shows "roomy cfg j (st k)"
proof (cases "j \<in> fst ` set (st k)")
  case False
  then have "card (insert j (fst ` set (st k))) = Suc (length (st k))"
    using assms(1) distinct_card [of "map fst (st k)"] by (simp add: shard_known_def)
  moreover have "card (insert j (fst ` set (st k))) \<le> length js"
    using assms(1,2,4) card_mono [of "set js" "insert j (fst ` set (st k))"] by (simp add: shard_known_def distinct_card)
  ultimately show ?thesis using assms(3) by (simp add: roomy_def)
qed (auto simp: roomy_def map_of_eq_None_iff)

lemma step_in_shard:
  assumes "shard_known (shard_index i) js st" "distinct js" "length js \<le> sc_maxPerShard cfg"
    "shard_index j = shard_index i \<Longrightarrow> j \<in> set js"
  shows "shard_known (shard_index i) js (memory_step jsonParse cfg now j op st)
    \<and> (j \<noteq> i \<longrightarrow> entry_of (memory_step jsonParse cfg now j op st) i = entry_of st i)"
proof (cases "length j = SESSION_ID_BYTES \<and> shard_index j = shard_index i")
  case True
  have r: "roomy cfg j (st (shard_index j))" using known_roomy [OF assms(1-3)] assms(4) True by simp
  have d: "distinct (map fst (st (shard_index j)))" using assms(1) True by (simp add: shard_known_def)
  from native_shards [where st = st and j = j and cfg = cfg and now = now and op = op, OF r d] obtain sh where
    sh: "native_step cfg st (native_of now j op) = st(shard_index j := sh)" "distinct (map fst sh)"
      "fst ` set sh \<subseteq> insert j (fst ` set (st (shard_index j)))" "i \<noteq> j \<Longrightarrow> map_of sh i = map_of (st (shard_index j)) i"
    by blast
  then show ?thesis
    using assms(1,4) True by (auto simp: memory_step_native shard_known_def entry_of_def)
next
  case False
  then show ?thesis
    using assms(1) native_elsewhere [of "shard_index i" j cfg st now op]
    by (simp add: memory_step_native shard_known_def entry_of_def) metis
qed

lemma shard_mates_member: "(now, j, op) \<in> set ops \<Longrightarrow> shard_index j = k \<Longrightarrow> j \<in> set (shard_mates k ops)"
  by (force simp: shard_mates_def)

lemma in_time_snoc:
  "in_time cfg i (ops @ [(now, j, op)]) \<Longrightarrow> in_time cfg i ops
    \<and> (j = i \<and> writes op \<longrightarrow> fst (session_after cfg i ops) = [] \<or> now < snd (session_after cfg i ops))"
  by (auto simp: in_time_def list_all_iff nth_append split: if_splits)

lemma timed_run_shows:
  assumes "length i = SESSION_ID_BYTES" "distinct js" "length js \<le> sc_maxPerShard cfg"
    "set (shard_mates (shard_index i) ops) \<subseteq> set js" "in_time cfg i ops"
  shows "session_shows cfg i (foldl (timed_step jsonParse cfg) (\<lambda>_. []) ops) (session_after cfg i ops)
    \<and> shard_known (shard_index i) js (foldl (timed_step jsonParse cfg) (\<lambda>_. []) ops)"
  using assms(4,5)
proof (induction ops rule: rev_induct)
  case Nil
  then show ?case
    by (simp add: session_shows_def session_after_def data_of_def entry_of_def stored_def data_size_def shard_known_def)
next
  case (snoc x ops)
  obtain now j op where x: "x = (now, j, op)" by (cases x)
  let ?st = "foldl (timed_step jsonParse cfg) (\<lambda>_. []) ops"
  note t = in_time_snoc [OF snoc.prems(2) [unfolded x]]
  have ih: "session_shows cfg i ?st (session_after cfg i ops)" "shard_known (shard_index i) js ?st"
    using snoc.IH snoc.prems(1) t by (auto simp: shard_mates_def)
  have mate: "shard_index j = shard_index i \<Longrightarrow> j \<in> set js"
    using snoc.prems(1) shard_mates_member [of now j op "ops @ [x]"] by (auto simp: x)
  note step = step_in_shard [OF ih(2) assms(2,3) mate, of jsonParse now op]
  show ?case
  proof (cases "j = i")
    case True
    then show ?thesis
      using shows_own [OF ih(1) assms(1), of op now jsonParse] t step by (simp add: x session_after_def)
  next
    case False
    then show ?thesis using step ih(1) by (simp add: x session_after_def session_shows_def data_of_def)
  qed
qed

lemma session_values_written:
  "(k, v) \<in> set (fst (session_after cfg i ops)) \<Longrightarrow> \<exists>now. (now, i, DoSet k v) \<in> set ops"
proof (induction ops arbitrary: k v rule: rev_induct)
  case (snoc x ops)
  obtain now j op where x: "x = (now, j, op)" by (cases x)
  have l: "set (lasting now s) \<subseteq> set (fst s)" and d: "set (AList.delete k al) \<subseteq> set al"
    for s and k :: string and al :: "(string \<times> json) list"
    by (auto simp: lasting_def AList.delete_eq)
  have "(k, v) \<in> set (fst (session_after cfg i ops)) \<or> j = i \<and> op = DoSet k v"
    using snoc.prems l [of "session_after cfg i ops"] d set_update
    by (cases op) (fastforce simp: x session_after_def split: if_splits)+
  then show ?case using snoc.IH x by auto
qed (simp add: session_after_def)

text \<open>C20: The memory store under any operations on any sessions, each at its own time: what a session answers at any later
  time are the entries of a map under the operations on this session alone, which every access keeps for another
  maximal age and which is empty once that has passed.  The operations must leave room for the sessions of its
  shard, and must not write to the session between its end and the next read.\<close>

theorem memory_session_is_a_map:
  assumes "length i = SESSION_ID_BYTES" "in_time cfg i ops"
    "length (shard_mates (shard_index i) ops) \<le> sc_maxPerShard cfg"
    "\<And>t k v. (t, i, DoSet k v) \<in> set ops \<Longrightarrow> jsonParse (stringify v) = Inr v"
  shows "fst (memory_get jsonParse cfg now (hex_encode i) k (foldl (timed_step jsonParse cfg) (\<lambda>_. []) ops))
    = map_of (lasting now (session_after cfg i ops)) k"
proof -
  let ?st = "foldl (timed_step jsonParse cfg) (\<lambda>_. []) ops" and ?s = "session_after cfg i ops"
  have "session_shows cfg i ?st ?s"
    using timed_run_shows [OF assms(1) _ assms(3) _ assms(2)] by (simp add: shard_mates_def)
  note g = shows_get(2) [OF this, of now]
  have "fst (memory_get jsonParse cfg now (hex_encode i) k ?st)
      = map_option (parse_or_raw jsonParse \<circ> text_decode) (map_of (stored (lasting now ?s)) k)"
    using assms(1) unfolding g [symmetric]
    by (simp add: memory_get_def sessionGet_def split_beta comp_def option.map_comp split: option.split)
  also have "\<dots> = map_option (\<lambda>v. parse_or_raw jsonParse (stringify v)) (map_of (lasting now ?s) k)"
    by (simp add: map_of_stored option.map_comp comp_def)
  also have "\<dots> = map_of (lasting now ?s) k"
  proof (cases "map_of (lasting now ?s) k")
    case (Some v)
    then have "(k, v) \<in> set (fst ?s)" by (auto simp: lasting_def dest: map_of_SomeD split: if_splits)
    then show ?thesis using Some session_values_written assms(4) by (fastforce simp: parse_or_raw_def)
  qed simp
  finally show ?thesis .
qed

definition sample_config :: store_config where
  "sample_config = \<lparr>sc_maxAge = 3600000, sc_maxPerShard = 2, sc_maxData = 16\<rparr>"

definition sample_sid :: session_id where
  "sample_sid = replicate 16 7"

definition sample_parse :: "string \<Rightarrow> string + json" where
  "sample_parse s = (if s = ''5'' then Inr (JNum 5) else Inl s)"

text \<open>Two sessions of one shard: the first is kept alive by a read and read again at 9, but not at 14.\<close>

definition other_sid :: session_id where
  "other_sid = replicate 16 71"

definition brief_config :: store_config where
  "brief_config = \<lparr>sc_maxAge = 6, sc_maxPerShard = 2, sc_maxData = 16\<rparr>"

definition sample_ops :: "timed_op list" where
  "sample_ops = [(0, sample_sid, DoSet ''a'' (JNum 5)), (1, other_sid, DoSet ''a'' (JNum 7)), (4, sample_sid, DoGet ''a''),
     (5, other_sid, DoDestroy)]"

lemma sample_session: "session_after brief_config sample_sid sample_ops = ([(''a'', JNum 5)], 10)"
  by code_simp

theorem memory_session_is_a_map_witness:
  "fst (memory_get sample_parse brief_config 9 (hex_encode sample_sid) ''a''
      (foldl (timed_step sample_parse brief_config) (\<lambda>_. []) sample_ops)) = Some (JNum 5)
   \<and> fst (memory_get sample_parse brief_config 14 (hex_encode sample_sid) ''a''
      (foldl (timed_step sample_parse brief_config) (\<lambda>_. []) sample_ops)) = None"
proof -
  have in_time: "in_time brief_config sample_sid sample_ops" by code_simp
  have r: "length (shard_mates (shard_index sample_sid) sample_ops) \<le> sc_maxPerShard brief_config" by code_simp
  have p: "sample_parse (stringify v) = Inr v" if "(t, sample_sid, DoSet k v) \<in> set sample_ops" for t k v
  proof -
    have "sample_parse (stringify (JNum 5)) = Inr (JNum 5)" by code_simp
    then show ?thesis using that by (auto simp: sample_ops_def other_sid_def sample_sid_def)
  qed
  have l: "length sample_sid = SESSION_ID_BYTES" by (simp add: sample_sid_def SESSION_ID_BYTES_def)
  have m: "fst (memory_get sample_parse brief_config now (hex_encode sample_sid) ''a''
      (foldl (timed_step sample_parse brief_config) (\<lambda>_. []) sample_ops)) = map_of (lasting now ([(''a'', JNum 5)], 10)) ''a''" for now
    by (rule memory_session_is_a_map [OF l in_time r, unfolded sample_session]) (erule p)
  show ?thesis by (simp add: m lasting_def)
qed

text \<open>a value that does not fit into the session is dropped without a sign: the store is unchanged and the value reads as
  before.\<close>

theorem oversized_value_is_dropped:
  assumes "length i = SESSION_ID_BYTES"
    and "projected_data_size (data_of st i) [(k, text_encode (stringify v))] [] > sc_maxData cfg"
  shows "memory_set cfg now (hex_encode i) k v st = st"
  using upsert_rejected [OF assms(2)] assms(1) by (simp add: memory_set_def sessionSet_def)

theorem oversized_value_is_dropped_witness:
  "memory_set sample_config 0 (hex_encode sample_sid) ''key'' (JStr ''a value of many bytes'') (\<lambda>_. []) = (\<lambda>_. [])"
  by (rule oversized_value_is_dropped) code_simp+

text \<open>writing to a session after it has expired brings its old values back: the write renews the entry that the next
  read would have removed.\<close>

theorem expired_session_revives:
  assumes "length i = SESSION_ID_BYTES" "entry_of st i = Some e" "se_expires e \<le> now"
    and "map_of (se_data e) k' = Some b" "k' \<noteq> k" "0 < sc_maxAge cfg"
    and "projected_data_size (se_data e) [(k, text_encode (stringify v))] [] \<le> sc_maxData cfg"
  shows "fst (memory_get jsonParse cfg now (hex_encode i) k' st) = None
    \<and> fst (memory_get jsonParse cfg now (hex_encode i) k' (memory_set cfg now (hex_encode i) k v st))
      = Some (parse_or_raw jsonParse (text_decode b))"
proof -
  have d: "data_of st i = se_data e" using assms(2) by (simp add: data_of_def)
  obtain e' where e': "entry_of (snd (upsert cfg now i [(k, text_encode (stringify v))] [] st)) i = Some e'"
      "se_data e' = apply_data [(k, text_encode (stringify v))] [] (se_data e)" "se_expires e' = now + sc_maxAge cfg"
    using upsert_accepted [of st i "[(k, text_encode (stringify v))]" "[]" cfg now] assms(7) d by auto
  have "fst (memory_get jsonParse cfg now (hex_encode i) k' st) = None"
    using assms(1-3) by (simp add: memory_get_def sessionGet_def store_get_def entry_of_def Let_def)
  then show ?thesis
    using assms e'
    by (simp add: memory_get_def memory_set_def sessionSet_def sessionGet_def store_get_def entry_of_def [symmetric]
        Let_def apply_data_def map_of_update touch_def)
qed

definition old_entry :: sess_entry where
  "old_entry = \<lparr>se_data = [(''u'', text_encode ''5'')], se_created = 0, se_accessed = 0, se_expires = 10\<rparr>"

theorem expired_session_revives_witness:
  "fst (memory_get sample_parse sample_config 20 (hex_encode sample_sid) ''u''
     (memory_set sample_config 20 (hex_encode sample_sid) ''x'' (JNum 5) (\<lambda>_. [(sample_sid, old_entry)]))) = Some (JNum 5)"
proof -
  have "entry_of (\<lambda>_. [(sample_sid, old_entry)]) sample_sid = Some old_entry" by (simp add: entry_of_def)
  then have "fst (memory_get sample_parse sample_config 20 (hex_encode sample_sid) ''u''
     (memory_set sample_config 20 (hex_encode sample_sid) ''x'' (JNum 5) (\<lambda>_. [(sample_sid, old_entry)])))
     = Some (parse_or_raw sample_parse (text_decode (text_encode ''5'')))"
    by (rule conjunct2 [OF expired_session_revives, rotated])
      (simp_all add: old_entry_def sample_config_def sample_sid_def SESSION_ID_BYTES_def projected_data_size_def
        data_size_def int_to_string_def nat_digits.simps)
  then show ?thesis by (simp add: parse_or_raw_def sample_parse_def)
qed

text \<open>C21: whatever sessions are read, written and destroyed at whatever times, no session holds more than the configured
  number of bytes and no shard more than its share of sessions.\<close>

theorem native_store_is_bounded:
  assumes "0 < sc_maxPerShard cfg"
  shows "length (foldl (native_step cfg) (\<lambda>_. []) ops k) \<le> sc_maxPerShard cfg
    \<and> (\<forall>(i, e)\<in>set (foldl (native_step cfg) (\<lambda>_. []) ops k). data_size (se_data e) \<le> sc_maxData cfg)"
  using native_run_ok [of cfg "\<lambda>_. []" ops k] assms by (auto simp: shard_ok_def sized_def)

theorem native_store_is_bounded_witness:
  "length (foldl (native_step sample_config) (\<lambda>_. [])
     [NUpsert 0 (replicate 16 64) [] [], NUpsert 1 (replicate 16 0) [] [], NUpsert 2 (replicate 16 128) [] []] 0) \<le> 2"
  using native_store_is_bounded [of sample_config "[NUpsert 0 (replicate 16 64) [] [], NUpsert 1 (replicate 16 0) [] [],
    NUpsert 2 (replicate 16 128) [] []]" 0] by (simp add: sample_config_def)

text \<open>the cookie built for a session is verified as that session, and a cookie is verified only if it carries the
  signature of the session it names.\<close>

theorem session_cookie_verification:
  assumes "length i = SESSION_ID_BYTES" "length (hmac i) = 32"
  shows "verify_cookie hmac (build_cookie_value hmac i) = Some i
    \<and> (\<forall>cookie j. verify_cookie hmac cookie = Some j \<longrightarrow>
        (\<exists>id_hex sig_hex. cookie = id_hex @ ''.'' @ sig_hex \<and> hex_decode id_hex = Some j \<and> hex_decode sig_hex = Some (hmac j)))"
  using verify_build [of i hmac] assms verify_sound [of hmac] by simp

theorem session_cookie_verification_witness:
  "verify_cookie (\<lambda>_. replicate 32 9) (build_cookie_value (\<lambda>_. replicate 32 9) sample_sid) = Some sample_sid"
  using session_cookie_verification [of sample_sid "\<lambda>_. replicate 32 9"]
  by (simp add: sample_sid_def SESSION_ID_BYTES_def)

end
