(* ===== verification/Session.thy ===== *)
theory Session
  imports MiddlewareKit SessionStore
begin

text \<open>
  The session middleware of \<open>src/src/session.js\<close>: finding or making the id of the session, the object
  \<open>req.session\<close> in front of a store, the cookies, and the two variants of the middleware.  The shared
  state of the dispatcher holds the store and the session object of the request.  At the end the part
  of the native layer that meets it: \<open>resolve_session\<close> and the cookie it adds to a reply
  (\<open>rsrc/src/lib.rs\<close>).
\<close>

section \<open>Configuration and cookies\<close>

record sess_config =
  sn_maxAge :: int
  sn_cookieName :: string
  sn_httpOnly :: bool
  sn_secure :: bool
  sn_sameSite :: string
  sn_path :: string

definition SESSION_DEFAULTS :: sess_config where
  "SESSION_DEFAULTS =
     \<lparr>sn_maxAge = 3600, sn_cookieName = ''sid'', sn_httpOnly = True, sn_secure = False,
      sn_sameSite = ''lax'', sn_path = ''/''\<rparr>"

definition capitalize :: "string \<Rightarrow> string" where
  "capitalize s = toUpperCase (take 1 s) @ toLowerCase (drop 1 s)"

definition session_buildSetCookie :: "string \<Rightarrow> sess_config \<Rightarrow> string" where
  "session_buildSetCookie cookieValue config =
     (let c0 = sn_cookieName config @ ''='' @ cookieValue @ ''; Path='' @ sn_path config @ ''; Max-Age=''
            @ int_to_string (sn_maxAge config);
          c1 = (if sn_httpOnly config then c0 @ ''; HttpOnly'' else c0);
          c2 = (if sn_secure config then c1 @ ''; Secure'' else c1) in
      c2 @ ''; SameSite='' @ capitalize (sn_sameSite config))"

definition buildDestroyCookie :: "sess_config \<Rightarrow> string" where
  "buildDestroyCookie config =
     (let c0 = sn_cookieName config @ ''=; Path='' @ sn_path config @ ''; Max-Age=0'';
          c1 = (if sn_httpOnly config then c0 @ ''; HttpOnly'' else c0);
          c2 = (if sn_secure config then c1 @ ''; Secure'' else c1) in
      c2 @ ''; SameSite='' @ capitalize (sn_sameSite config))"

section \<open>The session id\<close>

text \<open>\<open>replace(/^"|"$/g, "")\<close>\<close>

definition strip_quotes :: "string \<Rightarrow> string" where
  "strip_quotes s =
     (let t = (case s of c # cs \<Rightarrow> if c = DQ then cs else s | [] \<Rightarrow> []) in
      if t \<noteq> [] \<and> last t = DQ then butlast t else t)"

fun session_cookie :: "string \<Rightarrow> string list \<Rightarrow> string option" where
  "session_cookie name [] = None"
| "session_cookie name (part # parts) =
     (let trimmed = trim part in
      if startsWith trimmed (name @ ''='')
      then Some (strip_quotes (trim (drop (length name + 1) trimmed)))
      else session_cookie name parts)"

definition cookie_header :: "'g ctx \<Rightarrow> string" where
  "cookie_header c =
     (if truthy_str (ctx_header c ''cookie'') then the (ctx_header c ''cookie'')
      else if truthy_str (ctx_headers_get c ''cookie'') then the (ctx_headers_get c ''cookie'')
      else [])"

definition set_res_prop :: "string \<Rightarrow> json \<Rightarrow> 'g ctx \<Rightarrow> 'g ctx" where
  "set_res_prop n v c = c\<lparr>cx_obj := (cx_obj c)\<lparr>ro_props := AList.update n v (ro_props (cx_obj c))\<rparr>\<rparr>"

definition get_res_prop :: "string \<Rightarrow> 'g ctx \<Rightarrow> json option" where
  "get_res_prop n c = map_of (ro_props (cx_obj c)) n"

text \<open>\<open>verify\<close> and \<open>newCookie\<close> are the functions of the native module.\<close>

definition resolveSessionId ::
  "(string \<Rightarrow> string option) \<Rightarrow> ('g ctx \<Rightarrow> string option) \<Rightarrow> sess_config \<Rightarrow> 'g ctx \<Rightarrow> string option \<times> 'g ctx" where
  "resolveSessionId verify newCookie config c =
     (let cookieValue = session_cookie (sn_cookieName config) (split_on (CHR '';'') (cookie_header c));
          verified = (if truthy_str cookieValue then verify (the cookieValue) else None) in
      if truthy_str verified
      then (verified,
            set_res_prop ''_sessionIsNew'' (JBool False) (set_res_prop ''_sessionId'' (JStr (the verified)) c))
      else
        (case newCookie c of
           None \<Rightarrow> (None, c)
         | Some cookie \<Rightarrow>
             if cookie = [] then (None, c)
             else
               (let newId = (case indexOf cookie ''.'' of Some i \<Rightarrow> take i cookie | None \<Rightarrow> cookie) in
                (Some newId,
                 set_res_prop ''_sessionCookie'' (JStr cookie)
                   (set_res_prop ''_sessionIsNew'' (JBool True) (set_res_prop ''_sessionId'' (JStr newId) c))))))"

section \<open>The session object\<close>

record session_obj =
  so_id :: "string option"
  so_destroyed :: bool
  so_dirty :: bool

record 's sess_glob =
  sg_store :: 's
  sg_session :: "session_obj option"

text \<open>The four operations of a store, by session id.\<close>

record 's store_ops =
  op_get :: "string \<Rightarrow> string \<Rightarrow> 's \<Rightarrow> json option \<times> 's"
  op_set :: "string \<Rightarrow> string \<Rightarrow> json \<Rightarrow> 's \<Rightarrow> 's"
  op_delete :: "string \<Rightarrow> string \<Rightarrow> 's \<Rightarrow> 's"
  op_destroy :: "string \<Rightarrow> 's \<Rightarrow> 's"

definition inert :: "session_obj \<Rightarrow> bool" where
  "inert so \<longleftrightarrow> so_destroyed so \<or> \<not> truthy_str (so_id so)"

definition session_get :: "'s store_ops \<Rightarrow> string \<Rightarrow> session_obj \<Rightarrow> 's \<Rightarrow> json option \<times> session_obj \<times> 's" where
  "session_get ops key so st =
     (if inert so then (None, so, st)
      else (let (v, st') = op_get ops (the (so_id so)) key st in (v, so, st')))"

definition session_has :: "'s store_ops \<Rightarrow> string \<Rightarrow> session_obj \<Rightarrow> 's \<Rightarrow> bool \<times> session_obj \<times> 's" where
  "session_has ops key so st =
     (if inert so then (False, so, st)
      else (let (v, st') = op_get ops (the (so_id so)) key st in (v \<noteq> None, so, st')))"

definition session_set :: "'s store_ops \<Rightarrow> string \<Rightarrow> json \<Rightarrow> session_obj \<Rightarrow> 's \<Rightarrow> session_obj \<times> 's" where
  "session_set ops key v so st =
     (if inert so then (so, st) else (so\<lparr>so_dirty := True\<rparr>, op_set ops (the (so_id so)) key v st))"

definition session_delete :: "'s store_ops \<Rightarrow> string \<Rightarrow> session_obj \<Rightarrow> 's \<Rightarrow> session_obj \<times> 's" where
  "session_delete ops key so st =
     (if inert so then (so, st) else (so\<lparr>so_dirty := True\<rparr>, op_delete ops (the (so_id so)) key st))"

definition session_destroy :: "'s store_ops \<Rightarrow> session_obj \<Rightarrow> 's \<Rightarrow> session_obj \<times> 's" where
  "session_destroy ops so st =
     (if \<not> truthy_str (so_id so) then (so, st)
      else (so\<lparr>so_destroyed := True, so_dirty := True\<rparr>, op_destroy ops (the (so_id so)) st))"

text \<open>\<open>attachSession\<close> and \<open>flushSession\<close>.\<close>

definition json_or_null :: "string option \<Rightarrow> json" where
  "json_or_null s = (case s of Some x \<Rightarrow> JStr x | None \<Rightarrow> JNull)"

definition attachSession :: "string option \<Rightarrow> 's sess_glob ctx \<Rightarrow> 's sess_glob ctx" where
  "attachSession sid c =
     (let c1 = set_extra ''sessionId'' (json_or_null sid) c in
      c1\<lparr>cx_glob := (cx_glob c1)\<lparr>sg_session := Some \<lparr>so_id = sid, so_destroyed = False, so_dirty = False\<rparr>\<rparr>\<rparr>)"

definition prop_text :: "json option \<Rightarrow> string" where
  "prop_text v = (case v of Some (JStr s) \<Rightarrow> s | _ \<Rightarrow> ''undefined'')"

definition flushSession :: "sess_config \<Rightarrow> 's sess_glob ctx \<Rightarrow> 's sess_glob ctx" where
  "flushSession config c =
     (case sg_session (cx_glob c) of
        None \<Rightarrow> c
      | Some so \<Rightarrow>
          if get_res_prop ''_sessionIsNew'' c = Some (JBool True) \<and> so_dirty so \<and> \<not> so_destroyed so
          then set_header ''set-cookie''
            (session_buildSetCookie (prop_text (get_res_prop ''_sessionCookie'' c)) config) c
          else if so_destroyed so then set_header ''set-cookie'' (buildDestroyCookie config) c
          else c)"

section \<open>The middleware\<close>

definition begin_session ::
  "(string \<Rightarrow> string option) \<Rightarrow> ('s sess_glob ctx \<Rightarrow> string option) \<Rightarrow> sess_config
    \<Rightarrow> 's sess_glob ctx \<Rightarrow> 's sess_glob ctx" where
  "begin_session verify newCookie config c =
     (let (sid, c1) = resolveSessionId verify newCookie config c in attachSession sid c1)"

datatype store_kind = MemoryStoreKind | AsyncStoreKind

definition session ::
  "(string \<Rightarrow> string option) \<Rightarrow> ('s sess_glob ctx \<Rightarrow> string option) \<Rightarrow> store_kind \<Rightarrow> sess_config
    \<Rightarrow> ('s sess_glob ctx, error_value) middleware" where
  "session verify newCookie kind config =
     (if kind = AsyncStoreKind
      then \<lparr>needsNext = True, isAsync = True,
            body = Act (begin_session verify newCookie config)
              (Next (Act (flushSession config) Return) (\<lambda>_. None))\<rparr>
      else \<lparr>needsNext = True, isAsync = False,
            body = Act (begin_session verify newCookie config) pass\<rparr>)"

interpretation session_gate: gate "session verify newCookie MemoryStoreKind config" "\<lambda>_. True"
    "begin_session verify newCookie config" id
  for verify newCookie config
  by unfold_locales (simp_all add: session_def exec_pass)

section \<open>The native side of a reply\<close>

text \<open>\<open>response_body_end_offset\<close>: past the fixed header, the headers and the body.\<close>

fun skip_headers :: "nat \<Rightarrow> byte list \<Rightarrow> nat \<Rightarrow> nat option" where
  "skip_headers 0 b off = Some off"
| "skip_headers (Suc n) b off =
     (if off + 3 > length b then None
      else (case (readU8 b off, readU16 b (off + 1)) of
              (Inr name_len, Inr value_len) \<Rightarrow> skip_headers n b (off + 3 + name_len + value_len)
            | _ \<Rightarrow> None))"

definition response_body_end_offset :: "byte list \<Rightarrow> nat option" where
  "response_body_end_offset b =
     (if length b < 8 then None
      else (case (readU16 b 2, readU32 b 4) of
              (Inr header_count, Inr body_length) \<Rightarrow>
                map_option (\<lambda>off. off + body_length) (skip_headers header_count b 8)
            | _ \<Rightarrow> None))"

text \<open>The magic bytes of a session trailer, behind the cache trailer if there is one.\<close>

definition session_trailer_at :: "byte list \<Rightarrow> nat \<Rightarrow> bool" where
  "session_trailer_at b body_end =
     (let off = (if body_end + 10 \<le> length b \<and> b ! body_end = 0xCA \<and> b ! (body_end + 1) = 0xCE
                 then body_end + 10 else body_end) in
      off + 7 \<le> length b \<and> b ! off = 0x5E \<and> b ! (off + 1) = 0x57)"

text \<open>
  What the native layer adds to a reply that carries no session trailer: the cookie value it sets, if
  any, and the store.  Replies with a trailer (\<open>None\<close>) are never written by the JavaScript side.
\<close>

definition native_reply ::
  "(byte list \<Rightarrow> byte list) \<Rightarrow> store_config \<Rightarrow> int \<Rightarrow> byte list \<Rightarrow> session_id \<Rightarrow> bool \<Rightarrow> native_store
    \<Rightarrow> (string option \<times> native_store) option" where
  "native_reply hmac cfg now reply sid is_new st =
     (case response_body_end_offset reply of
        None \<Rightarrow> Some (None, st)
      | Some body_end \<Rightarrow>
          if session_trailer_at reply body_end then None
          else if is_new then Some (Some (build_cookie_value hmac sid), snd (upsert cfg now sid [] [] st))
          else Some (None, st))"

lemma skip_response_headers:
  assumes "\<forall>h\<in>set hs. fits_header h" "drop off b = response_header_bytes hs @ rest" "off \<le> length b"
  shows "skip_headers (length hs) b off = Some (off + length (response_header_bytes hs))"
  using assms
proof (induction hs arbitrary: off)
  case Nil
  then show ?case by (simp add: response_header_bytes_def)
next
  case (Cons h hs)
  obtain n v where h: "h = (n, v)" by (cases h)
  have fit: "length n < 256" "length v < 65536" using Cons.prems(1) by (auto simp: h fits_header_def)
  have d0: "drop off b = u8le (int (length n)) @ u16le (int (length v)) @ text_encode n @ text_encode v
      @ response_header_bytes hs @ rest"
    using Cons.prems(2) by (simp add: response_header_bytes_def h enc_header_def)
  have d1: "drop (off + 1) b = u16le (int (length v)) @ text_encode n @ text_encode v @ response_header_bytes hs @ rest"
    using drop_cur [OF d0] by (simp add: u8le_def)
  have len: "length (u8le x) = 1" "length (u16le x) = 2" for x by (simp_all add: u8le_def u16le_def)
  have l: "off + 3 + length n + length v \<le> length b"
    using arg_cong [OF d0, of length] Cons.prems(3) by (simp add: len)
  have d2: "drop (off + 3 + length n + length v) b = response_header_bytes hs @ rest"
  proof -
    have "drop (3 + length n + length v) (drop off b) = response_header_bytes hs @ rest"
      unfolding d0 by (simp add: len)
    then show ?thesis by (simp add: add.commute add.left_commute)
  qed
  have "readU8 b off = Inr (length n)" using readU8_cur [OF d0 fit(1)] .
  moreover have "readU16 b (off + 1) = Inr (length v)" using readU16_cur [OF d1 fit(2)] .
  ultimately have "skip_headers (length (h # hs)) b off = skip_headers (length hs) b (off + 3 + length n + length v)"
    using l by simp
  also have "\<dots> = Some (off + 3 + length n + length v + length (response_header_bytes hs))"
    using Cons.IH [OF _ d2 l] Cons.prems(1) by simp
  finally show ?case by (simp add: response_header_bytes_def h enc_header_def len)
qed

definition sendable :: "snapshot \<Rightarrow> bool" where
  "sendable sn \<longleftrightarrow> (\<forall>h\<in>set (sn_headers sn). fits_header h) \<and> length (sn_headers sn) < 65536
     \<and> length (sn_body sn) < 4294967296"

lemma frame_body_end:
  assumes "sendable sn"
  shows "response_body_end_offset (response_frame sn)
    = Some (8 + length (response_header_bytes (sn_headers sn)) + length (sn_body sn))"
proof -
  let ?b = "response_frame sn"
  let ?H = "response_header_bytes (sn_headers sn)"
  have len: "length (u16le x) = 2" "length (u32le x) = 4" for x by (simp_all add: u16le_def u32le_def)
  have d2: "drop 2 ?b = u16le (int (length (sn_headers sn))) @ u32le (int (length (sn_body sn)))
      @ ?H @ sn_body sn @ ncache_trailer (sn_ncache sn)"
    by (simp add: response_frame_def len)
  have d4: "drop 4 ?b = u32le (int (length (sn_body sn))) @ ?H @ sn_body sn @ ncache_trailer (sn_ncache sn)"
    by (simp add: response_frame_def len)
  have d8: "drop 8 ?b = ?H @ sn_body sn @ ncache_trailer (sn_ncache sn)"
    by (simp add: response_frame_def len)
  have "8 \<le> length ?b" by (simp add: response_frame_def len)
  moreover have "readU16 ?b 2 = Inr (length (sn_headers sn))"
    using readU16_cur [OF d2] assms by (simp add: sendable_def)
  moreover have "readU32 ?b 4 = Inr (length (sn_body sn))"
    using readU32_cur [OF d4] assms by (simp add: sendable_def)
  moreover have "skip_headers (length (sn_headers sn)) ?b 8 = Some (8 + length ?H)"
    using skip_response_headers [OF _ d8] assms calculation(1) by (simp add: sendable_def)
  ultimately show ?thesis by (simp add: response_body_end_offset_def)
qed

lemma frame_no_trailer:
  "\<not> session_trailer_at (response_frame sn) (8 + length (response_header_bytes (sn_headers sn)) + length (sn_body sn))"
proof -
  let ?e = "8 + length (response_header_bytes (sn_headers sn)) + length (sn_body sn)"
  have len: "length (response_frame sn) = ?e + length (ncache_trailer (sn_ncache sn))"
    by (simp add: response_frame_def u16le_def u32le_def)
  show ?thesis
  proof (cases "sn_ncache sn")
    case None
    then show ?thesis using len by (simp add: session_trailer_at_def Let_def ncache_trailer_def)
  next
    case (Some p)
    obtain ttl mx where p: "p = (ttl, mx)" by (cases p)
    have tr: "ncache_trailer (sn_ncache sn) = 0xca # 0xce # u32le ttl @ u32le mx"
      by (simp add: ncache_trailer_def Some p)
    define pre where "pre = u16le (sn_status sn) @ u16le (int (length (sn_headers sn)))
      @ u32le (int (length (sn_body sn))) @ response_header_bytes (sn_headers sn) @ sn_body sn"
    have f: "response_frame sn = pre @ 0xca # 0xce # u32le ttl @ u32le mx" "length pre = ?e"
      by (simp_all add: pre_def response_frame_def tr u16le_def u32le_def)
    then have "response_frame sn ! ?e = 0xca" "response_frame sn ! (?e + 1) = 0xce"
      by (metis nth_append_length) (simp add: f(1) nth_append f(2) [symmetric])
    then show ?thesis using len by (simp add: session_trailer_at_def Let_def tr u32le_def)
  qed
qed

section \<open>Sessions across requests\<close>

lemma make_room_entry: "map_of sh j = None \<Longrightarrow> map_of (make_room cfg sh) j = None"
  by (rule make_room_absent)

lemma upsert_other:
  assumes "i \<noteq> j" "entry_of st j = None"
  shows "entry_of (snd (upsert cfg now i ms ds st)) j = None"
  using assms make_room_absent [of "st (shard_index i)" j cfg]
  by (auto simp: upsert_def entry_of_def Let_def map_of_update)

lemma empty_session_reads_nothing:
  assumes "length j = SESSION_ID_BYTES" "entry_of st j = None"
  shows "fst (memory_get jsonParse cfg now' (hex_encode j) k (snd (upsert cfg now j [] [] st))) = None"
proof -
  have d: "data_of st j = []" using assms(2) by (simp add: data_of_def)
  then obtain e where e: "entry_of (snd (upsert cfg now j [] [] st)) j = Some e" "se_data e = []"
    using upsert_accepted [of st j "[]" "[]" cfg now] by (auto simp: projected_data_size_def data_size_def apply_data_def)
  show ?thesis
    using assms(1) e
    by (simp add: memory_get_def sessionGet_def store_get_def Let_def entry_of_def [symmetric] touch_def)
qed

lemma session_cookie_pairs:
  assumes "\<forall>p\<in>set ps. cookie_pair_ok p" "CHR ''='' \<notin> set name"
  shows "map trim qs = map pair_text ps
    \<Longrightarrow> session_cookie name qs = map_option (\<lambda>v. strip_quotes (trim v)) (map_of ps name)"
  using assms(1)
proof (induction ps arbitrary: qs)
  case (Cons p ps)
  obtain n v where p: "p = (n, v)" by (cases p)
  obtain q qs' where qs: "qs = q # qs'" "trim q = pair_text p" "map trim qs' = map pair_text ps"
    using Cons.prems(1) by (cases qs) auto
  have "startsWith (pair_text (n, v)) (name @ ''='') \<longleftrightarrow> n = name"
    using cookie_prefix assms(2) Cons.prems(2) p by (auto simp: cookie_pair_ok_def)
  then show ?case
    using Cons.IH [OF qs(3)] Cons.prems(2) qs by (auto simp: p pair_text_def Let_def)
qed simp

definition signed_verify :: "(byte list \<Rightarrow> byte list) \<Rightarrow> string \<Rightarrow> string option" where
  "signed_verify hmac cookie = map_option hex_encode (verify_cookie hmac cookie)"

lemma hex_plain: "c \<in> set (hex_encode bs) \<Longrightarrow> \<not> is_ws c \<and> c \<noteq> DQ \<and> c \<noteq> CHR '';''"
proof (induction bs)
  case (Cons b bs)
  have p: "n < 16 \<Longrightarrow> \<not> is_ws (hex_lower n) \<and> hex_lower n \<noteq> DQ \<and> hex_lower n \<noteq> CHR '';''" for n
    using hex_nibble_lower [of n] by (auto simp: is_ws_def DQ_def hex_nibble_def)
  have "unat b div 16 < 16" "unat b mod 16 < 16" using unat_byte_lt [of b] by simp_all
  then show ?case using Cons p by (auto simp: hex_encode_def)
qed (simp add: hex_encode_def)

lemma cookie_value_plain:
  assumes "c \<in> set (build_cookie_value hmac i)"
  shows "\<not> is_ws c \<and> c \<noteq> DQ \<and> c \<noteq> CHR '';''"
  using assms hex_plain by (auto simp: build_cookie_value_def is_ws_def DQ_def)

lemma cookie_value_stripped: "strip_quotes (trim (build_cookie_value hmac i)) = build_cookie_value hmac i"
proof -
  let ?v = "build_cookie_value hmac i"
  have t: "trim ?v = ?v" using cookie_value_plain by (intro trim_id) blast
  have ne: "?v \<noteq> []" by (simp add: build_cookie_value_def)
  then have "hd ?v \<noteq> DQ" "last ?v \<noteq> DQ" using cookie_value_plain [of _ hmac i] by auto
  then show ?thesis unfolding t using ne by (cases ?v) (simp_all add: strip_quotes_def Let_def)
qed

lemma resolve_signed:
  assumes "\<forall>p\<in>set ps. cookie_pair_ok p" "CHR ''='' \<notin> set (sn_cookieName config)"
    and "map_of ps (sn_cookieName config) = Some (build_cookie_value hmac i)"
    and "length i = SESSION_ID_BYTES" "length (hmac i) = 32"
    and "ctx_header c ''cookie'' = Some (cookie_text ps)"
  shows "resolveSessionId (signed_verify hmac) newCookie config c
    = (Some (hex_encode i),
       set_res_prop ''_sessionIsNew'' (JBool False) (set_res_prop ''_sessionId'' (JStr (hex_encode i)) c))"
proof -
  have ne: "ps \<noteq> []" using assms(3) by auto
  then have "cookie_text ps \<noteq> []"
    by (cases ps; cases "tl ps") (auto simp: cookie_text_def pair_text_def)
  then have h: "cookie_header c = cookie_text ps"
    using assms(6) by (simp add: cookie_header_def truthy_str_def)
  have "session_cookie (sn_cookieName config) (split_on (CHR '';'') (cookie_header c)) = Some (build_cookie_value hmac i)"
    using session_cookie_pairs [OF assms(1,2) cookie_parts [OF assms(1) ne]] assms(3)
    by (simp add: h cookie_value_stripped)
  moreover have "hex_encode i \<noteq> []"
    using assms(4) length_hex_encode [of i] by (auto simp: SESSION_ID_BYTES_def)
  moreover have "signed_verify hmac (build_cookie_value hmac i) = Some (hex_encode i)"
    using verify_build [of i hmac] assms(4,5) by (simp add: signed_verify_def)
  ultimately show ?thesis
    by (simp add: resolveSessionId_def truthy_str_def build_cookie_value_def)
qed

lemma clean_flush:
  "sg_session (cx_glob c) = Some so \<Longrightarrow> \<not> so_dirty so \<Longrightarrow> \<not> so_destroyed so \<Longrightarrow> flushSession config c = c"
  by (simp add: flushSession_def)

lemma begin_session_clean:
  "\<exists>sid. sg_session (cx_glob (begin_session verify newCookie config c))
    = Some \<lparr>so_id = sid, so_destroyed = False, so_dirty = False\<rparr>"
  by (simp add: begin_session_def attachSession_def split_beta Let_def)

lemma resolve_keeps_response [simp]:
  "cx_res (snd (resolveSessionId verify newCookie config c)) = cx_res c"
  by (auto simp: resolveSessionId_def set_res_prop_def Let_def split: option.split)

lemma begin_session_response [simp]: "cx_res (begin_session verify newCookie config c) = cx_res c"
  by (simp add: begin_session_def attachSession_def split_beta Let_def)

lemma begin_flush: "flushSession config (begin_session verify newCookie config c) = begin_session verify newCookie config c"
  using begin_session_clean [of verify newCookie config c] clean_flush by fastforce

section \<open>Properties\<close>

text \<open>a request that presents the cookie of a session, among any other cookies, gets that session.\<close>

theorem session_cookie_resolves:
  assumes "\<forall>p\<in>set ps. cookie_pair_ok p" "CHR ''='' \<notin> set (sn_cookieName config)"
    and "map_of ps (sn_cookieName config) = Some (build_cookie_value hmac i)"
    and "length i = SESSION_ID_BYTES" "length (hmac i) = 32"
    and "ctx_header c ''cookie'' = Some (cookie_text ps)"
  shows "fst (resolveSessionId (signed_verify hmac) newCookie config c) = Some (hex_encode i)"
  using resolve_signed [OF assms] by simp

text \<open>what a handler writes to the session of a new visitor of the memory store is lost.  It is written under the id that
  the middleware made, but the native layer makes an id of its own for the visitor and sends the cookie of
  that one: the cookie is verified as another session, in which nothing reads as written.\<close>

theorem first_visit_session_is_lost:
  assumes "length a = SESSION_ID_BYTES" "length b = SESSION_ID_BYTES" "a \<noteq> b" "length (hmac b) = 32"
    and "entry_of st b = None" "sendable sn"
  shows "\<exists>cookie st'. native_reply hmac cfg now (response_frame sn) b True (memory_set cfg now (hex_encode a) k v st)
      = Some (Some cookie, st')
    \<and> verify_cookie hmac cookie = Some b \<and> fst (memory_get jsonParse cfg now' (hex_encode b) k st') = None"
proof -
  let ?st1 = "memory_set cfg now (hex_encode a) k v st"
  have "entry_of ?st1 b = None"
    using upsert_other [OF assms(3,5)] assms(1) by (simp add: memory_set_def sessionSet_def)
  then have "fst (memory_get jsonParse cfg now' (hex_encode b) k (snd (upsert cfg now b [] [] ?st1))) = None"
    using empty_session_reads_nothing assms(2) by blast
  moreover have "native_reply hmac cfg now (response_frame sn) b True ?st1
      = Some (Some (build_cookie_value hmac b), snd (upsert cfg now b [] [] ?st1))"
    using frame_body_end [OF assms(6)] frame_no_trailer by (simp add: native_reply_def)
  moreover have "verify_cookie hmac (build_cookie_value hmac b) = Some b"
    using verify_build [of b hmac] assms(2,4) by simp
  ultimately show ?thesis by blast
qed

theorem first_visit_session_is_lost_witness:
  "\<exists>cookie st'. native_reply (\<lambda>_. replicate 32 9) sample_config 0 (response_frame sample_snapshot) (replicate 16 8) True
      (memory_set sample_config 0 (hex_encode sample_sid) ''user'' (JNum 5) (\<lambda>_. [])) = Some (Some cookie, st')
    \<and> verify_cookie (\<lambda>_. replicate 32 9) cookie = Some (replicate 16 8)
    \<and> fst (memory_get sample_parse sample_config 1 (hex_encode (replicate 16 8)) ''user'' st') = None"
  by (rule first_visit_session_is_lost)
    (simp_all add: sample_sid_def SESSION_ID_BYTES_def entry_of_def sendable_def sample_snapshot_def fits_header_def)

text \<open>with an asynchronous store the flush that sends the cookie runs before the handler of the route, on a session
  nothing has touched: the response gets no cookie from it, whatever the handler then does to the session.\<close>

theorem async_session_flushes_too_early:
  fixes rt :: "'s sess_glob route"
  assumes "rt_middlewares rt = [session verify newCookie AsyncStoreKind config]" "\<not> res_finished c"
  shows "\<exists>r. stt r = begin_session verify newCookie config c \<and> cx_res (stt r) = cx_res c
    \<and> run_route rt c = call_handler (rt_handler rt) r"
proof -
  let ?r = "\<lparr>idx = -1, entered = [0], stt = begin_session verify newCookie config c\<rparr>"
  have open_res: "\<not> res_finished (begin_session verify newCookie config c)"
    using assms(2) by (simp add: res_finished_def)
  have "run_route rt c = call_handler (rt_handler rt) ?r"
    using assms open_res begin_flush [of config verify newCookie c]
    by (simp add: run_route_def createMiddlewareRunner_def run_single_sync_def session_def as_promise_def
        start_run_def call_out_def noop_next_sync_def noop_next_def split_beta)
  then show ?thesis by (intro exI [of _ ?r]) simp
qed

definition empty_glob :: "native_store sess_glob" where
  "empty_glob = \<lparr>sg_store = (\<lambda>_. []), sg_session = None\<rparr>"

definition session_route :: "native_store sess_glob route" where
  "session_route =
     \<lparr>rt_handlerId = 300, rt_middlewares = [session Some (\<lambda>_. Some ''id.sig'') AsyncStoreKind SESSION_DEFAULTS],
      rt_handler = \<lparr>h_async = False, h_body = Return\<rparr>, rt_plan = createEmptyAccessPlan, rt_paramNames = [],
      rt_method = ''GET'', rt_serializer = default_serializer\<rparr>"

definition session_ctx :: "native_store sess_glob ctx" where
  "session_ctx = fst (make_ctx ERROR_REQUEST_PLAN [] (Some ''GET'') default_serializer sample_envelope
     \<lparr>wd_cache = [], wd_reqPool = [], wd_resPools = \<lparr>rp_states = [], rp_objects = []\<rparr>,
      wd_routeCaches = (\<lambda>_. None), wd_glob = empty_glob\<rparr>)"

theorem async_session_flushes_too_early_witness:
  "\<exists>r. stt r = begin_session Some (\<lambda>_. Some ''id.sig'') SESSION_DEFAULTS session_ctx
    \<and> cx_res (stt r) = cx_res session_ctx
    \<and> run_route session_route session_ctx = call_handler (rt_handler session_route) r"
proof (rule async_session_flushes_too_early)
  have "cx_res session_ctx = fresh_state"
    using make_ctx_fresh [OF prod.collapse [symmetric]] unfolding session_ctx_def by blast
  then show "\<not> res_finished session_ctx" by (simp add: res_finished_def fresh_state_def)
qed (simp add: session_route_def)

text \<open>a destroyed session answers nothing and changes nothing any more, and its cookie is deleted when the session is
  flushed.\<close>

theorem destroyed_session_is_inert:
  assumes "so_id so = Some sid" "sid \<noteq> []" "session_destroy ops so st = (so', st')"
  shows "st' = op_destroy ops sid st
    \<and> session_get ops k so' st' = (None, so', st') \<and> session_set ops k v so' st' = (so', st')
    \<and> session_delete ops k so' st' = (so', st')
    \<and> (sg_session (cx_glob c) = Some so' \<longrightarrow>
        flushSession config c = set_header ''set-cookie'' (buildDestroyCookie config) c)"
  using assms
  by (auto simp: session_destroy_def session_get_def session_set_def session_delete_def inert_def truthy_str_def
      flushSession_def)

definition memory_ops :: "native_store store_ops" where
  "memory_ops =
     \<lparr>op_get = memory_get sample_parse sample_config 0, op_set = memory_set sample_config 0,
      op_delete = memory_delete sample_config 0, op_destroy = memory_destroy\<rparr>"

theorem destroyed_session_is_inert_witness:
  "session_get memory_ops ''k'' \<lparr>so_id = Some ''s'', so_destroyed = True, so_dirty = True\<rparr> (\<lambda>_. [])
    = (None, \<lparr>so_id = Some ''s'', so_destroyed = True, so_dirty = True\<rparr>, \<lambda>_. [])"
proof -
  let ?o = "\<lparr>so_id = Some ''s'', so_destroyed = False, so_dirty = False\<rparr>"
  have "session_destroy memory_ops ?o (\<lambda>_. []) = (\<lparr>so_id = Some ''s'', so_destroyed = True, so_dirty = True\<rparr>, \<lambda>_. [])"
    by (simp add: session_destroy_def truthy_str_def memory_ops_def memory_destroy_def sessionDestroy_def
        hex_decode_id_def SESSION_ID_HEX_LEN_def)
  from conjunct1 [OF conjunct2 [OF destroyed_session_is_inert [OF _ _ this]]] show ?thesis by simp
qed

end
