(* ===== verification/RateLimit.thy ===== *)
theory RateLimit
  imports MiddlewareKit
begin

text \<open>
  Rate limits: the sliding window of the native layer (\<open>rsrc/src/rate_limit.rs\<close>), and the options,
  the limiter and the middleware of \<open>src/src/rate-limit.js\<close> in front of it.  Times are milliseconds.
\<close>

section \<open>The sliding window\<close>

definition U32_MAX :: nat where "U32_MAX = 4294967295"

definition sat_add :: "nat \<Rightarrow> nat \<Rightarrow> nat" where
  "sat_add a b = min U32_MAX (a + b)"

record bucket =
  bk_events :: "(nat \<times> nat) list"
  bk_total :: nat
  bk_seen :: nat

definition empty_bucket :: bucket where
  "empty_bucket = \<lparr>bk_events = [], bk_total = 0, bk_seen = 0\<rparr>"

fun prune :: "nat \<Rightarrow> (nat \<times> nat) list \<Rightarrow> nat \<Rightarrow> (nat \<times> nat) list \<times> nat" where
  "prune cutoff [] tot = ([], tot)"
| "prune cutoff ((ts, n) # es) tot =
     (if ts > cutoff then ((ts, n) # es, tot) else prune cutoff es (tot - n))"

definition prune_expired :: "nat \<Rightarrow> nat \<Rightarrow> bucket \<Rightarrow> bucket" where
  "prune_expired now window_ms b =
     (let (es, tot) = prune (now - window_ms) (bk_events b) (bk_total b) in
      b\<lparr>bk_events := es, bk_total := tot\<rparr>)"

definition push_hit :: "nat \<Rightarrow> nat \<Rightarrow> bucket \<Rightarrow> bucket" where
  "push_hit now cost b =
     (if bk_events b \<noteq> [] \<and> fst (last (bk_events b)) = now
      then b\<lparr>bk_events := butlast (bk_events b) @ [(now, sat_add (snd (last (bk_events b))) cost)],
             bk_total := sat_add (bk_total b) cost\<rparr>
      else b\<lparr>bk_events := bk_events b @ [(now, cost)], bk_total := sat_add (bk_total b) cost\<rparr>)"

definition reset_at_ms :: "nat \<Rightarrow> nat \<Rightarrow> bucket \<Rightarrow> nat" where
  "reset_at_ms now window_ms b =
     (case bk_events b of (ts, n) # es \<Rightarrow> ts + window_ms | [] \<Rightarrow> now + window_ms)"

definition can_collect :: "nat \<Rightarrow> nat \<Rightarrow> bucket \<Rightarrow> bool" where
  "can_collect now window_ms b \<longleftrightarrow> bk_total b = 0 \<and> now - bk_seen b > window_ms"

definition retry_after_secs :: "nat \<Rightarrow> nat \<Rightarrow> nat" where
  "retry_after_secs now reset_at =
     (let delta = reset_at - now in if delta = 0 then 1 else (delta + 999) div 1000)"

record decision =
  dc_allowed :: bool
  dc_limit :: nat
  dc_remaining :: nat
  dc_resetAtMs :: nat
  dc_retryAfterSecs :: nat

definition bucket_check :: "nat \<Rightarrow> nat \<Rightarrow> nat \<Rightarrow> nat \<Rightarrow> bucket \<Rightarrow> decision \<times> bucket" where
  "bucket_check mx window_ms cost now b =
     (let b1 = (prune_expired now window_ms b)\<lparr>bk_seen := now\<rparr>;
          projected = sat_add (bk_total b1) cost in
      if projected > mx
      then (let reset = reset_at_ms now window_ms b1 in
            (\<lparr>dc_allowed = False, dc_limit = mx, dc_remaining = 0, dc_resetAtMs = reset,
              dc_retryAfterSecs = retry_after_secs now reset\<rparr>, b1))
      else (let b2 = push_hit now cost b1 in
            (\<lparr>dc_allowed = True, dc_limit = mx, dc_remaining = mx - bk_total b2,
              dc_resetAtMs = reset_at_ms now window_ms b2, dc_retryAfterSecs = 0\<rparr>, b2)))"

text \<open>The table of all buckets; its iteration order is the order of the list.\<close>

type_synonym limiter = "(string \<times> bucket) list"

definition NAMESPACE_SEPARATOR :: char where "NAMESPACE_SEPARATOR = CHR 0x1F"
definition MAX_RATE_LIMIT_ENTRIES :: nat where "MAX_RATE_LIMIT_ENTRIES = 100000"
definition EVICTION_TARGET :: nat where "EVICTION_TARGET = 80000"
definition EVICT_STALE_THRESHOLD_MS :: nat where "EVICT_STALE_THRESHOLD_MS = 3600000"

definition storage_key :: "string \<Rightarrow> string \<Rightarrow> string" where
  "storage_key namespace key = namespace @ [NAMESPACE_SEPARATOR] @ key"

definition maybe_evict :: "nat \<Rightarrow> limiter \<Rightarrow> limiter" where
  "maybe_evict now m =
     (if length m \<le> MAX_RATE_LIMIT_ENTRIES then m
      else
        (let m1 = filter (\<lambda>(k, b). \<not> now - bk_seen b > EVICT_STALE_THRESHOLD_MS) m in
         if length m1 \<le> EVICTION_TARGET then m1
         else
           (let doomed = map fst (take (length m1 - EVICTION_TARGET) (sort_key (\<lambda>(k, b). bk_seen b) m1)) in
            filter (\<lambda>(k, b). k \<notin> set doomed) m1)))"

definition rate_check :: "string \<Rightarrow> string \<Rightarrow> nat \<Rightarrow> nat \<Rightarrow> nat \<Rightarrow> nat \<Rightarrow> limiter \<Rightarrow> decision \<times> limiter" where
  "rate_check namespace key mx window_secs cost now m =
     (let mx1 = max mx 1; cost1 = max cost 1; window_ms = max (window_secs * 1000) 1;
          compound = storage_key namespace key;
          b = (case map_of m compound of Some b \<Rightarrow> b | None \<Rightarrow> empty_bucket);
          (d, b') = bucket_check mx1 window_ms cost1 now b;
          m1 = AList.update compound b' m;
          m2 = (if can_collect now window_ms b' then AList.delete compound m1 else m1) in
      (d, maybe_evict now m2))"

definition rate_reset :: "string \<Rightarrow> string option \<Rightarrow> limiter \<Rightarrow> nat \<times> limiter" where
  "rate_reset namespace key m =
     (let keep = (case key of
            None \<Rightarrow> (\<lambda>k. \<not> startsWith k (namespace @ [NAMESPACE_SEPARATOR]))
          | Some x \<Rightarrow> (\<lambda>k. k \<noteq> storage_key namespace x));
          m1 = filter (\<lambda>(k, b). keep k) m in
      (length m - length m1, m1))"

section \<open>Options\<close>

definition rate_header_defaults :: "string \<times> string \<times> string \<times> string" where
  "rate_header_defaults = (''x-ratelimit-limit'', ''x-ratelimit-remaining'', ''x-ratelimit-reset'', ''retry-after'')"

definition type_error :: "string \<Rightarrow> error_value" where
  "type_error message =
     \<lparr>ev_status = None, ev_statusCode = None, ev_isError = True, ev_message = message,
      ev_text = ''TypeError: '' @ message, ev_code = None\<rparr>"

text \<open>The value is \<open>Number(value)\<close>.\<close>

definition ensurePositiveInteger :: "string \<Rightarrow> jnum \<Rightarrow> error_value + nat" where
  "ensurePositiveInteger name v =
     (case v of
        Fin r \<Rightarrow> if of_int \<lfloor>r\<rfloor> = r \<and> r > 0 then Inr (nat \<lfloor>r\<rfloor>)
                 else Inl (type_error (''rateLimit '' @ name @ '' must be a positive integer''))
      | _ \<Rightarrow> Inl (type_error (''rateLimit '' @ name @ '' must be a positive integer'')))"

datatype 'g option_value = Missing | Plain jnum | Computed "'g ctx \<Rightarrow> jnum"

definition resolveValue :: "'g option_value \<Rightarrow> 'g ctx \<Rightarrow> string \<Rightarrow> error_value + jnum" where
  "resolveValue input c label =
     (case input of
        Computed f \<Rightarrow> Inr (f c)
      | Missing \<Rightarrow> Inl (type_error (''rateLimit '' @ label @ '' is required''))
      | Plain v \<Rightarrow> Inr v)"

text \<open>\<open>fresh\<close> is the random UUID.\<close>

definition normalizeNamespace :: "string \<Rightarrow> string option \<Rightarrow> error_value + string" where
  "normalizeNamespace fresh v =
     (if \<not> truthy_str v then Inr (''rate-limit:'' @ fresh)
      else
        (let normalized = trim (the v) in
         if normalized = []
         then Inl (type_error ''rateLimit namespace must be a non-empty string when provided'')
         else Inr normalized))"

definition defaultRequestKey :: "'g ctx \<Rightarrow> string" where
  "defaultRequestKey c = (if trim (ctx_ip c) \<noteq> [] then trim (ctx_ip c) else ''unknown'')"

datatype rate_headers =
    HeadersOff
  | HeadersDefault
  | HeadersNamed "string option" "string option" "string option" "string option"

definition normalizeHeaders :: "rate_headers \<Rightarrow> (string \<times> string \<times> string \<times> string) option" where
  "normalizeHeaders headers =
     (let (dl, dr, ds, da) = rate_header_defaults; pick = (\<lambda>d x. case x of Some s \<Rightarrow> s | None \<Rightarrow> d) in
      case headers of
        HeadersOff \<Rightarrow> None
      | HeadersDefault \<Rightarrow> Some rate_header_defaults
      | HeadersNamed l r s a \<Rightarrow> Some (pick dl l, pick dr r, pick ds s, pick da a))"

section \<open>The limiter\<close>

text \<open>A number reaches the native function as \<open>ToUint32\<close>; zero is refused there.\<close>

definition to_u32 :: "nat \<Rightarrow> nat" where
  "to_u32 n = n mod 4294967296"

definition native_rate_check ::
  "string \<Rightarrow> string \<Rightarrow> nat \<Rightarrow> nat \<Rightarrow> nat \<Rightarrow> nat \<Rightarrow> limiter \<Rightarrow> (error_value + decision) \<times> limiter" where
  "native_rate_check namespace key mx window cost now m =
     (if trim namespace = [] then (Inl (plain_error ''rateLimitCheck: namespace must be non-empty''), m)
      else if trim key = [] then (Inl (plain_error ''rateLimitCheck: key must be non-empty''), m)
      else if to_u32 mx = 0 then (Inl (plain_error ''rateLimitCheck: max must be greater than 0''), m)
      else if to_u32 window = 0 then (Inl (plain_error ''rateLimitCheck: windowSecs must be greater than 0''), m)
      else (let (d, m') = rate_check namespace key (to_u32 mx) (to_u32 window) (max (to_u32 cost) 1) now m in
            (Inr d, m')))"

definition limiter_check ::
  "string \<Rightarrow> string \<Rightarrow> nat \<Rightarrow> nat \<Rightarrow> nat \<Rightarrow> nat \<Rightarrow> limiter \<Rightarrow> (error_value + decision) \<times> limiter" where
  "limiter_check namespace key mx window cost now m =
     (if trim key = []
      then (Inl (type_error ''createNativeRateLimiter().check(key) requires a non-empty key''), m)
      else native_rate_check namespace (trim key) mx window cost now m)"

section \<open>The middleware\<close>

datatype 'g skip_option = SkipUnset | SkipFlag bool | SkipWhen "'g ctx \<Rightarrow> bool"

datatype rate_message = NoMessage | TextMessage string | ObjectMessage "(string \<times> json) list" | BadMessage

text \<open>The shared state of the dispatcher: the limiter and the clock.\<close>

record rate_glob =
  rg_limiter :: limiter
  rg_now :: nat

record rate_options =
  rt_key :: "(rate_glob ctx \<Rightarrow> string) option"
  rt_skip :: "rate_glob skip_option"
  rt_max :: "rate_glob option_value"
  rt_window :: "rate_glob option_value"
  rt_cost :: "rate_glob option_value"
  rt_status :: jnum
  rt_headers :: rate_headers
  rt_message :: rate_message
  rt_onRejected :: "(decision \<Rightarrow> rate_glob ctx \<Rightarrow> rate_glob ctx) option"
  rt_namespace :: string

definition decision_members :: "decision \<Rightarrow> (string \<times> json) list" where
  "decision_members d =
     [(''limit'', JNum (int (dc_limit d))), (''remaining'', JNum (int (dc_remaining d))),
      (''resetAtMs'', JNum (int (dc_resetAtMs d))), (''retryAfterSecs'', JNum (int (dc_retryAfterSecs d)))]"

definition normalizeRejectPayload :: "rate_message \<Rightarrow> decision \<Rightarrow> error_value + json" where
  "normalizeRejectPayload message d =
     (case message of
        NoMessage \<Rightarrow> Inr (JObj ((''error'', JStr ''Too Many Requests'') # decision_members d))
      | TextMessage t \<Rightarrow> Inr (JObj ((''error'', JStr t) # decision_members d))
      | ObjectMessage ms \<Rightarrow> Inr (JObj (foldl (\<lambda>o' (k, v). AList.update k v o') ms (decision_members d)))
      | BadMessage \<Rightarrow> Inl (type_error ''rateLimit message must be a string or object when provided''))"

definition skips :: "rate_options \<Rightarrow> rate_glob ctx \<Rightarrow> bool" where
  "skips opts c = (case rt_skip opts of SkipFlag b \<Rightarrow> b | SkipWhen f \<Rightarrow> f c | SkipUnset \<Rightarrow> False)"

definition positive_option :: "rate_glob option_value \<Rightarrow> string \<Rightarrow> rate_glob ctx \<Rightarrow> error_value + nat" where
  "positive_option input label c = ebind (resolveValue input c label) (ensurePositiveInteger label)"

definition rate_parameters :: "rate_options \<Rightarrow> rate_glob ctx \<Rightarrow> error_value + (nat \<times> nat \<times> nat \<times> string)" where
  "rate_parameters opts c =
     ebind (positive_option (rt_max opts) ''max'' c) (\<lambda>mx.
     ebind (positive_option (rt_window opts) ''window'' c) (\<lambda>window.
     ebind (positive_option (case rt_cost opts of Missing \<Rightarrow> Plain (Fin 1) | x \<Rightarrow> x) ''cost'' c) (\<lambda>cost.
     Inr (mx, window, cost, (case rt_key opts of Some f \<Rightarrow> f c | None \<Rightarrow> defaultRequestKey c)))))"

definition set_rate_headers :: "rate_options \<Rightarrow> decision \<Rightarrow> rate_glob ctx \<Rightarrow> rate_glob ctx" where
  "set_rate_headers opts d c =
     (case normalizeHeaders (rt_headers opts) of
        None \<Rightarrow> c
      | Some (l, r, s, a) \<Rightarrow>
          set_header s (nat_digits ((dc_resetAtMs d + 999) div 1000))
            (set_header r (nat_digits (dc_remaining d)) (set_header l (nat_digits (dc_limit d)) c)))"

definition set_retry_header :: "rate_options \<Rightarrow> decision \<Rightarrow> rate_glob ctx \<Rightarrow> rate_glob ctx" where
  "set_retry_header opts d c =
     (case normalizeHeaders (rt_headers opts) of
        None \<Rightarrow> c
      | Some (l, r, s, a) \<Rightarrow> if a \<noteq> [] then set_header a (nat_digits (dc_retryAfterSecs d)) c else c)"

definition rate_reject :: "rate_options \<Rightarrow> decision \<Rightarrow> rate_glob ctx \<Rightarrow> rate_glob verdict" where
  "rate_reject opts d c =
     (let c1 = set_retry_header opts d c in
      case rt_onRejected opts of
        Some f \<Rightarrow> StopHere (f d c1)
      | None \<Rightarrow>
          (case normalizeRejectPayload (rt_message opts) d of
             Inl e \<Rightarrow> FailWith e (on_res (res_status (rt_status opts)) c1)
           | Inr payload \<Rightarrow> StopHere (status_json (rt_status opts) payload c1)))"

definition rate_verdict :: "rate_options \<Rightarrow> rate_glob ctx \<Rightarrow> rate_glob verdict" where
  "rate_verdict opts c =
     (if skips opts c then PassOn c
      else
        (case rate_parameters opts c of
           Inl e \<Rightarrow> FailWith e c
         | Inr (mx, window, cost, key) \<Rightarrow>
             (let (res, m) = limiter_check (rt_namespace opts) key mx window cost (rg_now (cx_glob c)) (rg_limiter (cx_glob c));
                  c1 = c\<lparr>cx_glob := (cx_glob c)\<lparr>rg_limiter := m\<rparr>\<rparr> in
              case res of
                Inl e \<Rightarrow> FailWith e c1
              | Inr d \<Rightarrow>
                  (let c2 = set_rate_headers opts d c1 in
                   if dc_allowed d then PassOn c2 else rate_reject opts d c2))))"

definition rateLimit :: "rate_options \<Rightarrow> (rate_glob ctx, error_value) middleware" where
  "rateLimit opts =
     \<lparr>needsNext = True, isAsync = True,
      body = Ask (\<lambda>c.
        case rate_verdict opts c of
          PassOn c' \<Rightarrow> Act (\<lambda>_. c') pass
        | StopHere c' \<Rightarrow> Act (\<lambda>_. c') Return
        | FailWith e c' \<Rightarrow> Act (\<lambda>_. c') (Throw e))\<rparr>"

interpretation rate_point: checkpoint "rateLimit opts" "rate_verdict opts" for opts
  by unfold_locales (auto simp: rateLimit_def exec_pass split: verdict.split)

section \<open>What the window admits\<close>

definition weight :: "(nat \<Rightarrow> bool) \<Rightarrow> (nat \<times> nat) list \<Rightarrow> nat" where
  "weight P es = sum_list (map snd (filter (\<lambda>e. P (fst e)) es))"

fun hits :: "nat \<Rightarrow> nat \<Rightarrow> (nat \<times> nat) list \<Rightarrow> bucket \<Rightarrow> (nat \<times> nat) list" where
  "hits mx w [] b = []"
| "hits mx w ((now, cost) # rs) b =
     (let (d, b') = bucket_check mx w cost now b in
      (if dc_allowed d then [(now, cost)] else []) @ hits mx w rs b')"

lemma weight_simps [simp]:
  "weight P [] = 0" "weight P (e # es) = (if P (fst e) then snd e else 0) + weight P es"
  "weight P (xs @ ys) = weight P xs + weight P ys"
  by (simp_all add: weight_def)

lemma weight_filter: "weight P (filter (\<lambda>e. Q (fst e)) es) = weight (\<lambda>t. P t \<and> Q t) es"
  by (simp add: weight_def conj_commute)

lemma weight_mono: "(\<And>t. t \<in> fst ` set es \<Longrightarrow> P t \<Longrightarrow> Q t) \<Longrightarrow> weight P es \<le> weight Q es"
  by (induction es) (auto intro!: add_mono)

lemma weight_cong: "(\<And>t. t \<in> fst ` set es \<Longrightarrow> P t = Q t) \<Longrightarrow> weight P es = weight Q es"
  by (induction es) auto

lemma prune_eq:
  "sorted (map fst es) \<Longrightarrow> tot = weight (\<lambda>_. True) es
    \<Longrightarrow> prune c es tot = (filter (\<lambda>e. c < fst e) es, weight (\<lambda>t. c < t) es)"
proof (induction c es tot rule: prune.induct)
  case (2 c ts n es tot)
  show ?case
  proof (cases "ts > c")
    case True
    then have "\<forall>e\<in>set es. c < fst e" using 2(2) by force
    then have "filter (\<lambda>e. c < fst e) es = es" "weight (\<lambda>t. c < t) es = weight (\<lambda>_. True) es"
      by (auto intro: weight_cong)
    then show ?thesis using True 2(3) by simp
  next
    case False
    then show ?thesis using 2 by simp
  qed
qed simp

text \<open>
  The bucket agrees with the admitted requests \<open>A\<close>: its events are sorted, it has the weight of the
  requests younger than the last cutoff, and every window holds at most \<open>mx\<close>.
\<close>

definition window_ok :: "nat \<Rightarrow> nat \<Rightarrow> (nat \<times> nat) list \<Rightarrow> bool" where
  "window_ok mx w A \<longleftrightarrow> (\<forall>T. weight (\<lambda>t. T - w < t \<and> t \<le> T) A \<le> mx)"

definition bucket_inv :: "nat \<Rightarrow> nat \<Rightarrow> (nat \<times> nat) list \<Rightarrow> bucket \<Rightarrow> bool" where
  "bucket_inv mx w A b \<longleftrightarrow> sorted (map fst (bk_events b))
     \<and> bk_total b = weight (\<lambda>_. True) (bk_events b) \<and> bk_total b \<le> mx
     \<and> (\<forall>t\<in>fst ` set (bk_events b). t \<le> bk_seen b) \<and> (\<forall>t\<in>fst ` set A. t \<le> bk_seen b)
     \<and> (\<forall>s\<ge>bk_seen b - w. weight (\<lambda>t. s < t) (bk_events b) = weight (\<lambda>t. s < t) A)
     \<and> window_ok mx w A"

lemma bucket_inv_empty: "bucket_inv mx w [] empty_bucket"
  by (simp add: bucket_inv_def empty_bucket_def window_ok_def)

lemma prune_inv:
  assumes "bucket_inv mx w A b" "bk_seen b \<le> now"
  defines "b1 \<equiv> (prune_expired now w b)\<lparr>bk_seen := now\<rparr>"
  shows "bucket_inv mx w A b1" "bk_seen b1 = now" "bk_total b1 = weight (\<lambda>t. now - w < t) A"
proof -
  note i = assms(1) [unfolded bucket_inv_def]
  have e: "bk_events b1 = filter (\<lambda>e. now - w < fst e) (bk_events b)"
    and t: "bk_total b1 = weight (\<lambda>t. now - w < t) (bk_events b)"
    using i by (simp_all add: b1_def prune_expired_def prune_eq)
  show s: "bk_seen b1 = now" by (simp add: b1_def)
  have c: "bk_seen b - w \<le> now - w" using assms(2) by simp
  then show tA: "bk_total b1 = weight (\<lambda>t. now - w < t) A" using i t by simp
  have "bk_total b1 \<le> mx"
    using i t weight_mono [of "bk_events b" "\<lambda>t. now - w < t" "\<lambda>_. True"] by simp
  moreover have "weight (\<lambda>t. s < t) (bk_events b1) = weight (\<lambda>t. s < t) A" if "now - w \<le> s" for s
  proof -
    have "weight (\<lambda>t. s < t) (bk_events b1) = weight (\<lambda>t. s < t) (bk_events b)"
      unfolding e weight_filter using that by (intro weight_cong) auto
    then show ?thesis using i c that by simp
  qed
  moreover have "sorted (map fst (bk_events b1))"
    using i unfolding e by (simp add: sorted_filter)
  moreover have "bk_total b1 = weight (\<lambda>_. True) (bk_events b1)"
    unfolding e t weight_filter by simp
  moreover have "\<forall>t\<in>fst ` set (bk_events b1). t \<le> now" "\<forall>t\<in>fst ` set A. t \<le> now"
    using i assms(2) unfolding e by fastforce+
  ultimately show "bucket_inv mx w A b1"
    using i unfolding bucket_inv_def s by blast
qed

lemma push_hit_events:
  assumes "bk_total b = weight (\<lambda>_. True) (bk_events b)" "bk_total b + cost \<le> U32_MAX"
  shows "weight P (bk_events (push_hit now cost b)) = weight P (bk_events b) + (if P now then cost else 0)"
    and "bk_total (push_hit now cost b) = bk_total b + cost"
    and "fst ` set (bk_events (push_hit now cost b)) = insert now (fst ` set (bk_events b))"
    and "bk_seen (push_hit now cost b) = bk_seen b"
    and "(\<forall>t\<in>fst ` set (bk_events b). t \<le> now) \<Longrightarrow> sorted (map fst (bk_events b))
           \<Longrightarrow> sorted (map fst (bk_events (push_hit now cost b)))"
proof -
  have *: "weight P (bk_events (push_hit now cost b)) = weight P (bk_events b) + (if P now then cost else 0)
      \<and> bk_total (push_hit now cost b) = bk_total b + cost
      \<and> fst ` set (bk_events (push_hit now cost b)) = insert now (fst ` set (bk_events b))
      \<and> bk_seen (push_hit now cost b) = bk_seen b
      \<and> ((\<forall>t\<in>fst ` set (bk_events b). t \<le> now) \<longrightarrow> sorted (map fst (bk_events b))
           \<longrightarrow> sorted (map fst (bk_events (push_hit now cost b))))"
  proof (cases "bk_events b" rule: rev_cases)
    case Nil
    then show ?thesis using assms(2) by (simp add: push_hit_def sat_add_def)
  next
    case (snoc es e)
    have "snd e + cost \<le> U32_MAX" using assms snoc by simp
    then show ?thesis using assms(2) snoc
      by (cases e) (auto simp: push_hit_def sat_add_def sorted_append)
  qed
  then show "weight P (bk_events (push_hit now cost b)) = weight P (bk_events b) + (if P now then cost else 0)"
    and "bk_total (push_hit now cost b) = bk_total b + cost"
    and "fst ` set (bk_events (push_hit now cost b)) = insert now (fst ` set (bk_events b))"
    and "bk_seen (push_hit now cost b) = bk_seen b"
    and "(\<forall>t\<in>fst ` set (bk_events b). t \<le> now) \<Longrightarrow> sorted (map fst (bk_events b))
           \<Longrightarrow> sorted (map fst (bk_events (push_hit now cost b)))"
    by blast+
qed

lemma window_snoc:
  assumes "window_ok mx w A" "\<forall>t\<in>fst ` set A. t \<le> now" "weight (\<lambda>t. now - w < t) A + cost \<le> mx"
  shows "window_ok mx w (A @ [(now, cost)])"
  unfolding window_ok_def
proof
  fix T
  show "weight (\<lambda>t. T - w < t \<and> t \<le> T) (A @ [(now, cost)]) \<le> mx"
  proof (cases "now \<le> T")
    case True
    then have "weight (\<lambda>t. T - w < t \<and> t \<le> T) A \<le> weight (\<lambda>t. now - w < t) A"
      by (intro weight_mono) auto
    then show ?thesis using assms(3) by simp
  qed (use assms(1) in \<open>simp add: window_ok_def\<close>)
qed

lemma check_inv:
  assumes "bucket_inv mx w A b" "bk_seen b \<le> now" "mx < U32_MAX"
  shows "bucket_inv mx w (if dc_allowed (fst (bucket_check mx w cost now b)) then A @ [(now, cost)] else A)
           (snd (bucket_check mx w cost now b))"
    and "bk_seen (snd (bucket_check mx w cost now b)) = now"
proof -
  define b1 where "b1 = (prune_expired now w b)\<lparr>bk_seen := now\<rparr>"
  note p = prune_inv [OF assms(1,2), folded b1_def]
  note i = p(1) [unfolded bucket_inv_def p(2)]
  have "bucket_inv mx w (if dc_allowed (fst (bucket_check mx w cost now b)) then A @ [(now, cost)] else A)
           (snd (bucket_check mx w cost now b)) \<and> bk_seen (snd (bucket_check mx w cost now b)) = now"
  proof (cases "sat_add (bk_total b1) cost > mx")
    case True
    then show ?thesis using p(1,2) by (simp add: bucket_check_def Let_def b1_def [symmetric])
  next
    case False
    then have le: "bk_total b1 + cost \<le> mx" using assms(3) by (simp add: sat_add_def)
    then have u: "bk_total b1 + cost \<le> U32_MAX" using assms(3) by simp
    have tw: "bk_total b1 = weight (\<lambda>_. True) (bk_events b1)" using i by simp
    note h = push_hit_events [OF tw u]
    have "window_ok mx w (A @ [(now, cost)])"
      using i le p(3) by (intro window_snoc) auto
    then have "bucket_inv mx w (A @ [(now, cost)]) (push_hit now cost b1)"
      unfolding bucket_inv_def h(2-4) p(2) using h(5) i le by (auto simp: h(1))
    then show ?thesis
      using False h(4) p(2) by (simp add: bucket_check_def Let_def b1_def [symmetric])
  qed
  then show "bucket_inv mx w (if dc_allowed (fst (bucket_check mx w cost now b)) then A @ [(now, cost)] else A)
           (snd (bucket_check mx w cost now b))" and "bk_seen (snd (bucket_check mx w cost now b)) = now"
    by blast+
qed

lemma hits_window:
  "bucket_inv mx w A b \<Longrightarrow> mx < U32_MAX \<Longrightarrow> sorted (bk_seen b # map fst rs)
    \<Longrightarrow> window_ok mx w (A @ hits mx w rs b)"
proof (induction mx w rs b arbitrary: A rule: hits.induct)
  case (1 mx w b)
  then show ?case by (simp add: bucket_inv_def)
next
  case (2 mx w now cost rs b)
  obtain d b' where c: "bucket_check mx w cost now b = (d, b')" by fastforce
  have "bk_seen b \<le> now" "sorted (now # map fst rs)" using 2(4) by auto
  with check_inv [OF 2(2) _ 2(3), of now cost] c
  have "bucket_inv mx w (A @ (if dc_allowed d then [(now, cost)] else [])) b'" "bk_seen b' = now"
    by (auto split: if_splits)
  then show ?case using 2(1) [OF c [symmetric] refl, of "A @ (if dc_allowed d then [(now, cost)] else [])"]
      2(3) \<open>sorted (now # map fst rs)\<close> c by simp
qed

text \<open>C22: The sliding window keeps its promise: for any sequence of requests with one key in order of
  time, whatever their costs, the requests admitted in any interval of the length of the window cost
  together at most the maximum (for a maximum below \<open>u32::MAX\<close>).\<close>

theorem rate_window_bound:
  assumes "sorted (map fst reqs)" "mx < U32_MAX"
  shows "sum_list (map snd (filter (\<lambda>(t, c). T - w < t \<and> t \<le> T) (hits mx w reqs empty_bucket))) \<le> mx"
proof -
  have "window_ok mx w ([] @ hits mx w reqs empty_bucket)"
    using assms by (intro hits_window bucket_inv_empty) (auto simp: empty_bucket_def)
  then show ?thesis by (simp add: window_ok_def weight_def case_prod_unfold)
qed

lemma rate_window_bound_witness:
  "map fst (hits 3 1000 [(1000, 2), (1500, 1), (1800, 1), (2000, 2), (2400, 1)] empty_bucket)
     = [1000, 1500, 2000]
   \<and> sum_list (map snd (filter (\<lambda>(t, c). 2400 - 1000 < t \<and> t \<le> 2400)
       (hits 3 1000 [(1000, 2), (1500, 1), (1800, 1), (2000, 2), (2400, 1)] empty_bucket))) \<le> 3"
proof
  show "map fst (hits 3 1000 [(1000, 2), (1500, 1), (1800, 1), (2000, 2), (2400, 1)] empty_bucket)
     = [1000, 1500, 2000]"
    by (simp add: bucket_check_def prune_expired_def push_hit_def empty_bucket_def sat_add_def U32_MAX_def Let_def)
qed (rule rate_window_bound, simp_all add: U32_MAX_def)

text \<open>A maximum of \<open>u32::MAX\<close> never rejects, since the total saturates there; and a bucket is never
  collected, since it was seen just now.\<close>

lemma saturated_limit_never_rejects: "dc_allowed (fst (bucket_check U32_MAX w cost now b))"
  by (simp add: bucket_check_def sat_add_def Let_def)

lemma check_seen_now: "bk_seen (snd (bucket_check mx w cost now b)) = now"
  by (simp add: bucket_check_def push_hit_def Let_def)

lemma never_collected: "\<not> can_collect now w (snd (bucket_check mx w cost now b))"
  by (simp add: can_collect_def check_seen_now)

section \<open>The middleware in front of a chain\<close>

definition bucket_of :: "string \<Rightarrow> string \<Rightarrow> limiter \<Rightarrow> bucket" where
  "bucket_of namespace key m =
     (case map_of m (storage_key namespace key) of Some b \<Rightarrow> b | None \<Rightarrow> empty_bucket)"

definition put_bucket :: "string \<Rightarrow> string \<Rightarrow> bucket \<Rightarrow> rate_glob ctx \<Rightarrow> rate_glob ctx" where
  "put_bucket namespace key b c =
     c\<lparr>cx_glob := (cx_glob c)\<lparr>rg_limiter := maybe_evict (rg_now (cx_glob c))
        (AList.update (storage_key namespace key) b (rg_limiter (cx_glob c)))\<rparr>\<rparr>"

lemma limiter_check_ok:
  assumes "trim key \<noteq> []" "trim namespace \<noteq> []" "trim (trim key) \<noteq> []"
    "0 < mx" "mx \<le> U32_MAX" "0 < window" "window \<le> U32_MAX" "0 < cost" "cost \<le> U32_MAX"
  shows "limiter_check namespace key mx window cost now m =
    (let (d, b') = bucket_check mx (window * 1000) cost now (bucket_of namespace (trim key) m) in
     (Inr d, maybe_evict now (AList.update (storage_key namespace (trim key)) b' m)))"
proof -
  have u: "to_u32 mx = mx" "to_u32 window = window" "to_u32 cost = cost"
    using assms by (simp_all add: to_u32_def U32_MAX_def)
  have x: "max mx 1 = mx" "max cost 1 = cost" "max (window * 1000) 1 = window * 1000" using assms by auto
  show ?thesis
    using assms never_collected [of now "window * 1000" mx cost "bucket_of namespace (trim key) m"]
    by (simp add: limiter_check_def native_rate_check_def u x rate_check_def bucket_of_def Let_def split_beta)
qed

lemma trim_trim: "trim (trim s) = trim s"
proof -
  have d: "dropWhile is_ws (rev (dropWhile is_ws (rev t))) = rev (dropWhile is_ws (rev t))"
    if "t = [] \<or> \<not> is_ws (hd t)" for t
  proof (cases "rev (dropWhile is_ws (rev t))")
    case (Cons y ys)
    obtain p where "t = rev (dropWhile is_ws (rev t)) @ p"
      by (metis rev_append rev_rev_ident takeWhile_dropWhile_id)
    then have "hd t = y" "t \<noteq> []" unfolding Cons by (metis append_Cons list.sel(1), auto)
    then show ?thesis using that Cons by simp
  next
    case Nil
    then show ?thesis by (simp only: rev.simps dropWhile.simps)
  qed
  have h: "dropWhile is_ws s = [] \<or> \<not> is_ws (hd (dropWhile is_ws s))" by (metis hd_dropWhile)
  show ?thesis using d [OF h] by (simp add: trim_def)
qed

text \<open>The rate limiter in front of a chain, as \<open>rateLimit\<close> builds it with the default rejection: a
  request whose window has room goes on, with the headers of the decision set; any other request is
  answered with the configured status, the headers and the payload, and nothing behind it runs.  In
  both cases the bucket of its key, and no other one before eviction, is replaced.\<close>

theorem rate_limited_request_stops:
  assumes "\<not> skips opts c" "rate_parameters opts c = Inr (mx, window, cost, key)"
    and "trim key \<noteq> []" "trim (rt_namespace opts) \<noteq> []"
    and "0 < mx" "mx \<le> U32_MAX" "0 < window" "window \<le> U32_MAX" "0 < cost" "cost \<le> U32_MAX"
    and "rt_onRejected opts = None" "rt_message opts = NoMessage" "\<not> res_finished c"
    and "bucket_check mx (window * 1000) cost (rg_now (cx_glob c))
           (bucket_of (rt_namespace opts) (trim key) (rg_limiter (cx_glob c))) = (d, b')"
  defines "c' \<equiv> set_rate_headers opts d (put_bucket (rt_namespace opts) (trim key) b' c)"
  shows "run_to_end res_finished (rateLimit opts # m # ms) c
    = (if dc_allowed d
       then Middleware.dispatch res_finished (m # ms) 1 \<lparr>idx = 0, entered = [0], stt = c'\<rparr>
       else (\<lparr>idx = 0, entered = [0],
         stt = status_json (rt_status opts) (JObj ((''error'', JStr ''Too Many Requests'') # decision_members d))
                 (set_retry_header opts d c')\<rparr>, None))"
proof -
  have "limiter_check (rt_namespace opts) key mx window cost (rg_now (cx_glob c)) (rg_limiter (cx_glob c)) =
      (Inr d, maybe_evict (rg_now (cx_glob c))
        (AList.update (storage_key (rt_namespace opts) (trim key)) b' (rg_limiter (cx_glob c))))"
    using assms(3-10,14) by (simp add: limiter_check_ok trim_trim)
  then have "rate_verdict opts c =
      (if dc_allowed d then PassOn c'
       else StopHere (status_json (rt_status opts) (JObj ((''error'', JStr ''Too Many Requests'') # decision_members d))
                 (set_retry_header opts d c')))"
    using assms(1,2,11,12)
    by (simp add: rate_verdict_def c'_def put_bucket_def Let_def rate_reject_def normalizeRejectPayload_def)
  then show ?thesis using rate_point.chain_verdict [OF assms(13), of opts m ms] by simp
qed

definition sample_limit :: rate_options where
  "sample_limit = \<lparr>rt_key = None, rt_skip = SkipUnset, rt_max = Plain (Fin 1), rt_window = Plain (Fin 60),
     rt_cost = Missing, rt_status = Fin 429, rt_headers = HeadersDefault, rt_message = NoMessage,
     rt_onRejected = None, rt_namespace = ''api''\<rparr>"

definition busy_bucket :: bucket where
  "busy_bucket = \<lparr>bk_events = [(90000, 1)], bk_total = 1, bk_seen = 90000\<rparr>"

definition limited_ctx :: "rate_glob ctx" where
  "limited_ctx = with_glob
     \<lparr>rg_limiter = [(storage_key ''api'' ''10.0.0.1'', busy_bucket)], rg_now = 100000\<rparr>
     (sample_ctx ''GET'' ''/'' ''10.0.0.1'' [] None)"

theorem rate_limited_request_stops_witness:
  "\<exists>c. run_to_end res_finished [rateLimit sample_limit, rateLimit sample_limit] limited_ctx
    = (\<lparr>idx = 0, entered = [0], stt = c\<rparr>, None) \<and> rs_status (cx_res c) = Fin 429"
proof -
  have t: "trim ''10.0.0.1'' = ''10.0.0.1''" "trim ''api'' = ''api''" by code_simp+
  have p: "rate_parameters sample_limit limited_ctx = Inr (1, 60, 1, ''10.0.0.1'')"
    by (simp add: rate_parameters_def positive_option_def resolveValue_def ensurePositiveInteger_def
        sample_limit_def ebind_def defaultRequestKey_def limited_ctx_def t)
  have b: "bucket_check 1 (60 * 1000) 1 (rg_now (cx_glob limited_ctx))
      (bucket_of (rt_namespace sample_limit) (trim ''10.0.0.1'') (rg_limiter (cx_glob limited_ctx)))
    = (\<lparr>dc_allowed = False, dc_limit = 1, dc_remaining = 0, dc_resetAtMs = 150000, dc_retryAfterSecs = 50\<rparr>,
       \<lparr>bk_events = [(90000, 1)], bk_total = 1, bk_seen = 100000\<rparr>)"
    by (simp add: limited_ctx_def bucket_of_def t sample_limit_def busy_bucket_def bucket_check_def
        prune_expired_def sat_add_def U32_MAX_def reset_at_ms_def retry_after_secs_def Let_def)
  show ?thesis
    using rate_limited_request_stops [OF _ p _ _ _ _ _ _ _ _ _ _ _ b, of "rateLimit sample_limit" "[]"]
    by (simp add: skips_def sample_limit_def t U32_MAX_def limited_ctx_def status_json_status)
qed

section \<open>Coming back\<close>

fun bucket_run :: "nat \<Rightarrow> nat \<Rightarrow> (nat \<times> nat) list \<Rightarrow> bucket \<Rightarrow> bucket" where
  "bucket_run mx w [] b = b"
| "bucket_run mx w ((now, cost) # rs) b = bucket_run mx w rs (snd (bucket_check mx w cost now b))"

lemma bucket_run_inv:
  "bucket_inv mx w A b \<Longrightarrow> mx < U32_MAX \<Longrightarrow> sorted (bk_seen b # map fst rs)
    \<Longrightarrow> \<exists>A'. bucket_inv mx w A' (bucket_run mx w rs b)
          \<and> bk_seen (bucket_run mx w rs b) = (if rs = [] then bk_seen b else fst (last rs))"
proof (induction mx w rs b arbitrary: A rule: bucket_run.induct)
  case (2 mx w now cost rs b)
  have "bk_seen b \<le> now" "sorted (now # map fst rs)" using 2(4) by auto
  note c = check_inv [OF 2(2) this(1) 2(3), of cost]
  show ?case
    using 2(1) [OF c(1) 2(3)] c(2) \<open>sorted (now # map fst rs)\<close> by (cases rs) auto
qed auto

text \<open>C23: A rejected client is not locked out: however many requests were made with a key, one window after
  the last of them a request whose cost is at most the maximum is admitted.\<close>

theorem client_is_admitted_again:
  assumes "sorted (map fst reqs)" "reqs \<noteq> []" "mx < U32_MAX" "cost \<le> mx" "now \<ge> fst (last reqs) + w"
  shows "dc_allowed (fst (bucket_check mx w cost now (bucket_run mx w reqs empty_bucket)))"
proof -
  let ?b = "bucket_run mx w reqs empty_bucket"
  obtain A where i: "bucket_inv mx w A ?b" and s: "bk_seen ?b = fst (last reqs)"
    using bucket_run_inv [OF bucket_inv_empty assms(3), where w = w and rs = reqs] assms(1,2) by (auto simp: empty_bucket_def)
  have le: "bk_seen ?b \<le> now" using assms(5) s by simp
  have "\<forall>t\<in>fst ` set A. t \<le> fst (last reqs)" using i s by (simp add: bucket_inv_def)
  then have "weight (\<lambda>t. now - w < t) A = weight (\<lambda>_. False) A"
    using assms(5) by (intro weight_cong) fastforce
  then have "bk_total ((prune_expired now w ?b)\<lparr>bk_seen := now\<rparr>) = 0"
    using prune_inv(3) [OF i le] by (simp add: weight_def)
  then show ?thesis using assms(4) by (simp add: bucket_check_def Let_def sat_add_def)
qed

theorem client_is_admitted_again_witness:
  "\<not> dc_allowed (fst (bucket_check 2 1000 1 1900 (bucket_run 2 1000 [(1500, 1), (1800, 1)] empty_bucket)))
   \<and> dc_allowed (fst (bucket_check 2 1000 1 2800 (bucket_run 2 1000 [(1500, 1), (1800, 1)] empty_bucket)))"
proof
  show "\<not> dc_allowed (fst (bucket_check 2 1000 1 1900 (bucket_run 2 1000 [(1500, 1), (1800, 1)] empty_bucket)))"
    by (simp add: bucket_check_def prune_expired_def push_hit_def empty_bucket_def sat_add_def U32_MAX_def Let_def)
qed (rule client_is_admitted_again, simp_all add: U32_MAX_def)

end
