(* ===== verification/Multipart.thy ===== *)
theory Multipart
  imports BodyLimit Paths
begin

text \<open>
  Multipart bodies, \<open>src/src/multipart.js\<close>: the boundary of the content type, the loop over the parts
  of the buf with its limits, the middleware, and the path \<open>saveTo\<close> writes an upload to.  The loop
  is a partial function: that it returns is proved below.
\<close>

section \<open>Searching\<close>

fun seek :: "byte list \<Rightarrow> byte list \<Rightarrow> nat option" where
  "seek [] s = (if s = [] then Some 0 else None)"
| "seek (b # bs) s =
     (if take (length s) (b # bs) = s then Some 0 else map_option Suc (seek bs s))"

definition buffer_indexOf :: "byte list \<Rightarrow> byte list \<Rightarrow> nat \<Rightarrow> nat option" where
  "buffer_indexOf buffer search fromIndex =
     (if fromIndex \<le> length buffer
      then map_option (\<lambda>i. fromIndex + i) (seek (drop fromIndex buffer) search) else None)"

text \<open>\<open>body.subarray(i, j)\<close> and \<open>body[i]\<close>.\<close>

definition subarray :: "byte list \<Rightarrow> nat \<Rightarrow> nat \<Rightarrow> byte list" where
  "subarray b i j = take (j - i) (drop i b)"

definition byte_at :: "byte list \<Rightarrow> nat \<Rightarrow> byte option" where
  "byte_at b i = (if i < length b then Some (b ! i) else None)"

fun split_crlf :: "string \<Rightarrow> string list" where
  "split_crlf [] = [[]]"
| "split_crlf [c] = [[c]]"
| "split_crlf (c # d # cs) =
     (if c = CR \<and> d = LF then [] # split_crlf cs
      else (case split_crlf (d # cs) of [] \<Rightarrow> [[c]] | l # ls \<Rightarrow> (c # l) # ls))"

section \<open>The head of a part\<close>

text \<open>The match of \<open>boundary=(?:"([^"]+)"|([^\s;]+))\<close>, the group that took part in it.\<close>

definition boundary_here :: "string \<Rightarrow> string option" where
  "boundary_here s =
     (if startsWith s ''boundary=''
      then (let r = drop 9 s; q = takeWhile (\<lambda>c. c \<noteq> DQ) (drop 1 r);
                u = takeWhile (\<lambda>c. \<not> is_ws c \<and> c \<noteq> CHR '';'') r in
            if startsWith r [DQ] \<and> q \<noteq> [] \<and> length q < length (drop 1 r) then Some q
            else if u \<noteq> [] then Some u else None)
      else None)"

fun extractBoundary :: "string \<Rightarrow> string option" where
  "extractBoundary [] = None"
| "extractBoundary (c # cs) =
     (case boundary_here (c # cs) of Some b \<Rightarrow> Some b | None \<Rightarrow> extractBoundary cs)"

definition parse_header_line :: "string \<Rightarrow> (string \<times> string) list \<Rightarrow> (string \<times> string) list" where
  "parse_header_line line headers =
     (case indexOf line '':'' of
        None \<Rightarrow> headers
      | Some colon \<Rightarrow> AList.update (toLowerCase (trim (take colon line))) (trim (drop (colon + 1) line)) headers)"

definition parsePartHeaders :: "string \<Rightarrow> (string \<times> string) list" where
  "parsePartHeaders headerSection = foldl (\<lambda>h line. parse_header_line line h) [] (split_crlf headerSection)"

text \<open>The first match of \<open>\bkey="([^"]+)"\<close>; \<open>w\<close> tells whether a word character precedes.\<close>

definition quoted_here :: "string \<Rightarrow> string \<Rightarrow> string option" where
  "quoted_here key s =
     (if startsWith s (key @ ''='' @ [DQ])
      then (let r = drop (length key + 2) s; v = takeWhile (\<lambda>c. c \<noteq> DQ) r in
            if v \<noteq> [] \<and> length v < length r then Some v else None)
      else None)"

fun find_quoted :: "string \<Rightarrow> bool \<Rightarrow> string \<Rightarrow> string option" where
  "find_quoted key w [] = None"
| "find_quoted key w (c # cs) =
     (case (if w then None else quoted_here key (c # cs)) of
        Some v \<Rightarrow> Some v
      | None \<Rightarrow> find_quoted key (is_word c) cs)"

record disposition =
  di_name :: "string option"
  di_filename :: "string option"

definition parseContentDisposition :: "string \<Rightarrow> disposition" where
  "parseContentDisposition v =
     \<lparr>di_name = find_quoted ''name'' False v, di_filename = find_quoted ''filename'' False v\<rparr>"

section \<open>The parts of a body\<close>

record mp_file =
  mf_name :: string
  mf_fieldName :: "string option"
  mf_mimetype :: string
  mf_size :: nat
  mf_data :: "byte list"

record mp_limits =
  li_maxFileSize :: jnum
  li_maxFiles :: jnum
  li_maxFieldSize :: jnum

type_synonym mp_result = "(string \<times> string) list \<times> mp_file list"

definition status_error :: "jnum \<Rightarrow> string \<Rightarrow> error_value" where
  "status_error status message = (plain_error message)\<lparr>ev_status := Some status\<rparr>"

definition header_or :: "(string \<times> string) list \<Rightarrow> string \<Rightarrow> string \<Rightarrow> string" where
  "header_or headers name d = (case map_of headers name of Some v \<Rightarrow> v | None \<Rightarrow> d)"

definition accept_part ::
  "mp_limits \<Rightarrow> (string \<times> string) list \<Rightarrow> byte list \<Rightarrow> mp_result \<Rightarrow> error_value + mp_result" where
  "accept_part limits headers partBody res =
     (let (fields, files) = res;
          d = parseContentDisposition (header_or headers ''content-disposition'' []);
          size = Fin (of_nat (length partBody)) in
      case di_filename d of
        Some filename \<Rightarrow>
          if num_le (li_maxFiles limits) (Fin (of_nat (length files)))
          then Inl (status_error (Fin 413) (''Too many files (max '' @ num_text (li_maxFiles limits) @ '')''))
          else if num_lt (li_maxFileSize limits) size
          then Inl (status_error (Fin 413) (''File '' @ [DQ] @ filename @ [DQ] @ '' exceeds max size''))
          else Inr (fields, files @ [\<lparr>mf_name = filename, mf_fieldName = di_name d,
                 mf_mimetype = header_or headers ''content-type'' ''application/octet-stream'',
                 mf_size = length partBody, mf_data = partBody\<rparr>])
      | None \<Rightarrow>
          if truthy_str (di_name d)
          then if num_lt (li_maxFieldSize limits) size
               then Inl (status_error (Fin 413) (''Field '' @ [DQ] @ the (di_name d) @ [DQ] @ '' exceeds max size''))
               else Inr (AList.update (the (di_name d)) (text_decode partBody) fields, files)
          else Inr (fields, files))"

definition skip_crlf :: "byte list \<Rightarrow> nat \<Rightarrow> nat" where
  "skip_crlf buf offset =
     (if byte_at buf offset = Some 0x0D \<and> byte_at buf (offset + 1) = Some 0x0A then offset + 2 else offset)"

text \<open>One round of the loop up to the end of the part; \<open>None\<close> is a \<open>break\<close>.\<close>

definition next_part ::
  "byte list \<Rightarrow> byte list \<Rightarrow> nat \<Rightarrow> ((string \<times> string) list \<times> byte list \<times> nat) option" where
  "next_part delimiter buf offset =
     (let o1 = skip_crlf buf offset in
      if byte_at buf o1 = Some 0x2D \<and> byte_at buf (o1 + 1) = Some 0x2D then None
      else
        (case buffer_indexOf buf [0x0D, 0x0A, 0x0D, 0x0A] o1 of
           None \<Rightarrow> None
         | Some headerEnd \<Rightarrow>
             (let headers = parsePartHeaders (text_decode (subarray buf o1 headerEnd));
                  o2 = headerEnd + 4 in
              case buffer_indexOf buf delimiter o2 of
                None \<Rightarrow> None
              | Some nextBoundary \<Rightarrow>
                  Some (headers, subarray buf o2 (nextBoundary - 2), nextBoundary + length delimiter))))"

partial_function (option) parse_parts ::
  "mp_limits \<Rightarrow> byte list \<Rightarrow> byte list \<Rightarrow> nat \<Rightarrow> mp_result \<Rightarrow> (error_value + mp_result) option" where
  "parse_parts limits delimiter buf offset res =
     (if offset < length buf
      then (case next_part delimiter buf offset of
              None \<Rightarrow> Some (Inr res)
            | Some (headers, partBody, offset') \<Rightarrow>
                (case accept_part limits headers partBody res of
                   Inl e \<Rightarrow> Some (Inl e)
                 | Inr res' \<Rightarrow> parse_parts limits delimiter buf offset' res'))
      else Some (Inr res))"

definition parseMultipartBody ::
  "byte list \<Rightarrow> string \<Rightarrow> mp_limits \<Rightarrow> (error_value + mp_result) option" where
  "parseMultipartBody buf boundary limits =
     (let delimiter = text_encode (''--'' @ boundary) in
      case buffer_indexOf buf delimiter 0 of
        None \<Rightarrow> Some (Inr ([], []))
      | Some firstBoundary \<Rightarrow>
          parse_parts limits delimiter buf (firstBoundary + length delimiter) ([], []))"

section \<open>Options and middleware\<close>

text \<open>A size is a number or the text of any other value.\<close>

datatype mp_size = NumberSize jnum | TextSize string

definition DEFAULT_MAX_FILE_SIZE :: rat where "DEFAULT_MAX_FILE_SIZE = 10 * 1024 * 1024"
definition DEFAULT_MAX_FILES :: rat where "DEFAULT_MAX_FILES = 10"
definition DEFAULT_MAX_FIELD_SIZE :: rat where "DEFAULT_MAX_FIELD_SIZE = 1024 * 1024"

definition multipart_parseSize :: "mp_size \<Rightarrow> jnum" where
  "multipart_parseSize input =
     (case input of
        NumberSize x \<Rightarrow> x
      | TextSize t \<Rightarrow>
          (case match_size t of
             None \<Rightarrow> Fin DEFAULT_MAX_FILE_SIZE
           | Some (ds, fs, unit) \<Rightarrow> Fin (decimal_value ds fs * SIZE_UNITS unit)))"

record multipart_options =
  mp_maxFileSize :: "mp_size option"
  mp_maxFiles :: "jnum option"
  mp_maxFieldSize :: "mp_size option"

definition or_default :: "'a \<Rightarrow> 'a option \<Rightarrow> 'a" where
  "or_default d x = (case x of Some v \<Rightarrow> v | None \<Rightarrow> d)"

definition multipart_limits :: "multipart_options \<Rightarrow> mp_limits" where
  "multipart_limits opts =
     \<lparr>li_maxFileSize = multipart_parseSize (or_default (NumberSize (Fin DEFAULT_MAX_FILE_SIZE)) (mp_maxFileSize opts)),
      li_maxFiles = or_default (Fin DEFAULT_MAX_FILES) (mp_maxFiles opts),
      li_maxFieldSize = multipart_parseSize (or_default (NumberSize (Fin DEFAULT_MAX_FIELD_SIZE)) (mp_maxFieldSize opts))\<rparr>"

definition file_json :: "mp_file \<Rightarrow> json" where
  "file_json f = JObj
     ([(''name'', JStr (mf_name f))]
      @ (case mf_fieldName f of Some n \<Rightarrow> [(''fieldName'', JStr n)] | None \<Rightarrow> [])
      @ [(''mimetype'', JStr (mf_mimetype f)), (''size'', JNum (int (mf_size f))),
         (''data'', JStr (text_decode (mf_data f)))])"

definition attach_parts :: "mp_result \<Rightarrow> 'g ctx \<Rightarrow> 'g ctx" where
  "attach_parts res c =
     set_extra ''files'' (JArr (map file_json (snd res)))
       (set_extra ''fields'' (JObj (map (\<lambda>(k, v). (k, JStr v)) (fst res))) c)"

definition content_type_of :: "'g ctx \<Rightarrow> string" where
  "content_type_of c =
     (case ctx_header c ''content-type'' of
        Some v \<Rightarrow> v
      | None \<Rightarrow> (case ctx_headers_get c ''content-type'' of Some v \<Rightarrow> v | None \<Rightarrow> []))"

definition is_multipart :: "'g ctx \<Rightarrow> bool" where
  "is_multipart c \<longleftrightarrow> startsWith (content_type_of c) ''multipart/form-data''"

text \<open>The \<open>catch\<close> block: an error with a status becomes a response.\<close>

definition catch_status :: "error_value \<Rightarrow> ('g ctx \<Rightarrow> 'g ctx) option" where
  "catch_status e =
     (case ev_status e of
        Some s \<Rightarrow> if truthy_num s then Some (status_json s (error_json (ev_message e))) else None
      | None \<Rightarrow> None)"

definition multipart_recover :: "'g ctx \<Rightarrow> error_value run_error \<Rightarrow> ('g ctx \<Rightarrow> 'g ctx) option" where
  "multipart_recover c e = (if is_multipart c then catch_status (run_error_value e) else None)"

definition multipart_verdict :: "multipart_options \<Rightarrow> 'g ctx \<Rightarrow> 'g verdict" where
  "multipart_verdict opts c =
     (if \<not> is_multipart c then PassOn c
      else
        (case extractBoundary (content_type_of c) of
           None \<Rightarrow> StopHere (status_json (Fin 400) (error_json ''Missing multipart boundary'') c)
         | Some boundary \<Rightarrow>
             (case ctx_body c of
                None \<Rightarrow> PassOn (attach_parts ([], []) c)
              | Some rawBody \<Rightarrow>
                  if rawBody = [] then PassOn (attach_parts ([], []) c)
                  else
                    (case the (parseMultipartBody rawBody boundary (multipart_limits opts)) of
                       Inr res \<Rightarrow> PassOn (attach_parts res c)
                     | Inl e \<Rightarrow> (case catch_status e of Some f \<Rightarrow> StopHere (f c) | None \<Rightarrow> FailWith e c)))))"

definition multipart :: "multipart_options \<Rightarrow> ('g ctx, error_value) middleware" where
  "multipart opts =
     \<lparr>needsNext = True, isAsync = True, body = guarded_body (multipart_verdict opts) multipart_recover\<rparr>"

interpretation multipart_guard: guard "multipart opts" "multipart_verdict opts" multipart_recover for opts
  by unfold_locales (simp_all add: multipart_def exec_guarded_body)

section \<open>Where an upload is saved\<close>

definition safe_name :: "string \<Rightarrow> string" where
  "safe_name name = replace_all (\<lambda>s. startsWith s ''..'') 2 [] (basename name)"

text \<open>
  The path, or \<open>None\<close> for the rejected promise.  \<open>random\<close> are the sixteen random bytes in hexadecimal;
  \<open>join\<close> normalises, which \<open>resolve\<close> does again, so the joined text is enough here.
\<close>

definition save_path :: "string list \<Rightarrow> string \<Rightarrow> string \<Rightarrow> string option \<Rightarrow> mp_file \<Rightarrow> string option" where
  "save_path cwd uploadDir random destPath file =
     (let fullPath = (case destPath of Some d \<Rightarrow> d
            | None \<Rightarrow> uploadDir @ ''/'' @ random @ ''-'' @ safe_name (mf_name file)) in
      if startsWith (resolve cwd fullPath) (resolve cwd uploadDir) then Some (resolve cwd fullPath) else None)"

section \<open>The loop returns\<close>

lemma buffer_indexOf_ge: "buffer_indexOf b s from = Some i \<Longrightarrow> from \<le> i"
  by (auto simp: buffer_indexOf_def split: if_splits)

lemma skip_crlf_ge: "offset \<le> skip_crlf buf offset"
  by (simp add: skip_crlf_def)

lemma next_part_progress:
  assumes "next_part delimiter buf offset = Some (headers, part, offset')"
  shows "offset < offset'"
proof -
  obtain he nb where "buffer_indexOf buf [0x0D, 0x0A, 0x0D, 0x0A] (skip_crlf buf offset) = Some he"
    "buffer_indexOf buf delimiter (he + 4) = Some nb" "offset' = nb + length delimiter"
    using assms by (auto simp: next_part_def Let_def split: if_splits option.splits)
  then show ?thesis using skip_crlf_ge [of offset buf] by (auto dest!: buffer_indexOf_ge)
qed

definition files_ok :: "mp_limits \<Rightarrow> mp_result \<Rightarrow> bool" where
  "files_ok limits res \<longleftrightarrow>
     (\<forall>k < length (snd res). \<not> num_le (li_maxFiles limits) (Fin (of_nat k)))
     \<and> (\<forall>f\<in>set (snd res). mf_size f = length (mf_data f)
          \<and> \<not> num_lt (li_maxFileSize limits) (Fin (of_nat (length (mf_data f)))))"

lemma accept_part_ok:
  "files_ok limits res \<Longrightarrow> accept_part limits headers part res = Inr res' \<Longrightarrow> files_ok limits res'"
  by (auto simp: accept_part_def files_ok_def Let_def less_Suc_eq split: prod.splits option.splits if_splits)

lemma parse_parts_total:
  "files_ok limits res \<Longrightarrow>
    \<exists>r. parse_parts limits delimiter buf offset res = Some r \<and> (\<forall>x. r = Inr x \<longrightarrow> files_ok limits x)"
proof (induction "length buf - offset" arbitrary: offset res rule: less_induct)
  case less
  show ?case
  proof (cases "offset < length buf")
    case True
    show ?thesis
    proof (cases "next_part delimiter buf offset")
      case None
      then show ?thesis using True less(2) by (subst parse_parts.simps) auto
    next
      case (Some t)
      obtain headers part offset' where t: "t = (headers, part, offset')" by (cases t)
      have lt: "length buf - offset' < length buf - offset"
        using next_part_progress [OF Some [unfolded t]] True by simp
      show ?thesis
      proof (cases "accept_part limits headers part res")
        case (Inl e)
        then show ?thesis using True Some t by (subst parse_parts.simps) simp
      next
        case (Inr res')
        then show ?thesis
          using less(1) [OF lt accept_part_ok [OF less(2) Inr]] True Some t
          by (subst parse_parts.simps) simp
      qed
    qed
  next
    case False
    then show ?thesis using less(2) by (subst parse_parts.simps) auto
  qed
qed

text \<open>C24: The parser of multipart bodies returns for every body and every boundary, with an error or with
  at most \<open>maxFiles\<close> files, none of them larger than \<open>maxFileSize\<close>.\<close>

theorem multipart_parser_returns:
  fixes n m :: nat
  shows "\<exists>r. parseMultipartBody buf boundary
      \<lparr>li_maxFileSize = Fin (of_nat m), li_maxFiles = Fin (of_nat n), li_maxFieldSize = x\<rparr> = Some r
    \<and> (case r of Inl e \<Rightarrow> True | Inr (flds, files) \<Rightarrow>
         length files \<le> n \<and> list_all (\<lambda>f. length (mf_data f) \<le> m) files)"
proof -
  let ?l = "\<lparr>li_maxFileSize = Fin (of_nat m), li_maxFiles = Fin (of_nat n), li_maxFieldSize = x\<rparr>"
  have e: "files_ok ?l ([], [])" by (simp add: files_ok_def)
  have c: "length (snd res) \<le> n \<and> list_all (\<lambda>f. length (mf_data f) \<le> m) (snd res)"
    if "files_ok ?l res" for res
    using that unfolding files_ok_def
    by (fastforce simp: num_le_def num_lt_def list_all_iff dest: spec [of _ n])
  show ?thesis
  proof (cases "buffer_indexOf buf (text_encode (''--'' @ boundary)) 0")
    case None
    then show ?thesis by (simp add: parseMultipartBody_def Let_def)
  next
    case (Some i)
    obtain r where "parseMultipartBody buf boundary ?l = Some r" "\<forall>x. r = Inr x \<longrightarrow> files_ok ?l x"
      using parse_parts_total [OF e] Some by (fastforce simp: parseMultipartBody_def Let_def)
    then show ?thesis using c by (cases r) auto
  qed
qed

section \<open>Reading what was written\<close>

datatype mp_part = FieldPart string string | FilePart string string string "byte list"

fun part_disposition :: "mp_part \<Rightarrow> string" where
  "part_disposition (FieldPart n v) = ''form-data; name='' @ [DQ] @ n @ [DQ]"
| "part_disposition (FilePart n f m d) =
     ''form-data; name='' @ [DQ] @ n @ [DQ] @ ''; filename='' @ [DQ] @ f @ [DQ]"

fun part_type :: "mp_part \<Rightarrow> string" where
  "part_type (FieldPart n v) = []"
| "part_type (FilePart n f m d) = [CR, LF] @ ''Content-Type: '' @ m"

fun part_content :: "mp_part \<Rightarrow> byte list" where
  "part_content (FieldPart n v) = text_encode v"
| "part_content (FilePart n f m d) = d"

definition part_head :: "mp_part \<Rightarrow> string" where
  "part_head p = ''Content-Disposition: '' @ part_disposition p @ part_type p"

definition delim :: "string \<Rightarrow> byte list" where
  "delim boundary = text_encode (''--'' @ boundary)"

definition part_bytes :: "string \<Rightarrow> mp_part \<Rightarrow> byte list" where
  "part_bytes boundary p =
     [0x0D, 0x0A] @ text_encode (part_head p) @ [0x0D, 0x0A, 0x0D, 0x0A] @ part_content p
       @ [0x0D, 0x0A] @ delim boundary"

definition multipart_bytes :: "string \<Rightarrow> mp_part list \<Rightarrow> byte list" where
  "multipart_bytes boundary ps = delim boundary @ concat (map (part_bytes boundary) ps) @ [0x2D, 0x2D]"

definition quotable :: "string \<Rightarrow> bool" where
  "quotable s \<longleftrightarrow> s \<noteq> [] \<and> DQ \<notin> set s \<and> CR \<notin> set s"

fun part_ok :: "string \<Rightarrow> mp_part \<Rightarrow> bool" where
  "part_ok boundary (FieldPart n v) \<longleftrightarrow> quotable n
     \<and> seek (text_encode v @ [0x0D, 0x0A] @ delim boundary) (delim boundary) = Some (length v + 2)"
| "part_ok boundary (FilePart n f m d) \<longleftrightarrow> quotable n \<and> quotable f \<and> \<not> endsWith n ''filename=''
     \<and> CR \<notin> set m \<and> trim m = m
     \<and> seek (d @ [0x0D, 0x0A] @ delim boundary) (delim boundary) = Some (length d + 2)"

fun collect_part :: "mp_limits \<Rightarrow> mp_part \<Rightarrow> mp_result \<Rightarrow> error_value + mp_result" where
  "collect_part limits (FieldPart n v) (flds, files) =
     (if num_lt (li_maxFieldSize limits) (Fin (of_nat (length v)))
      then Inl (status_error (Fin 413) (''Field '' @ [DQ] @ n @ [DQ] @ '' exceeds max size''))
      else Inr (AList.update n v flds, files))"
| "collect_part limits (FilePart n f m d) (flds, files) =
     (if num_le (li_maxFiles limits) (Fin (of_nat (length files)))
      then Inl (status_error (Fin 413) (''Too many files (max '' @ num_text (li_maxFiles limits) @ '')''))
      else if num_lt (li_maxFileSize limits) (Fin (of_nat (length d)))
      then Inl (status_error (Fin 413) (''File '' @ [DQ] @ f @ [DQ] @ '' exceeds max size''))
      else Inr (flds, files @ [\<lparr>mf_name = f, mf_fieldName = Some n, mf_mimetype = m,
                 mf_size = length d, mf_data = d\<rparr>]))"

fun collect_parts :: "mp_limits \<Rightarrow> mp_part list \<Rightarrow> mp_result \<Rightarrow> error_value + mp_result" where
  "collect_parts limits [] res = Inr res"
| "collect_parts limits (p # ps) res = ebind (collect_part limits p res) (collect_parts limits ps)"

lemma starts_Cons:
  "startsWith (c # s) (d # p) \<longleftrightarrow> c = d \<and> startsWith s p" "\<not> startsWith [] (d # p)"
  by (simp_all add: startsWith_def)

lemma DQ_facts: "DQ \<noteq> CHR ''f''" "DQ \<noteq> CHR ''n''" "\<not> is_word DQ" "CR \<noteq> LF" "DQ \<noteq> CR" "\<not> is_ws DQ"
  by code_simp+

lemma one_quote: "length (filter (\<lambda>c. c = DQ) s) < 2 \<Longrightarrow> find_quoted key w s = None"
proof (induction key w s rule: find_quoted.induct)
  case (2 key w c cs)
  have "quoted_here key (c # cs) = None"
  proof (rule ccontr)
    assume "quoted_here key (c # cs) \<noteq> None"
    then obtain r v where "c # cs = key @ ''='' @ DQ # r" "length (takeWhile (\<lambda>c. c \<noteq> DQ) r) < length r"
      by (auto simp: quoted_here_def startsWith_iff Let_def split: if_splits)
    moreover from this(2) have "DQ \<in> set r"
      by (metis (mono_tags, lifting) less_irrefl takeWhile_eq_all_conv)
    then have "filter (\<lambda>c. c = DQ) r \<noteq> []" by (auto simp: filter_empty_conv)
    then have "length (filter (\<lambda>c. c = DQ) r) > 0" by simp
    ultimately have "length (filter (\<lambda>c. c = DQ) (c # cs)) \<ge> 2"
      by (auto simp: Suc_le_eq)
    then show False using 2(2) by simp
  qed
  then show ?case using 2 by (auto split: if_splits)
qed simp

lemma skip_name:
  "DQ \<notin> set n \<Longrightarrow> \<not> endsWith n ''filename='' \<Longrightarrow>
    find_quoted ''filename'' w (n @ DQ # s) = find_quoted ''filename'' False s"
proof (induction n arbitrary: w)
  case Nil
  then show ?case by (simp add: quoted_here_def starts_Cons DQ_facts)
next
  case (Cons c n)
  have "\<not> startsWith (c # n @ DQ # s) (''filename='' @ [DQ])"
  proof
    assume "startsWith (c # n @ DQ # s) (''filename='' @ [DQ])"
    then obtain t where "(c # n) @ DQ # s = ''filename='' @ DQ # t" by (auto simp: startsWith_iff)
    then have "takeWhile (\<lambda>c. c \<noteq> DQ) ((c # n) @ DQ # s) = takeWhile (\<lambda>c. c \<noteq> DQ) (''filename='' @ DQ # t)"
      by (rule arg_cong)
    moreover have "takeWhile (\<lambda>c. c \<noteq> DQ) (k @ DQ # u) = k" if "DQ \<notin> set k" for k u
      using that by (induction k) auto
    moreover have "DQ \<notin> set ''filename=''" by code_simp
    ultimately have "c # n = ''filename=''" using Cons.prems by metis
    then show False using Cons.prems by (simp add: endsWith_def startsWith_def)
  qed
  moreover have "\<not> endsWith n ''filename=''"
    using Cons.prems by (auto simp: endsWith_def startsWith_iff)
  ultimately show ?case using Cons by (simp add: quoted_here_def)
qed

lemma quoted_value:
  assumes "quotable v"
  shows "quoted_here key (key @ ''='' @ DQ # v @ DQ # s) = Some v"
proof -
  have "DQ \<notin> set v" using assms by (simp add: quotable_def)
  then have "takeWhile (\<lambda>c. c \<noteq> DQ) (v @ DQ # s) = v" by (induction v) auto
  then show ?thesis using assms by (simp add: quoted_here_def startsWith_iff Let_def quotable_def)
qed

lemma quoted_miss:
  "k \<noteq> c \<Longrightarrow> quoted_here (k # ks) (c # cs) = None"
  "l \<noteq> d \<Longrightarrow> quoted_here (k # l # ks) (c # d # cs) = None"
  by (simp_all add: quoted_here_def starts_Cons)

lemma space_no_word: "\<not> is_word (CHR '' '')" by code_simp

lemma find_name:
  "quotable n \<Longrightarrow> find_quoted ''name'' False (''form-data; name='' @ [DQ] @ n @ DQ # s) = Some n"
  using quoted_value [of n "''name''" s] by (simp add: quoted_miss space_no_word)

lemma find_filename_skip:
  "find_quoted ''filename'' False (''form-data; name='' @ [DQ] @ s) = find_quoted ''filename'' False s"
  using DQ_facts by (simp add: quoted_miss)

lemma find_filename:
  "quotable f \<Longrightarrow> find_quoted ''filename'' False (''; filename='' @ [DQ] @ f @ [DQ]) = Some f"
  using quoted_value [of f "''filename''" "[]"] by (simp add: quoted_miss space_no_word)

lemma quote_count: "DQ \<notin> set n \<Longrightarrow> length (filter (\<lambda>c. c = DQ) (n @ [DQ])) < 2"
  by (induction n) auto

lemma field_disposition:
  assumes "quotable n"
  shows "parseContentDisposition (part_disposition (FieldPart n v)) = \<lparr>di_name = Some n, di_filename = None\<rparr>"
  using find_name [OF assms, of "[]"] find_filename_skip [of "n @ [DQ]"]
    one_quote [OF quote_count, of n "''filename''" False] assms
  by (simp add: parseContentDisposition_def quotable_def del: find_quoted.simps)

lemma file_disposition:
  assumes "quotable n" "quotable f" "\<not> endsWith n ''filename=''"
  shows "parseContentDisposition (part_disposition (FilePart n f m d)) = \<lparr>di_name = Some n, di_filename = Some f\<rparr>"
proof -
  let ?s = "''; filename='' @ [DQ] @ f @ [DQ]"
  have "find_quoted ''filename'' False (''form-data; name='' @ [DQ] @ n @ DQ # ?s) = Some f"
    unfolding find_filename_skip using skip_name [of n False ?s] assms find_filename [OF assms(2)]
    by (simp add: quotable_def del: find_quoted.simps)
  then show ?thesis
    using find_name [OF assms(1), of ?s] by (simp add: parseContentDisposition_def del: find_quoted.simps)
qed

lemma split_crlf_single: "CR \<notin> set l \<Longrightarrow> split_crlf l = [l]"
  by (induction l rule: split_crlf.induct) auto

lemma split_crlf_two: "CR \<notin> set l \<Longrightarrow> split_crlf (l @ CR # LF # t) = l # split_crlf t"
  by (induction l rule: split_crlf.induct) (auto split: list.split)

lemma header_line:
  "parse_header_line (''Content-Disposition: '' @ v) h = AList.update ''content-disposition'' (trim v) h"
  "parse_header_line (''Content-Type: '' @ v) h = AList.update ''content-type'' (trim v) h"
proof -
  have t: "toLowerCase (trim ''Content-Disposition'') = ''content-disposition''"
    "toLowerCase (trim ''Content-Type'') = ''content-type''" by code_simp+
  show "parse_header_line (''Content-Disposition: '' @ v) h = AList.update ''content-disposition'' (trim v) h"
    "parse_header_line (''Content-Type: '' @ v) h = AList.update ''content-type'' (trim v) h"
    by (simp_all add: parse_header_line_def starts_Cons t trim_space)
qed

lemma trim_ends: "s \<noteq> [] \<Longrightarrow> \<not> is_ws (hd s) \<Longrightarrow> \<not> is_ws (last s) \<Longrightarrow> trim s = s"
proof -
  have d: "t \<noteq> [] \<Longrightarrow> \<not> is_ws (hd t) \<Longrightarrow> dropWhile is_ws t = t" for t by (cases t) auto
  show "s \<noteq> [] \<Longrightarrow> \<not> is_ws (hd s) \<Longrightarrow> \<not> is_ws (last s) \<Longrightarrow> trim s = s"
    by (simp add: trim_def d hd_rev)
qed

lemma trim_disposition: "trim (part_disposition p) = part_disposition p"
proof (rule trim_ends)
  show "part_disposition p \<noteq> []" by (cases p) simp_all
  have "\<not> is_ws (CHR ''f'')" by code_simp
  then show "\<not> is_ws (hd (part_disposition p))" by (cases p) simp_all
  show "\<not> is_ws (last (part_disposition p))" using DQ_facts by (cases p) simp_all
qed

lemma disposition_no_CR: "part_ok b p \<Longrightarrow> CR \<notin> set (''Content-Disposition: '' @ part_disposition p)"
proof -
  have "CR \<notin> set (''Content-Disposition: form-data; name='' @ [DQ] @ ''; filename='' @ [DQ])" by code_simp
  then show "part_ok b p \<Longrightarrow> ?thesis" by (cases p) (auto simp: quotable_def)
qed

lemma type_no_CR: "CR \<notin> set ''Content-Type: ''" by code_simp

lemma part_head_parsed:
  assumes "part_ok b p"
  shows "map_of (parsePartHeaders (part_head p)) ''content-disposition'' = Some (part_disposition p)"
    and "\<And>n f m d. p = FilePart n f m d \<Longrightarrow> map_of (parsePartHeaders (part_head p)) ''content-type'' = Some m"
proof -
  let ?l = "''Content-Disposition: '' @ part_disposition p"
  have "map_of (parsePartHeaders (part_head p)) ''content-disposition'' = Some (part_disposition p)
     \<and> (\<forall>n f m d. p = FilePart n f m d \<longrightarrow> map_of (parsePartHeaders (part_head p)) ''content-type'' = Some m)"
  proof (cases p)
    case (FieldPart n v)
    then have "split_crlf (part_head p) = [?l]"
      using split_crlf_single [OF disposition_no_CR [OF assms]] unfolding part_head_def by simp
    then show ?thesis
      using FieldPart unfolding parsePartHeaders_def by (simp only: foldl.simps header_line trim_disposition)
        (simp add: map_of_update)
  next
    case (FilePart n f m d)
    then have "CR \<notin> set (''Content-Type: '' @ m)" "trim m = m"
      using assms type_no_CR by simp_all
    then have "split_crlf (part_head p) = [?l, ''Content-Type: '' @ m]"
      using split_crlf_two [OF disposition_no_CR [OF assms], of "''Content-Type: '' @ m"] FilePart
        split_crlf_single [of "''Content-Type: '' @ m"]
      unfolding part_head_def by simp
    then show ?thesis
      using FilePart \<open>trim m = m\<close> unfolding parsePartHeaders_def
      by (simp only: foldl.simps header_line trim_disposition) (simp add: map_of_update)
  qed
  then show "map_of (parsePartHeaders (part_head p)) ''content-disposition'' = Some (part_disposition p)"
    and "\<And>n f m d. p = FilePart n f m d \<Longrightarrow> map_of (parsePartHeaders (part_head p)) ''content-type'' = Some m"
    by blast+
qed

lemma accept_collects:
  assumes "part_ok b p"
  shows "accept_part limits (parsePartHeaders (part_head p)) (part_content p) res = collect_part limits p res"
proof (cases res)
  case (Pair flds files)
  show ?thesis
  proof (cases p)
    case (FieldPart n v)
    then show ?thesis
      using part_head_parsed(1) [OF assms] field_disposition [of n v] assms Pair
      by (simp add: accept_part_def header_or_def Let_def truthy_str_def quotable_def del: part_disposition.simps)
  next
    case (FilePart n f m d)
    then show ?thesis
      using part_head_parsed [OF assms] file_disposition [of n f m d] assms Pair
      by (simp add: accept_part_def header_or_def Let_def del: part_disposition.simps)
  qed
qed

lemma seek_append: "seek x s = Some i \<Longrightarrow> seek (x @ y) s = Some i"
proof (induction x s arbitrary: i rule: seek.induct)
  case (1 s)
  then show ?case by (cases y) (auto split: if_splits)
next
  case (2 b bs s)
  show ?case
  proof (cases "take (length s) (b # bs) = s")
    case True
    then have "length s \<le> length (b # bs)" by (metis length_take min.cobounded1)
    then have "take (length s) (b # bs @ y) = s"
      using True take_append [of "length s" "b # bs" y] by simp
    then show ?thesis using 2(2) True by simp
  next
    case False
    then obtain k where k: "seek bs s = Some k" "i = Suc k" using 2(2) by auto
    have "length s \<le> length bs"
      using k(1)
    proof (induction bs s arbitrary: k rule: seek.induct)
      case (2 b bs s)
      show ?case
      proof (cases "take (length s) (b # bs) = s")
        case True
        then show ?thesis by (metis length_take min.cobounded1)
      next
        case False
        then show ?thesis using 2 by (fastforce split: if_splits)
      qed
    qed (simp split: if_splits)
    then have "take (length s) (b # bs @ y) \<noteq> s"
      using False take_append [of "length s" "b # bs" y] by simp
    then show ?thesis using k 2(1) [OF False k(1)] by simp
  qed
qed

lemma seek_skip: "b \<notin> set x \<Longrightarrow> seek (x @ y) (b # s) = map_option (\<lambda>i. length x + i) (seek y (b # s))"
proof (induction x)
  case (Cons c x)
  then show ?case by (cases "seek y (b # s)") auto
next
  case Nil
  then show ?case by (cases "seek y (b # s)") simp_all
qed

lemma drop_plus: "drop o' b = x @ y \<Longrightarrow> drop (o' + length x) b = y"
  by (metis add.commute append_eq_conv_conj drop_drop)

lemma byte_at_drop: "drop o' b = c # y \<Longrightarrow> byte_at b o' = Some c"
  by (metis byte_at_def drop_eq_Nil2 hd_drop_conv_nth leI list.distinct(1) list.sel(1) not_le)

lemma buffer_indexOf_drop:
  assumes "drop o' b = x @ y" "o' \<le> length b" "seek x s = Some i"
  shows "buffer_indexOf b s o' = Some (o' + i)"
  using assms seek_append [OF assms(3), of y] by (simp add: buffer_indexOf_def)

lemma head_bytes:
  assumes "part_ok b p"
  obtains t where "text_encode (part_head p) = byte_of_char (CHR ''C'') # t"
    and "seek (text_encode (part_head p) @ [0x0D, 0x0A, 0x0D, 0x0A]) [0x0D, 0x0A, 0x0D, 0x0A]
      = Some (length (part_head p))"
proof -
  have cr: "(0x0D :: byte) \<notin> set (text_encode s)" if "CR \<notin> set s" for s
  proof
    assume "(0x0D :: byte) \<in> set (text_encode s)"
    moreover have "(0x0D :: byte) = byte_of_char CR" by code_simp
    ultimately have "byte_of_char CR \<in> byte_of_char ` set s" by (simp add: text_encode_def)
    then show False using that by (metis char_of_byte_of_char imageE)
  qed
  let ?l = "''Content-Disposition: '' @ part_disposition p"
  have "seek (text_encode (part_head p) @ [0x0D, 0x0A, 0x0D, 0x0A]) [0x0D, 0x0A, 0x0D, 0x0A]
      = Some (length (part_head p))"
  proof (cases p)
    case (FieldPart n v)
    then show ?thesis using seek_skip [OF cr [OF disposition_no_CR [OF assms]], of "[0x0D, 0x0A, 0x0D, 0x0A]"]
      by (simp add: part_head_def)
  next
    case (FilePart n f m d)
    then have m: "CR \<notin> set (''Content-Type: '' @ m)" using assms type_no_CR by simp
    have e: "text_encode [CR, LF] = [0x0D, 0x0A]" by code_simp
    have "byte_of_char (CHR ''C'') \<noteq> (0x0D :: byte)" by code_simp
    then have "seek ([0x0D, 0x0A] @ text_encode (''Content-Type: '' @ m) @ [0x0D, 0x0A, 0x0D, 0x0A]) [0x0D, 0x0A, 0x0D, 0x0A]
      = Some (2 + length (''Content-Type: '' @ m))"
      using seek_skip [OF cr [OF m], of "[0x0D, 0x0A, 0x0D, 0x0A]" "[0x0A, 0x0D, 0x0A]"]
      by (simp add: text_encode_def)
    then show ?thesis
      using seek_skip [OF cr [OF disposition_no_CR [OF assms]],
          of "[0x0D, 0x0A] @ text_encode (''Content-Type: '' @ m) @ [0x0D, 0x0A, 0x0D, 0x0A]"]
      unfolding part_head_def FilePart part_type.simps text_encode_append e append_assoc
      by simp
  qed
  moreover have "\<exists>t. text_encode (part_head p) = byte_of_char (CHR ''C'') # t"
    by (simp add: part_head_def text_encode_def)
  ultimately show ?thesis using that by blast
qed

lemma next_part_reads:
  assumes "part_ok boundary p" "drop o' buf = part_bytes boundary p @ rest" "o' \<le> length buf"
  shows "next_part (delim boundary) buf o'
    = Some (parsePartHeaders (part_head p), part_content p, o' + length (part_bytes boundary p))"
proof -
  let ?h = "text_encode (part_head p)" and ?d = "delim boundary" and ?c = "part_content p"
  obtain t where t: "?h = byte_of_char (CHR ''C'') # t"
    and sh: "seek (?h @ [0x0D, 0x0A, 0x0D, 0x0A]) [0x0D, 0x0A, 0x0D, 0x0A] = Some (length (part_head p))"
    using head_bytes [OF assms(1)] by blast
  have sc: "seek (?c @ [0x0D, 0x0A] @ ?d) ?d = Some (length ?c + 2)"
    using assms(1) by (cases p) simp_all
  have d0: "drop o' buf = [0x0D, 0x0A] @ ?h @ [0x0D, 0x0A, 0x0D, 0x0A] @ ?c @ [0x0D, 0x0A] @ ?d @ rest"
    using assms(2) by (simp add: part_bytes_def)
  have d1: "drop (o' + 2) buf = ?h @ [0x0D, 0x0A, 0x0D, 0x0A] @ ?c @ [0x0D, 0x0A] @ ?d @ rest"
    using drop_plus [OF d0] by simp
  have d2: "drop (o' + 2 + length ?h) buf = [0x0D, 0x0A, 0x0D, 0x0A] @ ?c @ [0x0D, 0x0A] @ ?d @ rest"
    using drop_plus [OF d1] .
  have d3: "drop (o' + 2 + length ?h + 4) buf = ?c @ [0x0D, 0x0A] @ ?d @ rest"
  proof -
    have "length [0x0D, 0x0A, 0x0D, 0x0A :: byte] = 4" by simp
    then show ?thesis using drop_plus [OF d2] by metis
  qed
  have le: "o' + 2 + length ?h + 4 + length ?c + 2 + length ?d \<le> length buf"
    using arg_cong [OF d0, of length] assms(3) by simp
  have sk: "skip_crlf buf o' = o' + 2"
  proof -
    have "byte_at buf o' = Some 0x0D" using d0 by (intro byte_at_drop) simp
    moreover have "drop (o' + 1) buf = 0x0A # ?h @ [0x0D, 0x0A, 0x0D, 0x0A] @ ?c @ [0x0D, 0x0A] @ ?d @ rest"
      using drop_plus [of o' buf "[0x0D]"] d0 by simp
    then have "byte_at buf (o' + 1) = Some 0x0A" by (rule byte_at_drop)
    ultimately show ?thesis by (simp add: skip_crlf_def)
  qed
  have nc: "byte_at buf (o' + 2) \<noteq> Some 0x2D"
  proof -
    have "byte_of_char (CHR ''C'') \<noteq> (0x2D :: byte)" by code_simp
    moreover have "byte_at buf (o' + 2) = Some (byte_of_char (CHR ''C''))"
      using d1 unfolding t by (intro byte_at_drop) simp
    ultimately show ?thesis by simp
  qed
  have ih: "buffer_indexOf buf [0x0D, 0x0A, 0x0D, 0x0A] (o' + 2) = Some (o' + 2 + length ?h)"
    using buffer_indexOf_drop [of "o' + 2" buf "?h @ [0x0D, 0x0A, 0x0D, 0x0A]"] d1 sh le by simp
  have ic: "buffer_indexOf buf ?d (o' + 2 + length ?h + 4) = Some (o' + 2 + length ?h + 4 + (length ?c + 2))"
    using buffer_indexOf_drop [of "o' + 2 + length ?h + 4" buf "?c @ [0x0D, 0x0A] @ ?d"] d3 sc le by simp
  have "subarray buf (o' + 2) (o' + 2 + length ?h) = ?h" "subarray buf (o' + 2 + length ?h + 4)
      (o' + 2 + length ?h + 4 + (length ?c + 2) - 2) = ?c"
    using d1 d3 by (simp_all add: subarray_def)
  then show ?thesis
    unfolding next_part_def Let_def sk using nc ih ic by (simp add: part_bytes_def)
qed

lemma parse_parts_collect:
  "\<forall>p\<in>set ps. part_ok boundary p \<Longrightarrow> o' \<le> length buf
    \<Longrightarrow> drop o' buf = concat (map (part_bytes boundary) ps) @ [0x2D, 0x2D]
    \<Longrightarrow> parse_parts limits (delim boundary) buf o' res = Some (collect_parts limits ps res)"
proof (induction ps arbitrary: o' res)
  case Nil
  then have d: "drop o' buf = 0x2D # [0x2D]" by simp
  have "drop (o' + 1) buf = 0x2D # []" using drop_plus [of o' buf "[0x2D]"] d by simp
  then have "byte_at buf o' = Some 0x2D" "byte_at buf (o' + 1) = Some 0x2D" using d by (auto intro: byte_at_drop)
  then have "next_part (delim boundary) buf o' = None" by (simp add: next_part_def skip_crlf_def Let_def)
  moreover have "o' < length buf" using d by (metis drop_eq_Nil2 leI list.distinct(1))
  ultimately show ?case by (subst parse_parts.simps) simp
next
  case (Cons p ps)
  let ?n = "o' + length (part_bytes boundary p)"
  have d: "drop o' buf = part_bytes boundary p @ concat (map (part_bytes boundary) ps) @ [0x2D, 0x2D]"
    using Cons.prems(3) by simp
  have "?n \<le> length buf" "o' < length buf" using arg_cong [OF d, of length] by simp_all
  then show ?case
    using next_part_reads [OF _ d Cons.prems(2)] Cons.prems(1) drop_plus [OF d]
      Cons.IH [of ?n] accept_collects [of boundary p limits res]
    by (subst parse_parts.simps) (auto split: sum.split)
qed

text \<open>C25: A well-formed multipart body is read back: for fields and files whose content does not contain
  the delimiter, the parser gives exactly the fields and the files that were written, in their order, with their
  names, types and bytes, or the error of the first part that breaks a limit.\<close>

theorem multipart_round_trip:
  assumes "\<forall>p\<in>set ps. part_ok boundary p"
  shows "parseMultipartBody (multipart_bytes boundary ps) boundary limits
    = Some (collect_parts limits ps ([], []))"
proof -
  have "seek (delim boundary) (delim boundary) = Some 0" by (cases "delim boundary") simp_all
  then have "buffer_indexOf (multipart_bytes boundary ps) (delim boundary) 0 = Some 0"
    using buffer_indexOf_drop [of 0 "multipart_bytes boundary ps" "delim boundary"]
    by (simp add: multipart_bytes_def)
  moreover have "parse_parts limits (delim boundary) (multipart_bytes boundary ps) (0 + length (delim boundary)) ([], [])
      = Some (collect_parts limits ps ([], []))"
    using parse_parts_collect [OF assms, of "length (delim boundary)" "multipart_bytes boundary ps" limits]
    by (simp add: multipart_bytes_def)
  ultimately show ?thesis
    unfolding parseMultipartBody_def Let_def delim_def [symmetric] by simp
qed

definition sample_parts :: "mp_part list" where
  "sample_parts = [FieldPart ''title'' ''hi'', FilePart ''doc'' ''a.txt'' ''text/plain'' [1, 2, 3]]"

theorem multipart_round_trip_witness:
  "parseMultipartBody (multipart_bytes ''XyZ'' sample_parts) ''XyZ''
      \<lparr>li_maxFileSize = Fin 100, li_maxFiles = Fin 1, li_maxFieldSize = Fin 10\<rparr>
    = Some (Inr ([(''title'', ''hi'')], [\<lparr>mf_name = ''a.txt'', mf_fieldName = Some ''doc'',
        mf_mimetype = ''text/plain'', mf_size = 3, mf_data = [1, 2, 3]\<rparr>]))"
proof -
  have "part_ok ''XyZ'' (FieldPart ''title'' ''hi'')" by code_simp
  moreover have "part_ok ''XyZ'' (FilePart ''doc'' ''a.txt'' ''text/plain'' [1, 2, 3])" by code_simp
  ultimately have "\<forall>p\<in>set sample_parts. part_ok ''XyZ'' p" by (simp add: sample_parts_def)
  from multipart_round_trip [OF this] show ?thesis
    by (simp add: sample_parts_def num_lt_def num_le_def)
qed

text \<open>Behind the multipart middleware an error with a status never reaches the error handlers of the
  application: the \<open>catch\<close> block that encloses \<open>next()\<close> answers it with its own message.\<close>

theorem multipart_answers_later_errors:
  assumes "multipart_verdict opts c = PassOn c'" "is_multipart c" "\<not> res_finished c"
    and "Middleware.dispatch res_finished (m # ms) 1 \<lparr>idx = 0, entered = [0], stt = c'\<rparr> = (r', Some (UserErr e))"
    and "ev_status e = Some s" "truthy_num s"
  shows "run_to_end res_finished (multipart opts # m # ms) c
    = (r'\<lparr>stt := status_json s (error_json (ev_message e)) (stt r')\<rparr>, None)"
  using assms by (intro multipart_guard.recovered_error [OF assms(3,1,4)])
    (simp add: multipart_recover_def catch_status_def run_error_value_def)

definition failing :: "(nat ctx, error_value) middleware" where
  "failing = \<lparr>needsNext = False, isAsync = False, body = Throw (status_error (Fin 500) ''db password: x'')\<rparr>"

definition upload_ctx :: "nat ctx" where
  "upload_ctx = sample_ctx ''POST'' ''/up'' ''10.0.0.1''
     [(''Content-Type'', ''multipart/form-data; boundary=XyZ'')] None"

theorem multipart_answers_later_errors_witness:
  "\<exists>r. run_to_end res_finished [multipart \<lparr>mp_maxFileSize = None, mp_maxFiles = None, mp_maxFieldSize = None\<rparr>, failing]
      upload_ctx = (r, None) \<and> rs_status (cx_res (stt r)) = Fin 500"
proof -
  let ?o = "\<lparr>mp_maxFileSize = None, mp_maxFiles = None, mp_maxFieldSize = None\<rparr>"
  have h: "ctx_header upload_ctx ''content-type'' = Some ''multipart/form-data; boundary=XyZ''"
    unfolding upload_ctx_def sample_header by code_simp
  have m: "is_multipart upload_ctx" by (simp add: is_multipart_def content_type_of_def h startsWith_def)
  have b: "extractBoundary ''multipart/form-data; boundary=XyZ'' = Some ''XyZ''" by code_simp
  have n: "ctx_body upload_ctx = None" by (simp add: upload_ctx_def)
  have v: "multipart_verdict ?o upload_ctx = PassOn (attach_parts ([], []) upload_ctx)"
    using m by (simp add: multipart_verdict_def content_type_of_def h b n del: extractBoundary.simps)
  have f: "\<not> res_finished (attach_parts ([], []) upload_ctx)"
    by (simp add: attach_parts_def res_finished_def upload_ctx_def sample_fresh fresh_state_def)
  have d: "Middleware.dispatch res_finished [failing] 1 \<lparr>idx = 0, entered = [0], stt = attach_parts ([], []) upload_ctx\<rparr>
      = (\<lparr>idx = 1, entered = [0, 1], stt = attach_parts ([], []) upload_ctx\<rparr>,
         Some (UserErr (status_error (Fin 500) ''db password: x'')))"
    using f by (simp add: failing_def Let_def)
  show ?thesis
    using multipart_answers_later_errors [OF v m _ d, of "Fin 500"]
    by (simp add: upload_ctx_def status_error_def truthy_num_def status_json_status)
qed

section \<open>Uploads stay in their directory\<close>

lemma split_on_append: "split_on c (u @ c # s) = split_on c u @ split_on c s"
  by (induction u) (auto split: list.split)

lemma segments_snoc:
  assumes "CHR ''/'' \<notin> set s" "s \<noteq> []"
  shows "segments (u @ CHR ''/'' # s) = segments u @ [s]"
  using assms by (simp add: segments_def split_on_append split_on_single)

lemma safe_name_flat: "CHR ''/'' \<notin> set (safe_name n)"
proof -
  have "CHR ''/'' \<notin> set (basename n)"
  proof (cases "segments n = []")
    case False
    then have "last (segments n) \<in> set (split_on (CHR ''/'') n)"
      using last_in_set [OF False] by (auto simp: segments_def)
    then show ?thesis using False by (auto simp: basename_def dest: split_on_no_sep)
  qed (simp add: basename_def)
  then show ?thesis using replace_all_set [of _ 2 "[]" "basename n"] by (auto simp: safe_name_def)
qed

lemma join_snoc: "xs \<noteq> [] \<Longrightarrow> join c (xs @ [x]) = join c xs @ c @ x"
  by (induction c xs rule: join.induct) auto

text \<open>C26: A file saved without a destination lies directly in the upload directory, under the random
  prefix and the base name of the file, whatever name the client sent.\<close>

theorem upload_stays_in_directory:
  assumes "uploadDir \<noteq> []" "random \<noteq> []" "CHR ''/'' \<notin> set random"
  shows "save_path cwd uploadDir random None f
    = Some (path_text (resolve_segments cwd uploadDir @ [random @ ''-'' @ safe_name (mf_name f)]))"
proof -
  let ?s = "random @ ''-'' @ safe_name (mf_name f)"
  have s: "CHR ''/'' \<notin> set ?s" "?s \<noteq> []" using assms safe_name_flat [of "mf_name f"] by auto
  have "?s \<noteq> ''.''" "?s \<noteq> ''..''"
    using assms(2) by (cases random; force simp: append_eq_Cons_conv Cons_eq_append_conv)+
  then have "resolve_segments cwd (uploadDir @ ''/'' @ ?s) = resolve_segments cwd uploadDir @ [?s]"
    using segments_snoc [OF s, of uploadDir] assms(1)
    by (cases uploadDir) (simp_all add: resolve_segments_def push_segment_def startsWith_def)
  moreover have "startsWith (path_text (xs @ [?s])) (path_text xs)" for xs
    by (cases "xs = []") (simp_all add: path_text_def startsWith_iff join_snoc)
  ultimately show ?thesis by (simp add: save_path_def resolve_def)
qed

definition sample_file :: mp_file where
  "sample_file = \<lparr>mf_name = ''../../etc/passwd'', mf_fieldName = None, mf_mimetype = ''text/plain'', mf_size = 0, mf_data = []\<rparr>"

theorem upload_stays_in_directory_witness:
  "save_path [] ''/srv/up'' ''0af3'' None sample_file = Some ''/srv/up/0af3-passwd''"
proof -
  have "path_text (resolve_segments [] ''/srv/up'' @ [''0af3'' @ ''-'' @ safe_name (mf_name sample_file)])
      = ''/srv/up/0af3-passwd''" by code_simp
  then show ?thesis using upload_stays_in_directory [of "''/srv/up''" "''0af3''" "[]" sample_file] by simp
qed

text \<open>The check on a given destination compares texts, so a sibling directory passes.\<close>

lemma sibling_directory_accepted:
  "save_path [] ''/srv/up'' ''0af3'' (Some ''/srv/up-evil/x'') sample_file = Some ''/srv/up-evil/x''"
  by code_simp

end
