(* ===== verification/Validate.thy ===== *)
theory Validate
  imports MiddlewareKit
begin

text \<open>
  The validation middleware, \<open>src/src/validate.js\<close>.  A schema is one of the three kinds of object the
  module recognises, with the function it offers; the result is what \<open>parseSchema\<close> makes of it.
\<close>

section \<open>Schemas\<close>

record issue =
  is_path :: "string list option"
  is_message :: string

text \<open>
  What a schema says of bad data: an object with a list of issues or details, or one with a message
  or none.
\<close>

datatype complaint = Issues "issue list" | Complaint "string option"

text \<open>
  \<open>safeParse\<close> gives data or an error; \<open>parse\<close> gives a value or throws; \<open>validate\<close> gives a value or an
  error.  \<open>safeParse\<close> and \<open>validate\<close> may throw too.
\<close>

datatype schema =
    SafeParse "json \<Rightarrow> error_value + (complaint + json)"
  | Parse "json \<Rightarrow> complaint + json"
  | Validate "json \<Rightarrow> error_value + (complaint + json)"
  | NoMethod

definition issue_json :: "issue \<Rightarrow> json" where
  "issue_json i = JObj [(''path'', JStr (case is_path i of Some p \<Rightarrow> join ''.'' p | None \<Rightarrow> [])),
     (''message'', JStr (is_message i))]"

definition complaint_json :: "complaint \<Rightarrow> json" where
  "complaint_json e =
     (case e of
        Issues is \<Rightarrow> JArr (map issue_json is)
      | Complaint m \<Rightarrow> JStr (case m of Some t \<Rightarrow> t | None \<Rightarrow> ''Validation failed''))"

text \<open>The members \<open>value\<close> and \<open>error\<close> of the result.\<close>

record parsed =
  pa_value :: json
  pa_error :: json

definition no_method :: error_value where
  "no_method = (plain_error ''Schema must have a .parse(), .safeParse(), or .validate() method'')
     \<lparr>ev_text := ''TypeError: Schema must have a .parse(), .safeParse(), or .validate() method''\<rparr>"

definition outcome_of :: "complaint + json \<Rightarrow> parsed" where
  "outcome_of r =
     (case r of
        Inr v \<Rightarrow> \<lparr>pa_value = v, pa_error = JNull\<rparr>
      | Inl e \<Rightarrow> \<lparr>pa_value = JNull, pa_error = complaint_json e\<rparr>)"

definition parseSchema :: "schema \<Rightarrow> json \<Rightarrow> error_value + parsed" where
  "parseSchema schema d =
     (case schema of
        SafeParse f \<Rightarrow> ebind (f d) (\<lambda>r. Inr (outcome_of r))
      | Parse f \<Rightarrow> Inr (outcome_of (f d))
      | Validate f \<Rightarrow> ebind (f d) (\<lambda>r. Inr (outcome_of r))
      | NoMethod \<Rightarrow> Inl no_method)"

fun truthy_json :: "json \<Rightarrow> bool" where
  "truthy_json JNull \<longleftrightarrow> False"
| "truthy_json (JBool b) \<longleftrightarrow> b"
| "truthy_json (JNum i) \<longleftrightarrow> i \<noteq> 0"
| "truthy_json (JStr s) \<longleftrightarrow> s \<noteq> []"
| "truthy_json _ \<longleftrightarrow> True"

section \<open>The middleware\<close>

record schemas =
  vs_params :: "schema option"
  vs_query :: "schema option"
  vs_body :: "schema option"

definition validation_error :: "string \<Rightarrow> json \<Rightarrow> json" where
  "validation_error field details =
     JObj [(''error'', JStr ''Validation Error''), (''field'', JStr field), (''details'', details)]"

definition bad_request :: "string \<Rightarrow> json \<Rightarrow> 'g ctx \<Rightarrow> 'g ctx" where
  "bad_request field details = status_json (Fin 400) (validation_error field details)"

text \<open>The \<open>catch\<close> block.\<close>

definition caught :: "error_value \<Rightarrow> 'g ctx \<Rightarrow> 'g ctx" where
  "caught e = status_json (Fin 400)
     (JObj [(''error'', JStr ''Validation Error''),
        (''details'', JStr (if ev_isError e then ev_message e else ev_text e))])"

definition req_error_value :: "req_error \<Rightarrow> error_value" where
  "req_error_value e =
     (case e of
        TypeErr \<Rightarrow> (plain_error ''Cannot read properties of null'')\<lparr>ev_text := ''TypeError: Cannot read properties of null''\<rparr>
      | SyntaxErr m \<Rightarrow> (plain_error m)\<lparr>ev_text := ''SyntaxError: '' @ m\<rparr>)"

definition qvalue_json :: "qvalue \<Rightarrow> json" where
  "qvalue_json v = (case v of QStr s \<Rightarrow> JStr s | QArr ss \<Rightarrow> JArr (map JStr ss))"

text \<open>Reading \<open>req.params\<close>, \<open>req.query\<close> and \<open>req.json()\<close>; the request remembers what it made.\<close>

definition read_params :: "'g ctx \<Rightarrow> error_value + (json \<times> 'g ctx)" where
  "read_params c =
     (case get_params (cx_req c) of
        Inl e \<Rightarrow> Inl (req_error_value e)
      | Inr (p, r) \<Rightarrow> Inr (JObj (map (\<lambda>(k, v). (k, JStr v)) p), c\<lparr>cx_req := r\<rparr>))"

definition read_query :: "'g ctx \<Rightarrow> error_value + (json \<times> 'g ctx)" where
  "read_query c =
     (case get_query (cx_req c) of
        Inl e \<Rightarrow> Inl (req_error_value e)
      | Inr (q, r) \<Rightarrow> Inr (JObj (map (\<lambda>(k, v). (k, qvalue_json v)) q), c\<lparr>cx_req := r\<rparr>))"

definition read_json :: "(string \<Rightarrow> string + json) \<Rightarrow> 'g ctx \<Rightarrow> error_value + (json \<times> 'g ctx)" where
  "read_json jsonParse c =
     (case req_json jsonParse (cx_req c) of
        Inl e \<Rightarrow> Inl (req_error_value e)
      | Inr (j, r) \<Rightarrow> Inr (j, c\<lparr>cx_req := r\<rparr>))"

text \<open>
  One of the three blocks: the request has \<open>property\<close> set to the value, or the verdict is a refusal;
  \<open>wants\<close> says that \<open>null\<close> is refused as a missing body.
\<close>

definition check_field ::
  "schema option \<Rightarrow> string \<Rightarrow> string \<Rightarrow> bool \<Rightarrow> ('g ctx \<Rightarrow> error_value + (json \<times> 'g ctx)) \<Rightarrow> 'g ctx \<Rightarrow> 'g verdict" where
  "check_field schema field property wants getter c =
     (case schema of
        None \<Rightarrow> PassOn c
      | Some s \<Rightarrow>
          (case getter c of
             Inl e \<Rightarrow> FailWith e c
           | Inr (d, c1) \<Rightarrow>
               if wants \<and> d = JNull then StopHere (bad_request field (JStr ''Request body is required'') c1)
               else
                 (case parseSchema s d of
                    Inl e \<Rightarrow> FailWith e c1
                  | Inr r \<Rightarrow>
                      if truthy_json (pa_error r) then StopHere (bad_request field (pa_error r) c1)
                      else PassOn (set_extra property (pa_value r) c1))))"

definition and_then :: "'g verdict \<Rightarrow> ('g ctx \<Rightarrow> 'g verdict) \<Rightarrow> 'g verdict" where
  "and_then v f = (case v of PassOn c \<Rightarrow> f c | _ \<Rightarrow> v)"

definition check_all :: "(string \<Rightarrow> string + json) \<Rightarrow> schemas \<Rightarrow> 'g ctx \<Rightarrow> 'g verdict" where
  "check_all jsonParse s c =
     and_then (check_field (vs_params s) ''params'' ''validatedParams'' False read_params c) (\<lambda>c1.
     and_then (check_field (vs_query s) ''query'' ''validatedQuery'' False read_query c1) (\<lambda>c2.
     check_field (vs_body s) ''body'' ''validatedBody'' True (read_json jsonParse) c2))"

definition validate_verdict :: "(string \<Rightarrow> string + json) \<Rightarrow> schemas \<Rightarrow> 'g ctx \<Rightarrow> 'g verdict" where
  "validate_verdict jsonParse s c =
     (case check_all jsonParse s c of FailWith e c' \<Rightarrow> StopHere (caught e c') | v \<Rightarrow> v)"

definition validate :: "(string \<Rightarrow> string + json) \<Rightarrow> schemas \<Rightarrow> ('g ctx, error_value) middleware" where
  "validate jsonParse s =
     \<lparr>needsNext = True, isAsync = True,
      body = guarded_body (validate_verdict jsonParse s) (\<lambda>c e. Some (caught (run_error_value e)))\<rparr>"

interpretation validate_guard: guard "validate jsonParse s" "validate_verdict jsonParse s"
    "\<lambda>c e. Some (caught (run_error_value e))" for jsonParse s
  by unfold_locales (simp_all add: validate_def exec_guarded_body)

section \<open>What reaches the handlers\<close>

lemma check_field_pass:
  assumes "check_field schema field property wants getter c = PassOn c'"
  shows "(schema = None \<and> c' = c) \<or> (\<exists>s x c1 r. schema = Some s \<and> getter c = Inr (x, c1) \<and> (wants \<longrightarrow> x \<noteq> JNull)
    \<and> parseSchema s x = Inr r \<and> \<not> truthy_json (pa_error r) \<and> c' = set_extra property (pa_value r) c1)"
  using assms by (auto simp: check_field_def split: option.splits sum.splits if_splits prod.splits)

definition accepts :: "schema \<Rightarrow> json \<Rightarrow> json option \<Rightarrow> bool" where
  "accepts s x out \<longleftrightarrow> (\<exists>r. parseSchema s x = Inr r \<and> \<not> truthy_json (pa_error r) \<and> out = Some (pa_value r))"

definition params_json :: "request_envelope \<Rightarrow> request \<Rightarrow> json" where
  "params_json d req = JObj (map (\<lambda>(k, v). (k, JStr v)) (view_params d req))"

definition query_json :: "request_envelope \<Rightarrow> request \<Rightarrow> json" where
  "query_json d req = JObj (map (\<lambda>(k, v). (k, qvalue_json v)) (view_query d req))"

text \<open>What two contexts share when only the memory of the getters and other properties differ.\<close>

definition alike :: "request_envelope \<Rightarrow> 'g ctx \<Rightarrow> 'g ctx \<Rightarrow> bool" where
  "alike d a b \<longleftrightarrow> coherent d (cx_req a) \<and> coherent d (cx_req b)
     \<and> rq_plan (cx_req a) = rq_plan (cx_req b) \<and> rq_routeParamNames (cx_req a) = rq_routeParamNames (cx_req b)
     \<and> rq_bodyParsed (cx_req a) = rq_bodyParsed (cx_req b)"

lemma alike_views:
  "alike d a b \<Longrightarrow> view_params d (cx_req a) = view_params d (cx_req b) \<and> view_query d (cx_req a) = view_query d (cx_req b)"
  by (simp add: alike_def view_defs)

lemma alike_trans: "alike d a b \<Longrightarrow> alike d b c \<Longrightarrow> alike d a c"
  by (simp add: alike_def)

lemma view_extra [simp]:
  "view_params d (r\<lparr>rq_extra := e\<rparr>) = view_params d r"
  "view_query d (r\<lparr>rq_extra := e\<rparr>) = view_query d r"
  "view_headers d (r\<lparr>rq_extra := e\<rparr>) = view_headers d r"
  by (simp_all add: view_defs Let_def)

lemma coherent_extra [simp]: "coherent d (r\<lparr>rq_extra := e\<rparr>) = coherent d r"
  by (simp add: coherent_def)

lemma alike_set_extra: "alike d a b \<Longrightarrow> alike d a (set_extra n v b)"
  by (simp add: alike_def set_extra_def)

lemma body_memory:
  "get_params req = Inr (p, req') \<Longrightarrow> rq_bodyParsed req' = rq_bodyParsed req"
  "get_query req = Inr (q, req') \<Longrightarrow> rq_bodyParsed req' = rq_bodyParsed req"
  by (auto simp: get_params_def get_query_def get_url_def ebind_eq_Inr Let_def split: option.splits if_splits)

lemma get_extra_req: "get_extra n (c\<lparr>cx_req := r\<rparr>) = map_of (rq_extra r) n"
  by (simp add: get_extra_def)

lemma read_params_ok:
  assumes "coherent d (cx_req c)" "read_params c = Inr (x, c1)"
  shows "x = params_json d (cx_req c)" "alike d c c1" "get_extra n c1 = get_extra n c"
proof -
  obtain r where r: "get_params (cx_req c) = Inr (view_params d (cx_req c), r)" "coherent d r" "same_source (cx_req c) r"
    using params_getter.get_ok [OF assms(1)] by blast
  then show "x = params_json d (cx_req c)" "alike d c c1" "get_extra n c1 = get_extra n c"
    using assms body_memory(1) [OF r(1)]
    by (auto simp: read_params_def params_json_def alike_def same_source_def get_extra_def)
qed

lemma read_query_ok:
  assumes "coherent d (cx_req c)" "read_query c = Inr (x, c1)"
  shows "x = query_json d (cx_req c)" "alike d c c1" "get_extra n c1 = get_extra n c"
proof -
  obtain r where r: "get_query (cx_req c) = Inr (view_query d (cx_req c), r)" "coherent d r" "same_source (cx_req c) r"
    using query_getter.get_ok [OF assms(1)] by blast
  then show "x = query_json d (cx_req c)" "alike d c c1" "get_extra n c1 = get_extra n c"
    using assms body_memory(2) [OF r(1)]
    by (auto simp: read_query_def query_json_def alike_def same_source_def get_extra_def)
qed

lemma read_json_ok:
  "read_json jsonParse c = Inr (x, c1) \<Longrightarrow> get_extra n c1 = get_extra n c"
  "alike d c c2 \<Longrightarrow> read_json jsonParse c2 = Inr (x, c3) \<Longrightarrow> \<exists>c'. read_json jsonParse c = Inr (x, c')"
  by (auto simp: read_json_def req_json_def decoded_of_def ebind_def alike_def coherent_def get_extra_def
      split: option.splits sum.splits if_splits)

lemma get_extra_set [simp]: "get_extra m (set_extra n v c) = (if m = n then Some v else get_extra m c)"
  by (simp add: set_extra_def get_extra_def map_of_update)

text \<open>What the handlers behind the validation find in \<open>validatedParams\<close>, \<open>validatedQuery\<close> and
  \<open>validatedBody\<close> is what the schemas made of the parameters, the query and the parsed body of the
  request, and each schema reported no error with a text; a body schema never accepts a missing body.\<close>

theorem validated_values_were_accepted:
  assumes "coherent d (cx_req c)" "validate_verdict jsonParse s c = PassOn c'"
  shows "(\<forall>p. vs_params s = Some p \<longrightarrow> accepts p (params_json d (cx_req c)) (get_extra ''validatedParams'' c'))
    \<and> (\<forall>q. vs_query s = Some q \<longrightarrow> accepts q (query_json d (cx_req c)) (get_extra ''validatedQuery'' c'))
    \<and> (\<forall>b. vs_body s = Some b \<longrightarrow> (\<exists>j c2. read_json jsonParse c = Inr (j, c2) \<and> j \<noteq> JNull
         \<and> accepts b j (get_extra ''validatedBody'' c')))"
proof -
  from assms(2) obtain c1 c2 where
    p: "check_field (vs_params s) ''params'' ''validatedParams'' False read_params c = PassOn c1" and
    q: "check_field (vs_query s) ''query'' ''validatedQuery'' False read_query c1 = PassOn c2" and
    b: "check_field (vs_body s) ''body'' ''validatedBody'' True (read_json jsonParse) c2 = PassOn c'"
    by (auto simp: validate_verdict_def check_all_def and_then_def split: verdict.splits)
  have a0: "alike d c c" using assms(1) by (simp add: alike_def)
  have a1: "alike d c c1"
    using check_field_pass [OF p] a0 read_params_ok(2) [OF assms(1)] by (auto intro: alike_set_extra)
  then have co: "coherent d (cx_req c1)" by (simp add: alike_def)
  have a2: "alike d c c2"
    using check_field_pass [OF q] a1 read_query_ok(2) [OF co] by (auto intro: alike_set_extra alike_trans)
  have q12: "get_extra ''validatedParams'' c2 = get_extra ''validatedParams'' c1"
    using check_field_pass [OF q] read_query_ok(3) [OF co] by auto
  have b23: "get_extra n c' = get_extra n c2" if "n \<noteq> ''validatedBody''" for n
    using check_field_pass [OF b] read_json_ok(1) that by auto
  have "accepts x (params_json d (cx_req c)) (get_extra ''validatedParams'' c1)" if "vs_params s = Some x" for x
    using check_field_pass [OF p] that read_params_ok(1) [OF assms(1)] by (auto simp: accepts_def)
  moreover have "accepts x (query_json d (cx_req c)) (get_extra ''validatedQuery'' c2)" if "vs_query s = Some x" for x
    using check_field_pass [OF q] that read_query_ok(1) [OF co] alike_views [OF a1]
    by (auto simp: accepts_def query_json_def)
  moreover have "\<exists>j c3. read_json jsonParse c = Inr (j, c3) \<and> j \<noteq> JNull \<and> accepts x j (get_extra ''validatedBody'' c')"
    if x: "vs_body s = Some x" for x
  proof -
    obtain j c4 r where j: "read_json jsonParse c2 = Inr (j, c4)" "j \<noteq> JNull" "parseSchema x j = Inr r"
      "\<not> truthy_json (pa_error r)" "c' = set_extra ''validatedBody'' (pa_value r) c4"
      using check_field_pass [OF b] x by auto
    then have "accepts x j (get_extra ''validatedBody'' c')" by (auto simp: accepts_def)
    then show ?thesis using read_json_ok(2) [OF a2 j(1)] j(2) by blast
  qed
  ultimately show ?thesis using q12 b23 by simp
qed

definition wants_text :: schema where
  "wants_text = Parse (\<lambda>j. case j of JStr t \<Rightarrow> Inr (JStr (trim t)) | _ \<Rightarrow> Inl (Complaint (Some ''not a text'')))"

definition text_parse :: "string \<Rightarrow> string + json" where
  "text_parse t = Inr (JStr t)"

definition body_schema :: "schema \<Rightarrow> schemas" where
  "body_schema s = \<lparr>vs_params = None, vs_query = None, vs_body = Some s\<rparr>"

definition text_request :: "nat ctx" where
  "text_request = sample_ctx ''POST'' ''/'' ''10.0.0.1'' [] (Some (text_encode '' hi ''))"

lemma text_nonempty: "text_encode '' hi '' \<noteq> []" by code_simp

lemma text_request_body: "\<exists>c. read_json text_parse text_request = Inr (JStr '' hi '', c)"
  using sample_fresh(1) [of "''/''" "''10.0.0.1''" "[]" "Some (text_encode '' hi '')" "''POST''"]
  by (auto simp: read_json_def req_json_def text_request_def decoded_of_def coherent_def sample_request_def
      text_parse_def text_nonempty sample_ctx_def make_ctx_def buildRequest_def split_beta Let_def
      split: option.splits)

theorem validated_values_were_accepted_witness:
  "\<exists>c'. validate_verdict text_parse (body_schema wants_text) text_request = PassOn c'
     \<and> get_extra ''validatedBody'' c' = Some (JStr ''hi'')"
proof -
  obtain c1 where r: "read_json text_parse text_request = Inr (JStr '' hi '', c1)" using text_request_body by blast
  have t: "trim '' hi '' = ''hi''" by code_simp
  have v: "validate_verdict text_parse (body_schema wants_text) text_request
      = PassOn (set_extra ''validatedBody'' (JStr ''hi'') c1)"
    using r by (simp add: validate_verdict_def check_all_def and_then_def check_field_def body_schema_def
        wants_text_def parseSchema_def outcome_of_def t)
  have "coherent (sample_request ''/'' ''10.0.0.1'' [] (Some (text_encode '' hi ''))) (cx_req text_request)"
    unfolding text_request_def by (rule sample_fresh)
  from validated_values_were_accepted [OF this v] show ?thesis
    using v r by (auto simp: body_schema_def accepts_def wants_text_def parseSchema_def outcome_of_def t)
qed

text \<open>The \<open>catch\<close> block around \<open>next()\<close> takes every error of the handlers behind the validation for
  a validation error: whatever they throw becomes status 400 with the text of the error, and the error
  handlers of the application never see it.\<close>

theorem validation_masks_later_errors:
  assumes "validate_verdict jsonParse s c = PassOn c'" "\<not> res_finished c"
    and "Middleware.dispatch res_finished (m # ms) 1 \<lparr>idx = 0, entered = [0], stt = c'\<rparr> = (r', Some e)"
  shows "run_to_end res_finished (validate jsonParse s # m # ms) c
    = (r'\<lparr>stt := caught (run_error_value e) (stt r')\<rparr>, None)"
  using validate_guard.recovered_error [OF assms(2,1,3)] by simp

definition no_schemas :: schemas where
  "no_schemas = \<lparr>vs_params = None, vs_query = None, vs_body = None\<rparr>"

definition broken :: "(nat ctx, error_value) middleware" where
  "broken = \<lparr>needsNext = False, isAsync = False, body = Throw (plain_error ''connection to db-1 lost'')\<rparr>"

theorem validation_masks_later_errors_witness:
  "\<exists>r. run_to_end res_finished [validate Inl no_schemas, broken] text_request = (r, None)
     \<and> rs_status (cx_res (stt r)) = Fin 400"
proof -
  have v: "validate_verdict Inl no_schemas text_request = PassOn text_request"
    by (simp add: validate_verdict_def check_all_def and_then_def check_field_def no_schemas_def)
  have f: "\<not> res_finished text_request" by (simp add: text_request_def)
  have d: "Middleware.dispatch res_finished [broken] 1 \<lparr>idx = 0, entered = [0], stt = text_request\<rparr>
      = (\<lparr>idx = 1, entered = [0, 1], stt = text_request\<rparr>,
         Some (UserErr (plain_error ''connection to db-1 lost'')))"
    using f by (simp add: broken_def Let_def)
  show ?thesis using validation_masks_later_errors [OF v f d] by (simp add: caught_def status_json_status)
qed

text \<open>An error whose message is empty counts as no error: the data is let through and the handlers
  find \<open>null\<close>.\<close>

lemma empty_complaint_passes:
  assumes "f x = Inl (Complaint (Some []))" "getter c = Inr (x, c1)" "\<not> wants"
  shows "check_field (Some (Parse f)) field property wants getter c = PassOn (set_extra property JNull c1)"
  using assms by (simp add: check_field_def parseSchema_def outcome_of_def complaint_json_def)

end
