(* ===== verification/Logging.thy ===== *)
theory Logging
  imports MiddlewareKit
begin

text \<open>
  The request log (\<open>src/src/logger.js\<close>) and the audit log (\<open>src/src/audit-log.js\<close>): the entries, the
  redaction, the middlewares as observers of the chain, and the loggers used outside middlewares.
  Entries are JSON objects; the clock and the sink are parameters.
\<close>

type_synonym entry = "(string \<times> json) list"

definition REDACTED :: json where "REDACTED = JStr ''[REDACTED]''"

text \<open>\<open>Object.assign(a, b)\<close>, \<open>{...a, ...b}\<close>\<close>

definition assign :: "entry \<Rightarrow> entry \<Rightarrow> entry" where
  "assign a b = foldl (\<lambda>o' (k, v). AList.update k v o') a b"

section \<open>Levels\<close>

definition LEVELS :: "string \<Rightarrow> int option" where
  "LEVELS l =
     (if l = ''debug'' then Some 10 else if l = ''info'' then Some 20 else if l = ''warn'' then Some 30
      else if l = ''error'' then Some 40 else if l = ''silent'' then Some 100 else None)"

definition min_level :: "string \<Rightarrow> int" where
  "min_level level = (case LEVELS level of Some n \<Rightarrow> n | None \<Rightarrow> 20)"

definition entry_level :: "jnum \<Rightarrow> string" where
  "entry_level status =
     (if num_le (Fin 500) status then ''error'' else if num_le (Fin 400) status then ''warn'' else ''info'')"

section \<open>Redaction\<close>

definition array_index :: "string \<Rightarrow> nat \<Rightarrow> nat option" where
  "array_index k n = find (\<lambda>i. nat_digits i = k) [0..<n]"

text \<open>Members that every object inherits and that count as defined; \<open>__proto__\<close> is left out, because an assignment of
  a text to it has no effect.\<close>

definition INHERITED :: "string list" where
  "INHERITED = [''constructor'', ''__defineGetter__'', ''__defineSetter__'', ''hasOwnProperty'', ''__lookupGetter__'',
     ''__lookupSetter__'', ''isPrototypeOf'', ''propertyIsEnumerable'', ''toString'', ''valueOf'', ''toLocaleString'']"

text \<open>Along the keys to the last one; a step into something that is no object ends the walk.  What an array
  inherits, and what is written there, does not show in the entry.  The exception that an assignment to the
  \<open>length\<close> of an array raises is not modelled.\<close>

fun redact_at :: "string list \<Rightarrow> json \<Rightarrow> json" where
  "redact_at [] v = v"
| "redact_at [k] (JObj ms) =
     (if map_of ms k \<noteq> None \<or> k \<in> set INHERITED then JObj (AList.update k REDACTED ms) else JObj ms)"
| "redact_at (k # l # ks) (JObj ms) =
     (case map_of ms k of Some v \<Rightarrow> JObj (AList.update k (redact_at (l # ks) v) ms) | None \<Rightarrow> JObj ms)"
| "redact_at [k] (JArr xs) =
     (case array_index k (length xs) of Some i \<Rightarrow> JArr (xs[i := REDACTED]) | None \<Rightarrow> JArr xs)"
| "redact_at (k # l # ks) (JArr xs) =
     (case array_index k (length xs) of
        Some i \<Rightarrow> JArr (xs[i := redact_at (l # ks) (xs ! i)]) | None \<Rightarrow> JArr xs)"
| "redact_at _ v = v"

definition redact_path :: "string \<Rightarrow> entry \<Rightarrow> entry" where
  "redact_path path e =
     (case split_on (CHR ''.'') path of
        base # k # ks \<Rightarrow>
          if base = ''req'' then (case redact_at (k # ks) (JObj e) of JObj ms \<Rightarrow> ms | _ \<Rightarrow> e) else e
      | _ \<Rightarrow> e)"

definition applyRedaction :: "entry \<Rightarrow> string list \<Rightarrow> entry" where
  "applyRedaction e redactSet = foldl (\<lambda>e path. redact_path path e) e (remdups redactSet)"

section \<open>The request log\<close>

text \<open>
  \<open>elapsed\<close> is the rounded duration between the entry and the exit, \<open>now\<close> is \<open>Date.now()\<close>; the sink is
  its effect on the shared state.
\<close>

record 'g log_options =
  lg_level :: string
  lg_redact :: "string list"
  lg_timestamp :: bool
  lg_customProps :: "('g ctx \<Rightarrow> entry) option"
  lg_sink :: "entry \<Rightarrow> 'g ctx \<Rightarrow> 'g ctx"

definition request_entry ::
  "'g log_options \<Rightarrow> ('g ctx \<Rightarrow> 'g ctx \<Rightarrow> json) \<Rightarrow> ('g ctx \<Rightarrow> json) \<Rightarrow> 'g ctx \<Rightarrow> 'g ctx \<Rightarrow> entry" where
  "request_entry opts elapsed now c0 c =
     (let status = rs_status (cx_res c);
          e0 = [(''level'', JStr (entry_level status)), (''method'', JStr (rq_method (cx_req c))),
                (''path'', JStr (ctx_path c)), (''status'', num_json status), (''duration_ms'', elapsed c0 c)];
          e1 = (if lg_timestamp opts then AList.update ''time'' (now c) e0 else e0);
          e2 = (if truthy_extra (get_extra ''id'' c0) then AList.update ''requestId'' (the (get_extra ''id'' c0)) e1 else e1);
          e3 = (case lg_customProps opts of Some f \<Rightarrow> assign e2 (f c) | None \<Rightarrow> e2) in
      applyRedaction e3 (lg_redact opts))"

definition log_request ::
  "'g log_options \<Rightarrow> ('g ctx \<Rightarrow> 'g ctx \<Rightarrow> json) \<Rightarrow> ('g ctx \<Rightarrow> json) \<Rightarrow> 'g ctx \<Rightarrow> error_value option
    \<Rightarrow> 'g ctx \<Rightarrow> 'g ctx" where
  "log_request opts elapsed now c0 error c =
     (if the (LEVELS (entry_level (rs_status (cx_res c)))) \<ge> min_level (lg_level opts)
      then lg_sink opts (request_entry opts elapsed now c0 c) c else c)"

definition logger ::
  "'g log_options \<Rightarrow> ('g ctx \<Rightarrow> 'g ctx \<Rightarrow> json) \<Rightarrow> ('g ctx \<Rightarrow> json) \<Rightarrow> ('g ctx, error_value) middleware" where
  "logger opts elapsed now =
     \<lparr>needsNext = True, isAsync = True, body = observer_body id (log_request opts elapsed now)\<rparr>"

interpretation log_observer: observer "logger opts elapsed now" id "log_request opts elapsed now"
  for opts elapsed now
  by unfold_locales (simp_all add: logger_def exec_observer_body)

section \<open>The audit log\<close>

record 'g audit_options =
  au_events :: "string list option"
  au_includeHeaders :: bool
  au_includeBody :: bool
  au_redactHeaders :: "string list option"
  au_sink :: "entry \<Rightarrow> 'g ctx \<Rightarrow> 'g ctx"

definition redact_names :: "'g audit_options \<Rightarrow> string list" where
  "redact_names opts =
     (case au_redactHeaders opts of
        Some hs \<Rightarrow> map toLowerCase hs
      | None \<Rightarrow> [''authorization'', ''cookie'', ''set-cookie''])"

definition redact_headers :: "string list \<Rightarrow> (string \<times> string) list \<Rightarrow> (string \<times> string) list" where
  "redact_headers names headers =
     foldl (\<lambda>h name. if truthy_str (map_of h name) then AList.update name ''[REDACTED]'' h else h) headers names"

definition event_type :: "entry \<Rightarrow> string" where
  "event_type e = (case map_of e ''type'' of Some (JStr t) \<Rightarrow> t | _ \<Rightarrow> [])"

definition audit_emit :: "'g audit_options \<Rightarrow> json \<Rightarrow> entry \<Rightarrow> 'g ctx \<Rightarrow> 'g ctx" where
  "audit_emit opts timestamp event c =
     (if (case au_events opts of Some ts \<Rightarrow> event_type event \<notin> set ts | None \<Rightarrow> False) then c
      else au_sink opts (AList.update ''timestamp'' timestamp event) c)"

definition all_headers :: "'g ctx \<Rightarrow> (string \<times> string) list" where
  "all_headers c = (case get_headers (cx_req c) of Inr (h, r) \<Rightarrow> h | Inl e \<Rightarrow> [])"

definition optional :: "string \<Rightarrow> json option \<Rightarrow> entry" where
  "optional k v = (case v of Some x \<Rightarrow> if x = JNull then [] else [(k, x)] | None \<Rightarrow> [])"

text \<open>
  The event made before \<open>next\<close>.  Members that are \<open>undefined\<close> are left out.  \<open>body_text\<close> is
  \<open>JSON.stringify\<close> of the buffer.
\<close>

definition audit_event :: "'g audit_options \<Rightarrow> (byte list \<Rightarrow> string) \<Rightarrow> 'g ctx \<Rightarrow> entry" where
  "audit_event opts body_text c =
     [(''type'', JStr ''http.request''), (''method'', JStr (rq_method (cx_req c))), (''path'', JStr (ctx_path c)),
      (''ip'', JStr (ctx_ip c))]
     @ optional ''requestId'' (get_extra ''id'' c)
     @ (if au_includeHeaders opts
        then [(''headers'', JObj (map (\<lambda>(k, v). (k, JStr v)) (redact_headers (redact_names opts) (all_headers c))))]
        else [])
     @ (case ctx_body c of Some b \<Rightarrow> if au_includeBody opts then [(''body'', JStr (body_text b))] else [] | None \<Rightarrow> [])"

definition user_id :: "'g ctx \<Rightarrow> json option" where
  "user_id c =
     (case get_extra ''userId'' c of
        Some v \<Rightarrow> if v \<noteq> JNull then Some v else None
      | None \<Rightarrow> None)"

text \<open>A session object has no own property \<open>userId\<close>, so only \<open>req.userId\<close> counts.\<close>

definition audit_leave ::
  "'g audit_options \<Rightarrow> (byte list \<Rightarrow> string) \<Rightarrow> ('g ctx \<Rightarrow> 'g ctx \<Rightarrow> json) \<Rightarrow> ('g ctx \<Rightarrow> json)
    \<Rightarrow> 'g ctx \<Rightarrow> error_value option \<Rightarrow> 'g ctx \<Rightarrow> 'g ctx" where
  "audit_leave opts body_text elapsed now c0 error c =
     (let event = audit_event opts body_text c0 in
      case error of
        Some e \<Rightarrow>
          audit_emit opts (now c)
            (assign event
              [(''type'', JStr ''http.error''), (''error'', JStr (if ev_isError e then ev_message e else ev_text e)),
               (''statusCode'', case ev_status e of Some s \<Rightarrow> num_json s | None \<Rightarrow> JNum 500),
               (''durationMs'', elapsed c0 c)]) c
      | None \<Rightarrow>
          audit_emit opts (now c)
            (assign event
              ([(''statusCode'', num_json (rs_status (cx_res c))), (''durationMs'', elapsed c0 c)]
               @ optional ''userId'' (user_id c))) c)"

definition auditLog ::
  "'g audit_options \<Rightarrow> (byte list \<Rightarrow> string) \<Rightarrow> ('g ctx \<Rightarrow> 'g ctx \<Rightarrow> json) \<Rightarrow> ('g ctx \<Rightarrow> json)
    \<Rightarrow> ('g ctx, error_value) middleware" where
  "auditLog opts body_text elapsed now =
     \<lparr>needsNext = True, isAsync = True, body = observer_body id (audit_leave opts body_text elapsed now)\<rparr>"

interpretation audit_observer: observer "auditLog opts body_text elapsed now" id "audit_leave opts body_text elapsed now"
  for opts body_text elapsed now
  by unfold_locales (simp_all add: auditLog_def exec_observer_body)

text \<open>The emitters of \<open>createAuditEmitter\<close>: the event each of them hands to the sink.\<close>

definition emitter_event :: "string \<Rightarrow> json \<Rightarrow> entry \<Rightarrow> entry" where
  "emitter_event type timestamp d = assign [(''type'', JStr type), (''timestamp'', timestamp)] d"

definition auth_login :: "json \<Rightarrow> string \<Rightarrow> string \<Rightarrow> entry" where
  "auth_login timestamp userId ip =
     [(''type'', JStr ''auth.login''), (''userId'', JStr userId), (''ip'', JStr ip), (''timestamp'', timestamp)]"

definition auth_logout :: "json \<Rightarrow> string \<Rightarrow> string \<Rightarrow> entry" where
  "auth_logout timestamp userId ip =
     [(''type'', JStr ''auth.logout''), (''userId'', JStr userId), (''ip'', JStr ip), (''timestamp'', timestamp)]"

definition auth_failed :: "json \<Rightarrow> string \<Rightarrow> string \<Rightarrow> entry" where
  "auth_failed timestamp reason ip =
     [(''type'', JStr ''auth.failed''), (''reason'', JStr reason), (''ip'', JStr ip), (''timestamp'', timestamp)]"

definition rate_limit_exceeded :: "json \<Rightarrow> string \<Rightarrow> string \<Rightarrow> entry" where
  "rate_limit_exceeded timestamp ip path =
     [(''type'', JStr ''rate_limit.exceeded''), (''ip'', JStr ip), (''path'', JStr path), (''timestamp'', timestamp)]"

section \<open>Loggers outside middlewares\<close>

record 'w logger_obj =
  lo_level :: string
  lo_write :: "entry \<Rightarrow> 'w \<Rightarrow> 'w"

definition createLogger :: "string \<Rightarrow> (entry \<Rightarrow> 'w \<Rightarrow> 'w) \<Rightarrow> 'w logger_obj" where
  "createLogger level write = \<lparr>lo_level = level, lo_write = write\<rparr>"

definition log_emit :: "'w logger_obj \<Rightarrow> json \<Rightarrow> string \<Rightarrow> json \<Rightarrow> entry \<Rightarrow> 'w \<Rightarrow> 'w" where
  "log_emit lg now entryLevel msg flds w =
     (if the (LEVELS entryLevel) < min_level (lo_level lg) then w
      else lo_write lg (assign [(''level'', JStr entryLevel), (''msg'', msg), (''time'', now)] flds) w)"

definition log_child :: "'w logger_obj \<Rightarrow> entry \<Rightarrow> 'w logger_obj" where
  "log_child lg defaults = createLogger (lo_level lg) (\<lambda>e. lo_write lg (assign defaults e))"

text \<open>A value in a template text.\<close>

fun js_text :: "json option \<Rightarrow> string" where
  "js_text None = ''undefined''"
| "js_text (Some (JStr s)) = s"
| "js_text (Some (JObj ms)) = ''[object Object]''"
| "js_text (Some (JArr xs)) = join '','' (map (\<lambda>x. if x = JNull then [] else js_text (Some x)) xs)"
| "js_text (Some v) = stringify v"

definition pad_end :: "nat \<Rightarrow> string \<Rightarrow> string" where
  "pad_end n s = s @ replicate (n - length s) (CHR '' '')"

definition or_undefined :: "json option \<Rightarrow> bool" where
  "or_undefined v \<longleftrightarrow> v = None \<or> v = Some JNull"

text \<open>\<open>isoText\<close> is \<open>toISOString\<close> of a date.\<close>

definition formatEntry :: "(json \<Rightarrow> string) \<Rightarrow> entry \<Rightarrow> string \<Rightarrow> string" where
  "formatEntry isoText e format =
     (if format = ''pretty''
      then
        (let g = map_of e;
             ts = (if truthy_extra (g ''time'') then isoText (the (g ''time'')) else []);
             lvl = pad_end 5 (toUpperCase (if or_undefined (g ''level'') then ''info'' else js_text (g ''level'')));
             dur = (if or_undefined (g ''duration_ms'') then [] else '' '' @ js_text (g ''duration_ms'') @ ''ms'');
             i = (if truthy_extra (g ''requestId'') then '' ['' @ js_text (g ''requestId'') @ '']'' else []);
             msg = (if or_undefined (g ''msg'')
                    then js_text (g ''method'') @ '' '' @ js_text (g ''path'') @ '' '' @ js_text (g ''status'')
                    else js_text (g ''msg'')) in
         ts @ '' '' @ lvl @ i @ '' '' @ msg @ dur)
      else stringify (JObj e))"

section \<open>What the log never shows\<close>

text \<open>The value at a path of keys through objects and arrays.\<close>

fun json_at :: "string list \<Rightarrow> json \<Rightarrow> json option" where
  "json_at [] v = Some v"
| "json_at (k # ks) (JObj ms) = (case map_of ms k of Some v \<Rightarrow> json_at ks v | None \<Rightarrow> None)"
| "json_at (k # ks) (JArr xs) =
     (case array_index k (length xs) of Some i \<Rightarrow> json_at ks (xs ! i) | None \<Rightarrow> None)"
| "json_at (k # ks) v = None"

definition hidden :: "string list \<Rightarrow> json \<Rightarrow> bool" where
  "hidden ks v \<longleftrightarrow> json_at ks v = None \<or> json_at ks v = Some REDACTED"

lemma array_index_Some: "array_index k n = Some i \<Longrightarrow> i < n \<and> nat_digits i = k"
  by (auto simp: array_index_def find_Some_iff)

lemma redact_hides: "ks \<noteq> [] \<Longrightarrow> hidden ks (redact_at ks v)"
proof (induction ks v rule: redact_at.induct)
  case (2 k ms)
  then show ?case by (simp add: hidden_def map_of_update)
next
  case (3 k l ks ms)
  then show ?case by (cases "map_of ms k") (simp_all add: hidden_def map_of_update)
next
  case (4 k xs)
  then show ?case
    by (cases "array_index k (length xs)") (auto simp: hidden_def dest!: array_index_Some)
next
  case (5 k l ks xs)
  then show ?case
    by (cases "array_index k (length xs)") (auto simp: hidden_def dest!: array_index_Some)
qed (auto simp: hidden_def)

lemma hidden_Obj: "hidden (k # ks) (JObj ms) \<longleftrightarrow> (\<forall>v. map_of ms k = Some v \<longrightarrow> hidden ks v)"
  by (auto simp: hidden_def split: option.split)

lemma hidden_Arr:
  "hidden (k # ks) (JArr xs) \<longleftrightarrow> (\<forall>i. array_index k (length xs) = Some i \<longrightarrow> hidden ks (xs ! i))"
  by (auto simp: hidden_def split: option.split)

lemma hidden_REDACTED: "hidden ks REDACTED"
  by (cases ks) (simp_all add: hidden_def REDACTED_def)

lemma redact_keeps_hidden: "ks \<noteq> [] \<Longrightarrow> hidden ks v \<Longrightarrow> hidden ks (redact_at ls v)"
proof (induction ls v arbitrary: ks rule: redact_at.induct)
  case (2 k ms)
  then show ?case by (cases ks) (auto simp: hidden_Obj map_of_update hidden_REDACTED)
next
  case (3 k l ls ms)
  then obtain k' ks' where ks: "ks = k' # ks'" by (cases ks) auto
  show ?case
  proof (cases "map_of ms k")
    case (Some v)
    have "hidden ks' (redact_at (l # ls) v)" if "k' = k"
    proof (cases "ks' = []")
      case True
      then have "v = REDACTED" using 3(3) Some that ks by (simp add: hidden_def)
      then show ?thesis by (simp add: REDACTED_def hidden_def True)
    next
      case False
      then show ?thesis using 3(1) [OF Some False] 3(3) Some that ks by (simp add: hidden_Obj)
    qed
    then show ?thesis using 3(3) Some ks by (simp add: hidden_Obj map_of_update)
  qed (use 3 in simp)
next
  case (4 k xs)
  then show ?case
    by (cases ks; cases "array_index k (length xs)")
      (auto simp: hidden_Arr nth_list_update hidden_REDACTED dest: array_index_Some)
next
  case (5 k l ls xs)
  then obtain k' ks' where ks: "ks = k' # ks'" by (cases ks) auto
  show ?case
  proof (cases "array_index k (length xs)")
    case (Some i)
    have "hidden ks' (redact_at (l # ls) (xs ! i))" if "array_index k' (length xs) = Some i"
    proof (cases "ks' = []")
      case True
      then have "xs ! i = REDACTED" using 5(3) that ks by (simp add: hidden_def)
      then show ?thesis by (simp add: REDACTED_def hidden_def True)
    next
      case False
      then show ?thesis using 5(1) [OF Some False] 5(3) that ks by (simp add: hidden_Arr)
    qed
    then show ?thesis
      using 5(3) Some ks array_index_Some [OF Some] by (auto simp: hidden_Arr nth_list_update)
  qed (use 5 in simp)
qed auto

lemma redact_at_Obj: "\<exists>ms'. redact_at (k # ks) (JObj ms) = JObj ms'"
  by (cases ks) (auto split: option.split)

lemma redact_path_at:
  assumes "split_on (CHR ''.'') path = ''req'' # k # ks"
  shows "JObj (redact_path path e) = redact_at (k # ks) (JObj e)"
proof -
  obtain ms where "redact_at (k # ks) (JObj e) = JObj ms" using redact_at_Obj by blast
  then show ?thesis using assms by (simp add: redact_path_def)
qed

lemma redact_path_keeps: "ks \<noteq> [] \<Longrightarrow> hidden ks (JObj e) \<Longrightarrow> hidden ks (JObj (redact_path path e))"
proof -
  assume a: "ks \<noteq> []" "hidden ks (JObj e)"
  show ?thesis
  proof (cases "\<exists>k l. split_on (CHR ''.'') path = ''req'' # k # l")
    case True
    then show ?thesis using redact_keeps_hidden [OF a] redact_path_at by metis
  next
    case False
    then have "redact_path path e = e"
      by (auto simp: redact_path_def split: list.split)
    then show ?thesis using a by simp
  qed
qed

lemma redactions_keep: "ks \<noteq> [] \<Longrightarrow> hidden ks (JObj e)
    \<Longrightarrow> hidden ks (JObj (foldl (\<lambda>e path. redact_path path e) e paths))"
  by (induction paths arbitrary: e) (simp_all add: redact_path_keeps)

text \<open>C33: What a path \<open>req.k1.k2...\<close> of the option \<open>redact\<close> names is never logged: whatever the entry and
  whatever other paths are redacted before or after, what stands at the path in the written entry is absent or
  the text [REDACTED].\<close>

theorem redacted_paths_never_logged:
  assumes "path \<in> set (lg_redact opts)" "split_on (CHR ''.'') path = ''req'' # k # ks"
  shows "hidden (k # ks) (JObj (request_entry opts elapsed now c0 c))"
proof -
  have "hidden (k # ks) (JObj (foldl (\<lambda>e path. redact_path path e) e paths))" if "path \<in> set paths" for e paths
    using that
  proof (induction paths arbitrary: e)
    case (Cons p ps)
    show ?case
    proof (cases "p = path")
      case True
      have "hidden (k # ks) (JObj (redact_path path e))"
        unfolding redact_path_at [OF assms(2)] by (rule redact_hides) simp
      then show ?thesis using redactions_keep [of "k # ks"] True by simp
    next
      case False
      then show ?thesis using Cons by simp
    qed
  qed simp
  moreover have "path \<in> set (remdups (lg_redact opts))" using assms(1) by simp
  ultimately show ?thesis unfolding request_entry_def applyRedaction_def Let_def by blast
qed

text \<open>A path with any other root is passed over without a sign: \<open>redact: ["user.email"]\<close> redacts nothing.\<close>

lemma other_roots_are_not_redacted:
  "(\<And>k ks. split_on (CHR ''.'') path \<noteq> ''req'' # k # ks) \<Longrightarrow> redact_path path e = e"
  by (auto simp: redact_path_def split: list.split)

lemma unrooted_path_is_logged:
  "applyRedaction [(''user'', JObj [(''email'', JStr ''a@b.c'')])] [''user.email'', ''res.user.email'']
    = [(''user'', JObj [(''email'', JStr ''a@b.c'')])]"
  by code_simp

definition sample_log :: "(nat \<Rightarrow> nat) \<Rightarrow> nat log_options" where
  "sample_log tick = \<lparr>lg_level = ''info'', lg_redact = [''req.user.email'', ''req.path''], lg_timestamp = False,
     lg_customProps = Some (\<lambda>c. [(''user'', JObj [(''email'', JStr ''a@b.c''), (''id'', JNum 7)])]),
     lg_sink = (\<lambda>e c. c\<lparr>cx_glob := tick (cx_glob c)\<rparr>)\<rparr>"

definition log_ctx :: "nat ctx" where
  "log_ctx = sample_ctx ''GET'' ''/secret'' ''10.0.0.1'' [] None"

theorem redacted_paths_never_logged_witness:
  "hidden [''user'', ''email''] (JObj (request_entry (sample_log Suc) (\<lambda>_ _. JNum 1) (\<lambda>_. JNum 0) log_ctx log_ctx))"
proof (rule redacted_paths_never_logged)
  show "split_on (CHR ''.'') ''req.user.email'' = ''req'' # ''user'' # [''email'']" by code_simp
qed (simp add: sample_log_def)

text \<open>The log takes the status from the response object: a request whose handler throws is logged with
  the status the response had at that time, 200 and level info if nothing was written, although the
  client gets an error response; the error itself goes on unchanged.\<close>

theorem thrown_error_is_logged_as_success:
  assumes "\<not> res_finished c"
    and "Middleware.dispatch res_finished (m # ms) 1 \<lparr>idx = 0, entered = [0], stt = c\<rparr> = (r', Some (UserErr e))"
    and "rs_status (cx_res (stt r')) = Fin 200" "min_level (lg_level opts) \<le> 20"
  shows "run_to_end res_finished (logger opts elapsed now # m # ms) c
      = (r'\<lparr>stt := lg_sink opts (request_entry opts elapsed now c (stt r')) (stt r')\<rparr>, Some (UserErr e))
    \<and> (lg_redact opts = [] \<and> lg_customProps opts = None \<longrightarrow>
         map_of (request_entry opts elapsed now c (stt r')) ''level'' = Some (JStr ''info'')
       \<and> map_of (request_entry opts elapsed now c (stt r')) ''status'' = Some (JNum 200))"
proof -
  have l: "entry_level (Fin 200) = ''info''" by (simp add: entry_level_def num_le_def)
  have "run_to_end res_finished (logger opts elapsed now # m # ms) c
      = (r'\<lparr>stt := log_request opts elapsed now c (Some e) (stt r')\<rparr>, Some (UserErr e))"
    using log_observer.observed_chain [OF assms(1), of m ms r' "Some (UserErr e)" opts elapsed now] assms(2)
    by (simp add: run_error_value_def del: dispatch.simps)
  moreover have "log_request opts elapsed now c (Some e) (stt r')
      = lg_sink opts (request_entry opts elapsed now c (stt r')) (stt r')"
    using assms(3,4) by (simp add: log_request_def l LEVELS_def)
  ultimately show ?thesis
    using assms(3) by (auto simp: request_entry_def applyRedaction_def Let_def l map_of_update num_json_def)
qed

definition thrower :: "(nat ctx, error_value) middleware" where
  "thrower = \<lparr>needsNext = False, isAsync = False, body = Throw (plain_error ''boom'')\<rparr>"

definition quiet_log :: "nat log_options" where
  "quiet_log = \<lparr>lg_level = ''info'', lg_redact = [], lg_timestamp = False, lg_customProps = None,
     lg_sink = (\<lambda>e c. c\<lparr>cx_glob := length e\<rparr>)\<rparr>"

theorem thrown_error_is_logged_as_success_witness:
  "\<exists>r e. run_to_end res_finished [logger quiet_log (\<lambda>_ _. JNum 1) (\<lambda>_. JNum 0), thrower] log_ctx
      = (r, Some (UserErr (plain_error ''boom'')))
    \<and> r = \<lparr>idx = 1, entered = [0, 1], stt = lg_sink quiet_log e log_ctx\<rparr>
    \<and> map_of e ''level'' = Some (JStr ''info'')"
proof -
  have f: "\<not> res_finished log_ctx" by (simp add: log_ctx_def)
  have d: "Middleware.dispatch res_finished [thrower] 1 \<lparr>idx = 0, entered = [0], stt = log_ctx\<rparr>
      = (\<lparr>idx = 1, entered = [0, 1], stt = log_ctx\<rparr>, Some (UserErr (plain_error ''boom'')))"
    using f by (simp add: thrower_def Let_def)
  have s: "rs_status (cx_res (stt \<lparr>idx = 1, entered = [0, 1], stt = log_ctx\<rparr>)) = Fin 200"
    by (simp add: log_ctx_def sample_fresh fresh_state_def)
  show ?thesis
    using thrown_error_is_logged_as_success [OF f d s, of quiet_log "\<lambda>_ _. JNum 1" "\<lambda>_. JNum 0"]
    by (auto simp: quiet_log_def min_level_def LEVELS_def)
qed

text \<open>Sensitive headers in the audit event, and the entries of child loggers.\<close>

lemma audit_redacts_headers:
  "n \<in> set names \<Longrightarrow> map_of (redact_headers names h) n \<in> {None, Some [], Some ''[REDACTED]''}"
proof -
  have keep: "map_of (foldl (\<lambda>h name. if truthy_str (map_of h name) then AList.update name ''[REDACTED]'' h else h) h ns) n
      \<in> {None, Some [], Some ''[REDACTED]''}" if "map_of h n \<in> {None, Some [], Some ''[REDACTED]''}" for h ns
    using that by (induction ns arbitrary: h) (auto simp: map_of_update)
  show "n \<in> set names \<Longrightarrow> ?thesis"
    unfolding redact_headers_def
  proof (induction names arbitrary: h)
    case (Cons a names)
    let ?h = "if truthy_str (map_of h a) then AList.update a ''[REDACTED]'' h else h"
    have "map_of ?h a \<in> {None, Some [], Some ''[REDACTED]''}"
      by (cases "map_of h a") (auto simp: truthy_str_def map_of_update)
    then show ?case using keep [of ?h names] Cons by (cases "n = a") simp_all
  qed simp
qed

lemma child_logger_writes:
  "log_emit (log_child lg defaults) now l msg flds w
    = (if the (LEVELS l) < min_level (lo_level lg) then w
       else lo_write lg (assign defaults (assign [(''level'', JStr l), (''msg'', msg), (''time'', now)] flds)) w)"
  by (simp add: log_emit_def log_child_def createLogger_def)

lemma grandchild_logger_writes:
  "lo_write (log_child (log_child lg d1) d2) e w = lo_write lg (assign d1 (assign d2 e)) w"
  by (simp add: log_child_def createLogger_def)

end
