(* ===== verification/Tracing.thy ===== *)
theory Tracing
  imports MiddlewareKit
begin

text \<open>
  Traces and metrics, \<open>src/src/otel.js\<close>: the trace context in its three header formats, the spans and
  their buffer, the counters and their periodic flush, and the middleware in the chain.  The random ids, the
  coin of the sampler and the clock are functions of the request; the exporter is the list of the batches it was
  given, and a function that says with which error it throws.
\<close>

section \<open>The trace context in headers\<close>

record trace_ctx =
  tc_traceId :: "string option"
  tc_spanId :: "string option"
  tc_sampled :: bool

definition is_hex :: "char \<Rightarrow> bool" where
  "is_hex c = (let n = (of_char c :: nat) in is_digit c \<or> 97 \<le> n \<and> n \<le> 102)"

definition hex_text :: "nat \<Rightarrow> string \<Rightarrow> bool" where
  "hex_text n s \<longleftrightarrow> length s = n \<and> list_all is_hex s"

text \<open>The match of \<open>^00-([0-9a-f]{32})-([0-9a-f]{16})-([0-9a-f]{2})$\<close>.\<close>

definition match_traceparent :: "string \<Rightarrow> (string \<times> string \<times> string) option" where
  "match_traceparent tp =
     (let t = take 32 (drop 3 tp); s = take 16 (drop 36 tp); f = drop 53 tp in
      if take 3 tp = ''00-'' \<and> hex_text 32 t \<and> take 1 (drop 35 tp) = ''-'' \<and> hex_text 16 s
         \<and> take 1 (drop 52 tp) = ''-'' \<and> hex_text 2 f
      then Some (t, s, f) else None)"

definition part :: "string list \<Rightarrow> nat \<Rightarrow> string option" where
  "part ps i = (if i < length ps then Some (ps ! i) else None)"

definition no_context :: trace_ctx where
  "no_context = \<lparr>tc_traceId = None, tc_spanId = None, tc_sampled = True\<rparr>"

definition extractTraceContext :: "(string \<Rightarrow> string) \<Rightarrow> string \<Rightarrow> trace_ctx" where
  "extractTraceContext get format =
     (if format = ''w3c'' then
        (case match_traceparent (get ''traceparent'') of
           Some (t, s, f) \<Rightarrow> \<lparr>tc_traceId = Some t, tc_spanId = Some s, tc_sampled = (f = ''01'')\<rparr>
         | None \<Rightarrow> no_context)
      else if format = ''b3'' then
        (let single = get ''b3''; parts = split_on (CHR ''-'') single in
         if single \<noteq> []
         then \<lparr>tc_traceId = part parts 0, tc_spanId = part parts 1, tc_sampled = (part parts 2 \<noteq> Some ''0'')\<rparr>
         else
           (let t = get ''x-b3-traceid''; s = get ''x-b3-spanid'' in
            if t \<noteq> [] \<and> s \<noteq> []
            then \<lparr>tc_traceId = Some t, tc_spanId = Some s, tc_sampled = (get ''x-b3-sampled'' \<noteq> ''0'')\<rparr>
            else no_context))
      else if format = ''jaeger'' then
        (let parts = split_on (CHR '':'') (get ''uber-trace-id'') in
         if length parts \<ge> 4
         then \<lparr>tc_traceId = part parts 0, tc_spanId = part parts 1, tc_sampled = (part parts 3 \<noteq> Some ''0'')\<rparr>
         else no_context)
      else no_context)"

definition trace_header :: "string \<Rightarrow> string \<Rightarrow> string \<Rightarrow> bool \<Rightarrow> (string \<times> string) option" where
  "trace_header format traceId spanId sampled =
     (if format = ''w3c''
      then Some (''traceparent'', ''00-'' @ traceId @ ''-'' @ spanId @ ''-'' @ (if sampled then ''01'' else ''00''))
      else if format = ''b3''
      then Some (''b3'', traceId @ ''-'' @ spanId @ ''-'' @ (if sampled then ''1'' else ''0''))
      else if format = ''jaeger''
      then Some (''uber-trace-id'', traceId @ '':'' @ spanId @ '':0:'' @ (if sampled then ''1'' else ''0''))
      else None)"

definition injectTraceContext :: "string \<Rightarrow> string \<Rightarrow> string \<Rightarrow> bool \<Rightarrow> 'g ctx \<Rightarrow> 'g ctx" where
  "injectTraceContext format traceId spanId sampled c =
     (case trace_header format traceId spanId sampled of Some (n, v) \<Rightarrow> set_header n v c | None \<Rightarrow> c)"

definition header_text :: "'g ctx \<Rightarrow> string \<Rightarrow> string" where
  "header_text c name =
     (case ctx_header c name of
        Some v \<Rightarrow> v
      | None \<Rightarrow> (case ctx_headers_get c name of Some v \<Rightarrow> v | None \<Rightarrow> []))"

section \<open>Spans and metrics\<close>

record span =
  sp_traceId :: string
  sp_spanId :: string
  sp_parentSpanId :: "string option"
  sp_operationName :: string
  sp_serviceName :: string
  sp_tags :: "(string \<times> json) list"
  sp_status :: string

record otel_state =
  ot_requests :: nat
  ot_errors :: nat
  ot_durations :: "rat list"
  ot_statusCounts :: "(string \<times> nat) list"
  ot_methodCounts :: "(string \<times> nat) list"
  ot_spans :: "span list"
  ot_exported :: "span list list"

definition otel_start :: otel_state where
  "otel_start = \<lparr>ot_requests = 0, ot_errors = 0, ot_durations = [], ot_statusCounts = [],
     ot_methodCounts = [], ot_spans = [], ot_exported = []\<rparr>"

record otel_options =
  oo_serviceName :: string
  oo_propagation :: string
  oo_exporter :: "(span list list \<Rightarrow> span list \<Rightarrow> error_value option) option"
  oo_metrics :: bool

definition MAX_SPAN_BUFFER :: nat where "MAX_SPAN_BUFFER = 512"

text \<open>A batch goes to the exporter, which may throw; the batch has left the buffer before.\<close>

definition hand_over :: "otel_options \<Rightarrow> span list \<Rightarrow> otel_state \<Rightarrow> error_value option \<times> otel_state" where
  "hand_over opts batch st =
     (case oo_exporter opts of
        None \<Rightarrow> (None, st)
      | Some exporter \<Rightarrow> (exporter (ot_exported st) batch, st\<lparr>ot_exported := ot_exported st @ [batch]\<rparr>))"

definition flush_spans :: "otel_options \<Rightarrow> otel_state \<Rightarrow> error_value option \<times> otel_state" where
  "flush_spans opts st =
     (if ot_spans st \<noteq> [] \<and> oo_exporter opts \<noteq> None
      then hand_over opts (ot_spans st) (st\<lparr>ot_spans := []\<rparr>) else (None, st))"

definition record_span :: "otel_options \<Rightarrow> span \<Rightarrow> otel_state \<Rightarrow> error_value option \<times> otel_state" where
  "record_span opts sp st =
     (let st1 = st\<lparr>ot_spans := ot_spans st @ [sp]\<rparr> in
      if length (ot_spans st1) \<ge> MAX_SPAN_BUFFER \<and> oo_exporter opts \<noteq> None
      then hand_over opts (ot_spans st1) (st1\<lparr>ot_spans := []\<rparr>) else (None, st1))"

definition bump :: "string \<Rightarrow> (string \<times> nat) list \<Rightarrow> (string \<times> nat) list" where
  "bump k m = AList.update k ((case map_of m k of Some n \<Rightarrow> n | None \<Rightarrow> 0) + 1) m"

definition record_metrics :: "jnum \<Rightarrow> string \<Rightarrow> rat \<Rightarrow> otel_state \<Rightarrow> otel_state" where
  "record_metrics status method duration st =
     (let ds = ot_durations st @ [duration] in
      st\<lparr>ot_requests := ot_requests st + 1,
         ot_errors := ot_errors st + (if num_le (Fin 500) status then 1 else 0),
         ot_statusCounts := bump (num_text status) (ot_statusCounts st),
         ot_methodCounts := bump method (ot_methodCounts st),
         ot_durations := (if length ds > 10000 then drop 5000 ds else ds)\<rparr>)"

text \<open>What one request leaves: its span if it is sampled, its status, method and duration.\<close>

type_synonym observation = "span option \<times> jnum \<times> string \<times> rat"

definition observe :: "otel_options \<Rightarrow> observation \<Rightarrow> otel_state \<Rightarrow> error_value option \<times> otel_state" where
  "observe opts ob st =
     (let (sp, status, method, duration) = ob;
          (thrown, st1) = (case sp of Some s \<Rightarrow> record_span opts s st | None \<Rightarrow> (None, st)) in
      case thrown of
        Some e \<Rightarrow> (Some e, st1)
      | None \<Rightarrow> (None, if oo_metrics opts then record_metrics status method duration st1 else st1))"

text \<open>The periodic flush; the numbers of the summary are thousandths of milliseconds.\<close>

definition percentile :: "rat \<Rightarrow> rat list \<Rightarrow> rat" where
  "percentile q ds =
     (let sorted_ds = sort ds; i = nat \<lfloor>of_nat (length sorted_ds) * q\<rfloor> in
      if i < length sorted_ds then sorted_ds ! i else 0)"

definition thousandths :: "rat \<Rightarrow> json" where
  "thousandths x = JNum \<lfloor>x * 1000 + 1 / 2\<rfloor>"

definition counts_json :: "(string \<times> nat) list \<Rightarrow> json" where
  "counts_json m = JObj (map (\<lambda>(k, n). (k, JNum (int n))) m)"

definition metrics_span :: "otel_options \<Rightarrow> string \<Rightarrow> string \<Rightarrow> otel_state \<Rightarrow> span" where
  "metrics_span opts traceId spanId st =
     (let ds = ot_durations st in
      \<lparr>sp_traceId = traceId, sp_spanId = spanId, sp_parentSpanId = None,
       sp_operationName = ''metrics.flush'', sp_serviceName = oo_serviceName opts,
       sp_tags = [(''metric.type'', JStr ''summary''),
         (''http.request.count'', JNum (int (ot_requests st))),
         (''http.error.count'', JNum (int (ot_errors st))),
         (''http.request.duration.p50'', thousandths (percentile (1/2) ds)),
         (''http.request.duration.p95'', thousandths (percentile (95/100) ds)),
         (''http.request.duration.p99'', thousandths (percentile (99/100) ds)),
         (''http.status_counts'', counts_json (ot_statusCounts st)),
         (''http.method_counts'', counts_json (ot_methodCounts st))],
       sp_status = ''OK''\<rparr>)"

definition reset_metrics :: "otel_state \<Rightarrow> otel_state" where
  "reset_metrics st =
     st\<lparr>ot_requests := 0, ot_errors := 0, ot_durations := [], ot_statusCounts := [], ot_methodCounts := []\<rparr>"

definition flushMetrics :: "otel_options \<Rightarrow> string \<Rightarrow> string \<Rightarrow> otel_state \<Rightarrow> error_value option \<times> otel_state" where
  "flushMetrics opts traceId spanId st =
     (if ot_requests st = 0 then (None, st)
      else
        (let (thrown, st1) = hand_over opts [metrics_span opts traceId spanId st] st in
         case thrown of Some e \<Rightarrow> (Some e, st1) | None \<Rightarrow> (None, reset_metrics st1)))"

text \<open>The timer is started if there are metrics and an exporter.\<close>

definition metrics_timer :: "otel_options \<Rightarrow> string \<Rightarrow> string \<Rightarrow> otel_state \<Rightarrow> error_value option \<times> otel_state" where
  "metrics_timer opts traceId spanId st =
     (if oo_metrics opts \<and> oo_exporter opts \<noteq> None then flushMetrics opts traceId spanId st else (None, st))"

section \<open>The middleware\<close>

text \<open>The source of randomness and time, per request.\<close>

record otel_env =
  oe_coin :: "otel_state ctx \<Rightarrow> bool"
  oe_traceId :: "otel_state ctx \<Rightarrow> string"
  oe_spanId :: "otel_state ctx \<Rightarrow> string"
  oe_elapsed :: "otel_state ctx \<Rightarrow> otel_state ctx \<Rightarrow> rat"
  oe_errorType :: "error_value \<Rightarrow> string"

definition parent_context :: "otel_options \<Rightarrow> 'g ctx \<Rightarrow> trace_ctx" where
  "parent_context opts c = extractTraceContext (header_text c) (oo_propagation opts)"

definition trace_id :: "otel_options \<Rightarrow> otel_env \<Rightarrow> otel_state ctx \<Rightarrow> string" where
  "trace_id opts env c =
     (let p = tc_traceId (parent_context opts c) in if truthy_str p then the p else oe_traceId env c)"

definition parent_span :: "otel_options \<Rightarrow> 'g ctx \<Rightarrow> string option" where
  "parent_span opts c = (let p = tc_spanId (parent_context opts c) in if truthy_str p then p else None)"

definition otel_enter :: "otel_options \<Rightarrow> otel_env \<Rightarrow> otel_state ctx \<Rightarrow> otel_state ctx" where
  "otel_enter opts env c =
     set_extra ''spanId'' (JStr (oe_spanId env c)) (set_extra ''traceId'' (JStr (trace_id opts env c)) c)"

definition build_span ::
  "otel_options \<Rightarrow> otel_env \<Rightarrow> otel_state ctx \<Rightarrow> error_value option \<Rightarrow> otel_state ctx \<Rightarrow> span" where
  "build_span opts env c0 error c =
     \<lparr>sp_traceId = trace_id opts env c0, sp_spanId = oe_spanId env c0, sp_parentSpanId = parent_span opts c0,
      sp_operationName = ''http.request'', sp_serviceName = oo_serviceName opts,
      sp_tags =
        [(''http.method'', JStr (rq_method (cx_req c))), (''http.url'', JStr (ctx_path c)),
         (''http.status_code'', num_json (rs_status (cx_res c))),
         (''http.route'', case get_extra ''_matchedRoute'' c of
             Some (JStr r) \<Rightarrow> if r \<noteq> [] then JStr r else JStr (ctx_path c) | _ \<Rightarrow> JStr (ctx_path c))]
        @ (case error of None \<Rightarrow> []
           | Some e \<Rightarrow> [(''error.message'', JStr (ev_message e)), (''error.type'', JStr (oe_errorType env e))])
        @ (if truthy_extra (get_extra ''id'' c) then [(''http.request_id'', the (get_extra ''id'' c))] else []),
      sp_status = (case error of None \<Rightarrow> ''OK'' | Some e \<Rightarrow> ''ERROR'')\<rparr>"

definition otel_leave ::
  "otel_options \<Rightarrow> otel_env \<Rightarrow> otel_state ctx \<Rightarrow> error_value option \<Rightarrow> otel_state ctx
    \<Rightarrow> error_value option \<times> otel_state ctx" where
  "otel_leave opts env c0 error c =
     (let sampled = oe_coin env c0; status = rs_status (cx_res c);
          c1 = injectTraceContext (oo_propagation opts) (trace_id opts env c0) (oe_spanId env c0) sampled c;
          sp = (if sampled then Some (build_span opts env c0 error c1) else None);
          (thrown, st) = observe opts (sp, status, rq_method (cx_req c1), oe_elapsed env c0 c) (cx_glob c1) in
      (thrown, c1\<lparr>cx_glob := st\<rparr>))"

text \<open>A \<open>finally\<close> block behind \<open>await next()\<close> that may throw itself: its error takes the place of the outcome.\<close>

definition finally_body ::
  "('g ctx \<Rightarrow> 'g ctx) \<Rightarrow> ('g ctx \<Rightarrow> error_value option \<Rightarrow> 'g ctx \<Rightarrow> error_value option \<times> 'g ctx) \<Rightarrow> 'g behaviour" where
  "finally_body enter leave =
     (let finish = (\<lambda>c0 oe. Ask (\<lambda>c. let (thrown, c') = leave c0 oe c in
        Act (\<lambda>_. c') (case thrown of
            Some e \<Rightarrow> Throw e
          | None \<Rightarrow> (case oe of None \<Rightarrow> Return | Some e \<Rightarrow> Throw e)))) in
      Ask (\<lambda>c0. Act enter (Next (finish c0 None) (\<lambda>e. Some (finish c0 (Some (run_error_value e)))))))"

definition otel :: "otel_options \<Rightarrow> otel_env \<Rightarrow> (otel_state ctx, error_value) middleware" where
  "otel opts env =
     \<lparr>needsNext = True, isAsync = True, body = finally_body (otel_enter opts env) (otel_leave opts env)\<rparr>"

locale finisher =
  fixes mw :: "('g ctx, error_value) middleware"
    and enter :: "'g ctx \<Rightarrow> 'g ctx"
    and leave :: "'g ctx \<Rightarrow> error_value option \<Rightarrow> 'g ctx \<Rightarrow> error_value option \<times> 'g ctx"
  assumes takes_next: "needsNext mw"
    and finishes: "exec (body mw) nx r =
      (let (r', oe) = nx (r\<lparr>stt := enter (stt r)\<rparr>);
           (thrown, c) = leave (stt r) (map_option run_error_value oe) (stt r') in
       (r'\<lparr>stt := c\<rparr>, case thrown of Some e \<Rightarrow> Some (UserErr e) | None \<Rightarrow> map_option (UserErr \<circ> run_error_value) oe))"
begin

lemma finished_chain:
  assumes "\<not> res_finished c"
    and "Middleware.dispatch res_finished (m # ms) 1 \<lparr>idx = 0, entered = [0], stt = enter c\<rparr> = (r', oe)"
    and "leave c (map_option run_error_value oe) (stt r') = (thrown, c')"
  shows "run_to_end res_finished (mw # m # ms) c
    = (r'\<lparr>stt := c'\<rparr>, case thrown of Some e \<Rightarrow> Some (UserErr e) | None \<Rightarrow> map_option (UserErr \<circ> run_error_value) oe)"
proof -
  have "run_to_end res_finished (mw # m # ms) c
      = exec (body mw) (Middleware.dispatch res_finished (m # ms) (0 + 1)) \<lparr>idx = 0, entered = [0], stt = c\<rparr>"
    using assms(1) takes_next by (simp add: run_to_end_simps start_run_def Let_def del: dispatch.simps)
      (simp add: Let_def)
  then show ?thesis
    unfolding finishes using assms(2,3) by (simp del: dispatch.simps)
qed

end

lemma exec_finally_body:
  "exec (finally_body enter leave) nx r =
      (let (r', oe) = nx (r\<lparr>stt := enter (stt r)\<rparr>);
           (thrown, c) = leave (stt r) (map_option run_error_value oe) (stt r') in
       (r'\<lparr>stt := c\<rparr>, case thrown of Some e \<Rightarrow> Some (UserErr e) | None \<Rightarrow> map_option (UserErr \<circ> run_error_value) oe))"
  by (auto simp: finally_body_def Let_def split: option.split prod.split)

interpretation otel_finisher: finisher "otel opts env" "otel_enter opts env" "otel_leave opts env" for opts env
  by unfold_locales (simp_all add: otel_def exec_finally_body)

section \<open>Propagation\<close>

definition hex_ids :: "string \<Rightarrow> string \<Rightarrow> bool" where
  "hex_ids t s \<longleftrightarrow> hex_text 32 t \<and> hex_text 16 s"

lemma hex_plain_chars: "\<not> is_hex (CHR ''-'')" "\<not> is_hex (CHR '':'')"
  by code_simp+

lemma hex_text_no_sep: "hex_text n s \<Longrightarrow> CHR ''-'' \<notin> set s \<and> CHR '':'' \<notin> set s"
  using hex_plain_chars by (auto simp: hex_text_def list_all_iff)

lemma take_part: "length t = n \<Longrightarrow> take n (t @ s) = t" "length t = n \<Longrightarrow> drop n (t @ s) = s"
  by simp_all

lemma match_built:
  assumes "hex_ids t s" "hex_text 2 f"
  shows "match_traceparent (''00-'' @ t @ ''-'' @ s @ ''-'' @ f) = Some (t, s, f)"
proof -
  have l: "length t = 32" "length s = 16" "length f = 2" using assms by (simp_all add: hex_ids_def hex_text_def)
  let ?tp = "''00-'' @ t @ ''-'' @ s @ ''-'' @ f"
  have d3: "drop 3 ?tp = t @ ''-'' @ s @ ''-'' @ f" by simp
  have "take 32 (drop 3 ?tp) = t" unfolding d3 by (rule take_part) (rule l)
  moreover have d35: "drop 35 ?tp = ''-'' @ s @ ''-'' @ f"
    using drop_drop [of 32 3 ?tp] unfolding d3 by (simp add: l)
  moreover have d36: "drop 36 ?tp = s @ ''-'' @ f"
    using drop_drop [of 1 35 ?tp] unfolding d35 by simp
  moreover have "take 16 (drop 36 ?tp) = s" unfolding d36 by (rule take_part) (rule l)
  moreover have d52: "drop 52 ?tp = ''-'' @ f"
    using drop_drop [of 16 36 ?tp] unfolding d36 by (simp add: l)
  moreover have "drop 53 ?tp = f"
    using drop_drop [of 1 52 ?tp] unfolding d52 by simp
  ultimately show ?thesis
    using assms unfolding match_traceparent_def Let_def hex_ids_def by simp
qed

text \<open>The trace context survives the way to the next service: for hexadecimal ids of the standard
  lengths, reading the header that was injected gives the same trace id, span id and sampling flag, in
  each of the three formats.\<close>

theorem trace_context_round_trip:
  assumes "trace_header format t s sampled = Some (n, v)" "hex_ids t s" "get n = v"
  shows "extractTraceContext get format = \<lparr>tc_traceId = Some t, tc_spanId = Some s, tc_sampled = sampled\<rparr>"
proof -
  have h: "CHR ''-'' \<notin> set t" "CHR ''-'' \<notin> set s" "CHR '':'' \<notin> set t" "CHR '':'' \<notin> set s"
    using assms(2) hex_text_no_sep by (auto simp: hex_ids_def)
  consider (w) "format = ''w3c''" | (b) "format = ''b3''" | (j) "format = ''jaeger''"
    using assms(1) by (auto simp: trace_header_def split: if_splits)
  then show ?thesis
  proof cases
    case w
    have "hex_text 2 (if sampled then ''01'' else ''00'')" by (cases sampled; simp; code_simp)
    then show ?thesis
      using match_built [OF assms(2), of "if sampled then ''01'' else ''00''"] assms(1,3) w
      by (cases sampled) (auto simp: trace_header_def extractTraceContext_def)
  next
    case b
    let ?x = "if sampled then CHR ''1'' else CHR ''0''"
    have g: "get ''b3'' = t @ CHR ''-'' # s @ CHR ''-'' # [?x]"
      using assms(1,3) b by (auto simp: trace_header_def)
    have "split_on (CHR ''-'') (get ''b3'') = [t, s, [?x]]"
      unfolding g using h split_on_sep [of "CHR ''-''" t] split_on_sep [of "CHR ''-''" s] by simp
    moreover have "get ''b3'' \<noteq> []" unfolding g by simp
    ultimately show ?thesis using b by (simp add: extractTraceContext_def part_def Let_def)
  next
    case j
    let ?x = "if sampled then CHR ''1'' else CHR ''0''"
    have g: "get ''uber-trace-id'' = t @ CHR '':'' # s @ CHR '':'' # CHR ''0'' # CHR '':'' # [?x]"
      using assms(1,3) j by (auto simp: trace_header_def)
    have "split_on (CHR '':'') (get ''uber-trace-id'') = [t, s, ''0'', [?x]]"
      unfolding g using h split_on_sep [of "CHR '':''" t] split_on_sep [of "CHR '':''" s] by simp
    then show ?thesis using j by (simp add: extractTraceContext_def part_def Let_def)
  qed
qed

theorem trace_context_round_trip_witness:
  "extractTraceContext (\<lambda>n. if n = ''b3'' then replicate 32 (CHR ''a'') @ ''-'' @ replicate 16 (CHR ''b'') @ ''-0'' else []) ''b3''
    = \<lparr>tc_traceId = Some (replicate 32 (CHR ''a'')), tc_spanId = Some (replicate 16 (CHR ''b'')), tc_sampled = False\<rparr>"
proof (rule trace_context_round_trip)
  show "trace_header ''b3'' (replicate 32 (CHR ''a'')) (replicate 16 (CHR ''b'')) False
      = Some (''b3'', replicate 32 (CHR ''a'') @ ''-'' @ replicate 16 (CHR ''b'') @ ''-0'')"
    by (simp add: trace_header_def)
  show "hex_ids (replicate 32 (CHR ''a'')) (replicate 16 (CHR ''b''))" by code_simp
qed simp

section \<open>The buffer and the counters\<close>

text \<open>What happens to the state: a request ends, with the context at its entry, its error and its context; the
  application flushes the spans; the timer flushes the metrics.\<close>

datatype otel_event =
    RequestEnds otel_env "otel_state ctx" "error_value option" "otel_state ctx"
  | FlushSpans
  | MetricsDue string string

fun otel_step :: "otel_options \<Rightarrow> otel_state \<Rightarrow> otel_event \<Rightarrow> otel_state" where
  "otel_step opts st (RequestEnds env c0 error c) = cx_glob (snd (otel_leave opts env c0 error (with_glob st c)))"
| "otel_step opts st FlushSpans = snd (flush_spans opts st)"
| "otel_step opts st (MetricsDue traceId spanId) = snd (metrics_timer opts traceId spanId st)"

fun span_of :: "otel_options \<Rightarrow> otel_event \<Rightarrow> span list" where
  "span_of opts (RequestEnds env c0 error c) = (if oe_coin env c0 then [build_span opts env c0 error c] else [])"
| "span_of opts _ = []"

definition request_spans :: "otel_state \<Rightarrow> span list" where
  "request_spans st = filter (\<lambda>s. sp_operationName s = ''http.request'') (concat (ot_exported st))"

text \<open>The requests that the exported summaries counted.\<close>

definition requests_reported :: "otel_state \<Rightarrow> int" where
  "requests_reported st = sum_list (map (\<lambda>s. case map_of (sp_tags s) ''http.request.count'' of Some (JNum n) \<Rightarrow> n | _ \<Rightarrow> 0)
     (filter (\<lambda>s. sp_operationName s = ''metrics.flush'') (concat (ot_exported st))))"

definition is_request :: "otel_event \<Rightarrow> bool" where
  "is_request ev = (case ev of RequestEnds env c0 error c \<Rightarrow> True | _ \<Rightarrow> False)"

definition reliable :: "otel_options \<Rightarrow> bool" where
  "reliable opts \<longleftrightarrow> (case oo_exporter opts of None \<Rightarrow> True | Some exporter \<Rightarrow> (\<forall>old batch. exporter old batch = None))"

definition otel_inv :: "otel_options \<Rightarrow> otel_event list \<Rightarrow> otel_state \<Rightarrow> bool" where
  "otel_inv opts evs st \<longleftrightarrow> length (ot_durations st) \<le> 10000
     \<and> request_spans st @ ot_spans st = concat (map (span_of opts) evs)
     \<and> (\<forall>s\<in>set (ot_spans st). sp_operationName s = ''http.request'')
     \<and> (if oo_exporter opts = None then ot_exported st = [] else length (ot_spans st) < MAX_SPAN_BUFFER)
     \<and> (oo_metrics opts \<and> reliable opts \<longrightarrow> requests_reported st + int (ot_requests st) = int (length (filter is_request evs)))"

lemma record_metrics_fields [simp]:
  "ot_spans (record_metrics s m d st) = ot_spans st" "ot_exported (record_metrics s m d st) = ot_exported st"
  "ot_requests (record_metrics s m d st) = ot_requests st + 1"
  by (simp_all add: record_metrics_def Let_def)

lemma hand_over_fields [simp]:
  "ot_requests (snd (hand_over opts b st)) = ot_requests st" "ot_durations (snd (hand_over opts b st)) = ot_durations st"
  "ot_spans (snd (hand_over opts b st)) = ot_spans st" "ot_errors (snd (hand_over opts b st)) = ot_errors st"
  "ot_statusCounts (snd (hand_over opts b st)) = ot_statusCounts st"
  "ot_exported (snd (hand_over opts b st)) = ot_exported st @ (if oo_exporter opts = None then [] else [b])"
  by (simp_all add: hand_over_def split: option.split)

lemma reliable_hand_over: "reliable opts \<Longrightarrow> fst (hand_over opts b st) = None"
  by (auto simp: reliable_def hand_over_def split: option.splits)

lemma record_span_fields [simp]:
  "ot_requests (snd (record_span opts s st)) = ot_requests st" "ot_durations (snd (record_span opts s st)) = ot_durations st"
  "ot_errors (snd (record_span opts s st)) = ot_errors st" "ot_statusCounts (snd (record_span opts s st)) = ot_statusCounts st"
  by (simp_all add: record_span_def Let_def)

lemma injected_fields [simp]:
  "cx_req (injectTraceContext f t s b c) = cx_req c" "cx_glob (injectTraceContext f t s b c) = cx_glob c"
  "ctx_path (injectTraceContext f t s b c) = ctx_path c" "get_extra k (injectTraceContext f t s b c) = get_extra k c"
  "rs_status (cx_res (injectTraceContext f t s b c)) = rs_status (cx_res c)"
  by (simp_all add: injectTraceContext_def ctx_path_def get_extra_def res_set_def Let_def split: option.split)

lemma global_fields [simp]: "ctx_path (with_glob g c) = ctx_path c" "get_extra k (with_glob g c) = get_extra k c"
  by (simp_all add: ctx_path_def get_extra_def)

lemma built_span:
  "build_span opts env c0 error (injectTraceContext f t s b (with_glob g c)) = build_span opts env c0 error c"
  unfolding build_span_def injected_fields global_fields with_glob_simps ..

lemma built_operation [simp]: "sp_operationName (build_span opts env c0 error c) = ''http.request''"
  by (simp add: build_span_def)

text \<open>One step at a time.\<close>

lemma record_span_parts:
  "sp_operationName s = ''http.request'' \<Longrightarrow> \<forall>x\<in>set (ot_spans st). sp_operationName x = ''http.request'' \<Longrightarrow>
    request_spans (snd (record_span opts s st)) @ ot_spans (snd (record_span opts s st)) = request_spans st @ ot_spans st @ [s]
    \<and> (\<forall>x\<in>set (ot_spans (snd (record_span opts s st))). sp_operationName x = ''http.request'')
    \<and> requests_reported (snd (record_span opts s st)) = requests_reported st
    \<and> (if oo_exporter opts = None then ot_exported (snd (record_span opts s st)) = ot_exported st
       else length (ot_spans (snd (record_span opts s st))) < MAX_SPAN_BUFFER)"
  by (auto simp: record_span_def Let_def request_spans_def requests_reported_def MAX_SPAN_BUFFER_def filter_id_conv filter_empty_conv)

lemma reliable_span: "reliable opts \<Longrightarrow> fst (record_span opts s st) = None"
  by (simp add: record_span_def Let_def reliable_hand_over)

lemma observed_state:
  "snd (observe opts (sp, status, meth, d) st) =
    (let r = (case sp of Some s \<Rightarrow> record_span opts s st | None \<Rightarrow> (None, st)) in
     if fst r \<noteq> None \<or> \<not> oo_metrics opts then snd r else record_metrics status meth d (snd r))"
  by (auto simp: observe_def Let_def case_prod_beta split: option.split)

lemma request_step:
  "otel_step opts st (RequestEnds env c0 error c) =
    (let r = (if oe_coin env c0 then record_span opts (build_span opts env c0 error c) st else (None, st)) in
     if fst r \<noteq> None \<or> \<not> oo_metrics opts then snd r
     else record_metrics (rs_status (cx_res c)) (rq_method (cx_req c)) (oe_elapsed env c0 (with_glob st c)) (snd r))"
proof -
  have "otel_step opts st (RequestEnds env c0 error c) = snd (observe opts
      (if oe_coin env c0 then Some (build_span opts env c0 error c) else None, rs_status (cx_res c), rq_method (cx_req c),
       oe_elapsed env c0 (with_glob st c)) st)"
    by (simp only: otel_step.simps otel_leave_def Let_def built_span case_prod_beta injected_fields with_glob_simps
        ctx.simps snd_conv) simp
  then show ?thesis by (auto simp: observed_state Let_def)
qed

lemma request_inv:
  assumes "otel_inv opts evs st"
  shows "otel_inv opts (evs @ [RequestEnds env c0 error c]) (otel_step opts st (RequestEnds env c0 error c))"
proof -
  let ?sp = "build_span opts env c0 error c"
  define r where "r = (if oe_coin env c0 then record_span opts ?sp st else (None, st))"
  define meth status d where "meth = rq_method (cx_req c)" and "status = rs_status (cx_res c)"
    and "d = oe_elapsed env c0 (with_glob st c)"
  then have step: "otel_step opts st (RequestEnds env c0 error c)
      = (if fst r \<noteq> None \<or> \<not> oo_metrics opts then snd r else record_metrics status meth d (snd r))"
    unfolding request_step by (simp add: r_def Let_def)
  have r: "length (ot_durations (snd r)) \<le> 10000 \<and> ot_requests (snd r) = ot_requests st
      \<and> request_spans (snd r) @ ot_spans (snd r) = concat (map (span_of opts) (evs @ [RequestEnds env c0 error c]))
      \<and> (\<forall>x\<in>set (ot_spans (snd r)). sp_operationName x = ''http.request'')
      \<and> requests_reported (snd r) = requests_reported st
      \<and> (if oo_exporter opts = None then ot_exported (snd r) = [] else length (ot_spans (snd r)) < MAX_SPAN_BUFFER)"
    using assms record_span_parts [of ?sp st opts] by (auto simp: r_def otel_inv_def)
  have q: "fst r = None" if "reliable opts" using that reliable_span by (simp add: r_def)
  have d: "length (ot_durations (record_metrics status meth d (snd r))) \<le> 10000"
    using r by (auto simp: record_metrics_def Let_def)
  have n: "request_spans (record_metrics status meth d (snd r)) = request_spans (snd r)"
      "requests_reported (record_metrics status meth d (snd r)) = requests_reported (snd r)"
    by (simp_all add: request_spans_def requests_reported_def)
  show ?thesis
    using r q d n assms unfolding step otel_inv_def by (auto simp: is_request_def)
qed

lemma flush_inv: "otel_inv opts evs st \<Longrightarrow> otel_inv opts (evs @ [FlushSpans]) (otel_step opts st FlushSpans)"
  by (auto simp: otel_inv_def flush_spans_def request_spans_def requests_reported_def MAX_SPAN_BUFFER_def filter_id_conv filter_empty_conv is_request_def)

lemma timer_inv:
  assumes "otel_inv opts evs st"
  shows "otel_inv opts (evs @ [MetricsDue t s]) (otel_step opts st (MetricsDue t s))"
proof (cases "oo_metrics opts \<and> oo_exporter opts \<noteq> None \<and> ot_requests st \<noteq> 0")
  case True
  let ?summary = "metrics_span opts t s st" and ?h = "hand_over opts [metrics_span opts t s st] st"
  have "otel_step opts st (MetricsDue t s) = (if fst ?h \<noteq> None then snd ?h else reset_metrics (snd ?h))"
    using True by (auto simp: metrics_timer_def flushMetrics_def case_prod_beta split: option.split)
  moreover have "sp_operationName ?summary = ''metrics.flush''"
      "map_of (sp_tags ?summary) ''http.request.count'' = Some (JNum (int (ot_requests st)))"
    by (simp_all add: metrics_span_def Let_def)
  ultimately show ?thesis
    using assms True reliable_hand_over [of opts "[?summary]" st]
    by (auto simp: otel_inv_def request_spans_def requests_reported_def is_request_def reset_metrics_def)
next
  case False
  then have "otel_step opts st (MetricsDue t s) = st" by (auto simp: metrics_timer_def flushMetrics_def)
  then show ?thesis using assms by (simp add: otel_inv_def is_request_def)
qed

lemma otel_step_inv: "otel_inv opts evs st \<Longrightarrow> otel_inv opts (evs @ [ev]) (otel_step opts st ev)"
  by (cases ev) (simp_all only: request_inv flush_inv timer_inv)

lemma otel_run_inv: "otel_inv opts evs (foldl (otel_step opts) otel_start evs)"
proof (induction evs rule: rev_induct)
  case Nil
  then show ?case by (simp add: otel_inv_def otel_start_def request_spans_def requests_reported_def MAX_SPAN_BUFFER_def)
next
  case (snoc ev evs)
  then show ?case by (simp add: otel_step_inv)
qed

text \<open>C34: Telemetry over any run of requests, calls of \<open>flushSpans\<close> and flushes of the metrics, with any exporter, one
  that throws included: the request spans in the batches handed to the exporter and the buffer together are the
  spans of the sampled requests in order; the buffer stays below 512 spans and is empty after \<open>flushSpans\<close> if
  there is an exporter, and without one nothing leaves it; at most 10000 durations are kept; and if metrics are on
  and the exporter does not throw, the requests counted in the exported summaries and those counted since are all
  requests.\<close>

theorem telemetry_is_complete_and_bounded:
  "let st = foldl (otel_step opts) otel_start evs in
    request_spans st @ ot_spans st = concat (map (span_of opts) evs)
    \<and> length (ot_durations st) \<le> 10000
    \<and> (if oo_exporter opts = None then ot_exported st = []
       else length (ot_spans st) < 512 \<and> ot_spans (otel_step opts st FlushSpans) = [])
    \<and> (oo_metrics opts \<and> reliable opts
        \<longrightarrow> requests_reported st + int (ot_requests st) = int (length (filter is_request evs)))"
  using otel_run_inv [of opts evs] by (auto simp: otel_inv_def Let_def MAX_SPAN_BUFFER_def flush_spans_def)

definition trace_options :: otel_options where
  "trace_options = \<lparr>oo_serviceName = ''api'', oo_propagation = ''w3c'', oo_exporter = None, oo_metrics = True\<rparr>"

definition trace_env :: otel_env where
  "trace_env = \<lparr>oe_coin = (\<lambda>c. True), oe_traceId = (\<lambda>c. replicate 32 (CHR ''a'')),
     oe_spanId = (\<lambda>c. replicate 16 (CHR ''b'')), oe_elapsed = (\<lambda>a b. 1), oe_errorType = (\<lambda>e. ''Error'')\<rparr>"

definition trace_sample :: "otel_state ctx" where
  "trace_sample = with_glob otel_start (sample_ctx ''GET'' ''/'' ''10.0.0.1'' [] None)"

definition exporting :: otel_options where
  "exporting = trace_options\<lparr>oo_exporter := Some (\<lambda>old batch. None)\<rparr>"

definition sample_telemetry :: "otel_event list" where
  "sample_telemetry = [RequestEnds trace_env trace_sample None trace_sample, MetricsDue ''t'' ''s'',
     RequestEnds trace_env trace_sample None trace_sample, FlushSpans]"

theorem telemetry_is_complete_and_bounded_witness:
  "requests_reported (foldl (otel_step exporting) otel_start sample_telemetry)
      + int (ot_requests (foldl (otel_step exporting) otel_start sample_telemetry)) = 2
    \<and> length (request_spans (foldl (otel_step exporting) otel_start sample_telemetry)
      @ ot_spans (foldl (otel_step exporting) otel_start sample_telemetry)) = 2"
proof -
  have "oo_metrics exporting \<and> reliable exporting" by (simp add: exporting_def trace_options_def reliable_def)
  moreover have "length (filter is_request sample_telemetry) = 2" by (simp add: sample_telemetry_def is_request_def)
  moreover have "length (concat (map (span_of exporting) sample_telemetry)) = 2"
    by (simp add: sample_telemetry_def trace_env_def)
  ultimately show ?thesis
    using telemetry_is_complete_and_bounded [of exporting sample_telemetry] unfolding Let_def by simp
qed

text \<open>A request whose handler throws before it sets a status is not counted as an error: its span says
  ERROR with status code 200 and the error counter stays as it was, while the client gets an error
  response.\<close>

theorem thrown_errors_are_not_counted:
  assumes "rs_status (cx_res c) = Fin 200" "oo_metrics opts" "otel_leave opts env c0 (Some e) c = (None, c')"
  shows "ot_errors (cx_glob c') = ot_errors (cx_glob c) \<and> ot_requests (cx_glob c') = ot_requests (cx_glob c) + 1
    \<and> map_of (ot_statusCounts (cx_glob c')) ''200''
        = Some ((case map_of (ot_statusCounts (cx_glob c)) ''200'' of Some n \<Rightarrow> n | None \<Rightarrow> 0) + 1)
    \<and> map_of (sp_tags (build_span opts env c0 (Some e) c)) ''http.status_code'' = Some (JNum 200)
    \<and> sp_status (build_span opts env c0 (Some e) c) = ''ERROR''"
proof -
  have t: "num_text (Fin 200) = ''200''" by (simp add: num_text_def; code_simp)
  have "observe opts (if oe_coin env c0 then Some (build_span opts env c0 (Some e) (injectTraceContext (oo_propagation opts)
        (trace_id opts env c0) (oe_spanId env c0) (oe_coin env c0) c)) else None, Fin 200, rq_method (cx_req c),
      oe_elapsed env c0 c) (cx_glob c) = (None, cx_glob c')"
    using assms(1,3) by (auto simp: otel_leave_def Let_def case_prod_beta intro: prod_eqI)
  then obtain sp d where o: "observe opts (sp, Fin 200, rq_method (cx_req c), d) (cx_glob c) = (None, cx_glob c')" by blast
  define st where "st = snd (case sp of Some s \<Rightarrow> record_span opts s (cx_glob c) | None \<Rightarrow> (None, cx_glob c))"
  have st: "ot_errors st = ot_errors (cx_glob c)" "ot_requests st = ot_requests (cx_glob c)"
      "ot_statusCounts st = ot_statusCounts (cx_glob c)"
    by (simp_all add: st_def split: option.split)
  have "cx_glob c' = record_metrics (Fin 200) (rq_method (cx_req c)) d st"
    using o assms(2) by (auto simp: observe_def Let_def case_prod_beta st_def split: option.splits)
  then show ?thesis
    using assms(1) by (simp add: st record_metrics_def Let_def num_le_def bump_def map_of_update t build_span_def num_json_def)
qed

theorem thrown_errors_are_not_counted_witness:
  "ot_errors (cx_glob (snd (otel_leave trace_options trace_env trace_sample (Some (plain_error ''boom'')) trace_sample))) = 0"
proof -
  have f: "fst (otel_leave trace_options trace_env trace_sample (Some (plain_error ''boom'')) trace_sample) = None"
    by (simp add: otel_leave_def observe_def record_span_def Let_def trace_options_def split: prod.split)
  have "rs_status (cx_res trace_sample) = Fin 200" "oo_metrics trace_options"
    by (simp_all add: trace_sample_def trace_options_def sample_fresh fresh_state_def)
  then show ?thesis
    using thrown_errors_are_not_counted [of trace_sample trace_options trace_env trace_sample "plain_error ''boom''"] f
    by (cases "otel_leave trace_options trace_env trace_sample (Some (plain_error ''boom'')) trace_sample")
      (simp add: trace_sample_def otel_start_def)
qed

text \<open>An exporter that throws changes the outcome of the request that filled the buffer: its error goes on in place of
  the result, the batch has left the buffer, and the request is not counted.\<close>

lemma exporter_error_replaces_outcome:
  assumes "\<not> res_finished c"
    and "Middleware.dispatch res_finished (m # ms) 1 \<lparr>idx = 0, entered = [0], stt = otel_enter opts env c\<rparr> = (r', None)"
    and "oe_coin env c" "oo_exporter opts = Some exporter" "length (ot_spans (cx_glob (stt r'))) = 511"
    and "\<And>old batch. exporter old batch = Some e"
  shows "\<exists>r. run_to_end res_finished (otel opts env # m # ms) c = (r, Some (UserErr e)) \<and> ot_spans (cx_glob (stt r)) = []
    \<and> ot_requests (cx_glob (stt r)) = ot_requests (cx_glob (stt r'))"
proof -
  obtain thrown c' where l: "otel_leave opts env c (map_option run_error_value None) (stt r') = (thrown, c')" by fastforce
  then have "thrown = Some e" "ot_spans (cx_glob c') = []" "ot_requests (cx_glob c') = ot_requests (cx_glob (stt r'))"
    using assms(3-6)
    by (auto simp: otel_leave_def observe_def Let_def case_prod_beta record_span_def MAX_SPAN_BUFFER_def hand_over_def)
  then show ?thesis using otel_finisher.finished_chain [OF assms(1,2) l] by simp
qed

text \<open>The percentiles of the summary are in order.\<close>

lemma percentiles_ordered:
  assumes "ds \<noteq> []" "0 \<le> p" "p \<le> q" "q < 1"
  shows "percentile p ds \<le> percentile q ds"
proof -
  let ?n = "of_nat (length ds) :: rat"
  have n: "0 < ?n" using assms(1) by simp
  have pq: "?n * p \<le> ?n * q" "0 \<le> ?n * p" "?n * q < ?n" using assms n by (simp_all add: mult_left_mono)
  have fl: "\<lfloor>?n * p\<rfloor> \<le> \<lfloor>?n * q\<rfloor>" "0 \<le> \<lfloor>?n * p\<rfloor>" "\<lfloor>?n * q\<rfloor> < int (length ds)"
    using pq by (simp_all add: floor_mono floor_less_iff)
  then have "nat \<lfloor>?n * p\<rfloor> \<le> nat \<lfloor>?n * q\<rfloor>" "nat \<lfloor>?n * q\<rfloor> < length ds" by linarith+
  then show ?thesis
    by (simp add: percentile_def Let_def sorted_nth_mono)
qed

end
