(* ===== verification/HttpErrors.thy ===== *)
theory HttpErrors
  imports Dispatcher
begin

text \<open>
  The error classes of \<open>src/src/error.js\<close>, and the reply the dispatcher makes of them when no error
  handler takes them.
\<close>

section \<open>\<open>HttpError\<close>\<close>

record http_error =
  he_status :: int
  he_code :: string
  he_message :: string
  he_details :: "json option"
  he_name :: string

definition code_table :: "(int \<times> string) list" where
  "code_table =
     [(400, ''BAD_REQUEST''), (401, ''UNAUTHORIZED''), (403, ''FORBIDDEN''), (404, ''NOT_FOUND''),
      (405, ''METHOD_NOT_ALLOWED''), (409, ''CONFLICT''), (413, ''PAYLOAD_TOO_LARGE''),
      (422, ''UNPROCESSABLE_ENTITY''), (429, ''TOO_MANY_REQUESTS''), (500, ''INTERNAL_SERVER_ERROR''),
      (502, ''BAD_GATEWAY''), (503, ''SERVICE_UNAVAILABLE''), (504, ''GATEWAY_TIMEOUT'')]"

definition defaultCodeForStatus :: "int \<Rightarrow> string" where
  "defaultCodeForStatus status =
     (case map_of code_table status of Some c \<Rightarrow> c | None \<Rightarrow> ''HTTP_'' @ int_to_string status)"

text \<open>An argument that is left out is \<open>None\<close>.\<close>

definition newHttpError :: "int \<Rightarrow> string option \<Rightarrow> string option \<Rightarrow> json option \<Rightarrow> http_error" where
  "newHttpError status code message details =
     (let mk = (\<lambda>m c d. \<lparr>he_status = status, he_code = c, he_message = m, he_details = d, he_name = ''HttpError''\<rparr>) in
      if code \<noteq> None \<and> message = None \<and> details = None
      then (if \<not> contains (the code) ''_'' \<and> length (the code) > 20
            then mk (the code) (defaultCodeForStatus status) None
            else mk (the code) (the code) None)
      else mk (case message of Some m \<Rightarrow> m | None \<Rightarrow> ''HTTP '' @ int_to_string status)
              (case code of Some c \<Rightarrow> c | None \<Rightarrow> defaultCodeForStatus status) details)"

definition toJSON :: "http_error \<Rightarrow> json" where
  "toJSON e = JObj ([(''status'', JNum (he_status e)), (''code'', JStr (he_code e)), (''message'', JStr (he_message e))]
     @ (case he_details e of Some d \<Rightarrow> [(''details'', d)] | None \<Rightarrow> []))"

section \<open>The common errors\<close>

definition common_error ::
  "int \<Rightarrow> string \<Rightarrow> string \<Rightarrow> string \<Rightarrow> string option \<Rightarrow> json option \<Rightarrow> http_error" where
  "common_error status code defaultMessage name message details =
     (newHttpError status (Some code) (Some (case message of Some m \<Rightarrow> m | None \<Rightarrow> defaultMessage)) details)
       \<lparr>he_name := name\<rparr>"

definition BadRequest :: "string option \<Rightarrow> json option \<Rightarrow> http_error" where
  "BadRequest = common_error 400 ''BAD_REQUEST'' ''Bad Request'' ''BadRequest''"

definition Unauthorized :: "string option \<Rightarrow> json option \<Rightarrow> http_error" where
  "Unauthorized = common_error 401 ''UNAUTHORIZED'' ''Unauthorized'' ''Unauthorized''"

definition Forbidden :: "string option \<Rightarrow> json option \<Rightarrow> http_error" where
  "Forbidden = common_error 403 ''FORBIDDEN'' ''Forbidden'' ''Forbidden''"

definition NotFound :: "string option \<Rightarrow> json option \<Rightarrow> http_error" where
  "NotFound = common_error 404 ''NOT_FOUND'' ''Not Found'' ''NotFound''"

definition Conflict :: "string option \<Rightarrow> json option \<Rightarrow> http_error" where
  "Conflict = common_error 409 ''CONFLICT'' ''Conflict'' ''Conflict''"

definition UnprocessableEntity :: "string option \<Rightarrow> json option \<Rightarrow> http_error" where
  "UnprocessableEntity = common_error 422 ''UNPROCESSABLE_ENTITY'' ''Unprocessable Entity'' ''UnprocessableEntity''"

definition TooManyRequests :: "string option \<Rightarrow> json option \<Rightarrow> http_error" where
  "TooManyRequests = common_error 429 ''TOO_MANY_REQUESTS'' ''Too Many Requests'' ''TooManyRequests''"

definition InternalServerError :: "string option \<Rightarrow> json option \<Rightarrow> http_error" where
  "InternalServerError = common_error 500 ''INTERNAL_SERVER_ERROR'' ''Internal Server Error'' ''InternalServerError''"

definition BadGateway :: "string option \<Rightarrow> json option \<Rightarrow> http_error" where
  "BadGateway = common_error 502 ''BAD_GATEWAY'' ''Bad Gateway'' ''BadGateway''"

definition ServiceUnavailable :: "string option \<Rightarrow> json option \<Rightarrow> http_error" where
  "ServiceUnavailable = common_error 503 ''SERVICE_UNAVAILABLE'' ''Service Unavailable'' ''ServiceUnavailable''"

definition common_errors :: "(string option \<Rightarrow> json option \<Rightarrow> http_error) list" where
  "common_errors = [BadRequest, Unauthorized, Forbidden, NotFound, Conflict, UnprocessableEntity,
     TooManyRequests, InternalServerError, BadGateway, ServiceUnavailable]"

lemmas common_defs = BadRequest_def Unauthorized_def Forbidden_def NotFound_def Conflict_def
  UnprocessableEntity_def TooManyRequests_def InternalServerError_def BadGateway_def ServiceUnavailable_def

text \<open>As the dispatcher sees it when it is thrown.\<close>

definition thrown_value :: "http_error \<Rightarrow> error_value" where
  "thrown_value e = \<lparr>ev_status = Some (Fin (of_int (he_status e))), ev_statusCode = None, ev_isError = True,
     ev_message = he_message e, ev_text = he_name e @ '': '' @ he_message e,
     ev_code = Some (he_code e)\<rparr>"

lemma common_error_members:
  "he_status (common_error s c d n m x) = s" "he_code (common_error s c d n m x) = c"
  "he_message (common_error s c d n m x) = (case m of Some t \<Rightarrow> t | None \<Rightarrow> d)"
  "he_details (common_error s c d n m x) = x" "he_name (common_error s c d n m x) = n"
  by (simp_all add: common_error_def newHttpError_def Let_def split: option.split)

text \<open>Every common error carries the code of its status, with the message and the details given.\<close>

definition factory_table :: "(int \<times> string \<times> string \<times> string) list" where
  "factory_table =
     [(400, ''BAD_REQUEST'', ''Bad Request'', ''BadRequest''), (401, ''UNAUTHORIZED'', ''Unauthorized'', ''Unauthorized''),
      (403, ''FORBIDDEN'', ''Forbidden'', ''Forbidden''), (404, ''NOT_FOUND'', ''Not Found'', ''NotFound''),
      (409, ''CONFLICT'', ''Conflict'', ''Conflict''),
      (422, ''UNPROCESSABLE_ENTITY'', ''Unprocessable Entity'', ''UnprocessableEntity''),
      (429, ''TOO_MANY_REQUESTS'', ''Too Many Requests'', ''TooManyRequests''),
      (500, ''INTERNAL_SERVER_ERROR'', ''Internal Server Error'', ''InternalServerError''),
      (502, ''BAD_GATEWAY'', ''Bad Gateway'', ''BadGateway''),
      (503, ''SERVICE_UNAVAILABLE'', ''Service Unavailable'', ''ServiceUnavailable'')]"

lemma factory_errors: "common_errors = map (\<lambda>(s, c, d, n). common_error s c d n) factory_table"
  by (simp only: common_errors_def common_defs factory_table_def list.map prod.case)

lemma factory_codes: "list_all (\<lambda>(s, c, d, n). map_of code_table s = Some c) factory_table"
  by code_simp

lemma common_errors_agree:
  assumes "E \<in> set common_errors"
  shows "he_code (E m d) = defaultCodeForStatus (he_status (E m d)) \<and> he_details (E m d) = d
    \<and> (\<forall>t. m = Some t \<longrightarrow> he_message (E m d) = t)"
proof -
  obtain s c t n where "(s, c, t, n) \<in> set factory_table" and E: "E = common_error s c t n"
    using assms unfolding factory_errors by force
  then have "map_of code_table s = Some c" using factory_codes by (fastforce simp: list_all_iff)
  then show ?thesis by (simp add: E common_error_members defaultCodeForStatus_def)
qed

section \<open>Properties\<close>

text \<open>What a client sees of a thrown \<open>HttpError\<close> that no error handler takes is its status and message
  only: for a client error other than 404 the body is the message, for 404 the fixed text, for a server
  error in production a fixed text; the code and the details never reach the client.\<close>

theorem http_error_reply:
  assumes "400 \<le> he_status e" "he_status e \<le> 599"
  shows "buildDefaultErrorSnapshot True (thrown_value e) fallback =
    (let status = Fin (of_int (he_status e)) in
     if he_status e = 404
     then error_snapshot status [(''content-type'', ''text/plain; charset=utf-8'')] ''Not Found''
     else error_snapshot status JSON_CT
       (stringify (JObj [(''error'', JStr (
          if he_status e \<ge> 500 then ''Internal Server Error''
          else if he_message e \<noteq> [] then he_message e else ''HTTP '' @ int_to_string (he_status e)))])))"
proof -
  have n: "normalizeErrorStatus (thrown_value e) fallback = Fin (of_int (he_status e))"
    using assms by (simp add: normalizeErrorStatus_def thrown_value_def is_integer_num_def num_le_def Let_def)
  have l: "num_le (Fin 500) (Fin (of_int (he_status e))) \<longleftrightarrow> 500 \<le> he_status e"
    by (simp add: num_le_def)
  have q: "(Fin (of_int (he_status e)) = Fin 404) \<longleftrightarrow> he_status e = 404" by simp
  show ?thesis
    unfolding buildDefaultErrorSnapshot_def Let_def n l q by (simp add: thrown_value_def num_text_def)
qed

theorem http_error_reply_witness:
  "buildDefaultErrorSnapshot True (thrown_value (newHttpError 422 (Some ''VALIDATION_FAILED'') (Some ''Invalid input'')
      (Some (JObj [(''fields'', JNull)])))) (Fin 500)
    = error_snapshot (Fin 422) JSON_CT (stringify (JObj [(''error'', JStr ''Invalid input'')]))"
  using http_error_reply [of "newHttpError 422 (Some ''VALIDATION_FAILED'') (Some ''Invalid input'') (Some (JObj [(''fields'', JNull)]))" "Fin 500"]
  by (simp add: newHttpError_def Let_def)

text \<open>In the short form with two arguments a message without underscore of at most twenty characters is
  taken for the code: \<open>new HttpError(404, "User not found")\<close> has the code "User not found" instead of
  the code of its status.\<close>

theorem short_message_becomes_code:
  assumes "length message \<le> 20"
  shows "he_code (newHttpError status (Some message) None None) = message
    \<and> he_message (newHttpError status (Some message) None None) = message"
  using assms by (simp add: newHttpError_def Let_def)

theorem short_message_becomes_code_witness:
  "he_code (newHttpError 404 (Some ''User not found'') None None) = ''User not found''
   \<and> defaultCodeForStatus 404 = ''NOT_FOUND''"
  using short_message_becomes_code [of "''User not found''" 404]
  by (simp add: defaultCodeForStatus_def code_table_def)

end
