(* ===== verification/Config.thy ===== *)
theory Config
  imports Json
begin

text \<open>
  Configuration: the environment loader of \<open>src/src/env.js\<close> and the server configuration of
  \<open>src/src/http-server.config.js\<close>.  \<open>JSON.parse\<close> and the file system are parameters.
\<close>

section \<open>Numbers in texts\<close>

text \<open>\<open>Number(text)\<close>; a finite value stands for the nearest double.\<close>

definition finite_rat :: "rat \<Rightarrow> jnum" where
  "finite_rat r = (if r \<ge> 2 ^ 1024 - 2 ^ 970 then PInf else Fin r)"

definition exponent_of :: "string \<Rightarrow> int option" where
  "exponent_of s =
     (let (neg, ds) = (case s of c # cs \<Rightarrow> if c = CHR ''-'' then (True, cs) else if c = CHR ''+'' then (False, cs) else (False, s)
                       | [] \<Rightarrow> (False, [])) in
      if ds \<noteq> [] \<and> list_all is_digit ds
      then Some (if neg then - int (digits_val ds) else int (digits_val ds)) else None)"

definition scale :: "rat \<Rightarrow> int \<Rightarrow> rat" where
  "scale r e = (if e \<ge> 0 then r * 10 ^ nat e else r / 10 ^ nat (- e))"

definition unsigned_number :: "string \<Rightarrow> jnum" where
  "unsigned_number s =
     (let ds = takeWhile is_digit s; r = dropWhile is_digit s;
          (fs, r2) = (case r of c # cs \<Rightarrow> if c = CHR ''.'' then (takeWhile is_digit cs, dropWhile is_digit cs) else ([], r)
                      | [] \<Rightarrow> ([], []));
          m = of_nat (digits_val ds) + of_nat (digits_val fs) / 10 ^ length fs in
      if s = ''Infinity'' then PInf
      else if ds = [] \<and> fs = [] then NaN
      else (case r2 of
              [] \<Rightarrow> finite_rat m
            | c # cs \<Rightarrow>
                if c = CHR ''e'' \<or> c = CHR ''E''
                then (case exponent_of cs of Some e \<Rightarrow> finite_rat (scale m e) | None \<Rightarrow> NaN)
                else NaN))"

definition num_neg :: "jnum \<Rightarrow> jnum" where
  "num_neg x = (case x of PInf \<Rightarrow> NInf | NInf \<Rightarrow> PInf | NaN \<Rightarrow> NaN | Fin r \<Rightarrow> Fin (- r))"

definition radix_digit :: "char \<Rightarrow> nat" where
  "radix_digit c =
     (let n = (of_char (lower_char c) :: nat) in
      if is_digit c then digit_val c else if 97 \<le> n \<and> n \<le> 122 then n - 87 else 99)"

definition radix_number :: "nat \<Rightarrow> string \<Rightarrow> jnum" where
  "radix_number b ds =
     (if ds \<noteq> [] \<and> list_all (\<lambda>c. radix_digit c < b) ds
      then finite_rat (of_nat (foldl (\<lambda>a c. b * a + radix_digit c) 0 ds)) else NaN)"

definition toNumber :: "string \<Rightarrow> jnum" where
  "toNumber t =
     (let s = trim t in
      if s = [] then Fin 0
      else if toLowerCase (take 2 s) = ''0x'' then radix_number 16 (drop 2 s)
      else if toLowerCase (take 2 s) = ''0o'' then radix_number 8 (drop 2 s)
      else if toLowerCase (take 2 s) = ''0b'' then radix_number 2 (drop 2 s)
      else if hd s = CHR ''-'' then num_neg (unsigned_number (tl s))
      else if hd s = CHR ''+'' then unsigned_number (tl s)
      else unsigned_number s)"

section \<open>The environment\<close>

datatype env_value = EStr string | ENum jnum | EBool bool | EJson json

record env_spec =
  es_type :: "string option"
  es_required :: bool
  es_default :: "env_value option"

definition QUOTED :: "string \<Rightarrow> string" where "QUOTED s = [DQ] @ s @ [DQ]"

definition coerce :: "(string \<Rightarrow> string + json) \<Rightarrow> string \<Rightarrow> string \<Rightarrow> string \<Rightarrow> string + env_value" where
  "coerce jsonParse v type key =
     (if type = ''number''
      then (if toNumber v = NaN then Inl (''Env var '' @ key @ '' must be a number, got '' @ QUOTED v)
            else Inr (ENum (toNumber v)))
      else if type = ''boolean''
      then (if v \<in> {''true'', ''1'', ''yes''} then Inr (EBool True)
            else if v \<in> {''false'', ''0'', ''no'', []} then Inr (EBool False)
            else Inl (''Env var '' @ key @ '' must be a boolean, got '' @ QUOTED v))
      else if type = ''json''
      then (case jsonParse v of
              Inr j \<Rightarrow> Inr (EJson j)
            | Inl e \<Rightarrow> Inl (''Env var '' @ key @ '' must be valid JSON, got '' @ QUOTED v))
      else Inr (EStr v))"

type_synonym env_table = "(string \<times> env_value option) list"

definition spec_type :: "env_spec \<Rightarrow> string" where
  "spec_type spec = (case es_type spec of Some t \<Rightarrow> t | None \<Rightarrow> ''string'')"

text \<open>One round of the loop: the value of the key, or an error.\<close>

definition env_entry ::
  "(string \<Rightarrow> string + json) \<Rightarrow> (string \<Rightarrow> string option) \<Rightarrow> string \<Rightarrow> string \<Rightarrow> env_spec \<Rightarrow> string + env_value option" where
  "env_entry jsonParse environ pfx key spec =
     (let envKey = pfx @ key in
      case environ envKey of
        None \<Rightarrow> if es_required spec then Inl (''Missing required env var: '' @ envKey) else Inr (es_default spec)
      | Some raw \<Rightarrow>
          if raw = []
          then (if es_required spec then Inl (''Missing required env var: '' @ envKey) else Inr (es_default spec))
          else map_sum id Some (coerce jsonParse raw (spec_type spec) envKey))"

fun env_loop ::
  "(string \<Rightarrow> string + json) \<Rightarrow> (string \<Rightarrow> string option) \<Rightarrow> string \<Rightarrow> (string \<times> env_spec) list
    \<Rightarrow> env_table \<Rightarrow> string list \<Rightarrow> env_table \<times> string list" where
  "env_loop jsonParse environ pfx [] env errors = (env, errors)"
| "env_loop jsonParse environ pfx ((key, spec) # schema) env errors =
     (case env_entry jsonParse environ pfx key spec of
        Inl e \<Rightarrow> env_loop jsonParse environ pfx schema env (errors @ [e])
      | Inr v \<Rightarrow> env_loop jsonParse environ pfx schema (AList.update key v env) errors)"

definition loadEnv ::
  "(string \<Rightarrow> string + json) \<Rightarrow> (string \<Rightarrow> string option) \<Rightarrow> string \<Rightarrow> (string \<times> env_spec) list
    \<Rightarrow> string list + env_table" where
  "loadEnv jsonParse environ pfx schema =
     (let (env, errors) = env_loop jsonParse environ pfx schema [] [] in
      if errors \<noteq> [] then Inl errors else Inr env)"

definition env_error_message :: "string list \<Rightarrow> string" where
  "env_error_message errors =
     ''Environment validation failed:'' @ [LF] @ ''  - '' @ join ([LF] @ ''  - '') errors"

section \<open>The server configuration\<close>

record tls_input =
  ti_cert :: "string option"
  ti_key :: "string option"
  ti_ca :: "string option"
  ti_passphrase :: "string option"

record tls_config =
  tl_cert :: string
  tl_key :: string
  tl_ca :: "string option"
  tl_passphrase :: "string option"

text \<open>\<open>readFile\<close> is \<open>readFileSync\<close>: the contents, or the message of its error.\<close>

definition resolvePem :: "(string \<Rightarrow> string + string) \<Rightarrow> string option \<Rightarrow> string + string option" where
  "resolvePem readFile v =
     (if \<not> truthy_str v then Inr None
      else if contains (the v) ''-----BEGIN '' then Inr v
      else (case readFile (the v) of
              Inr t \<Rightarrow> Inr (Some t)
            | Inl m \<Rightarrow> Inl (''Failed to read TLS file: '' @ the v @ '' ('' @ m @ '')'')))"

definition normalizeTlsConfig :: "(string \<Rightarrow> string + string) \<Rightarrow> tls_input option \<Rightarrow> string + tls_config option" where
  "normalizeTlsConfig readFile tls =
     (case tls of
        None \<Rightarrow> Inr None
      | Some t \<Rightarrow>
          ebind (resolvePem readFile (ti_cert t)) (\<lambda>cert.
          ebind (resolvePem readFile (ti_key t)) (\<lambda>key.
          if \<not> truthy_str cert then Inl ''tls.cert is required -- provide a PEM string or file path''
          else if \<not> truthy_str key then Inl ''tls.key is required -- provide a PEM string or file path''
          else ebind (if truthy_str (ti_ca t) then resolvePem readFile (ti_ca t) else Inr None) (\<lambda>ca.
            Inr (Some \<lparr>tl_cert = the cert, tl_key = the key, tl_ca = ca, tl_passphrase = ti_passphrase t\<rparr>)))))"

record server_overrides =
  ov_defaultHost :: "string option"
  ov_defaultBacklog :: "jnum option"
  ov_maxHeaderBytes :: "jnum option"
  ov_hotGetRootHttp11 :: "string option"
  ov_hotGetRootHttp10 :: "string option"
  ov_headerConnectionPrefix :: "string option"
  ov_headerContentLengthPrefix :: "string option"
  ov_headerTransferEncodingPrefix :: "string option"
  ov_tls :: "tls_input option option"

record server_config =
  sv_defaultHost :: string
  sv_defaultBacklog :: jnum
  sv_maxHeaderBytes :: jnum
  sv_hotGetRootHttp11 :: string
  sv_hotGetRootHttp10 :: string
  sv_headerConnectionPrefix :: string
  sv_headerContentLengthPrefix :: string
  sv_headerTransferEncodingPrefix :: string
  sv_tls :: "tls_config option"

definition httpServerConfig :: server_config where
  "httpServerConfig =
     \<lparr>sv_defaultHost = ''127.0.0.1'', sv_defaultBacklog = Fin 2048, sv_maxHeaderBytes = Fin (16 * 1024),
      sv_hotGetRootHttp11 = ''GET / HTTP/1.1'' @ [CR, LF], sv_hotGetRootHttp10 = ''GET / HTTP/1.0'' @ [CR, LF],
      sv_headerConnectionPrefix = ''connection:'', sv_headerContentLengthPrefix = ''content-length:'',
      sv_headerTransferEncodingPrefix = ''transfer-encoding:'', sv_tls = None\<rparr>"

definition given :: "'a option \<Rightarrow> 'a \<Rightarrow> 'a" where
  "given x d = (case x of Some v \<Rightarrow> v | None \<Rightarrow> d)"

definition normalizeHttpServerConfig ::
  "(string \<Rightarrow> string + string) \<Rightarrow> server_overrides \<Rightarrow> string + server_config" where
  "normalizeHttpServerConfig readFile ov =
     ebind (normalizeTlsConfig readFile (given (ov_tls ov) None)) (\<lambda>tls. Inr
       \<lparr>sv_defaultHost = given (ov_defaultHost ov) (sv_defaultHost httpServerConfig),
        sv_defaultBacklog = given (ov_defaultBacklog ov) (sv_defaultBacklog httpServerConfig),
        sv_maxHeaderBytes = given (ov_maxHeaderBytes ov) (sv_maxHeaderBytes httpServerConfig),
        sv_hotGetRootHttp11 = given (ov_hotGetRootHttp11 ov) (sv_hotGetRootHttp11 httpServerConfig),
        sv_hotGetRootHttp10 = given (ov_hotGetRootHttp10 ov) (sv_hotGetRootHttp10 httpServerConfig),
        sv_headerConnectionPrefix = given (ov_headerConnectionPrefix ov) (sv_headerConnectionPrefix httpServerConfig),
        sv_headerContentLengthPrefix =
          given (ov_headerContentLengthPrefix ov) (sv_headerContentLengthPrefix httpServerConfig),
        sv_headerTransferEncodingPrefix =
          given (ov_headerTransferEncodingPrefix ov) (sv_headerTransferEncodingPrefix httpServerConfig),
        sv_tls = tls\<rparr>)"

section \<open>What loading guarantees\<close>

definition has_env_type :: "string \<Rightarrow> env_value \<Rightarrow> bool" where
  "has_env_type type v =
     (case v of
        ENum x \<Rightarrow> type = ''number'' \<and> x \<noteq> NaN
      | EBool b \<Rightarrow> type = ''boolean''
      | EJson j \<Rightarrow> type = ''json''
      | EStr s \<Rightarrow> type \<notin> {''number'', ''boolean'', ''json''} \<and> s \<noteq> [])"

definition env_ok :: "env_spec \<Rightarrow> env_value option \<Rightarrow> bool" where
  "env_ok spec v \<longleftrightarrow> (\<exists>x. v = Some x \<and> has_env_type (spec_type spec) x) \<or> (\<not> es_required spec \<and> v = es_default spec)"

lemma coerce_type: "coerce jsonParse raw type key = Inr v \<Longrightarrow> raw \<noteq> [] \<Longrightarrow> has_env_type type v"
proof -
  assume c: "coerce jsonParse raw type key = Inr v" and r: "raw \<noteq> []"
  consider (n) "type = ''number''" | (b) "type = ''boolean''" | (j) "type = ''json''"
    | (s) "type \<noteq> ''number''" "type \<noteq> ''boolean''" "type \<noteq> ''json''" by blast
  then show ?thesis
  proof cases
    case n
    then have "v = ENum (toNumber raw) \<and> toNumber raw \<noteq> NaN"
      using c unfolding coerce_def by (metis Inl_Inr_False sum.inject(2))
    then show ?thesis using n by (simp add: has_env_type_def)
  next
    case b
    then have "\<not> type = ''number''" by simp
    then have "\<exists>x. v = EBool x"
      using c b unfolding coerce_def by (metis Inl_Inr_False sum.inject(2))
    then show ?thesis using b by (auto simp: has_env_type_def)
  next
    case j
    then have "\<not> type = ''number''" "\<not> type = ''boolean''" by simp_all
    then have "\<exists>x. v = EJson x"
      using c j unfolding coerce_def by (cases "jsonParse raw") auto
    then show ?thesis using j by (auto simp: has_env_type_def)
  next
    case s
    then have "v = EStr raw" using c unfolding coerce_def by simp
    then show ?thesis using s r by (simp add: has_env_type_def)
  qed
qed

lemma env_entry_ok: "env_entry jsonParse environ pfx key spec = Inr v \<Longrightarrow> env_ok spec v"
  by (auto simp: env_entry_def env_ok_def Let_def map_sum_def split: option.splits if_splits sum.splits
      dest: coerce_type)

lemma env_loop_errors:
  "env_loop jp environ pfx schema env errors = (env', errors') \<Longrightarrow>
    errors' = errors @ concat (map (\<lambda>(k, s). case env_entry jp environ pfx k s of Inl e \<Rightarrow> [e] | Inr v \<Rightarrow> []) schema)"
  by (induction jp environ pfx schema env errors rule: env_loop.induct) (auto split: sum.splits)

lemma env_loop_other:
  "env_loop jp environ pfx schema env errors = (env', errors') \<Longrightarrow> key \<notin> fst ` set schema
    \<Longrightarrow> map_of env' key = map_of env key"
  by (induction jp environ pfx schema env errors rule: env_loop.induct) (auto simp: map_of_update split: sum.splits)

lemma env_loop_value:
  "env_loop jp environ pfx schema env errors = (env', errors') \<Longrightarrow> distinct (map fst schema)
    \<Longrightarrow> (key, spec) \<in> set schema \<Longrightarrow> env_entry jp environ pfx key spec = Inr v
    \<Longrightarrow> map_of env' key = Some v"
proof (induction jp environ pfx schema env errors rule: env_loop.induct)
  case (2 jp environ pfx k s schema env errors)
  show ?case
  proof (cases "k = key")
    case True
    then have "spec = s" using 2(4,5) by (force simp: image_iff)
    then show ?thesis
      using 2 True env_loop_other [of jp environ pfx schema "AList.update key v env" errors env' errors' key]
      by (auto simp: map_of_update)
  next
    case False
    then show ?thesis using 2 by (auto split: sum.splits)
  qed
qed simp

text \<open>C35: Loading the environment is type-safe: when it succeeds, every variable of the schema has a value
  of its declared type (for a number never NaN), or it is optional and unset and has its default; and
  when it fails, the error lists exactly the messages of all variables that are missing or malformed.\<close>

theorem environment_is_typed:
  assumes "distinct (map fst schema)"
  shows "case loadEnv jsonParse environ pfx schema of
      Inr env \<Rightarrow> \<forall>(key, spec)\<in>set schema. \<exists>v. map_of env key = Some v \<and> env_ok spec v
    | Inl errors \<Rightarrow> errors \<noteq> [] \<and> errors = concat (map (\<lambda>(k, s).
        case env_entry jsonParse environ pfx k s of Inl e \<Rightarrow> [e] | Inr v \<Rightarrow> []) schema)"
proof -
  obtain env errors where l: "env_loop jsonParse environ pfx schema [] [] = (env, errors)" by fastforce
  note e = env_loop_errors [OF l, simplified]
  show ?thesis
  proof (cases "errors = []")
    case True
    have "\<exists>v. map_of env key = Some v \<and> env_ok spec v" if m: "(key, spec) \<in> set schema" for key spec
    proof -
      obtain v where v: "env_entry jsonParse environ pfx key spec = Inr v"
        using e True m by (fastforce split: sum.splits)
      then show ?thesis using env_loop_value [OF l assms m v] env_entry_ok by blast
    qed
    then show ?thesis using True l by (auto simp: loadEnv_def)
  next
    case False
    then show ?thesis using l e by (simp add: loadEnv_def)
  qed
qed

definition sample_schema :: "(string \<times> env_spec) list" where
  "sample_schema =
     [(''PORT'', \<lparr>es_type = Some ''number'', es_required = False, es_default = Some (ENum (Fin 3000))\<rparr>),
      (''DEBUG'', \<lparr>es_type = Some ''boolean'', es_required = True, es_default = None\<rparr>)]"

theorem environment_is_typed_witness:
  "\<exists>env. loadEnv Inl (map_of [(''DEBUG'', ''yes'')]) [] sample_schema = Inr env
     \<and> (\<exists>v. map_of env ''DEBUG'' = Some v \<and> env_ok (the (map_of sample_schema ''DEBUG'')) v)"
proof -
  have "loadEnv Inl (map_of [(''DEBUG'', ''yes'')]) [] sample_schema
      = Inr [(''PORT'', Some (ENum (Fin 3000))), (''DEBUG'', Some (EBool True))]"
    by (simp add: loadEnv_def sample_schema_def env_entry_def coerce_def spec_type_def)
  then show ?thesis
    using environment_is_typed [of sample_schema Inl "map_of [(''DEBUG'', ''yes'')]" "[]"]
    by (simp add: sample_schema_def)
qed

text \<open>A TLS configuration that is accepted has a certificate and a key.\<close>

lemma tls_config_complete:
  "normalizeTlsConfig readFile tls = Inr (Some t) \<Longrightarrow> tl_cert t \<noteq> [] \<and> tl_key t \<noteq> []"
  by (auto simp: normalizeTlsConfig_def ebind_eq_Inr truthy_str_def split: option.splits if_splits)

end
