(* ===== verification/OpenApi.thy ===== *)
theory OpenApi
  imports MiddlewareKit
begin

text \<open>
  The OpenAPI document, \<open>src/src/openapi.js\<close>: the conversion of paths and schemas, the document made of
  the routes, and the middleware that serves it.  Objects are JSON; members that are \<open>undefined\<close> are
  left out.  \<open>isOptional\<close> is the method of the schema library.
\<close>

section \<open>Paths\<close>

definition not_slash :: "char \<Rightarrow> bool" where "not_slash c \<longleftrightarrow> c \<noteq> CHR ''/''"

text \<open>\<open>path.replace(/:([^/]+)/g, "{$1}")\<close> and \<open>path.matchAll(/:([^/]+)/g)\<close>\<close>

function toOpenApiPath :: "string \<Rightarrow> string" where
  "toOpenApiPath [] = []"
| "toOpenApiPath (c # cs) =
     (if c = CHR '':'' \<and> takeWhile not_slash cs \<noteq> []
      then ''{'' @ takeWhile not_slash cs @ ''}'' @ toOpenApiPath (dropWhile not_slash cs)
      else c # toOpenApiPath cs)"
  by pat_completeness auto

termination by (relation "measure length") (simp_all add: length_dropWhile_le less_Suc_eq_le)

function path_params :: "string \<Rightarrow> string list" where
  "path_params [] = []"
| "path_params (c # cs) =
     (if c = CHR '':'' \<and> takeWhile not_slash cs \<noteq> []
      then takeWhile not_slash cs # path_params (dropWhile not_slash cs)
      else path_params cs)"
  by pat_completeness auto

termination by (relation "measure length") (simp_all add: length_dropWhile_le less_Suc_eq_le)

definition string_schema :: json where "string_schema = JObj [(''type'', JStr ''string'')]"

definition parameter_json :: "string \<Rightarrow> string \<Rightarrow> bool \<Rightarrow> json \<Rightarrow> json" where
  "parameter_json name place required schema =
     JObj [(''name'', JStr name), (''in'', JStr place), (''required'', JBool required), (''schema'', schema)]"

definition extractPathParams :: "string \<Rightarrow> json list option" where
  "extractPathParams path =
     (let ps = map (\<lambda>n. parameter_json n ''path'' True string_schema) (path_params path) in
      if ps \<noteq> [] then Some ps else None)"

section \<open>Schemas\<close>

datatype zod =
    ZString | ZNumber | ZBoolean
  | ZArray zod
  | ZObject "(string \<times> zod) list option"
  | ZOptional zod
  | ZEnum "string list"
  | ZOther string

text \<open>A TypeBox schema is JSON with a member \<open>type\<close> or \<open>properties\<close>.\<close>

datatype any_schema = Zod zod | TypeBox "(string \<times> json) list" | Unrecognised

definition type_json :: "string \<Rightarrow> json" where "type_json t = JObj [(''type'', JStr t)]"

fun zodToJsonSchema :: "(zod \<Rightarrow> bool) \<Rightarrow> zod \<Rightarrow> json" and
    zod_properties :: "(zod \<Rightarrow> bool) \<Rightarrow> (string \<times> zod) list \<Rightarrow> (string \<times> json) list" where
  "zodToJsonSchema opt ZString = type_json ''string''"
| "zodToJsonSchema opt ZNumber = type_json ''number''"
| "zodToJsonSchema opt ZBoolean = type_json ''boolean''"
| "zodToJsonSchema opt (ZArray z) = JObj [(''type'', JStr ''array''), (''items'', zodToJsonSchema opt z)]"
| "zodToJsonSchema opt (ZObject None) = JObj [(''type'', JStr ''object''), (''properties'', JObj [])]"
| "zodToJsonSchema opt (ZObject (Some shape)) =
     (let required = map fst (filter (\<lambda>(k, z). \<not> opt z) shape) in
      JObj ([(''type'', JStr ''object''), (''properties'', JObj (zod_properties opt shape))]
        @ (if required \<noteq> [] then [(''required'', JArr (map JStr required))] else [])))"
| "zodToJsonSchema opt (ZOptional z) = zodToJsonSchema opt z"
| "zodToJsonSchema opt (ZEnum vs) = JObj [(''type'', JStr ''string''), (''enum'', JArr (map JStr vs))]"
| "zodToJsonSchema opt (ZOther t) = type_json ''object''"
| "zod_properties opt [] = []"
| "zod_properties opt ((k, z) # zs) = (k, zodToJsonSchema opt z) # zod_properties opt zs"

definition extractJsonSchema :: "(zod \<Rightarrow> bool) \<Rightarrow> any_schema \<Rightarrow> json" where
  "extractJsonSchema opt schema =
     (case schema of Zod z \<Rightarrow> zodToJsonSchema opt z | TypeBox ms \<Rightarrow> JObj ms | Unrecognised \<Rightarrow> type_json ''object'')"

text \<open>The query schema is an object of schemas; only Zod members have \<open>isOptional\<close>.\<close>

definition query_required :: "(zod \<Rightarrow> bool) \<Rightarrow> any_schema \<Rightarrow> bool" where
  "query_required opt schema = (case schema of Zod z \<Rightarrow> \<not> opt z | _ \<Rightarrow> True)"

definition extractQueryParams :: "(zod \<Rightarrow> bool) \<Rightarrow> (string \<times> any_schema) list \<Rightarrow> json list" where
  "extractQueryParams opt shape =
     map (\<lambda>(n, v). parameter_json n ''query'' (query_required opt v) (extractJsonSchema opt v)) shape"

section \<open>The document\<close>

record route_meta =
  rm_path :: string
  rm_method :: string
  rm_summary :: "string option"
  rm_tags :: "string list option"
  rm_operationId :: "string option"
  rm_body :: "any_schema option"
  rm_query :: "(string \<times> any_schema) list option"

record spec_options =
  so_info :: json
  so_servers :: "json list"
  so_components :: "(string \<times> json) list"
  so_tags :: "json list"

definition tag_json :: "json \<Rightarrow> json" where
  "tag_json t = (case t of JStr s \<Rightarrow> JObj [(''name'', JStr s)] | _ \<Rightarrow> t)"

definition is_alnum :: "char \<Rightarrow> bool" where
  "is_alnum c \<longleftrightarrow> is_word c \<and> c \<noteq> CHR ''_''"

definition operation_id :: "route_meta \<Rightarrow> string \<Rightarrow> string" where
  "operation_id route pathKey =
     (case rm_operationId route of
        Some i \<Rightarrow> i
      | None \<Rightarrow> toLowerCase (rm_method route) @ ''_'' @ map (\<lambda>c. if is_alnum c then c else CHR ''_'') pathKey)"

definition operation :: "(zod \<Rightarrow> bool) \<Rightarrow> route_meta \<Rightarrow> json" where
  "operation opt route =
     (let pathKey = toOpenApiPath (rm_path route);
          ps = (case (extractPathParams (rm_path route), rm_query route) of
                  (p, None) \<Rightarrow> p
                | (p, Some q) \<Rightarrow> Some ((case p of Some x \<Rightarrow> x | None \<Rightarrow> []) @ extractQueryParams opt q)) in
      JObj ((case rm_summary route of Some s \<Rightarrow> [(''summary'', JStr s)] | None \<Rightarrow> [])
        @ (case rm_tags route of Some ts \<Rightarrow> [(''tags'', JArr (map JStr ts))] | None \<Rightarrow> [])
        @ [(''operationId'', JStr (operation_id route pathKey))]
        @ (case ps of Some x \<Rightarrow> [(''parameters'', JArr x)] | None \<Rightarrow> [])
        @ [(''responses'', JObj [(''200'', JObj [(''description'', JStr ''Successful response'')])])]
        @ (case rm_body route of
             Some b \<Rightarrow> [(''requestBody'', JObj [(''required'', JBool True),
               (''content'', JObj [(''application/json'', JObj [(''schema'', extractJsonSchema opt b)])])])]
           | None \<Rightarrow> [])))"

type_synonym path_table = "(string \<times> (string \<times> json) list) list"

definition add_route :: "(zod \<Rightarrow> bool) \<Rightarrow> path_table \<Rightarrow> route_meta \<Rightarrow> path_table" where
  "add_route opt paths route =
     (let pathKey = toOpenApiPath (rm_path route);
          item = (case map_of paths pathKey of Some i \<Rightarrow> i | None \<Rightarrow> []) in
      AList.update pathKey (AList.update (toLowerCase (rm_method route)) (operation opt route) item) paths)"

definition spec_paths :: "(zod \<Rightarrow> bool) \<Rightarrow> route_meta list \<Rightarrow> path_table" where
  "spec_paths opt routes = foldl (add_route opt) [] routes"

definition generateSpec :: "(zod \<Rightarrow> bool) \<Rightarrow> route_meta list \<Rightarrow> spec_options \<Rightarrow> (string \<times> json) list" where
  "generateSpec opt routes options =
     [(''openapi'', JStr ''3.1.0''), (''info'', so_info options)]
     @ (if so_servers options \<noteq> [] then [(''servers'', JArr (so_servers options))] else [])
     @ (if so_tags options \<noteq> [] then [(''tags'', JArr (map tag_json (so_tags options)))] else [])
     @ [(''paths'', JObj (map (\<lambda>(p, item). (p, JObj item)) (spec_paths opt routes))),
        (''components'', JObj (foldl (\<lambda>o' (k, v). AList.update k v o') [(''schemas'', JObj [])] (so_components options)))]"

section \<open>The middleware\<close>

record openapi_options =
  oa_spec :: spec_options
  oa_json :: string
  oa_ui :: "string option"
  oa_title :: string

definition ui_page :: "string \<Rightarrow> string \<Rightarrow> string" where
  "ui_page title jsonPath = join [LF]
     [''<!DOCTYPE html>'',
      ''<html><head><title>'' @ title @ ''</title>'',
      ''<link rel='' @ [DQ] @ ''stylesheet'' @ [DQ] @ '' href='' @ [DQ]
        @ ''https://cdn.jsdelivr.net/npm/swagger-ui-dist/swagger-ui.css'' @ [DQ] @ ''>'',
      ''</head><body>'',
      ''<div id='' @ [DQ] @ ''swagger-ui'' @ [DQ] @ ''></div>'',
      ''<script src='' @ [DQ] @ ''https://cdn.jsdelivr.net/npm/swagger-ui-dist/swagger-ui-bundle.js'' @ [DQ] @ ''></script>'',
      ''<script>SwaggerUIBundle({ url: '' @ [DQ] @ jsonPath @ [DQ] @ '', dom_id: '' @ [DQ] @ ''#swagger-ui'' @ [DQ] @ '' });</script>'',
      ''</body></html>'']"

definition send_text :: "string \<Rightarrow> string \<Rightarrow> 'g ctx \<Rightarrow> 'g ctx" where
  "send_text contentType t c =
     on_res (res_send (cx_serializer c) (SendText t)) (set_header ''content-type'' contentType c)"

text \<open>The cached document is the text made at the first request; making it again gives the same text.\<close>

definition served_spec :: "(zod \<Rightarrow> bool) \<Rightarrow> openapi_options \<Rightarrow> string" where
  "served_spec opt opts = stringify (JObj (generateSpec opt [] (oa_spec opts)))"

definition openapi_verdict :: "(zod \<Rightarrow> bool) \<Rightarrow> openapi_options \<Rightarrow> 'g ctx \<Rightarrow> 'g verdict" where
  "openapi_verdict opt opts c =
     (if rq_method (cx_req c) = ''GET'' \<and> ctx_path c = oa_json opts
      then StopHere (send_text ''application/json; charset=utf-8'' (served_spec opt opts) c)
      else if truthy_str (oa_ui opts) \<and> rq_method (cx_req c) = ''GET'' \<and> ctx_path c = the (oa_ui opts)
      then StopHere (send_text ''text/html; charset=utf-8'' (ui_page (oa_title opts) (oa_json opts)) c)
      else PassOn c)"

definition openapi :: "(zod \<Rightarrow> bool) \<Rightarrow> openapi_options \<Rightarrow> ('g ctx, error_value) middleware" where
  "openapi opt opts =
     \<lparr>needsNext = True, isAsync = False,
      body = Ask (\<lambda>c. case openapi_verdict opt opts c of
        PassOn c' \<Rightarrow> Act (\<lambda>_. c') pass
      | StopHere c' \<Rightarrow> Act (\<lambda>_. c') Return
      | FailWith e c' \<Rightarrow> Act (\<lambda>_. c') (Throw e))\<rparr>"

interpretation openapi_point: checkpoint "openapi opt opts" "openapi_verdict opt opts" for opt opts
  by unfold_locales (auto simp: openapi_def exec_pass split: verdict.split)

section \<open>Paths and their parameters\<close>

datatype segment = Literal string | Param string

fun route_segment :: "segment \<Rightarrow> string" where
  "route_segment (Literal s) = CHR ''/'' # s"
| "route_segment (Param n) = CHR ''/'' # CHR '':'' # n"

fun template_segment :: "segment \<Rightarrow> string" where
  "template_segment (Literal s) = CHR ''/'' # s"
| "template_segment (Param n) = CHR ''/'' # ''{'' @ n @ ''}''"

fun segment_ok :: "segment \<Rightarrow> bool" where
  "segment_ok (Literal s) \<longleftrightarrow> list_all (\<lambda>c. c \<noteq> CHR ''/'' \<and> c \<noteq> CHR '':'') s"
| "segment_ok (Param n) \<longleftrightarrow> n \<noteq> [] \<and> list_all not_slash n"

definition params_of :: "segment list \<Rightarrow> string list" where
  "params_of segs = concat (map (\<lambda>s. case s of Param n \<Rightarrow> [n] | Literal _ \<Rightarrow> []) segs)"

lemma name_split:
  assumes "list_all not_slash n" "r = [] \<or> hd r = CHR ''/''"
  shows "takeWhile not_slash (n @ r) = n" "dropWhile not_slash (n @ r) = r"
proof -
  have "\<not> (r \<noteq> [] \<and> not_slash (hd r))" using assms(2) by (auto simp: not_slash_def)
  then show "takeWhile not_slash (n @ r) = n" "dropWhile not_slash (n @ r) = r"
    using assms(1) by (induction n; cases r; auto)+
qed

lemma literal_path:
  "list_all (\<lambda>c. c \<noteq> CHR ''/'' \<and> c \<noteq> CHR '':'') s \<Longrightarrow> toOpenApiPath (s @ r) = s @ toOpenApiPath r"
  "list_all (\<lambda>c. c \<noteq> CHR ''/'' \<and> c \<noteq> CHR '':'') s \<Longrightarrow> path_params (s @ r) = path_params r"
  by (induction s) auto

lemma rest_starts: "r = concat (map route_segment segs) \<Longrightarrow> r = [] \<or> hd r = CHR ''/''"
  by (cases segs; cases "hd segs") auto

text \<open>The documented path of a route names exactly its parameters: for a path made of literal and
  parameter segments, every segment \<open>:name\<close> becomes \<open>{name}\<close>, all else stays, and the parameter list
  has these names in order.\<close>

theorem openapi_path_names_parameters:
  assumes "list_all segment_ok segs"
  shows "toOpenApiPath (concat (map route_segment segs)) = concat (map template_segment segs)
    \<and> path_params (concat (map route_segment segs)) = params_of segs"
  using assms
proof (induction segs)
  case Nil
  then show ?case by (simp add: params_of_def)
next
  case (Cons s segs)
  let ?r = "concat (map route_segment segs)"
  show ?case
  proof (cases s)
    case (Literal t)
    then show ?thesis using Cons by (simp add: literal_path params_of_def)
  next
    case (Param n)
    then have n: "list_all not_slash n" "n \<noteq> []" using Cons.prems by simp_all
    note sp = name_split [OF n(1) rest_starts [OF refl], of segs]
    show ?thesis using Cons Param n(2) by (simp add: sp params_of_def)
  qed
qed

theorem openapi_path_names_parameters_witness:
  "toOpenApiPath ''/users/:id/posts'' = ''/users/{id}/posts''"
  using openapi_path_names_parameters [of "[Literal ''users'', Param ''id'', Literal ''posts'']"]
  by (simp add: not_slash_def)

text \<open>The document the middleware serves describes no route: it is made of an empty list of routes,
  whatever the application registered, and the request goes no further.\<close>

theorem served_document_has_no_paths:
  assumes "rq_method (cx_req c) = ''GET''" "ctx_path c = oa_json opts" "\<not> res_finished c"
  shows "map_of (generateSpec opt [] (oa_spec opts)) ''paths'' = Some (JObj [])
    \<and> (\<exists>c'. run_to_end res_finished (openapi opt opts # m # ms) c = (\<lparr>idx = 0, entered = [0], stt = c'\<rparr>, None)
         \<and> rs_finished (cx_res c')
         \<and> rs_body (cx_res c') = text_encode (stringify (JObj (generateSpec opt [] (oa_spec opts)))))"
proof
  show "map_of (generateSpec opt [] (oa_spec opts)) ''paths'' = Some (JObj [])"
    by (simp add: generateSpec_def spec_paths_def)
  have "openapi_verdict opt opts c = StopHere (send_text ''application/json; charset=utf-8'' (served_spec opt opts) c)"
    using assms by (simp add: openapi_verdict_def)
  then show "\<exists>c'. run_to_end res_finished (openapi opt opts # m # ms) c = (\<lparr>idx = 0, entered = [0], stt = c'\<rparr>, None)
      \<and> rs_finished (cx_res c')
      \<and> rs_body (cx_res c') = text_encode (stringify (JObj (generateSpec opt [] (oa_spec opts))))"
    using openapi_point.chain_verdict [OF assms(3), of opt opts m ms] assms(3)
    by (simp add: send_text_def res_send_def finish_with_def res_finished_def served_spec_def)
qed

definition sample_openapi :: openapi_options where
  "sample_openapi = \<lparr>oa_spec = \<lparr>so_info = JObj [(''title'', JStr ''API'')], so_servers = [], so_components = [], so_tags = []\<rparr>,
     oa_json = ''/openapi.json'', oa_ui = None, oa_title = ''API''\<rparr>"

lemma sample_path: "ctx_path (sample_ctx m p ip hs b) = p"
  using path_getter.get_ok [OF sample_fresh(1) [of p ip hs b m]]
  by (auto simp: ctx_path_def sample_request_def)

theorem served_document_has_no_paths_witness:
  "\<exists>c'. run_to_end res_finished [openapi (\<lambda>_. False) sample_openapi, openapi (\<lambda>_. False) sample_openapi]
      (sample_ctx ''GET'' ''/openapi.json'' ''10.0.0.1'' [] None) = (\<lparr>idx = 0, entered = [0], stt = c'\<rparr>, None)"
  using served_document_has_no_paths [of "sample_ctx ''GET'' ''/openapi.json'' ''10.0.0.1'' [] None" sample_openapi
      "\<lambda>_. False" "openapi (\<lambda>_. False) sample_openapi" "[]"]
  by (auto simp: sample_openapi_def sample_path)

text \<open>With routes the document has an item for each of their paths.\<close>

lemma spec_lists_routes:
  "route \<in> set routes \<Longrightarrow> \<exists>item. map_of (spec_paths opt routes) (toOpenApiPath (rm_path route)) = Some item"
proof (induction routes rule: rev_induct)
  case (snoc r routes)
  then show ?case by (auto simp: spec_paths_def add_route_def Let_def map_of_update)
qed simp

end
