(* ===== verification/Optimizer.thy ===== *)
theory Optimizer
  imports Paths RouteCache
begin

text \<open>
  The runtime optimiser of \<open>src/src/opt/\<close>: what it reads off the source of a route
  (\<open>opt/entry.js\<close>), what it learns from the dispatches (\<open>opt/runtime.js\<close>), and the texts it reports
  (\<open>opt/summary.js\<close>, \<open>opt/notify.js\<close>).  It only observes: nothing it computes changes a reply.
\<close>

section \<open>Constants\<close>

text \<open>\<open>parseInt(process.env.X) || default\<close>\<close>

definition env_constant :: "string option \<Rightarrow> int \<Rightarrow> int" where
  "env_constant v d =
     (case v of None \<Rightarrow> d | Some t \<Rightarrow> (case parseInt10 t of Some n \<Rightarrow> if n = 0 then d else n | None \<Rightarrow> d))"

definition HOT_HIT_THRESHOLD :: "string option \<Rightarrow> int" where "HOT_HIT_THRESHOLD v = env_constant v 128"
definition STABLE_RESPONSE_THRESHOLD :: "string option \<Rightarrow> int" where
  "STABLE_RESPONSE_THRESHOLD v = env_constant v 32"
definition DEFAULT_NOTIFY_INTERVAL_MS :: "string option \<Rightarrow> int" where
  "DEFAULT_NOTIFY_INTERVAL_MS v = env_constant v 1000"

text \<open>The value is \<open>Number(value)\<close>.\<close>

definition normalizeNotifyInterval :: "jnum \<Rightarrow> int \<Rightarrow> int" where
  "normalizeNotifyInterval v fallback =
     (case v of Fin r \<Rightarrow> if r \<le> 0 then fallback else \<lfloor>r\<rfloor> | _ \<Rightarrow> fallback)"

section \<open>Reading the source of a handler\<close>

definition lastIndexOf :: "string \<Rightarrow> char \<Rightarrow> nat option" where
  "lastIndexOf s c =
     (let n = length (takeWhile (\<lambda>x. x \<noteq> c) (rev s)) in
      if n = length s then None else Some (length s - n - 1))"

definition extractFunctionBody :: "string \<Rightarrow> string" where
  "extractFunctionBody source =
     (case indexOf source ''=>'' of
        Some i \<Rightarrow>
          (let right = trim (drop (i + 2) source) in
           if startsWith right ''{'' \<and> endsWith right ''}''
           then trim (take (length right - 2) (drop 1 right)) else right)
      | None \<Rightarrow>
          (case (indexOf source ''{'', lastIndexOf source (CHR ''}'')) of
             (Some blockStart, Some blockEnd) \<Rightarrow>
               if blockEnd > blockStart
               then trim (take (blockEnd - (blockStart + 1)) (drop (blockStart + 1) source))
               else trim source
           | _ \<Rightarrow> trim source))"

definition trimReturnAndSemicolon :: "string \<Rightarrow> string" where
  "trimReturnAndSemicolon b =
     (let v = trim b;
          v1 = (if startsWith v ''return '' then trim (drop 7 v) else v) in
      if endsWith v1 '';'' then trim (butlast v1) else v1)"

definition looksLiteralPayload :: "string \<Rightarrow> bool" where
  "looksLiteralPayload payload \<longleftrightarrow>
     (case payload of
        [] \<Rightarrow> False
      | c # cs \<Rightarrow>
          c = CHR ''{'' \<or> c = CHR ''['' \<or> c = DQ \<or> c = CHR 0x27 \<or> c = CHR 0x60
          \<or> is_digit c \<or> (c = CHR ''-'' \<and> cs \<noteq> [] \<and> is_digit (hd cs))
          \<or> payload = ''true'' \<or> payload = ''false'' \<or> payload = ''null'')"

text \<open>\<open>body.slice(i, -1)\<close>\<close>

definition inner_text :: "string \<Rightarrow> nat \<Rightarrow> string" where
  "inner_text b i = trim (take (length b - 1 - i) (drop i b))"

definition isDirectLiteralCall :: "string \<Rightarrow> string \<Rightarrow> bool" where
  "isDirectLiteralCall b pre \<longleftrightarrow>
     startsWith b pre \<and> endsWith b '')'' \<and> looksLiteralPayload (inner_text b (length pre))"

definition isDirectStatusLiteralCall :: "string \<Rightarrow> string \<Rightarrow> bool" where
  "isDirectStatusLiteralCall b method \<longleftrightarrow>
     startsWith b ''res.status('' \<and> endsWith b '')''
     \<and> (let separator = '').'' @ method @ ''('' in
        case indexOf b separator of
          None \<Rightarrow> False
        | Some i \<Rightarrow> looksLiteralPayload (inner_text b (i + length separator)))"

record route_info =
  ri_handlerId :: nat
  ri_method :: string
  ri_path :: string
  ri_source :: "string option"
  ri_static :: bool
  ri_dispatchKind :: "string option"
  ri_jsonFastPath :: "string option"

definition isStaticFastPathCandidate :: "route_info \<Rightarrow> bool \<Rightarrow> string \<Rightarrow> bool" where
  "isStaticFastPathCandidate route hasMiddleware source =
     (if ri_method route \<noteq> ''GET'' \<or> contains (ri_path route) '':'' \<or> hasMiddleware then False
      else if contains source ''await'' then False
      else
        (let b = trimReturnAndSemicolon (extractFunctionBody source) in
         if b = [] then False
         else isDirectLiteralCall b ''res.json('' \<or> isDirectLiteralCall b ''res.send(''
              \<or> isDirectStatusLiteralCall b ''json'' \<or> isDirectStatusLiteralCall b ''send''))"

text \<open>A match of \<open>req\.(params|query|body|headers|url|path|method)\b\<close>.\<close>

definition word_here :: "string \<Rightarrow> string \<Rightarrow> bool" where
  "word_here s w \<longleftrightarrow> startsWith s w \<and> (case drop (length w) s of [] \<Rightarrow> True | c # cs \<Rightarrow> \<not> is_word c)"

definition request_members :: "string list" where
  "request_members = [''params'', ''query'', ''body'', ''headers'', ''url'', ''path'', ''method'']"

fun reads_request :: "string \<Rightarrow> bool" where
  "reads_request [] \<longleftrightarrow> False"
| "reads_request (c # cs) \<longleftrightarrow>
     list_ex (\<lambda>m. word_here (c # cs) (''req.'' @ m)) request_members \<or> reads_request cs"

section \<open>The entry of a route\<close>

datatype stage = Cold | Hot

record route_entry =
  en_handlerId :: nat
  en_method :: string
  en_path :: string
  en_label :: string
  en_stage :: stage
  en_hits :: nat
  en_lastHitAt :: "int option"
  en_nativeCache :: bool
  en_staticFastPath :: bool
  en_binaryBridge :: bool
  en_dispatchKind :: string
  en_jsonFastPath :: string
  en_bridgeObserved :: bool
  en_cacheCandidate :: bool
  en_recommendation :: "string option"
  en_reasons :: "string list"
  en_stableResponses :: nat
  en_lastResponseKey :: "string option"
  en_settled :: bool
  en_totalDurationMs :: rat
  en_maxDurationMs :: rat
  en_lastDurationMs :: rat
  en_lastIntervalHits :: nat
  en_lastIntervalDurationMs :: rat

definition text_or :: "string \<Rightarrow> string option \<Rightarrow> string" where
  "text_or d x = (case x of Some v \<Rightarrow> v | None \<Rightarrow> d)"

definition entry_reasons :: "bool \<Rightarrow> bool \<Rightarrow> bool \<Rightarrow> bool \<Rightarrow> bool \<Rightarrow> string list" where
  "entry_reasons nativeCache staticFastPath hasMiddleware hasParams cacheCandidate =
     (if nativeCache then [''response cached natively in Rust after first call'']
      else if staticFastPath then [''served by static fast path'']
      else [''served through bridge dispatch''])
     @ (if hasMiddleware then [''middleware blocks static promotion''] else [])
     @ (if hasParams then [''route params require dynamic dispatch''] else [])
     @ (if cacheCandidate then [''runtime-stab responses can be cached later''] else [])"

definition buildRouteEntry :: "route_info \<Rightarrow> string list \<Rightarrow> route_entry" where
  "buildRouteEntry route pfxs =
     (let hasParams = contains (ri_path route) '':'';
          hasMiddleware = list_ex (\<lambda>p. pathPrefixMatches p (ri_path route)) pfxs;
          source = text_or [] (ri_source route);
          nativeCache = contains source ''res.ncache('';
          staticFastPath = (ri_static route
            \<or> \<not> nativeCache \<and> isStaticFastPathCandidate route hasMiddleware source);
          cacheCandidate = (\<not> staticFastPath \<and> ri_method route = ''GET'' \<and> \<not> hasParams \<and> \<not> hasMiddleware
            \<and> \<not> contains source ''await'' \<and> \<not> reads_request source \<and> \<not> impure_source source) in
      \<lparr>en_handlerId = ri_handlerId route, en_method = ri_method route, en_path = ri_path route,
       en_label = ri_method route @ '' '' @ ri_path route, en_stage = Cold, en_hits = 0, en_lastHitAt = None,
       en_nativeCache = nativeCache, en_staticFastPath = staticFastPath, en_binaryBridge = True,
       en_dispatchKind = text_or ''generic_fallback'' (ri_dispatchKind route),
       en_jsonFastPath = text_or ''fallback'' (ri_jsonFastPath route),
       en_bridgeObserved = False, en_cacheCandidate = cacheCandidate, en_recommendation = None,
       en_reasons = entry_reasons nativeCache staticFastPath hasMiddleware hasParams cacheCandidate,
       en_stableResponses = 0, en_lastResponseKey = None, en_settled = False,
       en_totalDurationMs = 0, en_maxDurationMs = 0, en_lastDurationMs = 0,
       en_lastIntervalHits = 0, en_lastIntervalDurationMs = 0\<rparr>)"

section \<open>Learning from dispatches\<close>

definition opt_fnv1aString :: "u32 \<Rightarrow> string \<Rightarrow> u32" where
  "opt_fnv1aString seed v = foldl fnv32_byte seed (map byte_of_char v)"

definition opt_fnv1aBytes :: "u32 \<Rightarrow> byte list \<Rightarrow> u32" where
  "opt_fnv1aBytes seed bytes = foldl fnv32_byte seed bytes"

definition buildResponseKey :: "snapshot \<Rightarrow> string" where
  "buildResponseKey sn =
     (let h0 = opt_fnv1aString 0x811c9dc5 (int_to_string (sn_status sn));
          h1 = foldl (\<lambda>h (n, v). opt_fnv1aString (opt_fnv1aString h n) v) h0 (sn_headers sn);
          h2 = opt_fnv1aBytes h1 (sn_body sn) in
      nat_digits (unat h2) @ '':'' @ nat_digits (length (sn_body sn)) @ '':'' @ nat_digits (length (sn_headers sn)))"

definition add_duration :: "jnum \<Rightarrow> route_entry \<Rightarrow> route_entry" where
  "add_duration d e =
     (case d of
        Fin r \<Rightarrow>
          if r \<ge> 0
          then e\<lparr>en_lastDurationMs := r, en_totalDurationMs := en_totalDurationMs e + r,
                 en_maxDurationMs := (if r > en_maxDurationMs e then r else en_maxDurationMs e)\<rparr>
          else e
      | _ \<Rightarrow> e)"

text \<open>After the counters: the stages cold and hot, and the run of equal responses.\<close>

definition after_hit :: "int \<Rightarrow> int \<Rightarrow> int \<Rightarrow> string \<Rightarrow> route_entry \<Rightarrow> route_entry" where
  "after_hit hot stab now key e =
     (if en_stage e = Cold
      then (if int (en_hits e) \<ge> hot
            then e\<lparr>en_stage := Hot, en_lastHitAt := Some now, en_settled := (en_settled e \<or> \<not> en_cacheCandidate e)\<rparr>
            else e)
      else if \<not> en_cacheCandidate e then e\<lparr>en_settled := True\<rparr>
      else
        (let e2 = (if en_lastResponseKey e = Some key
                   then e\<lparr>en_stableResponses := en_stableResponses e + 1\<rparr>
                   else e\<lparr>en_lastResponseKey := Some key, en_stableResponses := 1\<rparr>) in
         if en_recommendation e2 = None \<and> int (en_stableResponses e2) \<ge> stab
         then e2\<lparr>en_recommendation := Some ''cache-candidate'', en_settled := True, en_lastHitAt := Some now\<rparr>
         else e2))"

definition record_hit :: "int \<Rightarrow> int \<Rightarrow> int \<Rightarrow> string \<Rightarrow> jnum \<Rightarrow> route_entry \<Rightarrow> route_entry" where
  "record_hit hot stab now key durationMs e =
     (if en_settled e then e
      else after_hit hot stab now key
        (add_duration durationMs (e\<lparr>en_hits := en_hits e + 1, en_bridgeObserved := True\<rparr>)))"

text \<open>The table of routes; the first entry with the id of the route is the one of the map.\<close>

definition recordDispatch ::
  "int \<Rightarrow> int \<Rightarrow> int \<Rightarrow> nat \<Rightarrow> snapshot \<Rightarrow> jnum \<Rightarrow> (nat \<times> route_entry) list \<Rightarrow> (nat \<times> route_entry) list" where
  "recordDispatch hot stab now handlerId sn durationMs es =
     (case map_of es handlerId of
        None \<Rightarrow> es
      | Some e \<Rightarrow> AList.update handlerId (record_hit hot stab now (buildResponseKey sn) durationMs e) es)"

section \<open>Reports\<close>

definition unique_flags :: "string list \<Rightarrow> string list" where
  "unique_flags xs = rev (remdups (rev xs))"

definition summary_flags :: "route_entry \<Rightarrow> string list" where
  "summary_flags e = unique_flags
     ([if en_staticFastPath e then ''static-fast-path'' else ''bridge-dispatch'']
      @ (if en_binaryBridge e then [''binary-bridge''] else [])
      @ (if en_bridgeObserved e then [''bridge-observed''] else [])
      @ (if en_cacheCandidate e then [''cache-candidate''] else [])
      @ (case en_recommendation e of Some r \<Rightarrow> [r] | None \<Rightarrow> []))"

definition average_ms :: "route_entry \<Rightarrow> rat" where
  "average_ms e = (if en_hits e > 0 then en_totalDurationMs e / of_nat (en_hits e) else 0)"

text \<open>\<open>fixed\<close> is \<open>toFixed(3)\<close>.\<close>

definition summary_line :: "(rat \<Rightarrow> string) \<Rightarrow> route_entry \<Rightarrow> string" where
  "summary_line fixed e =
     en_label e @ '' ['' @ join '', '' (summary_flags e) @ ''] hits='' @ nat_digits (en_hits e)
       @ '' avg='' @ fixed (average_ms e) @ ''ms max='' @ fixed (en_maxDurationMs e) @ ''ms''"

definition summarizeRouteEntries :: "(rat \<Rightarrow> string) \<Rightarrow> route_entry list \<Rightarrow> string" where
  "summarizeRouteEntries fixed es = join [LF] (map (summary_line fixed) es)"

section \<open>When a route is recommended\<close>

type_synonym dispatch_record = "int \<times> string \<times> jnum"

definition entry_after :: "int \<Rightarrow> int \<Rightarrow> dispatch_record list \<Rightarrow> route_entry \<Rightarrow> route_entry" where
  "entry_after hot stab ds e0 =
     foldl (\<lambda>e (now, key, d). record_hit hot stab now key d e) e0 ds"

definition trailing_keys :: "string \<Rightarrow> dispatch_record list \<Rightarrow> nat" where
  "trailing_keys k ds = length (takeWhile (\<lambda>d. fst (snd d) = k) (rev ds))"

lemma trailing_keys_snoc:
  "trailing_keys k (ds @ [(now, key, d)]) = (if key = k then Suc (trailing_keys k ds) else 0)"
  by (simp add: trailing_keys_def)

definition fresh_entry :: "route_entry \<Rightarrow> bool" where
  "fresh_entry e \<longleftrightarrow> en_stage e = Cold \<and> en_hits e = 0 \<and> en_recommendation e = None \<and> \<not> en_settled e
     \<and> en_stableResponses e = 0 \<and> en_lastResponseKey e = None"

definition learning :: "int \<Rightarrow> int \<Rightarrow> dispatch_record list \<Rightarrow> route_entry \<Rightarrow> bool" where
  "learning hot stab ds e \<longleftrightarrow> en_recommendation e = None \<and> en_hits e = length ds
     \<and> (if en_stage e = Cold then en_stableResponses e = 0 \<and> en_lastResponseKey e = None
        else hot + int (en_stableResponses e) \<le> int (length ds)
           \<and> (en_lastResponseKey e = None \<longrightarrow> en_stableResponses e = 0)
           \<and> (\<forall>k. en_lastResponseKey e = Some k \<longrightarrow> en_stableResponses e \<le> trailing_keys k ds))"

definition earned :: "int \<Rightarrow> int \<Rightarrow> dispatch_record list \<Rightarrow> bool" where
  "earned hot stab ds \<longleftrightarrow> (\<exists>ds1 ds2 k. ds = ds1 @ ds2 \<and> hot + stab \<le> int (length ds1)
     \<and> stab \<le> int (trailing_keys k ds1))"

definition entry_inv :: "int \<Rightarrow> int \<Rightarrow> dispatch_record list \<Rightarrow> route_entry \<Rightarrow> bool" where
  "entry_inv hot stab ds e \<longleftrightarrow>
     (if en_settled e then en_recommendation e = None \<or> (en_cacheCandidate e \<and> earned hot stab ds)
      else learning hot stab ds e)"

lemma add_duration_same [simp]:
  "en_settled (add_duration d e) = en_settled e" "en_stage (add_duration d e) = en_stage e"
  "en_hits (add_duration d e) = en_hits e" "en_recommendation (add_duration d e) = en_recommendation e"
  "en_stableResponses (add_duration d e) = en_stableResponses e"
  "en_lastResponseKey (add_duration d e) = en_lastResponseKey e"
  "en_cacheCandidate (add_duration d e) = en_cacheCandidate e"
  by (simp_all add: add_duration_def split: jnum.split)

lemma earned_more: "earned hot stab ds \<Longrightarrow> earned hot stab (ds @ [d])"
  unfolding earned_def by (metis append_assoc)

lemma record_hit_inv:
  assumes "entry_inv hot stab ds e" "0 \<le> hot"
  shows "entry_inv hot stab (ds @ [(now, key, d)]) (record_hit hot stab now key d e)"
proof (cases "en_settled e")
  case True
  then show ?thesis using assms earned_more by (auto simp: entry_inv_def record_hit_def)
next
  case False
  define e1 where "e1 = add_duration d (e\<lparr>en_hits := en_hits e + 1, en_bridgeObserved := True\<rparr>)"
  have l: "learning hot stab ds e" using assms False by (simp add: entry_inv_def)
  have r: "record_hit hot stab now key d e = after_hit hot stab now key e1"
    using False by (simp add: record_hit_def e1_def)
  have m: "en_settled e1 = False" "en_stage e1 = en_stage e" "en_hits e1 = Suc (en_hits e)" "en_recommendation e1 = None"
    "en_stableResponses e1 = en_stableResponses e" "en_lastResponseKey e1 = en_lastResponseKey e"
    "en_cacheCandidate e1 = en_cacheCandidate e"
    using False l by (simp_all add: e1_def learning_def)
  show ?thesis
  proof (cases "en_stage e = Cold")
    case True
    then show ?thesis using l m unfolding r after_hit_def by (auto simp: entry_inv_def learning_def)
  next
    case hot: False
    show ?thesis
    proof (cases "en_cacheCandidate e")
      case False
      then show ?thesis using hot m unfolding r after_hit_def by (simp add: entry_inv_def)
    next
      case True
      define n where "n = (if en_lastResponseKey e = Some key then Suc (en_stableResponses e) else 1)"
      have n: "n \<le> trailing_keys key (ds @ [(now, key, d)])" "hot + int n \<le> int (length (ds @ [(now, key, d)]))"
        using l hot assms(2) by (auto simp: n_def learning_def trailing_keys_snoc)
      show ?thesis
      proof (cases "int n \<ge> stab")
        case True
        then have "earned hot stab (ds @ [(now, key, d)])"
          using n unfolding earned_def by (intro exI [of _ "ds @ [(now, key, d)]"] exI [of _ "[]"] exI [of _ key]) auto
        then show ?thesis
          using hot m True \<open>en_cacheCandidate e\<close> unfolding r after_hit_def by (auto simp: entry_inv_def n_def Let_def)
      next
        case False
        then show ?thesis
          using hot m n l \<open>en_cacheCandidate e\<close> unfolding r after_hit_def
          by (auto simp: entry_inv_def learning_def n_def Let_def)
      qed
    qed
  qed
qed

text \<open>The optimiser recommends caching only what earned it: a route gets the recommendation only if its
  source qualifies and, at some point, after at least \<open>hot\<close> earlier dispatches the keys of the last
  \<open>stab\<close> responses were all equal.\<close>

theorem recommendation_is_earned:
  assumes "en_recommendation (entry_after hot stab ds e) \<noteq> None" "fresh_entry e" "0 \<le> hot"
  shows "en_cacheCandidate (entry_after hot stab ds e) \<and> (\<exists>ds1 ds2 k. ds = ds1 @ ds2
    \<and> hot + stab \<le> int (length ds1) \<and> stab \<le> int (trailing_keys k ds1))"
proof -
  have "entry_inv hot stab ds (entry_after hot stab ds e)"
  proof (induction ds rule: rev_induct)
    case Nil
    then show ?case using assms(2) by (simp add: entry_after_def entry_inv_def learning_def fresh_entry_def)
  next
    case (snoc x ds)
    then show ?case
      using record_hit_inv [OF snoc assms(3)] by (cases x) (simp add: entry_after_def)
  qed
  then show ?thesis using assms(1) by (auto simp: entry_inv_def learning_def earned_def split: if_splits)
qed

definition plain_route :: route_info where
  "plain_route = \<lparr>ri_handlerId = 1, ri_method = ''GET'', ri_path = ''/now'',
     ri_source = Some ''(req, res) => { const x = 1; res.json({ x }) }'', ri_static = False,
     ri_dispatchKind = None, ri_jsonFastPath = None\<rparr>"

lemma built_entry_fresh: "fresh_entry (buildRouteEntry route pfxs)"
  by (simp add: fresh_entry_def buildRouteEntry_def Let_def)

theorem recommendation_is_earned_witness:
  "en_cacheCandidate (entry_after 1 2 [(0, ''k'', Fin 1), (1, ''k'', Fin 1), (2, ''k'', NaN)] (buildRouteEntry plain_route []))"
proof -
  have "en_cacheCandidate (buildRouteEntry plain_route [])" by code_simp
  then have "en_recommendation (entry_after 1 2 [(0, ''k'', Fin 1), (1, ''k'', Fin 1), (2, ''k'', NaN)]
      (buildRouteEntry plain_route [])) \<noteq> None"
    using built_entry_fresh [of plain_route "[]"]
    by (simp add: entry_after_def record_hit_def after_hit_def fresh_entry_def Let_def)
  from recommendation_is_earned [OF this built_entry_fresh] show ?thesis by simp
qed

text \<open>A payload that starts with a brace looks like a literal, so a handler whose answer depends on the
  clock is reported as static.\<close>

lemma clock_looks_static:
  "en_staticFastPath (buildRouteEntry (plain_route\<lparr>ri_source := Some ''(req, res) => res.json({ now: Date.now() })''\<rparr>) [])"
  by code_simp

end
