(* ===== verification/Registration.thy ===== *)
theory Registration
  imports Paths MiddlewareKit
begin

text \<open>
  The application object of \<open>createApp\<close> in \<open>src/src/index.js\<close>: routes for one method or for all,
  static pages, health checks, WebSocket routes, middlewares, error handlers, nested groups,
  decorators, hooks and plugins, with the handler ids they are given.  A program that sets an
  application up is a list of commands; the callbacks of groups and plugins are such lists too.  The
  place in the user's file that a route was registered from (\<open>captureRouteRegistrationLocation\<close>, read
  off a stack trace, see \<open>RouteSource\<close>) is part of the command.
\<close>

section \<open>Values\<close>

text \<open>A function is the text \<open>toString\<close> gives of it, and what it does; \<open>None\<close> is an argument that is
  not a function.\<close>

record 'g func =
  fn_source :: string
  fn_handler :: "'g handler"

record 'g mw_func =
  mf_source :: string
  mf_middleware :: "('g ctx, error_value) middleware"
  mf_sessionConfig :: "(string \<times> json) list option"
  mf_compressionConfig :: "(string \<times> json) list option"

record cache_options =
  co_ttl :: "jnum option"
  co_maxEntries :: "jnum option"
  co_varyBy :: "string list option"

record location =
  lo_filePath :: string
  lo_line :: nat
  lo_column :: nat

record route_options =
  ro_cache :: "cache_options option"
  ro_sourceLocation :: "location option"

record 'g route_desc =
  rr_method :: string
  rr_path :: string
  rr_handler :: "'g func"
  rr_cache :: "cache_options option"
  rr_sourceLocation :: "location option"
  rr_staticResponse :: "(jnum \<times> (string \<times> string) list \<times> string) option"
  rr_syntheticSource :: "string option"

record 'g route_reg = "'g route_desc" +
  rr_handlerId :: nat

record 'g mw_reg =
  mr_pathPrefix :: string
  mr_handler :: "'g mw_func"

text \<open>Of the handlers of a WebSocket route, their source texts.\<close>

record ws_config =
  wc_open :: "string option"
  wc_message :: "string option"
  wc_close :: "string option"
  wc_maxPayloadLength :: "jnum option"
  wc_backpressure :: "string option"
  wc_idleTimeout :: "jnum option"
  wc_perMessageDeflate :: "bool option"

record ws_reg =
  wr_path :: string
  wr_handlers :: "string option \<times> string option \<times> string option"
  wr_handlerId :: nat
  wr_maxPayloadLength :: jnum
  wr_backpressure :: string
  wr_idleTimeout :: jnum
  wr_perMessageDeflate :: bool

datatype ws_argument = WsNotObject | WsNull | WsObject ws_config

datatype reg_error = TypeFault string | Fault string

record 'g application =
  an_routes :: "'g route_reg list"
  an_middlewares :: "'g mw_reg list"
  an_errorHandlers :: "(error_value \<Rightarrow> 'g handler) list"
  an_wsRoutes :: "ws_reg list"
  an_groupPrefix :: string
  an_nextHandlerId :: nat
  an_decorators :: "(string \<times> json) list"
  an_hooks :: "(string \<times> string list) list"
  an_plugins :: "string list"

definition HTTP_METHODS :: "string list" where
  "HTTP_METHODS = [''GET'', ''POST'', ''PUT'', ''DELETE'', ''PATCH'', ''OPTIONS'', ''HEAD'']"

definition HOOK_EVENTS :: "string list" where
  "HOOK_EVENTS = [''onRequest'', ''onRoute'', ''onResponse'', ''onError'', ''onClose'']"

definition createApp :: "'g application" where
  "createApp = \<lparr>an_routes = [], an_middlewares = [], an_errorHandlers = [], an_wsRoutes = [],
     an_groupPrefix = ''/'', an_nextHandlerId = 1, an_decorators = [],
     an_hooks = map (\<lambda>e. (e, [])) HOOK_EVENTS, an_plugins = []\<rparr>"

section \<open>Routes\<close>

definition route_path :: "string \<Rightarrow> string \<Rightarrow> reg_error + string" where
  "route_path meth path =
     (case normalizeRoutePath path of
        None \<Rightarrow> Inl (TypeFault (''Route path for '' @ meth @ '' must start with '' @ [DQ] @ ''/'' @ [DQ]))
      | Some p \<Rightarrow> Inr p)"

definition normalizeRouteRegistration ::
  "string \<Rightarrow> string \<Rightarrow> 'g func option \<Rightarrow> route_options \<Rightarrow> reg_error + 'g route_desc" where
  "normalizeRouteRegistration meth path handler options =
     (case handler of
        None \<Rightarrow> Inl (TypeFault (''Handler for '' @ meth @ '' '' @ path @ '' must be a function''))
      | Some f \<Rightarrow>
          ebind (route_path meth path) (\<lambda>p.
          Inr \<lparr>rr_method = meth, rr_path = p, rr_handler = f, rr_cache = ro_cache options,
               rr_sourceLocation = ro_sourceLocation options, rr_staticResponse = None,
               rr_syntheticSource = None\<rparr>))"

definition static_func :: "jnum \<times> (string \<times> string) list \<times> string \<Rightarrow> 'g func" where
  "static_func payload =
     \<lparr>fn_source = join [LF]
        [''(_req, res) => {'', ''    res.status(staticResponse.status);'',
         ''    for (const [name, value] of Object.entries(staticResponse.headers)) {'',
         ''      res.header(name, value);'', ''    }'', ''    res.send(staticResponse.body);'', ''  }''],
      fn_handler = \<lparr>h_async = False, h_body = Ask (\<lambda>c. Act
        (on_res (apply_ops (cx_serializer c) (createStaticHtmlFallbackHandler payload))) Return)\<rparr>\<rparr>"

definition STATIC_SOURCE :: string where
  "STATIC_SOURCE = ''(req, res) => res.html('' @ [DQ] @ ''<static>'' @ [DQ] @ '')''"

definition normalizeStaticRouteRegistration ::
  "string \<Rightarrow> string option \<Rightarrow> html_options option \<Rightarrow> location option \<Rightarrow> reg_error + 'g route_desc" where
  "normalizeStaticRouteRegistration path html options loc =
     (case html of
        None \<Rightarrow> Inl (TypeFault ''app.static(path, html, options) expects html to be a string'')
      | Some text \<Rightarrow>
          ebind (route_path ''GET'' path) (\<lambda>normalizedPath.
          if contains normalizedPath '':''
          then Inl (Fault ''app.static() only supports exact GET paths without params'')
          else
            let staticResponse = buildHtmlResponsePayload text options in
            Inr \<lparr>rr_method = ''GET'', rr_path = normalizedPath, rr_handler = static_func staticResponse,
                 rr_cache = None, rr_sourceLocation = loc, rr_staticResponse = Some staticResponse,
                 rr_syntheticSource = Some STATIC_SOURCE\<rparr>))"

type_synonym 'g reg_step = "'g application \<Rightarrow> reg_error option \<times> 'g application"

text \<open>An id is taken only after the descriptor has been built without an error.\<close>

definition push_route :: "reg_error + 'g route_desc \<Rightarrow> 'g reg_step" where
  "push_route d app =
     (case d of
        Inl e \<Rightarrow> (Some e, app)
      | Inr r \<Rightarrow> (None, app\<lparr>an_routes := an_routes app
            @ [route_desc.extend r \<lparr>rr_handlerId = an_nextHandlerId app\<rparr>],
          an_nextHandlerId := an_nextHandlerId app + 1\<rparr>))"

fun push_routes :: "(reg_error + 'g route_desc) list \<Rightarrow> 'g reg_step" where
  "push_routes [] app = (None, app)"
| "push_routes (d # ds) app =
     (case push_route d app of (Some e, app') \<Rightarrow> (Some e, app') | (None, app') \<Rightarrow> push_routes ds app')"

definition createMethodRegistrar ::
  "string \<Rightarrow> string \<Rightarrow> route_options \<Rightarrow> 'g func option \<Rightarrow> location option \<Rightarrow> 'g reg_step" where
  "createMethodRegistrar meth path options handler captured app =
     (let scopedPath = applyGroupPrefixToRoutePath path (an_groupPrefix app);
          routeOptions = (if captured \<noteq> None then options\<lparr>ro_sourceLocation := captured\<rparr> else options) in
      if meth = ''ALL''
      then push_routes (map (\<lambda>m. normalizeRouteRegistration m scopedPath handler routeOptions) HTTP_METHODS) app
      else push_route (normalizeRouteRegistration meth scopedPath handler routeOptions) app)"

definition app_static ::
  "string \<Rightarrow> string option \<Rightarrow> html_options option \<Rightarrow> location option \<Rightarrow> 'g reg_step" where
  "app_static routePath html options captured app =
     (let scopedPath = applyGroupPrefixToRoutePath routePath (an_groupPrefix app) in
      push_route (normalizeStaticRouteRegistration scopedPath html options captured) app)"

text \<open>Members of the object on the right replace those on the left.\<close>

definition spread :: "(string \<times> 'v) list \<Rightarrow> (string \<times> 'v) list \<Rightarrow> (string \<times> 'v) list" where
  "spread left right = foldl (\<lambda>m (k, v). AList.update k v m) left right"

definition app_health ::
  "string \<Rightarrow> json option \<Rightarrow> jnum option \<Rightarrow> (string \<times> string) list option \<Rightarrow> location option \<Rightarrow> 'g reg_step" where
  "app_health routePath bodyOption statusOption headersOption captured =
     app_static routePath
       (Some (stringify (case bodyOption of Some b \<Rightarrow> b | None \<Rightarrow> JObj [(''status'', JStr ''ok'')])))
       (Some \<lparr>ho_status = Some (case statusOption of Some s \<Rightarrow> s | None \<Rightarrow> Fin 200),
          ho_headers = Some (spread JSON_CT (case headersOption of Some h \<Rightarrow> h | None \<Rightarrow> [])),
          ho_objects = None\<rparr>)
       captured"

section \<open>Middlewares and error handlers\<close>

definition app_use :: "string option \<Rightarrow> 'g mw_func option \<Rightarrow> 'g reg_step" where
  "app_use path handler app =
     (let groupPrefix = an_groupPrefix app;
          pathPrefix = (case path of
              Some p \<Rightarrow> combinePathPrefixes groupPrefix (normalizePathPrefix p)
            | None \<Rightarrow> if groupPrefix \<noteq> ''/'' then groupPrefix else ''/'') in
      case handler of
        None \<Rightarrow> (Some (TypeFault ''Middleware must be a function''), app)
      | Some f \<Rightarrow> (None, app\<lparr>an_middlewares := an_middlewares app
            @ [\<lparr>mr_pathPrefix = pathPrefix, mr_handler = f\<rparr>]\<rparr>))"

definition app_onError :: "(error_value \<Rightarrow> 'g handler) option \<Rightarrow> 'g reg_step" where
  "app_onError handler app =
     (case handler of
        None \<Rightarrow> (Some (TypeFault ''Error handler must be a function''), app)
      | Some h \<Rightarrow> (None, app\<lparr>an_errorHandlers := an_errorHandlers app @ [h]\<rparr>))"

text \<open>\<open>await handler(req, res)\<close> inside an async function: the call runs at once, the rest waits.\<close>

primrec beh_then :: "('s, 'e) beh \<Rightarrow> ('s, 'e) beh \<Rightarrow> ('s, 'e) beh" where
  "beh_then Return k = k"
| "beh_then (Throw e) k = Throw e"
| "beh_then (Act f b) k = Act f (beh_then b k)"
| "beh_then (Ask g) k = Ask (\<lambda>s. beh_then (g s) k)"
| "beh_then (Await b) k = Await (beh_then b k)"
| "beh_then (Next b h) k = Next (beh_then b k) (\<lambda>e. map_option (\<lambda>b. beh_then b k) (h e))"

definition await_call :: "'g handler \<Rightarrow> 'g behaviour" where
  "await_call h = beh_then (h_body h) (Await Return)"

definition on_matching_error :: "(error_value \<Rightarrow> bool) \<Rightarrow> 'g handler \<Rightarrow> error_value \<Rightarrow> 'g handler" where
  "on_matching_error applies h error =
     \<lparr>h_async = True, h_body = (if applies error then await_call h else Return)\<rparr>"

definition app_404 :: "'g handler \<Rightarrow> 'g reg_step" where
  "app_404 h = app_onError (Some (on_matching_error
     (\<lambda>e. ev_status e = Some (Fin 404) \<or> ev_code e = Some ''NOT_FOUND'') h))"

definition app_401 :: "'g handler \<Rightarrow> 'g reg_step" where
  "app_401 h = app_onError (Some (on_matching_error
     (\<lambda>e. ev_status e = Some (Fin 401) \<or> ev_code e = Some ''UNAUTHORIZED'') h))"

definition STATUS_SOURCE :: string where
  "STATUS_SOURCE = join [LF]
     [''async (req, res) => {'', ''            res.status(code);'',
      ''            await handler(req, res);'', ''          }'']"

definition with_status :: "jnum \<Rightarrow> 'g func option \<Rightarrow> 'g func" where
  "with_status code f =
     \<lparr>fn_source = STATUS_SOURCE,
      fn_handler = \<lparr>h_async = True, h_body = Act (on_res (res_status code))
        (case f of
           Some g \<Rightarrow> await_call (fn_handler g)
         | None \<Rightarrow> Throw ((plain_error ''handler is not a function'')
             \<lparr>ev_text := ''TypeError: handler is not a function''\<rparr>))\<rparr>\<rparr>"

section \<open>WebSockets, decorators, hooks\<close>

text \<open>The prefix of the group is not applied.\<close>

definition app_ws :: "string \<Rightarrow> ws_argument \<Rightarrow> 'g reg_step" where
  "app_ws path handlers app =
     (case handlers of
        WsNotObject \<Rightarrow>
          (Some (TypeFault ''WebSocket handlers must be an object with open/message/close''), app)
      | WsNull \<Rightarrow>
          (Some (case route_path ''GET'' path of Inl e \<Rightarrow> e
             | Inr _ \<Rightarrow> TypeFault ''Cannot read properties of null''), app)
      | WsObject h \<Rightarrow>
          (case route_path ''GET'' path of
             Inl e \<Rightarrow> (Some e, app)
           | Inr p \<Rightarrow> (None, app\<lparr>an_wsRoutes := an_wsRoutes app @
               [\<lparr>wr_path = p, wr_handlers = (wc_open h, wc_message h, wc_close h),
                 wr_handlerId = an_nextHandlerId app,
                 wr_maxPayloadLength = (case wc_maxPayloadLength h of Some n \<Rightarrow> n | None \<Rightarrow> Fin 65536),
                 wr_backpressure = (case wc_backpressure h of Some t \<Rightarrow> t | None \<Rightarrow> ''drop''),
                 wr_idleTimeout = (case wc_idleTimeout h of Some n \<Rightarrow> n | None \<Rightarrow> Fin 120),
                 wr_perMessageDeflate = (case wc_perMessageDeflate h of Some b \<Rightarrow> b | None \<Rightarrow> False)\<rparr>],
               an_nextHandlerId := an_nextHandlerId app + 1\<rparr>)))"

definition app_decorate :: "string \<Rightarrow> json \<Rightarrow> 'g reg_step" where
  "app_decorate name v app =
     (if map_of (an_decorators app) name \<noteq> None
      then (Some (Fault (''Decorator '' @ [DQ] @ name @ [DQ] @ '' is already registered'')), app)
      else (None, app\<lparr>an_decorators := an_decorators app @ [(name, v)]\<rparr>))"

text \<open>Every object has the members of \<open>Object.prototype\<close>, which are not lists.\<close>

definition OBJECT_MEMBERS :: "string list" where
  "OBJECT_MEMBERS = [''constructor'', ''toString'', ''toLocaleString'', ''valueOf'', ''hasOwnProperty'',
     ''isPrototypeOf'', ''propertyIsEnumerable'', ''__proto__'', ''__defineGetter__'', ''__defineSetter__'',
     ''__lookupGetter__'', ''__lookupSetter__'']"

definition app_addHook :: "string \<Rightarrow> string \<Rightarrow> 'g reg_step" where
  "app_addHook event f app =
     (case map_of (an_hooks app) event of
        Some fs \<Rightarrow> (None, app\<lparr>an_hooks := AList.update event (fs @ [f]) (an_hooks app)\<rparr>)
      | None \<Rightarrow>
          if event \<in> set OBJECT_MEMBERS
          then (Some (TypeFault ''lifecycleHooks[event].push is not a function''), app)
          else (Some (Fault (''Unknown hook event '' @ [DQ] @ event @ [DQ])), app))"

section \<open>Programs\<close>

text \<open>\<open>Attempt\<close> is a \<open>try\<close> block of the user's program with an empty \<open>catch\<close>, \<open>Fail\<close> an error of the
  program itself.\<close>

datatype 'g command =
    Use "string option" "'g mw_func option"
  | OnError "(error_value \<Rightarrow> 'g handler) option"
  | On404 "'g handler"
  | On401 "'g handler"
  | Group string "'g command list option"
  | Route string string route_options "'g func option" "location option"
  | StatusRoute jnum string string "'g func option" "location option"
  | Static string "string option" "html_options option" "location option"
  | Health string "json option" "jnum option" "(string \<times> string) list option" "location option"
  | Ws string ws_argument
  | Decorate string json
  | AddHook string string
  | Register "(string \<times> 'g command list) option"
  | Attempt "'g command list"
  | Fail reg_error

text \<open>The callback of a group or a plugin is a step of the application itself.\<close>

definition app_group :: "string \<Rightarrow> 'g reg_step option \<Rightarrow> 'g reg_step" where
  "app_group path callback app =
     (case callback of
        None \<Rightarrow> (Some (TypeFault ''group(path, callback) requires a callback function''), app)
      | Some registerGroup \<Rightarrow>
          let previousPrefix = an_groupPrefix app;
              (e, app') = registerGroup
                (app\<lparr>an_groupPrefix := combinePathPrefixes previousPrefix (normalizePathPrefix path)\<rparr>) in
          (e, app'\<lparr>an_groupPrefix := previousPrefix\<rparr>))"

definition app_register :: "(string \<times> 'g reg_step) option \<Rightarrow> 'g reg_step" where
  "app_register plugin app =
     (case plugin of
        None \<Rightarrow> (Some (Fault ''Plugin must have a setup(app, options) function''), app)
      | Some (name, install) \<Rightarrow>
          if name \<in> set (an_plugins app)
          then (Some (Fault (''Plugin '' @ [DQ] @ name @ [DQ] @ '' is already registered'')), app)
          else
            (case install app of
               (Some e, app') \<Rightarrow> (Some e, app')
             | (None, app') \<Rightarrow> (None, app'\<lparr>an_plugins := an_plugins app' @ [name]\<rparr>)))"

definition no_options :: route_options where
  "no_options = \<lparr>ro_cache = None, ro_sourceLocation = None\<rparr>"

fun run_command :: "'g command \<Rightarrow> 'g reg_step" and run_commands :: "'g command list \<Rightarrow> 'g reg_step" where
  "run_command (Use path f) app = app_use path f app"
| "run_command (OnError h) app = app_onError h app"
| "run_command (On404 h) app = app_404 h app"
| "run_command (On401 h) app = app_401 h app"
| "run_command (Group path None) app = app_group path None app"
| "run_command (Group path (Some cs)) app = app_group path (Some (\<lambda>a. run_commands cs a)) app"
| "run_command (Route meth path options f loc) app = createMethodRegistrar meth path options f loc app"
| "run_command (StatusRoute code meth path f loc) app =
     createMethodRegistrar meth path no_options (Some (with_status code f)) loc app"
| "run_command (Static path html options loc) app = app_static path html options loc app"
| "run_command (Health path b s h loc) app = app_health path b s h loc app"
| "run_command (Ws path h) app = app_ws path h app"
| "run_command (Decorate name v) app = app_decorate name v app"
| "run_command (AddHook event f) app = app_addHook event f app"
| "run_command (Register None) app = app_register None app"
| "run_command (Register (Some (name, cs))) app = app_register (Some (name, \<lambda>a. run_commands cs a)) app"
| "run_command (Attempt cs) app = (None, snd (run_commands cs app))"
| "run_command (Fail e) app = (Some e, app)"
| "run_commands [] app = (None, app)"
| "run_commands (c # cs) app =
     (case run_command c app of (Some e, app') \<Rightarrow> (Some e, app') | (None, app') \<Rightarrow> run_commands cs app')"

section \<open>Where registrations end up\<close>

lemma strip_append: "g \<noteq> [] \<Longrightarrow> last g \<noteq> CHR ''/'' \<Longrightarrow> strip_slashes (g @ r) = g @ strip_slashes r"
proof -
  assume "g \<noteq> []" "last g \<noteq> CHR ''/''"
  then have g: "dropWhile (\<lambda>c. c = CHR ''/'') (rev g) = rev g"
    using strip_slashes_id [of g] by (simp add: strip_slashes_def flip: rev_swap)
  show ?thesis
    by (cases "\<forall>c\<in>set r. c = CHR ''/''") (auto simp: strip_slashes_def dropWhile_append dropWhile_append1 g)
qed

lemma strip_starts: "startsWith r ''/'' \<Longrightarrow> strip_slashes r = [] \<or> startsWith (strip_slashes r) ''/''"
proof -
  assume "startsWith r ''/''"
  then obtain t where "r = CHR ''/'' # t" by (auto simp: startsWith_iff)
  moreover obtain z where "r = strip_slashes r @ z"
    unfolding strip_slashes_def by (metis rev_append rev_rev_ident takeWhile_dropWhile_id)
  ultimately show ?thesis by (cases "strip_slashes r") (auto simp: startsWith_Cons)
qed

lemma scoped_route_matches:
  assumes "normal_path g" "startsWith r ''/''"
  shows "pathPrefixMatches g (normalizePathPrefix (applyGroupPrefixToRoutePath r g))"
proof (cases "g = ''/''")
  case False
  then have g: "startsWith g ''/''" "last g \<noteq> CHR ''/''" "g \<noteq> []"
    using assms(1) normal_nonempty [OF assms(1)] by (auto simp: normal_path_def)
  have "normalizePathPrefix (g @ r) = g @ strip_slashes r"
    using g by (auto simp: normalizePathPrefix_def Let_def strip_append startsWith_iff Cons_eq_append_conv)
  moreover have "pathPrefixMatches g (g @ strip_slashes r)"
    using strip_starts [OF assms(2)] by (auto simp: pathPrefixMatches_def startsWith_iff)
  moreover have "pathPrefixMatches g (normalizePathPrefix g)"
    by (simp add: normalize_id assms(1) pathPrefixMatches_def)
  ultimately show ?thesis by (simp add: applyGroupPrefixToRoutePath_def False)
qed (simp add: pathPrefixMatches_def)

lemma matches_combine: "normal_path b \<Longrightarrow> pathPrefixMatches a (combinePathPrefixes a b)"
  using normal_decomp [of b] by (auto simp: pathPrefixMatches_def combinePathPrefixes_def startsWith_iff)

text \<open>What a piece of a program adds, and the prefix that it stays under.\<close>

definition adds_under :: "string \<Rightarrow> 'g application \<Rightarrow> 'g application \<Rightarrow> bool" where
  "adds_under q app app' \<longleftrightarrow>
     (\<exists>rs. an_routes app' = an_routes app @ rs \<and> (\<forall>r\<in>set rs. pathPrefixMatches q (rr_path r)))
   \<and> (\<exists>ms. an_middlewares app' = an_middlewares app @ ms \<and> (\<forall>m\<in>set ms. pathPrefixMatches q (mr_pathPrefix m)))
   \<and> an_groupPrefix app' = an_groupPrefix app"

lemma adds_refl [intro]: "adds_under q app app"
  by (simp add: adds_under_def)

lemma adds_trans [trans]: "adds_under q a b \<Longrightarrow> adds_under q b c \<Longrightarrow> adds_under q a c"
  unfolding adds_under_def by (fastforce simp: ball_Un)

lemma adds_weaken:
  assumes "adds_under (combinePathPrefixes q p) a b" "normal_path q" "normal_path p"
  shows "adds_under q a b"
proof -
  have "pathPrefixMatches q x" if "pathPrefixMatches (combinePathPrefixes q p) x" for x
    using matches_trans [OF assms(2) matches_combine [OF assms(3)] that] combine_normal assms(2,3) by blast
  then show ?thesis using assms(1) by (auto simp: adds_under_def)
qed

text \<open>Every path the program names begins with a slash.\<close>

fun rooted :: "'g command \<Rightarrow> bool" and all_rooted :: "'g command list \<Rightarrow> bool" where
  "rooted (Group path (Some cs)) = all_rooted cs"
| "rooted (Route meth path options f loc) = startsWith path ''/''"
| "rooted (StatusRoute code meth path f loc) = startsWith path ''/''"
| "rooted (Static path html options loc) = startsWith path ''/''"
| "rooted (Health path b s h loc) = startsWith path ''/''"
| "rooted (Register (Some (name, install))) = all_rooted install"
| "rooted (Attempt cs) = all_rooted cs"
| "rooted c = True"
| "all_rooted [] = True"
| "all_rooted (c # cs) = (rooted c \<and> all_rooted cs)"

definition desc_under :: "string \<Rightarrow> reg_error + 'g route_desc \<Rightarrow> bool" where
  "desc_under q d = (case d of Inl _ \<Rightarrow> True | Inr r \<Rightarrow> pathPrefixMatches q (rr_path r))"

lemma push_route_under: "desc_under q d \<Longrightarrow> adds_under q app (snd (push_route d app))"
  by (auto simp: push_route_def adds_under_def desc_under_def route_desc.defs split: sum.splits)

lemma push_routes_under: "list_all (desc_under q) ds \<Longrightarrow> adds_under q app (snd (push_routes ds app))"
proof (induction ds app rule: push_routes.induct)
  case (2 d ds app)
  then show ?case
    using push_route_under [of q d app]
    by (auto split: prod.splits option.splits intro: adds_trans)
qed auto

lemma route_path_Inr: "route_path meth p = Inr x \<longleftrightarrow> startsWith p ''/'' \<and> x = normalizePathPrefix p"
  by (auto simp: route_path_def normalizeRoutePath_def)

lemma normalized_route_under:
  assumes "normal_path g" "startsWith r ''/''"
  shows "desc_under g (normalizeRouteRegistration meth (applyGroupPrefixToRoutePath r g) h opts)"
    and "desc_under g (normalizeStaticRouteRegistration (applyGroupPrefixToRoutePath r g) html hopts loc)"
  using scoped_route_matches [OF assms]
  by (auto simp: desc_under_def normalizeRouteRegistration_def normalizeStaticRouteRegistration_def Let_def
      ebind_eq_Inr route_path_Inr split: sum.splits option.splits if_splits)

lemma registrar_under:
  "normal_path (an_groupPrefix app) \<Longrightarrow> startsWith path ''/'' \<Longrightarrow>
    adds_under (an_groupPrefix app) app (snd (createMethodRegistrar meth path options h loc app))"
  by (auto simp: createMethodRegistrar_def Let_def list_all_iff
      intro!: push_routes_under push_route_under normalized_route_under)

lemma static_under:
  "normal_path (an_groupPrefix app) \<Longrightarrow> startsWith path ''/'' \<Longrightarrow>
    adds_under (an_groupPrefix app) app (snd (app_static path html options loc app))"
  by (auto simp: app_static_def Let_def intro!: push_route_under normalized_route_under)

lemma matches_self: "pathPrefixMatches g g"
  by (simp add: pathPrefixMatches_def)

lemma use_under: "adds_under (an_groupPrefix app) app (snd (app_use path f app))"
  by (auto simp: app_use_def Let_def adds_under_def matches_combine normalize_normal matches_self
      split: option.splits)

lemma others_under:
  "adds_under q app (snd (app_onError h app))" "adds_under q app (snd (app_ws path ws app))"
  "adds_under q app (snd (app_decorate name v app))" "adds_under q app (snd (app_addHook event f app))"
  by (auto simp: app_onError_def app_ws_def app_decorate_def app_addHook_def adds_under_def
      split: option.splits ws_argument.splits sum.splits)

lemma adds_prefix: "adds_under q a b \<Longrightarrow> an_groupPrefix b = an_groupPrefix a"
  by (simp add: adds_under_def)

lemma under_group:
  assumes "adds_under (combinePathPrefixes (an_groupPrefix app) p)
      (app\<lparr>an_groupPrefix := combinePathPrefixes (an_groupPrefix app) p\<rparr>) app'"
    and "normal_path (an_groupPrefix app)" "normal_path p"
  shows "adds_under (an_groupPrefix app) app (app'\<lparr>an_groupPrefix := an_groupPrefix app\<rparr>)"
  using adds_weaken [OF assms] by (auto simp: adds_under_def)

lemma program_under:
  "rooted c \<Longrightarrow> normal_path (an_groupPrefix app) \<Longrightarrow> adds_under (an_groupPrefix app) app (snd (run_command c app))"
  "all_rooted cs \<Longrightarrow> normal_path (an_groupPrefix app) \<Longrightarrow> adds_under (an_groupPrefix app) app (snd (run_commands cs app))"
proof (induction c app and cs app rule: run_command_run_commands.induct)
  case (6 path registerGroup app)
  have n: "normal_path (combinePathPrefixes (an_groupPrefix app) (normalizePathPrefix path))"
    using 6(3) by (simp add: combine_normal normalize_normal)
  let ?in = "app\<lparr>an_groupPrefix := combinePathPrefixes (an_groupPrefix app) (normalizePathPrefix path)\<rparr>"
  have "adds_under (an_groupPrefix ?in) ?in (snd (run_commands registerGroup ?in))"
    using 6(1) [of ?in] 6(2) n by simp
  then show ?case
    using under_group [of app "normalizePathPrefix path"] 6(3)
    by (simp add: app_group_def Let_def split_beta normalize_normal)
next
  case (15 name cs app)
  then have "adds_under (an_groupPrefix app) app (snd (run_commands cs app))" if "name \<notin> set (an_plugins app)"
    using that by simp
  then show ?case by (auto simp: app_register_def adds_under_def split: option.split prod.split)
next
  case (19 c cs app)
  show ?case
  proof (cases "run_command c app")
    case (Pair e app')
    then have u: "adds_under (an_groupPrefix app) app app'" using 19 by simp
    then show ?thesis
      using Pair 19 adds_prefix [OF u] by (auto split: option.split intro: adds_trans)
  qed
qed (auto simp: app_group_def app_register_def registrar_under static_under use_under others_under app_404_def app_401_def app_health_def)

section \<open>The invariant of the application object\<close>

definition handler_ids :: "'g application \<Rightarrow> nat list" where
  "handler_ids app = map rr_handlerId (an_routes app) @ map wr_handlerId (an_wsRoutes app)"

definition route_ok :: "'g route_reg \<Rightarrow> bool" where
  "route_ok r \<longleftrightarrow> normal_path (rr_path r)
     \<and> (rr_staticResponse r \<noteq> None \<longrightarrow> rr_method r = ''GET'' \<and> \<not> contains (rr_path r) '':'')"

definition app_ok :: "'g application \<Rightarrow> bool" where
  "app_ok app \<longleftrightarrow> normal_path (an_groupPrefix app) \<and> 1 \<le> an_nextHandlerId app
     \<and> distinct (handler_ids app) \<and> set (handler_ids app) = {1..<an_nextHandlerId app}
     \<and> (\<forall>r\<in>set (an_routes app). route_ok r)
     \<and> (\<forall>m\<in>set (an_middlewares app). normal_path (mr_pathPrefix m))
     \<and> (\<forall>w\<in>set (an_wsRoutes app). normal_path (wr_path w))
     \<and> distinct (map fst (an_decorators app)) \<and> map fst (an_hooks app) = HOOK_EVENTS"

lemma createApp_ok: "app_ok createApp"
  by (simp add: app_ok_def createApp_def handler_ids_def normal_path_def comp_def)

definition desc_ok :: "reg_error + 'g route_desc \<Rightarrow> bool" where
  "desc_ok d = (case d of Inl _ \<Rightarrow> True | Inr r \<Rightarrow> normal_path (rr_path r)
     \<and> (rr_staticResponse r \<noteq> None \<longrightarrow> rr_method r = ''GET'' \<and> \<not> contains (rr_path r) '':''))"

lemma normalized_route_ok:
  "desc_ok (normalizeRouteRegistration meth path h opts)"
  "desc_ok (normalizeStaticRouteRegistration path html hopts loc)"
  by (auto simp: desc_ok_def normalizeRouteRegistration_def normalizeStaticRouteRegistration_def Let_def
      ebind_eq_Inr route_path_Inr normalize_normal split: sum.splits option.splits if_splits)

lemma fresh_id:
  assumes "distinct ids" "set ids = {1..<n::nat}" "1 \<le> n"
  shows "n \<notin> set ids" "insert n (set ids) = {1..<Suc n}"
  using assms(2,3) by (simp_all add: atLeastLessThanSuc)

lemma push_route_ok:
  assumes "app_ok app" "desc_ok d"
  shows "app_ok (snd (push_route d app))"
proof (cases d)
  case (Inr r)
  let ?r = "route_desc.extend r \<lparr>rr_handlerId = an_nextHandlerId app\<rparr>"
  have r: "route_ok ?r" using assms(2) Inr by (simp add: desc_ok_def route_ok_def route_desc.defs)
  have i: "rr_handlerId ?r = an_nextHandlerId app" by (simp add: route_desc.defs)
  have d: "distinct (handler_ids app)" "set (handler_ids app) = {1..<an_nextHandlerId app}" "1 \<le> an_nextHandlerId app"
    using assms(1) by (simp_all add: app_ok_def)
  let ?rs = "map rr_handlerId (an_routes app)" and ?ws = "map wr_handlerId (an_wsRoutes app)"
  have ids: "handler_ids (snd (push_route d app)) = ?rs @ an_nextHandlerId app # ?ws" "handler_ids app = ?rs @ ?ws"
    using i by (simp_all add: handler_ids_def push_route_def Inr)
  have "distinct (?rs @ an_nextHandlerId app # ?ws)" "set (?rs @ an_nextHandlerId app # ?ws) = {1..<Suc (an_nextHandlerId app)}"
    using fresh_id [OF d] d(1) by (auto simp: ids(2))
  then show ?thesis using assms(1) r by (simp add: app_ok_def ids(1)) (simp add: push_route_def Inr)
qed (use assms in \<open>simp add: push_route_def\<close>)

lemma push_routes_ok: "app_ok app \<Longrightarrow> list_all desc_ok ds \<Longrightarrow> app_ok (snd (push_routes ds app))"
proof (induction ds app rule: push_routes.induct)
  case (2 d ds app)
  then show ?case using push_route_ok [of app d] by (auto split: prod.splits option.splits)
qed simp

lemma registrar_ok: "app_ok app \<Longrightarrow> app_ok (snd (createMethodRegistrar meth path options h loc app))"
  by (auto simp: createMethodRegistrar_def Let_def list_all_iff normalized_route_ok
      intro!: push_routes_ok push_route_ok)

lemma static_ok: "app_ok app \<Longrightarrow> app_ok (snd (app_static path html options loc app))"
  by (auto simp: app_static_def Let_def normalized_route_ok intro!: push_route_ok)

lemma ws_ok: "app_ok app \<Longrightarrow> app_ok (snd (app_ws path h app))"
  using fresh_id [of "handler_ids app" "an_nextHandlerId app"]
  by (auto simp: app_ws_def app_ok_def handler_ids_def route_path_Inr normalize_normal
      split: sum.split ws_argument.split)

lemma use_ok: "app_ok app \<Longrightarrow> app_ok (snd (app_use path f app))"
  by (auto simp: app_use_def Let_def app_ok_def handler_ids_def combine_normal normalize_normal
      split: option.splits)

lemma keys_update: "map_of xs k \<noteq> None \<Longrightarrow> map fst (AList.update k v xs) = map fst xs"
  by (induction xs) auto

lemma small_steps_ok:
  "app_ok app \<Longrightarrow> app_ok (snd (app_onError h app))"
  "app_ok app \<Longrightarrow> app_ok (snd (app_decorate name v app))"
  "app_ok app \<Longrightarrow> app_ok (snd (app_addHook event f app))"
  by (auto simp: app_onError_def app_decorate_def app_addHook_def app_ok_def handler_ids_def keys_update
      map_of_eq_None_iff split: option.splits)

lemma app_ok_group: "app_ok app \<Longrightarrow> normal_path q \<Longrightarrow> app_ok (app\<lparr>an_groupPrefix := q\<rparr>)"
  by (simp add: app_ok_def handler_ids_def)

lemma app_ok_plugin: "app_ok app \<Longrightarrow> app_ok (app\<lparr>an_plugins := ps\<rparr>)"
  by (simp add: app_ok_def handler_ids_def)

lemma app_ok_prefix: "app_ok app \<Longrightarrow> normal_path (an_groupPrefix app)"
  by (simp add: app_ok_def)

lemma program_ok:
  "app_ok app \<Longrightarrow> app_ok (snd (run_command c app))"
  "app_ok app \<Longrightarrow> app_ok (snd (run_commands cs app))"
proof (induction c app and cs app rule: run_command_run_commands.induct)
  case (6 path registerGroup app)
  have "app_ok (app\<lparr>an_groupPrefix := combinePathPrefixes (an_groupPrefix app) (normalizePathPrefix path)\<rparr>)"
    using 6(2) app_ok_prefix by (intro app_ok_group combine_normal normalize_normal)
  from 6(1) [OF this] show ?case
    using app_ok_prefix [OF 6(2)] by (simp add: app_group_def Let_def split_beta app_ok_group)
next
  case (15 name cs app)
  show ?case using 15(1) [OF 15(2)] 15(2)
    by (cases "run_commands cs app") (auto simp: app_register_def app_ok_plugin split: option.split)
next
  case (19 c cs app)
  then show ?case by (cases "run_command c app") (auto split: option.split)
qed (simp_all add: app_group_def app_register_def registrar_ok static_ok use_ok small_steps_ok ws_ok app_404_def app_401_def app_health_def)

lemma registrar_prefix [simp]:
  "an_groupPrefix (snd (push_route d app)) = an_groupPrefix app"
  "an_groupPrefix (snd (push_routes ds app)) = an_groupPrefix app"
  "an_groupPrefix (snd (createMethodRegistrar meth path options h loc app)) = an_groupPrefix app"
  "an_groupPrefix (snd (app_static path html hopts loc app)) = an_groupPrefix app"
proof -
  show p: "an_groupPrefix (snd (push_route d app)) = an_groupPrefix app" for d app
    by (simp add: push_route_def split: sum.split)
  show ps: "an_groupPrefix (snd (push_routes ds app)) = an_groupPrefix app" for ds app
  proof (induction ds app rule: push_routes.induct)
    case (2 d ds app)
    then show ?case using p [of d app] by (cases "push_route d app") (auto split: option.split)
  qed simp
  show "an_groupPrefix (snd (createMethodRegistrar meth path options h loc app)) = an_groupPrefix app"
    "an_groupPrefix (snd (app_static path html hopts loc app)) = an_groupPrefix app"
    by (simp_all add: createMethodRegistrar_def app_static_def Let_def p ps)
qed

lemma program_prefix:
  "an_groupPrefix (snd (run_command c app)) = an_groupPrefix app"
  "an_groupPrefix (snd (run_commands cs app)) = an_groupPrefix app"
proof (induction c app and cs app rule: run_command_run_commands.induct)
  case (15 name cs app)
  show ?case using 15 [of app]
    by (cases "run_commands cs app") (auto simp: app_register_def split: option.split)
next
  case (19 c cs app)
  then show ?case by (cases "run_command c app") (auto split: option.split)
qed (simp_all add: app_group_def app_register_def Let_def split_beta app_404_def app_401_def app_health_def adds_prefix [OF use_under]
    adds_prefix [OF others_under(1)] adds_prefix [OF others_under(2)] adds_prefix [OF others_under(3)]
    adds_prefix [OF others_under(4)])

section \<open>Properties\<close>

text \<open>C14: Whatever a program registers, in whatever nesting of groups and plugins and whether it ends with
  an error or not, the handler ids of the HTTP and WebSocket routes are exactly 1 to n without a
  repetition, so 0 is free for the request that matches no route, and the application is out of every
  group again.\<close>

theorem handler_ids_are_unique:
  assumes "run_commands cs createApp = (e, app)"
  shows "distinct (handler_ids app) \<and> set (handler_ids app) = {1..<an_nextHandlerId app}
    \<and> 0 \<notin> set (handler_ids app) \<and> an_groupPrefix app = ''/''"
proof -
  have "app_ok app" using program_ok(2) [OF createApp_ok, of cs] assms by simp
  moreover have "an_groupPrefix app = ''/''"
    using program_prefix(2) [of cs createApp] assms by (simp add: createApp_def)
  ultimately show ?thesis by (simp add: app_ok_def)
qed

definition quiet_func :: "nat func" where
  "quiet_func = \<lparr>fn_source = ''(req, res) => {}'', fn_handler = \<lparr>h_async = False, h_body = Return\<rparr>\<rparr>"

definition sample_program :: "nat command list" where
  "sample_program =
     [Route ''PUT'' ''/'' no_options (Some quiet_func) None,
      Attempt [Group ''api/'' (Some
        [Route ''GET'' ''/users/'' no_options (Some quiet_func) None, Static ''/u/:id'' (Some ''x'') None None])],
      Ws ''/chat'' (WsObject \<lparr>wc_open = None, wc_message = None, wc_close = None, wc_maxPayloadLength = None,
        wc_backpressure = None, wc_idleTimeout = None, wc_perMessageDeflate = None\<rparr>)]"

lemma sample_program_run:
  "map (\<lambda>r. (rr_method r, rr_path r, rr_handlerId r)) (an_routes (snd (run_commands sample_program createApp)))
     = [(''PUT'', ''/'', 1), (''GET'', ''/api/users'', 2)]
   \<and> map wr_handlerId (an_wsRoutes (snd (run_commands sample_program createApp))) = [3]"
  by code_simp

theorem handler_ids_are_unique_witness:
  "distinct (handler_ids (snd (run_commands sample_program createApp)))
   \<and> handler_ids (snd (run_commands sample_program createApp)) = [1, 2, 3]"
proof
  show "distinct (handler_ids (snd (run_commands sample_program createApp)))"
    using handler_ids_are_unique [OF prod.collapse [symmetric], of sample_program] by simp
  have "map rr_handlerId (an_routes (snd (run_commands sample_program createApp))) = [1, 2]"
    using arg_cong [OF conjunct1 [OF sample_program_run], of "map (snd \<circ> snd)"] by (simp add: comp_def)
  then show "handler_ids (snd (run_commands sample_program createApp)) = [1, 2, 3]"
    using sample_program_run by (simp add: handler_ids_def)
qed

text \<open>C15: A group confines what its callback registers: if the paths in it begin with a slash, every route and
  every middleware that the callback adds lies under the prefix of the group, nothing registered before is
  changed, and the prefix is the old one again afterwards, also when the callback throws.\<close>

theorem group_confines_registrations:
  assumes "all_rooted cs" "normal_path (an_groupPrefix app)" "run_command (Group path (Some cs)) app = (e, app')"
  defines "q \<equiv> combinePathPrefixes (an_groupPrefix app) (normalizePathPrefix path)"
  shows "an_groupPrefix app' = an_groupPrefix app
    \<and> (\<exists>rs. an_routes app' = an_routes app @ rs \<and> (\<forall>r\<in>set rs. pathPrefixMatches q (rr_path r)))
    \<and> (\<exists>ms. an_middlewares app' = an_middlewares app @ ms \<and> (\<forall>m\<in>set ms. pathPrefixMatches q (mr_pathPrefix m)))"
proof -
  have "adds_under q (app\<lparr>an_groupPrefix := q\<rparr>) (snd (run_commands cs (app\<lparr>an_groupPrefix := q\<rparr>)))"
    using program_under(2) [OF assms(1), of "app\<lparr>an_groupPrefix := q\<rparr>"] assms(2)
    by (simp add: q_def combine_normal normalize_normal)
  then show ?thesis
    using assms(3) unfolding q_def by (auto simp: app_group_def Let_def split_beta adds_under_def)
qed

theorem group_confines_registrations_witness:
  "\<exists>rs. an_routes (snd (run_command (Group ''api/'' (Some
      [Use None None, Route ''GET'' ''/users/'' no_options (Some quiet_func) None])) createApp)) = rs
   \<and> (\<forall>r\<in>set rs. pathPrefixMatches ''/api'' (rr_path r))"
  using group_confines_registrations [OF _ _ prod.collapse [symmetric],
    of "[Use None None, Route ''GET'' ''/users/'' no_options (Some quiet_func) None]" createApp "''api/''"]
  by (auto simp: createApp_def normal_path_def startsWith_def combinePathPrefixes_def normalizePathPrefix_def
      strip_slashes_def Let_def)

text \<open>The three ways out of a group: a WebSocket route ignores the prefix, a path without its slash is glued to
  the prefix, and a plugin that registers a plugin of its own name in its \<open>setup\<close> is there twice.\<close>

lemma websocket_leaves_group:
  "an_wsRoutes (snd (run_command (Group g (Some [Ws ''/chat'' (WsObject h)])) createApp)) = [w] \<Longrightarrow> wr_path w = ''/chat''"
proof -
  have "normalizeRoutePath ''/chat'' = Some ''/chat''" by code_simp
  then show "an_wsRoutes (snd (run_command (Group g (Some [Ws ''/chat'' (WsObject h)])) createApp)) = [w] \<Longrightarrow> wr_path w = ''/chat''"
    by (auto simp: app_group_def app_ws_def route_path_def createApp_def Let_def)
qed

lemma unrooted_path_is_glued:
  "map rr_path (an_routes (snd (run_command (Group ''/api''
     (Some [Route ''GET'' ''users'' no_options (Some quiet_func) None])) createApp))) = [''/apiusers'']
   \<and> \<not> pathPrefixMatches ''/api'' ''/apiusers''
   \<and> fst (run_command (Route ''GET'' ''users'' no_options (Some quiet_func) None) createApp) \<noteq> None"
  by code_simp

lemma nested_plugin_is_registered_twice:
  "an_plugins (snd (run_command (Register (Some (''p'', [Register (Some (''p'', []))]))) createApp)) = [''p'', ''p'']"
  by code_simp

end
