(* ===== verification/FastPathProbe.thy ===== *)
theory FastPathProbe
  imports Registration
begin

text \<open>
  The probe of \<open>src/src/index.js\<close>: when the application is compiled, the handler of a route with
  parameters is called once with a mock request and a mock response, and if it answers, a source
  text with the captured values in it replaces the source of the handler in the manifest and for the
  access analysis.  The native layer answers requests from such a text without calling the handler.
  What the handler does with the mocks is user code: the calls it makes on the mock response, in
  order, and whether it throws or returns a promise.
\<close>

section \<open>The mocks\<close>

record mock_request =
  mq_params :: "(string \<times> string) list"
  mq_method :: string
  mq_path :: string

text \<open>Data of a call: members without JSON text of their own (undefined, functions) are \<open>None\<close>.\<close>

datatype mock_data =
  DUndefined | DText string | DObject "(string \<times> json option) list" | DArray | DScalar

datatype mock_call = MStatus jnum | MJson mock_data | MSend mock_data | MSet | MType string

record mock_run =
  mu_calls :: "mock_call list"
  mu_throws :: bool
  mu_promise :: bool

record captured =
  cp_data :: mock_data
  cp_status :: jnum
  cp_type :: "string option"
  cp_succeeded :: bool

definition no_capture :: captured where
  "no_capture = \<lparr>cp_data = DUndefined, cp_status = Fin 200, cp_type = None, cp_succeeded = False\<rparr>"

fun mock_response :: "mock_call \<Rightarrow> captured \<Rightarrow> captured" where
  "mock_response (MStatus code) c = c\<lparr>cp_status := code\<rparr>"
| "mock_response (MJson v) c = c\<lparr>cp_data := v, cp_succeeded := True\<rparr>"
| "mock_response (MSend v) c =
     (case v of
        DText t \<Rightarrow> c\<lparr>cp_data := v, cp_type := Some ''send_string'', cp_succeeded := True\<rparr>
      | DObject ms \<Rightarrow> c\<lparr>cp_data := v, cp_type := Some ''send_json'', cp_succeeded := True\<rparr>
      | DArray \<Rightarrow> c\<lparr>cp_data := v, cp_type := Some ''send_json'', cp_succeeded := True\<rparr>
      | _ \<Rightarrow> c\<lparr>cp_succeeded := True\<rparr>)"
| "mock_response MSet c = c"
| "mock_response (MType v) c = c\<lparr>cp_type := Some v\<rparr>"

section \<open>Which handlers are probed\<close>

definition EFFECT_METHODS :: "string list" where
  "EFFECT_METHODS = [''push'', ''pop'', ''shift'', ''unshift'', ''splice'', ''set'', ''write'', ''emit'', ''log'',
     ''warn'', ''error'', ''send'']"

definition call_follows :: "string \<Rightarrow> string \<Rightarrow> bool" where
  "call_follows name s \<longleftrightarrow> startsWith s name
     \<and> (case dropWhile is_ws (drop (length name) s) of c # _ \<Rightarrow> c = CHR ''('' | [] \<Rightarrow> False)"

text \<open>\<open>/(?<!res)\\.\\s*(?:push|...)\\s*\\(/\<close>; the first argument is what has been read, backwards.\<close>

fun effect_call :: "string \<Rightarrow> string \<Rightarrow> bool" where
  "effect_call seen [] = False"
| "effect_call seen (c # s) =
     (c = CHR ''.'' \<and> take 3 seen \<noteq> rev ''res''
        \<and> list_ex (\<lambda>name. call_follows name (dropWhile is_ws s)) EFFECT_METHODS
      \<or> effect_call (c # seen) s)"

definition path_param_names :: "string \<Rightarrow> string list" where
  "path_param_names path = map tl (filter (\<lambda>s. startsWith s '':'') (split_on (CHR ''/'') path))"

definition PROBE_PARAM_PREFIX :: string where "PROBE_PARAM_PREFIX = ''__PROBE_PARAM_''"
definition PROBE_PARAM_SUFFIX :: string where "PROBE_PARAM_SUFFIX = ''__''"

definition probe_text :: "string \<Rightarrow> string" where
  "probe_text name = PROBE_PARAM_PREFIX @ name @ PROBE_PARAM_SUFFIX"

definition mock_for :: "string \<Rightarrow> string \<Rightarrow> mock_request" where
  "mock_for meth path =
     \<lparr>mq_params = map (\<lambda>n. (n, probe_text n)) (path_param_names path),
      mq_method = (if meth = [] then ''GET'' else meth), mq_path = path\<rparr>"

section \<open>The generated source\<close>

text \<open>A member of the answer is a parameter of the request or a constant.\<close>

datatype template_value = FromParam string | Constant json

definition is_scalar :: "json \<Rightarrow> bool" where
  "is_scalar j = (case j of JArr _ \<Rightarrow> False | JObj _ \<Rightarrow> False | _ \<Rightarrow> True)"

definition resolve_value :: "string list \<Rightarrow> json option \<Rightarrow> template_value option" where
  "resolve_value paramNames v =
     (case v of
        Some (JStr s) \<Rightarrow>
          if s \<in> set (map probe_text paramNames)
          then Some (FromParam (drop (length PROBE_PARAM_PREFIX) (take (length s - length PROBE_PARAM_SUFFIX) s)))
          else Some (Constant (JStr s))
      | Some j \<Rightarrow> if is_scalar j then Some (Constant j) else None
      | None \<Rightarrow> None)"

fun resolve_members :: "string list \<Rightarrow> (string \<times> json option) list \<Rightarrow> (string \<times> template_value) list option" where
  "resolve_members names [] = Some []"
| "resolve_members names ((k, v) # ms) =
     (case (resolve_value names v, resolve_members names ms) of
        (Some t, Some ts) \<Rightarrow> Some ((k, t) # ts)
      | _ \<Rightarrow> None)"

fun render_member :: "string \<times> template_value \<Rightarrow> string" where
  "render_member (key, FromParam name) = json_quote key @ '': req.params.'' @ name"
| "render_member (key, Constant j) = json_quote key @ '': '' @ stringify j"

definition with_status_text :: "jnum \<Rightarrow> string \<Rightarrow> string" where
  "with_status_text status call =
     (if status \<noteq> Fin 200 then ''(req, res) => res.status('' @ num_text status @ '').'' @ call
      else ''(req, res) => res.'' @ call)"

definition render_json_source :: "jnum \<Rightarrow> (string \<times> template_value) list \<Rightarrow> string" where
  "render_json_source status tmpl =
     with_status_text status (''json({ '' @ join '', '' (map render_member tmpl) @ '' })'')"

definition generateResolvedJsonSource ::
  "(string \<times> json option) list \<Rightarrow> string list \<Rightarrow> jnum \<Rightarrow> string option" where
  "generateResolvedJsonSource data paramNames status =
     map_option (render_json_source status) (resolve_members paramNames data)"

definition param_reference :: "string \<Rightarrow> string" where
  "param_reference name = ''${req.params.'' @ name @ ''}''"

text \<open>The text goes into the template literal as it is.\<close>

definition generateResolvedSendSource :: "string \<Rightarrow> string list \<Rightarrow> jnum \<Rightarrow> string" where
  "generateResolvedSendSource data paramNames status =
     (if list_ex (\<lambda>name. contains data (probe_text name)) paramNames
      then
        let remaining = foldl (\<lambda>r name. replace_all (\<lambda>s. startsWith s (probe_text name))
              (length (probe_text name)) (param_reference name) r) data paramNames in
        with_status_text status (''send('' @ [CHR 0x60] @ remaining @ [CHR 0x60] @ '')'')
      else with_status_text status (''send('' @ json_quote data @ '')''))"

definition probeHandlerForFastPath ::
  "(mock_request \<Rightarrow> mock_run) \<Rightarrow> string \<Rightarrow> string \<Rightarrow> string \<Rightarrow> string option" where
  "probeHandlerForFastPath handler meth path originalSource =
     (if \<not> contains path '':'' then None
      else if contains originalSource ''await'' then None
      else if effect_call [] originalSource then None
      else
        let paramNames = path_param_names path in
        if paramNames = [] then None
        else
          let result = handler (mock_for meth path);
              c = fold mock_response (mu_calls result) no_capture in
          if mu_throws result then None
          else if mu_promise result \<and> \<not> cp_succeeded c then None
          else if \<not> cp_succeeded c then None
          else
            (case cp_data c of
               DObject ms \<Rightarrow> generateResolvedJsonSource ms paramNames (cp_status c)
             | DText t \<Rightarrow> if cp_type c = Some ''send_string''
                 then Some (generateResolvedSendSource t paramNames (cp_status c)) else None
             | _ \<Rightarrow> None))"

section \<open>Handlers that answer with JSON\<close>

text \<open>A handler that computes the status and the members of its answer from the parameters.\<close>

type_synonym json_answer = "(string \<Rightarrow> string) \<Rightarrow> jnum \<times> (string \<times> json) list"

definition param_of :: "(string \<times> string) list \<Rightarrow> string \<Rightarrow> string" where
  "param_of al n = (case map_of al n of Some v \<Rightarrow> v | None \<Rightarrow> [])"

definition on_mock :: "json_answer \<Rightarrow> mock_request \<Rightarrow> mock_run" where
  "on_mock f m =
     (let (status, ms) = f (param_of (mq_params m)) in
      \<lparr>mu_calls = [MStatus status, MJson (DObject (map (\<lambda>(k, v). (k, Some v)) ms))],
       mu_throws = False, mu_promise = False\<rparr>)"

definition probed :: "string \<Rightarrow> string \<Rightarrow> bool" where
  "probed path source \<longleftrightarrow> contains path '':'' \<and> \<not> contains source ''await'' \<and> \<not> effect_call [] source
     \<and> path_param_names path \<noteq> []"

definition probe_param :: "string \<Rightarrow> string \<Rightarrow> string" where
  "probe_param path = param_of (map (\<lambda>n. (n, probe_text n)) (path_param_names path))"

lemma probe_json:
  assumes "probed path source" "f (probe_param path) = (s, ms)"
  shows "probeHandlerForFastPath (on_mock f) meth path source
    = generateResolvedJsonSource (map (\<lambda>(k, v). (k, Some v)) ms) (path_param_names path) s"
  using assms by (simp add: probeHandlerForFastPath_def probed_def on_mock_def mock_for_def probe_param_def
      no_capture_def Let_def)

section \<open>Generated sources\<close>

text \<open>If no member of the probed answer is a parameter itself, the generated source names no parameter: it holds the
  status and the members the handler gave for the placeholder texts.\<close>

lemma constant_members:
  "list_all (\<lambda>(k, v). is_scalar v \<and> v \<notin> JStr ` probe_text ` set names) ms \<Longrightarrow>
    resolve_members names (map (\<lambda>(k, v). (k, Some v)) ms) = Some (map (\<lambda>(k, v). (k, Constant v)) ms)"
proof (induction ms)
  case (Cons e ms)
  then show ?case by (cases e; cases "snd e") (auto simp: resolve_value_def is_scalar_def)
qed simp

lemma probe_freezes_answer:
  assumes "probed path source" "f (probe_param path) = (s, ms)"
    and "list_all (\<lambda>(k, v). is_scalar v \<and> v \<notin> JStr ` probe_text ` set (path_param_names path)) ms"
  shows "probeHandlerForFastPath (on_mock f) meth path source
    = Some (with_status_text s (''json({ '' @ join '', '' (map (\<lambda>(k, v). json_quote k @ '': '' @ stringify v) ms) @ '' })''))"
  using probe_json [where f = f, OF assms(1,2)] constant_members [OF assms(3)]
  by (simp add: generateResolvedJsonSource_def render_json_source_def comp_def split_def)

text \<open>A parameter that the answer repeats is read from the request.\<close>

definition echo_source :: string where
  "echo_source = ''(req, res) => res.json({ id: req.params.id, engine: label })''"

definition echo_id :: json_answer where
  "echo_id params = (Fin 200, [(''id'', JStr (params ''id'')), (''engine'', JStr ''http-native'')])"

lemma echo_text:
  "probeHandlerForFastPath (on_mock echo_id) ''GET'' ''/users/:id'' echo_source
    = Some (''(req, res) => res.json({ '' @ [DQ] @ ''id'' @ [DQ] @ '': req.params.id, '' @ [DQ] @ ''engine'' @ [DQ]
        @ '': '' @ [DQ] @ ''http-native'' @ [DQ] @ '' })'')"
  by code_simp

text \<open>A handler that looks a record up and answers 404 when there is none gives a source that says 404 for every
  record.\<close>

definition lookup_source :: string where
  "lookup_source = join [LF]
     [''(req, res) => {'', ''  const user = users[req.params.id];'',
      ''  if (!user) return res.status(404).json({ error: message });'', ''  res.json({ name: user.name });'', ''}'']"

definition lookup_user :: json_answer where
  "lookup_user params =
     (if params ''id'' = ''1'' then (Fin 200, [(''name'', JStr ''Ada'')])
      else (Fin 404, [(''error'', JStr ''no such user'')]))"

lemma lookup_is_frozen:
  "probeHandlerForFastPath (on_mock lookup_user) ''GET'' ''/users/:id'' lookup_source
    = Some (''(req, res) => res.status(404).json({ '' @ [DQ] @ ''error'' @ [DQ] @ '': '' @ [DQ] @ ''no such user'' @ [DQ] @ '' })'')"
  by code_simp

text \<open>The name of a parameter goes behind a dot whether it is an identifier or not.\<close>

lemma name_breaks_source:
  "generateResolvedJsonSource [(''id'', Some (JStr (probe_text ''user-id'')))] [''user-id''] (Fin 200)
    = Some (''(req, res) => res.json({ '' @ [DQ] @ ''id'' @ [DQ] @ '': req.params.user-id })'')"
  by code_simp

text \<open>Text is put into a template literal without an escape, and the type and the headers of the answer are
  forgotten.\<close>

lemma send_source_is_not_escaped:
  "generateResolvedSendSource (''a'' @ [CHR 0x60] @ probe_text ''id'') [''id''] (Fin 200)
    = ''(req, res) => res.send('' @ [CHR 0x60] @ ''a'' @ [CHR 0x60] @ ''${req.params.id}'' @ [CHR 0x60] @ '')''"
  by code_simp

lemma headers_are_forgotten:
  "fold mock_response [MSet, MType ''html'', MStatus s, MJson v] no_capture
    = (fold mock_response [MStatus s, MJson v] no_capture)\<lparr>cp_type := Some ''html''\<rparr>"
  by (simp add: no_capture_def)

end
