(* ===== verification/Compile.thy ===== *)
theory Compile
  imports FastPathProbe Config
begin

text \<open>
  Compilation of an application in \<open>src/src/index.js\<close> (and \<open>compileRouteShape\<close> of
  \<open>src/src/bridge.js\<close>): middlewares and routes get their sources, access plans and shapes, every route
  the middlewares whose prefix matches, the manifest for the native layer is written, and the
  dispatcher gets its table of routes.  \<open>analyze\<close> is \<open>analyzeRequestAccess\<close> (see \<open>AccessPlan\<close>; the
  parser acorn is a library), \<open>runMock\<close> what a handler does when the probe calls it.  Of the runtime
  optimiser and the writer of comments for developers only the place is here, see \<open>Optimizer\<close>.
\<close>

section \<open>Shapes\<close>

record route_shape =
  sh_methodCode :: nat
  sh_routeKind :: nat
  sh_paramNames :: "string list"
  sh_segmentCount :: nat

definition EXACT :: nat where "EXACT = 1"
definition PARAM :: nat where "PARAM = 2"

definition path_segments :: "string \<Rightarrow> string list" where
  "path_segments path = (if path = ''/'' then [] else filter (\<lambda>s. s \<noteq> []) (split_on (CHR ''/'') (tl path)))"

definition compileRouteShape :: "string \<Rightarrow> string \<Rightarrow> reg_error + route_shape" where
  "compileRouteShape meth path =
     (case map_of METHOD_CODES meth of
        None \<Rightarrow> Inl (TypeFault (''Unsupported method code for '' @ meth))
      | Some code \<Rightarrow>
          let segments = path_segments path;
              paramNames = map tl (filter (\<lambda>s. startsWith s '':'') segments) in
          Inr \<lparr>sh_methodCode = code, sh_routeKind = (if paramNames = [] then EXACT else PARAM),
               sh_paramNames = paramNames, sh_segmentCount = length segments\<rparr>)"

section \<open>Middlewares and routes\<close>

record 'g compiled_mw = "'g mw_reg" +
  cm_handlerSource :: string
  cm_accessPlan :: access_plan

definition compileMiddlewareRegistration :: "(string \<Rightarrow> access_plan) \<Rightarrow> 'g mw_reg \<Rightarrow> 'g compiled_mw" where
  "compileMiddlewareRegistration analyze middleware =
     (let handlerSource = mf_source (mr_handler middleware) in
      mw_reg.extend middleware \<lparr>cm_handlerSource = handlerSource, cm_accessPlan = analyze handlerSource\<rparr>)"

text \<open>A route with what the first pass of \<open>buildCompiledApplication\<close> adds, and with what
  \<open>compileRouteDispatch\<close> adds.\<close>

record 'g shaped_route = "'g route_reg" +
  sr_handlerSource :: string
  sr_accessPlan :: access_plan
  sr_shape :: route_shape

record 'g compiled_route = "'g shaped_route" +
  cr_applicable :: "'g compiled_mw list"
  cr_requestPlan :: access_plan
  cr_jsonFastPath :: json_fast_path
  cr_runtimeResponseCache :: "route_cache option"

definition shape_route ::
  "(string \<Rightarrow> access_plan) \<Rightarrow> ('g func \<Rightarrow> mock_request \<Rightarrow> mock_run) \<Rightarrow> 'g route_reg \<Rightarrow> reg_error + 'g shaped_route" where
  "shape_route analyze runMock route =
     (let source0 = (case rr_syntheticSource route of Some s \<Rightarrow> s | None \<Rightarrow> fn_source (rr_handler route));
          probedSource = (if rr_staticResponse route = None
            then probeHandlerForFastPath (runMock (rr_handler route)) (rr_method route) (rr_path route) source0
            else None);
          handlerSource = (if truthy_str probedSource then the probedSource else source0) in
      ebind (compileRouteShape (rr_method route) (rr_path route)) (\<lambda>shape.
      Inr (route_reg.extend route \<lparr>sr_handlerSource = handlerSource, sr_accessPlan = analyze handlerSource,
        sr_shape = shape\<rparr>)))"

definition applicable :: "'g compiled_mw list \<Rightarrow> string \<Rightarrow> 'g compiled_mw list" where
  "applicable middlewares path = filter (\<lambda>m. pathPrefixMatches (mr_pathPrefix m) path) middlewares"

definition compileRouteDispatch ::
  "'g shaped_route \<Rightarrow> 'g compiled_mw list \<Rightarrow> access_plan list \<Rightarrow> bool \<Rightarrow> 'g compiled_route" where
  "compileRouteDispatch route middlewares errorHandlerPlans optCache =
     (let applicableMiddlewares = applicable middlewares (rr_path route);
          requestPlan = mergeRequestAccessPlans (map Some
            (sr_accessPlan route # map cm_accessPlan applicableMiddlewares @ errorHandlerPlans)) in
      shaped_route.extend route
        \<lparr>cr_applicable = applicableMiddlewares, cr_requestPlan = requestPlan,
         cr_jsonFastPath = (if pl_jsonFastPath (sr_accessPlan route) = JFallback
           then pl_jsonFastPath requestPlan else pl_jsonFastPath (sr_accessPlan route)),
         cr_runtimeResponseCache = createRouteResponseCache (rr_staticResponse route \<noteq> None)
           (rr_method route) (rr_path route) (sr_handlerSource route) (length applicableMiddlewares)
           requestPlan optCache\<rparr>)"

definition ERROR_HANDLER_PLAN :: access_plan where
  "ERROR_HANDLER_PLAN = createEmptyAccessPlan\<lparr>pl_method := True, pl_path := True, pl_url := True\<rparr>"

definition buildRouteCacheNamespace :: "'g compiled_route \<Rightarrow> string" where
  "buildRouteCacheNamespace route =
     (let h1 = fnv1aString (fnv1aString (fnv1aString (fnv_seed 0x811c9dc5) (rr_method route)) (rr_path route))
            (sr_handlerSource route);
          h2 = foldl (\<lambda>h m. fnv1aString (fnv1aString h (mr_pathPrefix m)) (cm_handlerSource m)) h1 (cr_applicable route);
          h3 = (case rr_cache route of
              None \<Rightarrow> h2
            | Some cache \<Rightarrow> foldl fnv1aString
                (fnv1aString (fnv1aString h2 (num_text (given (co_ttl cache) (Fin 60))))
                  (num_text (given (co_maxEntries cache) (Fin 256))))
                (given (co_varyBy cache) [])) in
      ''route:'' @ fnv1aFinish h3)"

section \<open>The manifest\<close>

definition vary_json :: "string \<Rightarrow> json" where
  "vary_json key =
     (case indexOf key ''.'' of
        Some i \<Rightarrow> JObj [(''source'', JStr (take i key)), (''name'', JStr (drop (i + 1) key))]
      | None \<Rightarrow> JObj [(''source'', JStr ''query''), (''name'', JStr key)])"

definition normalizeManifestCache :: "cache_options option \<Rightarrow> json" where
  "normalizeManifestCache cache =
     (case cache of
        None \<Rightarrow> JNull
      | Some c \<Rightarrow> JObj
          [(''ttlSecs'', num_json (num_or (given (co_ttl c) NaN) (Fin 60))),
           (''maxEntries'', num_json (num_or (given (co_maxEntries c) NaN) (Fin 256))),
           (''varyBy'', JArr (map vary_json (given (co_varyBy c) [])))])"

text \<open>\<open>/\\bneedle\\b/\<close> for a needle that begins and ends with a word character.\<close>

fun word_occurs :: "string \<Rightarrow> bool \<Rightarrow> string \<Rightarrow> bool" where
  "word_occurs needle after_word [] = False"
| "word_occurs needle after_word (c # s) =
     (\<not> after_word \<and> startsWith (c # s) needle
        \<and> (case drop (length needle) (c # s) of d # _ \<Rightarrow> \<not> is_word d | [] \<Rightarrow> True)
      \<or> word_occurs needle (is_word c) s)"

definition needs_session :: "string \<Rightarrow> bool" where
  "needs_session source \<longleftrightarrow>
     word_occurs ''req.session'' False source \<or> word_occurs ''req.sessionId'' False source"

definition strings_json :: "string list \<Rightarrow> json" where
  "strings_json xs = JArr (map JStr xs)"

definition nat_json :: "nat \<Rightarrow> json" where
  "nat_json n = JNum (int n)"

definition headers_json :: "(string \<times> string) list \<Rightarrow> json" where
  "headers_json hs = JObj (map (\<lambda>(k, v). (k, JStr v)) hs)"

definition manifest_route :: "'g compiled_route \<Rightarrow> json" where
  "manifest_route r =
     (let plan = cr_requestPlan r; shape = sr_shape r in
      JObj
       [(''method'', JStr (rr_method r)), (''methodCode'', nat_json (sh_methodCode shape)),
        (''path'', JStr (rr_path r)), (''routeKind'', nat_json (sh_routeKind shape)),
        (''handlerId'', nat_json (rr_handlerId r)), (''cacheNamespace'', JStr (buildRouteCacheNamespace r)),
        (''handlerSource'', JStr (sr_handlerSource r)), (''paramNames'', strings_json (sh_paramNames shape)),
        (''segmentCount'', nat_json (sh_segmentCount shape)),
        (''headerKeys'', strings_json (pl_headerKeys plan)), (''fullHeaders'', JBool (pl_fullHeaders plan)),
        (''needsPath'', JBool (pl_path plan)), (''needsUrl'', JBool (pl_url plan)),
        (''needsQuery'', JBool (pl_fullQuery plan \<or> pl_queryKeys plan \<noteq> [])),
        (''cache'', normalizeManifestCache (rr_cache r)),
        (''needsSession'', JBool (needs_session (sr_handlerSource r))),
        (''staticResponse'', case rr_staticResponse r of
            None \<Rightarrow> JNull
          | Some (status, headers, text) \<Rightarrow> JObj [(''status'', num_json status),
              (''headers'', headers_json headers), (''body'', JStr text)])])"

definition text_json :: "string option \<Rightarrow> json" where
  "text_json t = (case t of None \<Rightarrow> JNull | Some s \<Rightarrow> JStr s)"

definition tls_json :: "tls_config option \<Rightarrow> json" where
  "tls_json tls = (case tls of None \<Rightarrow> JNull
     | Some t \<Rightarrow> JObj [(''cert'', JStr (tl_cert t)), (''key'', JStr (tl_key t)),
         (''ca'', text_json (tl_ca t)), (''passphrase'', text_json (tl_passphrase t))])"

definition server_config_json :: "server_config \<Rightarrow> json" where
  "server_config_json c = JObj
     [(''defaultHost'', JStr (sv_defaultHost c)), (''defaultBacklog'', num_json (sv_defaultBacklog c)),
      (''maxHeaderBytes'', num_json (sv_maxHeaderBytes c)), (''hotGetRootHttp11'', JStr (sv_hotGetRootHttp11 c)),
      (''hotGetRootHttp10'', JStr (sv_hotGetRootHttp10 c)),
      (''headerConnectionPrefix'', JStr (sv_headerConnectionPrefix c)),
      (''headerContentLengthPrefix'', JStr (sv_headerContentLengthPrefix c)),
      (''headerTransferEncodingPrefix'', JStr (sv_headerTransferEncodingPrefix c)),
      (''tls'', tls_json (sv_tls c))]"

text \<open>A member that is undefined is left out by \<open>JSON.stringify\<close>.\<close>

definition pick :: "(string \<times> string) list \<Rightarrow> (string \<times> json) list \<Rightarrow> (string \<times> json) list" where
  "pick names config = concat (map (\<lambda>(name, key).
     case map_of config key of Some v \<Rightarrow> [(name, v)] | None \<Rightarrow> []) names)"

definition session_members :: "(string \<times> string) list" where
  "session_members = [(''secret'', ''secret''), (''maxAgeSecs'', ''maxAge''), (''cookieName'', ''cookieName''),
     (''httpOnly'', ''httpOnly''), (''secure'', ''secure''), (''sameSite'', ''sameSite''), (''path'', ''path''),
     (''maxSessions'', ''maxSessions''), (''maxDataSize'', ''maxDataSize'')]"

definition compression_members :: "(string \<times> string) list" where
  "compression_members = [(''minSize'', ''minSize''), (''brotliQuality'', ''brotliQuality''),
     (''gzipLevel'', ''gzipLevel''), (''qualityMap'', ''qualityMap'')]"

definition first_config :: "('g mw_func \<Rightarrow> (string \<times> json) list option) \<Rightarrow> 'g mw_reg list \<Rightarrow> (string \<times> json) list option" where
  "first_config config ms = Option.bind (find (\<lambda>m. config (mr_handler m) \<noteq> None) ms) (config \<circ> mr_handler)"

definition build_manifest ::
  "'g application \<Rightarrow> server_config \<Rightarrow> tls_config option \<Rightarrow> 'g compiled_mw list \<Rightarrow> 'g compiled_route list \<Rightarrow> json" where
  "build_manifest app serverConfig tls middlewares routes = JObj (
     [(''version'', JNum 1), (''serverConfig'', server_config_json serverConfig),
      (''middlewares'', JArr (map (\<lambda>m. JObj [(''pathPrefix'', JStr (mr_pathPrefix m))]) middlewares)),
      (''routes'', JArr (map manifest_route routes)),
      (''wsRoutes'', JArr (map (\<lambda>w. JObj [(''path'', JStr (wr_path w)), (''handlerId'', nat_json (wr_handlerId w))])
         (an_wsRoutes app)))]
     @ (case tls of None \<Rightarrow> []
        | Some t \<Rightarrow> [(''tls'', JObj ([(''cert'', JStr (tl_cert t)), (''key'', JStr (tl_key t)), (''ca'', text_json (tl_ca t))]
            @ (if truthy_str (tl_passphrase t) then [(''passphrase'', JStr ''[REDACTED]'')] else [])))])
     @ (case first_config mf_sessionConfig (an_middlewares app) of None \<Rightarrow> []
        | Some cfg \<Rightarrow> [(''session'', JObj (pick session_members cfg))])
     @ (case first_config mf_compressionConfig (an_middlewares app) of None \<Rightarrow> []
        | Some cfg \<Rightarrow> [(''compression'', JObj ((''enabled'', JBool True) # pick compression_members cfg))]))"

section \<open>The compiled application\<close>

record 'g compiled_app =
  ca_routes :: "'g compiled_route list"
  ca_middlewares :: "'g compiled_mw list"
  ca_errorHandlers :: "(error_value \<Rightarrow> 'g handler) list"
  ca_wsRoutes :: "ws_reg list"
  ca_manifestJson :: string

fun all_ok :: "('e + 'a) list \<Rightarrow> 'e + 'a list" where
  "all_ok [] = Inr []"
| "all_ok (x # xs) = ebind x (\<lambda>a. ebind (all_ok xs) (\<lambda>as. Inr (a # as)))"

definition static_conflict :: "'g compiled_mw list \<Rightarrow> 'g shaped_route \<Rightarrow> bool" where
  "static_conflict middlewares route \<longleftrightarrow> rr_staticResponse route \<noteq> None
     \<and> list_ex (\<lambda>m. pathPrefixMatches (mr_pathPrefix m) (rr_path route)) middlewares"

definition buildCompiledApplication ::
  "(string \<Rightarrow> access_plan) \<Rightarrow> ('g func \<Rightarrow> mock_request \<Rightarrow> mock_run) \<Rightarrow> server_config \<Rightarrow> tls_config option \<Rightarrow> bool
    \<Rightarrow> 'g application \<Rightarrow> reg_error + 'g compiled_app" where
  "buildCompiledApplication analyze runMock serverConfig tls optCache app =
     (let middlewares = map (compileMiddlewareRegistration analyze) (an_middlewares app);
          errorHandlerPlans = map (\<lambda>_. ERROR_HANDLER_PLAN) (an_errorHandlers app) in
      ebind (all_ok (map (shape_route analyze runMock) (an_routes app))) (\<lambda>routes.
      case find (static_conflict middlewares) routes of
        Some route \<Rightarrow> Inl (Fault (''app.static('' @ json_quote (rr_path route)
          @ '') cannot be used with applicable middleware''))
      | None \<Rightarrow>
          let compiledRoutes = map (\<lambda>r. compileRouteDispatch r middlewares errorHandlerPlans optCache) routes in
          Inr \<lparr>ca_routes = compiledRoutes, ca_middlewares = middlewares,
               ca_errorHandlers = an_errorHandlers app, ca_wsRoutes = an_wsRoutes app,
               ca_manifestJson = stringify (build_manifest app serverConfig tls middlewares compiledRoutes)\<rparr>))"

text \<open>All modes that \<open>compileRouteDispatch\<close> chooses between serialise with \<open>JSON.stringify\<close>.\<close>

definition dispatch_route :: "'g compiled_route \<Rightarrow> 'g route" where
  "dispatch_route r =
     \<lparr>rt_handlerId = rr_handlerId r, rt_middlewares = map (mf_middleware \<circ> mr_handler) (cr_applicable r),
      rt_handler = fn_handler (rr_handler r), rt_plan = cr_requestPlan r,
      rt_paramNames = sh_paramNames (sr_shape r), rt_method = rr_method r,
      rt_serializer = default_serializer\<rparr>"

definition buildDispatchState :: "bool \<Rightarrow> (nat \<Rightarrow> byte list) \<Rightarrow> 'g compiled_app \<Rightarrow> 'g app" where
  "buildDispatchState production alloc snapshot =
     \<lparr>ap_routes = map dispatch_route (ca_routes snapshot), ap_errorHandlers = ca_errorHandlers snapshot,
      ap_production = production, ap_alloc = alloc\<rparr>"

section \<open>What compilation keeps\<close>

lemma all_ok_iff: "all_ok (map f xs) = Inr ys \<longleftrightarrow> list_all2 (\<lambda>x y. f x = Inr y) xs ys"
  by (induction xs arbitrary: ys) (auto simp: ebind_eq_Inr list_all2_Cons1)

lemma shape_route_fields:
  assumes "shape_route analyze runMock r = Inr y"
  shows "rr_handlerId y = rr_handlerId r" "rr_method y = rr_method r" "rr_path y = rr_path r"
    "rr_handler y = rr_handler r" "rr_staticResponse y = rr_staticResponse r" "rr_cache y = rr_cache r"
    "compileRouteShape (rr_method r) (rr_path r) = Inr (sr_shape y)"
    "sr_accessPlan y = analyze (sr_handlerSource y)"
  using assms by (auto simp: shape_route_def Let_def ebind_eq_Inr route_reg.defs)

lemma dispatch_fields [simp]:
  "rr_handlerId (compileRouteDispatch y ms ps b) = rr_handlerId y"
  "rr_handler (compileRouteDispatch y ms ps b) = rr_handler y"
  "rr_method (compileRouteDispatch y ms ps b) = rr_method y"
  "rr_path (compileRouteDispatch y ms ps b) = rr_path y"
  "sr_shape (compileRouteDispatch y ms ps b) = sr_shape y"
  "sr_handlerSource (compileRouteDispatch y ms ps b) = sr_handlerSource y"
  "cr_applicable (compileRouteDispatch y ms ps b) = applicable ms (rr_path y)"
  by (simp_all add: compileRouteDispatch_def Let_def shaped_route.defs)

lemma middleware_fields [simp]:
  "mr_pathPrefix (compileMiddlewareRegistration analyze m) = mr_pathPrefix m"
  "mr_handler (compileMiddlewareRegistration analyze m) = mr_handler m"
  "cm_accessPlan (compileMiddlewareRegistration analyze m) = analyze (mf_source (mr_handler m))"
  by (simp_all add: compileMiddlewareRegistration_def Let_def mw_reg.defs)

lemma applicable_compiled:
  "applicable (map (compileMiddlewareRegistration analyze) ms) path
    = map (compileMiddlewareRegistration analyze) (filter (\<lambda>m. pathPrefixMatches (mr_pathPrefix m) path) ms)"
  by (simp add: applicable_def filter_map comp_def)

lemma built_routes:
  assumes "buildCompiledApplication analyze runMock cfg tls optCache app = Inr c"
  obtains shaped where
    "list_all2 (\<lambda>r y. shape_route analyze runMock r = Inr y) (an_routes app) shaped"
    "ca_routes c = map (\<lambda>y. compileRouteDispatch y (map (compileMiddlewareRegistration analyze) (an_middlewares app))
        (map (\<lambda>_. ERROR_HANDLER_PLAN) (an_errorHandlers app)) optCache) shaped"
    "\<forall>y\<in>set shaped. \<not> static_conflict (map (compileMiddlewareRegistration analyze) (an_middlewares app)) y"
    "ca_errorHandlers c = an_errorHandlers app"
  using assms
  by (auto simp: buildCompiledApplication_def Let_def ebind_eq_Inr all_ok_iff find_None_iff split: option.splits)

lemma find_by_id: "distinct (map f xs) \<Longrightarrow> x \<in> set xs \<Longrightarrow> find (\<lambda>y. f y = f x) xs = Some x"
  by (induction xs) (auto simp: image_iff)

lemma shape_params:
  "compileRouteShape meth path = Inr sh \<Longrightarrow>
    sh_paramNames sh = map tl (filter (\<lambda>s. startsWith s '':'') (path_segments path))"
  by (auto simp: compileRouteShape_def Let_def split: option.splits)

lemma list_all2_sides:
  "list_all2 R xs ys \<Longrightarrow> (\<forall>x\<in>set xs. \<exists>y\<in>set ys. R x y) \<and> (\<forall>y\<in>set ys. \<exists>x\<in>set xs. R x y)"
  by (induction rule: list_all2_induct) auto

lemma choose_all: "(\<And>x. x \<in> set xs \<Longrightarrow> \<exists>y. R x y) \<Longrightarrow> \<exists>ys. list_all2 R xs ys"
  by (induction xs) (fastforce simp: list_all2_Cons1)+

lemma built_route:
  assumes "app_ok app" "buildCompiledApplication analyze runMock cfg tls optCache app = Inr c" "r \<in> set (an_routes app)"
  obtains y where "shape_route analyze runMock r = Inr y"
    "find_route (buildDispatchState production alloc c) (rr_handlerId r)
      = Some (dispatch_route (compileRouteDispatch y (map (compileMiddlewareRegistration analyze) (an_middlewares app))
          (map (\<lambda>_. ERROR_HANDLER_PLAN) (an_errorHandlers app)) optCache))"
proof -
  from assms(2) obtain shaped where
    l: "list_all2 (\<lambda>r y. shape_route analyze runMock r = Inr y) (an_routes app) shaped" and
    c: "ca_routes c = map (\<lambda>y. compileRouteDispatch y (map (compileMiddlewareRegistration analyze) (an_middlewares app))
        (map (\<lambda>_. ERROR_HANDLER_PLAN) (an_errorHandlers app)) optCache) shaped"
    by (rule built_routes)
  define g where "g y = dispatch_route (compileRouteDispatch y
      (map (compileMiddlewareRegistration analyze) (an_middlewares app))
      (map (\<lambda>_. ERROR_HANDLER_PLAN) (an_errorHandlers app)) optCache)" for y
  have g_id: "rt_handlerId (g y) = rr_handlerId y" for y by (simp add: g_def dispatch_route_def)
  have ids: "map rr_handlerId shaped = map rr_handlerId (an_routes app)"
    using l by (induction rule: list_all2_induct) (auto dest: shape_route_fields(1))
  from l assms(3) obtain y where y: "y \<in> set shaped" "shape_route analyze runMock r = Inr y"
    by (induction rule: list_all2_induct) auto
  have table: "ap_routes (buildDispatchState production alloc c) = map g shaped"
    by (simp add: buildDispatchState_def c g_def)
  have "distinct (map rt_handlerId (rev (map g shaped)))"
    using assms(1) ids by (simp add: comp_def g_id app_ok_def handler_ids_def flip: rev_map)
  from find_by_id [OF this, of "g y"] y(1) have
    "find (\<lambda>x. rt_handlerId x = rr_handlerId r) (rev (map g shaped)) = Some (g y)"
    using shape_route_fields(1) [OF y(2)] by (simp add: g_id)
  then have "find_route (buildDispatchState production alloc c) (rr_handlerId r) = Some (g y)"
    by (simp only: find_route_def table)
  then show ?thesis using that [OF y(2)] by (simp add: g_def)
qed

lemma static_check:
  assumes "list_all (\<lambda>r. rr_method r \<in> set HTTP_METHODS) (an_routes app)"
  shows "case buildCompiledApplication analyze runMock cfg tls optCache app of
      Inr c \<Rightarrow> \<forall>r\<in>set (an_routes app). \<forall>m\<in>set (an_middlewares app).
        rr_staticResponse r \<noteq> None \<longrightarrow> \<not> pathPrefixMatches (mr_pathPrefix m) (rr_path r)
    | Inl e \<Rightarrow> \<exists>r\<in>set (an_routes app). \<exists>m\<in>set (an_middlewares app).
        rr_staticResponse r \<noteq> None \<and> pathPrefixMatches (mr_pathPrefix m) (rr_path r)"
proof -
  let ?ms = "map (compileMiddlewareRegistration analyze) (an_middlewares app)"
  have conflict: "static_conflict ?ms y \<longleftrightarrow> rr_staticResponse r \<noteq> None
      \<and> (\<exists>m\<in>set (an_middlewares app). pathPrefixMatches (mr_pathPrefix m) (rr_path r))"
    if "shape_route analyze runMock r = Inr y" for r y
    using shape_route_fields(3,5) [OF that] by (auto simp: static_conflict_def list_ex_iff)
  have "\<exists>y. shape_route analyze runMock r = Inr y" if "r \<in> set (an_routes app)" for r
  proof -
    have "rr_method r \<in> set HTTP_METHODS" using assms that by (simp add: list_all_iff)
    then have "map_of METHOD_CODES (rr_method r) \<noteq> None"
      by (auto simp: HTTP_METHODS_def METHOD_CODES_def)
    then show ?thesis by (auto simp: shape_route_def compileRouteShape_def Let_def ebind_eq_Inr)
  qed
  then obtain shaped where l: "list_all2 (\<lambda>r y. shape_route analyze runMock r = Inr y) (an_routes app) shaped"
    using choose_all [of "an_routes app" "\<lambda>r y. shape_route analyze runMock r = Inr y"] by metis
  then have a: "all_ok (map (shape_route analyze runMock) (an_routes app)) = Inr shaped" by (simp add: all_ok_iff)
  note sides = list_all2_sides [OF l]
  show ?thesis
  proof (cases "find (static_conflict ?ms) shaped")
    case None
    have "\<not> pathPrefixMatches (mr_pathPrefix m) (rr_path r)"
      if "r \<in> set (an_routes app)" "m \<in> set (an_middlewares app)" "rr_staticResponse r \<noteq> None" for r m
    proof -
      obtain y where "y \<in> set shaped" "shape_route analyze runMock r = Inr y" using sides \<open>r \<in> _\<close> by blast
      then show ?thesis using conflict that None by (auto simp: find_None_iff)
    qed
    then show ?thesis using a None by (simp add: buildCompiledApplication_def Let_def)
  next
    case (Some y)
    then have y: "y \<in> set shaped" "static_conflict ?ms y" by (auto simp: find_Some_iff)
    then obtain r where "r \<in> set (an_routes app)" "shape_route analyze runMock r = Inr y" using sides by blast
    with y(2) conflict show ?thesis using a Some
      by (auto simp: buildCompiledApplication_def Let_def)
  qed
qed

section \<open>Properties\<close>

text \<open>Compilation connects every registered route with the dispatcher: under its handler id the dispatcher
  finds its handler and method, the parameter names of its path, and exactly the middlewares whose
  prefix matches its path, in the order of their registration.\<close>

theorem compiled_route_is_dispatched:
  assumes "app_ok app" "buildCompiledApplication analyze runMock cfg tls optCache app = Inr c" "r \<in> set (an_routes app)"
  shows "\<exists>rt. find_route (buildDispatchState production alloc c) (rr_handlerId r) = Some rt
    \<and> rt_handler rt = fn_handler (rr_handler r) \<and> rt_method rt = rr_method r
    \<and> rt_paramNames rt = map tl (filter (\<lambda>s. startsWith s '':'') (path_segments (rr_path r)))
    \<and> rt_middlewares rt = map (mf_middleware \<circ> mr_handler)
        (filter (\<lambda>m. pathPrefixMatches (mr_pathPrefix m) (rr_path r)) (an_middlewares app))"
proof -
  obtain y where y: "shape_route analyze runMock r = Inr y"
    and f: "find_route (buildDispatchState production alloc c) (rr_handlerId r)
      = Some (dispatch_route (compileRouteDispatch y (map (compileMiddlewareRegistration analyze) (an_middlewares app))
          (map (\<lambda>_. ERROR_HANDLER_PLAN) (an_errorHandlers app)) optCache))"
    by (rule built_route [OF assms])
  note fs = shape_route_fields [OF y]
  have "sh_paramNames (sr_shape y) = map tl (filter (\<lambda>s. startsWith s '':'') (path_segments (rr_path r)))"
    by (rule shape_params [OF fs(7)])
  then show ?thesis
    using f fs(2-4) by (simp add: dispatch_route_def applicable_compiled comp_def)
qed

text \<open>C13: The plan a request is built with covers the handler, every middleware that runs before it and, if there
  are error handlers, method, path and URL: it is above the plan of each of their sources.\<close>

theorem request_plan_covers_chain:
  assumes "app_ok app" "buildCompiledApplication analyze runMock cfg tls optCache app = Inr c" "r \<in> set (an_routes app)"
  shows "\<exists>rt y. find_route (buildDispatchState production alloc c) (rr_handlerId r) = Some rt
    \<and> shape_route analyze runMock r = Inr y \<and> plan_le (analyze (sr_handlerSource y)) (rt_plan rt)
    \<and> (\<forall>m\<in>set (an_middlewares app). pathPrefixMatches (mr_pathPrefix m) (rr_path r)
         \<longrightarrow> plan_le (analyze (mf_source (mr_handler m))) (rt_plan rt))
    \<and> (an_errorHandlers app \<noteq> [] \<longrightarrow> covers (rt_plan rt) DMethod \<and> covers (rt_plan rt) DPath \<and> covers (rt_plan rt) DUrl)"
proof -
  let ?ms = "map (compileMiddlewareRegistration analyze) (an_middlewares app)"
  let ?es = "map (\<lambda>_. ERROR_HANDLER_PLAN) (an_errorHandlers app)"
  obtain y where y: "shape_route analyze runMock r = Inr y"
    and f: "find_route (buildDispatchState production alloc c) (rr_handlerId r)
      = Some (dispatch_route (compileRouteDispatch y ?ms ?es optCache))"
    by (rule built_route [OF assms])
  note fs = shape_route_fields [OF y]
  let ?plans = "map Some (sr_accessPlan y # map cm_accessPlan (applicable ?ms (rr_path y)) @ ?es)"
  have p: "rt_plan (dispatch_route (compileRouteDispatch y ?ms ?es optCache)) = mergeRequestAccessPlans ?plans"
    by (simp add: dispatch_route_def compileRouteDispatch_def Let_def shaped_route.defs)
  have 1: "plan_le (analyze (sr_handlerSource y)) (mergeRequestAccessPlans ?plans)"
    using fs(8) by (intro merge_upper) simp
  have 2: "plan_le (analyze (mf_source (mr_handler m))) (mergeRequestAccessPlans ?plans)"
    if "m \<in> set (an_middlewares app)" "pathPrefixMatches (mr_pathPrefix m) (rr_path r)" for m
    using that fs(3) by (intro merge_upper) (auto simp: applicable_def image_iff)
  have 3: "plan_le ERROR_HANDLER_PLAN (mergeRequestAccessPlans ?plans)" if "an_errorHandlers app \<noteq> []"
    using that by (intro merge_upper) (cases "an_errorHandlers app", auto)
  have 4: "covers (mergeRequestAccessPlans ?plans) d" if "an_errorHandlers app \<noteq> []" "d \<in> {DMethod, DPath, DUrl}" for d
    using that(2) by (intro covers_mono [OF _ 3 [OF that(1)]]) (auto simp: covers_def ERROR_HANDLER_PLAN_def)
  show ?thesis
    by (intro exI conjI ballI impI) (rule f, rule y, unfold p, rule 1, rule 2, assumption+, (rule 4, assumption, simp)+)
qed

text \<open>A static page never skips a middleware: an application compiles exactly if no middleware has a prefix that
  matches the path of a static route.\<close>

theorem static_routes_have_no_middleware:
  assumes "list_all (\<lambda>r. rr_method r \<in> set HTTP_METHODS) (an_routes app)"
  shows "(\<exists>c. buildCompiledApplication analyze runMock cfg tls optCache app = Inr c) \<longleftrightarrow>
    (\<forall>r\<in>set (an_routes app). \<forall>m\<in>set (an_middlewares app).
       rr_staticResponse r \<noteq> None \<longrightarrow> \<not> pathPrefixMatches (mr_pathPrefix m) (rr_path r))"
  using static_check [OF assms, of analyze runMock cfg tls optCache] by (auto split: sum.splits)

section \<open>An application\<close>

definition reading_func :: "nat func" where
  "reading_func = \<lparr>fn_source = ''req => req.params.id'', fn_handler = \<lparr>h_async = False, h_body = Return\<rparr>\<rparr>"

definition quiet_mw :: "nat mw_func" where
  "quiet_mw = \<lparr>mf_source = ''(req, res) => {}'',
     mf_middleware = \<lparr>needsNext = False, isAsync = False, body = Return\<rparr>,
     mf_sessionConfig = None, mf_compressionConfig = None\<rparr>"

definition demo_program :: "nat command list" where
  "demo_program =
     [Static ''/about'' (Some ''About'') None None, Use (Some ''/api'') (Some quiet_mw), Use (Some ''/apix'') (Some quiet_mw),
      Group ''/api'' (Some [Route ''GET'' ''/users/:id'' no_options (Some reading_func) None]),
      OnError (Some (\<lambda>e. \<lparr>h_async = False, h_body = Return\<rparr>))]"

definition demo_application :: "nat application" where
  "demo_application = snd (run_commands demo_program createApp)"

definition demo_analyze :: "string \<Rightarrow> access_plan" where
  "demo_analyze source = (if contains source ''req.params.id''
     then createEmptyAccessPlan\<lparr>pl_paramKeys := [''id'']\<rparr> else createEmptyAccessPlan)"

definition no_mock :: "nat func \<Rightarrow> mock_request \<Rightarrow> mock_run" where
  "no_mock f m = \<lparr>mu_calls = [], mu_throws = True, mu_promise = False\<rparr>"

lemma demo_registrations:
  "map (\<lambda>r. (rr_method r, rr_path r, rr_handlerId r, rr_staticResponse r = None)) (an_routes demo_application)
     = [(''GET'', ''/about'', 1, False), (''GET'', ''/api/users/:id'', 2, True)]
   \<and> map mr_pathPrefix (an_middlewares demo_application) = [''/api'', ''/apix'']"
  by code_simp

lemma demo_ok: "app_ok demo_application"
  unfolding demo_application_def by (rule program_ok(2) [OF createApp_ok])

lemma demo_route_list:
  obtains r1 r2 m1 m2 where "an_routes demo_application = [r1, r2]" "an_middlewares demo_application = [m1, m2]"
    "rr_path r1 = ''/about''" "rr_path r2 = ''/api/users/:id''" "rr_staticResponse r2 = None" "rr_handlerId r2 = 2"
    "mr_pathPrefix m1 = ''/api''" "mr_pathPrefix m2 = ''/apix''" "rr_method r1 = ''GET''" "rr_method r2 = ''GET''"
  using demo_registrations by (auto simp: map_eq_Cons_conv)

lemma demo_prefixes:
  "pathPrefixMatches ''/api'' ''/api/users/:id''" "\<not> pathPrefixMatches ''/apix'' ''/api/users/:id''"
  "\<not> pathPrefixMatches ''/api'' ''/about''" "\<not> pathPrefixMatches ''/apix'' ''/about''"
  by (simp_all add: pathPrefixMatches_def startsWith_def)

lemma demo_methods: "list_all (\<lambda>r. rr_method r \<in> set HTTP_METHODS) (an_routes demo_application)"
  by (rule demo_route_list) (simp add: HTTP_METHODS_def)

lemma demo_compiles: "\<exists>c. buildCompiledApplication demo_analyze no_mock httpServerConfig None False demo_application = Inr c"
proof (rule demo_route_list)
  fix r1 r2 m1 m2
  assume a: "an_routes demo_application = [r1, r2]" "an_middlewares demo_application = [m1, m2]"
    "rr_path r1 = ''/about''" "rr_path r2 = ''/api/users/:id''" "rr_staticResponse r2 = None"
    "mr_pathPrefix m1 = ''/api''" "mr_pathPrefix m2 = ''/apix''"
  show ?thesis
    using static_check [OF demo_methods, of demo_analyze no_mock httpServerConfig None False] demo_prefixes
    by (auto simp: a split: sum.splits)
qed

theorem static_routes_have_no_middleware_witness:
  "\<exists>c. buildCompiledApplication demo_analyze no_mock httpServerConfig None False demo_application = Inr c"
proof (rule demo_route_list)
  fix r1 r2 m1 m2
  assume a: "an_routes demo_application = [r1, r2]" "an_middlewares demo_application = [m1, m2]"
    "rr_path r1 = ''/about''" "rr_path r2 = ''/api/users/:id''" "rr_staticResponse r2 = None"
    "mr_pathPrefix m1 = ''/api''" "mr_pathPrefix m2 = ''/apix''"
  show ?thesis
    using static_routes_have_no_middleware [OF demo_methods, of demo_analyze no_mock httpServerConfig None False]
      demo_prefixes by (simp add: a)
qed

theorem compiled_route_is_dispatched_witness:
  "\<exists>c rt. buildCompiledApplication demo_analyze no_mock httpServerConfig None False demo_application = Inr c
    \<and> find_route (buildDispatchState True (\<lambda>n. replicate n 0) c) 2 = Some rt
    \<and> rt_method rt = ''GET'' \<and> length (rt_middlewares rt) = 1"
proof (rule demo_route_list)
  fix r1 r2 m1 m2
  assume a: "an_routes demo_application = [r1, r2]" "an_middlewares demo_application = [m1, m2]"
    "rr_path r2 = ''/api/users/:id''" "rr_handlerId r2 = 2"
    "mr_pathPrefix m1 = ''/api''" "mr_pathPrefix m2 = ''/apix''" "rr_method r2 = ''GET''"
  obtain c where c: "buildCompiledApplication demo_analyze no_mock httpServerConfig None False demo_application = Inr c"
    using demo_compiles by blast
  from compiled_route_is_dispatched [OF demo_ok c, of r2 True "\<lambda>n. replicate n 0"] c show ?thesis
    by (auto simp: a demo_prefixes)
qed

theorem request_plan_covers_chain_witness:
  "\<exists>c rt. buildCompiledApplication demo_analyze no_mock httpServerConfig None False demo_application = Inr c
    \<and> find_route (buildDispatchState True (\<lambda>n. replicate n 0) c) 2 = Some rt \<and> covers (rt_plan rt) DUrl"
proof (rule demo_route_list)
  fix r1 r2 m1 m2
  assume a: "an_routes demo_application = [r1, r2]" "rr_handlerId r2 = 2"
  obtain c where c: "buildCompiledApplication demo_analyze no_mock httpServerConfig None False demo_application = Inr c"
    using demo_compiles by blast
  have e: "an_errorHandlers demo_application \<noteq> []"
  proof -
    have "length (an_errorHandlers demo_application) = 1" by code_simp
    then show ?thesis by auto
  qed
  from request_plan_covers_chain [OF demo_ok c, of r2 True "\<lambda>n. replicate n 0"] c e show ?thesis
    by (auto simp: a)
qed

text \<open>The passphrase that the manifest redacts among the TLS members stands in the server configuration beside it.\<close>

lemma passphrase_is_in_the_manifest:
  assumes "sv_tls cfg = Some t" "tl_passphrase t = Some p"
  shows "\<exists>ms cs ts. build_manifest app cfg (sv_tls cfg) middlewares routes = JObj ms
    \<and> map_of ms ''serverConfig'' = Some (JObj cs) \<and> map_of cs ''tls'' = Some (JObj ts)
    \<and> map_of ts ''passphrase'' = Some (JStr p)"
  using assms by (auto simp: build_manifest_def server_config_json_def tls_json_def text_json_def)

end
