(* ===== verification/Server.thy ===== *)
theory Server
  imports Config "HOL-Library.Multiset"
begin

text \<open>
  From \<open>listen()\<close> to a running server, in \<open>src/src/index.js\<close>: the options with their defaults, the chainable
  handle that starts the server at most once, and the life of the server handle: exchanging the
  compiled application while it runs, closing and shutting down.  The native server is a parameter:
  whether its \<open>reload\<close> and \<open>close\<close> succeed, and what its \<open>shutdown\<close> reports.
\<close>

section \<open>Options\<close>

record run_options =
  ru_notify :: "bool option"
  ru_notifyIntervalMs :: "jnum option"
  ru_cache :: "bool option"
  ru_hotReload :: "bool option"
  ru_hotReloadPaths :: "string list option"
  ru_hotReloadDebounceMs :: "jnum option"
  ru_devComments :: "bool option"
  ru_timing :: "bool option"
  ru_http3 :: "bool option"

definition no_run_options :: run_options where
  "no_run_options = \<lparr>ru_notify = None, ru_notifyIntervalMs = None, ru_cache = None, ru_hotReload = None,
     ru_hotReloadPaths = None, ru_hotReloadDebounceMs = None, ru_devComments = None, ru_timing = None,
     ru_http3 = None\<rparr>"

record listen_options =
  li_host :: "string option"
  li_port :: "jnum option"
  li_backlog :: "jnum option"
  li_serverConfig :: server_overrides
  li_opt :: "run_options option"

text \<open>\<open>createApp({ server, tls, dev })\<close>.\<close>

record app_config =
  ac_host :: "string option"
  ac_port :: "jnum option"
  ac_backlog :: "jnum option"
  ac_maxHeaderBytes :: "jnum option"
  ac_tls :: "tls_input option"
  ac_dev :: run_options
  ac_logger :: "bool option"

definition over :: "'a option \<Rightarrow> 'a option \<Rightarrow> 'a option" where
  "over x y = (case x of Some v \<Rightarrow> Some v | None \<Rightarrow> y)"

definition appListenDefaults :: "app_config \<Rightarrow> listen_options" where
  "appListenDefaults c =
     \<lparr>li_host = ac_host c, li_port = ac_port c, li_backlog = ac_backlog c,
      li_serverConfig = \<lparr>ov_defaultHost = None, ov_defaultBacklog = None, ov_maxHeaderBytes = ac_maxHeaderBytes c,
        ov_hotGetRootHttp11 = None, ov_hotGetRootHttp10 = None, ov_headerConnectionPrefix = None,
        ov_headerContentLengthPrefix = None, ov_headerTransferEncodingPrefix = None, ov_tls = Some (ac_tls c)\<rparr>,
      li_opt = Some (no_run_options
        \<lparr>ru_hotReload := ru_hotReload (ac_dev c), ru_hotReloadPaths := ru_hotReloadPaths (ac_dev c),
         ru_hotReloadDebounceMs := ru_hotReloadDebounceMs (ac_dev c), ru_devComments := ru_devComments (ac_dev c),
         ru_notify := over (ac_logger c) (ru_notify (ac_dev c)), ru_timing := ru_timing (ac_dev c),
         ru_cache := ru_cache (ac_dev c)\<rparr>)\<rparr>"

definition spread_run :: "run_options \<Rightarrow> run_options \<Rightarrow> run_options" where
  "spread_run a b =
     \<lparr>ru_notify = over (ru_notify b) (ru_notify a), ru_notifyIntervalMs = over (ru_notifyIntervalMs b) (ru_notifyIntervalMs a),
      ru_cache = over (ru_cache b) (ru_cache a), ru_hotReload = over (ru_hotReload b) (ru_hotReload a),
      ru_hotReloadPaths = over (ru_hotReloadPaths b) (ru_hotReloadPaths a),
      ru_hotReloadDebounceMs = over (ru_hotReloadDebounceMs b) (ru_hotReloadDebounceMs a),
      ru_devComments = over (ru_devComments b) (ru_devComments a), ru_timing = over (ru_timing b) (ru_timing a),
      ru_http3 = over (ru_http3 b) (ru_http3 a)\<rparr>"

definition spread_config :: "server_overrides \<Rightarrow> server_overrides \<Rightarrow> server_overrides" where
  "spread_config a b =
     \<lparr>ov_defaultHost = over (ov_defaultHost b) (ov_defaultHost a),
      ov_defaultBacklog = over (ov_defaultBacklog b) (ov_defaultBacklog a),
      ov_maxHeaderBytes = over (ov_maxHeaderBytes b) (ov_maxHeaderBytes a),
      ov_hotGetRootHttp11 = over (ov_hotGetRootHttp11 b) (ov_hotGetRootHttp11 a),
      ov_hotGetRootHttp10 = over (ov_hotGetRootHttp10 b) (ov_hotGetRootHttp10 a),
      ov_headerConnectionPrefix = over (ov_headerConnectionPrefix b) (ov_headerConnectionPrefix a),
      ov_headerContentLengthPrefix = over (ov_headerContentLengthPrefix b) (ov_headerContentLengthPrefix a),
      ov_headerTransferEncodingPrefix = over (ov_headerTransferEncodingPrefix b) (ov_headerTransferEncodingPrefix a),
      ov_tls = over (ov_tls b) (ov_tls a)\<rparr>"

definition joined_tls :: "server_overrides \<Rightarrow> tls_input option" where
  "joined_tls c = (case ov_tls c of Some t \<Rightarrow> t | None \<Rightarrow> None)"

definition mergeListenOptions :: "listen_options \<Rightarrow> listen_options \<Rightarrow> listen_options" where
  "mergeListenOptions defaults options =
     \<lparr>li_host = over (li_host options) (li_host defaults), li_port = over (li_port options) (li_port defaults),
      li_backlog = over (li_backlog options) (li_backlog defaults),
      li_serverConfig = (spread_config (li_serverConfig defaults) (li_serverConfig options))
        \<lparr>ov_tls := Some (over (joined_tls (li_serverConfig options)) (joined_tls (li_serverConfig defaults)))\<rparr>,
      li_opt = Some (spread_run (given (li_opt defaults) no_run_options) (given (li_opt options) no_run_options))\<rparr>"

record environment =
  ev_hotReload :: bool
  ev_devComments :: bool
  ev_devContext :: bool

record normal_opt =
  no_notify :: bool
  no_notifyIntervalMs :: "jnum option"
  no_cache :: "bool option"
  no_hotReload :: bool
  no_hotReloadPaths :: "string list option"
  no_hotReloadDebounceMs :: "jnum option"
  no_devComments :: bool

record normal_options =
  nl_host :: string
  nl_port :: jnum
  nl_backlog :: jnum
  nl_opt :: normal_opt
  nl_serverConfig :: server_config

text \<open>\<open>ev_hotReload\<close> is \<open>HTTP_NATIVE_HOT_RELOAD === "1"\<close>, \<open>ev_devComments\<close> \<open>HTTP_NATIVE_DEV_COMMENTS !== "0"\<close>,
  \<open>ev_devContext\<close> whether the development server runs the application.\<close>

definition normalizeListenOptions ::
  "(string \<Rightarrow> string + string) \<Rightarrow> environment \<Rightarrow> listen_options \<Rightarrow> string + normal_options" where
  "normalizeListenOptions readFile env options =
     ebind (normalizeHttpServerConfig readFile (li_serverConfig options)) (\<lambda>serverConfig.
     let opt = given (li_opt options) no_run_options;
         normalizedOpt =
           \<lparr>no_notify = given (ru_notify opt) True, no_notifyIntervalMs = ru_notifyIntervalMs opt,
            no_cache = ru_cache opt, no_hotReload = (ru_hotReload opt = Some True \<or> ev_hotReload env),
            no_hotReloadPaths = ru_hotReloadPaths opt, no_hotReloadDebounceMs = ru_hotReloadDebounceMs opt,
            no_devComments = given (ru_devComments opt) (ev_devComments env)\<rparr> in
     Inr \<lparr>nl_host = given (li_host options) (sv_defaultHost serverConfig),
          nl_port = given (li_port options) (Fin 3000),
          nl_backlog = given (li_backlog options) (sv_defaultBacklog serverConfig),
          nl_opt = (if ev_devContext env
            then normalizedOpt\<lparr>no_devComments := False, no_hotReload := False\<rparr> else normalizedOpt),
          nl_serverConfig = serverConfig\<rparr>)"

section \<open>The chainable handle\<close>

text \<open>\<open>promise\<close> is the options the server was started with; the value of a call is the handle itself or
  the promise.\<close>

record chain =
  ch_port :: "jnum option"
  ch_opt :: "run_options option"
  ch_tls :: "tls_input option"
  ch_promise :: "listen_options option"
  ch_starts :: nat
  ch_blocked :: bool

datatype hot_argument = HotOff | HotOn | HotWith "string list option" "jnum option"

datatype listen_call = CallPort jnum | CallOpt | CallHot hot_argument | CallTls "tls_input option"
  | CallHttp3 bool | CallThen

datatype chain_value = TheChain | ThePromise | Throws

definition listen_chain :: "listen_options \<Rightarrow> chain" where
  "listen_chain options =
     \<lparr>ch_port = li_port options, ch_opt = None, ch_tls = joined_tls (li_serverConfig options),
      ch_promise = None, ch_starts = 0, ch_blocked = False\<rparr>"

definition resolveOptions :: "listen_options \<Rightarrow> chain \<Rightarrow> listen_options" where
  "resolveOptions options ch =
     options\<lparr>li_port := over (ch_port ch) (li_port options), li_opt := ch_opt ch,
       li_serverConfig := (li_serverConfig options)\<lparr>ov_tls := Some (ch_tls ch)\<rparr>\<rparr>"

definition hot_options :: "hot_argument \<Rightarrow> run_options \<Rightarrow> run_options" where
  "hot_options arg opt =
     (case arg of
        HotOff \<Rightarrow> opt\<lparr>ru_hotReload := Some False\<rparr>
      | HotOn \<Rightarrow> opt\<lparr>ru_hotReload := Some True\<rparr>
      | HotWith paths ms \<Rightarrow> opt\<lparr>ru_hotReload := Some True, ru_hotReloadPaths := over paths (ru_hotReloadPaths opt),
          ru_hotReloadDebounceMs := over ms (ru_hotReloadDebounceMs opt)\<rparr>)"

definition chain_start :: "listen_options \<Rightarrow> chain \<Rightarrow> chain_value \<times> chain" where
  "chain_start options ch =
     (if ch_blocked ch then (Throws, ch)
      else if ch_promise ch = None
      then (ThePromise, ch\<lparr>ch_promise := Some (resolveOptions options ch), ch_starts := ch_starts ch + 1\<rparr>)
      else (ThePromise, ch))"

definition unless_started :: "(chain \<Rightarrow> chain) \<Rightarrow> chain \<Rightarrow> chain_value \<times> chain" where
  "unless_started f ch = (if ch_promise ch \<noteq> None then (ThePromise, ch) else (TheChain, f ch))"

fun chain_call :: "listen_options \<Rightarrow> listen_call \<Rightarrow> chain \<Rightarrow> chain_value \<times> chain" where
  "chain_call options (CallPort v) ch = unless_started (\<lambda>ch. ch\<lparr>ch_port := Some v\<rparr>) ch"
| "chain_call options CallOpt ch = (Throws, ch\<lparr>ch_blocked := True\<rparr>)"
| "chain_call options (CallHot arg) ch =
     unless_started (\<lambda>ch. ch\<lparr>ch_opt := Some (hot_options arg (given (ch_opt ch) no_run_options))\<rparr>) ch"
| "chain_call options (CallTls t) ch = unless_started (\<lambda>ch. ch\<lparr>ch_tls := t\<rparr>) ch"
| "chain_call options (CallHttp3 b) ch =
     unless_started (\<lambda>ch. ch\<lparr>ch_opt := Some ((given (ch_opt ch) no_run_options)\<lparr>ru_http3 := Some b\<rparr>)\<rparr>) ch"
| "chain_call options CallThen ch = chain_start options ch"

definition chain_run :: "listen_options \<Rightarrow> listen_call list \<Rightarrow> chain \<Rightarrow> chain" where
  "chain_run options calls ch = foldl (\<lambda>ch c. snd (chain_call options c ch)) ch calls"

text \<open>\<open>listen\<close> itself.\<close>

definition app_listen :: "listen_options \<Rightarrow> string + chain" where
  "app_listen options =
     (if li_opt options \<noteq> None
      then Inl (''listen().opt() has been removed. Configure runtime options in createApp({ dev: { ... } }) instead.'')
      else Inr (listen_chain options))"

section \<open>Reload configuration\<close>

datatype reload_argument = ReloadOff | ReloadBad
  | ReloadWith "string list option" "string list option" "jnum option" "bool option"

record reload_config =
  rl_watch :: "string list option"
  rl_debounceMs :: "jnum option"
  rl_clear :: "bool option"

definition normalizeApplicationReloadConfig :: "reload_argument \<Rightarrow> string + reload_config option" where
  "normalizeApplicationReloadConfig arg =
     (case arg of
        ReloadOff \<Rightarrow> Inr None
      | ReloadBad \<Rightarrow> Inl ''app.reload(options) expects an object''
      | ReloadWith w files ms clear \<Rightarrow>
          Inr (Some \<lparr>rl_watch = over w files, rl_debounceMs = ms, rl_clear = clear\<rparr>))"

section \<open>A running server\<close>

text \<open>\<open>'s\<close> are compiled snapshots.  The dispatcher of a server holds the current one and the open
  WebSockets; what is disposed of and which sockets are ended is recorded in order.\<close>

record 's live =
  lv_current :: 's
  lv_native :: 's
  lv_sockets :: "nat list"
  lv_ended :: "nat list"
  lv_disposed :: "'s list"
  lv_closing :: bool
  lv_registered :: bool
  lv_watching :: bool

definition startCompiledServer :: "'s \<Rightarrow> bool \<Rightarrow> 's live" where
  "startCompiledServer snapshot hotReload =
     \<lparr>lv_current = snapshot, lv_native = snapshot, lv_sockets = [], lv_ended = [], lv_disposed = [],
      lv_closing = False, lv_registered = True, lv_watching = hotReload\<rparr>"

definition disposeCompiledSnapshot :: "'s \<Rightarrow> 's live \<Rightarrow> 's live" where
  "disposeCompiledSnapshot snapshot st = st\<lparr>lv_disposed := lv_disposed st @ [snapshot]\<rparr>"

definition dispatch_replace :: "'s \<Rightarrow> 's live \<Rightarrow> 's \<times> 's live" where
  "dispatch_replace next st = (lv_current st, st\<lparr>lv_current := next\<rparr>)"

definition dispatch_restore :: "'s \<Rightarrow> 's live \<Rightarrow> 's live" where
  "dispatch_restore snapshot st = st\<lparr>lv_current := snapshot\<rparr>"

definition closeWebSockets :: "'s live \<Rightarrow> 's live" where
  "closeWebSockets st = st\<lparr>lv_ended := lv_ended st @ lv_sockets st, lv_sockets := []\<rparr>"

definition dispatch_dispose :: "'s live \<Rightarrow> 's live" where
  "dispatch_dispose st = disposeCompiledSnapshot (lv_current st) (closeWebSockets st)"

text \<open>The result is whether the call throws; \<open>nativeOk\<close> says that \<open>nativeHandle.reload\<close> does not.\<close>

definition reloadCompiledSnapshot :: "bool \<Rightarrow> 's \<Rightarrow> 's live \<Rightarrow> bool \<times> 's live" where
  "reloadCompiledSnapshot nativeOk nextSnapshot st =
     (let (previousSnapshot, st1) = dispatch_replace nextSnapshot st;
          st2 = closeWebSockets st1 in
      if nativeOk
      then (False, disposeCompiledSnapshot previousSnapshot (st2\<lparr>lv_native := nextSnapshot\<rparr>))
      else (True, disposeCompiledSnapshot nextSnapshot (dispatch_restore previousSnapshot st2)))"

text \<open>How long the promise of \<open>nativeHandle.close()\<close> takes, if it settles; the result is \<open>completed\<close>, or
  \<open>None\<close> when the promise is rejected before the timeout.\<close>

datatype close_outcome = ClosesAfter nat | RejectsAfter nat | NeverSettles

definition NATIVE_CLOSE_TIMEOUT_MS :: nat where "NATIVE_CLOSE_TIMEOUT_MS = 2500"

definition closeNativeServerHandle :: "close_outcome \<Rightarrow> nat \<Rightarrow> bool option" where
  "closeNativeServerHandle outcome timeoutMs =
     (case outcome of
        ClosesAfter ms \<Rightarrow> Some (ms < timeoutMs)
      | RejectsAfter ms \<Rightarrow> if ms < timeoutMs then None else Some False
      | NeverSettles \<Rightarrow> Some False)"

definition closeServerHandle :: "close_outcome \<Rightarrow> 's live \<Rightarrow> bool option \<times> 's live" where
  "closeServerHandle outcome st =
     (if lv_closing st then (Some True, st)
      else
        let st1 = (dispatch_dispose (st\<lparr>lv_closing := True\<rparr>))\<lparr>lv_registered := False\<rparr> in
        (closeNativeServerHandle outcome NATIVE_CLOSE_TIMEOUT_MS, st1))"

definition server_close :: "close_outcome \<Rightarrow> 's live \<Rightarrow> bool option \<times> 's live" where
  "server_close outcome st = closeServerHandle outcome (st\<lparr>lv_watching := False\<rparr>)"

text \<open>\<open>nativeHandle.shutdown\<close> is synchronous: it has returned, or thrown (\<open>None\<close>), before the timer of the
  race is set, so the race always takes its result.\<close>

definition server_shutdown :: "nat option \<Rightarrow> 's live \<Rightarrow> (bool \<times> nat) \<times> 's live" where
  "server_shutdown native st =
     (let remaining = (case native of Some n \<Rightarrow> n | None \<Rightarrow> 0);
          drained = (remaining = 0) in
      ((drained, remaining), (dispatch_dispose (st\<lparr>lv_watching := False\<rparr>))\<lparr>lv_registered := False\<rparr>))"

datatype 's server_event = Reload bool 's | SocketOpens nat | SocketCloses nat | Close close_outcome

fun server_step :: "'s server_event \<Rightarrow> 's live \<Rightarrow> 's live" where
  "server_step (Reload nativeOk next) st = snd (reloadCompiledSnapshot nativeOk next st)"
| "server_step (SocketOpens i) st = st\<lparr>lv_sockets := lv_sockets st @ (if i \<in> set (lv_sockets st) then [] else [i])\<rparr>"
| "server_step (SocketCloses i) st = st\<lparr>lv_sockets := removeAll i (lv_sockets st)\<rparr>"
| "server_step (Close outcome) st = snd (server_close outcome st)"

definition server_run :: "'s server_event list \<Rightarrow> 's live \<Rightarrow> 's live" where
  "server_run es st = foldl (\<lambda>st e. server_step e st) st es"

fun given_snapshots :: "'s server_event list \<Rightarrow> 's list" where
  "given_snapshots [] = []"
| "given_snapshots (Reload b s # es) = s # given_snapshots es"
| "given_snapshots (e # es) = given_snapshots es"

text \<open>No reload after the server was closed.\<close>

fun closes_last :: "'s server_event list \<Rightarrow> bool" where
  "closes_last [] = True"
| "closes_last (Close c # es) = (given_snapshots es = [] \<and> closes_last es)"
| "closes_last (e # es) = closes_last es"

section \<open>Exchanging what is served\<close>

text \<open>What a client of a running server relies on: an exchange tells whether it was refused, and what is served
  afterwards is the new one exactly if it was not.\<close>

locale exchangeable =
  fixes exchange :: "bool \<Rightarrow> 's \<Rightarrow> 'l \<Rightarrow> bool \<times> 'l" and served :: "'l \<Rightarrow> 's" and stopped :: "'l \<Rightarrow> bool"
  assumes refused: "fst (exchange accepted s l) = (\<not> accepted)"
    and serves: "served (snd (exchange accepted s l)) = (if accepted then s else served l)"
    and runs_on: "stopped (snd (exchange accepted s l)) = stopped l"
begin

lemma exchanged:
  "exchange accepted s l = (r, l') \<Longrightarrow> r = (\<not> accepted) \<and> served l' = (if accepted then s else served l) \<and> stopped l' = stopped l"
  using refused [of accepted s l] serves [of accepted s l] runs_on [of accepted s l] by simp

lemma serves_last_accepted:
  "served (foldl (\<lambda>l (accepted, s). snd (exchange accepted s l)) l xs) = last (served l # map snd (filter fst xs))"
proof (induction xs arbitrary: l)
  case (Cons x xs)
  then show ?case by (cases x) (auto simp: serves)
qed simp

end

interpretation live: exchangeable reloadCompiledSnapshot lv_current lv_closing
  by unfold_locales (simp_all add: reloadCompiledSnapshot_def dispatch_replace_def closeWebSockets_def
      disposeCompiledSnapshot_def dispatch_restore_def Let_def)

section \<open>What every run keeps\<close>

definition live_inv :: "'s list \<Rightarrow> 's live \<Rightarrow> bool" where
  "live_inv handed st \<longleftrightarrow> lv_native st = lv_current st
     \<and> mset (lv_disposed st) + (if lv_closing st then {#} else {#lv_current st#}) = mset handed
     \<and> lv_registered st = (\<not> lv_closing st)"

lemma step_inv:
  assumes "live_inv handed st" "lv_closing st \<longrightarrow> given_snapshots [e] = []"
  shows "live_inv (handed @ given_snapshots [e]) (server_step e st)"
  using assms
  by (cases e) (auto simp: live_inv_def reloadCompiledSnapshot_def dispatch_replace_def closeWebSockets_def
      disposeCompiledSnapshot_def dispatch_restore_def server_close_def closeServerHandle_def dispatch_dispose_def Let_def
      add.commute)

lemma step_closing: "lv_closing (server_step e st) \<longleftrightarrow> lv_closing st \<or> (\<exists>c. e = Close c)"
  by (cases e) (auto simp: reloadCompiledSnapshot_def dispatch_replace_def closeWebSockets_def
      disposeCompiledSnapshot_def dispatch_restore_def server_close_def closeServerHandle_def dispatch_dispose_def Let_def)

lemma given_Cons: "given_snapshots (e # es) = given_snapshots [e] @ given_snapshots es"
  by (cases e) auto

lemma closes_Cons: "closes_last (e # es) \<longleftrightarrow> closes_last es \<and> ((\<exists>c. e = Close c) \<longrightarrow> given_snapshots es = [])"
  by (cases e) auto

lemma run_inv:
  "live_inv handed st \<Longrightarrow> closes_last es \<Longrightarrow> (lv_closing st \<longrightarrow> given_snapshots es = [])
    \<Longrightarrow> live_inv (handed @ given_snapshots es) (server_run es st)"
proof (induction es arbitrary: handed st)
  case (Cons e es)
  have "live_inv (handed @ given_snapshots [e]) (server_step e st)"
    using Cons.prems given_Cons [of e es] by (intro step_inv) auto
  moreover have "lv_closing (server_step e st) \<longrightarrow> given_snapshots es = []"
    using Cons.prems given_Cons [of e es] by (auto simp: step_closing closes_Cons)
  ultimately have "live_inv ((handed @ given_snapshots [e]) @ given_snapshots es) (server_run es (server_step e st))"
    using Cons.prems(2) by (intro Cons.IH) (simp_all add: closes_Cons)
  then show ?case by (simp add: given_Cons [of e es] server_run_def)
qed (simp add: server_run_def)

lemma chain_frozen:
  "ch_promise ch = Some o0 \<Longrightarrow> ch_promise (chain_run options calls ch) = Some o0
     \<and> ch_starts (chain_run options calls ch) = ch_starts ch"
proof (induction calls arbitrary: ch)
  case (Cons c calls)
  have "ch_promise (snd (chain_call options c ch)) = Some o0 \<and> ch_starts (snd (chain_call options c ch)) = ch_starts ch"
    using Cons.prems by (cases c) (auto simp: unless_started_def chain_start_def)
  then show ?case using Cons.IH [of "snd (chain_call options c ch)"] by (simp add: chain_run_def)
qed (simp add: chain_run_def)

lemma chain_starts_once:
  "ch_starts ch = (if ch_promise ch = None then 0 else 1) \<Longrightarrow>
   ch_starts (chain_run options calls ch) = (if ch_promise (chain_run options calls ch) = None then 0 else 1)"
proof (induction calls arbitrary: ch)
  case (Cons c calls)
  have "ch_starts (snd (chain_call options c ch)) = (if ch_promise (snd (chain_call options c ch)) = None then 0 else 1)"
    using Cons.prems by (cases c) (auto simp: unless_started_def chain_start_def)
  then show ?case using Cons.IH [of "snd (chain_call options c ch)"] by (simp add: chain_run_def)
qed (simp add: chain_run_def)

section \<open>Properties\<close>

text \<open>C19: Exchanging the application while the server runs loses nothing and leaks nothing: after any sequence of
  reloads, of which the native layer may refuse any, and WebSocket events, closed at the end or not, the
  dispatcher and the native layer serve the same snapshot, and every snapshot that was handed over is
  either this one or has been disposed of exactly once.\<close>

theorem snapshots_are_disposed_once:
  assumes "closes_last es" "st = server_run es (startCompiledServer s0 hot)"
  shows "lv_native st = lv_current st
    \<and> mset (lv_disposed st) + (if lv_closing st then {#} else {#lv_current st#}) = mset (s0 # given_snapshots es)"
proof -
  have "live_inv [s0] (startCompiledServer s0 hot)" "\<not> lv_closing (startCompiledServer s0 hot)"
    by (simp_all add: live_inv_def startCompiledServer_def)
  from run_inv [OF this(1) assms(1)] this(2) have "live_inv ([s0] @ given_snapshots es) st"
    by (simp add: assms(2))
  then show ?thesis unfolding live_inv_def by simp
qed

theorem snapshots_are_disposed_once_witness:
  "mset (lv_disposed (server_run [SocketOpens 7, Reload True (2::nat), Reload False 3, Close NeverSettles, Close NeverSettles]
     (startCompiledServer 1 True))) = mset [1, 2, 3]"
proof -
  have "lv_closing (server_run [SocketOpens 7, Reload True (2::nat), Reload False 3, Close NeverSettles, Close NeverSettles]
     (startCompiledServer 1 True))" by code_simp
  then show ?thesis
    using snapshots_are_disposed_once [OF _ refl,
      of "[SocketOpens 7, Reload True (2::nat), Reload False 3, Close NeverSettles, Close NeverSettles]" 1 True]
    by simp
qed

text \<open>A \<open>listen()\<close> handle starts its server at most once, whatever is chained or awaited on it, and what is
  configured after the start changes nothing.\<close>

theorem listen_starts_once:
  "ch_starts (chain_run options calls (listen_chain options)) \<le> 1
   \<and> (ch_promise (chain_run options calls (listen_chain options)) = Some o0
      \<longrightarrow> ch_promise (chain_run options (calls @ later) (listen_chain options)) = Some o0)"
proof -
  let ?ch = "chain_run options calls (listen_chain options)"
  have "chain_run options (calls @ later) (listen_chain options) = chain_run options later ?ch"
    by (simp add: chain_run_def)
  then show ?thesis
    using chain_starts_once [of "listen_chain options" options calls] chain_frozen [of ?ch o0 options later]
    by (simp add: listen_chain_def)
qed

definition plain_listen :: listen_options where
  "plain_listen = \<lparr>li_host = None, li_port = Some (Fin 8080), li_backlog = None,
     li_serverConfig = \<lparr>ov_defaultHost = None, ov_defaultBacklog = None, ov_maxHeaderBytes = None,
        ov_hotGetRootHttp11 = None, ov_hotGetRootHttp10 = None, ov_headerConnectionPrefix = None,
        ov_headerContentLengthPrefix = None, ov_headerTransferEncodingPrefix = None, ov_tls = None\<rparr>,
     li_opt = None\<rparr>"

theorem listen_starts_once_witness:
  "map_option li_port (ch_promise (chain_run plain_listen ([CallPort (Fin 9000), CallThen] @ [CallPort (Fin 1), CallThen])
     (listen_chain plain_listen))) = Some (Some (Fin 9000))"
proof -
  have p: "ch_promise (chain_run plain_listen [CallPort (Fin 9000), CallThen] (listen_chain plain_listen))
      = Some (resolveOptions plain_listen ((listen_chain plain_listen)\<lparr>ch_port := Some (Fin 9000)\<rparr>))"
    by (simp add: chain_run_def listen_chain_def unless_started_def chain_start_def)
  show ?thesis
    using listen_starts_once [of plain_listen "[CallPort (Fin 9000), CallThen]" _ "[CallPort (Fin 1), CallThen]"] p
    by (simp add: resolveOptions_def over_def)
qed

text \<open>HTTP/3 and the timing option are accepted and dropped.\<close>

lemma http3_and_timing_have_no_effect:
  "normalizeListenOptions readFile env (o0\<lparr>li_opt := Some (ru\<lparr>ru_http3 := a, ru_timing := b\<rparr>)\<rparr>)
    = normalizeListenOptions readFile env (o0\<lparr>li_opt := Some ru\<rparr>)"
  by (simp add: normalizeListenOptions_def given_def Let_def)

text \<open>A native shutdown that throws is reported as a complete drain, and a server that was shut down is disposed of
  again when it is closed.\<close>

lemma failed_shutdown_counts_as_drained: "fst (server_shutdown None st) = (True, 0)"
  by (simp add: server_shutdown_def)

lemma shutdown_then_close_disposes_twice:
  "lv_disposed (snd (server_close c (snd (server_shutdown n (startCompiledServer s hot))))) = [s, s]"
  by (simp add: server_close_def server_shutdown_def startCompiledServer_def closeServerHandle_def dispatch_dispose_def
      disposeCompiledSnapshot_def closeWebSockets_def Let_def)

text \<open>A refused reload has ended the WebSockets of the application that stays.\<close>

lemma refused_reload_ends_sockets:
  "lv_sockets (snd (reloadCompiledSnapshot False next st)) = []
   \<and> lv_current (snd (reloadCompiledSnapshot False next st)) = lv_current st"
  by (simp add: reloadCompiledSnapshot_def dispatch_replace_def closeWebSockets_def disposeCompiledSnapshot_def
      dispatch_restore_def Let_def)

end
