(* ===== verification/HotReload.thy ===== *)
theory HotReload
  imports Paths RouteCache
begin

text \<open>
  The file watcher of \<open>src/src/dev/hot-reload.js\<close>: which files are watched, their fingerprints, the
  difference of two snapshots, the controller that polls and debounces, and the restart of the
  process in runtime mode.  The file system is a tree; a modification time is its text; times are in
  milliseconds.
\<close>

section \<open>Options\<close>

definition DEFAULT_DEBOUNCE_MS :: rat where "DEFAULT_DEBOUNCE_MS = 120"
definition DEFAULT_STARTUP_IGNORE_MS :: rat where "DEFAULT_STARTUP_IGNORE_MS = 250"

definition normalizeDebounceMs :: "jnum \<Rightarrow> rat" where
  "normalizeDebounceMs v =
     (case v of Fin r \<Rightarrow> if r \<le> 0 then DEFAULT_DEBOUNCE_MS else of_int \<lfloor>r\<rfloor> | _ \<Rightarrow> DEFAULT_DEBOUNCE_MS)"

definition normalizeDelayMs :: "jnum \<Rightarrow> rat \<Rightarrow> rat" where
  "normalizeDelayMs v fallback = (case v of Fin r \<Rightarrow> if r < 0 then fallback else of_int \<lfloor>r\<rfloor> | _ \<Rightarrow> fallback)"

definition pollIntervalMs :: "rat \<Rightarrow> rat" where
  "pollIntervalMs debounceMs = max 120 (min debounceMs 250)"

definition keep_first :: "'a list \<Rightarrow> 'a list" where
  "keep_first xs = rev (remdups (rev xs))"

definition dirname :: "string \<Rightarrow> string" where
  "dirname p = path_text (butlast (segments p))"

definition watch_roots :: "string list \<Rightarrow> (string \<Rightarrow> bool) \<Rightarrow> string list option \<Rightarrow> string list \<Rightarrow> string list" where
  "watch_roots cwd existsSync roots defaults =
     (let values = (case roots of Some rs \<Rightarrow> if rs \<noteq> [] then rs else defaults | None \<Rightarrow> defaults) in
      filter existsSync (keep_first (map (resolve cwd) values)))"

definition normalizeWatchRoots ::
  "string list \<Rightarrow> (string \<Rightarrow> bool) \<Rightarrow> string \<Rightarrow> string list option \<Rightarrow> string list" where
  "normalizeWatchRoots cwd existsSync entryPath roots =
     watch_roots cwd existsSync roots [dirname entryPath, resolve cwd ''rsrc/src'']"

definition normalizeRuntimeWatchRoots :: "string list \<Rightarrow> (string \<Rightarrow> bool) \<Rightarrow> string list option \<Rightarrow> string list" where
  "normalizeRuntimeWatchRoots cwd existsSync roots = watch_roots cwd existsSync roots [path_text cwd]"

section \<open>Snapshots\<close>

datatype fs_node = File string "byte list" | Dir "(string \<times> fs_node) list"

definition shouldWatchFile :: "string \<Rightarrow> bool" where
  "shouldWatchFile filePath =
     (let normalizedPath = map (\<lambda>c. if c = CHR 0x5C then CHR ''/'' else c) filePath in
      \<not> contains normalizedPath ''.github/bench/results''
      \<and> list_all (\<lambda>s. s \<notin> {''node_modules'', ''.git'', ''target'', ''.http-native''})
          (split_on (CHR ''/'') normalizedPath))"

definition hashBytes :: "byte list \<Rightarrow> u32" where
  "hashBytes bytes = foldl fnv32_byte 0x811c9dc5 bytes"

definition fingerprint :: "string \<Rightarrow> byte list \<Rightarrow> string" where
  "fingerprint mtime bytes =
     mtime @ '':'' @ nat_digits (length bytes) @ '':'' @ nat_digits (unat (hashBytes bytes))"

type_synonym watch_snapshot = "(string \<times> string) list"

definition join_path :: "string \<Rightarrow> string \<Rightarrow> string" where
  "join_path target entry = (if target = ''/'' then ''/'' @ entry else target @ ''/'' @ entry)"

fun collectWatchedFiles :: "string \<Rightarrow> fs_node \<Rightarrow> watch_snapshot \<Rightarrow> watch_snapshot"
and collect_entries :: "string \<Rightarrow> (string \<times> fs_node) list \<Rightarrow> watch_snapshot \<Rightarrow> watch_snapshot" where
  "collectWatchedFiles target (Dir entries) snap = collect_entries target entries snap"
| "collectWatchedFiles target (File mtime bytes) snap =
     (if \<not> shouldWatchFile target then snap else AList.update target (fingerprint mtime bytes) snap)"
| "collect_entries target [] snap = snap"
| "collect_entries target ((name, n) # es) snap =
     collect_entries target es (collectWatchedFiles (join_path target name) n snap)"

text \<open>\<open>lookup\<close> is the file system; a root that does not exist contributes nothing.\<close>

definition snapshotWatchedFiles :: "(string \<Rightarrow> fs_node option) \<Rightarrow> string list \<Rightarrow> watch_snapshot" where
  "snapshotWatchedFiles lookup roots =
     foldl (\<lambda>snap root. case lookup root of None \<Rightarrow> snap | Some n \<Rightarrow> collectWatchedFiles root n snap) [] roots"

definition diffSnapshots :: "watch_snapshot \<Rightarrow> watch_snapshot \<Rightarrow> string option" where
  "diffSnapshots previous next =
     (case find (\<lambda>(f, v). map_of previous f \<noteq> Some v) next of
        Some (f, v) \<Rightarrow> Some f
      | None \<Rightarrow> find (\<lambda>f. map_of next f = None) (map fst previous))"

section \<open>The controller\<close>

text \<open>\<open>wt_timer\<close> is the time the restart timer is due, \<open>wt_reports\<close> the calls of \<open>onChange\<close> so far with
  their times, newest first, \<open>wt_seen\<close> the time of the last change that was noticed.\<close>

record watcher =
  wt_readyAt :: nat
  wt_timer :: "nat option"
  wt_pending :: "string option"
  wt_previous :: watch_snapshot
  wt_polling :: bool
  wt_reports :: "(nat \<times> string option) list"
  wt_detections :: "nat list"

definition createDevWatchController :: "nat \<Rightarrow> nat \<Rightarrow> watch_snapshot \<Rightarrow> watcher" where
  "createDevWatchController now startupIgnoreMs snap =
     \<lparr>wt_readyAt = now + startupIgnoreMs, wt_timer = None, wt_pending = None, wt_previous = snap,
      wt_polling = True, wt_reports = [], wt_detections = []\<rparr>"

definition watch_poll :: "nat \<Rightarrow> nat \<Rightarrow> watch_snapshot \<Rightarrow> watcher \<Rightarrow> watcher" where
  "watch_poll debounceMs now nextSnapshot w =
     (if now < wt_readyAt w then w
      else
        (case diffSnapshots (wt_previous w) nextSnapshot of
           None \<Rightarrow> w\<lparr>wt_previous := nextSnapshot\<rparr>
         | Some changedFile \<Rightarrow> w\<lparr>wt_previous := nextSnapshot, wt_pending := Some changedFile,
             wt_timer := Some (now + debounceMs), wt_detections := now # wt_detections w\<rparr>))"

definition watch_fire :: "nat \<Rightarrow> watcher \<Rightarrow> watcher" where
  "watch_fire now w = w\<lparr>wt_timer := None, wt_pending := None, wt_reports := (now, wt_pending w) # wt_reports w\<rparr>"

definition watch_refresh :: "nat \<Rightarrow> nat \<Rightarrow> watch_snapshot \<Rightarrow> watcher \<Rightarrow> watcher" where
  "watch_refresh startupIgnoreMs now snap w = w\<lparr>wt_readyAt := now + startupIgnoreMs, wt_previous := snap\<rparr>"

definition watch_dispose :: "watcher \<Rightarrow> watcher" where
  "watch_dispose w = w\<lparr>wt_timer := None, wt_polling := False\<rparr>"

text \<open>What can happen next, at a time that is not before the last event: a poll while the interval runs, the
  timer when it is due, and the calls of the owner.\<close>

inductive watch_step :: "nat \<Rightarrow> nat \<Rightarrow> nat \<times> watcher \<Rightarrow> nat \<times> watcher \<Rightarrow> bool" for debounceMs ignoreMs where
  poll: "wt_polling w \<Longrightarrow> t \<le> t' \<Longrightarrow> watch_step debounceMs ignoreMs (t, w) (t', watch_poll debounceMs t' snap w)"
| fire: "wt_timer w = Some due \<Longrightarrow> due \<le> t' \<Longrightarrow> t \<le> t'
    \<Longrightarrow> watch_step debounceMs ignoreMs (t, w) (t', watch_fire t' w)"
| refresh: "t \<le> t' \<Longrightarrow> watch_step debounceMs ignoreMs (t, w) (t', watch_refresh ignoreMs t' snap w)"
| dispose: "t \<le> t' \<Longrightarrow> watch_step debounceMs ignoreMs (t, w) (t', watch_dispose w)"

inductive_cases watch_stepE: "watch_step debounceMs ignoreMs (t, w) (t', w')"

section \<open>Restarting the process\<close>

datatype cleanup_outcome = CleanupDone | CleanupFails | CleanupHangs

record runtime =
  rn_restarting :: bool
  rn_spawns :: nat
  rn_exit :: "nat option"

text \<open>Whatever the clean-up does, its errors and the timeout are caught; the exit code says whether the child
  was spawned.\<close>

definition runtime_change :: "cleanup_outcome \<Rightarrow> bool \<Rightarrow> runtime \<Rightarrow> runtime" where
  "runtime_change cleanup spawnOk r =
     (if rn_restarting r then r
      else \<lparr>rn_restarting = True, rn_spawns = rn_spawns r + (if spawnOk then 1 else 0),
             rn_exit = Some (if spawnOk then 0 else 1)\<rparr>)"

section \<open>Lemmas\<close>

lemma odd_multiplication: "(a :: u32) * 0x01000193 = b * 0x01000193 \<longleftrightarrow> a = b"
proof
  assume "a * 0x01000193 = b * 0x01000193"
  then have "a * 0x01000193 * 0x359c449b = b * 0x01000193 * 0x359c449b" by simp
  moreover have "(0x01000193 :: u32) * 0x359c449b = 1" by simp
  ultimately show "a = b" by (metis (no_types) mult.assoc mult.right_neutral)
qed simp

lemma xor_cancel: "xor (x :: u32) c = xor y c \<longleftrightarrow> x = y" "xor c (x :: u32) = xor c y \<longleftrightarrow> x = y"
proof -
  show r: "xor (x :: u32) c = xor y c \<longleftrightarrow> x = y"
  proof
    assume "xor x c = xor y c"
    then have "xor (xor x c) c = xor (xor y c) c" by simp
    then show "x = y" by (simp only: xor.assoc xor_self_eq xor.right_neutral)
  qed simp
  then show "xor c (x :: u32) = xor c y \<longleftrightarrow> x = y" by (simp only: xor.commute [of c])
qed

lemma ucast_byte_inj: "(ucast (b :: byte) :: u32) = ucast c \<longleftrightarrow> b = c"
  using unat_ucast_byte [of b] unat_ucast_byte [of c] by (auto simp: word_unat_eq_iff)

lemma fnv32_state: "fnv32_byte h b = fnv32_byte h' b \<longleftrightarrow> h = h'"
  by (simp only: fnv32_byte_def odd_multiplication xor_cancel)

lemma fnv32_input: "fnv32_byte h b = fnv32_byte h c \<longleftrightarrow> b = c"
  by (simp only: fnv32_byte_def odd_multiplication xor_cancel ucast_byte_inj)

lemma fnv32_fold: "foldl fnv32_byte h bs = foldl fnv32_byte h' bs \<longleftrightarrow> h = h'"
  by (induction bs arbitrary: h h') (auto simp: fnv32_state)

lemma hash_one_byte: "x \<noteq> y \<Longrightarrow> hashBytes (a @ x # b) \<noteq> hashBytes (a @ y # b)"
  by (simp add: hashBytes_def fnv32_fold fnv32_input)

lemma fingerprint_same_size:
  "length bs = length cs \<Longrightarrow> fingerprint m bs = fingerprint m cs \<Longrightarrow> hashBytes bs = hashBytes cs"
  by (metis (no_types) append_same_eq fingerprint_def digits_val_nat_digits same_append_eq append.assoc word_unat_eq_iff)

lemma diff_None:
  assumes "distinct (map fst next)"
  shows "diffSnapshots previous next = None \<longleftrightarrow> map_of previous = map_of next"
proof -
  have 1: "find (\<lambda>(f, v). map_of previous f \<noteq> Some v) next = None
      \<longleftrightarrow> (\<forall>f v. map_of next f = Some v \<longrightarrow> map_of previous f = Some v)"
    using assms by (auto simp: find_None_iff map_of_eq_Some_iff)
  have 2: "find (\<lambda>f. map_of next f = None) (map fst previous) = None
      \<longleftrightarrow> (\<forall>f. map_of previous f \<noteq> None \<longrightarrow> map_of next f \<noteq> None)"
    by (auto simp: find_None_iff map_of_eq_None_iff image_iff)
  have 3: "diffSnapshots previous next = None \<longleftrightarrow>
      find (\<lambda>(f, v). map_of previous f \<noteq> Some v) next = None
      \<and> find (\<lambda>f. map_of next f = None) (map fst previous) = None"
    by (auto simp: diffSnapshots_def split: option.split)
  show ?thesis unfolding 1 2 3 by (auto simp: fun_eq_iff) (metis option.exhaust)+
qed

fun tree_files :: "string \<Rightarrow> fs_node \<Rightarrow> string list" and entry_files :: "string \<Rightarrow> (string \<times> fs_node) list \<Rightarrow> string list" where
  "tree_files target (Dir entries) = entry_files target entries"
| "tree_files target (File mtime bytes) = [target]"
| "entry_files target [] = []"
| "entry_files target ((name, n) # es) = tree_files (join_path target name) n @ entry_files target es"

lemma collect_keys:
  "set (map fst (collectWatchedFiles target n snap)) = set (map fst snap) \<union> {f \<in> set (tree_files target n). shouldWatchFile f}"
  "set (map fst (collect_entries target es snap)) = set (map fst snap) \<union> {f \<in> set (entry_files target es). shouldWatchFile f}"
proof (induction target n snap and target es snap rule: collectWatchedFiles_collect_entries.induct)
  case (2 target mtime bytes snap)
  then show ?case by (auto simp: dom_update simp flip: dom_map_of_conv_image_fst) (auto simp: update_conv' split: if_splits)
qed auto

definition debounced :: "nat \<Rightarrow> nat \<times> watcher \<Rightarrow> bool" where
  "debounced debounceMs tw \<longleftrightarrow> (case tw of (now, w) \<Rightarrow>
     (\<forall>due. wt_timer w = Some due \<longrightarrow> wt_pending w \<noteq> None
        \<and> (\<forall>d\<in>set (wt_detections w). d + debounceMs \<le> due))
   \<and> (\<forall>d\<in>set (wt_detections w). d \<le> now)
   \<and> (wt_polling w \<longrightarrow> wt_pending w \<noteq> None \<longrightarrow> wt_timer w \<noteq> None)
   \<and> (\<forall>(t, f)\<in>set (wt_reports w). t \<le> now \<and> f \<noteq> None
        \<and> (\<forall>d\<in>set (wt_detections w). d < t \<longrightarrow> d + debounceMs \<le> t)))"

lemma debounced_later: "debounced D (t, w) \<Longrightarrow> t \<le> t' \<Longrightarrow> debounced D (t', w)"
  by (auto simp: debounced_def)

lemma debounced_snapshot:
  "debounced D (t, w) \<Longrightarrow> debounced D (t, w\<lparr>wt_previous := s\<rparr>)"
  "debounced D (t, w) \<Longrightarrow> debounced D (t, w\<lparr>wt_readyAt := r, wt_previous := s\<rparr>)"
  "debounced D (t, w) \<Longrightarrow> debounced D (t, w\<lparr>wt_timer := None, wt_polling := False\<rparr>)"
  by (simp_all add: debounced_def)

lemma debounced_notice:
  "debounced D (t, w) \<Longrightarrow> debounced D (t, w\<lparr>wt_previous := s, wt_pending := Some f, wt_timer := Some (t + D),
     wt_detections := t # wt_detections w\<rparr>)"
  by (auto simp: debounced_def)

lemma debounced_fire:
  assumes "debounced D (t, w)" "wt_timer w = Some due" "due \<le> t"
  shows "debounced D (t, watch_fire t w)"
proof -
  have "\<forall>d\<in>set (wt_detections w). d + D \<le> t" "wt_pending w \<noteq> None"
    using assms by (fastforce simp: debounced_def)+
  then show ?thesis using assms(1) by (simp add: debounced_def watch_fire_def)
qed

lemma watch_step_debounced:
  assumes "watch_step D ignoreMs tw tw'" "debounced D tw"
  shows "debounced D tw'"
  using assms
proof cases
  case (poll w t t' snap)
  then have "debounced D (t', w)" using assms(2) debounced_later by simp
  then show ?thesis
    by (auto simp: poll(2) watch_poll_def debounced_snapshot debounced_notice split: option.split)
next
  case (fire w due t' t)
  then have "debounced D (t', w)" using assms(2) debounced_later by simp
  then show ?thesis using fire(2-4) debounced_fire by simp
next
  case (refresh t t' snap w)
  then show ?thesis using assms(2) debounced_later debounced_snapshot(2) by (simp add: watch_refresh_def)
next
  case (dispose t t' w)
  then show ?thesis using assms(2) debounced_later debounced_snapshot(3) by (simp add: watch_dispose_def)
qed

lemma watch_reachable_debounced:
  "(watch_step debounceMs ignoreMs)\<^sup>*\<^sup>* tw tw' \<Longrightarrow> debounced debounceMs tw \<Longrightarrow> debounced debounceMs tw'"
  by (induction rule: rtranclp_induct) (auto intro: watch_step_debounced)

section \<open>Properties\<close>

text \<open>C36: The watcher debounces: whenever \<open>onChange\<close> is called, it is for a file, and every change noticed before
  lies at least the debounce time back; and while the watcher polls, a change that was noticed and not yet
  reported has its timer running.\<close>

theorem changes_are_debounced:
  assumes "(watch_step debounceMs ignoreMs)\<^sup>*\<^sup>* (t0, createDevWatchController t0 ignoreMs snap) (now, w)"
  shows "(\<forall>(t, f)\<in>set (wt_reports w). f \<noteq> None \<and> (\<forall>d\<in>set (wt_detections w). d < t \<longrightarrow> d + debounceMs \<le> t))
    \<and> (wt_polling w \<longrightarrow> wt_pending w \<noteq> None \<longrightarrow> wt_timer w \<noteq> None)"
  using watch_reachable_debounced [OF assms]
  by (fastforce simp: debounced_def createDevWatchController_def)

lemma sample_watch:
  defines "w0 \<equiv> createDevWatchController 0 250 [(''/a.js'', ''1'')]"
  defines "w1 \<equiv> watch_poll 120 300 [(''/a.js'', ''2'')] w0"
  defines "w2 \<equiv> watch_poll 120 400 [(''/a.js'', ''3'')] w1"
  shows "(watch_step 120 250)\<^sup>*\<^sup>* (0, w0) (525, watch_fire 525 w2)"
    and "wt_reports (watch_fire 525 w2) = [(525, Some ''/a.js'')]"
proof -
  have s: "watch_step 120 250 (0, w0) (300, w1)" "watch_step 120 250 (300, w1) (400, w2)"
    unfolding w2_def w1_def by (rule watch_step.poll; simp add: w0_def createDevWatchController_def watch_poll_def
      diffSnapshots_def)+
  have t: "wt_timer w2 = Some 520" "wt_pending w2 = Some ''/a.js''" "wt_reports w2 = []"
    by (simp_all add: w2_def w1_def w0_def createDevWatchController_def watch_poll_def diffSnapshots_def)
  have "watch_step 120 250 (400, w2) (525, watch_fire 525 w2)"
    by (rule watch_step.fire [OF t(1)]) simp_all
  with s show "(watch_step 120 250)\<^sup>*\<^sup>* (0, w0) (525, watch_fire 525 w2)"
    by (meson rtranclp.rtrancl_refl rtranclp.rtrancl_into_rtrancl)
  show "wt_reports (watch_fire 525 w2) = [(525, Some ''/a.js'')]"
    using t by (simp add: watch_fire_def)
qed

theorem changes_are_debounced_witness:
  "list_all (\<lambda>(t, f). f \<noteq> None) (wt_reports (watch_fire 525 (watch_poll 120 400 [(''/a.js'', ''3'')]
      (watch_poll 120 300 [(''/a.js'', ''2'')] (createDevWatchController 0 250 [(''/a.js'', ''1'')])))))"
  using conjunct1 [OF changes_are_debounced [OF sample_watch(1)]] by (auto simp: list_all_iff)

text \<open>No edit of a single byte goes unseen: even if the modification time and the size of a watched file stay
  the same, replacing one byte changes its fingerprint, and the snapshots before and after differ.  Two
  snapshots are found equal only if they list the same files with the same fingerprints.\<close>

theorem one_byte_edit_is_seen:
  assumes "map_of previous f = Some (fingerprint m (a @ x # b))" "map_of next f = Some (fingerprint m (a @ y # b))"
    and "x \<noteq> y" "distinct (map fst next)"
  shows "diffSnapshots previous next \<noteq> None
    \<and> (diffSnapshots previous next' = None \<and> distinct (map fst next') \<longrightarrow> map_of previous = map_of next')"
proof -
  have "fingerprint m (a @ x # b) \<noteq> fingerprint m (a @ y # b)"
    using fingerprint_same_size [of "a @ x # b" "a @ y # b" m] hash_one_byte [OF assms(3)] by auto
  then have "map_of previous \<noteq> map_of next" using assms(1,2) by auto
  then show ?thesis using diff_None assms(4) by blast
qed

theorem one_byte_edit_is_seen_witness:
  "diffSnapshots [(''/a.js'', fingerprint ''17'' [1, 2, 3])] [(''/a.js'', fingerprint ''17'' [1, 9, 3])] \<noteq> None"
  using one_byte_edit_is_seen [of "[(''/a.js'', fingerprint ''17'' [1, 2, 3])]" "''/a.js''" "''17''" "[1]" 2 "[3]"
      "[(''/a.js'', fingerprint ''17'' [1, 9, 3])]" 9 "[]"] by simp

text \<open>A change between the last poll and a \<open>refresh\<close> is forgotten.\<close>

lemma refresh_forgets:
  "distinct (map fst snap) \<Longrightarrow>
    wt_detections (watch_poll debounceMs t' snap (watch_refresh ignoreMs t snap w)) = wt_detections w"
  using diff_None [of snap snap] by (simp add: watch_poll_def watch_refresh_def)

lemma process_restarts_once:
  "rn_spawns (foldl (\<lambda>r (c, ok). runtime_change c ok r) \<lparr>rn_restarting = False, rn_spawns = 0, rn_exit = None\<rparr> cs) \<le> 1"
proof -
  have "rn_spawns (foldl (\<lambda>r (c, ok). runtime_change c ok r) r cs) \<le> 1" if "rn_spawns r \<le> 1" "rn_spawns r = 0 \<or> rn_restarting r"
    for r using that
  proof (induction cs arbitrary: r)
    case (Cons x cs)
    then show ?case by (cases x) (auto simp: runtime_change_def)
  qed simp
  then show ?thesis by simp
qed

end
