(* ===== verification/DevComments.thy ===== *)
theory DevComments
  imports Dispatcher "HOL-Library.Multiset"
begin

text \<open>
  The comments the development mode writes above the routes of a program, \<open>src/src/dev/comments.js\<close>:
  finding and removing the ones of an earlier run, writing and merging the statuses of a route, and the
  cleanup that puts the files back.  A file is its lines; the disk maps paths to texts, and a parameter
  says which files can be written.  Positions are indices into the lines, source lines count from one.
\<close>

section \<open>Lines and comment blocks\<close>

definition COMMENT_PREFIX :: string where "COMMENT_PREFIX = ''[http-native optimization]''"

definition STATUS_DESCRIPTIONS :: "(string \<times> string) list" where
  "STATUS_DESCRIPTIONS =
     [(''static-fast-path'', ''This route is served by the static fast path and avoids generic bridge dispatch.''),
      (''native-cache'', ''This route is cached natively in Rust after the first response. Subsequent requests are served directly from native memory until the TTL expires.''),
      (''bridge-dispatch'', ''This route currently runs through bridge dispatch because it depends on runtime request data.''),
      (''runtime-cache-tracking'', ''Runtime stability is being tracked to determine whether response caching is safe.''),
      (''runtime-cache-promoted'', ''This route has been promoted to runtime response cache after stable output was observed.'')]"

text \<open>\<open>text.split(/\r?\n/)\<close>.\<close>

fun split_lines :: "string \<Rightarrow> string list" where
  "split_lines [] = [[]]"
| "split_lines (c # cs) =
     (if c = LF then [] # split_lines cs
      else if c = CR \<and> startsWith cs [LF] then [] # split_lines (tl cs)
      else (case split_lines cs of [] \<Rightarrow> [[c]] | l # ls \<Rightarrow> (c # l) # ls))"

definition has_prefix :: "string \<Rightarrow> bool" where
  "has_prefix line \<longleftrightarrow> contains line COMMENT_PREFIX"

definition opens_doc :: "string \<Rightarrow> bool" where
  "opens_doc line \<longleftrightarrow> startsWith (trim line) ''/**''"

definition closes_doc :: "string \<Rightarrow> bool" where
  "closes_doc line \<longleftrightarrow> trim line = ''*/''"

definition blank :: "string \<Rightarrow> bool" where
  "blank line \<longleftrightarrow> trim line = []"

definition indent_of :: "string \<Rightarrow> string" where
  "indent_of line = takeWhile is_ws line"

text \<open>\<open>split("|")\<close>, trimmed, without the empty items.\<close>

definition status_items :: "string \<Rightarrow> string list" where
  "status_items text = filter (\<lambda>s. s \<noteq> []) (map trim (split_on (CHR ''|'') text))"

definition parseSingleLineComment :: "string \<Rightarrow> string \<Rightarrow> string list option" where
  "parseSingleLineComment line indent =
     (let prefix = indent @ ''// '' @ COMMENT_PREFIX in
      if startsWith line prefix then Some (status_items (drop (length prefix) line)) else None)"

definition parseStatusesFromLines :: "string list \<Rightarrow> string list" where
  "parseStatusesFromLines lines =
     (case find has_prefix lines of
        None \<Rightarrow> []
      | Some line \<Rightarrow> status_items (drop (the (indexOf line COMMENT_PREFIX) + length COMMENT_PREFIX) line))"

text \<open>\<open>[...new Set(xs)]\<close> keeps the first of equal items.\<close>

definition set_order :: "string list \<Rightarrow> string list" where
  "set_order xs = rev (remdups (rev xs))"

definition describe :: "string \<Rightarrow> string" where
  "describe value =
     (case map_of STATUS_DESCRIPTIONS value of
        Some d \<Rightarrow> d
      | None \<Rightarrow> ''Status '' @ [CHR 0x27] @ value @ [CHR 0x27] @ '' is active for this route.'')"

definition buildOptimizationBlock :: "string \<Rightarrow> string list \<Rightarrow> string list" where
  "buildOptimizationBlock indent statuses =
     (let dedupedStatuses = set_order (filter (\<lambda>s. s \<noteq> []) (map trim statuses));
          description = join '' '' (map describe dedupedStatuses) in
      [indent @ ''/** [Auto generated by http-native]'',
       indent @ '' * '' @ COMMENT_PREFIX @ '' '' @ join '' | '' dedupedStatuses,
       indent @ '' * '' @ description,
       indent @ '' */''])"

definition mergeStatuses :: "string list \<Rightarrow> string \<Rightarrow> string list" where
  "mergeStatuses existingStatuses status =
     (if status \<in> set existingStatuses then existingStatuses else existingStatuses @ [status])"

text \<open>The search upwards from the line at \<open>targetIndex\<close>; \<open>above\<close> lists the lines before it, the nearest first.\<close>

definition findExistingOptimizationBlock :: "string list \<Rightarrow> nat \<Rightarrow> (nat \<times> nat \<times> string list) option" where
  "findExistingOptimizationBlock lines targetIndex =
     (let above = dropWhile blank (rev (take targetIndex lines)) in
      if above = [] \<or> \<not> closes_doc (hd above) then None
      else
        let body = takeWhile (\<lambda>line. \<not> opens_doc line) above;
            endIndex = length above - 1 in
        if length body = length above then None
        else
          let startIndex = length above - length body - 1;
              blockLines = drop startIndex (take (endIndex + 1) lines) in
          if list_ex has_prefix blockLines
          then Some (startIndex, endIndex, parseStatusesFromLines blockLines) else None)"

section \<open>Removing the comments of an earlier run\<close>

text \<open>The length of the generated block that starts with the first of the lines.\<close>

definition generated_block :: "string list \<Rightarrow> nat option" where
  "generated_block lines =
     (if lines \<noteq> [] \<and> opens_doc (hd lines)
      then let n = length (takeWhile (\<lambda>line. \<not> closes_doc line) lines) in
           if n < length lines \<and> list_ex has_prefix (take (n + 1) lines) then Some (n + 1) else None
      else None)"

lemma generated_block_pos: "generated_block lines = Some n \<Longrightarrow> 0 < n \<and> n \<le> length lines"
  by (auto simp: generated_block_def Let_def split: if_splits)

text \<open>The lines that stay, and for each line of the file how many were removed up to it.\<close>

function strip_loop :: "nat \<Rightarrow> string list \<Rightarrow> string list \<times> nat list" where
  "strip_loop removedCount [] = ([], [])"
| "strip_loop removedCount (line # rest) =
     (if startsWith (trim line) ''//'' \<and> contains (trim line) COMMENT_PREFIX
      then let (out, counts) = strip_loop (removedCount + 1) rest in (out, (removedCount + 1) # counts)
      else case generated_block (line # rest) of
          Some n \<Rightarrow>
            let (out, counts) = strip_loop (removedCount + n) (drop n (line # rest)) in
            (out, [removedCount + 1..<removedCount + n + 1] @ counts)
        | None \<Rightarrow> let (out, counts) = strip_loop removedCount rest in (line # out, removedCount # counts))"
  by pat_completeness auto
termination
  by (relation "measure (\<lambda>(r, lines). length lines)") (auto dest!: generated_block_pos)

definition stripGeneratedOptimizationComments :: "string list \<Rightarrow> string list \<times> nat list" where
  "stripGeneratedOptimizationComments lines = (let (out, counts) = strip_loop 0 lines in (out, 0 # counts))"

definition linesEqual :: "string list \<Rightarrow> string list \<Rightarrow> bool" where
  "linesEqual left right \<longleftrightarrow> length left = length right \<and> (\<forall>index<length left. left ! index = right ! index)"

lemma linesEqual_iff [simp]: "linesEqual left right \<longleftrightarrow> left = right"
  by (auto simp: linesEqual_def list_eq_iff_nth_eq)

section \<open>The state of a file\<close>

record file_state =
  fs_eol :: string
  fs_lines :: "string list"
  fs_baseLines :: "string list"
  fs_removedBeforeLine :: "nat list"
  fs_insertedAtOriginalLine :: "(nat \<times> nat) list"

text \<open>\<open>disk\<close> holds the texts of the files; \<open>wr_files\<close> is the \<open>Map\<close> of the states in insertion order.\<close>

record writer =
  wr_applied :: "string list"
  wr_initializedRoutes :: "string list"
  wr_files :: "(string \<times> file_state) list"
  wr_disk :: "string \<Rightarrow> string option"

definition persist :: "(string \<Rightarrow> bool) \<Rightarrow> string \<Rightarrow> string list \<Rightarrow> string \<Rightarrow> writer \<Rightarrow> writer" where
  "persist writable filePath lines eol w =
     (if writable filePath then w\<lparr>wr_disk := (wr_disk w)(filePath \<mapsto> join eol lines)\<rparr> else w)"

definition put_state :: "string \<Rightarrow> file_state \<Rightarrow> writer \<Rightarrow> writer" where
  "put_state filePath state w = w\<lparr>wr_files := AList.update filePath state (wr_files w)\<rparr>"

text \<open>A state that was changed in place and written out.\<close>

definition persistState :: "(string \<Rightarrow> bool) \<Rightarrow> string \<Rightarrow> file_state \<Rightarrow> writer \<Rightarrow> writer" where
  "persistState writable filePath state w =
     persist writable filePath (fs_lines state) (fs_eol state) (put_state filePath state w)"

definition getFileState :: "(string \<Rightarrow> bool) \<Rightarrow> string \<Rightarrow> writer \<Rightarrow> file_state option \<times> writer" where
  "getFileState writable filePath w =
     (case map_of (wr_files w) filePath of
        Some state \<Rightarrow> (Some state, w)
      | None \<Rightarrow>
          (case wr_disk w filePath of
             None \<Rightarrow> (None, w)
           | Some fileText \<Rightarrow>
               let eol = (if contains fileText [CR, LF] then [CR, LF] else [LF]);
                   lines = split_lines fileText;
                   cleaned = stripGeneratedOptimizationComments lines;
                   state = \<lparr>fs_eol = eol, fs_lines = fst cleaned, fs_baseLines = fst cleaned,
                     fs_removedBeforeLine = snd cleaned, fs_insertedAtOriginalLine = []\<rparr>;
                   w1 = put_state filePath state w in
               (Some state, if \<not> linesEqual lines (fst cleaned) then persist writable filePath (fst cleaned) eol w1 else w1)))"

definition normalizeSourceLine :: "file_state \<Rightarrow> nat \<Rightarrow> nat" where
  "normalizeSourceLine state sourceLine =
     (let normalized = max 1 sourceLine;
          lookupIndex = min normalized (length (fs_removedBeforeLine state) - 1);
          removed = fs_removedBeforeLine state ! lookupIndex in
      max 1 (normalized - removed))"

definition countInsertedBefore :: "(nat \<times> nat) list \<Rightarrow> nat \<Rightarrow> nat" where
  "countInsertedBefore inserted originalLine =
     sum_list (map snd (filter (\<lambda>entry. fst entry \<le> originalLine) inserted))"

definition insert_lines :: "nat \<Rightarrow> nat \<Rightarrow> string list \<Rightarrow> string list \<Rightarrow> string list" where
  "insert_lines start deleteCount replacement lines = take start lines @ replacement @ drop (start + deleteCount) lines"

definition note_inserted :: "nat \<Rightarrow> nat \<Rightarrow> file_state \<Rightarrow> file_state" where
  "note_inserted line number state =
     state\<lparr>fs_insertedAtOriginalLine := sort_key fst (fs_insertedAtOriginalLine state @ [(line, number)])\<rparr>"

definition annotate_state :: "nat \<Rightarrow> string \<Rightarrow> bool \<Rightarrow> file_state \<Rightarrow> file_state option" where
  "annotate_state sourceLine status replaceExisting state =
     (let normalizedLine = normalizeSourceLine state sourceLine;
          effectiveLine = normalizedLine + countInsertedBefore (fs_insertedAtOriginalLine state) normalizedLine;
          targetIndex = effectiveLine - 1;
          lines = fs_lines state in
      if length lines \<le> targetIndex then None
      else
        let indent = indent_of (lines ! targetIndex) in
        case findExistingOptimizationBlock lines targetIndex of
          Some (startIndex, endIndex, statuses) \<Rightarrow>
            let mergedStatuses = (if replaceExisting then [status] else mergeStatuses statuses status) in
            Some (state\<lparr>fs_lines := insert_lines startIndex (endIndex - startIndex + 1)
              (buildOptimizationBlock indent mergedStatuses) lines\<rparr>)
        | None \<Rightarrow>
            (case (if targetIndex = 0 then None else parseSingleLineComment (lines ! (targetIndex - 1)) indent) of
               Some statuses \<Rightarrow>
                 let mergedStatuses = (if replaceExisting then [status] else mergeStatuses statuses status);
                     replacement = buildOptimizationBlock indent mergedStatuses in
                 Some (note_inserted normalizedLine (length replacement - 1)
                   (state\<lparr>fs_lines := insert_lines (targetIndex - 1) 1 replacement lines\<rparr>))
             | None \<Rightarrow>
                 let block = buildOptimizationBlock indent [status] in
                 Some (note_inserted normalizedLine (length block)
                   (state\<lparr>fs_lines := insert_lines targetIndex 0 block lines\<rparr>))))"

definition annotateFile :: "(string \<Rightarrow> bool) \<Rightarrow> string \<Rightarrow> nat \<Rightarrow> string \<Rightarrow> bool \<Rightarrow> writer \<Rightarrow> writer" where
  "annotateFile writable filePath sourceLine status replaceExisting w =
     (case getFileState writable filePath w of
        (None, w1) \<Rightarrow> w1
      | (Some state, w1) \<Rightarrow>
          (case annotate_state sourceLine status replaceExisting state of
             None \<Rightarrow> w1
           | Some state' \<Rightarrow> persistState writable filePath state' w1))"

section \<open>The writer\<close>

record source_location =
  sl_filePath :: string
  sl_line :: nat

text \<open>\<open>None\<close> stands for \<open>null\<close>; \<open>hotReloadEnv\<close> is \<open>HTTP_NATIVE_HOT_RELOAD === "1"\<close>.\<close>

definition createRouteDevCommentWriter ::
  "bool \<Rightarrow> bool \<Rightarrow> bool \<Rightarrow> (string \<Rightarrow> string option) \<Rightarrow> writer option" where
  "createRouteDevCommentWriter devComments hotReload hotReloadEnv disk =
     (if \<not> devComments \<or> hotReload \<or> hotReloadEnv then None
      else Some \<lparr>wr_applied = [], wr_initializedRoutes = [], wr_files = [], wr_disk = disk\<rparr>)"

definition route_key :: "source_location \<Rightarrow> string" where
  "route_key loc = sl_filePath loc @ '':'' @ nat_digits (sl_line loc)"

definition markRoute :: "(string \<Rightarrow> bool) \<Rightarrow> source_location option \<Rightarrow> string \<Rightarrow> writer \<Rightarrow> writer" where
  "markRoute writable location status w =
     (case location of
        None \<Rightarrow> w
      | Some loc \<Rightarrow>
          if sl_filePath loc = [] then w
          else
            let normalizedStatus = trim (if status = [] then ''optimized'' else status) in
            if normalizedStatus = [] then w
            else
              let dedupeKey = route_key loc @ '':'' @ normalizedStatus in
              if dedupeKey \<in> set (wr_applied w) then w
              else
                let replaceExisting = (route_key loc \<notin> set (wr_initializedRoutes w)) in
                annotateFile writable (sl_filePath loc) (sl_line loc) normalizedStatus replaceExisting
                  (w\<lparr>wr_applied := dedupeKey # wr_applied w,
                     wr_initializedRoutes := route_key loc # wr_initializedRoutes w\<rparr>))"

definition cleanupFile :: "(string \<Rightarrow> bool) \<Rightarrow> string \<Rightarrow> file_state \<Rightarrow> writer \<Rightarrow> writer" where
  "cleanupFile writable filePath state w =
     (if linesEqual (fs_lines state) (fs_baseLines state) then w
      else persistState writable filePath (state\<lparr>fs_lines := fs_baseLines state\<rparr>) w)"

definition cleanup :: "(string \<Rightarrow> bool) \<Rightarrow> writer \<Rightarrow> writer" where
  "cleanup writable w = foldl (\<lambda>w (filePath, state). cleanupFile writable filePath state w) w (wr_files w)"

text \<open>What a compiled application marks of a route; later marks come from the runtime cache.\<close>

definition mark_compiled :: "(string \<Rightarrow> bool) \<Rightarrow> source_location option \<Rightarrow> bool \<Rightarrow> bool \<Rightarrow> bool \<Rightarrow> writer \<Rightarrow> writer" where
  "mark_compiled writable location nativeCache staticFastPath runtimeResponseCache w =
     (let baseStatus = (if nativeCache then ''native-cache''
            else if staticFastPath then ''static-fast-path'' else ''bridge-dispatch'');
          w1 = markRoute writable location baseStatus w in
      if runtimeResponseCache then markRoute writable location ''runtime-cache-tracking'' w1 else w1)"

definition mark_all :: "(string \<Rightarrow> bool) \<Rightarrow> (source_location \<times> string) list \<Rightarrow> writer \<Rightarrow> writer" where
  "mark_all writable marks w = foldl (\<lambda>w (loc, status). markRoute writable (Some loc) status w) w marks"

section \<open>Generated blocks\<close>

lemma dropWhile_ws: "\<forall>c\<in>set ind. is_ws c \<Longrightarrow> dropWhile is_ws (ind @ s) = dropWhile is_ws s"
  by (induction ind) auto

lemma trim_indented: "\<forall>c\<in>set ind. is_ws c \<Longrightarrow> trim (ind @ s) = trim s"
  by (simp add: trim_def dropWhile_ws)

lemma trim_cons: "\<not> is_ws c \<Longrightarrow> trim (c # s) = c # rev (dropWhile is_ws (rev s))"
  by (simp add: trim_def dropWhile_append)

lemma trim_leading_space: "trim (CHR '' '' # s) = trim s"
  by (simp add: trim_def is_ws_def)

lemma contains_indented:
  "\<forall>c\<in>set ind. is_ws c \<Longrightarrow> \<not> is_ws p \<Longrightarrow> contains (ind @ s) (p # ps) \<longleftrightarrow> contains s (p # ps)"
  by (induction ind) (auto simp: contains_def startsWith_def)

lemma index_headless: "p \<notin> set ind \<Longrightarrow> indexOf (ind @ (p # ps) @ s) (p # ps) = Some (length ind)"
proof (induction ind)
  case Nil
  then show ?case using startsWith_append [of "p # ps" s] by simp
next
  case (Cons c ind)
  then have "c \<noteq> p" by auto
  with Cons show ?case by (simp add: startsWith_def)
qed

lemma prefix_head:
  obtains ps where "COMMENT_PREFIX = CHR ''['' # ps"
  by (rule that) (rule COMMENT_PREFIX_def)

lemma bracket_not_ws: "\<not> is_ws (CHR ''['')"
  by (simp add: is_ws_def)

lemma prefix_indented: "\<forall>c\<in>set ind. is_ws c \<Longrightarrow> has_prefix (ind @ s) \<longleftrightarrow> has_prefix s"
  unfolding has_prefix_def by (metis prefix_head contains_indented bracket_not_ws)

lemma index_skip: "CHR ''['' \<notin> set ind \<Longrightarrow> indexOf (ind @ COMMENT_PREFIX @ s) COMMENT_PREFIX = Some (length ind)"
  by (metis prefix_head index_headless)

lemma indent_ws: "\<forall>c\<in>set (indent_of line). is_ws c"
  unfolding indent_of_def by (auto dest: set_takeWhileD)

lemma length_block [simp]: "length (buildOptimizationBlock indent ss) = 4"
  by (simp add: buildOptimizationBlock_def Let_def)

lemma head_trimmed: "trim ''/** [Auto generated by http-native]'' = ''/** [Auto generated by http-native]''"
  by code_simp

lemma star_line: "\<exists>r. trim ('' * '' @ t) = CHR ''*'' # r \<and> r \<noteq> ''/''"
proof -
  have "trim ('' * '' @ t) = trim (CHR ''*'' # CHR '' '' # t)" by (simp add: trim_leading_space)
  also have "\<dots> = CHR ''*'' # rev (dropWhile is_ws (rev (CHR '' '' # t)))" by (rule trim_cons) (simp add: is_ws_def)
  finally show ?thesis
    by (cases "\<forall>c\<in>set t. is_ws c") (auto simp: dropWhile_append is_ws_def)
qed

lemma block_lines:
  assumes "\<forall>c\<in>set ind. is_ws c"
  obtains l0 l1 l2 l3 where "buildOptimizationBlock ind ss = [l0, l1, l2, l3]"
    "opens_doc l0" "\<not> opens_doc l1" "\<not> opens_doc l2" "\<not> opens_doc l3"
    "\<not> closes_doc l0" "\<not> closes_doc l1" "\<not> closes_doc l2" "closes_doc l3" "has_prefix l1" "\<not> blank l3"
    "\<not> startsWith (trim l0) ''//''" "\<not> has_prefix l0"
proof -
  let ?d = "set_order (filter (\<lambda>s. s \<noteq> []) (map trim ss))"
  let ?t = "COMMENT_PREFIX @ '' '' @ join '' | '' ?d" and ?u = "join '' '' (map describe ?d)"
  have tr: "trim (ind @ ''/** [Auto generated by http-native]'') = ''/** [Auto generated by http-native]''"
      "trim (ind @ '' */'') = ''*/''"
    unfolding trim_indented [OF assms] by code_simp+
  have ts: "\<exists>r. trim (ind @ '' * '' @ t) = CHR ''*'' # r \<and> r \<noteq> ''/''" for t
    unfolding trim_indented [OF assms] by (rule star_line)
  obtain r1 r2 where r: "trim (ind @ '' * '' @ ?t) = CHR ''*'' # r1" "r1 \<noteq> ''/''"
      "trim (ind @ '' * '' @ ?u) = CHR ''*'' # r2" "r2 \<noteq> ''/''"
    using ts by meson
  have h: "has_prefix (ind @ '' * '' @ ?t)"
    unfolding has_prefix_def contains_iff by (metis append_assoc)
  have h0: "\<not> has_prefix (ind @ ''/** [Auto generated by http-native]'')"
    unfolding prefix_indented [OF assms] by code_simp
  show thesis
    by (rule that [of "ind @ ''/** [Auto generated by http-native]''" "ind @ '' * '' @ ?t" "ind @ '' * '' @ ?u" "ind @ '' */''"])
      (simp_all only: buildOptimizationBlock_def Let_def opens_doc_def closes_doc_def blank_def tr r h h0,
       simp_all add: startsWith_def r)
qed

lemma trimmed_ends:
  assumes "trim s = s" "s \<noteq> []"
  shows "\<not> is_ws (hd s)" "\<not> is_ws (last s)"
proof -
  have l: "length (trim t) \<le> length (dropWhile is_ws t)" for t
    unfolding trim_def length_rev by (metis length_dropWhile_le length_rev)
  show "\<not> is_ws (hd s)"
  proof
    assume "is_ws (hd s)"
    then have "dropWhile is_ws s = dropWhile is_ws (tl s)" using assms(2) by (cases s) auto
    then have "length (dropWhile is_ws s) < length s"
      using assms(2) length_dropWhile_le [of is_ws "tl s"] by (cases s) auto
    with l [of s] assms(1) show False by simp
  qed
  have "dropWhile is_ws (rev (dropWhile is_ws s)) \<noteq> []" using assms by (metis rev.simps(1) trim_def)
  then have "\<not> is_ws (hd (dropWhile is_ws (rev (dropWhile is_ws s))))" by (rule hd_dropWhile)
  then show "\<not> is_ws (last s)" using assms(1) by (metis hd_rev rev_rev_ident trim_def)
qed

lemma trim_padded:
  assumes "trim s = s" "s \<noteq> []"
  shows "trim (CHR '' '' # s) = s" "trim (CHR '' '' # s @ '' '') = s"
proof -
  show "trim (CHR '' '' # s) = s" using assms by (simp add: trim_leading_space)
  have w: "is_ws (CHR '' '')" by (simp add: is_ws_def)
  obtain c cs where c: "s = c # cs" "\<not> is_ws c" using trimmed_ends(1) [OF assms] assms(2) by (cases s) auto
  obtain d ds where d: "rev s = d # ds" "\<not> is_ws d"
    using trimmed_ends(2) [OF assms] assms(2) by (metis hd_rev list.exhaust list.sel(1) rev_is_Nil_conv)
  have f: "dropWhile is_ws (s @ '' '') = s @ '' ''" using c by simp
  have b: "dropWhile is_ws (rev (s @ '' '')) = rev s" using d w by simp
  show "trim (CHR '' '' # s @ '' '') = s"
    unfolding trim_leading_space by (simp only: trim_def f b rev_rev_ident)
qed

definition clean_status :: "string \<Rightarrow> bool" where
  "clean_status s \<longleftrightarrow> s \<noteq> [] \<and> trim s = s \<and> CHR ''|'' \<notin> set s"

lemma items_of_joined:
  "ss \<noteq> [] \<Longrightarrow> \<forall>s\<in>set ss. clean_status s \<Longrightarrow> status_items (CHR '' '' # join '' | '' ss) = ss"
proof (induction "'' | ''" ss rule: join.induct)
  case (2 s)
  then show ?case
    using split_on_single [of "CHR ''|''" "CHR '' '' # s"] by (simp add: status_items_def clean_status_def trim_padded)
next
  case (3 s t ss)
  let ?r = "CHR '' '' # join '' | '' (t # ss)"
  have "split_on (CHR ''|'') ((CHR '' '' # s @ '' '') @ CHR ''|'' # ?r) = (CHR '' '' # s @ '' '') # split_on (CHR ''|'') ?r"
    using 3 by (intro split_on_sep) (auto simp: clean_status_def)
  then have "status_items (CHR '' '' # join '' | '' (s # t # ss)) = s # status_items ?r"
    using 3 by (simp add: status_items_def clean_status_def trim_padded)
  then show ?case using 3 by simp
qed simp

lemma set_order_distinct: "distinct xs \<Longrightarrow> set_order xs = xs"
  by (simp add: set_order_def distinct_remdups_id)

lemma clean_deduped:
  "distinct ss \<Longrightarrow> \<forall>s\<in>set ss. clean_status s \<Longrightarrow> set_order (filter (\<lambda>s. s \<noteq> []) (map trim ss)) = ss"
proof -
  assume a: "distinct ss" "\<forall>s\<in>set ss. clean_status s"
  then have "map trim ss = ss" "filter (\<lambda>s. s \<noteq> []) ss = ss"
    by (auto simp: clean_status_def intro: map_idI)
  then show ?thesis using a by (simp add: set_order_distinct)
qed

lemma block_statuses:
  assumes "\<forall>c\<in>set ind. is_ws c" "ss \<noteq> []" "distinct ss" "\<forall>s\<in>set ss. clean_status s"
  shows "parseStatusesFromLines (buildOptimizationBlock ind ss) = ss"
proof -
  obtain l0 l1 l2 l3 where b: "buildOptimizationBlock ind ss = [l0, l1, l2, l3]" "\<not> has_prefix l0" "has_prefix l1"
    using block_lines [OF assms(1), of ss] by metis
  have l1: "l1 = (ind @ '' * '') @ COMMENT_PREFIX @ CHR '' '' # join '' | '' ss"
    using b(1) clean_deduped [OF assms(3,4)] by (simp add: buildOptimizationBlock_def)
  have "indexOf l1 COMMENT_PREFIX = Some (length (ind @ '' * ''))"
    unfolding l1 using assms(1) bracket_not_ws by (intro index_skip) auto
  then have "the (indexOf l1 COMMENT_PREFIX) + length COMMENT_PREFIX = length ((ind @ '' * '') @ COMMENT_PREFIX)"
    by (simp only: length_append option.sel)
  then have "drop (the (indexOf l1 COMMENT_PREFIX) + length COMMENT_PREFIX) l1 = CHR '' '' # join '' | '' ss"
    unfolding l1 by (metis append_assoc append_eq_conv_conj)
  then show ?thesis using items_of_joined [OF assms(2,4)] by (simp only: parseStatusesFromLines_def b) (simp add: b)
qed

section \<open>Files with comments above their routes\<close>

text \<open>\<open>A n\<close> are the statuses of source line \<open>n\<close>; the first \<open>k\<close> lines of a file with its comments.\<close>

type_synonym annotations = "nat \<Rightarrow> string list option"

definition comment_of :: "annotations \<Rightarrow> string list \<Rightarrow> nat \<Rightarrow> string list" where
  "comment_of A base i =
     (case A (Suc i) of None \<Rightarrow> [] | Some ss \<Rightarrow> buildOptimizationBlock (indent_of (base ! i)) ss)"

definition rendered :: "annotations \<Rightarrow> string list \<Rightarrow> nat \<Rightarrow> nat \<Rightarrow> string list" where
  "rendered A base i k = concat (map (\<lambda>i. comment_of A base i @ [base ! i]) [i..<k])"

abbreviation render :: "annotations \<Rightarrow> string list \<Rightarrow> nat \<Rightarrow> string list" where
  "render A base \<equiv> rendered A base 0"

lemma render_Suc: "render A base (Suc k) = render A base k @ comment_of A base k @ [base ! k]"
  by (simp add: rendered_def)

lemma rendered_split: "i \<le> j \<Longrightarrow> j \<le> k \<Longrightarrow> rendered A base i k = rendered A base i j @ rendered A base j k"
  using upt_add_eq_append [of i j "k - j"] by (simp add: rendered_def)

lemma render_split: "i \<le> k \<Longrightarrow> render A base k = render A base i @ rendered A base i k"
  using upt_add_eq_append [of 0 i "k - i"] by (simp add: rendered_def)

lemma render_line:
  "i < k \<Longrightarrow> render A base k = render A base i @ comment_of A base i @ base ! i # rendered A base (Suc i) k"
  by (simp add: render_split [of "Suc i" k] render_Suc)

lemma rendered_cong: "(\<And>j. i \<le> j \<Longrightarrow> j < k \<Longrightarrow> A (Suc j) = B (Suc j)) \<Longrightarrow> rendered A base i k = rendered B base i k"
  unfolding rendered_def comment_of_def by (intro arg_cong [where f = concat] map_cong) auto

lemma rendered_unmarked:
  assumes "i \<le> k" "k \<le> length base" "\<And>j. i \<le> j \<Longrightarrow> j < k \<Longrightarrow> A (Suc j) = None"
  shows "rendered A base i k = drop i (take k base)"
proof -
  have "rendered A base i k = concat (map (\<lambda>j. [base ! j]) [i..<k])"
    unfolding rendered_def comment_of_def by (intro arg_cong [where f = concat] map_cong) (auto simp: assms(3))
  also have "\<dots> = map (\<lambda>j. base ! j) [i..<k]" by (simp add: concat_map_singleton)
  also have "\<dots> = drop i (take k base)"
    using assms(1,2) by (intro nth_equalityI) (auto simp: less_diff_conv add.commute)
  finally show ?thesis .
qed

lemma render_none: "render (\<lambda>_. None) base (length base) = base"
  by (subst rendered_unmarked) auto

text \<open>Comments of the program itself: a closing line has its opening line, and no route is marked inside.\<close>

definition tidy_above :: "string list \<Rightarrow> nat set \<Rightarrow> bool" where
  "tidy_above base M \<longleftrightarrow> (\<forall>i<length base. closes_doc (base ! i) \<longrightarrow>
     (\<exists>j\<le>i. opens_doc (base ! j) \<and> (\<forall>k\<in>{j..i}. Suc k \<notin> M)))"

definition good_notes :: "annotations \<Rightarrow> string list \<Rightarrow> bool" where
  "good_notes A base \<longleftrightarrow> (\<forall>i<length base. \<forall>ss. A (Suc i) = Some ss \<longrightarrow>
     \<not> blank (base ! i) \<and> ss \<noteq> [] \<and> distinct ss \<and> (\<forall>s\<in>set ss. clean_status s))"

lemma take_above:
  assumes "up = dropWhile blank (rev (take t lines))" "n < length up"
  shows "drop (length up - Suc n) (take (length up) lines) = rev (take (Suc n) up)"
proof -
  obtain pre where "rev (take t lines) = pre @ up" by (metis assms(1) takeWhile_dropWhile_id)
  then have t: "take t lines = rev up @ rev pre" by (metis rev_append rev_rev_ident)
  then have "take (length up) (take t lines) = rev up" by simp
  moreover have "length up \<le> t" using arg_cong [OF t, of length] by simp
  ultimately have "take (length up) lines = rev up" by (simp add: min_def)
  then show ?thesis using assms(2) by (simp add: rev_take)
qed

lemma skip_blank:
  assumes "good_notes A base" "i \<le> length base"
  shows "dropWhile blank (rev (render A base i)) = []
    \<or> (\<exists>k<i. dropWhile blank (rev (render A base i)) = rev (render A base (Suc k)))"
  using assms(2)
proof (induction i)
  case 0
  then show ?case by (simp add: rendered_def)
next
  case (Suc i)
  show ?case
  proof (cases "blank (base ! i)")
    case True
    then have "A (Suc i) = None"
      using assms(1) Suc.prems unfolding good_notes_def by (metis Suc_le_lessD option.exhaust)
    then have "dropWhile blank (rev (render A base (Suc i))) = dropWhile blank (rev (render A base i))"
      using True by (simp add: render_Suc comment_of_def)
    then show ?thesis using Suc by (metis Suc_leD less_SucI)
  next
    case False
    then have "dropWhile blank (rev (render A base (Suc i))) = rev (render A base (Suc i))" by (simp add: render_Suc)
    then show ?thesis by blast
  qed
qed

lemma no_block_found:
  assumes g: "good_notes A base" and t: "tidy_above base {n. A n \<noteq> None}" and np: "\<forall>l\<in>set base. \<not> has_prefix l"
    and i: "i < length base" "take target lines = render A base i"
  shows "findExistingOptimizationBlock lines target = None"
proof -
  define up where "up = dropWhile blank (rev (take target lines))"
  consider "up = []" | k where "k < i" "up = rev (render A base (Suc k))"
    using skip_blank [OF g, of i] i unfolding up_def by fastforce
  then show ?thesis
  proof cases
    case 2
    show ?thesis
    proof (cases "closes_doc (base ! k)")
      case True
      then obtain j where j: "j \<le> k" "opens_doc (base ! j)" "\<forall>k'\<in>{j..k}. A (Suc k') = None"
        using t i 2(1) unfolding tidy_above_def by (metis (mono_tags, lifting) less_trans mem_Collect_eq)
      let ?own = "rev (drop j (take (Suc k) base))" and ?body = "takeWhile (\<lambda>l. \<not> opens_doc l) up"
      have "rendered A base j (Suc k) = drop j (take (Suc k) base)"
        by (rule rendered_unmarked) (use j i 2 in auto)
      then have a: "up = ?own @ rev (render A base j)"
        using 2 j(1) by (simp add: render_split [of j "Suc k"] del: upt_Suc)
      have "base ! j \<in> set ?own"
        using j(1) i 2(1) by (auto simp: in_set_conv_nth intro!: exI [of _ 0])
      then have tw: "?body = takeWhile (\<lambda>l. \<not> opens_doc l) ?own"
        unfolding a using j(2) by (intro takeWhile_append1) auto
      have lt: "length ?body < length ?own"
        using \<open>base ! j \<in> set ?own\<close> j(2) tw
        by (metis (no_types, lifting) length_takeWhile_le linorder_neqE_nat not_le set_takeWhileD takeWhile_eq_take take_all)
      have "drop (length up - Suc (length ?body)) (take (length up) lines) = rev (take (Suc (length ?body)) up)"
        by (rule take_above [OF up_def]) (use lt a in simp)
      also have "\<dots> = rev (take (Suc (length ?body)) ?own)" using lt a by (metis Suc_leI append_Nil2 diff_is_0_eq take0 take_append)
      finally have "\<not> list_ex has_prefix (drop (length up - Suc (length ?body)) (take (length up) lines))"
        using np by (auto simp: list_ex_iff dest!: in_set_takeD in_set_dropD)
      then show ?thesis by (simp add: findExistingOptimizationBlock_def up_def [symmetric] Let_def)
    next
      case False
      then show ?thesis using 2 by (simp add: findExistingOptimizationBlock_def up_def [symmetric] render_Suc)
    qed
  qed (simp add: findExistingOptimizationBlock_def up_def [symmetric])
qed

lemma block_found:
  assumes "good_notes A base" "i < length base" "A (Suc i) = Some ss"
    and "take target lines = render A base i @ comment_of A base i" "target \<le> length lines"
  shows "findExistingOptimizationBlock lines target
    = Some (length (render A base i), length (render A base i) + 3, ss)"
proof -
  let ?b = "buildOptimizationBlock (indent_of (base ! i)) ss" and ?r = "render A base i"
  obtain l0 l1 l2 l3 where b: "?b = [l0, l1, l2, l3]" "opens_doc l0" "\<not> opens_doc l1" "\<not> opens_doc l2" "\<not> opens_doc l3"
      "closes_doc l3" "has_prefix l1" "\<not> blank l3"
    using block_lines [OF indent_ws, of "base ! i" ss] by metis
  have c: "take target lines = ?r @ [l0, l1, l2, l3]" using assms(3,4) b(1) by (simp add: comment_of_def)
  have tl: "target = length ?r + 4" using arg_cong [OF c, of length] assms(5) by simp
  have up: "dropWhile blank (rev (take target lines)) = l3 # l2 # l1 # l0 # rev ?r" using b(8) by (simp add: c)
  have "drop (length ?r) (take (Suc (Suc (Suc (Suc (length ?r))))) lines) = [l0, l1, l2, l3]"
    using c tl by (simp add: eval_nat_numeral)
  moreover have "parseStatusesFromLines [l0, l1, l2, l3] = ss"
    using block_statuses [OF indent_ws, of ss "base ! i"] assms(1-3) b(1) by (simp add: good_notes_def)
  ultimately show ?thesis
    using b by (simp add: findExistingOptimizationBlock_def up Let_def)
qed

section \<open>One annotation\<close>

definition file_ok :: "annotations \<Rightarrow> string list \<Rightarrow> file_state \<Rightarrow> bool" where
  "file_ok A base st \<longleftrightarrow> fs_baseLines st = base \<and> fs_lines st = render A base (length base)
     \<and> fs_removedBeforeLine st = replicate (Suc (length base)) 0
     \<and> (\<forall>k. min k (length base) + countInsertedBefore (fs_insertedAtOriginalLine st) k
            = length (render A base (min k (length base))))"

lemma count_sorted:
  "countInsertedBefore (sort_key fst (ins @ [(n, c)])) k = countInsertedBefore ins k + (if n \<le> k then c else 0)"
proof -
  have "countInsertedBefore xs k = sum_mset (image_mset snd (filter_mset (\<lambda>e. fst e \<le> k) (mset xs)))" for xs
    by (simp add: countInsertedBefore_def flip: sum_mset_sum_list)
  then show ?thesis by simp
qed

lemma normalize_plain: "file_ok A base st \<Longrightarrow> 1 \<le> n \<Longrightarrow> normalizeSourceLine st n = n"
  by (simp add: file_ok_def normalizeSourceLine_def Let_def nth_append flip: replicate_Suc)

lemma annotate_outside:
  assumes "file_ok A base st" "length base < n"
  shows "annotate_state n status r st = None"
proof -
  have "length base + countInsertedBefore (fs_insertedAtOriginalLine st) n = length (render A base (length base))"
    using assms by (simp add: file_ok_def) (metis less_imp_le_nat min.absorb2)
  then have "length (fs_lines st) \<le> n + countInsertedBefore (fs_insertedAtOriginalLine st) n - 1"
    using assms by (simp add: file_ok_def)
  then show ?thesis
    using assms(2) normalize_plain [OF assms(1), of n] by (simp add: annotate_state_def Let_def)
qed

lemma annotate_first:
  assumes ok: "file_ok A base st" and g: "good_notes A base" and t: "tidy_above base {n. A n \<noteq> None}"
    and np: "\<forall>l\<in>set base. \<not> has_prefix l" and i: "i < length base" "A (Suc i) = None"
  shows "\<exists>st'. annotate_state (Suc i) status r st = Some st' \<and> file_ok (A(Suc i \<mapsto> [status])) base st'
    \<and> fs_eol st' = fs_eol st"
proof -
  let ?A = "A(Suc i \<mapsto> [status])" and ?t = "length (render A base i)" and ?ins = "fs_insertedAtOriginalLine st"
  have lines: "fs_lines st = render A base i @ base ! i # rendered A base (Suc i) (length base)"
    using ok i render_line [of i "length base" A base] by (simp add: file_ok_def comment_of_def)
  have "Suc i + countInsertedBefore ?ins (Suc i) = Suc ?t"
    using ok i by (auto simp: file_ok_def render_Suc comment_of_def dest!: spec [of _ "Suc i"])
  then have target: "Suc i + countInsertedBefore ?ins (Suc i) - 1 = ?t" by simp
  have nb: "findExistingOptimizationBlock (fs_lines st) ?t = None"
    by (rule no_block_found [OF g t np i(1)]) (simp add: lines)
  have ns: "(if ?t = 0 then None else parseSingleLineComment (fs_lines st ! (?t - 1)) ind) = None" for ind
  proof (cases i)
    case (Suc k)
    then have "fs_lines st ! (?t - 1) = base ! k" by (simp add: lines nth_append render_Suc)
    moreover have "\<not> has_prefix (base ! k)" using np i(1) Suc by simp
    moreover have "startsWith l (x @ ''// '' @ COMMENT_PREFIX) \<Longrightarrow> has_prefix l" for l x
      unfolding has_prefix_def contains_iff startsWith_iff by (metis append_assoc)
    ultimately show ?thesis by (auto simp: parseSingleLineComment_def Let_def)
  qed (simp add: rendered_def)
  let ?b = "buildOptimizationBlock (indent_of (base ! i)) [status]"
  let ?st = "note_inserted (Suc i) (length ?b) (st\<lparr>fs_lines := insert_lines ?t 0 ?b (fs_lines st)\<rparr>)"
  have "annotate_state (Suc i) status r st = Some ?st"
  proof -
    have "fs_lines st ! ?t = base ! i" "?t < length (fs_lines st)" by (simp_all add: lines)
    then show ?thesis
      using normalize_plain [OF ok, of "Suc i"] target nb by (simp only: annotate_state_def Let_def ns) simp
  qed
  moreover have "file_ok ?A base ?st"
  proof -
    have low: "render ?A base i = render A base i" by (rule rendered_cong) auto
    have high: "rendered ?A base (Suc i) k = rendered A base (Suc i) k" for k by (rule rendered_cong) auto
    have all: "k \<le> i \<Longrightarrow> render ?A base k = render A base k" for k by (rule rendered_cong) auto
    have c: "comment_of ?A base i = ?b" "comment_of A base i = []" using i(2) by (simp_all add: comment_of_def)
    have "i < k \<Longrightarrow> length (render ?A base k) = length (render A base k) + 4" for k
      by (simp add: render_line [of i k] low high c)
    then have cnt: "length (render ?A base (min k (length base)))
        = length (render A base (min k (length base))) + (if Suc i \<le> k then 4 else 0)" for k
      using all [of "min k (length base)"] i(1) by auto
    have "insert_lines ?t 0 ?b (fs_lines st) = render ?A base (length base)"
      using render_line [of i "length base" ?A base] i(1) by (simp add: insert_lines_def lines low high c)
    then show ?thesis using ok cnt by (simp add: file_ok_def note_inserted_def count_sorted)
  qed
  ultimately show ?thesis by (auto simp: note_inserted_def)
qed

lemma annotate_again:
  assumes ok: "file_ok A base st" and g: "good_notes A base" and i: "i < length base" "A (Suc i) = Some ss"
  shows "\<exists>st'. annotate_state (Suc i) status False st = Some st'
    \<and> file_ok (A(Suc i \<mapsto> mergeStatuses ss status)) base st' \<and> fs_eol st' = fs_eol st"
proof -
  let ?A = "A(Suc i \<mapsto> mergeStatuses ss status)" and ?p = "length (render A base i)"
  let ?ins = "fs_insertedAtOriginalLine st" and ?ind = "indent_of (base ! i)"
  have lines: "fs_lines st = render A base i @ comment_of A base i @ base ! i # rendered A base (Suc i) (length base)"
    using ok i render_line [of i "length base" A base] by (simp add: file_ok_def)
  have c4: "length (comment_of A base i) = 4" "length (comment_of ?A base i) = 4" using i by (simp_all add: comment_of_def)
  have "Suc i + countInsertedBefore ?ins (Suc i) = length (render A base (Suc i))"
    using ok i(1) by (auto simp: file_ok_def dest!: spec [of _ "Suc i"])
  then have target: "Suc i + countInsertedBefore ?ins (Suc i) - 1 = ?p + 4" by (simp add: render_Suc c4)
  have fb: "findExistingOptimizationBlock (fs_lines st) (?p + 4) = Some (?p, ?p + 3, ss)"
    by (rule block_found [OF g i]) (simp_all add: lines c4)
  let ?st = "st\<lparr>fs_lines := insert_lines ?p 4 (buildOptimizationBlock ?ind (mergeStatuses ss status)) (fs_lines st)\<rparr>"
  have at: "fs_lines st ! (?p + 4) = base ! i" "?p + 4 < length (fs_lines st)"
    using c4 by (simp_all add: lines nth_append)
  have "annotate_state (Suc i) status False st = Some ?st"
    using at(2) normalize_plain [OF ok, of "Suc i"] by (simp only: annotate_state_def Let_def target fb at(1)) simp
  moreover have "file_ok ?A base ?st"
  proof -
    have low: "render ?A base i = render A base i" by (rule rendered_cong) auto
    have high: "rendered ?A base (Suc i) k = rendered A base (Suc i) k" for k by (rule rendered_cong) auto
    have all: "k \<le> i \<Longrightarrow> render ?A base k = render A base k" for k by (rule rendered_cong) auto
    have "i < k \<Longrightarrow> length (render ?A base k) = length (render A base k)" for k
      by (simp add: render_line [of i k] low high c4)
    then have "length (render ?A base k) = length (render A base k)" for k using all [of k] by (cases "k \<le> i") auto
    moreover have "insert_lines ?p 4 (buildOptimizationBlock ?ind (mergeStatuses ss status)) (fs_lines st)
        = render ?A base (length base)"
      using render_line [of i "length base" ?A base] i(1) c4(1)
      by (simp add: insert_lines_def lines low high) (simp add: comment_of_def)
    ultimately show ?thesis using ok by (simp add: file_ok_def)
  qed
  ultimately show ?thesis by auto
qed

section \<open>The marks of a file\<close>

text \<open>What the marks say of each line: its statuses in the order of their first mention.\<close>

definition noted :: "(nat \<times> string) list \<Rightarrow> annotations" where
  "noted marks n = (let ss = map snd (filter (\<lambda>m. fst m = n) marks) in if ss = [] then None else Some (set_order ss))"

lemma set_set_order [simp]: "set (set_order ss) = set ss"
  by (simp add: set_order_def)

lemma distinct_set_order [simp]: "distinct (set_order ss)"
  by (simp add: set_order_def)

lemma set_order_snoc: "set_order (ss @ [s]) = mergeStatuses (set_order ss) s"
  by (simp add: set_order_def mergeStatuses_def)

lemma set_order_Nil [simp]: "set_order ss = [] \<longleftrightarrow> ss = []"
  by (simp add: set_order_def)

lemma merge_empty: "set_order [] = []" "mergeStatuses [] s = [s]"
  by (simp_all add: set_order_def mergeStatuses_def)

lemma noted_snoc:
  "noted (marks @ [(n, s)]) = (noted marks)(n \<mapsto> (case noted marks n of None \<Rightarrow> [s] | Some ss \<Rightarrow> mergeStatuses ss s))"
  by (rule ext) (auto simp: noted_def Let_def set_order_snoc merge_empty)

lemma noted_None: "noted marks n = None \<longleftrightarrow> n \<notin> fst ` set marks"
  by (force simp: noted_def Let_def filter_empty_conv)

lemma noted_mem: "noted marks n = Some ss \<Longrightarrow> s \<in> set ss \<longleftrightarrow> (n, s) \<in> set marks"
  by (force simp: noted_def Let_def split: if_splits)

lemma good_noted:
  assumes "\<forall>(n, s)\<in>set marks. clean_status s \<and> (n \<le> length base \<longrightarrow> \<not> blank (base ! (n - 1)))"
  shows "good_notes (noted marks) base"
  unfolding good_notes_def
proof (intro allI impI)
  fix i ss
  assume i: "i < length base" and ss: "noted marks (Suc i) = Some ss"
  then have "Suc i \<in> fst ` set marks" by (metis noted_None option.distinct(1))
  then have "\<not> blank (base ! i)" using assms i by fastforce
  moreover have "ss \<noteq> []" "distinct ss" using ss by (auto simp: noted_def Let_def split: if_splits)
  moreover have "\<forall>s\<in>set ss. clean_status s" using assms noted_mem [OF ss] by fast
  ultimately show "\<not> blank (base ! i) \<and> ss \<noteq> [] \<and> distinct ss \<and> (\<forall>s\<in>set ss. clean_status s)" by simp
qed

lemma no_colon: "CHR '':'' \<notin> set (nat_digits n)"
  using nat_digits_digits [of n] by (auto simp: is_digit_def)

lemma key_parts:
  assumes "CHR '':'' \<notin> set a" "CHR '':'' \<notin> set b" "a @ CHR '':'' # s = b @ CHR '':'' # t"
  shows "a = b \<and> s = t"
  using assms(1,2,3)
proof (induction a arbitrary: b)
  case Nil
  then show ?case by (cases b) auto
next
  case (Cons c a)
  then show ?case by (cases b) auto
qed

lemma digits_inj: "nat_digits m = nat_digits n \<longleftrightarrow> m = n"
  by (metis digits_val_nat_digits)

lemma route_key_eq: "route_key \<lparr>sl_filePath = p, sl_line = m\<rparr> = route_key \<lparr>sl_filePath = p, sl_line = n\<rparr> \<longleftrightarrow> m = n"
  by (simp add: route_key_def digits_inj)

lemma dedupe_key_eq:
  "route_key \<lparr>sl_filePath = p, sl_line = m\<rparr> @ CHR '':'' # s = route_key \<lparr>sl_filePath = p, sl_line = n\<rparr> @ CHR '':'' # t
    \<longleftrightarrow> m = n \<and> s = t"
  using key_parts [OF no_colon no_colon, of m s n t] by (auto simp: route_key_def digits_inj)

definition file_marks :: "string \<Rightarrow> (nat \<times> string) list \<Rightarrow> (source_location \<times> string) list" where
  "file_marks p marks = map (\<lambda>(n, s). (\<lparr>sl_filePath = p, sl_line = n\<rparr>, s)) marks"

definition writer_ok :: "string \<Rightarrow> string list \<Rightarrow> string \<Rightarrow> (nat \<times> string) list \<Rightarrow> writer \<Rightarrow> bool" where
  "writer_ok p base eol marks w \<longleftrightarrow>
     set (wr_applied w) = {route_key \<lparr>sl_filePath = p, sl_line = n\<rparr> @ CHR '':'' # s | n s. (n, s) \<in> set marks}
   \<and> set (wr_initializedRoutes w) = {route_key \<lparr>sl_filePath = p, sl_line = n\<rparr> | n s. (n, s) \<in> set marks}
   \<and> wr_disk w p = Some (join eol (render (noted marks) base (length base)))
   \<and> (case map_of (wr_files w) p of
        None \<Rightarrow> marks = []
      | Some st \<Rightarrow> file_ok (noted marks) base st \<and> fs_eol st = eol)"

lemma trim_part: "\<exists>a b. l = a @ trim l @ b"
proof -
  have "l = takeWhile is_ws l @ dropWhile is_ws l" by simp
  moreover have "dropWhile is_ws l = trim l @ rev (takeWhile is_ws (rev (dropWhile is_ws l)))"
    unfolding trim_def by (metis rev_append rev_rev_ident takeWhile_dropWhile_id)
  ultimately show ?thesis by metis
qed

lemma plain_trim: "\<not> has_prefix l \<Longrightarrow> \<not> contains (trim l) COMMENT_PREFIX"
  using trim_part [of l] unfolding has_prefix_def contains_iff by (metis append_assoc)

lemma strip_plain:
  "\<forall>l\<in>set lines. \<not> has_prefix l \<Longrightarrow> strip_loop r lines = (lines, replicate (length lines) r)"
proof (induction lines arbitrary: r)
  case (Cons l lines)
  have "\<not> contains (trim l) COMMENT_PREFIX" using Cons.prems by (simp add: plain_trim)
  moreover have "generated_block (l # lines) = None"
    using Cons.prems by (auto simp: generated_block_def Let_def list_ex_iff dest!: in_set_takeD)
  ultimately show ?case using Cons by simp
qed simp

lemma first_state:
  assumes "wr_disk w p = Some content" "\<forall>l\<in>set (split_lines content). \<not> has_prefix l" "map_of (wr_files w) p = None"
  shows "\<exists>st. getFileState writable p w = (Some st, put_state p st w) \<and> file_ok (\<lambda>_. None) (split_lines content) st
    \<and> fs_eol st = (if contains content [CR, LF] then [CR, LF] else [LF])"
proof -
  let ?ls = "split_lines content"
  have strip: "stripGeneratedOptimizationComments ?ls = (?ls, replicate (Suc (length ?ls)) 0)"
    by (simp add: stripGeneratedOptimizationComments_def strip_plain [OF assms(2)])
  have plain: "render (\<lambda>_. None) ?ls k = take k ?ls" if "k \<le> length ?ls" for k
    using that by (subst rendered_unmarked) auto
  have "file_ok (\<lambda>_. None) ?ls \<lparr>fs_eol = e, fs_lines = ?ls, fs_baseLines = ?ls,
      fs_removedBeforeLine = replicate (Suc (length ?ls)) 0, fs_insertedAtOriginalLine = []\<rparr>" for e
    by (simp add: file_ok_def plain countInsertedBefore_def)
  then show ?thesis using assms(1,3) by (simp add: getFileState_def strip Let_def)
qed

lemma mark_step:
  assumes ok: "writer_ok p base eol marks w" and wr: "writable p" "p \<noteq> []"
    and src: "\<forall>l\<in>set base. \<not> has_prefix l" "base = split_lines content" "join eol base = content"
      "eol = (if contains content [CR, LF] then [CR, LF] else [LF])"
    and new: "1 \<le> n" "clean_status s" and good: "good_notes (noted marks) base"
    and tidy: "tidy_above base {n. noted marks n \<noteq> None}"
  shows "writer_ok p base eol (marks @ [(n, s)]) (markRoute writable (Some \<lparr>sl_filePath = p, sl_line = n\<rparr>) s w)"
proof -
  let ?loc = "\<lparr>sl_filePath = p, sl_line = n\<rparr>" and ?marks = "marks @ [(n, s)]"
  let ?w = "w\<lparr>wr_applied := (route_key ?loc @ CHR '':'' # s) # wr_applied w,
    wr_initializedRoutes := route_key ?loc # wr_initializedRoutes w\<rparr>"
  have s: "trim (if s = [] then ''optimized'' else s) = s" "s \<noteq> []" using new(2) by (auto simp: clean_status_def)
  have dup: "route_key ?loc @ CHR '':'' # s \<in> set (wr_applied w) \<longleftrightarrow> (n, s) \<in> set marks"
    using ok by (auto simp: writer_ok_def dedupe_key_eq)
  have ini: "route_key ?loc \<in> set (wr_initializedRoutes w) \<longleftrightarrow> noted marks n \<noteq> None"
    using ok by (force simp: writer_ok_def route_key_eq noted_None)
  show ?thesis
  proof (cases "(n, s) \<in> set marks")
    case True
    then obtain ss where ss: "noted marks n = Some ss" "s \<in> set ss"
      by (metis noted_None noted_mem fst_conv image_eqI option.exhaust)
    then have "noted ?marks = noted marks" unfolding noted_snoc by (auto simp: mergeStatuses_def)
    moreover have "markRoute writable (Some ?loc) s w = w" using True dup s by (simp add: markRoute_def Let_def)
    ultimately show ?thesis using ok True by (auto simp: writer_ok_def insert_absorb split: option.splits)
  next
    case False
    let ?r = "noted marks n = None"
    have m: "markRoute writable (Some ?loc) s w = annotateFile writable p n s ?r ?w"
      using False dup ini s wr(2) by (simp add: markRoute_def Let_def)
    have "\<exists>st w1. getFileState writable p ?w = (Some st, w1) \<and> file_ok (noted marks) base st \<and> fs_eol st = eol
        \<and> map_of (wr_files w1) p = Some st \<and> wr_disk w1 = wr_disk w
        \<and> wr_applied w1 = wr_applied ?w \<and> wr_initializedRoutes w1 = wr_initializedRoutes ?w"
    proof (cases "map_of (wr_files w) p")
      case None
      then have e: "marks = []" using ok by (simp add: writer_ok_def)
      then have nn: "noted marks = (\<lambda>_. None)" by (auto simp: noted_def)
      then have "wr_disk ?w p = Some content" using ok src(3) by (simp add: writer_ok_def render_none)
      from first_state [OF this, of writable] show ?thesis
        using None src by (auto simp: put_state_def nn update_conv')
    next
      case (Some st)
      then show ?thesis using ok by (auto simp: getFileState_def writer_ok_def)
    qed
    then obtain st w1 where st: "getFileState writable p ?w = (Some st, w1)" "file_ok (noted marks) base st" "fs_eol st = eol"
        "map_of (wr_files w1) p = Some st" "wr_disk w1 = wr_disk w"
        "wr_applied w1 = wr_applied ?w" "wr_initializedRoutes w1 = wr_initializedRoutes ?w" by blast
    have keys: "set (wr_applied w1) = {route_key \<lparr>sl_filePath = p, sl_line = n\<rparr> @ CHR '':'' # s | n s. (n, s) \<in> set ?marks}"
        "set (wr_initializedRoutes w1) = {route_key \<lparr>sl_filePath = p, sl_line = n\<rparr> | n s. (n, s) \<in> set ?marks}"
      using ok st(6,7) by (auto simp: writer_ok_def)
    show ?thesis
    proof (cases "n \<le> length base")
      case True
      then obtain i where i: "n = Suc i" "i < length base" using new(1) by (cases n) auto
      have "\<exists>st'. annotate_state n s ?r st = Some st' \<and> file_ok (noted ?marks) base st' \<and> fs_eol st' = fs_eol st"
      proof (cases "noted marks n")
        case None
        then show ?thesis
          using annotate_first [OF st(2) good tidy src(1) i(2)] i(1) by (simp add: noted_snoc)
      next
        case (Some ss)
        then show ?thesis using annotate_again [OF st(2) good i(2)] i(1) by (simp add: noted_snoc)
      qed
      then obtain st' where "annotate_state n s ?r st = Some st'" "file_ok (noted ?marks) base st'" "fs_eol st' = eol"
        using st(3) by auto
      then show ?thesis
        unfolding m using st(1,5) keys wr(1)
        by (simp add: annotateFile_def persistState_def persist_def put_state_def writer_ok_def update_conv' file_ok_def)
    next
      case False
      have "render (noted ?marks) base k = render (noted marks) base k" if "k \<le> length base" for k
        by (rule rendered_cong) (use False that in \<open>auto simp: noted_snoc\<close>)
      then have "file_ok (noted ?marks) base st" using st(2) by (simp add: file_ok_def)
      moreover have "annotateFile writable p n s ?r ?w = w1"
        using annotate_outside [OF st(2)] False by (simp add: annotateFile_def st(1))
      ultimately show ?thesis
        unfolding m using st ok keys \<open>\<And>k. k \<le> length base \<Longrightarrow> render (noted ?marks) base k = render (noted marks) base k\<close>
        by (simp add: writer_ok_def)
    qed
  qed
qed

lemma marks_ok:
  assumes "createRouteDevCommentWriter True False False disk = Some w" "disk p = Some content" "writable p" "p \<noteq> []"
    and "base = split_lines content" "\<forall>l\<in>set base. \<not> has_prefix l" "join eol base = content"
    and "eol = (if contains content [CR, LF] then [CR, LF] else [LF])"
    and "\<forall>(n, s)\<in>set marks. 1 \<le> n \<and> clean_status s \<and> (n \<le> length base \<longrightarrow> \<not> blank (base ! (n - 1)))"
    and "tidy_above base (fst ` set marks)"
  shows "writer_ok p base eol marks (mark_all writable (file_marks p marks) w)"
  using assms(9,10)
proof (induction marks rule: rev_induct)
  case Nil
  have "noted [] = (\<lambda>_. None)" by (auto simp: noted_def)
  then show ?case
    using assms by (auto simp: writer_ok_def mark_all_def file_marks_def createRouteDevCommentWriter_def render_none)
next
  case (snoc m marks)
  obtain n s where m: "m = (n, s)" by (cases m)
  have t: "tidy_above base (fst ` set marks)" using snoc.prems(2) unfolding tidy_above_def by (metis (no_types, lifting) Un_iff image_Un set_append)
  then have "writer_ok p base eol marks (mark_all writable (file_marks p marks) w)" using snoc by auto
  moreover have "{n. noted marks n \<noteq> None} = fst ` set marks" by (auto simp: noted_None)
  moreover have "good_notes (noted marks) base" using snoc.prems(1) by (intro good_noted) fastforce
  ultimately have "writer_ok p base eol (marks @ [(n, s)]) (markRoute writable (Some \<lparr>sl_filePath = p, sl_line = n\<rparr>) s
      (mark_all writable (file_marks p marks) w))"
    using snoc.prems(1) t assms by (intro mark_step [where content = content]) (auto simp: m)
  then show ?case by (simp add: m mark_all_def file_marks_def)
qed

section \<open>Removing what was written\<close>

text \<open>The counterpart of \<^const>\<open>tidy_above\<close>: an opening line of the program is closed before the next route.\<close>

definition tidy_below :: "string list \<Rightarrow> nat set \<Rightarrow> bool" where
  "tidy_below base M \<longleftrightarrow> (\<forall>i<length base. opens_doc (base ! i) \<longrightarrow>
     (\<exists>j<length base. i \<le> j \<and> closes_doc (base ! j) \<and> (\<forall>k\<in>{i<..j}. Suc k \<notin> M)))"

lemma strip_block:
  "strip_loop r (buildOptimizationBlock (indent_of l) ss @ rest)
    = (fst (strip_loop (r + 4) rest), [r + 1..<r + 4 + 1] @ snd (strip_loop (r + 4) rest))"
proof -
  obtain l0 l1 l2 l3 where b: "buildOptimizationBlock (indent_of l) ss = [l0, l1, l2, l3]" "opens_doc l0"
      "\<not> closes_doc l0" "\<not> closes_doc l1" "\<not> closes_doc l2" "closes_doc l3" "has_prefix l1"
      "\<not> startsWith (trim l0) ''//''"
    using block_lines [OF indent_ws, of l ss] by metis
  have "generated_block (l0 # l1 # l2 # l3 # rest) = Some 4"
    using b by (simp add: generated_block_def Let_def)
  then have "strip_loop r (l0 # l1 # l2 # l3 # rest) = (fst (strip_loop (r + 4) rest), [r + 1..<r + 4 + 1] @ snd (strip_loop (r + 4) rest))"
    using b(8) by (simp add: case_prod_beta del: upt_Suc)
  then show ?thesis by (simp add: b(1))
qed

lemma rendered_empty [simp]: "rendered A base k k = []"
  by (simp add: rendered_def)

lemma rendered_line:
  "i < k \<Longrightarrow> rendered A base i k = comment_of A base i @ base ! i # rendered A base (Suc i) k"
  by (simp add: rendered_def upt_conv_Cons)

lemma not_generated:
  assumes "tidy_below base {n. A n \<noteq> None}" "\<forall>l\<in>set base. \<not> has_prefix l" "i < length base"
  shows "generated_block (base ! i # rendered A base (Suc i) (length base)) = None"
proof (cases "opens_doc (base ! i)")
  case True
  then obtain j where j: "j < length base" "i \<le> j" "closes_doc (base ! j)" "\<forall>k\<in>{i<..j}. A (Suc k) = None"
    using assms(1,3) unfolding tidy_below_def by (metis (mono_tags, lifting) mem_Collect_eq)
  have "rendered A base (Suc i) (Suc j) = drop (Suc i) (take (Suc j) base)"
    by (rule rendered_unmarked) (use j in auto)
  moreover have "rendered A base (Suc i) (length base) = rendered A base (Suc i) (Suc j) @ rendered A base (Suc j) (length base)"
    using j(1,2) by (intro rendered_split) auto
  ultimately have l: "base ! i # rendered A base (Suc i) (length base)
      = drop i (take (Suc j) base) @ rendered A base (Suc j) (length base)" (is "?l = ?own @ _")
    using j(1,2) Cons_nth_drop_Suc [of i "take (Suc j) base"] by simp
  have "base ! j \<in> set ?own" using j(1,2) by (auto simp: in_set_conv_nth intro!: exI [of _ "j - i"])
  then have tw: "takeWhile (\<lambda>l. \<not> closes_doc l) ?l = takeWhile (\<lambda>l. \<not> closes_doc l) ?own"
    unfolding l using j(3) by (intro takeWhile_append1) auto
  have "length (takeWhile (\<lambda>l. \<not> closes_doc l) ?own) < length ?own"
    using \<open>base ! j \<in> set ?own\<close> j(3)
    by (metis (no_types, lifting) length_takeWhile_le linorder_neqE_nat not_le set_takeWhileD takeWhile_eq_take take_all)
  then have "take (length (takeWhile (\<lambda>l. \<not> closes_doc l) ?l) + 1) ?l
      = take (length (takeWhile (\<lambda>l. \<not> closes_doc l) ?own) + 1) ?own"
    unfolding tw by (simp only: l) simp
  then have "\<not> list_ex has_prefix (take (length (takeWhile (\<lambda>l. \<not> closes_doc l) ?l) + 1) ?l)"
    using assms(2) by (auto simp: list_ex_iff dest!: in_set_takeD in_set_dropD)
  then show ?thesis by (simp only: generated_block_def Let_def if_False simp_thms) simp
next
  case False
  then show ?thesis by (simp add: generated_block_def)
qed

lemma strip_rendered:
  assumes "tidy_below base {n. A n \<noteq> None}" "\<forall>l\<in>set base. \<not> has_prefix l" "i \<le> length base"
  shows "fst (strip_loop r (rendered A base i (length base))) = drop i base"
  using assms(3)
proof (induction "length base - i" arbitrary: i r)
  case 0
  then show ?case by (simp add: rendered_def)
next
  case (Suc d)
  then have i: "i < length base" "d = length base - Suc i" by auto
  let ?rest = "rendered A base (Suc i) (length base)"
  have np: "\<not> contains (trim (base ! i)) COMMENT_PREFIX" using assms(2) i(1) plain_trim by simp
  have line: "fst (strip_loop r (base ! i # ?rest)) = base ! i # fst (strip_loop r ?rest)" for r
    using np not_generated [OF assms(1,2) i(1)] by (simp split: prod.splits)
  have "fst (strip_loop r (rendered A base i (length base))) = base ! i # drop (Suc i) base"
    using Suc(1) [OF i(2)] i(1) by (cases "A (Suc i)") (simp_all add: rendered_line comment_of_def strip_block line del: strip_loop.simps)
  then show ?case using i(1) by (simp add: Cons_nth_drop_Suc)
qed

lemma strip_counts:
  assumes "tidy_below base {n. A n \<noteq> None}" "\<forall>l\<in>set base. \<not> has_prefix l" "i \<le> k" "k < length base"
  shows "length (rendered A base i (Suc k)) \<le> length (snd (strip_loop r (rendered A base i (length base))))
    \<and> snd (strip_loop r (rendered A base i (length base))) ! (length (rendered A base i (Suc k)) - 1) + (Suc k - i)
      = r + length (rendered A base i (Suc k))"
  using assms(3)
proof (induction "k - i" arbitrary: i r)
  case 0
  then have i: "i = k" by simp
  let ?rest = "rendered A base (Suc k) (length base)"
  have np: "\<not> contains (trim (base ! k)) COMMENT_PREFIX" using assms(2,4) plain_trim by simp
  have line: "snd (strip_loop r (base ! k # ?rest)) = r # snd (strip_loop r ?rest)" for r
    using np not_generated [OF assms(1,2,4)] by (simp split: prod.splits)
  show ?case
    unfolding i using assms(4) by (cases "A (Suc k)")
      (simp_all add: rendered_line [of k] comment_of_def strip_block line nth_append del: strip_loop.simps upt_Suc)
next
  case (Suc d)
  then have i: "i < k" "d = k - Suc i" "Suc i \<le> k" by auto
  let ?rest = "rendered A base (Suc i) (length base)"
  have np: "\<not> contains (trim (base ! i)) COMMENT_PREFIX" using assms(2,4) i plain_trim by simp
  have line: "snd (strip_loop r (base ! i # ?rest)) = r # snd (strip_loop r ?rest)" for r
    using np not_generated [OF assms(1,2), of i] i assms(4) by (simp split: prod.splits)
  obtain m where m: "length (rendered A base (Suc i) (Suc k)) = Suc m" using i(3) by (simp add: rendered_line)
  show ?case
    using Suc(1) [OF i(2,3)] i assms(4) m by (cases "A (Suc i)")
      (auto simp: rendered_line [of i] comment_of_def strip_block line nth_append Suc_diff_le simp del: strip_loop.simps upt_Suc)
qed

section \<open>Restoring the files\<close>

text \<open>A text without the comments of earlier runs, in one kind of line end.\<close>

definition eol_of :: "string \<Rightarrow> string" where
  "eol_of content = (if contains content [CR, LF] then [CR, LF] else [LF])"

definition without_comments :: "string \<Rightarrow> string list" where
  "without_comments content = fst (stripGeneratedOptimizationComments (split_lines content))"

definition tidied :: "string \<Rightarrow> string" where
  "tidied content = join (eol_of content) (without_comments content)"

text \<open>What the disk and the state of a file have to do with the text it had at first: a writable file is as its lines
  in memory, or untouched because nothing had to be changed.\<close>

definition entry_ok :: "bool \<Rightarrow> string option \<Rightarrow> string option \<Rightarrow> file_state option \<Rightarrow> bool" where
  "entry_ok can_write original now entry \<longleftrightarrow>
     (case entry of
       None \<Rightarrow> now = original
     | Some st \<Rightarrow> \<exists>content. original = Some content \<and> fs_eol st = eol_of content \<and> fs_baseLines st = without_comments content
         \<and> (if can_write
            then now = Some (join (fs_eol st) (fs_lines st))
              \<or> now = original \<and> fs_lines st = fs_baseLines st \<and> without_comments content = split_lines content
            else now = original))"

definition restorable :: "(string \<Rightarrow> bool) \<Rightarrow> (string \<Rightarrow> string option) \<Rightarrow> writer \<Rightarrow> bool" where
  "restorable writable disk w \<longleftrightarrow> distinct (map fst (wr_files w))
     \<and> (\<forall>p. entry_ok (writable p) (disk p) (wr_disk w p) (map_of (wr_files w) p))"

lemma annotate_keeps_base:
  "annotate_state n s r st = Some st' \<Longrightarrow> fs_baseLines st' = fs_baseLines st \<and> fs_eol st' = fs_eol st"
  by (auto simp: annotate_state_def Let_def note_inserted_def split: if_splits option.splits)

lemma restorable_entry:
  "restorable writable disk w \<Longrightarrow> entry_ok (writable p) (disk p) (wr_disk w p) (map_of (wr_files w) p)"
  by (simp add: restorable_def)

lemma persist_restorable:
  assumes "restorable writable disk w" "map_of (wr_files w) p = Some st" "fs_baseLines st' = fs_baseLines st" "fs_eol st' = fs_eol st"
  shows "restorable writable disk (persistState writable p st' w)"
proof -
  have "entry_ok (writable p) (disk p) (if writable p then Some (join (fs_eol st') (fs_lines st')) else wr_disk w p) (Some st')"
    using restorable_entry [OF assms(1), of p] assms(2-4) by (auto simp: entry_ok_def split: if_splits)
  then show ?thesis
    using assms(1) by (cases "writable p") (simp_all add: restorable_def persistState_def persist_def put_state_def update_conv' distinct_update)
qed

lemma state_restorable:
  assumes "restorable writable disk w" "getFileState writable p w = (x, w1)"
  shows "restorable writable disk w1 \<and> (\<forall>st. x = Some st \<longrightarrow> map_of (wr_files w1) p = Some st)"
proof (cases "map_of (wr_files w) p")
  case none: None
  then have d: "wr_disk w p = disk p" using restorable_entry [OF assms(1), of p] by (simp add: entry_ok_def)
  show ?thesis
  proof (cases "disk p")
    case None
    then show ?thesis using assms(1,2) d none by (simp add: getFileState_def)
  next
    case (Some content)
    let ?st = "\<lparr>fs_eol = eol_of content, fs_lines = without_comments content, fs_baseLines = without_comments content,
      fs_removedBeforeLine = snd (stripGeneratedOptimizationComments (split_lines content)), fs_insertedAtOriginalLine = []\<rparr>"
    let ?w = "if without_comments content \<noteq> split_lines content
      then persist writable p (without_comments content) (eol_of content) (put_state p ?st w) else put_state p ?st w"
    have g: "x = Some ?st" "w1 = ?w"
      using assms(2) none d Some
      by (auto simp: getFileState_def eol_of_def without_comments_def Let_def split: if_splits)
    have "entry_ok (writable p) (disk p) (wr_disk ?w p) (Some ?st)"
      using d Some by (simp add: entry_ok_def persist_def put_state_def)
    then have "restorable writable disk ?w"
      using assms(1) by (auto simp: restorable_def persist_def put_state_def update_conv' distinct_update)
    moreover have "map_of (wr_files ?w) p = Some ?st" by (simp add: persist_def put_state_def update_conv')
    ultimately show ?thesis using g by simp
  qed
next
  case (Some st)
  then show ?thesis using assms(1,2) by (auto simp: getFileState_def)
qed

lemma annotate_restorable:
  assumes "restorable writable disk w"
  shows "restorable writable disk (annotateFile writable p n s r w)"
proof -
  obtain x w1 where x: "getFileState writable p w = (x, w1)" by (cases "getFileState writable p w")
  note g = state_restorable [OF assms x]
  show ?thesis
  proof (cases "\<exists>st st'. x = Some st \<and> annotate_state n s r st = Some st'")
    case True
    then obtain st st' where st: "x = Some st" "annotate_state n s r st = Some st'" by blast
    then have "restorable writable disk (persistState writable p st' w1)"
      using g annotate_keeps_base [OF st(2)] by (intro persist_restorable) auto
    then show ?thesis using x st by (simp add: annotateFile_def)
  next
    case False
    then show ?thesis using x g by (auto simp: annotateFile_def split: option.splits)
  qed
qed

lemma mark_restorable:
  assumes "restorable writable disk w"
  shows "restorable writable disk (mark_all writable marks w)"
  using assms
proof (induction marks arbitrary: w)
  case (Cons mk marks)
  have "restorable writable disk (w\<lparr>wr_applied := a, wr_initializedRoutes := b\<rparr>)" for a b
    using Cons.prems by (simp add: restorable_def)
  then have "restorable writable disk (markRoute writable (Some (fst mk)) (snd mk) w)"
    unfolding markRoute_def Let_def using Cons.prems annotate_restorable by simp
  then show ?case using Cons.IH by (simp add: mark_all_def case_prod_beta)
qed (simp add: mark_all_def)

text \<open>Only files that a mark names are looked at.\<close>

lemma update_names: "fst ` set (AList.update k v al) = insert k (fst ` set al)"
  by (induction al) auto

lemma annotate_files: "fst ` set (wr_files (annotateFile writable p n s r w)) \<subseteq> insert p (fst ` set (wr_files w))"
proof -
  obtain x w1 where g: "getFileState writable p w = (x, w1)" by (cases "getFileState writable p w")
  have "fst ` set (wr_files (snd (getFileState writable p w))) \<subseteq> insert p (fst ` set (wr_files w))"
    by (simp add: getFileState_def put_state_def persist_def Let_def update_names split: option.split) auto
  then have n: "fst ` set (wr_files w1) \<subseteq> insert p (fst ` set (wr_files w))" by (simp add: g)
  have "wr_files (persistState writable p st w1) = AList.update p st (wr_files w1)" for st
    by (simp add: persistState_def persist_def put_state_def)
  then show ?thesis
    using n by (cases x) (simp_all add: annotateFile_def g update_names split: option.split)
qed

lemma mark_cases:
  assumes "\<And>n s r w'. wr_files w' = wr_files w \<Longrightarrow> P (annotateFile writable (sl_filePath loc) n s r w')" "P w"
  shows "P (markRoute writable (Some loc) status w)"
proof -
  let ?s = "trim (if status = [] then ''optimized'' else status)"
  consider "markRoute writable (Some loc) status w = w"
    | "sl_filePath loc \<noteq> []" "?s \<noteq> []" "route_key loc @ '':'' @ ?s \<notin> set (wr_applied w)"
    unfolding markRoute_def Let_def option.case by presburger
  then show ?thesis
  proof cases
    case 2
    then show ?thesis
      unfolding markRoute_def Let_def option.case by (simp only: if_False) (rule assms(1), simp)
  qed (simp add: assms(2))
qed

lemma mark_files: "fst ` set (wr_files (mark_all writable marks w)) \<subseteq> sl_filePath ` fst ` set marks \<union> fst ` set (wr_files w)"
proof (induction marks arbitrary: w)
  case (Cons mk marks)
  let ?w = "markRoute writable (Some (fst mk)) (snd mk) w"
  have "fst ` set (wr_files ?w) \<subseteq> insert (sl_filePath (fst mk)) (fst ` set (wr_files w))"
  proof (rule mark_cases [where P = "\<lambda>v. fst ` set (wr_files v) \<subseteq> insert (sl_filePath (fst mk)) (fst ` set (wr_files w))"])
    fix n s r and w' :: writer
    assume "wr_files w' = wr_files w"
    then show "fst ` set (wr_files (annotateFile writable (sl_filePath (fst mk)) n s r w'))
        \<subseteq> insert (sl_filePath (fst mk)) (fst ` set (wr_files w))"
      using annotate_files [of writable "sl_filePath (fst mk)" n s r w'] by simp
  qed blast
  moreover have "mark_all writable (mk # marks) w = mark_all writable marks ?w" by (simp add: mark_all_def case_prod_beta)
  moreover have "X \<subseteq> A \<union> Y \<Longrightarrow> Y \<subseteq> insert b Z \<Longrightarrow> X \<subseteq> insert b A \<union> Z" for X A Y Z :: "string set" and b by blast
  ultimately show ?case using Cons.IH [of ?w] by (simp only: list.set image_insert)
qed (simp add: mark_all_def)

lemma plain_tidied:
  "\<forall>l\<in>set (split_lines content). \<not> has_prefix l \<Longrightarrow> join (eol_of content) (split_lines content) = content \<Longrightarrow> tidied content = content"
  by (simp add: tidied_def without_comments_def stripGeneratedOptimizationComments_def strip_plain)

text \<open>A text without CR LF has one kind of line end.\<close>

lemma split_lines_not_empty: "split_lines s \<noteq> []"
  by (induction s rule: split_lines.induct) (auto split: list.splits)

lemma join_cons: "ls \<noteq> [] \<Longrightarrow> join sep (l # ls) = l @ sep @ join sep ls"
  by (cases ls) auto

lemma unix_lines: "\<not> contains s [CR, LF] \<Longrightarrow> join [LF] (split_lines s) = s"
proof (induction s rule: split_lines.induct)
  case (2 c cs)
  have "contains (CR # LF # l) [CR, LF]" for l
    unfolding contains_iff by (intro exI [of _ "[]"] exI [of _ l]) simp
  then have "\<not> (c = CR \<and> startsWith cs [LF])" using 2(4) by (cases cs) (auto simp: startsWith_def)
  moreover have "\<not> contains cs [CR, LF]" using 2(4) unfolding contains_iff by (metis append_Cons)
  ultimately show ?case
    using 2(1,3) split_lines_not_empty [of cs]
    by (cases "split_lines cs" rule: remdups_adj.cases) (auto simp: join_cons split_lines_not_empty)
qed simp

lemma cleanup_disk:
  "distinct (map fst xs) \<Longrightarrow>
   wr_disk (foldl (\<lambda>w (filePath, state). cleanupFile writable filePath state w) w xs) p =
     (case map_of xs p of
        Some st \<Rightarrow> if fs_lines st \<noteq> fs_baseLines st \<and> writable p then Some (join (fs_eol st) (fs_baseLines st)) else wr_disk w p
      | None \<Rightarrow> wr_disk w p)"
proof (induction xs arbitrary: w)
  case (Cons x xs)
  obtain q st where x: "x = (q, st)" by (cases x)
  have "map_of xs q = None" using Cons.prems x by (simp add: map_of_eq_None_iff)
  then show ?case
    using Cons by (auto simp: x cleanupFile_def persistState_def persist_def put_state_def split: option.splits)
qed simp

definition sample_lines :: "string list" where
  "sample_lines = [''/**'', '' * Users.'', '' */'', ''  app.get(users)'', [], ''app.get(pets)'', []]"

definition sample_marks :: "(nat \<times> string) list" where
  "sample_marks = [(6, ''bridge-dispatch''), (4, ''native-cache''), (6, ''runtime-cache-tracking''), (6, ''bridge-dispatch'')]"

lemma sample_split: "split_lines (join [LF] sample_lines) = sample_lines"
  "\<not> contains (join [LF] sample_lines) [CR, LF]"
  by code_simp+

lemma sample_length: "length sample_lines = 7"
  by (simp add: sample_lines_def)

lemma sample_plain: "\<forall>l\<in>set sample_lines. \<not> has_prefix l"
  by code_simp

lemma sample_marked:
  "\<forall>(n, s)\<in>set sample_marks. 1 \<le> n \<and> clean_status s \<and> (n \<le> length sample_lines \<longrightarrow> \<not> blank (sample_lines ! (n - 1)))"
  by code_simp

lemma sample_tidy: "tidy_above sample_lines (fst ` set sample_marks)" "tidy_below sample_lines (fst ` set sample_marks)"
  by code_simp+

definition sample_writer :: writer where
  "sample_writer = \<lparr>wr_applied = [], wr_initializedRoutes = [], wr_files = [],
     wr_disk = (\<lambda>p. if p = ''app.js'' then Some (join [LF] sample_lines) else None)\<rparr>"

lemma sample_create:
  "createRouteDevCommentWriter True False False (\<lambda>p. if p = ''app.js'' then Some (join [LF] sample_lines) else None)
    = Some sample_writer"
  by (simp add: createRouteDevCommentWriter_def sample_writer_def)

lemma sample_render:
  "render (noted sample_marks) sample_lines 7 =
    [''/**'', '' * Users.'', '' */'',
     ''  /** [Auto generated by http-native]'', ''   * [http-native optimization] native-cache'',
     ''   * '' @ describe ''native-cache'', ''   */'', ''  app.get(users)'', [],
     ''/** [Auto generated by http-native]'', '' * [http-native optimization] bridge-dispatch | runtime-cache-tracking'',
     '' * '' @ describe ''bridge-dispatch'' @ '' '' @ describe ''runtime-cache-tracking'', '' */'', ''app.get(pets)'', []]"
  by code_simp

section \<open>Properties\<close>

text \<open>C37: The comments stand where they belong: in a file without generated comments whose line ends are all the
  same, after any marks of its routes the file on disk is the source with exactly one comment directly above each
  marked line, indented like it and listing the statuses of the line in the order of their first mention.
  The comments of the program itself have to be closed before a marked line.\<close>

theorem comments_stand_above_their_routes:
  assumes "createRouteDevCommentWriter True False False disk = Some w" "disk p = Some content" "writable p" "p \<noteq> []"
    and "\<forall>l\<in>set (split_lines content). \<not> has_prefix l" "join eol (split_lines content) = content"
    and "eol = (if contains content [CR, LF] then [CR, LF] else [LF])"
    and "\<forall>(n, s)\<in>set marks. 1 \<le> n \<and> clean_status s
      \<and> (n \<le> length (split_lines content) \<longrightarrow> \<not> blank (split_lines content ! (n - 1)))"
    and "tidy_above (split_lines content) (fst ` set marks)"
  shows "wr_disk (mark_all writable (file_marks p marks) w) p
    = Some (join eol (render (noted marks) (split_lines content) (length (split_lines content))))"
  using marks_ok [where writable = writable, OF assms(1-4) refl assms(5-9)] by (simp add: writer_ok_def)

theorem comments_stand_above_their_routes_witness:
  "wr_disk (mark_all (\<lambda>_. True) (file_marks ''app.js'' sample_marks) sample_writer) ''app.js''
    = Some (join [LF] (render (noted sample_marks) sample_lines 7))"
  using comments_stand_above_their_routes [OF sample_create, of "''app.js''" "join [LF] sample_lines" "\<lambda>_. True" "[LF]" sample_marks]
    sample_plain sample_marked sample_tidy(1) by (simp add: sample_split sample_length)





text \<open>Without the conditions on the comments of the program the writer damages it.  A doc comment on one line opens a block for the search,
  which then reaches down to the end of the next generated comment and removes the code between; the source read
  that way is also what cleanup restores.\<close>

lemma one_line_doc_comment_swallows_code:
  "fst (stripGeneratedOptimizationComments
     ([''/** The users. */'', ''const users = [];''] @ buildOptimizationBlock [] [''bridge-dispatch''] @ [''app.get(users)'']))
   = [''app.get(users)'']"
  by code_simp

text \<open>A plain block comment above a route has no opening line for the search, which goes on to the comment of an earlier
  route and replaces everything from there, the earlier route included.\<close>

lemma plain_block_comment_swallows_route:
  "map_option fs_lines (annotate_state 4 ''bridge-dispatch'' True
     \<lparr>fs_eol = [LF], fs_lines = buildOptimizationBlock [] [''native-cache''] @ [''app.get(users)'', ''/* Pets.'', '' */'', ''app.get(pets)''],
      fs_baseLines = [''app.get(users)'', ''/* Pets.'', '' */'', ''app.get(pets)''],
      fs_removedBeforeLine = [0, 0, 0, 0, 0], fs_insertedAtOriginalLine = [(1, 4)]\<rparr>)
   = Some (buildOptimizationBlock [] [''bridge-dispatch''] @ [''app.get(pets)''])"
  by code_simp

end
