(* ===== verification/DevServer.thy ===== *)
theory DevServer
  imports Server
begin

text \<open>
  The development server, \<open>src/src/dev/index.js\<close>: it loads a program again whenever a file changes and exchanges
  the application of the running server.  A load is asynchronous, so its parts are steps that may interleave
  with other loads and with closing: the call, the end of the import, the end of a server start.  Parameters
  are what the program exports, whether its application compiles and whether the native server accepts it.
  Snapshots are kept by the servers of \<open>Server\<close>; times and the callbacks of the user are left out.
\<close>

section \<open>What a program exports\<close>

text \<open>An export that has a \<open>listen\<close> function, one that is another function (with what calling it does), or neither.\<close>

datatype 'a export = NoExport | AppExport 'a | Factory "string + 'a option"

record 'a exports =
  mo_default :: "'a export"
  mo_app :: "'a export"
  mo_createApp :: "'a export"

fun first_app :: "'a export list \<Rightarrow> 'a option" where
  "first_app [] = None"
| "first_app (AppExport a # es) = Some a"
| "first_app (_ # es) = first_app es"

fun first_made :: "'a export list \<Rightarrow> string + 'a option" where
  "first_made [] = Inr None"
| "first_made (Factory r # es) =
     (case r of Inl e \<Rightarrow> Inl e | Inr (Some a) \<Rightarrow> Inr (Some a) | Inr None \<Rightarrow> first_made es)"
| "first_made (_ # es) = first_made es"

definition resolveApplication :: "'a exports \<Rightarrow> string + 'a option" where
  "resolveApplication ns =
     (case first_app [mo_default ns, mo_app ns] of
        Some a \<Rightarrow> Inr (Some a)
      | None \<Rightarrow> first_made [mo_default ns, mo_app ns, mo_createApp ns])"

section \<open>Options\<close>

record dev_options =
  do_host :: "string option"
  do_port :: "jnum option"
  do_backlog :: "jnum option"
  do_serverConfig :: server_overrides
  do_watch :: "string list option"
  do_files :: "string list option"
  do_debounceMs :: "jnum option"
  do_clear :: "bool option"

definition selectWatchRoots :: "string list option \<Rightarrow> string list option \<Rightarrow> string list option" where
  "selectWatchRoots primary secondary = over primary secondary"

text \<open>\<open>config\<close> is what \<open>app.reload(options)\<close> left behind, if anything.\<close>

definition normalizeReloadOptions :: "reload_config option \<Rightarrow> reload_config" where
  "normalizeReloadOptions config =
     (case config of None \<Rightarrow> \<lparr>rl_watch = None, rl_debounceMs = None, rl_clear = None\<rparr> | Some c \<Rightarrow> c)"

definition explicit_reload :: "dev_options \<Rightarrow> reload_config" where
  "explicit_reload options =
     \<lparr>rl_watch = selectWatchRoots (do_watch options) (do_files options), rl_debounceMs = do_debounceMs options,
      rl_clear = do_clear options\<rparr>"

definition resolveReloadOptions :: "dev_options \<Rightarrow> reload_config option \<Rightarrow> reload_config" where
  "resolveReloadOptions options appConfig =
     (let app = normalizeReloadOptions appConfig; own = explicit_reload options in
      \<lparr>rl_watch = over (rl_watch own) (rl_watch app), rl_debounceMs = over (rl_debounceMs own) (rl_debounceMs app),
       rl_clear = Some (given (over (rl_clear own) (rl_clear app)) True)\<rparr>)"

definition resolveListenOptions :: "dev_options \<Rightarrow> listen_options \<Rightarrow> listen_options" where
  "resolveListenOptions options captured =
     captured\<lparr>li_host := over (do_host options) (li_host captured), li_port := over (do_port options) (li_port captured),
       li_backlog := over (do_backlog options) (li_backlog captured),
       li_serverConfig := spread_config (li_serverConfig captured) (do_serverConfig options),
       li_opt := Some ((given (li_opt captured) no_run_options)
         \<lparr>ru_notify := Some False, ru_hotReload := Some False, ru_devComments := Some False\<rparr>)\<rparr>"

definition areArraysEqual :: "string list option \<Rightarrow> string list option \<Rightarrow> bool" where
  "areArraysEqual left right =
     (case (left, right) of (None, None) \<Rightarrow> True | (Some l, Some r) \<Rightarrow> length l = length r \<and> list_all2 (=) l r | _ \<Rightarrow> False)"

section \<open>The copy a program is loaded from\<close>

text \<open>Loading the same file twice gives the same module, so each version is loaded from a copy of the working
  directory.  \<open>copy\<close> is the error of copying an entry, \<open>ENOENT\<close> is overlooked.\<close>

definition skipped_entries :: "string list" where
  "skipped_entries = [''.git'', ''.http-native'', ''target'']"

fun copy_entries ::
  "(string \<Rightarrow> bool) \<Rightarrow> (string \<Rightarrow> string option) \<Rightarrow> string list \<Rightarrow> string list \<Rightarrow> string + string list" where
  "copy_entries exists copy copied [] = Inr copied"
| "copy_entries exists copy copied (entryName # names) =
     (if entryName \<in> set skipped_entries \<or> \<not> exists entryName then copy_entries exists copy copied names
      else case copy entryName of
          None \<Rightarrow> copy_entries exists copy (copied @ [entryName]) names
        | Some code \<Rightarrow> if code = ''ENOENT'' then copy_entries exists copy copied names else Inl code)"

definition inside_workspace :: "string \<Rightarrow> bool" where
  "inside_workspace relativeEntry \<longleftrightarrow>
     relativeEntry \<noteq> [] \<and> \<not> startsWith relativeEntry ''..'' \<and> \<not> startsWith relativeEntry ''/''"

definition buildImportUrl ::
  "(string \<Rightarrow> bool) \<Rightarrow> (string \<Rightarrow> string option) \<Rightarrow> string list \<Rightarrow> string \<Rightarrow> string \<Rightarrow> string \<Rightarrow> nat \<Rightarrow> string + string" where
  "buildImportUrl exists copy names cwd entryPath relativeEntry version =
     (if \<not> inside_workspace relativeEntry
      then Inr (''file://'' @ entryPath @ ''?http-native-dev='' @ nat_digits version)
      else ebind (copy_entries exists copy [] names) (\<lambda>_.
        Inr (''file://'' @ cwd @ ''/.http-native/dev-runtime/'' @ nat_digits version @ ''/workspace/'' @ relativeEntry)))"

section \<open>The state\<close>

datatype dev_phase = Starting | Reloading | Ready | Failed | Closing | Closed

record dev_status =
  ds_state :: dev_phase
  ds_revision :: nat
  ds_reloadCount :: nat
  ds_changedFile :: "string option"
  ds_lastError :: "string option"

text \<open>A call of \<open>loadEntry\<close> that has not returned: the context it found, its trigger, and \<open>loadedApp\<close>.\<close>

record 'a load =
  lo_id :: nat
  lo_previousContext :: "nat option"
  lo_initial :: bool
  lo_loadedApp :: "'a option"

text \<open>A server start under way: its snapshot, and the load that waits for it unless the program itself does.\<close>

record 's start =
  st_id :: nat
  st_waiting :: "nat option"
  st_snapshot :: 's

text \<open>\<open>dv_servers\<close> are all servers ever started, \<open>dv_current\<close> is \<open>currentServer\<close>; \<open>dv_context\<close> is the global
  \<open>__HTTP_NATIVE_DEV_CONTEXT__\<close>, named by the load it belongs to; \<open>dv_watch\<close> is the configuration of the watcher
  and \<open>dv_watchers\<close> counts the ones created.\<close>

record ('a, 's) dev =
  dv_servers :: "(nat \<times> 's live) list"
  dv_current :: "nat option"
  dv_status :: dev_status
  dv_importVersion :: nat
  dv_watch :: "reload_config option"
  dv_watchers :: nat
  dv_selfStart :: bool
  dv_closed :: bool
  dv_context :: "nat option"
  dv_loads :: "'a load list"
  dv_starts :: "'s start list"
  dv_next :: nat

definition createDevServer :: "('a, 's) dev" where
  "createDevServer =
     \<lparr>dv_servers = [], dv_current = None,
      dv_status = \<lparr>ds_state = Starting, ds_revision = 0, ds_reloadCount = 0, ds_changedFile = None, ds_lastError = None\<rparr>,
      dv_importVersion = 0, dv_watch = None, dv_watchers = 0, dv_selfStart = False, dv_closed = False,
      dv_context = None, dv_loads = [], dv_starts = [], dv_next = 0\<rparr>"

definition updateStatus :: "(dev_status \<Rightarrow> dev_status) \<Rightarrow> ('a, 's) dev \<Rightarrow> ('a, 's) dev" where
  "updateStatus patch d = d\<lparr>dv_status := patch (dv_status d)\<rparr>"

definition ensureWatchController :: "reload_config \<Rightarrow> ('a, 's) dev \<Rightarrow> ('a, 's) dev" where
  "ensureWatchController next d =
     (case dv_watch d of
        Some config \<Rightarrow>
          if rl_debounceMs config = rl_debounceMs next \<and> areArraysEqual (rl_watch config) (rl_watch next) then d
          else d\<lparr>dv_watch := Some next, dv_watchers := dv_watchers d + 1\<rparr>
      | None \<Rightarrow> d\<lparr>dv_watch := Some next, dv_watchers := dv_watchers d + 1\<rparr>)"

section \<open>Loading\<close>

definition find_load :: "nat \<Rightarrow> ('a, 's) dev \<Rightarrow> 'a load option" where
  "find_load i d = find (\<lambda>l. lo_id l = i) (dv_loads d)"

text \<open>The \<open>finally\<close> block: the context that was there when the load began comes back.\<close>

definition end_load :: "'a load \<Rightarrow> ('a, 's) dev \<Rightarrow> ('a, 's) dev" where
  "end_load l d = d\<lparr>dv_context := lo_previousContext l, dv_loads := filter (\<lambda>k. lo_id k \<noteq> lo_id l) (dv_loads d)\<rparr>"

definition load_fails :: "string \<Rightarrow> 'a load \<Rightarrow> ('a, 's) dev \<Rightarrow> ('a, 's) dev" where
  "load_fails message l d = end_load l (updateStatus (\<lambda>s. s\<lparr>ds_state := Failed, ds_lastError := Some message\<rparr>) d)"

definition load_succeeds ::
  "dev_options \<Rightarrow> ('a \<Rightarrow> reload_config option) \<Rightarrow> 'a option \<Rightarrow> 'a load \<Rightarrow> ('a, 's) dev \<Rightarrow> ('a, 's) dev" where
  "load_succeeds options reloadConfig app l d =
     (let resolved = resolveReloadOptions options (case app of None \<Rightarrow> None | Some a \<Rightarrow> reloadConfig a) in
      end_load l (updateStatus (\<lambda>s. s\<lparr>ds_state := Ready,
          ds_revision := (if lo_initial l then 1 else ds_revision s + 1),
          ds_reloadCount := (if lo_initial l then 0 else ds_reloadCount s + 1)\<rparr>)
        (ensureWatchController resolved d)))"

text \<open>\<open>loadEntry\<close> up to the import; \<open>url\<close> is the result of \<^const>\<open>buildImportUrl\<close>.  A load from \<open>reload()\<close> or from
  the watcher is not begun once the server is closed.\<close>

definition load_begins :: "bool \<Rightarrow> string option \<Rightarrow> (nat \<Rightarrow> string + string) \<Rightarrow> ('a, 's) dev \<Rightarrow> ('a, 's) dev" where
  "load_begins initial changedFile url d =
     (if dv_closed d then d
      else
        let l = \<lparr>lo_id = dv_next d, lo_previousContext = dv_context d, lo_initial = initial, lo_loadedApp = None\<rparr>;
            version = dv_importVersion d + 1;
            d1 = updateStatus (\<lambda>s. s\<lparr>ds_state := (if initial then Starting else Reloading), ds_changedFile := changedFile,
                ds_lastError := None\<rparr>) (d\<lparr>dv_selfStart := False\<rparr>);
            d2 = d1\<lparr>dv_context := Some (dv_next d), dv_next := dv_next d + 1, dv_importVersion := version,
                dv_loads := dv_loads d1 @ [l]\<rparr> in
        case url version of Inl e \<Rightarrow> load_fails e l d2 | Inr _ \<Rightarrow> d2)"

text \<open>\<open>applyApplication\<close>: without a server one is started, which takes until \<open>server_starts\<close>; otherwise the running
  server gets the new snapshot.  The result is an error, or whether the application is applied already.\<close>

definition applyApplication ::
  "(listen_options \<Rightarrow> 'a \<Rightarrow> string + 's) \<Rightarrow> dev_options \<Rightarrow> bool \<Rightarrow> 'a \<Rightarrow> listen_options \<Rightarrow> nat option \<Rightarrow> ('a, 's) dev
    \<Rightarrow> (string + bool) \<times> ('a, 's) dev" where
  "applyApplication compile options nativeOk app listenOptions waiting d =
     (case compile (resolveListenOptions options listenOptions) app of
        Inl e \<Rightarrow> (Inl e, d)
      | Inr snapshot \<Rightarrow>
          (case dv_current d of
             None \<Rightarrow> (Inr False, d\<lparr>dv_starts := dv_starts d @ [\<lparr>st_id = dv_next d, st_waiting = waiting, st_snapshot = snapshot\<rparr>],
                 dv_next := dv_next d + 1\<rparr>)
           | Some i \<Rightarrow>
               (case map_of (dv_servers d) i of
                  None \<Rightarrow> (Inl ''no such server'', d)
                | Some server \<Rightarrow>
                    let (refused, server') = reloadCompiledSnapshot nativeOk snapshot server;
                        d1 = d\<lparr>dv_servers := AList.update i server' (dv_servers d)\<rparr> in
                    (if refused then Inl ''native reload failed'' else Inr True, d1))))"

definition no_listen_options :: listen_options where
  "no_listen_options = \<lparr>li_host = None, li_port = None, li_backlog = None,
     li_serverConfig = \<lparr>ov_defaultHost = None, ov_defaultBacklog = None, ov_maxHeaderBytes = None,
       ov_hotGetRootHttp11 = None, ov_hotGetRootHttp10 = None, ov_headerConnectionPrefix = None,
       ov_headerContentLengthPrefix = None, ov_headerTransferEncodingPrefix = None, ov_tls = None\<rparr>, li_opt = None\<rparr>"

text \<open>\<open>app.listen()\<close> in the program: handed to the load whose context is the global one.\<close>

definition registerAppListen ::
  "(listen_options \<Rightarrow> 'a \<Rightarrow> string + 's) \<Rightarrow> dev_options \<Rightarrow> bool \<Rightarrow> 'a \<Rightarrow> listen_options \<Rightarrow> ('a, 's) dev \<Rightarrow> ('a, 's) dev" where
  "registerAppListen compile options nativeOk app listenOptions d =
     (case dv_context d of
        None \<Rightarrow> d
      | Some i \<Rightarrow>
          snd (applyApplication compile options nativeOk app listenOptions None
            (d\<lparr>dv_selfStart := True,
               dv_loads := map (\<lambda>l. if lo_id l = i then l\<lparr>lo_loadedApp := Some app\<rparr> else l) (dv_loads d)\<rparr>)))"

text \<open>The import has ended with an error or with the exports of the program.\<close>

definition import_ends ::
  "(listen_options \<Rightarrow> 'a \<Rightarrow> string + 's) \<Rightarrow> ('a \<Rightarrow> reload_config option) \<Rightarrow> dev_options \<Rightarrow> bool \<Rightarrow> nat
    \<Rightarrow> string + 'a exports \<Rightarrow> ('a, 's) dev \<Rightarrow> ('a, 's) dev" where
  "import_ends compile reloadConfig options nativeOk i result d =
     (case find_load i d of
        None \<Rightarrow> d
      | Some l \<Rightarrow>
          (case result of
             Inl e \<Rightarrow> load_fails e l d
           | Inr ns \<Rightarrow>
               if dv_selfStart d then load_succeeds options reloadConfig (lo_loadedApp l) l d
               else
                 (case resolveApplication ns of
                    Inl e \<Rightarrow> load_fails e l d
                  | Inr None \<Rightarrow> load_fails ''must export an app'' l d
                  | Inr (Some app) \<Rightarrow>
                      let l1 = l\<lparr>lo_loadedApp := Some app\<rparr>;
                          d1 = d\<lparr>dv_loads := map (\<lambda>k. if lo_id k = i then l1 else k) (dv_loads d)\<rparr> in
                      (case applyApplication compile options nativeOk app no_listen_options (Some i) d1 of
                         (Inl e, d2) \<Rightarrow> load_fails e l1 d2
                       | (Inr True, d2) \<Rightarrow> load_succeeds options reloadConfig (Some app) l1 d2
                       | (Inr False, d2) \<Rightarrow> d2))))"

text \<open>A server start has ended: \<open>currentServer\<close> is set, and the load that waited goes on.\<close>

definition server_starts ::
  "('a \<Rightarrow> reload_config option) \<Rightarrow> dev_options \<Rightarrow> nat \<Rightarrow> string option \<Rightarrow> ('a, 's) dev \<Rightarrow> ('a, 's) dev" where
  "server_starts reloadConfig options i failure d =
     (case find (\<lambda>s. st_id s = i) (dv_starts d) of
        None \<Rightarrow> d
      | Some s \<Rightarrow>
          let d1 = d\<lparr>dv_starts := filter (\<lambda>t. st_id t \<noteq> i) (dv_starts d)\<rparr>;
              waiting = (case st_waiting s of None \<Rightarrow> None | Some k \<Rightarrow> find_load k d) in
          (case failure of
             Some e \<Rightarrow> (case waiting of None \<Rightarrow> d1 | Some l \<Rightarrow> load_fails e l d1)
           | None \<Rightarrow>
               let d2 = d1\<lparr>dv_servers := dv_servers d1 @ [(i, startCompiledServer (st_snapshot s) False)], dv_current := Some i\<rparr> in
               (case waiting of None \<Rightarrow> d2 | Some l \<Rightarrow> load_succeeds options reloadConfig (lo_loadedApp l) l d2)))"

text \<open>\<open>close()\<close> up to and after the wait for the server.\<close>

definition close_begins :: "('a, 's) dev \<Rightarrow> ('a, 's) dev" where
  "close_begins d =
     (if dv_closed d then d
      else updateStatus (\<lambda>s. s\<lparr>ds_state := Closing\<rparr>) (d\<lparr>dv_closed := True, dv_watch := None,
        dv_servers := (case dv_current d of None \<Rightarrow> dv_servers d
          | Some i \<Rightarrow> (case map_of (dv_servers d) i of None \<Rightarrow> dv_servers d
              | Some server \<Rightarrow> AList.update i (snd (server_close (ClosesAfter 0) server)) (dv_servers d)))\<rparr>))"

definition close_ends :: "('a, 's) dev \<Rightarrow> ('a, 's) dev" where
  "close_ends d = updateStatus (\<lambda>s. s\<lparr>ds_state := Closed\<rparr>) (d\<lparr>dv_current := None\<rparr>)"

section \<open>Reloads one after the other\<close>

text \<open>How one reload goes: the copy fails; the import ends and exports an application, or not; the program calls
  \<open>listen()\<close> itself before its import ends.  The flags say whether the native server accepts the snapshot.\<close>

datatype 'a attempt = CopyFails string
  | Exported "string + 'a exports" bool
  | SelfStarted 'a listen_options bool "string + 'a exports"

definition reload_once ::
  "(listen_options \<Rightarrow> 'a \<Rightarrow> string + 's) \<Rightarrow> ('a \<Rightarrow> reload_config option) \<Rightarrow> dev_options \<Rightarrow> 'a attempt \<Rightarrow> ('a, 's) dev \<Rightarrow> ('a, 's) dev" where
  "reload_once compile reloadConfig options attempt d =
     (case attempt of
        CopyFails e \<Rightarrow> load_begins False None (\<lambda>_. Inl e) d
      | Exported result ok \<Rightarrow>
          import_ends compile reloadConfig options ok (dv_next d) result (load_begins False None (\<lambda>_. Inr []) d)
      | SelfStarted app listenOptions ok result \<Rightarrow>
          import_ends compile reloadConfig options False (dv_next d) result
            (registerAppListen compile options ok app listenOptions (load_begins False None (\<lambda>_. Inr []) d)))"

fun snapshot_of :: "(listen_options \<Rightarrow> 'a \<Rightarrow> string + 's) \<Rightarrow> dev_options \<Rightarrow> 'a attempt \<Rightarrow> 's option" where
  "snapshot_of compile options (CopyFails e) = None"
| "snapshot_of compile options (Exported result ok) =
     (case ebind result resolveApplication of
        Inr (Some app) \<Rightarrow>
          (case compile (resolveListenOptions options no_listen_options) app of
             Inr s \<Rightarrow> if ok then Some s else None | Inl _ \<Rightarrow> None)
      | _ \<Rightarrow> None)"
| "snapshot_of compile options (SelfStarted app listenOptions ok result) =
     (case compile (resolveListenOptions options listenOptions) app of
        Inr s \<Rightarrow> if ok then Some s else None | Inl _ \<Rightarrow> None)"

fun load_returns :: "(listen_options \<Rightarrow> 'a \<Rightarrow> string + 's) \<Rightarrow> dev_options \<Rightarrow> 'a attempt \<Rightarrow> bool" where
  "load_returns compile options (SelfStarted app listenOptions ok result) = (\<exists>ns. result = Inr ns)"
| "load_returns compile options attempt = (snapshot_of compile options attempt \<noteq> None)"

definition serving :: "nat \<Rightarrow> 's \<Rightarrow> nat \<Rightarrow> ('a, 's) dev \<Rightarrow> bool" where
  "serving i s r d \<longleftrightarrow> \<not> dv_closed d \<and> dv_context d = None \<and> dv_loads d = [] \<and> dv_current d = Some i
     \<and> map fst (dv_servers d) = [i]
     \<and> (\<exists>L. map_of (dv_servers d) i = Some L \<and> lv_current L = s \<and> \<not> lv_closing L)
     \<and> ds_revision (dv_status d) = r \<and> ds_reloadCount (dv_status d) + 1 = r"

definition phase_of :: "bool \<Rightarrow> dev_phase" where
  "phase_of ok = (if ok then Ready else Failed)"

lemmas dev_steps = load_begins_def import_ends_def registerAppListen_def applyApplication_def find_load_def load_fails_def
  load_succeeds_def end_load_def updateStatus_def reload_once_def Let_def

lemma watch_frame [simp]:
  "dv_closed (ensureWatchController c d) = dv_closed d" "dv_context (ensureWatchController c d) = dv_context d"
  "dv_loads (ensureWatchController c d) = dv_loads d" "dv_current (ensureWatchController c d) = dv_current d"
  "dv_servers (ensureWatchController c d) = dv_servers d" "dv_status (ensureWatchController c d) = dv_status d"
  by (simp_all add: ensureWatchController_def split: option.splits)

lemma update_single: "map fst xs = [i] \<Longrightarrow> map fst (AList.update i v xs) = [i]"
  by (cases xs) auto

lemma apply_serving:
  assumes "dv_current d = Some i" "map_of (dv_servers d) i = Some L" "\<not> lv_closing L" "map fst (dv_servers d) = [i]"
  shows "\<exists>L'. snd (applyApplication compile options ok app lo waiting d) = d\<lparr>dv_servers := AList.update i L' (dv_servers d)\<rparr>
      \<and> \<not> lv_closing L'
      \<and> lv_current L' = (case compile (resolveListenOptions options lo) app of Inr s \<Rightarrow> if ok then s else lv_current L | Inl _ \<Rightarrow> lv_current L)
      \<and> (fst (applyApplication compile options ok app lo waiting d) = Inr True
           \<or> (\<exists>e. fst (applyApplication compile options ok app lo waiting d) = Inl e))
      \<and> (fst (applyApplication compile options ok app lo waiting d) = Inr True \<longleftrightarrow>
          (\<exists>s. compile (resolveListenOptions options lo) app = Inr s) \<and> ok)"
proof (cases "compile (resolveListenOptions options lo) app")
  case (Inl e)
  have "dv_servers d = [(i, L)]" using assms(2,4) by (cases "dv_servers d") auto
  then show ?thesis using Inl assms(3) by (auto simp: applyApplication_def intro!: exI [of _ L])
next
  case (Inr s)
  obtain b L' where r: "reloadCompiledSnapshot ok s L = (b, L')" by fastforce
  then show ?thesis
    using Inr assms live.exchanged [of ok s L b L']
    by (auto simp: applyApplication_def Let_def intro!: exI [of _ L'])
qed

lemma reload_keeps_serving:
  assumes "serving i s r d"
  shows "serving i (case snapshot_of compile options a of None \<Rightarrow> s | Some t \<Rightarrow> t)
      (r + (if load_returns compile options a then 1 else 0)) (reload_once compile rc options a d)
    \<and> ds_state (dv_status (reload_once compile rc options a d)) = phase_of (load_returns compile options a)"
proof -
  obtain L where L: "map_of (dv_servers d) i = Some L" "lv_current L = s" "\<not> lv_closing L"
    using assms by (auto simp: serving_def)
  have d: "\<not> dv_closed d" "dv_context d = None" "dv_loads d = []" "dv_current d = Some i" "map fst (dv_servers d) = [i]"
      "ds_revision (dv_status d) = r" "ds_reloadCount (dv_status d) + 1 = r"
    using assms by (auto simp: serving_def)
  show ?thesis
  proof (cases a)
    case (CopyFails e)
    then show ?thesis using d L by (simp add: serving_def dev_steps phase_of_def)
  next
    case (Exported result ok)
    show ?thesis
    proof (cases "ebind result resolveApplication")
      case (Inl e)
      then show ?thesis using d L Exported by (cases result) (simp_all add: serving_def dev_steps phase_of_def)
    next
      case (Inr x)
      show ?thesis
      proof (cases x)
        case None
        then show ?thesis using d L Exported Inr by (cases result) (simp_all add: serving_def dev_steps phase_of_def)
      next
        case (Some app)
        then obtain ns where ns: "result = Inr ns" "resolveApplication ns = Inr (Some app)"
          using Inr by (cases result) auto
        let ?l = "\<lparr>lo_id = dv_next d, lo_previousContext = None, lo_initial = False, lo_loadedApp = Some app\<rparr>"
        define d2 where "d2 = (load_begins False None (\<lambda>_. Inr []) d)\<lparr>dv_loads := [?l]\<rparr>"
        have d2: "dv_current d2 = Some i" "map_of (dv_servers d2) i = Some L" "map fst (dv_servers d2) = [i]"
            "dv_closed d2 = dv_closed d" "dv_loads d2 = [?l]" "ds_revision (dv_status d2) = r"
            "ds_reloadCount (dv_status d2) + 1 = r"
          using d L by (simp_all add: d2_def dev_steps)
        obtain q d3 where q: "applyApplication compile options ok app no_listen_options (Some (dv_next d)) d2 = (q, d3)"
          by fastforce
        obtain L' where L': "d3 = d2\<lparr>dv_servers := AList.update i L' (dv_servers d2)\<rparr>" "\<not> lv_closing L'"
            "lv_current L' = (case compile (resolveListenOptions options no_listen_options) app of
               Inr s \<Rightarrow> if ok then s else lv_current L | Inl _ \<Rightarrow> lv_current L)"
            "q = Inr True \<or> (\<exists>e. q = Inl e)"
            "q = Inr True \<longleftrightarrow> (\<exists>s. compile (resolveListenOptions options no_listen_options) app = Inr s) \<and> ok"
          using apply_serving [OF d2(1,2) L(3) d2(3), of compile options ok app no_listen_options "Some (dv_next d)"] q
          by auto
        have run: "reload_once compile rc options a d
            = (case q of Inl e \<Rightarrow> load_fails e ?l d3 | Inr _ \<Rightarrow> load_succeeds options rc (Some app) ?l d3)"
          using d(1-3) L'(4) q by (auto simp: Exported ns dev_steps d2_def)
        have t: "snapshot_of compile options a = (case compile (resolveListenOptions options no_listen_options) app of
             Inr s \<Rightarrow> if ok then Some s else None | Inl _ \<Rightarrow> None)"
          by (simp add: Exported ns)
        have "load_returns compile options a \<longleftrightarrow> snapshot_of compile options a \<noteq> None"
          by (simp add: Exported)
        then have v: "load_returns compile options a \<longleftrightarrow> q = Inr True"
          unfolding t using L'(5) by (auto split: sum.splits)
        have m: "map_of (dv_servers d3) i = Some L'" "map fst (dv_servers d3) = [i]"
          using update_single [OF d2(3)] by (simp_all add: L'(1) update_conv')
        show ?thesis
          using L'(2-4) m d2 d(1) L(2) unfolding run v t
          by (auto simp: serving_def load_fails_def load_succeeds_def end_load_def updateStatus_def phase_of_def L'(1) Let_def
              split: sum.splits)
      qed
    qed
  next
    case (SelfStarted app lo ok result)
    let ?l = "\<lparr>lo_id = dv_next d, lo_previousContext = None, lo_initial = False, lo_loadedApp = Some app\<rparr>"
    define d2 where "d2 = (load_begins False None (\<lambda>_. Inr []) d)\<lparr>dv_selfStart := True, dv_loads := [?l]\<rparr>"
    have d2: "dv_current d2 = Some i" "map_of (dv_servers d2) i = Some L" "map fst (dv_servers d2) = [i]"
        "dv_closed d2 = dv_closed d" "dv_loads d2 = [?l]" "ds_revision (dv_status d2) = r"
        "ds_reloadCount (dv_status d2) + 1 = r" "dv_selfStart d2"
      using d L by (simp_all add: d2_def dev_steps)
    obtain L' where L': "snd (applyApplication compile options ok app lo None d2)
          = d2\<lparr>dv_servers := AList.update i L' (dv_servers d2)\<rparr>" "\<not> lv_closing L'"
        "lv_current L' = (case compile (resolveListenOptions options lo) app of
           Inr s \<Rightarrow> if ok then s else lv_current L | Inl _ \<Rightarrow> lv_current L)"
      using apply_serving [OF d2(1,2) L(3) d2(3), of compile options ok app lo None] by blast
    have "registerAppListen compile options ok app lo (load_begins False None (\<lambda>_. Inr []) d)
        = d2\<lparr>dv_servers := AList.update i L' (dv_servers d2)\<rparr>"
      using d(1-3) unfolding L'(1) [symmetric] by (simp add: d2_def dev_steps)
    then have run: "reload_once compile rc options a d = import_ends compile rc options False (dv_next d) result
        (d2\<lparr>dv_servers := AList.update i L' (dv_servers d2)\<rparr>)"
      by (simp add: SelfStarted reload_once_def)
    show ?thesis
      unfolding run using d2 d(1) L' L(2) update_single [OF d2(3)]
      by (cases result; cases "compile (resolveListenOptions options lo) app")
        (simp_all add: SelfStarted import_ends_def find_load_def load_fails_def load_succeeds_def end_load_def
          updateStatus_def serving_def phase_of_def Let_def update_conv')
  qed
qed

lemma reloads_keep_serving:
  "serving i s r d \<Longrightarrow> ds_state (dv_status d) = phase_of b \<Longrightarrow>
   serving i (last (s # List.map_filter (snapshot_of compile options) as)) (r + length (filter (load_returns compile options) as))
      (foldl (\<lambda>d a. reload_once compile rc options a d) d as)
    \<and> ds_state (dv_status (foldl (\<lambda>d a. reload_once compile rc options a d) d as))
        = phase_of (if as = [] then b else load_returns compile options (last as))"
proof (induction as arbitrary: s r d b)
  case (Cons a as)
  let ?s = "case snapshot_of compile options a of None \<Rightarrow> s | Some t \<Rightarrow> t"
  let ?r = "r + (if load_returns compile options a then 1 else 0)"
  note step = reload_keeps_serving [OF Cons.prems(1), of compile options a rc]
  have "last (?s # List.map_filter (snapshot_of compile options) as) = last (s # List.map_filter (snapshot_of compile options) (a # as))"
    by (auto simp: map_filter_simps split: option.splits)
  moreover have "?r + length (filter (load_returns compile options) as) = r + length (filter (load_returns compile options) (a # as))"
    by simp
  ultimately show ?case
    using Cons.IH [OF conjunct1 [OF step] conjunct2 [OF step]] by auto
qed (simp add: map_filter_simps)

lemma first_load:
  assumes "resolveApplication ns = Inr (Some app)" "compile (resolveListenOptions options no_listen_options) app = Inr s0"
    and "\<And>v. \<exists>u. url v = Inr u"
  shows "serving 1 s0 1 (server_starts rc options 1 None (import_ends compile rc options ok 0 (Inr ns) (load_begins True None url createDevServer)))
    \<and> ds_state (dv_status (server_starts rc options 1 None (import_ends compile rc options ok 0 (Inr ns)
        (load_begins True None url createDevServer)))) = phase_of True"
proof -
  obtain u where "url 1 = Inr u" using assms(3) by blast
  then show ?thesis
    by (simp add: createDevServer_def dev_steps server_starts_def serving_def phase_of_def assms(1,2) startCompiledServer_def)
qed

section \<open>Properties\<close>

text \<open>C40: However its reloads go, one after the other, a development server keeps serving: the server of the first load
  is the only one and is never closed, it serves the snapshot that was accepted last, whatever failed since, the
  revision counts the loads that returned, the status tells whether the last one did, and the global context is
  gone between the loads.\<close>

theorem reloads_keep_one_server:
  assumes "resolveApplication ns = Inr (Some app)" "compile (resolveListenOptions options no_listen_options) app = Inr s0"
    and "\<And>v. \<exists>u. url v = Inr u"
    and "d0 = server_starts rc options 1 None (import_ends compile rc options ok 0 (Inr ns) (load_begins True None url createDevServer))"
    and "d = foldl (\<lambda>d a. reload_once compile rc options a d) d0 as"
  shows "(\<exists>L. dv_servers d = [(1, L)] \<and> \<not> lv_closing L
      \<and> lv_current L = last (s0 # List.map_filter (snapshot_of compile options) as))
    \<and> dv_context d = None \<and> dv_loads d = []
    \<and> ds_revision (dv_status d) = 1 + length (filter (load_returns compile options) as)
    \<and> ds_state (dv_status d) = (if as = [] \<or> load_returns compile options (last as) then Ready else Failed)"
proof -
  let ?s = "last (s0 # List.map_filter (snapshot_of compile options) as)"
  note f = first_load [of ns app compile options s0 url rc ok, OF assms(1-3)]
  note g = reloads_keep_serving [OF conjunct1 [OF f] conjunct2 [OF f], of compile options as rc]
  have s: "serving 1 ?s (1 + length (filter (load_returns compile options) as)) d"
    using g unfolding assms(4,5) by blast
  then obtain L where L: "map_of (dv_servers d) 1 = Some L" "lv_current L = ?s" "\<not> lv_closing L" "map fst (dv_servers d) = [1]"
    by (auto simp: serving_def)
  then have "dv_servers d = [(1, L)]" by (cases "dv_servers d") auto
  moreover have "ds_state (dv_status d) = phase_of (if as = [] then True else load_returns compile options (last as))"
    using g unfolding assms(4,5) by blast
  ultimately show ?thesis using s L by (auto simp: serving_def phase_of_def)
qed

definition sample_options :: dev_options where
  "sample_options = \<lparr>do_host = None, do_port = None, do_backlog = None, do_serverConfig = li_serverConfig no_listen_options,
     do_watch = None, do_files = None, do_debounceMs = None, do_clear = None\<rparr>"

definition exporting :: "nat \<Rightarrow> nat exports" where
  "exporting a = \<lparr>mo_default = NoExport, mo_app = AppExport a, mo_createApp = NoExport\<rparr>"

theorem reloads_keep_one_server_witness:
  "lv_current (snd (hd (dv_servers (foldl (\<lambda>d a. reload_once (\<lambda>_ a. if a = 0 then Inl ''bad'' else Inr a) (\<lambda>_. None) sample_options a d)
      (server_starts (\<lambda>_. None) sample_options 1 None (import_ends (\<lambda>_ a. if a = 0 then Inl ''bad'' else Inr a) (\<lambda>_. None)
         sample_options True 0 (Inr (exporting 5)) (load_begins True None (\<lambda>_. Inr []) createDevServer)))
      [Exported (Inr (exporting 7)) True, Exported (Inl ''SyntaxError'') True, Exported (Inr (exporting 0)) True, CopyFails ''EACCES'',
       Exported (Inr (exporting 8)) False])))) = (7 :: nat)"
proof -
  have r: "resolveApplication (exporting a) = Inr (Some a)" for a by (simp add: resolveApplication_def exporting_def)
  show ?thesis
    using reloads_keep_one_server [of "exporting 5" 5 "\<lambda>_ a. if a = 0 then Inl ''bad'' else Inr a" sample_options 5 "\<lambda>_. Inr []", OF r _ _ refl refl,
        of "\<lambda>_. None" True "[Exported (Inr (exporting 7)) True, Exported (Inl ''SyntaxError'') True, Exported (Inr (exporting 0)) True, CopyFails ''EACCES'',
       Exported (Inr (exporting 8)) False]"]
    by (auto simp: r map_filter_simps)
qed

text \<open>Loads that overlap share one flag and one global variable, and \<open>close()\<close> does not wait for a load.  A load that
  is still importing when the server closes starts a server of its own, which nothing closes.\<close>

lemma late_load_starts_a_server_after_close:
  "let ok = (\<lambda>_ a. Inr a) :: listen_options \<Rightarrow> nat \<Rightarrow> string + nat;
       d0 = server_starts (\<lambda>_. None) sample_options 1 None (import_ends ok (\<lambda>_. None) sample_options True 0
              (Inr (exporting 5)) (load_begins True None (\<lambda>_. Inr []) createDevServer));
       d1 = close_ends (close_begins (load_begins False None (\<lambda>_. Inr []) d0));
       d2 = server_starts (\<lambda>_. None) sample_options 3 None (import_ends ok (\<lambda>_. None) sample_options True 2 (Inr (exporting 6)) d1) in
   ds_state (dv_status d1) = Closed \<and> dv_closed d2 \<and> ds_state (dv_status d2) = Ready
     \<and> map (lv_closing \<circ> snd) (dv_servers d2) = [True, False] \<and> close_begins d2 = d2"
  by code_simp

text \<open>Of two overlapping loads the second ends last and puts back the context of the first, which is over: from then on
  every \<open>listen()\<close> in the process goes to the development server.\<close>

lemma overlapping_loads_leave_a_context:
  "let ok = (\<lambda>_ a. Inr a) :: listen_options \<Rightarrow> nat \<Rightarrow> string + nat;
       d0 = server_starts (\<lambda>_. None) sample_options 1 None (import_ends ok (\<lambda>_. None) sample_options True 0
              (Inr (exporting 5)) (load_begins True None (\<lambda>_. Inr []) createDevServer));
       d1 = load_begins False None (\<lambda>_. Inr []) (load_begins False None (\<lambda>_. Inr []) d0);
       d2 = import_ends ok (\<lambda>_. None) sample_options True 3 (Inr (exporting 7))
              (import_ends ok (\<lambda>_. None) sample_options True 2 (Inr (exporting 6)) d1) in
   dv_loads d2 = [] \<and> dv_context d2 = Some 2"
  by code_simp

text \<open>A load that starts while another program has already called \<open>listen()\<close> resets the flag, and the first load fails
  although its application is the one being served.\<close>

lemma overlapping_load_hides_self_start:
  "let ok = (\<lambda>_ a. Inr a) :: listen_options \<Rightarrow> nat \<Rightarrow> string + nat; none = \<lparr>mo_default = NoExport, mo_app = NoExport, mo_createApp = NoExport\<rparr>;
       d0 = server_starts (\<lambda>_. None) sample_options 1 None (import_ends ok (\<lambda>_. None) sample_options True 0
              (Inr (exporting 5)) (load_begins True None (\<lambda>_. Inr []) createDevServer));
       d1 = registerAppListen ok sample_options True 6 no_listen_options (load_begins False None (\<lambda>_. Inr []) d0);
       d2 = import_ends ok (\<lambda>_. None) sample_options True 2 (Inr none) (load_begins False None (\<lambda>_. Inr []) d1) in
   map (lv_current \<circ> snd) (dv_servers d2) = [6] \<and> ds_lastError (dv_status d2) = Some ''must export an app''"
  by code_simp

text \<open>The copies leave out the repository, the copies themselves and the build output.\<close>

lemma copies_leave_out:
  "copy_entries exists copy copied names = Inr out \<Longrightarrow> set copied \<inter> set skipped_entries = {} \<Longrightarrow>
   set out \<inter> set skipped_entries = {}"
proof (induction names arbitrary: copied)
  case (Cons n names)
  then show ?case by (cases "n \<in> set skipped_entries \<or> \<not> exists n"; cases "copy n") (auto split: if_splits)
qed simp

end
