(* ===== verification/Serving.thy ===== *)
theory Serving
  imports Compile Optimizer DevComments
begin

text \<open>
  What the function made by \<open>createDispatcher\<close> in \<open>src/src/index.js\<close> does with one buffer of the native layer:
  WebSocket events with the calls their handlers make, and HTTP requests together with what is noted about
  them, by the optimiser and above the routes.  The envelope of an event is the one \<open>rsrc/src/lib.rs\<close> builds.
  The handlers of the user and the calls into the native layer are a parameter and a log of calls; a duration
  is what the clock says.
\<close>

section \<open>WebSocket connections\<close>

datatype ws_message = TextFrame string | BytesFrame "byte list"

datatype ws_operation = SocketSend ws_message | SocketClose int string | SocketSubscribe string
  | SocketUnsubscribe string | SocketPublish string ws_message

datatype native_call = StreamWrite nat "byte list" | StreamEnd nat | WsSubscribe nat string
  | WsUnsubscribe nat string | WsPublish string "byte list"

definition message_bytes :: "ws_message \<Rightarrow> byte list" where
  "message_bytes msg = (case msg of TextFrame t \<Rightarrow> text_encode t | BytesFrame b \<Rightarrow> b)"

text \<open>The methods of the object a handler gets, for the connection \<open>wsId\<close>.\<close>

fun socket_call :: "nat \<Rightarrow> ws_operation \<Rightarrow> native_call" where
  "socket_call wsId (SocketSend msg) = StreamWrite wsId (message_bytes msg)"
| "socket_call wsId (SocketClose code reason) = StreamEnd wsId"
| "socket_call wsId (SocketSubscribe topic) = WsSubscribe wsId topic"
| "socket_call wsId (SocketUnsubscribe topic) = WsUnsubscribe wsId topic"
| "socket_call wsId (SocketPublish topic msg) = WsPublish topic (message_bytes msg)"

text \<open>A handler, awaited to its end: the operations it calls, its effect, and the error it throws, if any.\<close>

type_synonym 'g socket_handler = "'g \<Rightarrow> ws_operation list \<times> 'g \<times> error_value option"

record 'g ws_handlers =
  wh_open :: "'g socket_handler option"
  wh_message :: "(ws_message \<Rightarrow> 'g socket_handler) option"
  wh_close :: "'g socket_handler option"

section \<open>The state\<close>

text \<open>The compiled application with what the dispatcher keeps beside it: the sockets, the calls made to the native
  layer, the errors that were printed, the entries of the optimiser and the writer of comments.\<close>

record 'g service =
  sv_app :: "'g app"
  sv_wsRoutes :: "(nat \<times> 'g ws_handlers) list"
  sv_timing :: bool
  sv_hot :: int
  sv_stable :: int
  sv_location :: "nat \<Rightarrow> source_location option"
  sv_writable :: "string \<Rightarrow> bool"

record 'g serving =
  se_world :: "'g world"
  se_active :: "nat list"
  se_calls :: "native_call list"
  se_printed :: "error_value list"
  se_entries :: "(nat \<times> route_entry) list"
  se_comments :: "writer option"

section \<open>Events\<close>

definition run_socket :: "'g socket_handler option \<Rightarrow> nat \<Rightarrow> 'g serving \<Rightarrow> 'g serving" where
  "run_socket handler wsId s =
     (case handler of
        None \<Rightarrow> s
      | Some h \<Rightarrow>
          let (ops, g, failure) = h (wd_glob (se_world s)) in
          s\<lparr>se_world := (se_world s)\<lparr>wd_glob := g\<rparr>, se_calls := se_calls s @ map (socket_call wsId) ops,
            se_printed := se_printed s @ (case failure of None \<Rightarrow> [] | Some e \<Rightarrow> [e])\<rparr>)"

definition socket_handler :: "ws_event \<Rightarrow> 'g ws_handlers \<Rightarrow> 'g socket_handler option" where
  "socket_handler ev h =
     (case ev of
        WsOpen \<Rightarrow> wh_open h
      | WsText t \<Rightarrow> map_option (\<lambda>f. f (TextFrame t)) (wh_message h)
      | WsBinary b \<Rightarrow> map_option (\<lambda>f. f (BytesFrame b)) (wh_message h)
      | WsClose \<Rightarrow> wh_close h
      | WsOther _ \<Rightarrow> None)"

definition serve_socket :: "'g service \<Rightarrow> byte list \<Rightarrow> 'g serving \<Rightarrow> (bridge_error + byte list) \<times> 'g serving" where
  "serve_socket sv requestBuffer s =
     (case decode_ws_event requestBuffer of
        Inl e \<Rightarrow> (Inl e, s)
      | Inr (ev, wsId, handlerId) \<Rightarrow>
          (case map_of (rev (sv_wsRoutes sv)) handlerId of
             None \<Rightarrow> (Inr [], s)
           | Some h \<Rightarrow> (Inr [], run_socket (socket_handler ev h) wsId (s\<lparr>se_active := ws_track ev wsId (se_active s)\<rparr>))))"

text \<open>\<open>dispatch.closeWebSockets\<close>.\<close>

definition end_sockets :: "'g serving \<Rightarrow> 'g serving" where
  "end_sockets s = s\<lparr>se_calls := se_calls s @ map StreamEnd (se_active s), se_active := []\<rparr>"

section \<open>Requests\<close>

text \<open>The route and the snapshot that \<open>recordDispatch\<close> sees: not for cached, streaming and failed responses.\<close>

definition observed :: "'g app \<Rightarrow> byte list \<Rightarrow> 'g world \<Rightarrow> ('g route \<times> snapshot) option" where
  "observed app requestBuffer w =
     (case decodeRequestEnvelope requestBuffer of
        Inl e \<Rightarrow> None
      | Inr decoded \<Rightarrow>
          if env_handlerId decoded = 0 then None
          else
            (case find_route app (env_handlerId decoded) of
               None \<Rightarrow> None
             | Some rt \<Rightarrow>
                 if Option.bind (wd_routeCaches w (rt_handlerId rt)) rc_encoded \<noteq> None then None
                 else
                   let (c, w1) = make_ctx (rt_plan rt) (rt_paramNames rt) (Some (rt_method rt)) (rt_serializer rt) decoded w in
                   (case run_route rt c of
                      (r, Some e, d) \<Rightarrow> None
                    | (r, None, d) \<Rightarrow>
                        if rs_streaming (cx_res (stt r)) then None else Some (rt, take_snapshot (cx_res (stt r))))))"

text \<open>\<open>maybePromoteRouteResponseCache\<close> has just stored a response for the route.\<close>

definition promoted :: "nat \<Rightarrow> 'g world \<Rightarrow> 'g world \<Rightarrow> bool" where
  "promoted i w w' \<longleftrightarrow> Option.bind (wd_routeCaches w i) rc_encoded = None \<and> Option.bind (wd_routeCaches w' i) rc_encoded \<noteq> None"

definition serve_request ::
  "'g service \<Rightarrow> int \<Rightarrow> jnum \<Rightarrow> byte list \<Rightarrow> 'g serving \<Rightarrow> (bridge_error + byte list) \<times> 'g serving" where
  "serve_request sv now duration requestBuffer s =
     (let (result, pending, w') = dispatch_request (sv_app sv) requestBuffer (se_world s);
          s1 = s\<lparr>se_world := w'\<rparr> in
      case observed (sv_app sv) requestBuffer (se_world s) of
        None \<Rightarrow> (result, s1)
      | Some (rt, sn) \<Rightarrow>
          let i = rt_handlerId rt;
              durationMs = (if sv_timing sv then duration else NaN);
              s2 = s1\<lparr>se_entries := recordDispatch (sv_hot sv) (sv_stable sv) now i sn durationMs (se_entries s)\<rparr> in
          (result,
           if promoted i (se_world s) w'
           then s2\<lparr>se_comments := map_option (markRoute (sv_writable sv) (sv_location sv i) ''runtime-cache-promoted'')
             (se_comments s)\<rparr>
           else s2))"

text \<open>The first byte tells the two apart.\<close>

definition serve ::
  "'g service \<Rightarrow> int \<Rightarrow> jnum \<Rightarrow> byte list \<Rightarrow> 'g serving \<Rightarrow> (bridge_error + byte list) \<times> 'g serving" where
  "serve sv now duration requestBuffer s =
     (if requestBuffer \<noteq> [] \<and> hd requestBuffer = 0xFE then serve_socket sv requestBuffer s
      else serve_request sv now duration requestBuffer s)"

text \<open>What is recorded is what was sent: the reply is the encoding of the snapshot the optimiser saw.\<close>

lemma recorded_is_sent:
  assumes "observed (sv_app sv) requestBuffer (se_world s) = Some (rt, sn)"
  shows "fst (serve_request sv now duration requestBuffer s)
    = (case encodeResponseEnvelope (ap_alloc (sv_app sv)) (wd_cache (se_world s)) sn of Inl e \<Rightarrow> Inl e | Inr (encoded, cache) \<Rightarrow> Inr encoded)
    \<and> se_entries (snd (serve_request sv now duration requestBuffer s))
      = recordDispatch (sv_hot sv) (sv_stable sv) now (rt_handlerId rt) sn (if sv_timing sv then duration else NaN) (se_entries s)"
proof -
  have c: "wd_cache (snd (make_ctx plan names meth ser decoded w)) = wd_cache w" for plan names meth ser decoded w
    by (simp add: make_ctx_def Let_def split: prod.splits)
  obtain decoded c0 w1 r d where o:
    "decodeRequestEnvelope requestBuffer = Inr decoded" "env_handlerId decoded \<noteq> 0"
    "find_route (sv_app sv) (env_handlerId decoded) = Some rt"
    "Option.bind (wd_routeCaches (se_world s) (rt_handlerId rt)) rc_encoded = None"
    "make_ctx (rt_plan rt) (rt_paramNames rt) (Some (rt_method rt)) (rt_serializer rt) decoded (se_world s) = (c0, w1)"
    "run_route rt c0 = (r, None, d)" "\<not> rs_streaming (cx_res (stt r))" "sn = take_snapshot (cx_res (stt r))"
    using assms by (auto simp: observed_def Let_def split: sum.splits option.splits if_splits prod.splits)
  have "wd_cache w1 = wd_cache (se_world s)" using c [of "rt_plan rt" "rt_paramNames rt" "Some (rt_method rt)"] o(5) by (metis snd_conv)
  then have "fst (dispatch_request (sv_app sv) requestBuffer (se_world s))
      = (case encodeResponseEnvelope (ap_alloc (sv_app sv)) (wd_cache (se_world s)) sn of Inl e \<Rightarrow> Inl e | Inr (encoded, cache) \<Rightarrow> Inr encoded)"
    using o by (simp add: dispatch_request_def finish_request_def Let_def split: sum.splits)
  then show ?thesis using assms by (simp add: serve_request_def Let_def case_prod_beta)
qed

section \<open>The native side\<close>

definition build_ws_event_envelope :: "nat \<Rightarrow> nat \<Rightarrow> nat \<Rightarrow> byte list \<Rightarrow> byte list" where
  "build_ws_event_envelope event_type ws_id handler_id payload =
     0xFE # u8le (int event_type) @ u32le (int (ws_id mod 4294967296)) @ u32le (int (ws_id div 4294967296))
       @ u32le (int handler_id) @ u32le (int (length payload)) @ payload"

definition event_of :: "nat \<Rightarrow> byte list \<Rightarrow> ws_event" where
  "event_of event_type payload =
     (if event_type = 1 then WsOpen else if event_type = 2 then WsText (text_decode payload)
      else if event_type = 4 then WsBinary payload else if event_type = 3 then WsClose else WsOther event_type)"

lemma decode_built:
  assumes "t < 256" "i \<le> 2 ^ 53" "h < 4294967296" "length payload < 4294967296"
  shows "decode_ws_event (build_ws_event_envelope t i h payload) = Inr (event_of t payload, i, h)"
proof -
  let ?b = "build_ws_event_envelope t i h payload" and ?lo = "i mod 4294967296" and ?hi = "i div 4294967296"
  note d = build_ws_event_envelope_def u8le_def u32le_def
  have less64: "i < 2 ^ 64" using assms(2) by simp
  have "readU8 ?b 1 = Inr t"
    by (rule readU8_cur [where rest = "u32le (int ?lo) @ u32le (int ?hi) @ u32le (int h) @ u32le (int (length payload)) @ payload"])
      (use assms in \<open>simp_all add: d\<close>)
  moreover have "readU32 ?b 2 = Inr ?lo"
    by (rule readU32_cur [where rest = "u32le (int ?hi) @ u32le (int h) @ u32le (int (length payload)) @ payload"])
      (simp_all add: d)
  moreover have "readU32 ?b 6 = Inr ?hi"
    by (rule readU32_cur [where rest = "u32le (int h) @ u32le (int (length payload)) @ payload"])
      (use less64 in \<open>simp_all add: d less_mult_imp_div_less\<close>)
  moreover have "readU32 ?b 10 = Inr h"
    by (rule readU32_cur [where rest = "u32le (int (length payload)) @ payload"]) (use assms(3) in \<open>simp_all add: d\<close>)
  moreover have "readU32 ?b 14 = Inr (length payload)"
    by (rule readU32_cur [where rest = payload]) (use assms(4) in \<open>simp_all add: d\<close>)
  moreover have "take (length payload) (drop 18 (build_ws_event_envelope u i h payload)) = payload" for u by (simp add: d)
  moreover have "number_of_big (?lo + 4294967296 * ?hi) = i" using assms(2) by simp
  ultimately show ?thesis
    by (cases "0 < length payload") (simp_all add: decode_ws_event_def event_of_def Let_def)
qed

text \<open>Connection numbers above \<open>2 ^ 53\<close> are not told apart; the native layer counts them up from one.\<close>

lemma large_ids_collide: "number_of_big (2 ^ 53 + 1) = number_of_big (2 ^ 53)"
  by (simp add: number_of_big_def bits_of.simps Let_def)

text \<open>The events of a run: type, connection, handler and data, all within their widths.\<close>

type_synonym socket_event = "nat \<times> nat \<times> nat \<times> byte list"

definition good_event :: "'g service \<Rightarrow> socket_event \<Rightarrow> bool" where
  "good_event sv e = (case e of (t, i, h, payload) \<Rightarrow> t < 256 \<and> i \<le> 2 ^ 53 \<and> h < 4294967296
     \<and> length payload < 4294967296 \<and> map_of (rev (sv_wsRoutes sv)) h \<noteq> None)"

definition serve_events :: "'g service \<Rightarrow> int \<Rightarrow> jnum \<Rightarrow> socket_event list \<Rightarrow> 'g serving \<Rightarrow> 'g serving" where
  "serve_events sv now duration es s =
     foldl (\<lambda>s (t, i, h, payload). snd (serve sv now duration (build_ws_event_envelope t i h payload) s)) s es"

text \<open>The connection was opened, and not closed since.\<close>

definition open_in :: "socket_event list \<Rightarrow> nat \<Rightarrow> bool" where
  "open_in es i \<longleftrightarrow> (\<exists>pre h payload post. es = pre @ (1, i, h, payload) # post \<and> \<not> list_ex (\<lambda>e. fst e = 3 \<and> fst (snd e) = i) post)"

lemma open_in_snoc:
  "open_in (es @ [(t, j, h, payload)]) i \<longleftrightarrow> (t = 1 \<and> j = i) \<or> (open_in es i \<and> \<not> (t = 3 \<and> j = i))"
proof
  assume "open_in (es @ [(t, j, h, payload)]) i"
  then obtain pre h' p' post where a: "es @ [(t, j, h, payload)] = pre @ (1, i, h', p') # post"
      "\<not> list_ex (\<lambda>e. fst e = 3 \<and> fst (snd e) = i) post"
    unfolding open_in_def by blast
  then show "(t = 1 \<and> j = i) \<or> (open_in es i \<and> \<not> (t = 3 \<and> j = i))"
    by (cases post rule: rev_cases) (fastforce simp: open_in_def)+
next
  assume a: "(t = 1 \<and> j = i) \<or> (open_in es i \<and> \<not> (t = 3 \<and> j = i))"
  then show "open_in (es @ [(t, j, h, payload)]) i"
  proof
    assume "t = 1 \<and> j = i"
    then show ?thesis
      unfolding open_in_def by (intro exI [of _ es] exI [of _ h] exI [of _ payload] exI [of _ "[]"]) simp
  next
    assume b: "open_in es i \<and> \<not> (t = 3 \<and> j = i)"
    then obtain pre h' p' post where "es = pre @ (1, i, h', p') # post" "\<not> list_ex (\<lambda>e. fst e = 3 \<and> fst (snd e) = i) post"
      unfolding open_in_def by blast
    then have "es @ [(t, j, h, payload)] = pre @ (1, i, h', p') # (post @ [(t, j, h, payload)])"
        "\<not> list_ex (\<lambda>e. fst e = 3 \<and> fst (snd e) = i) (post @ [(t, j, h, payload)])"
      using b by auto
    then show ?thesis unfolding open_in_def by blast
  qed
qed

lemma run_socket_active [simp]: "se_active (run_socket h i s) = se_active s"
  by (simp add: run_socket_def split: option.splits prod.splits)

lemma event_served:
  assumes "good_event sv (t, i, h, payload)"
  shows "fst (serve sv now duration (build_ws_event_envelope t i h payload) s) = Inr []
    \<and> se_active (snd (serve sv now duration (build_ws_event_envelope t i h payload) s))
        = ws_track (event_of t payload) i (se_active s)"
proof -
  have "hd (build_ws_event_envelope t i h payload) = 0xFE" "build_ws_event_envelope t i h payload \<noteq> []"
    by (simp_all add: build_ws_event_envelope_def)
  moreover obtain hs where "map_of (rev (sv_wsRoutes sv)) h = Some hs" using assms by (auto simp: good_event_def)
  moreover have "decode_ws_event (build_ws_event_envelope t i h payload) = Inr (event_of t payload, i, h)"
    using assms by (intro decode_built) (auto simp: good_event_def)
  ultimately show ?thesis by (simp add: serve_def serve_socket_def)
qed

lemma track_event:
  "distinct active \<Longrightarrow> distinct (ws_track (event_of t payload) j active)
    \<and> (i \<in> set (ws_track (event_of t payload) j active) \<longleftrightarrow> (t = 1 \<and> j = i) \<or> (i \<in> set active \<and> \<not> (t = 3 \<and> j = i)))"
  by (auto simp: ws_track_def event_of_def set_add_def removeAll_filter_not_eq)

section \<open>Properties\<close>

text \<open>The envelope the native layer builds of a WebSocket event is read back as this event, for all event types,
  handlers and data within the widths of the fields and all connection numbers a double holds exactly, and it can
  never be taken for a request.\<close>

theorem ws_event_round_trip:
  assumes "event_type < 256" "ws_id \<le> 2 ^ 53" "handler_id < 4294967296" "length payload < 4294967296"
  shows "decode_ws_event (build_ws_event_envelope event_type ws_id handler_id payload)
      = Inr (event_of event_type payload, ws_id, handler_id)
    \<and> (\<exists>e. decodeRequestEnvelope (build_ws_event_envelope event_type ws_id handler_id payload) = Inl e)"
  using decode_built [OF assms] by (simp add: decodeRequestEnvelope_def build_ws_event_envelope_def readU8_def BRIDGE_VERSION_def)

theorem ws_event_round_trip_witness:
  "decode_ws_event (build_ws_event_envelope 2 4294967301 7 (text_encode ''hi'')) = Inr (WsText (text_decode (text_encode ''hi'')), 4294967301, 7)"
  using ws_event_round_trip [of 2 4294967301 7 "text_encode ''hi''"] by (simp add: event_of_def text_encode_def)

text \<open>C30: Whatever the handlers of WebSocket routes do, throwing included, after any run of events the dispatcher
  tracks exactly the connections that were opened and not closed since, each once, and disposing ends exactly these.\<close>

theorem sockets_follow_events:
  assumes "\<forall>e\<in>set es. good_event sv e" "se_active s0 = []" "s = serve_events sv now duration es s0"
  shows "distinct (se_active s) \<and> (\<forall>i. i \<in> set (se_active s) \<longleftrightarrow> open_in es i)
    \<and> se_calls (end_sockets s) = se_calls s @ map StreamEnd (se_active s) \<and> se_active (end_sockets s) = []"
proof -
  have "distinct (se_active s) \<and> (\<forall>i. i \<in> set (se_active s) \<longleftrightarrow> open_in es i)"
    using assms(1) unfolding assms(3)
  proof (induction es rule: rev_induct)
    case Nil
    then show ?case by (simp add: serve_events_def assms(2) open_in_def)
  next
    case (snoc e es)
    obtain t j h payload where e: "e = (t, j, h, payload)" by (cases e)
    have "se_active (serve_events sv now duration (es @ [e]) s0)
        = ws_track (event_of t payload) j (se_active (serve_events sv now duration es s0))"
      using event_served [of sv t j h payload now duration] snoc.prems by (simp add: serve_events_def e)
    moreover have "distinct (se_active (serve_events sv now duration es s0))"
        "\<forall>i. i \<in> set (se_active (serve_events sv now duration es s0)) \<longleftrightarrow> open_in es i"
      using snoc by auto
    ultimately show ?case using track_event by (simp add: e open_in_snoc)
  qed
  then show ?thesis by (simp add: end_sockets_def)
qed

definition sample_service :: "nat service" where
  "sample_service = \<lparr>sv_app = demo_app (demo_route [] Return),
     sv_wsRoutes = [(3, \<lparr>wh_open = Some (\<lambda>g. ([SocketSend (TextFrame ''hi'')], g, Some (plain_error ''boom''))),
        wh_message = None, wh_close = None\<rparr>)],
     sv_timing = False, sv_hot = 0, sv_stable = 0, sv_location = (\<lambda>_. None), sv_writable = (\<lambda>_. True)\<rparr>"

definition sample_serving :: "nat serving" where
  "sample_serving = \<lparr>se_world = demo_world, se_active = [], se_calls = [], se_printed = [], se_entries = [], se_comments = None\<rparr>"

theorem sockets_follow_events_witness:
  "6 \<in> set (se_active (serve_events sample_service 0 NaN [(1, 5, 3, []), (1, 6, 3, []), (3, 5, 3, [])] sample_serving))
   \<and> 5 \<notin> set (se_active (serve_events sample_service 0 NaN [(1, 5, 3, []), (1, 6, 3, []), (3, 5, 3, [])] sample_serving))"
proof -
  have g: "\<forall>e\<in>set [(1, 5, 3, []), (1, 6, 3, []), (3, 5, 3, [])]. good_event sample_service e"
    by (simp add: good_event_def sample_service_def)
  have "open_in ([(1, 5, 3, [])] @ [(1, 6, 3, [])] @ [(3, 5, 3, [])]) 6" "\<not> open_in ([(1, 5, 3, [])] @ [(1, 6, 3, [])] @ [(3, 5, 3, [])]) 5"
    unfolding append_assoc [symmetric] open_in_snoc by simp_all
  then show ?thesis
    using sockets_follow_events [OF g, of sample_serving _ 0 NaN] by (simp add: sample_serving_def)
qed

end
