(* ===== verification/Notifier.thy ===== *)
theory Notifier
  imports Optimizer
begin

text \<open>
  The console side of the runtime optimiser: the notifier of \<open>src/src/opt/notify.js\<close> and
  \<open>createRuntimeOptimizer\<close> of \<open>src/src/opt/runtime.js\<close>, which feeds it.  What is printed is a list of lines;
  the clock, and \<open>toFixed\<close> on numbers, are parameters.  An entry carries what was reported of it, so that a
  report shows what came since the last one.
\<close>

section \<open>Lines\<close>

definition ANSI :: "(string \<times> string) list" where
  "ANSI = [(''reset'', ''0''), (''bold'', ''1''), (''dim'', ''2''), (''black'', ''30''), (''red'', ''31''), (''green'', ''32''),
     (''yellow'', ''33''), (''blue'', ''34''), (''magenta'', ''35''), (''cyan'', ''36''), (''white'', ''37''), (''gray'', ''90''),
     (''bgBlack'', ''40''), (''bgRed'', ''41''), (''bgGreen'', ''42''), (''bgYellow'', ''43''), (''bgBlue'', ''44''),
     (''bgMagenta'', ''45''), (''bgCyan'', ''46'')]"

definition escape :: "string \<Rightarrow> string" where
  "escape code = [CHR 0x1B] @ ''['' @ code @ ''m''"

definition ansi :: "string \<Rightarrow> string" where
  "ansi name = (case map_of ANSI name of None \<Rightarrow> [] | Some code \<Rightarrow> escape code)"

definition ANSI_256_fg :: "nat \<Rightarrow> string" where "ANSI_256_fg code = escape (''38;5;'' @ nat_digits code)"
definition ANSI_256_bg :: "nat \<Rightarrow> string" where "ANSI_256_bg code = escape (''48;5;'' @ nat_digits code)"

text \<open>Background, foreground and label of a level; an unknown level is shown as \<open>info\<close>.\<close>

definition LOG_LEVELS :: "(string \<times> string \<times> string) list" where
  "LOG_LEVELS = [(''debug'', ''bgBlue'', ''white''), (''info'', ''bgBlue'', ''white''), (''success'', ''bgGreen'', ''white''),
     (''warn'', ''bgYellow'', ''black''), (''error'', ''bgRed'', ''white'')]"

definition pad_end :: "nat \<Rightarrow> string \<Rightarrow> string" where
  "pad_end width s = s @ replicate (width - length s) (CHR '' '')"

definition pad :: "nat \<Rightarrow> string" where
  "pad num = (let t = nat_digits num in replicate (2 - length t) (CHR ''0'') @ t)"

record local_time =
  lt_month :: nat
  lt_date :: nat
  lt_hours :: nat
  lt_minutes :: nat
  lt_seconds :: nat

text \<open>\<open>getMonth()\<close> counts from zero.\<close>

definition getTimestamp :: "local_time \<Rightarrow> string" where
  "getTimestamp now = pad (lt_month now + 1) @ ''/'' @ pad (lt_date now) @ '' '' @ pad (lt_hours now) @ '':''
     @ pad (lt_minutes now) @ '':'' @ pad (lt_seconds now)"

definition formatLog :: "local_time \<Rightarrow> string \<Rightarrow> string \<Rightarrow> string" where
  "formatLog now level message =
     (let (name, bg, fg) = (case map_of LOG_LEVELS level of Some style \<Rightarrow> (level, style) | None \<Rightarrow> (''info'', ''bgBlue'', ''white''));
          timestampBadge = ANSI_256_bg 229 @ ANSI_256_fg 238 @ '' '' @ getTimestamp now @ '' '' @ ansi ''reset'';
          levelBadge = ansi bg @ ansi fg @ '' '' @ pad_end 7 name @ '' '' @ ansi ''reset'';
          separator = ansi ''dim'' @ ANSI_256_fg 245 @ ''||'' @ ansi ''reset'' in
      timestampBadge @ levelBadge @ '' '' @ separator @ '' '' @ message)"

section \<open>Reports\<close>

text \<open>The entries of the optimiser by the id of their route; \<open>fixed\<close> is \<open>toFixed(2)\<close>.\<close>

type_synonym entries = "(nat \<times> route_entry) list"

definition formatMs :: "(rat \<Rightarrow> string) \<Rightarrow> rat \<Rightarrow> string" where
  "formatMs fixed v = (if v \<le> 0 then ''0.00ms'' else fixed v @ ''ms'')"

definition bool_text :: "bool \<Rightarrow> string" where
  "bool_text b = (if b then ''true'' else ''false'')"

definition printRouteCatalog :: "entries \<Rightarrow> (string \<times> string) list" where
  "printRouteCatalog es =
     (if es = [] then [(''warn'', ''no routes registered'')]
      else (''info'', ''Route information / Tracking:'')
        # map (\<lambda>(i, e). (''debug'', ansi ''magenta'' @ en_label e @ ansi ''reset'' @ '' staticFastPath=''
             @ bool_text (en_staticFastPath e) @ '' dispatch='' @ en_dispatchKind e)) es)"

definition interval_hits :: "route_entry \<Rightarrow> int" where
  "interval_hits e = int (en_hits e) - int (en_lastIntervalHits e)"

definition report_line :: "(rat \<Rightarrow> string) \<Rightarrow> route_entry \<Rightarrow> string" where
  "report_line fixed e =
     (let intervalDurationMs = en_totalDurationMs e - en_lastIntervalDurationMs e;
          intervalAvgMs = (if interval_hits e > 0 then intervalDurationMs / of_int (interval_hits e) else 0) in
      ansi ''magenta'' @ en_label e @ ansi ''reset'' @ '' total='' @ nat_digits (en_hits e) @ '' +'' @ int_to_string (interval_hits e)
        @ '' avg='' @ formatMs fixed (average_ms e) @ '' last='' @ formatMs fixed (en_lastDurationMs e)
        @ '' max='' @ formatMs fixed (en_maxDurationMs e) @ '' intervalAvg='' @ formatMs fixed intervalAvgMs)"

definition reported :: "route_entry \<Rightarrow> route_entry" where
  "reported e = e\<lparr>en_lastIntervalHits := en_hits e, en_lastIntervalDurationMs := en_totalDurationMs e\<rparr>"

definition active_entries :: "entries \<Rightarrow> entries" where
  "active_entries es = sort_key (\<lambda>(i, e). - int (en_hits e)) (filter (\<lambda>(i, e). en_hits e > 0) es)"

definition printLiveRouteHits :: "(rat \<Rightarrow> string) \<Rightarrow> entries \<Rightarrow> (string \<times> string) list \<times> entries" where
  "printLiveRouteHits fixed es =
     (if active_entries es = []
      then ([(''warn'', ''no bridge-dispatch hits yet (static fast path bypasses JS dispatch counters)'')], es)
      else (map (\<lambda>(i, e). (''success'', report_line fixed e)) (active_entries es),
            map (\<lambda>(i, e). (i, if en_hits e > 0 then reported e else e)) es))"

section \<open>The optimiser\<close>

text \<open>\<open>op_lines\<close> are the printed lines with their levels; \<open>op_reports\<close> lists which hits a report counted of which
  route.  The timer runs while the optimiser is enabled, has a positive interval and was not disposed of.\<close>

record optimizer =
  op_entries :: entries
  op_enabled :: bool
  op_timing :: bool
  op_timer :: bool
  op_dirty :: bool
  op_lines :: "(string \<times> string) list"
  op_reports :: "(nat \<times> int) list"

record optimizer_options =
  oo_notify :: bool
  oo_timing :: bool
  oo_notifyIntervalMs :: jnum

definition printStartup :: "int \<Rightarrow> optimizer \<Rightarrow> optimizer" where
  "printStartup intervalMs o1 =
     (if op_enabled o1
      then o1\<lparr>op_lines := op_lines o1 @ (''success'', ''http-native optimizer enabled (interval='' @ int_to_string intervalMs @ ''ms)'')
        # printRouteCatalog (op_entries o1)\<rparr>
      else o1)"

text \<open>The environment: \<open>HTTP_NATIVE_OPT_NOTIFY\<close>, \<open>HTTP_NATIVE_OPT_TIMING\<close> and the default interval.\<close>

definition createRuntimeOptimizer ::
  "bool \<Rightarrow> bool \<Rightarrow> int \<Rightarrow> (route_info \<times> string list) list \<Rightarrow> optimizer_options \<Rightarrow> optimizer" where
  "createRuntimeOptimizer envNotify envTiming defaultInterval routes options =
     (let notifyEnabled = (oo_notify options \<or> envNotify);
          notifyIntervalMs = normalizeNotifyInterval (oo_notifyIntervalMs options) defaultInterval in
      printStartup notifyIntervalMs
        \<lparr>op_entries = map (\<lambda>(route, prefixes). (ri_handlerId route, buildRouteEntry route prefixes)) routes,
         op_enabled = notifyEnabled, op_timing = (notifyEnabled \<or> oo_timing options \<or> envTiming),
         op_timer = (notifyEnabled \<and> notifyIntervalMs > 0), op_dirty = False, op_lines = [], op_reports = []\<rparr>)"

definition markDirty :: "optimizer \<Rightarrow> optimizer" where
  "markDirty o1 = (if op_enabled o1 then o1\<lparr>op_dirty := True\<rparr> else o1)"

definition maybeNotify :: "string option \<Rightarrow> optimizer \<Rightarrow> optimizer" where
  "maybeNotify message o1 =
     (case message of Some m \<Rightarrow> if op_enabled o1 then o1\<lparr>op_lines := op_lines o1 @ [(''info'', m)]\<rparr> else o1 | None \<Rightarrow> o1)"

text \<open>The message of a dispatch: the route became hot, or its responses were found stable.\<close>

definition hit_message :: "route_entry \<Rightarrow> route_entry \<Rightarrow> string option" where
  "hit_message e e' =
     (if en_stage e = Cold \<and> en_stage e' = Hot
      then Some (en_label e @ (if en_staticFastPath e then '' is serving from the static fast path'' else '' is hot on bridge dispatch''))
      else if en_recommendation e = None \<and> en_recommendation e' \<noteq> None
      then Some (en_label e @ '' looks stable at runtime; cached values may be safe'')
      else None)"

definition record_dispatch ::
  "int \<Rightarrow> int \<Rightarrow> int \<Rightarrow> nat \<Rightarrow> snapshot \<Rightarrow> jnum \<Rightarrow> optimizer \<Rightarrow> optimizer" where
  "record_dispatch hot stab now handlerId sn durationMs o1 =
     (case map_of (op_entries o1) handlerId of
        None \<Rightarrow> o1
      | Some e \<Rightarrow>
          if en_settled e then o1
          else
            let e' = record_hit hot stab now (buildResponseKey sn) durationMs e in
            maybeNotify (hit_message e e')
              (markDirty (o1\<lparr>op_entries := recordDispatch hot stab now handlerId sn durationMs (op_entries o1)\<rparr>)))"

definition tick :: "(rat \<Rightarrow> string) \<Rightarrow> optimizer \<Rightarrow> optimizer" where
  "tick fixed o1 =
     (if \<not> op_timer o1 \<or> \<not> op_dirty o1 then o1
      else
        let (lines, es) = printLiveRouteHits fixed (op_entries o1) in
        o1\<lparr>op_dirty := False, op_lines := op_lines o1 @ lines, op_entries := es,
          op_reports := op_reports o1 @ map (\<lambda>(i, e). (i, interval_hits e)) (active_entries (op_entries o1))\<rparr>)"

definition optimizer_dispose :: "optimizer \<Rightarrow> optimizer" where
  "optimizer_dispose o1 = o1\<lparr>op_timer := False\<rparr>"

definition shouldCaptureDispatchTiming :: "optimizer \<Rightarrow> bool" where
  "shouldCaptureDispatchTiming o1 = op_timing o1"

text \<open>The report of one entry in \<open>snapshotRouteEntries\<close>: average, last and longest duration.\<close>

definition snapshot_durations :: "route_entry \<Rightarrow> rat \<times> rat \<times> rat" where
  "snapshot_durations e = (average_ms e, en_lastDurationMs e, en_maxDurationMs e)"

datatype optimizer_event = Dispatched int nat snapshot jnum | Ticks | Disposes

fun optimizer_step :: "int \<Rightarrow> int \<Rightarrow> (rat \<Rightarrow> string) \<Rightarrow> optimizer_event \<Rightarrow> optimizer \<Rightarrow> optimizer" where
  "optimizer_step hot stab fixed (Dispatched now i sn d) o1 = record_dispatch hot stab now i sn d o1"
| "optimizer_step hot stab fixed Ticks o1 = tick fixed o1"
| "optimizer_step hot stab fixed Disposes o1 = optimizer_dispose o1"

definition optimizer_run :: "int \<Rightarrow> int \<Rightarrow> (rat \<Rightarrow> string) \<Rightarrow> optimizer_event list \<Rightarrow> optimizer \<Rightarrow> optimizer" where
  "optimizer_run hot stab fixed evs o1 = foldl (\<lambda>x ev. optimizer_step hot stab fixed ev x) o1 evs"

section \<open>What the reports add up to\<close>

definition reported_hits :: "nat \<Rightarrow> optimizer \<Rightarrow> int" where
  "reported_hits i o1 = sum_list (map snd (filter (\<lambda>r. fst r = i) (op_reports o1)))"

definition dispatches_of :: "nat \<Rightarrow> optimizer_event list \<Rightarrow> nat" where
  "dispatches_of i evs = length (filter (\<lambda>ev. case ev of Dispatched now j sn d \<Rightarrow> j = i | _ \<Rightarrow> False) evs)"

lemma step_keys: "dom (map_of (op_entries (optimizer_step hot stab fixed ev o1))) = dom (map_of (op_entries o1))"
proof (cases ev)
  case (Dispatched now i sn d)
  then show ?thesis
    by (auto simp: record_dispatch_def recordDispatch_def maybeNotify_def markDirty_def update_conv' Let_def split: option.splits if_splits)
next
  case Ticks
  then show ?thesis by (force simp: tick_def printLiveRouteHits_def dom_map_of_conv_image_fst)
qed (simp add: optimizer_dispose_def)

lemma run_keys: "dom (map_of (op_entries (optimizer_run hot stab fixed evs o1))) = dom (map_of (op_entries o1))"
  unfolding optimizer_run_def by (induction evs arbitrary: o1) (simp_all add: step_keys)

text \<open>One entry: \<open>n\<close> dispatches, \<open>r\<close> reported hits, and whether nothing happened since the last report.\<close>

definition entry_counted :: "nat \<Rightarrow> int \<Rightarrow> bool \<Rightarrow> route_entry \<Rightarrow> bool" where
  "entry_counted n r quiet e \<longleftrightarrow> r = int (en_lastIntervalHits e) \<and> en_lastIntervalHits e \<le> en_hits e
     \<and> en_hits e \<le> n \<and> (quiet \<longrightarrow> en_lastIntervalHits e = en_hits e)"

definition counted :: "optimizer_event list \<Rightarrow> optimizer \<Rightarrow> bool" where
  "counted evs o1 \<longleftrightarrow> distinct (map fst (op_entries o1)) \<and> (op_timer o1 \<longrightarrow> op_enabled o1) \<and> (\<forall>i e. map_of (op_entries o1) i = Some e \<longrightarrow>
     entry_counted (dispatches_of i evs) (reported_hits i o1) (op_enabled o1 \<and> \<not> op_dirty o1) e)"

lemma countedD:
  "counted evs o1 \<Longrightarrow> map_of (op_entries o1) i = Some e \<Longrightarrow>
   entry_counted (dispatches_of i evs) (reported_hits i o1) (op_enabled o1 \<and> \<not> op_dirty o1) e"
  by (simp add: counted_def)

lemma counted_more: "entry_counted n r q e \<Longrightarrow> n \<le> m \<Longrightarrow> (q' \<longrightarrow> q) \<Longrightarrow> entry_counted m r q' e"
  by (auto simp: entry_counted_def)

lemma dispatches_snoc: "dispatches_of i evs \<le> dispatches_of i (evs @ [ev])"
  by (simp add: dispatches_of_def)

lemma record_hit_counts:
  "\<not> en_settled e \<Longrightarrow> en_hits (record_hit hot stab now key d e) = Suc (en_hits e)
    \<and> en_lastIntervalHits (record_hit hot stab now key d e) = en_lastIntervalHits e"
  by (simp add: record_hit_def after_hit_def add_duration_def Let_def split: jnum.splits)

lemma filter_distinct:
  "distinct (map fst xs) \<Longrightarrow> filter (\<lambda>x. fst x = i) xs = (case map_of xs i of None \<Rightarrow> [] | Some v \<Rightarrow> [(i, v)])"
proof (induction xs)
  case (Cons x xs)
  have "fst x = i \<Longrightarrow> map_of xs i = None" using Cons.prems by (auto simp: map_of_eq_None_iff)
  with Cons show ?case by (cases x) auto
qed simp

lemma tick_reports:
  assumes "distinct (map fst es)" "map_of es i = Some e"
  shows "filter (\<lambda>r. fst r = i) (map (\<lambda>(i, e). (i, interval_hits e)) (active_entries es))
    = (if en_hits e > 0 then [(i, interval_hits e)] else [])"
proof -
  have "filter (\<lambda>x. fst x = i) (active_entries es)
      = sort_key (\<lambda>(i, e). - int (en_hits e)) (filter (\<lambda>(i, e). en_hits e > 0) (filter (\<lambda>x. fst x = i) es))"
    by (simp add: active_entries_def filter_sort conj_commute)
  also have "\<dots> = (if en_hits e > 0 then [(i, e)] else [])" by (simp add: filter_distinct [OF assms(1)] assms(2))
  finally have f: "filter (\<lambda>x. fst x = i) (active_entries es) = (if en_hits e > 0 then [(i, e)] else [])" .
  have "filter (\<lambda>r. fst r = i) (map (\<lambda>(i, e). (i, interval_hits e)) xs)
      = map (\<lambda>(i, e). (i, interval_hits e)) (filter (\<lambda>x. fst x = i) xs)" for xs :: entries
    by (induction xs) auto
  then show ?thesis by (simp add: f)
qed

lemma map_of_map_reported:
  "map_of (map (\<lambda>(i, e). (i, f e)) es) i = map_option f (map_of es i)"
  by (induction es) auto

lemma same_counted:
  assumes "counted evs o1" "op_entries o2 = op_entries o1" "op_reports o2 = op_reports o1" "op_enabled o2 = op_enabled o1"
    and "op_timer o2 \<longrightarrow> op_timer o1" "op_dirty o1 \<longrightarrow> op_dirty o2"
  shows "counted (evs @ [ev]) o2"
proof -
  have "reported_hits i o2 = reported_hits i o1" for i by (simp add: reported_hits_def assms(3))
  then show ?thesis
    using assms dispatches_snoc counted_more [OF countedD [OF assms(1)]] unfolding counted_def by auto
qed

lemma dispatch_counted:
  assumes "counted evs o1"
  shows "counted (evs @ [Dispatched now j sn d]) (record_dispatch hot stab now j sn d o1)"
proof (cases "map_of (op_entries o1) j")
  case None
  then show ?thesis using same_counted [OF assms] by (simp add: record_dispatch_def)
next
  case (Some e)
  show ?thesis
  proof (cases "en_settled e")
    case True
    then show ?thesis using Some same_counted [OF assms] by (simp add: record_dispatch_def)
  next
    case False
    let ?e = "record_hit hot stab now (buildResponseKey sn) d e" and ?o = "record_dispatch hot stab now j sn d o1"
    have o: "op_entries ?o = AList.update j ?e (op_entries o1)" "op_enabled ?o = op_enabled o1"
        "op_reports ?o = op_reports o1" "op_timer ?o = op_timer o1" "op_enabled o1 \<longrightarrow> op_dirty ?o"
      using Some False by (auto simp: record_dispatch_def maybeNotify_def markDirty_def recordDispatch_def Let_def split: option.splits)
    have r: "reported_hits i ?o = reported_hits i o1" for i by (simp add: reported_hits_def o)
    have "entry_counted (dispatches_of i (evs @ [Dispatched now j sn d])) (reported_hits i o1) (op_enabled ?o \<and> \<not> op_dirty ?o) x"
      if "map_of (op_entries ?o) i = Some x" for i x
    proof (cases "i = j")
      case True
      then have "x = ?e" using that by (simp add: o update_conv')
      moreover have "dispatches_of j (evs @ [Dispatched now j sn d]) = Suc (dispatches_of j evs)" by (simp add: dispatches_of_def)
      ultimately show ?thesis
        using countedD [OF assms Some] record_hit_counts [OF False] True o(2,5) by (simp add: entry_counted_def)
    next
      case False
      then have "map_of (op_entries o1) i = Some x" using that by (simp add: o update_conv')
      from countedD [OF assms this] show ?thesis
        by (rule counted_more) (use dispatches_snoc o(2,5) in auto)
    qed
    moreover have "distinct (map fst (op_entries ?o))" using assms by (simp only: o counted_def distinct_update)
    moreover have "op_timer ?o \<longrightarrow> op_enabled ?o" using assms by (simp only: o counted_def) blast
    ultimately show ?thesis unfolding counted_def r by blast
  qed
qed

lemma tick_counted:
  assumes "counted evs o1"
  shows "counted (evs @ [Ticks]) (tick fixed o1)"
proof (cases "op_timer o1 \<and> op_dirty o1")
  case True
  let ?f = "\<lambda>e. if en_hits e > 0 then reported e else e" and ?o = "tick fixed o1"
  have e0: "snd (printLiveRouteHits fixed (op_entries o1)) = map (\<lambda>(i, e). (i, ?f e)) (op_entries o1)"
  proof (cases "active_entries (op_entries o1) = []")
    case True
    then have "filter (\<lambda>(i, e). en_hits e > 0) (op_entries o1) = []"
      unfolding active_entries_def by (metis length_0_conv length_sort)
    then have "map (\<lambda>(i, e). (i, ?f e)) (op_entries o1) = op_entries o1"
      by (intro map_idI) (auto simp: filter_empty_conv)
    then show ?thesis using True by (simp add: printLiveRouteHits_def)
  qed (simp add: printLiveRouteHits_def)
  have t: "op_entries ?o = map (\<lambda>(i, e). (i, ?f e)) (op_entries o1)" "op_enabled ?o = op_enabled o1" "op_timer ?o = op_timer o1"
      "op_reports ?o = op_reports o1 @ map (\<lambda>(i, e). (i, interval_hits e)) (active_entries (op_entries o1))" "\<not> op_dirty ?o"
    using True e0 by (simp_all add: tick_def case_prod_beta)
  have d: "distinct (map fst (op_entries o1))" using assms by (simp add: counted_def)
  have "entry_counted (dispatches_of i (evs @ [Ticks])) (reported_hits i ?o) (op_enabled ?o \<and> \<not> op_dirty ?o) x"
    if x: "map_of (op_entries ?o) i = Some x" for i x
  proof -
    obtain e where e: "map_of (op_entries o1) i = Some e" "x = ?f e"
      using x unfolding t(1) map_of_map_reported by auto
    have "reported_hits i ?o = reported_hits i o1 + (if en_hits e > 0 then interval_hits e else 0)"
      using tick_reports [OF d e(1)] by (simp add: reported_hits_def t(4))
    then show ?thesis
      using countedD [OF assms e(1)] e(2) dispatches_snoc [of i evs Ticks]
      by (auto simp: entry_counted_def reported_def interval_hits_def)
  qed
  moreover have "map fst (op_entries ?o) = map fst (op_entries o1)" by (simp add: t(1) case_prod_beta comp_def)
  ultimately show ?thesis using assms by (simp add: counted_def t(2,3))
next
  case False
  then show ?thesis using same_counted [OF assms] by (auto simp: tick_def)
qed

lemma step_counted:
  "counted evs o1 \<Longrightarrow> counted (evs @ [ev]) (optimizer_step hot stab fixed ev o1)"
  by (cases ev) (simp_all add: dispatch_counted tick_counted same_counted optimizer_dispose_def)

lemma start_counted:
  assumes "distinct (map (ri_handlerId \<circ> fst) routes)"
  shows "counted [] (createRuntimeOptimizer envNotify envTiming defaultInterval routes options)" (is "counted [] ?o")
proof -
  have e: "op_entries ?o = map (\<lambda>(route, prefixes). (ri_handlerId route, buildRouteEntry route prefixes)) routes"
      "op_reports ?o = []" "op_timer ?o \<longrightarrow> op_enabled ?o"
    by (simp_all add: createRuntimeOptimizer_def printStartup_def Let_def)
  have "map fst (op_entries ?o) = map (ri_handlerId \<circ> fst) routes" by (simp add: e(1) case_prod_beta)
  moreover have "en_hits x = 0 \<and> en_lastIntervalHits x = 0" if "map_of (op_entries ?o) j = Some x" for j x
    using map_of_SomeD [OF that] by (auto simp: e(1) buildRouteEntry_def Let_def)
  ultimately show ?thesis using assms e(2,3) by (auto simp: counted_def entry_counted_def reported_hits_def)
qed

section \<open>Properties\<close>

text \<open>The reports of the optimiser lose no hit and count none twice: however dispatches, ticks of the timer and a
  disposal interleave, the increments that were reported of a route add up to the hits its entry had at the last
  report, which are at most the dispatches of the route, and to all its hits when nothing has happened since.\<close>

theorem reports_conserve_hits:
  assumes "distinct (map (ri_handlerId \<circ> fst) routes)"
    and "o1 = optimizer_run hot stab fixed evs (createRuntimeOptimizer envNotify envTiming defaultInterval routes options)"
    and "map_of (op_entries o1) i = Some e"
  shows "reported_hits i o1 = int (en_lastIntervalHits e) \<and> en_lastIntervalHits e \<le> en_hits e
    \<and> en_hits e \<le> dispatches_of i evs
    \<and> (op_enabled o1 \<and> \<not> op_dirty o1 \<longrightarrow> reported_hits i o1 = int (en_hits e))"
proof -
  have "counted evs (optimizer_run hot stab fixed evs (createRuntimeOptimizer envNotify envTiming defaultInterval routes options))"
    by (induction evs rule: rev_induct)
      (simp_all add: optimizer_run_def start_counted [OF assms(1)] step_counted)
  then show ?thesis using countedD [OF _ assms(3)] unfolding assms(2) by (auto simp: entry_counted_def)
qed

definition sample_route :: route_info where
  "sample_route = \<lparr>ri_handlerId = 1, ri_method = ''GET'', ri_path = ''/a'', ri_source = None, ri_static = False,
     ri_dispatchKind = None, ri_jsonFastPath = None\<rparr>"

definition sample_optimizer :: optimizer where
  "sample_optimizer = optimizer_run 5 5 (\<lambda>_. ''1.00'')
      [Dispatched 0 1 \<lparr>sn_status = 200, sn_headers = [], sn_body = [1], sn_ncache = None\<rparr> (Fin 2), Ticks, Dispatched 0 1 \<lparr>sn_status = 200, sn_headers = [], sn_body = [1], sn_ncache = None\<rparr> (Fin 2), Ticks]
      (createRuntimeOptimizer False False 1000 [(sample_route, [])] \<lparr>oo_notify = True, oo_timing = False, oo_notifyIntervalMs = NaN\<rparr>)"

theorem reports_conserve_hits_witness: "reported_hits 1 sample_optimizer \<in> {0..2}"
proof -
  let ?d = "Dispatched 0 1 \<lparr>sn_status = 200, sn_headers = [], sn_body = [1], sn_ncache = None\<rparr> (Fin 2)"
  let ?start = "createRuntimeOptimizer False False 1000 [(sample_route, [])] \<lparr>oo_notify = True, oo_timing = False, oo_notifyIntervalMs = NaN\<rparr>"
  have "1 \<in> dom (map_of (op_entries ?start))"
    by (simp add: createRuntimeOptimizer_def printStartup_def sample_route_def Let_def)
  then obtain e where e: "map_of (op_entries sample_optimizer) 1 = Some e"
    using run_keys [of 5 5 "\<lambda>_. ''1.00''" "[?d, Ticks, ?d, Ticks]" ?start] by (auto simp: sample_optimizer_def)
  have "distinct (map (ri_handlerId \<circ> fst) [(sample_route, [] :: string list)])" by simp
  from reports_conserve_hits [OF this sample_optimizer_def e] show ?thesis
    by (simp add: dispatches_of_def)
qed

end
