(* ===== verification/CommandLine.thy ===== *)
theory CommandLine
  imports DevServer
begin

text \<open>
  The two ways to start the development server from a shell: \<open>src/src/cli.js\<close> (\<open>http-native dev\<close>) and
  \<open>src/src/hot.js\<close>.  Only their logic is here: reading the arguments, and the options they hand to
  \<open>createDevServer\<close>.  A value that is missing or empty is not taken as one, as in the code.
\<close>

section \<open>\<open>http-native dev\<close>\<close>

record dev_args =
  da_entry :: "string option"
  da_host :: "string option"
  da_port :: "jnum option"
  da_debounceMs :: "jnum option"
  da_clear :: bool
  da_watch :: "string list"

definition no_dev_args :: dev_args where
  "no_dev_args = \<lparr>da_entry = None, da_host = None, da_port = None, da_debounceMs = None, da_clear = True, da_watch = []\<rparr>"

text \<open>An argument by itself.\<close>

definition single_arg :: "string \<Rightarrow> dev_args \<Rightarrow> dev_args" where
  "single_arg arg a =
     (if arg = ''--no-clear'' then a\<lparr>da_clear := False\<rparr>
      else if \<not> startsWith arg ''-'' \<and> (da_entry a = None \<or> da_entry a = Some []) then a\<lparr>da_entry := Some arg\<rparr>
      else a)"

definition valued_arg :: "string \<Rightarrow> string \<Rightarrow> dev_args \<Rightarrow> dev_args option" where
  "valued_arg arg v a =
     (if v = [] then None
      else if arg = ''--host'' then Some (a\<lparr>da_host := Some v\<rparr>)
      else if arg = ''--port'' then Some (a\<lparr>da_port := Some (toNumber v)\<rparr>)
      else if arg = ''--watch'' then Some (a\<lparr>da_watch := da_watch a @ [v]\<rparr>)
      else if arg = ''--debounce'' then Some (a\<lparr>da_debounceMs := Some (toNumber v)\<rparr>)
      else None)"

fun dev_loop :: "string list \<Rightarrow> dev_args \<Rightarrow> dev_args" where
  "dev_loop [] a = a"
| "dev_loop [arg] a = single_arg arg a"
| "dev_loop (arg # v # rest) a =
     (case valued_arg arg v a of
        Some a' \<Rightarrow> dev_loop rest a'
      | None \<Rightarrow> dev_loop (v # rest) (single_arg arg a))"

definition parseDevArgs :: "string list \<Rightarrow> dev_args" where
  "parseDevArgs argv = dev_loop argv no_dev_args"

text \<open>What \<open>createDevServer\<close> is called with; without an entry the usage is printed instead.\<close>

definition cli_options :: "dev_args \<Rightarrow> (string \<times> dev_options) option" where
  "cli_options a =
     (case da_entry a of
        None \<Rightarrow> None
      | Some entry \<Rightarrow>
          if entry = [] then None
          else Some (entry, \<lparr>do_host = da_host a, do_port = da_port a, do_backlog = None,
            do_serverConfig = li_serverConfig no_listen_options,
            do_watch = (if da_watch a = [] then None else Some (da_watch a)), do_files = None,
            do_debounceMs = da_debounceMs a, do_clear = Some (da_clear a)\<rparr>))"

section \<open>\<open>hot.js\<close>\<close>

record hot_args =
  ha_appPath :: "string option"
  ha_port :: "jnum option"
  ha_host :: "string option"

definition hot_single :: "string \<Rightarrow> hot_args \<Rightarrow> hot_args" where
  "hot_single arg a = (if startsWith arg ''-'' then a else a\<lparr>ha_appPath := Some arg\<rparr>)"

fun hot_loop :: "string list \<Rightarrow> hot_args \<Rightarrow> hot_args" where
  "hot_loop [] a = a"
| "hot_loop [arg] a = hot_single arg a"
| "hot_loop (arg # v # rest) a =
     (if arg = ''--port'' \<and> v \<noteq> [] then hot_loop rest (a\<lparr>ha_port := Some (toNumber v)\<rparr>)
      else if arg = ''--host'' \<and> v \<noteq> [] then hot_loop rest (a\<lparr>ha_host := Some v\<rparr>)
      else hot_loop (v # rest) (hot_single arg a))"

record hot_module_options =
  ho_host :: "string option"
  ho_port :: "jnum option"
  ho_backlog :: "jnum option"
  ho_serverConfig :: "server_overrides option"
  ho_httpServerConfig :: "server_overrides option"
  ho_watch :: "string list option"
  ho_debounceMs :: "jnum option"
  ho_clear :: "bool option"

definition hot :: "hot_module_options \<Rightarrow> dev_options" where
  "hot options =
     \<lparr>do_host = ho_host options, do_port = ho_port options, do_backlog = ho_backlog options,
      do_serverConfig = given (over (ho_serverConfig options) (ho_httpServerConfig options)) (li_serverConfig no_listen_options),
      do_watch = ho_watch options, do_files = None, do_debounceMs = ho_debounceMs options, do_clear = ho_clear options\<rparr>"

section \<open>Writing arguments\<close>

datatype dev_flag = Host string | Port nat | Watch string | Debounce nat | NoClear | Entry string

fun flag_args :: "dev_flag \<Rightarrow> string list" where
  "flag_args (Host h) = [''--host'', h]"
| "flag_args (Port n) = [''--port'', nat_digits n]"
| "flag_args (Watch p) = [''--watch'', p]"
| "flag_args (Debounce n) = [''--debounce'', nat_digits n]"
| "flag_args NoClear = [''--no-clear'']"
| "flag_args (Entry e) = [e]"

fun good_flag :: "dev_flag \<Rightarrow> bool" where
  "good_flag (Host h) \<longleftrightarrow> h \<noteq> []"
| "good_flag (Port n) \<longleftrightarrow> n < 65536"
| "good_flag (Watch p) \<longleftrightarrow> p \<noteq> []"
| "good_flag (Debounce n) \<longleftrightarrow> n < 65536"
| "good_flag NoClear \<longleftrightarrow> True"
| "good_flag (Entry e) \<longleftrightarrow> e \<noteq> [] \<and> hd e \<noteq> CHR ''-''"

text \<open>The entry is the first one, of the others the last counts, and the watched paths add up.\<close>

fun host_of :: "dev_flag \<Rightarrow> string option" where "host_of (Host h) = Some h" | "host_of _ = None"
fun port_of :: "dev_flag \<Rightarrow> nat option" where "port_of (Port n) = Some n" | "port_of _ = None"
fun debounce_of :: "dev_flag \<Rightarrow> nat option" where "debounce_of (Debounce n) = Some n" | "debounce_of _ = None"
fun watch_of :: "dev_flag \<Rightarrow> string option" where "watch_of (Watch p) = Some p" | "watch_of _ = None"
fun entry_of :: "dev_flag \<Rightarrow> string option" where "entry_of (Entry e) = Some e" | "entry_of _ = None"

fun first :: "'a list \<Rightarrow> 'a option" where "first [] = None" | "first (x # _) = Some x"

definition number_option :: "nat option \<Rightarrow> jnum option" where "number_option = map_option (\<lambda>n. Fin (of_nat n))"

definition meant_by :: "dev_flag list \<Rightarrow> dev_args" where
  "meant_by fs =
     \<lparr>da_entry = first (List.map_filter entry_of fs), da_host = first (List.map_filter host_of (rev fs)),
      da_port = number_option (first (List.map_filter port_of (rev fs))),
      da_debounceMs = number_option (first (List.map_filter debounce_of (rev fs))),
      da_clear = (NoClear \<notin> set fs), da_watch = List.map_filter watch_of fs\<rparr>"

section \<open>Reading them back\<close>

lemma toNumber_digits:
  assumes "n < 65536"
  shows "toNumber (nat_digits n) = Fin (of_nat n)"
proof -
  obtain c cs where d: "nat_digits n = c # cs" by (cases "nat_digits n") auto
  have all: "\<forall>x\<in>set (nat_digits n). is_digit x" by (rule nat_digits_digits)
  then have c: "is_digit c" "\<forall>x\<in>set cs. is_digit x" using d by auto
  have w: "\<not> is_ws x" if "is_digit x" for x using digit_not_special [OF that] by simp
  have "trim (nat_digits n) = nat_digits n"
  proof -
    have "dropWhile is_ws (nat_digits n) = nat_digits n" using w [OF c(1)] by (simp add: d)
    moreover have "dropWhile is_ws (rev (nat_digits n)) = rev (nat_digits n)"
      using all w by (cases "rev (nat_digits n)") (auto simp: rev_eq_Cons_iff)
    ultimately show ?thesis by (simp add: trim_def)
  qed
  moreover have "toLowerCase (take 2 (nat_digits n)) \<notin> {''0x'', ''0o'', ''0b''}"
  proof (cases cs)
    case (Cons x xs)
    then have "lower_char x \<noteq> CHR ''x'' \<and> lower_char x \<noteq> CHR ''o'' \<and> lower_char x \<noteq> CHR ''b''"
      using c(2) by (auto simp: lower_char_def is_digit_def Let_def)
    then show ?thesis by (simp add: d Cons toLowerCase_def)
  qed (simp add: d toLowerCase_def)
  moreover have "unsigned_number (nat_digits n) = Fin (of_nat n)"
  proof -
    have runs: "takeWhile is_digit (nat_digits n) = nat_digits n" "dropWhile is_digit (nat_digits n) = []"
      using all by auto
    have "nat_digits n \<noteq> ''Infinity''" using c(1) d by (auto simp: is_digit_def)
    moreover have "nat_digits n \<noteq> []" using d by simp
    moreover have "digits_val [] = 0" by (simp add: digits_val_def)
    ultimately have "unsigned_number (nat_digits n) = finite_rat (of_nat n)"
      unfolding unsigned_number_def runs Let_def by (simp add: digits_val_nat_digits)
    moreover have "(of_nat n :: rat) < 2 ^ 1024 - 2 ^ 970"
    proof -
      have "(of_nat n :: rat) < of_nat 65536" using assms by (simp only: of_nat_less_iff)
      also have "\<dots> \<le> 2 ^ 1024 - 2 ^ 970" by simp
      finally show ?thesis .
    qed
    ultimately show ?thesis unfolding finite_rat_def by (metis not_le)
  qed
  ultimately show ?thesis
    using d digit_not_special [OF c(1)] by (simp add: toNumber_def Let_def)
qed

text \<open>How each flag changes what was read so far.\<close>

fun apply_flag :: "dev_flag \<Rightarrow> dev_args \<Rightarrow> dev_args" where
  "apply_flag (Host h) a = a\<lparr>da_host := Some h\<rparr>"
| "apply_flag (Port n) a = a\<lparr>da_port := Some (Fin (of_nat n))\<rparr>"
| "apply_flag (Watch p) a = a\<lparr>da_watch := da_watch a @ [p]\<rparr>"
| "apply_flag (Debounce n) a = a\<lparr>da_debounceMs := Some (Fin (of_nat n))\<rparr>"
| "apply_flag NoClear a = a\<lparr>da_clear := False\<rparr>"
| "apply_flag (Entry e) a = (if da_entry a = None \<or> da_entry a = Some [] then a\<lparr>da_entry := Some e\<rparr> else a)"

lemma valued_arg_unknown: "arg \<notin> {''--host'', ''--port'', ''--watch'', ''--debounce''} \<Longrightarrow> valued_arg arg v a = None"
  by (simp add: valued_arg_def)

lemma dev_loop_single:
  "arg \<notin> {''--host'', ''--port'', ''--watch'', ''--debounce''} \<Longrightarrow> dev_loop (arg # rest) a = dev_loop rest (single_arg arg a)"
  by (cases rest) (simp_all add: valued_arg_unknown)

lemma dev_loop_flag:
  assumes "good_flag f"
  shows "dev_loop (flag_args f @ rest) a = dev_loop rest (apply_flag f a)"
proof (cases f)
  case (Entry e)
  then obtain c cs where "e = c # cs" "c \<noteq> CHR ''-''" using assms by (cases e) auto
  then have "dev_loop (e # rest) a = dev_loop rest (single_arg e a)" by (intro dev_loop_single) auto
  moreover have "single_arg e a = apply_flag f a"
    using Entry \<open>e = c # cs\<close> \<open>c \<noteq> CHR ''-''\<close> by (auto simp: single_arg_def startsWith_def)
  ultimately show ?thesis using Entry by simp
next
  case NoClear
  then show ?thesis by (simp add: dev_loop_single single_arg_def)
qed (use assms in \<open>auto simp: valued_arg_def nat_digits_nonempty toNumber_digits\<close>)

lemma dev_loop_flags:
  "list_all good_flag fs \<Longrightarrow> dev_loop (concat (map flag_args fs)) a = fold apply_flag fs a"
  by (induction fs arbitrary: a) (simp_all add: dev_loop_flag)

text \<open>Each field by itself.\<close>

lemma map_filter_append [simp]: "List.map_filter f (xs @ ys) = List.map_filter f xs @ List.map_filter f ys"
  by (simp add: List.map_filter_def)

lemma map_filter_simp [simp]:
  "List.map_filter f [] = []"
  "List.map_filter f (x # xs) = (case f x of None \<Rightarrow> List.map_filter f xs | Some y \<Rightarrow> y # List.map_filter f xs)"
  by (simp_all add: List.map_filter_def split: option.split)

lemma number_option_simps [simp]: "number_option None = None" "number_option (Some n) = Some (Fin (of_nat n))"
  by (simp_all add: number_option_def)

lemma apply_flags_host: "da_host a = None \<Longrightarrow> da_host (fold apply_flag fs a) = first (List.map_filter host_of (rev fs))"
proof (induction fs rule: rev_induct)
  case (snoc f fs)
  then show ?case by (cases f) simp_all
qed simp

lemma apply_flags_port:
  "da_port a = None \<Longrightarrow> da_port (fold apply_flag fs a) = number_option (first (List.map_filter port_of (rev fs)))"
proof (induction fs rule: rev_induct)
  case (snoc f fs)
  then show ?case by (cases f) simp_all
qed simp

lemma apply_flags_debounce:
  "da_debounceMs a = None \<Longrightarrow> da_debounceMs (fold apply_flag fs a) = number_option (first (List.map_filter debounce_of (rev fs)))"
proof (induction fs rule: rev_induct)
  case (snoc f fs)
  then show ?case by (cases f) simp_all
qed simp

lemma apply_flags_clear: "da_clear (fold apply_flag fs a) \<longleftrightarrow> da_clear a \<and> NoClear \<notin> set fs"
proof (induction fs rule: rev_induct)
  case (snoc f fs)
  then show ?case by (cases f) auto
qed simp

lemma apply_flags_watch: "da_watch (fold apply_flag fs a) = da_watch a @ List.map_filter watch_of fs"
proof (induction fs rule: rev_induct)
  case (snoc f fs)
  then show ?case by (cases f) simp_all
qed simp

text \<open>The first entry sticks, since it is not the empty string.\<close>

lemma entry_sticks: "da_entry a = Some (c # cs) \<Longrightarrow> da_entry (fold apply_flag fs a) = Some (c # cs)"
proof (induction fs arbitrary: a)
  case (Cons f fs)
  then show ?case by (cases f) simp_all
qed simp

lemma apply_flags_entry:
  "list_all good_flag fs \<Longrightarrow> da_entry a = None \<Longrightarrow> da_entry (fold apply_flag fs a) = first (List.map_filter entry_of fs)"
proof (induction fs arbitrary: a)
  case (Cons f fs)
  then show ?case
  proof (cases f)
    case (Entry e)
    then obtain c cs where "e = c # cs" using Cons.prems by (cases e) auto
    then show ?thesis using Entry Cons.prems by (simp add: entry_sticks)
  qed simp_all
qed simp

lemma apply_flags: "fold apply_flag fs no_dev_args = meant_by fs" if "list_all good_flag fs"
  using that
  by (intro dev_args.equality)
    (simp_all add: apply_flags_entry apply_flags_host apply_flags_port apply_flags_debounce apply_flags_clear
      apply_flags_watch no_dev_args_def meant_by_def)

text \<open>arguments written for the development server are read back as they were meant: for any sequence of
  flags and an entry whose values are not empty, whose numbers are port sized and whose entry does not start with
  a dash, \<open>parseDevArgs\<close> returns the first entry, the last of every other value, all the watched paths in
  order, and \<open>clear\<close> unless \<open>--no-clear\<close> was among them.  A value may look like a flag itself.\<close>

theorem dev_args_round_trip:
  assumes "list_all good_flag fs"
  shows "parseDevArgs (concat (map flag_args fs)) = meant_by fs"
  unfolding parseDevArgs_def dev_loop_flags [OF assms] by (rule apply_flags [OF assms])

lemma dev_args_round_trip_witness:
  "parseDevArgs (concat (map flag_args [Watch ''--port'', Entry ''app.js'', Port 3000, NoClear, Port 8080, Watch ''lib''])) =
     \<lparr>da_entry = Some ''app.js'', da_host = None, da_port = Some (Fin 8080), da_debounceMs = None, da_clear = False,
      da_watch = [''--port'', ''lib'']\<rparr>"
  by (subst dev_args_round_trip) (simp_all add: meant_by_def)

text \<open>The reload options an application sets for itself cannot turn clearing off when it runs under
  \<open>http-native dev\<close>: the command line always passes one of its own.\<close>

lemma cli_decides_clear:
  "cli_options a = Some (entry, opts) \<Longrightarrow> rl_clear (resolveReloadOptions opts app) = Some (da_clear a)"
  by (auto simp: cli_options_def resolveReloadOptions_def explicit_reload_def Let_def given_def over_def split: option.splits if_splits)

end
