(* ===== verification/SourceFallback.thy ===== *)
theory SourceFallback
  imports AccessPlan
begin

text \<open>
  The access analysis for sources that acorn does not parse (\<open>analyzeRequestAccessRegex\<close> in
  \<open>src/src/bridge.js\<close>), for instance of a handler written as a method, and \<open>analyzeRequestAccess\<close> that chooses.
  Every regular expression of the file is written as the matcher it stands for; a matcher gets whether a word
  character stands before the position, for \<open>\b\<close>, and the rest of the source.
\<close>

section \<open>Matching\<close>

definition word_follows :: "string \<Rightarrow> bool" where
  "word_follows s \<longleftrightarrow> (case s of c # _ \<Rightarrow> is_word c | [] \<Rightarrow> False)"

definition ident_start :: "char \<Rightarrow> bool" where
  "ident_start c \<longleftrightarrow> (is_word c \<and> \<not> is_digit c) \<or> c = CHR ''$''"

definition ident_char :: "char \<Rightarrow> bool" where
  "ident_char c \<longleftrightarrow> is_word c \<or> c = CHR ''$''"

definition is_quote :: "char \<Rightarrow> bool" where
  "is_quote c \<longleftrightarrow> c = CHR 0x22 \<or> c = CHR 0x27"

text \<open>\<open>[^"'\\]\<close>.\<close>

definition plain_char :: "char \<Rightarrow> bool" where
  "plain_char c \<longleftrightarrow> \<not> is_quote c \<and> c \<noteq> CHR 0x5C"

text \<open>\<open>source.matchAll(expression)\<close> with the captured group of each match: a match is its length and the group,
  the search goes on behind it.\<close>

function scan :: "(bool \<Rightarrow> string \<Rightarrow> (nat \<times> string) option) \<Rightarrow> bool \<Rightarrow> string \<Rightarrow> string list" where
  "scan m w [] = []"
| "scan m w (c # s) =
     (case m w (c # s) of
        None \<Rightarrow> scan m (is_word c) s
      | Some (n, k) \<Rightarrow> k # scan m (is_word ((c # s) ! (n - 1))) (drop (n - 1) s))"
  by pat_completeness auto

termination by (relation "measure (\<lambda>(m, w, s). length s)") auto

text \<open>\<open>expression.test(source)\<close>.\<close>

fun found :: "(bool \<Rightarrow> string \<Rightarrow> bool) \<Rightarrow> bool \<Rightarrow> string \<Rightarrow> bool" where
  "found p w [] = p w []"
| "found p w (c # s) \<longleftrightarrow> p w (c # s) \<or> found p (is_word c) s"

text \<open>\<open>[A-Za-z_$][\w$]*\b\<close>: the longest run that ends at a word boundary, from the run backwards.\<close>

fun longest_bound :: "string \<Rightarrow> string \<Rightarrow> string option" where
  "longest_bound [] rest = None"
| "longest_bound (c # cs) rest =
     (if is_word c \<noteq> word_follows rest then Some (rev (c # cs)) else longest_bound cs (c # rest))"

definition longest_ident :: "string \<Rightarrow> string option" where
  "longest_ident s =
     (case s of
        c # cs \<Rightarrow> if ident_start c then longest_bound (rev (c # takeWhile ident_char cs)) (dropWhile ident_char cs) else None
      | [] \<Rightarrow> None)"

section \<open>The expressions\<close>

definition of_section :: "section_kind \<Rightarrow> string" where
  "of_section s = ''req.'' @ section_name s"

text \<open>\<open>PARAM_DOT_RE\<close>, \<open>QUERY_DOT_RE\<close>, \<open>HEADER_DOT_RE\<close>.\<close>

definition dot_match :: "section_kind \<Rightarrow> bool \<Rightarrow> string \<Rightarrow> (nat \<times> string) option" where
  "dot_match sec w s =
     (let lit = of_section sec @ ''.'' in
      if \<not> w \<and> startsWith s lit
      then (case longest_ident (drop (length lit) s) of Some k \<Rightarrow> Some (length lit + length k, k) | None \<Rightarrow> None)
      else None)"

text \<open>\<open>PARAM_BRACKET_RE\<close>, \<open>QUERY_BRACKET_RE\<close>, \<open>HEADER_BRACKET_RE\<close> and \<open>HEADER_CALL_RE\<close>: a literal between an
  opening and a closing bracket.\<close>

definition literal_match :: "string \<Rightarrow> char \<Rightarrow> bool \<Rightarrow> string \<Rightarrow> (nat \<times> string) option" where
  "literal_match opener closer w s =
     (if \<not> w \<and> startsWith s opener
      then (case drop (length opener) s of
              q # t \<Rightarrow>
                let k = takeWhile plain_char t in
                (case dropWhile plain_char t of
                   q' # c # _ \<Rightarrow>
                     if is_quote q \<and> k \<noteq> [] \<and> q' = q \<and> c = closer then Some (length opener + length k + 3, k) else None
                 | _ \<Rightarrow> None)
            | [] \<Rightarrow> None)
      else None)"

definition bracket_match :: "section_kind \<Rightarrow> bool \<Rightarrow> string \<Rightarrow> (nat \<times> string) option" where
  "bracket_match sec = literal_match (of_section sec @ ''['') (CHR '']'')"

definition header_call_match :: "bool \<Rightarrow> string \<Rightarrow> (nat \<times> string) option" where
  "header_call_match = literal_match ''req.header('' (CHR '')'')"

text \<open>\<open>/\breq\.method\b/\<close> and its like.\<close>

definition member_here :: "string \<Rightarrow> bool \<Rightarrow> string \<Rightarrow> bool" where
  "member_here name w s \<longleftrightarrow> \<not> w \<and> startsWith s (''req.'' @ name) \<and> \<not> word_follows (drop (4 + length name) s)"

text \<open>\<open>PARAMS_FULL_ACCESS_RE\<close>, \<open>QUERY_FULL_ACCESS_RE\<close>, \<open>HEADERS_FULL_ACCESS_RE\<close>.\<close>

definition full_here :: "section_kind \<Rightarrow> bool \<Rightarrow> string \<Rightarrow> bool" where
  "full_here sec w s \<longleftrightarrow> member_here (section_name sec) w s
     \<and> (case dropWhile is_ws (drop (length (of_section sec)) s) of c # _ \<Rightarrow> c \<noteq> CHR ''.'' \<and> c \<noteq> CHR ''['' | [] \<Rightarrow> True)"

text \<open>\<open>PARAMS_DYN_BRACKET_RE\<close> and its like, and \<open>HEADER_CALL_DYN_RE\<close>.\<close>

definition dynamic_here :: "string \<Rightarrow> bool \<Rightarrow> string \<Rightarrow> bool" where
  "dynamic_here opener w s \<longleftrightarrow> \<not> w \<and> startsWith s opener
     \<and> (case drop (length opener) s of c # _ \<Rightarrow> \<not> is_quote c | [] \<Rightarrow> True)"

text \<open>\<open>REQ_BRACKET_STR_RE\<close> and \<open>REQ_BRACKET_DYN_RE\<close>.\<close>

definition request_index_here :: "bool \<Rightarrow> string \<Rightarrow> bool" where
  "request_index_here w s \<longleftrightarrow> \<not> w \<and> startsWith s ''req''
     \<and> (let s' = ''req'' @ dropWhile is_ws (drop 3 s) in
        literal_match ''req['' (CHR '']'') w s' \<noteq> None \<or> dynamic_here ''req['' w s')"

text \<open>\<open>/\{[^}]*\}\s*=\s*req\b/\<close>.\<close>

definition pattern_here :: "bool \<Rightarrow> string \<Rightarrow> bool" where
  "pattern_here w s \<longleftrightarrow> startsWith s ''{''
     \<and> (case dropWhile is_ws (drop 1 (dropWhile (\<lambda>c. c \<noteq> CHR ''}'') s)) of
          c # t \<Rightarrow>
            let t' = dropWhile is_ws t in
            c = CHR ''='' \<and> dropWhile (\<lambda>c. c \<noteq> CHR ''}'') s \<noteq> [] \<and> startsWith t' ''req'' \<and> \<not> word_follows (drop 3 t')
        | [] \<Rightarrow> False)"

section \<open>The analysis\<close>

definition collectMatches :: "(bool \<Rightarrow> string \<Rightarrow> (nat \<times> string) option) \<Rightarrow> section_kind \<Rightarrow> string \<Rightarrow> access_plan \<Rightarrow> access_plan" where
  "collectMatches m sec source plan = foldl (\<lambda>plan k. if k = [] then plan else mark_key sec k plan) plan (scan m False source)"

definition mark_if :: "bool \<Rightarrow> (access_plan \<Rightarrow> access_plan) \<Rightarrow> access_plan \<Rightarrow> access_plan" where
  "mark_if b f plan = (if b then f plan else plan)"

definition whole_here :: "section_kind \<Rightarrow> string \<Rightarrow> bool" where
  "whole_here sec source \<longleftrightarrow>
     found (full_here sec) False source \<or> found (dynamic_here (of_section sec @ ''['')) False source"

definition members_plan :: "string \<Rightarrow> access_plan" where
  "members_plan source = createEmptyAccessPlan\<lparr>pl_method := found (member_here ''method'') False source,
     pl_path := found (member_here ''path'') False source, pl_url := found (member_here ''url'') False source\<rparr>"

definition key_collectors :: "((bool \<Rightarrow> string \<Rightarrow> (nat \<times> string) option) \<times> section_kind) list" where
  "key_collectors =
     [(dot_match ParamsSec, ParamsSec), (bracket_match ParamsSec, ParamsSec), (dot_match QuerySec, QuerySec),
      (bracket_match QuerySec, QuerySec), (dot_match HeadersSec, HeadersSec), (bracket_match HeadersSec, HeadersSec),
      (header_call_match, HeadersSec)]"

definition whole_marks :: "string \<Rightarrow> access_plan \<Rightarrow> access_plan" where
  "whole_marks source plan =
     mark_if (found (dynamic_here ''req.header('') False source) (mark_full HeadersSec)
      (mark_if (found request_index_here False source) mark_everything
       (mark_if (whole_here HeadersSec source) (mark_full HeadersSec)
        (mark_if (whole_here QuerySec source) (mark_full QuerySec)
         (mark_if (whole_here ParamsSec source) (mark_full ParamsSec) plan))))"

definition analyzeRequestAccessRegex :: "string \<Rightarrow> access_plan" where
  "analyzeRequestAccessRegex source =
     (let p0 = mark_if (found pattern_here False source) mark_everything (members_plan source);
          p1 = foldl (\<lambda>plan e. collectMatches (fst e) (snd e) source plan) p0 key_collectors in
      (whole_marks source p1)\<lparr>pl_jsonFastPath := detectJsonFastPath source\<rparr>)"

definition analyzeRequestAccess :: "(string \<Rightarrow> ast option) \<Rightarrow> string \<Rightarrow> access_plan" where
  "analyzeRequestAccess acornParse source =
     (case analyzeRequestAccessAST acornParse source of
        Some plan \<Rightarrow> plan\<lparr>pl_jsonFastPath := detectJsonFastPath source\<rparr>
      | None \<Rightarrow> analyzeRequestAccessRegex source)"

section \<open>Matchers\<close>

definition word_before :: "string \<Rightarrow> bool" where
  "word_before pre \<longleftrightarrow> pre \<noteq> [] \<and> is_word (last pre)"

lemma word_before_snoc: "word_before (a @ [c]) = is_word c"
  by (simp add: word_before_def)

text \<open>A match is a proper part of the source, and whatever stands before the position may not reach into it.\<close>

locale matcher =
  fixes m :: "bool \<Rightarrow> string \<Rightarrow> (nat \<times> string) option"
  assumes match_within: "m w s = Some (n, k) \<Longrightarrow> 0 < n \<and> n \<le> length s"
begin

text \<open>A match at a position that no earlier match reaches is found.\<close>

lemma scan_finds:
  assumes "m (word_before pre) post = Some (n, k)"
    "\<And>a b n' k'. pre = a @ b \<Longrightarrow> b \<noteq> [] \<Longrightarrow> m (word_before a) (b @ post) = Some (n', k') \<Longrightarrow> n' \<le> length b"
  shows "k \<in> set (scan m False (pre @ post))"
proof -
  have "k \<in> set (scan m (word_before a) (b @ post))" if "pre = a @ b" for a b
    using that
  proof (induction b arbitrary: a rule: length_induct)
    case (1 b)
    show ?case
    proof (cases b)
      case Nil
      then have "m (word_before a) post = Some (n, k)" using 1 assms(1) by simp
      moreover from this have "post \<noteq> []" using match_within by fastforce
      ultimately show ?thesis using Nil by (cases post) simp_all
    next
      case (Cons c s)
      show ?thesis
      proof (cases "m (word_before a) (b @ post)")
        case None
        have "k \<in> set (scan m (word_before (a @ [c])) (s @ post))" using 1 Cons by simp
        then show ?thesis using None Cons by (simp add: word_before_snoc)
      next
        case (Some r)
        obtain n' k' where r: "r = (n', k')" by fastforce
        have le: "n' \<le> length b" using assms(2) [of a b n' k'] 1 Cons Some r by simp
        have pos: "0 < n'" using match_within Some r by blast
        have "n' - 1 < length b" using le pos by linarith
        then have "take n' b = take (n' - 1) b @ [b ! (n' - 1)]" using pos take_Suc_conv_app_nth [of "n' - 1" b] by simp
        then have "a @ take n' b = (a @ take (n' - 1) b) @ [b ! (n' - 1)]" by simp
        then have w: "word_before (a @ take n' b) = is_word ((b @ post) ! (n' - 1))"
          using \<open>n' - 1 < length b\<close> by (metis word_before_snoc nth_append)
        have "k \<in> set (scan m (word_before (a @ take n' b)) (drop n' b @ post))" using 1 Cons le pos by simp
        moreover have "drop (n' - 1) (s @ post) = drop n' b @ post" using Cons le pos by (cases n') simp_all
        ultimately show ?thesis using Cons Some r w by simp
      qed
    qed
  qed
  from this [of "[]" pre] show ?thesis by (simp add: word_before_def)
qed

end

lemma found_at:
  assumes "p (word_before pre) post"
  shows "found p False (pre @ post)"
proof -
  have "found p (word_before a) (b @ post)" if "pre = a @ b" for a b
    using that
  proof (induction b arbitrary: a)
    case Nil
    then show ?case using assms by (cases post) simp_all
  next
    case (Cons c b)
    then have "found p (word_before (a @ [c])) (b @ post)" by simp
    then show ?case by (simp add: word_before_snoc)
  qed
  from this [of "[]" pre] show ?thesis by (simp add: word_before_def)
qed

lemma startsWith_length: "startsWith s p \<Longrightarrow> length p \<le> length s"
  by (metis length_take min.cobounded1 startsWith_def)

lemma longest_bound_length: "longest_bound r rest = Some k \<Longrightarrow> k \<noteq> [] \<and> length k \<le> length r"
  by (induction r rest rule: longest_bound.induct) (auto split: if_splits)

lemma longest_ident_length: "longest_ident s = Some k \<Longrightarrow> k \<noteq> [] \<and> length k \<le> length s"
proof -
  assume a: "longest_ident s = Some k"
  then obtain c cs where s: "s = c # cs" by (cases s) (simp_all add: longest_ident_def)
  have "length (takeWhile ident_char cs) \<le> length cs" by (rule length_takeWhile_le)
  then show ?thesis using a longest_bound_length by (fastforce simp: s longest_ident_def split: if_splits)
qed

interpretation dots: matcher "dot_match sec" for sec
proof
  fix w s n k
  assume "dot_match sec w s = Some (n, k)"
  then have "startsWith s (of_section sec @ ''.'')" "longest_ident (drop (length (of_section sec) + 1) s) = Some k"
    "n = length (of_section sec) + 1 + length k"
    by (auto simp: dot_match_def Let_def split: if_splits option.splits)
  then show "0 < n \<and> n \<le> length s"
    using longest_ident_length [of "drop (length (of_section sec) + 1) s" k] startsWith_length by fastforce
qed

lemma literal_match_eq:
  "literal_match opener closer w s = Some (n, k) \<longleftrightarrow>
     (\<exists>q rest. \<not> w \<and> s = opener @ [q] @ k @ [q, closer] @ rest \<and> is_quote q \<and> k \<noteq> [] \<and> list_all plain_char k
        \<and> n = length opener + length k + 3)" (is "?l \<longleftrightarrow> ?r")
proof
  assume l: ?l
  then obtain q t q' r where t: "\<not> w" "startsWith s opener" "drop (length opener) s = q # t" "dropWhile plain_char t = q' # closer # r"
    "is_quote q" "k = takeWhile plain_char t" "k \<noteq> []" "q' = q" "n = length opener + length k + 3"
    by (auto simp: literal_match_def Let_def split: if_splits list.splits)
  then have "s = opener @ [q] @ k @ [q, closer] @ r"
    by (metis append_Cons append_Nil append_take_drop_id startsWith_def takeWhile_dropWhile_id)
  moreover have "list_all plain_char k" using t by (auto simp: list_all_iff dest: set_takeWhileD)
  ultimately show ?r using t by blast
next
  assume ?r
  then obtain q rest where r: "\<not> w" "s = opener @ [q] @ k @ [q, closer] @ rest" "is_quote q" "k \<noteq> []" "list_all plain_char k"
    "n = length opener + length k + 3" by blast
  moreover have "\<not> plain_char q" using r by (simp add: plain_char_def)
  then have "takeWhile plain_char (k @ q # closer # rest) = k" "dropWhile plain_char (k @ q # closer # rest) = q # closer # rest"
    using r(5) by (auto simp: list_all_iff)
  ultimately show ?l by (simp add: literal_match_def)
qed

interpretation literals: matcher "literal_match opener closer" for opener closer
  by unfold_locales (auto simp: literal_match_eq)

section \<open>How a read is spelled\<close>

text \<open>What can be read of the request by its usual name, as source text.  The brackets of \<open>Computed\<close> and the
  parenthesis of \<open>HeaderCall\<close> close somewhere behind.\<close>

datatype spelling = Member string | Dotted section_kind string | Bracketed section_kind char string
  | Computed section_kind | Entire section_kind | HeaderLiteral char string | HeaderCall
  | Indexed nat | IndexedLiteral nat char string | Destructured string nat nat

fun spelling_text :: "spelling \<Rightarrow> string" where
  "spelling_text (Member name) = ''req.'' @ name"
| "spelling_text (Dotted sec k) = of_section sec @ ''.'' @ k"
| "spelling_text (Bracketed sec q k) = of_section sec @ ''['' @ [q] @ k @ [q, CHR '']'']"
| "spelling_text (Computed sec) = of_section sec @ ''[''"
| "spelling_text (Entire sec) = of_section sec"
| "spelling_text (HeaderLiteral q k) = ''req.header('' @ [q] @ k @ [q, CHR '')'']"
| "spelling_text HeaderCall = ''req.header(''"
| "spelling_text (Indexed spaces) = ''req'' @ replicate spaces (CHR '' '') @ ''[''"
| "spelling_text (IndexedLiteral spaces q k) = ''req'' @ replicate spaces (CHR '' '') @ ''['' @ [q] @ k @ [q, CHR '']'']"
| "spelling_text (Destructured inner x y) = ''{'' @ inner @ ''}'' @ replicate x (CHR '' '') @ ''='' @ replicate y (CHR '' '') @ ''req''"

text \<open>An occurrence of the request by itself, not the end of a longer name or a property of something.\<close>

definition own_word :: "string \<Rightarrow> bool" where
  "own_word pre \<longleftrightarrow> pre = [] \<or> \<not> ident_char (last pre) \<and> last pre \<noteq> CHR ''.''"

text \<open>The text before ends inside the literal key of another read.\<close>

definition inside_key :: "string \<Rightarrow> string \<Rightarrow> bool" where
  "inside_key opener pre \<longleftrightarrow>
     (case dropWhile plain_char (rev pre) of q # r \<Rightarrow> is_quote q \<and> startsWith r (rev opener) | [] \<Rightarrow> False)"

definition no_quote_follows :: "string \<Rightarrow> bool" where
  "no_quote_follows s \<longleftrightarrow> (case s of c # _ \<Rightarrow> \<not> is_quote c | [] \<Rightarrow> True)"

definition literal_key :: "char \<Rightarrow> string \<Rightarrow> bool" where
  "literal_key q k \<longleftrightarrow> is_quote q \<and> k \<noteq> [] \<and> list_all plain_char k"

text \<open>The contexts in which the spelling is what it looks like: a name that ends where it ends, a key without
  quotes and backslashes, an object that is not followed by the access of a member.\<close>

fun spelled_in :: "spelling \<Rightarrow> string \<Rightarrow> string \<Rightarrow> bool" where
  "spelled_in (Member name) pre post \<longleftrightarrow> name \<in> {''method'', ''path'', ''url''} \<and> own_word pre \<and> \<not> word_follows post"
| "spelled_in (Dotted sec k) pre post \<longleftrightarrow> own_word pre \<and> k \<noteq> [] \<and> ident_start (hd k) \<and> list_all ident_char k
     \<and> is_word (last k) \<and> (case post of c # _ \<Rightarrow> \<not> ident_char c | [] \<Rightarrow> True)"
| "spelled_in (Bracketed sec q k) pre post \<longleftrightarrow> own_word pre \<and> literal_key q k \<and> \<not> inside_key (of_section sec @ ''['') pre"
| "spelled_in (Computed sec) pre post \<longleftrightarrow> own_word pre \<and> no_quote_follows post"
| "spelled_in (Entire sec) pre post \<longleftrightarrow> own_word pre \<and> \<not> word_follows post
     \<and> (case dropWhile is_ws post of c # _ \<Rightarrow> c \<noteq> CHR ''.'' \<and> c \<noteq> CHR ''['' | [] \<Rightarrow> True)"
| "spelled_in (HeaderLiteral q k) pre post \<longleftrightarrow> own_word pre \<and> literal_key q k \<and> \<not> inside_key ''req.header('' pre"
| "spelled_in HeaderCall pre post \<longleftrightarrow> own_word pre \<and> no_quote_follows post"
| "spelled_in (Indexed spaces) pre post \<longleftrightarrow> own_word pre \<and> no_quote_follows post"
| "spelled_in (IndexedLiteral spaces q k) pre post \<longleftrightarrow> own_word pre \<and> literal_key q k"
| "spelled_in (Destructured inner x y) pre post \<longleftrightarrow> list_all (\<lambda>c. c \<noteq> CHR ''}'') inner \<and> \<not> word_follows post"

fun spelling_reads :: "spelling \<Rightarrow> demand \<Rightarrow> bool" where
  "spelling_reads (Member name) d \<longleftrightarrow>
     (name = ''method'' \<and> d = DMethod) \<or> (name = ''path'' \<and> d = DPath) \<or> (name = ''url'' \<and> d = DUrl)"
| "spelling_reads (Dotted sec k) d \<longleftrightarrow> d = DKey sec k"
| "spelling_reads (Bracketed sec q k) d \<longleftrightarrow> d = DKey sec k"
| "spelling_reads (Computed sec) d \<longleftrightarrow> d = DWhole sec \<or> (\<exists>k. d = DKey sec k)"
| "spelling_reads (Entire sec) d \<longleftrightarrow> d = DWhole sec \<or> (\<exists>k. d = DKey sec k)"
| "spelling_reads (HeaderLiteral q k) d \<longleftrightarrow> d = DKey HeadersSec k"
| "spelling_reads HeaderCall d \<longleftrightarrow> (\<exists>k. d = DKey HeadersSec k)"
| "spelling_reads (Indexed spaces) d \<longleftrightarrow> True"
| "spelling_reads (IndexedLiteral spaces q k) d \<longleftrightarrow> True"
| "spelling_reads (Destructured inner x y) d \<longleftrightarrow> True"

section \<open>Matches do not overlap a read\<close>

lemma own_word_before: "own_word pre \<Longrightarrow> \<not> word_before pre"
  by (auto simp: own_word_def word_before_def ident_char_def)

lemma longest_bound_split: "longest_bound r rest = Some k \<Longrightarrow> \<exists>z. rev r @ rest = k @ z \<and> set k \<subseteq> set r"
  by (induction r rest rule: longest_bound.induct) (fastforce split: if_splits)+

lemma longest_ident_split:
  assumes "longest_ident s = Some k"
  shows "\<exists>z. s = k @ z \<and> list_all ident_char k"
proof -
  obtain c cs where s: "s = c # cs" "ident_start c"
      "longest_bound (rev (c # takeWhile ident_char cs)) (dropWhile ident_char cs) = Some k"
    using assms by (auto simp: longest_ident_def split: list.splits if_splits)
  then obtain z where "c # takeWhile ident_char cs @ dropWhile ident_char cs = k @ z" "set k \<subseteq> set (c # takeWhile ident_char cs)"
    using longest_bound_split by fastforce
  moreover have "ident_char c" using s(2) by (auto simp: ident_start_def ident_char_def)
  ultimately show ?thesis using s(1) by (auto simp: list_all_iff dest: set_takeWhileD)
qed

lemma longest_ident_at:
  assumes "k \<noteq> []" "ident_start (hd k)" "list_all ident_char k" "is_word (last k)"
    "case post of c # _ \<Rightarrow> \<not> ident_char c | [] \<Rightarrow> True"
  shows "longest_ident (k @ post) = Some k"
proof -
  obtain c cs where k: "k = c # cs" using assms(1) by (cases k) auto
  have run: "takeWhile ident_char (cs @ post) = cs" "dropWhile ident_char (cs @ post) = post"
    using assms(3,5) by (cases post; auto simp: k list_all_iff)+
  obtain l ls where r: "rev k = l # ls" using assms(1) by (cases "rev k") auto
  then have "last k = l" by (metis hd_rev list.sel(1))
  moreover have "\<not> word_follows post" using assms(5) by (auto simp: word_follows_def ident_char_def split: list.splits)
  moreover have "rev (l # ls) = k" using r by (metis rev_rev_ident)
  ultimately have "longest_bound (rev k) post = Some k" unfolding r using assms(4) by simp
  then show ?thesis using assms(2) by (simp add: longest_ident_def k run)
qed

lemma section_chars: "list_all (\<lambda>c. ident_char c \<or> c = CHR ''.'') (of_section sec)"
  by (cases sec) (simp_all add: of_section_def section_name_def ident_char_def is_word_def is_digit_def)

lemma dot_match_split:
  assumes "dot_match sec w s = Some (n, k)"
  shows "\<exists>z. s = (of_section sec @ ''.'' @ k) @ z \<and> list_all ident_char k \<and> n = length (of_section sec @ ''.'' @ k)"
proof -
  have a: "startsWith s (of_section sec @ ''.'')" "longest_ident (drop (length (of_section sec) + 1) s) = Some k"
      "n = length (of_section sec) + 1 + length k"
    using assms by (auto simp: dot_match_def Let_def split: if_splits option.splits)
  then obtain z where "drop (length (of_section sec) + 1) s = k @ z" "list_all ident_char k"
    using longest_ident_split by blast
  then show ?thesis using a(1,3) append_take_drop_id [of "length (of_section sec) + 1" s]
    by (auto simp: startsWith_def)
qed

text \<open>A text whose proper prefix ends before a word of its own must have another character there.\<close>

lemma no_reach:
  assumes "own_word (a @ b)" "b \<noteq> []" "b @ post = t @ z" "list_all (\<lambda>c. ident_char c \<or> c = CHR ''.'') t"
  shows "length t \<le> length b"
proof (rule ccontr)
  assume "\<not> length t \<le> length b"
  then have "\<exists>y. t = b @ y" using assms(3) by (auto simp: append_eq_append_conv2)
  then have "ident_char (last b) \<or> last b = CHR ''.''" using assms(2,4) by (auto simp: list_all_iff)
  then show False using assms(1,2) by (auto simp: own_word_def)
qed

lemma dots_apart:
  assumes "own_word pre" "pre = a @ b" "b \<noteq> []" "dot_match sec w (b @ post) = Some (n', k')"
  shows "n' \<le> length b"
proof -
  obtain z where "b @ post = (of_section sec @ ''.'' @ k') @ z" "list_all ident_char k'"
      "n' = length (of_section sec @ ''.'' @ k')"
    using dot_match_split [OF assms(4)] by blast
  moreover from this have "list_all (\<lambda>c. ident_char c \<or> c = CHR ''.'') (of_section sec @ ''.'' @ k')"
    using section_chars [of sec] by (auto simp: list_all_iff)
  ultimately show ?thesis using no_reach [of a b post] assms(1-3) by metis
qed

lemma inside_keyI: "is_quote q \<Longrightarrow> list_all plain_char b \<Longrightarrow> inside_key opener (a @ opener @ [q] @ b)"
proof -
  assume q: "is_quote q" and b: "list_all plain_char b"
  have "dropWhile plain_char (rev b @ q # rev opener @ rev a) = q # rev opener @ rev a"
    using q b by (subst dropWhile_append2) (auto simp: list_all_iff plain_char_def)
  then show ?thesis using q by (simp add: inside_key_def)
qed

text \<open>An opener is an expression on the request and one bracket, which no read can follow.\<close>

definition good_opener :: "string \<Rightarrow> bool" where
  "good_opener opener \<longleftrightarrow> opener \<noteq> [] \<and> hd opener = CHR ''r'' \<and> list_all (\<lambda>c. ident_char c \<or> c = CHR ''.'') (butlast opener)"

lemma literals_apart:
  assumes "own_word pre" "\<not> inside_key opener pre" "pre = a @ b" "b \<noteq> []" "post \<noteq> []" "hd post = CHR ''r''"
    "good_opener opener" "closer \<noteq> CHR ''r''" "literal_match opener closer w (b @ post) = Some (n', k')"
  shows "n' \<le> length b"
proof (rule ccontr)
  assume long: "\<not> n' \<le> length b"
  obtain q rest where m: "b @ post = opener @ [q] @ k' @ [q, closer] @ rest" "is_quote q" "list_all plain_char k'"
      "n' = length opener + length k' + 3"
    using assms(9) by (auto simp: literal_match_eq)
  have r: "\<not> is_quote (CHR ''r'')" by (simp add: is_quote_def)
  obtain body br where o1: "opener = body @ [br]" "list_all (\<lambda>c. ident_char c \<or> c = CHR ''.'') body"
    using assms(7) by (metis append_butlast_last_id good_opener_def)
  have "length body \<le> length b"
    using no_reach [of a b post body "br # q # k' @ [q, closer] @ rest"] assms(1,3,4) m(1) o1 by simp
  then obtain b1 where b1: "b = body @ b1" "b1 @ post = br # q # k' @ q # closer # rest"
    using m(1) o1(1) by (auto simp: append_eq_append_conv2)
  show False
  proof (cases b1)
    case Nil
    then show False using o1 b1(1) assms(1,3,4) by (auto simp: own_word_def list_all_iff)
  next
    case (Cons c b2)
    then have b2: "c = br" "b2 @ post = q # k' @ q # closer # rest" using b1(2) by auto
    show False
    proof (cases b2)
      case Nil
      then show False using b2(2) assms(5,6) m(2) r by (cases post) auto
    next
      case (Cons d b3)
      then have b3: "d = q" "b3 @ post = k' @ q # closer # rest" using b2(2) by auto
      have "length k' < length b3"
      proof (rule ccontr)
        assume "\<not> length k' < length b3"
        then have "\<exists>y. k' = b3 @ y" using b3(2) by (auto simp: append_eq_append_conv2)
        then have "list_all plain_char b3" using m(3) by auto
        then have "inside_key opener (a @ opener @ [q] @ b3)" using m(2) by (intro inside_keyI)
        then show False using assms(2,3) b1(1) b2(1) b3(1) o1(1) Cons \<open>b1 = c # b2\<close> by simp
      qed
      then obtain b4 where "b3 = k' @ b4" "b4 \<noteq> []" "b4 @ post = q # closer # rest"
        using b3(2) by (auto simp: append_eq_append_conv2)
      moreover have "length b4 \<le> 1"
        using long m(4) b1(1) b2(1) o1(1) Cons \<open>b1 = c # b2\<close> calculation(1) by simp
      ultimately have "post = closer # rest" by (cases b4) auto
      then show False using assms(6,8) by simp
    qed
  qed
qed

section \<open>Every spelling is recognised\<close>

lemma dotted_found:
  assumes "spelled_in (Dotted sec k) pre post"
  shows "k \<in> set (scan (dot_match sec) False (pre @ spelling_text (Dotted sec k) @ post))"
proof (rule dots.scan_finds)
  have "longest_ident (k @ post) = Some k" using assms by (intro longest_ident_at) auto
  then show "dot_match sec (word_before pre) (spelling_text (Dotted sec k) @ post) = Some (length (of_section sec @ ''.'') + length k, k)"
    using assms own_word_before startsWith_append [of "of_section sec @ ''.''" "k @ post"] by (simp add: dot_match_def)
qed (use assms dots_apart in auto)

lemma literal_found:
  assumes "own_word pre" "literal_key q k" "\<not> inside_key opener pre" "good_opener opener" "closer \<noteq> CHR ''r''"
  shows "k \<in> set (scan (literal_match opener closer) False (pre @ opener @ [q] @ k @ [q, closer] @ post))"
proof (rule literals.scan_finds)
  show "literal_match opener closer (word_before pre) (opener @ [q] @ k @ [q, closer] @ post) = Some (length opener + length k + 3, k)"
    using assms own_word_before by (auto simp: literal_match_eq literal_key_def)
  have "opener @ [q] @ k @ [q, closer] @ post \<noteq> []" "hd (opener @ [q] @ k @ [q, closer] @ post) = CHR ''r''"
    using assms(4) by (simp_all add: good_opener_def)
  then show "n' \<le> length b" if "pre = a @ b" "b \<noteq> []"
      "literal_match opener closer (word_before a) (b @ opener @ [q] @ k @ [q, closer] @ post) = Some (n', k')" for a b n' k'
    using literals_apart assms that by blast
qed

lemma good_openers: "good_opener (of_section sec @ ''['')" "good_opener ''req.header(''"
  using section_chars [of sec]
  by (simp_all add: good_opener_def butlast_append of_section_def ident_char_def is_word_def is_digit_def)

lemma member_at: "own_word pre \<Longrightarrow> \<not> word_follows post \<Longrightarrow> member_here name (word_before pre) (''req.'' @ name @ post)"
  using own_word_before startsWith_append [of "''req.'' @ name" post] by (simp add: member_here_def eval_nat_numeral)

lemma dynamic_at: "own_word pre \<Longrightarrow> no_quote_follows post \<Longrightarrow> dynamic_here opener (word_before pre) (opener @ post)"
  using own_word_before by (simp add: dynamic_here_def no_quote_follows_def)

lemma full_at:
  assumes "spelled_in (Entire sec) pre post"
  shows "full_here sec (word_before pre) (of_section sec @ post)"
  using assms member_at [of pre post "section_name sec"] by (simp add: full_here_def of_section_def)

lemma request_index_at:
  assumes "own_word pre" "(\<exists>q k rest. literal_key q k \<and> post = [q] @ k @ [q, CHR '']''] @ rest) \<or> no_quote_follows post"
  shows "request_index_here (word_before pre) (''req'' @ replicate spaces (CHR '' '') @ ''['' @ post)"
proof -
  have w: "\<not> word_before pre" using assms(1) own_word_before by blast
  have "dropWhile is_ws (replicate spaces (CHR '' '') @ ''['' @ post) = ''['' @ post"
    by (induction spaces) (simp_all add: is_ws_def)
  moreover have "literal_match ''req['' (CHR '']'') False (''req['' @ post) \<noteq> None \<or> dynamic_here ''req['' False (''req['' @ post)"
    using assms(2)
  proof
    assume "\<exists>q k rest. literal_key q k \<and> post = [q] @ k @ [q, CHR '']''] @ rest"
    then obtain q k rest where "literal_key q k" "post = [q] @ k @ [q, CHR '']''] @ rest" by blast
    then have "literal_match ''req['' (CHR '']'') False (''req['' @ post) = Some (length ''req['' + length k + 3, k)"
      unfolding literal_match_eq by (auto simp: literal_key_def)
    then show ?thesis by simp
  next
    assume "no_quote_follows post"
    then have "dynamic_here ''req['' False (''req['' @ post)"
      using startsWith_append [of "''req[''" post] by (simp add: dynamic_here_def no_quote_follows_def)
    then show ?thesis by simp
  qed
  ultimately show ?thesis using w startsWith_append [of "''req''"] by (simp add: request_index_here_def Let_def)
qed

lemma pattern_at:
  assumes "spelled_in (Destructured inner x y) pre post"
  shows "pattern_here w (spelling_text (Destructured inner x y) @ post)"
proof -
  have sp: "dropWhile is_ws (replicate n (CHR '' '') @ c # s) = (if is_ws c then dropWhile is_ws s else c # s)" for n c s
    by (induction n) (simp_all add: is_ws_def)
  have "dropWhile (\<lambda>c. c \<noteq> CHR ''}'') (inner @ CHR ''}'' # t) = CHR ''}'' # t" for t
    using assms by (subst dropWhile_append2) (auto simp: list_all_iff)
  then show ?thesis
    using assms startsWith_append [of "''req''" post] startsWith_append [of "''{''"]
    by (simp add: pattern_here_def sp is_ws_def Let_def)
qed

section \<open>What the plan covers\<close>

lemma mark_key_step_le: "plan_le p (if k = [] then p else mark_key sec k p)"
  by simp

interpretation key_loop: accumulator plan_le "\<lambda>k plan. if k = [] then plan else mark_key sec k plan" for sec
  by unfold_locales (auto intro: plan_le_trans)

interpretation collector_loop: accumulator plan_le "\<lambda>e plan. collectMatches (fst e) (snd e) source plan" for source
proof
  show "plan_le p (collectMatches (fst e) (snd e) source p)" for p e
    unfolding collectMatches_def by (rule key_loop.start_le)
qed (auto intro: plan_le_trans)

lemma collect_covers:
  assumes "k \<in> set (scan m False source)" "k \<noteq> []"
  shows "covers (collectMatches m sec source plan) (DKey sec k)"
proof -
  obtain t where "plan_le (mark_key sec k t) (collectMatches m sec source plan)"
    using key_loop.each_le [OF assms(1), of sec plan] assms(2) by (auto simp: collectMatches_def)
  then show ?thesis using covers_mono covers_mark_key by blast
qed

lemma mark_if_le: "(\<And>p. plan_le p (f p)) \<Longrightarrow> plan_le p (mark_if b f p)"
  by (simp add: mark_if_def)

lemma covers_mark_if: "b \<Longrightarrow> covers (f p) d \<Longrightarrow> covers (mark_if b f p) d"
  by (simp add: mark_if_def)

lemma covers_above_mark: "(\<And>p. plan_le p (f p)) \<Longrightarrow> covers p d \<Longrightarrow> covers (mark_if b f p) d"
  using covers_mono mark_if_le by blast

lemma covers_json [simp]: "covers (p\<lparr>pl_jsonFastPath := j\<rparr>) d = covers p d"
  by (cases d) (auto simp: covers_def split: section_kind.splits)

lemma whole_marks_covers: "covers p d \<Longrightarrow> covers (whole_marks source p) d"
  unfolding whole_marks_def by (intro covers_above_mark) simp_all

lemma whole_marks_whole:
  assumes "whole_here sec source"
  shows "covers (whole_marks source p) (DWhole sec)" "covers (whole_marks source p) (DKey sec k)"
proof -
  have "covers (whole_marks source p) d" if "\<And>p. covers (mark_full sec p) d" for d
  proof (cases sec)
    case HeadersSec
    then have "covers (mark_if (whole_here HeadersSec source) (mark_full HeadersSec) q) d" for q
      using assms that by (simp add: mark_if_def)
    then show ?thesis unfolding whole_marks_def by (simp add: covers_above_mark)
  next
    case QuerySec
    then have "covers (mark_if (whole_here QuerySec source) (mark_full QuerySec) q) d" for q
      using assms that by (simp add: mark_if_def)
    then show ?thesis unfolding whole_marks_def by (simp add: covers_above_mark)
  next
    case ParamsSec
    then have "covers (mark_if (whole_here ParamsSec source) (mark_full ParamsSec) q) d" for q
      using assms that by (simp add: mark_if_def)
    then show ?thesis unfolding whole_marks_def by (simp add: covers_above_mark)
  qed
  then show "covers (whole_marks source p) (DWhole sec)" "covers (whole_marks source p) (DKey sec k)" by simp_all
qed

lemma whole_marks_index: "found request_index_here False source \<Longrightarrow> covers (whole_marks source p) d"
  unfolding whole_marks_def
  by (rule covers_above_mark, simp, rule covers_mark_if, assumption, rule covers_mark_everything)

lemma whole_marks_call: "found (dynamic_here ''req.header('') False source \<Longrightarrow> covers (whole_marks source p) (DKey HeadersSec k)"
  unfolding whole_marks_def by (rule covers_mark_if) simp_all

lemma regex_covers:
  "found pattern_here False source \<Longrightarrow> covers (analyzeRequestAccessRegex source) d"
  "covers (members_plan source) d \<Longrightarrow> covers (analyzeRequestAccessRegex source) d"
  "(m, sec) \<in> set key_collectors \<Longrightarrow> k \<in> set (scan m False source) \<Longrightarrow> k \<noteq> []
    \<Longrightarrow> covers (analyzeRequestAccessRegex source) (DKey sec k)"
proof -
  let ?p0 = "mark_if (found pattern_here False source) mark_everything (members_plan source)"
  let ?p1 = "foldl (\<lambda>plan e. collectMatches (fst e) (snd e) source plan) ?p0 key_collectors"
  have top: "covers ?p1 d \<Longrightarrow> covers (analyzeRequestAccessRegex source) d" for d
    using whole_marks_covers by (simp add: analyzeRequestAccessRegex_def Let_def)
  have up: "covers ?p0 d \<Longrightarrow> covers (analyzeRequestAccessRegex source) d" for d
    using top covers_mono collector_loop.start_le by blast
  show "covers (analyzeRequestAccessRegex source) d" if "found pattern_here False source" for d
    by (rule up, rule covers_mark_if, rule that, rule covers_mark_everything)
  show "covers (analyzeRequestAccessRegex source) d" if "covers (members_plan source) d" for d
    by (rule up, rule covers_above_mark) (simp_all add: that)
  show "covers (analyzeRequestAccessRegex source) (DKey sec k)"
    if c: "(m, sec) \<in> set key_collectors" "k \<in> set (scan m False source)" "k \<noteq> []" for m sec k
  proof -
    obtain t where "plan_le (collectMatches m sec source t) ?p1"
      using collector_loop.each_le [OF c(1), of source ?p0] by auto
    then show ?thesis using top covers_mono collect_covers c(2,3) by blast
  qed
qed

lemma regex_covers_whole: "covers (whole_marks source (foldl (\<lambda>plan e. collectMatches (fst e) (snd e) source plan)
      (mark_if (found pattern_here False source) mark_everything (members_plan source)) key_collectors)) d
    \<Longrightarrow> covers (analyzeRequestAccessRegex source) d"
  by (simp add: analyzeRequestAccessRegex_def Let_def)

lemma collectors [simp]:
  "(dot_match sec, sec) \<in> set key_collectors" "(bracket_match sec, sec) \<in> set key_collectors"
  "(header_call_match, HeadersSec) \<in> set key_collectors"
  by (cases sec; simp add: key_collectors_def)+

lemma spelled_covered:
  assumes "spelled_in sp pre post" "spelling_reads sp d"
  shows "covers (analyzeRequestAccessRegex (pre @ spelling_text sp @ post)) d"
  using assms
proof (cases sp)
  case (Member name)
  have "found (member_here name) False (pre @ spelling_text sp @ post)"
    using assms member_at [of pre post name] Member by (intro found_at) simp
  then show ?thesis using assms Member by (intro regex_covers(2)) (auto simp: members_plan_def covers_def)
next
  case (Dotted sec k)
  then show ?thesis using assms dotted_found [of sec k pre post] regex_covers(3) [OF collectors(1)] by simp
next
  case (Bracketed sec q k)
  then have "k \<in> set (scan (bracket_match sec) False (pre @ spelling_text sp @ post))"
    using assms literal_found [of pre q k "of_section sec @ ''[''" "CHR '']''" post] good_openers by (simp add: bracket_match_def)
  then show ?thesis using Bracketed assms by (auto simp: literal_key_def intro: regex_covers(3) [OF collectors(2)])
next
  case (HeaderLiteral q k)
  then have "k \<in> set (scan header_call_match False (pre @ spelling_text sp @ post))"
    using assms literal_found [of pre q k "''req.header(''" "CHR '')''" post] good_openers by (simp add: header_call_match_def)
  then show ?thesis using HeaderLiteral assms regex_covers(3) [OF collectors(3)] by (auto simp: literal_key_def)
next
  case (Computed sec)
  then have "whole_here sec (pre @ spelling_text sp @ post)"
    using assms dynamic_at [of pre post "of_section sec @ ''[''"] by (simp add: whole_here_def found_at)
  then show ?thesis using Computed assms whole_marks_whole by (auto intro: regex_covers_whole)
next
  case (Entire sec)
  then have "whole_here sec (pre @ spelling_text sp @ post)"
    using assms full_at [of sec pre post] by (simp add: whole_here_def found_at)
  then show ?thesis using Entire assms whole_marks_whole by (auto intro: regex_covers_whole)
next
  case HeaderCall
  then have "found (dynamic_here ''req.header('') False (pre @ spelling_text sp @ post)"
    using assms dynamic_at [of pre post "''req.header(''"] by (intro found_at) simp
  then show ?thesis using HeaderCall assms whole_marks_call by (auto intro: regex_covers_whole)
next
  case (Indexed spaces)
  then have "found request_index_here False (pre @ spelling_text sp @ post)"
    using assms request_index_at [of pre post spaces] by (intro found_at) simp
  then show ?thesis by (intro regex_covers_whole whole_marks_index)
next
  case (IndexedLiteral spaces q k)
  then have "found request_index_here False (pre @ spelling_text sp @ post)"
    using assms request_index_at [of pre "[q] @ k @ [q, CHR '']''] @ post" spaces] by (intro found_at) auto
  then show ?thesis by (intro regex_covers_whole whole_marks_index)
next
  case (Destructured inner x y)
  then have "found pattern_here False (pre @ spelling_text sp @ post)"
    using assms pattern_at [of inner x y pre post] by (intro found_at) simp
  then show ?thesis by (rule regex_covers(1))
qed

section \<open>Properties\<close>

text \<open>C5: A source that acorn does not parse is searched for reads by their spelling, and every one of the usual
  spellings is found wherever it stands: members, keys after a dot and in brackets, computed keys, a section handed
  on as a whole, the calls of \<open>req.header\<close>, indexed access to the request and destructuring of it.  What such a
  read demands is covered by the plan.\<close>

theorem fallback_covers_spelled_reads:
  assumes "acornParse (''('' @ source @ '')'') = None" "source = pre @ spelling_text sp @ post"
    "spelled_in sp pre post" "spelling_reads sp d"
  shows "covers (analyzeRequestAccess acornParse source) d"
  using assms spelled_covered by (simp add: analyzeRequestAccess_def analyzeRequestAccessAST_def)

theorem fallback_covers_spelled_reads_witness:
  "covers (analyzeRequestAccess (\<lambda>_. None) ''show(req, res) { res.json(req.params.id); }'') (DKey ParamsSec ''id'')"
  by (rule fallback_covers_spelled_reads [where sp = "Dotted ParamsSec ''id''" and pre = "''show(req, res) { res.json(''"
        and post = "''); }''"])
    (simp_all add: of_section_def section_name_def own_word_def ident_char_def ident_start_def is_word_def is_digit_def)

text \<open>Only the name \<open>req\<close> is known here: a method whose parameter is called otherwise reads nothing, it seems.\<close>

lemma fallback_knows_only_req:
  "analyzeRequestAccess (\<lambda>_. None) ''f(r) { r.params.id }'' = createEmptyAccessPlan"
  by (simp add: analyzeRequestAccess_def analyzeRequestAccessAST_def) code_simp

text \<open>A line break before the dot hides a read, and so do quotes inside a key; a name that ends with a dollar sign
  is cut short.\<close>

lemma fallback_misses_broken_lines:
  "analyzeRequestAccess (\<lambda>_. None) ''f(req) { req.params .id }'' = createEmptyAccessPlan"
  "pl_paramKeys (analyzeRequestAccess (\<lambda>_. None) ''f(req) { req.params.a$ }'') = [''a'']"
  by (simp add: analyzeRequestAccess_def analyzeRequestAccessAST_def; code_simp)+

end
