(* ===== verification/NativeSetup.thy ===== *)
theory NativeSetup
  imports Prelude
begin

text \<open>
  Getting and loading the native binary: \<open>scripts/native/shared.mjs\<close>, \<open>scripts/native/download.mjs\<close>,
  \<open>scripts/setup-native.mjs\<close>, \<open>scripts/ensure-native.mjs\<close> and \<open>src/src/native.js\<close>.  The environment, the two
  fields of \<open>package.json\<close> that are read, \<open>path.resolve\<close>, what the download answers and which operations of the
  file system fail are inputs; the disk is a map from paths to files.  Lines written to the console are left out.
\<close>

section \<open>Names and addresses\<close>

record setup_env =
  HTTP_NATIVE_BINARY_VERSION :: "string option"
  HTTP_NATIVE_BINARY_REPOSITORY :: "string option"
  HTTP_NATIVE_BINARY_TAG :: "string option"
  HTTP_NATIVE_BINARY_BASE_URL :: "string option"
  HTTP_NATIVE_SKIP_DOWNLOAD :: "string option"

datatype repository_field = RepositoryText string | RepositoryUrl "string option"

record package =
  pk_version :: string
  pk_repository :: repository_field

text \<open>The value of a string if it is truthy.\<close>

definition given_text :: "string option \<Rightarrow> string option" where
  "given_text s = (if s = Some [] then None else s)"

definition part_char :: "char \<Rightarrow> bool" where
  "part_char c \<longleftrightarrow> c \<noteq> CHR ''/'' \<and> \<not> is_ws c"

text \<open>The tail \<open>([^/\s]+)\/([^/\s]+?)(?:\.git)?$\<close>; without \<open>strip\<close> it is \<open>([^/\s]+)\/([^/\s]+)$\<close>.\<close>

definition owner_and_name :: "bool \<Rightarrow> string \<Rightarrow> string option" where
  "owner_and_name strip s =
     (let owner = takeWhile part_char s; r = dropWhile part_char s in
      if owner = [] \<or> r = [] \<or> hd r \<noteq> CHR ''/'' \<or> tl r = [] \<or> \<not> list_all part_char (tl r) then None
      else
        let name = tl r in
        Some (owner @ ''/'' @ (if strip \<and> length name > 4 \<and> toLowerCase (drop (length name - 4) name) = ''.git''
                               then take (length name - 4) name else name)))"

text \<open>\<open>/github\.com[/:].../i\<close>: the first place where the expression matches.\<close>

fun github_match :: "string \<Rightarrow> string option" where
  "github_match [] = None"
| "github_match (c # s) =
     (let r = drop 10 (c # s) in
      case (if toLowerCase (take 10 (c # s)) = ''github.com'' \<and> r \<noteq> [] \<and> (hd r = CHR ''/'' \<or> hd r = CHR '':'')
            then owner_and_name True (tl r) else None) of
        Some p \<Rightarrow> Some p
      | None \<Rightarrow> github_match s)"

definition parseRepositoryPath :: "string option \<Rightarrow> string option" where
  "parseRepositoryPath input =
     (case given_text input of
        None \<Rightarrow> None
      | Some text1 \<Rightarrow>
          let v = trim text1 in
          if v = [] then None
          else
            (case github_match v of
               Some p \<Rightarrow> Some p
             | None \<Rightarrow> owner_and_name False v))"

definition DEFAULT_REPOSITORY :: string where "DEFAULT_REPOSITORY = ''Http-native/http-native''"

definition resolvePackageVersion :: "setup_env \<Rightarrow> package \<Rightarrow> string option \<Rightarrow> string" where
  "resolvePackageVersion env pkg explicitVersion =
     (case given_text explicitVersion of
        Some v \<Rightarrow> v
      | None \<Rightarrow> (case given_text (HTTP_NATIVE_BINARY_VERSION env) of Some v \<Rightarrow> v | None \<Rightarrow> pk_version pkg))"

definition resolveRepositoryPath :: "setup_env \<Rightarrow> package \<Rightarrow> string" where
  "resolveRepositoryPath env pkg =
     (case parseRepositoryPath (HTTP_NATIVE_BINARY_REPOSITORY env) of
        Some p \<Rightarrow> p
      | None \<Rightarrow>
          (case parseRepositoryPath (case pk_repository pkg of RepositoryText t \<Rightarrow> Some t | RepositoryUrl u \<Rightarrow> u) of
             Some p \<Rightarrow> p
           | None \<Rightarrow> DEFAULT_REPOSITORY))"

definition resolveReleaseTag :: "setup_env \<Rightarrow> string \<Rightarrow> string option \<Rightarrow> string" where
  "resolveReleaseTag env version explicitTag =
     (case given_text explicitTag of
        Some t \<Rightarrow> t
      | None \<Rightarrow> (case given_text (HTTP_NATIVE_BINARY_TAG env) of Some t \<Rightarrow> t | None \<Rightarrow> ''v'' @ version))"

definition resolvePlatform :: "string \<Rightarrow> string \<Rightarrow> string + (string \<times> string)" where
  "resolvePlatform platform arch =
     (if platform \<notin> {''darwin'', ''linux'', ''win32''}
      then Inl (''Unsupported platform \"'' @ platform @ ''\". Supported: darwin, linux, win32.'')
      else if arch \<notin> {''x64'', ''arm64''}
      then Inl (''Unsupported architecture \"'' @ arch @ ''\". Supported: x64, arm64.'')
      else Inr (platform, arch))"

definition resolveAssetName :: "string \<Rightarrow> string \<Rightarrow> string" where
  "resolveAssetName platform arch = ''http-native-'' @ platform @ ''-'' @ arch @ ''.node''"

definition trim_base :: "string \<Rightarrow> string" where
  "trim_base s = rev (dropWhile (\<lambda>c. c = CHR ''/'') (rev s))"

definition resolveAssetUrl :: "setup_env \<Rightarrow> string \<Rightarrow> string \<Rightarrow> string \<Rightarrow> string" where
  "resolveAssetUrl env tag assetName repositoryPath =
     (case given_text (HTTP_NATIVE_BINARY_BASE_URL env) of
        Some base \<Rightarrow> trim_base base @ ''/'' @ tag @ ''/'' @ assetName
      | None \<Rightarrow> ''https://github.com/'' @ repositoryPath @ ''/releases/download/'' @ tag @ ''/'' @ assetName)"

section \<open>The download\<close>

record stored_file =
  fi_bytes :: "byte list"
  fi_mode :: "nat option"

type_synonym disk = "string \<Rightarrow> stored_file option"

datatype download_outcome = Unreachable string | Answered nat string "byte list"

text \<open>Which operations fail, with which message; a failing write may leave a part of the file.\<close>

record disk_faults =
  df_write :: "(byte list option \<times> string) option"
  df_chmod :: "string option"
  df_remove :: "string option"
  df_rename :: "string option"
  df_cleanup :: "string option"

record download_options =
  dl_force :: bool
  dl_version :: "string option"
  dl_tag :: "string option"
  dl_platform :: "string option"
  dl_arch :: "string option"

record machine =
  mc_platform :: string
  mc_arch :: string
  mc_pid :: nat
  mc_now :: nat
  mc_destination :: string

record download_result =
  dr_changed :: bool
  dr_destinationPath :: string
  dr_assetName :: string
  dr_tag :: string
  dr_downloadUrl :: string

definition response_ok :: "nat \<Rightarrow> bool" where
  "response_ok status \<longleftrightarrow> 200 \<le> status \<and> status \<le> 299"

definition fetched :: "string \<Rightarrow> download_outcome \<Rightarrow> string + byte list" where
  "fetched downloadUrl outcome =
     (case outcome of
        Unreachable message \<Rightarrow> Inl message
      | Answered status statusText bytes \<Rightarrow>
          if \<not> response_ok status
          then Inl (''download failed ('' @ nat_digits status @ '' '' @ statusText @ '') from '' @ downloadUrl)
          else if bytes = [] then Inl (''downloaded empty native binary from '' @ downloadUrl)
          else Inr bytes)"

text \<open>Writing beside the destination, and moving the file there.\<close>

definition write_temp :: "disk_faults \<Rightarrow> string \<Rightarrow> byte list \<Rightarrow> disk \<Rightarrow> string option \<times> disk" where
  "write_temp faults temp bytes disk =
     (case df_write faults of
        Some (None, message) \<Rightarrow> (Some message, disk)
      | Some (Some part, message) \<Rightarrow> (Some message, disk(temp \<mapsto> \<lparr>fi_bytes = part, fi_mode = None\<rparr>))
      | None \<Rightarrow> (None, disk(temp \<mapsto> \<lparr>fi_bytes = bytes, fi_mode = None\<rparr>)))"

definition make_executable :: "disk_faults \<Rightarrow> string \<Rightarrow> string \<Rightarrow> disk \<Rightarrow> string option \<times> disk" where
  "make_executable faults platform temp disk =
     (if platform = ''win32'' then (None, disk)
      else
        (case df_chmod faults of
           Some message \<Rightarrow> (Some message, disk)
         | None \<Rightarrow> (None, disk(temp := map_option (\<lambda>f. f\<lparr>fi_mode := Some 493\<rparr>) (disk temp)))))"

definition move_temp :: "disk_faults \<Rightarrow> string \<Rightarrow> string \<Rightarrow> disk \<Rightarrow> string option \<times> disk" where
  "move_temp faults temp destination disk =
     (case df_remove faults of
        Some message \<Rightarrow> (Some message, disk)
      | None \<Rightarrow>
          let disk1 = disk(destination := None) in
          (case df_rename faults of
             Some message \<Rightarrow> (Some message, disk1)
           | None \<Rightarrow> (None, disk1(destination := disk temp, temp := None))))"

definition and_then :: "string option \<times> disk \<Rightarrow> (disk \<Rightarrow> string option \<times> disk) \<Rightarrow> string option \<times> disk" where
  "and_then r f = (case r of (None, disk) \<Rightarrow> f disk | (Some message, disk) \<Rightarrow> (Some message, disk))"

definition install :: "disk_faults \<Rightarrow> string \<Rightarrow> string \<Rightarrow> string \<Rightarrow> byte list \<Rightarrow> disk \<Rightarrow> string option \<times> disk" where
  "install faults platform temp destination bytes disk =
     and_then (and_then (write_temp faults temp bytes disk) (make_executable faults platform temp))
       (move_temp faults temp destination)"

text \<open>The body of the \<open>try\<close> block, and the \<open>catch\<close> block.\<close>

definition fetch_and_install ::
  "disk_faults \<Rightarrow> string \<Rightarrow> string \<Rightarrow> string \<Rightarrow> (string + byte list) \<Rightarrow> disk \<Rightarrow> string option \<times> disk" where
  "fetch_and_install faults platform temp destination answer disk =
     (case answer of
        Inl message \<Rightarrow> (Some message, disk)
      | Inr bytes \<Rightarrow> install faults platform temp destination bytes disk)"

definition clean_up :: "disk_faults \<Rightarrow> string \<Rightarrow> string \<Rightarrow> disk \<Rightarrow> (string + 'r) \<times> disk" where
  "clean_up faults temp message disk =
     (case df_cleanup faults of
        Some message' \<Rightarrow> (Inl message', disk)
      | None \<Rightarrow> (Inl message, disk(temp := None)))"

definition setup_failure :: "string \<Rightarrow> string \<Rightarrow> string \<Rightarrow> string \<Rightarrow> string \<Rightarrow> string \<Rightarrow> string" where
  "setup_failure message downloadUrl tag assetName platform arch =
     (if contains message ''download failed (404'' \<and> contains downloadUrl ''/releases/download/''
      then ''Release asset not found for '' @ tag @ '' ('' @ assetName
        @ ''). Publish workflow must create release binaries before npm publish.''
      else ''Unable to setup native binary for '' @ platform @ ''-'' @ arch @ ''. '' @ message)"

definition temp_path :: "machine \<Rightarrow> string" where
  "temp_path mc = mc_destination mc @ ''.tmp-'' @ nat_digits (mc_pid mc) @ ''-'' @ nat_digits (mc_now mc)"

definition downloadNativeBinary ::
  "setup_env \<Rightarrow> package \<Rightarrow> machine \<Rightarrow> (string \<Rightarrow> download_outcome) \<Rightarrow> disk_faults \<Rightarrow> download_options \<Rightarrow> disk
   \<Rightarrow> (string + download_result) \<times> disk" where
  "downloadNativeBinary env pkg mc fetch faults options disk =
     (let version = resolvePackageVersion env pkg (dl_version options);
          tag = resolveReleaseTag env version (dl_tag options) in
      case resolvePlatform (case dl_platform options of None \<Rightarrow> mc_platform mc | Some p \<Rightarrow> p)
             (case dl_arch options of None \<Rightarrow> mc_arch mc | Some a \<Rightarrow> a) of
        Inl message \<Rightarrow> (Inl message, disk)
      | Inr (platform, arch) \<Rightarrow>
          let assetName = resolveAssetName platform arch;
              downloadUrl = resolveAssetUrl env tag assetName (resolveRepositoryPath env pkg);
              destination = mc_destination mc;
              result = \<lparr>dr_changed = True, dr_destinationPath = destination, dr_assetName = assetName, dr_tag = tag,
                dr_downloadUrl = downloadUrl\<rparr> in
          if \<not> dl_force options \<and> disk destination \<noteq> None then (Inr (result\<lparr>dr_changed := False\<rparr>), disk)
          else
            (case fetch_and_install faults platform (temp_path mc) destination (fetched downloadUrl (fetch downloadUrl)) disk of
               (None, disk1) \<Rightarrow> (Inr result, disk1)
             | (Some message, disk1) \<Rightarrow>
                 clean_up faults (temp_path mc) (setup_failure message downloadUrl tag assetName platform arch) disk1))"

section \<open>The two scripts\<close>

fun setup_loop :: "string list \<Rightarrow> download_options \<Rightarrow> download_options" where
  "setup_loop [] a = a"
| "setup_loop [arg] a = (if arg = ''--force'' then a\<lparr>dl_force := True\<rparr> else a)"
| "setup_loop (arg # v # rest) a =
     (if arg = ''--force'' then setup_loop (v # rest) (a\<lparr>dl_force := True\<rparr>)
      else if arg = ''--version'' \<and> v \<noteq> [] then setup_loop rest (a\<lparr>dl_version := Some v\<rparr>)
      else if arg = ''--tag'' \<and> v \<noteq> [] then setup_loop rest (a\<lparr>dl_tag := Some v\<rparr>)
      else if arg = ''--platform'' \<and> v \<noteq> [] then setup_loop rest (a\<lparr>dl_platform := Some v\<rparr>)
      else if arg = ''--arch'' \<and> v \<noteq> [] then setup_loop rest (a\<lparr>dl_arch := Some v\<rparr>)
      else setup_loop (v # rest) a)"

definition no_download_options :: download_options where
  "no_download_options = \<lparr>dl_force = False, dl_version = None, dl_tag = None, dl_platform = None, dl_arch = None\<rparr>"

definition parseArgs :: "string list \<Rightarrow> download_options" where
  "parseArgs argv = setup_loop argv no_download_options"

definition runNativeSetupCli ::
  "setup_env \<Rightarrow> package \<Rightarrow> machine \<Rightarrow> (string \<Rightarrow> download_outcome) \<Rightarrow> disk_faults \<Rightarrow> string list \<Rightarrow> disk \<Rightarrow> (string + int) \<times> disk" where
  "runNativeSetupCli env pkg mc fetch faults argv disk =
     (case downloadNativeBinary env pkg mc fetch faults (parseArgs argv) disk of
        (Inl message, disk') \<Rightarrow> (Inl message, disk')
      | (Inr result, disk') \<Rightarrow> (Inr 0, disk'))"

text \<open>The exit code of the script that runs after the installation of the package.\<close>

definition ensureNative ::
  "setup_env \<Rightarrow> package \<Rightarrow> machine \<Rightarrow> (string \<Rightarrow> download_outcome) \<Rightarrow> disk_faults \<Rightarrow> disk \<Rightarrow> int \<times> disk" where
  "ensureNative env pkg mc fetch faults disk =
     (if HTTP_NATIVE_SKIP_DOWNLOAD env \<in> {Some ''1'', Some ''true''} then (0, disk)
      else
        (case downloadNativeBinary env pkg mc fetch faults no_download_options disk of
           (Inl message, disk') \<Rightarrow> (1, disk')
         | (Inr result, disk') \<Rightarrow> (0, disk')))"

section \<open>Loading\<close>

text \<open>\<open>HTTP_NATIVE_NATIVE_PATH ?? HTTP_NATIVE_NODE_PATH\<close>; the path that is required, or the error.\<close>

definition loadNativeModule ::
  "(string \<Rightarrow> string \<Rightarrow> string) \<Rightarrow> string \<Rightarrow> string option \<Rightarrow> string option \<Rightarrow> disk \<Rightarrow> string + string" where
  "loadNativeModule resolve rootDir nativePath nodePath disk =
     (let configuredPath = given_text (case nativePath of Some p \<Rightarrow> Some p | None \<Rightarrow> nodePath);
          nativeModulePath = resolve rootDir (case configuredPath of Some p \<Rightarrow> p | None \<Rightarrow> ''http-native.node'') in
      if disk nativeModulePath = None
      then Inl (''Native module not found at '' @ nativeModulePath
        @ ''. Run \"http-native setup --force\" to download it (or \"bun run build\" in this repo).'')
      else Inr nativeModulePath)"

section \<open>What is on the disk afterwards\<close>

lemma temp_is_apart [simp]: "temp_path mc \<noteq> mc_destination mc" "mc_destination mc \<noteq> temp_path mc"
  by (simp_all add: temp_path_def)

lemma install_keeps:
  assumes "install faults platform temp destination bytes disk = (failure, disk')" "temp \<noteq> destination"
  shows "p \<noteq> destination \<Longrightarrow> p \<noteq> temp \<Longrightarrow> disk' p = disk p"
    and "failure = None \<Longrightarrow> map_option fi_bytes (disk' destination) = Some bytes \<and> disk' temp = None"
    and "failure \<noteq> None \<Longrightarrow> disk' destination = disk destination \<or> (df_rename faults \<noteq> None \<and> disk' destination = None)"
  using assms
  by (auto simp: install_def and_then_def write_temp_def make_executable_def move_temp_def Let_def
      split: option.splits prod.splits if_splits)

lemma fetchedD:
  "fetched url outcome = Inr bytes \<Longrightarrow> \<exists>status statusText. outcome = Answered status statusText bytes \<and> response_ok status \<and> bytes \<noteq> []"
  by (auto simp: fetched_def split: download_outcome.splits if_splits)

text \<open>The possible ends of \<open>downloadNativeBinary\<close>.\<close>

definition kept_or_lost :: "machine \<Rightarrow> disk_faults \<Rightarrow> disk \<Rightarrow> disk \<Rightarrow> bool" where
  "kept_or_lost mc faults disk disk' \<longleftrightarrow>
     (disk' (mc_destination mc) = disk (mc_destination mc) \<or> (df_rename faults \<noteq> None \<and> disk' (mc_destination mc) = None))
     \<and> (disk' (temp_path mc) = disk (temp_path mc) \<or> disk' (temp_path mc) = None \<or> df_cleanup faults \<noteq> None)"

definition replaced :: "machine \<Rightarrow> download_outcome \<Rightarrow> disk \<Rightarrow> bool" where
  "replaced mc outcome disk' \<longleftrightarrow>
     (case outcome of
        Unreachable _ \<Rightarrow> False
      | Answered status _ bytes \<Rightarrow> response_ok status \<and> bytes \<noteq> []
          \<and> map_option fi_bytes (disk' (mc_destination mc)) = Some bytes \<and> disk' (temp_path mc) = None)"

lemma replacedI:
  "fetched url outcome = Inr bytes \<Longrightarrow> map_option fi_bytes (disk' (mc_destination mc)) = Some bytes \<Longrightarrow> disk' (temp_path mc) = None
    \<Longrightarrow> replaced mc outcome disk'"
  by (auto dest: fetchedD simp: replaced_def)

lemma clean_up_ends:
  "clean_up faults temp message disk = (r, disk') \<Longrightarrow>
     (\<exists>m. r = Inl m) \<and> (disk' = disk \<and> df_cleanup faults \<noteq> None \<or> disk' = disk(temp := None))"
  by (auto simp: clean_up_def split: option.splits)

lemma attempt_keeps:
  assumes "fetch_and_install faults platform (temp_path mc) (mc_destination mc) (fetched url outcome) disk = (failure, disk')"
  shows "p = mc_destination mc \<or> p = temp_path mc \<or> disk' p = disk p"
    and "failure = None \<Longrightarrow> replaced mc outcome disk'"
    and "failure \<noteq> None \<Longrightarrow> disk' (mc_destination mc) = disk (mc_destination mc)
      \<or> (df_rename faults \<noteq> None \<and> disk' (mc_destination mc) = None)"
proof -
  have "(p = mc_destination mc \<or> p = temp_path mc \<or> disk' p = disk p)
    \<and> (failure = None \<longrightarrow> replaced mc outcome disk')
    \<and> (failure \<noteq> None \<longrightarrow> disk' (mc_destination mc) = disk (mc_destination mc)
      \<or> (df_rename faults \<noteq> None \<and> disk' (mc_destination mc) = None))" for p
  proof (cases "fetched url outcome")
    case (Inl m)
    then show ?thesis using assms by (auto simp: fetch_and_install_def)
  next
    case (Inr bytes)
    then have "install faults platform (temp_path mc) (mc_destination mc) bytes disk = (failure, disk')"
      using assms by (simp add: fetch_and_install_def)
    from install_keeps [OF this temp_is_apart(1)] show ?thesis using replacedI [OF Inr] by blast
  qed
  then show "p = mc_destination mc \<or> p = temp_path mc \<or> disk' p = disk p"
    "failure = None \<Longrightarrow> replaced mc outcome disk'"
    "failure \<noteq> None \<Longrightarrow> disk' (mc_destination mc) = disk (mc_destination mc)
      \<or> (df_rename faults \<noteq> None \<and> disk' (mc_destination mc) = None)" by blast+
qed

text \<open>The ends: refused or present already, installed, failed.\<close>

lemma download_ends:
  assumes "downloadNativeBinary env pkg mc fetch faults options disk = (r, disk')"
  shows "(\<exists>m. r = Inl m \<and> disk' = disk)
    \<or> (\<exists>result. r = Inr result \<and> \<not> dr_changed result \<and> disk' = disk \<and> disk (mc_destination mc) \<noteq> None \<and> \<not> dl_force options)
    \<or> (\<exists>result platform url. r = Inr result \<and> dr_changed result \<and> url = dr_downloadUrl result
        \<and> fetch_and_install faults platform (temp_path mc) (mc_destination mc) (fetched url (fetch url)) disk = (None, disk'))
    \<or> (\<exists>platform url m m' disk1.
        fetch_and_install faults platform (temp_path mc) (mc_destination mc) (fetched url (fetch url)) disk = (Some m, disk1)
        \<and> clean_up faults (temp_path mc) m' disk1 = (r, disk'))"
proof (cases "resolvePlatform (case dl_platform options of None \<Rightarrow> mc_platform mc | Some p \<Rightarrow> p)
             (case dl_arch options of None \<Rightarrow> mc_arch mc | Some a \<Rightarrow> a)")
  case (Inl m)
  then have "r = Inl m" "disk' = disk" using assms by (simp_all add: downloadNativeBinary_def Let_def)
  then show ?thesis by blast
next
  case (Inr pa)
  obtain platform arch where pa: "pa = (platform, arch)" by fastforce
  let ?tag = "resolveReleaseTag env (resolvePackageVersion env pkg (dl_version options)) (dl_tag options)"
  let ?url = "resolveAssetUrl env ?tag (resolveAssetName platform arch) (resolveRepositoryPath env pkg)"
  let ?attempt = "fetch_and_install faults platform (temp_path mc) (mc_destination mc) (fetched ?url (fetch ?url)) disk"
  show ?thesis
  proof (cases "\<not> dl_force options \<and> disk (mc_destination mc) \<noteq> None")
    case True
    then have "\<exists>result. r = Inr result \<and> \<not> dr_changed result" "disk' = disk"
      using assms Inr pa by (auto simp: downloadNativeBinary_def Let_def)
    then show ?thesis using True by blast
  next
    case False
    obtain failure disk1 where a: "?attempt = (failure, disk1)" by fastforce
    show ?thesis
    proof (cases failure)
      case None
      have "\<exists>result. r = Inr result \<and> dr_changed result \<and> dr_downloadUrl result = ?url" "disk' = disk1"
        using assms Inr pa False a None by (auto simp: downloadNativeBinary_def Let_def)
      then show ?thesis using a None by metis
    next
      case (Some m)
      have "clean_up faults (temp_path mc) (setup_failure m ?url ?tag (resolveAssetName platform arch) platform arch) disk1 = (r, disk')"
        using assms Inr pa False a Some by (auto simp: downloadNativeBinary_def Let_def)
      then show ?thesis using a Some by blast
    qed
  qed
qed

text \<open>C29: However the download and the operations on the disk end, the installer touches nothing but the binary and
  its own temporary file.  When it reports a change the binary has exactly the non-empty bytes of a successful
  answer and the temporary file is gone; when it reports none nothing changed and there was a binary.  When it
  fails the binary is the old one, unless the final rename failed, and no temporary file stays behind unless
  removing it fails too.\<close>

theorem download_replaces_or_keeps:
  assumes "downloadNativeBinary env pkg mc fetch faults options disk = (r, disk')"
  shows "(\<forall>p. p = mc_destination mc \<or> p = temp_path mc \<or> disk' p = disk p)
    \<and> (case r of
         Inl message \<Rightarrow> kept_or_lost mc faults disk disk'
       | Inr result \<Rightarrow>
           if dr_changed result then replaced mc (fetch (dr_downloadUrl result)) disk'
           else disk' = disk \<and> disk (mc_destination mc) \<noteq> None \<and> \<not> dl_force options)"
  using download_ends [OF assms]
proof (elim disjE exE conjE)
  fix result platform url
  assume a: "r = Inr result" "dr_changed result" "url = dr_downloadUrl result"
    "fetch_and_install faults platform (temp_path mc) (mc_destination mc) (fetched url (fetch url)) disk = (None, disk')"
  then show ?thesis using attempt_keeps [OF a(4)] by simp
next
  fix platform url m m' disk1
  assume a: "fetch_and_install faults platform (temp_path mc) (mc_destination mc) (fetched url (fetch url)) disk = (Some m, disk1)"
    and c: "clean_up faults (temp_path mc) m' disk1 = (r, disk')"
  have "p = mc_destination mc \<or> p = temp_path mc \<or> disk' p = disk p" for p
    using attempt_keeps(1) [OF a, of p] clean_up_ends [OF c] by (auto split: if_splits)
  then show ?thesis using attempt_keeps(3) [OF a] clean_up_ends [OF c] by (auto simp: kept_or_lost_def)
qed (simp_all add: kept_or_lost_def)

definition sample_machine :: machine where
  "sample_machine = \<lparr>mc_platform = ''linux'', mc_arch = ''x64'', mc_pid = 1, mc_now = 2, mc_destination = ''/p/http-native.node''\<rparr>"

definition sample_env :: setup_env where
  "sample_env = \<lparr>HTTP_NATIVE_BINARY_VERSION = None, HTTP_NATIVE_BINARY_REPOSITORY = None, HTTP_NATIVE_BINARY_TAG = None,
     HTTP_NATIVE_BINARY_BASE_URL = Some ''https://x/'', HTTP_NATIVE_SKIP_DOWNLOAD = None\<rparr>"

definition sample_package :: package where
  "sample_package = \<lparr>pk_version = ''1.0.0'', pk_repository = RepositoryText ''a/b''\<rparr>"

definition no_faults :: disk_faults where
  "no_faults = \<lparr>df_write = None, df_chmod = None, df_remove = None, df_rename = None, df_cleanup = None\<rparr>"

abbreviation sample_download :: "disk_faults \<Rightarrow> (string + download_result) \<times> disk" where
  "sample_download faults \<equiv> downloadNativeBinary sample_env sample_package sample_machine (\<lambda>_. Answered 200 ''OK'' [1, 2]) faults
     (no_download_options\<lparr>dl_force := True\<rparr>) [''/p/http-native.node'' \<mapsto> \<lparr>fi_bytes = [9], fi_mode = None\<rparr>]"

lemma sample_changed: "\<exists>result. fst (sample_download no_faults) = Inr result \<and> dr_changed result"
  by (simp add: downloadNativeBinary_def sample_env_def sample_package_def sample_machine_def no_download_options_def
      resolvePackageVersion_def resolveReleaseTag_def given_text_def resolvePlatform_def fetched_def response_ok_def
      fetch_and_install_def clean_up_def install_def and_then_def write_temp_def make_executable_def move_temp_def no_faults_def Let_def)

theorem download_replaces_or_keeps_witness:
  "replaced sample_machine (Answered 200 ''OK'' [1, 2]) (snd (sample_download no_faults))"
proof -
  obtain result where r: "fst (sample_download no_faults) = Inr result" "dr_changed result" using sample_changed by blast
  have "sample_download no_faults = (fst (sample_download no_faults), snd (sample_download no_faults))" by simp
  from download_replaces_or_keeps [OF this] show ?thesis using r by simp
qed

text \<open>The old binary is removed before the rename, so a rename that fails leaves none.\<close>

lemma failed_rename_loses_binary:
  "snd (sample_download (no_faults\<lparr>df_rename := Some ''EXDEV''\<rparr>)) ''/p/http-native.node'' = None"
  by (simp add: downloadNativeBinary_def sample_env_def sample_package_def sample_machine_def no_download_options_def
      resolvePackageVersion_def resolveReleaseTag_def given_text_def resolvePlatform_def fetched_def response_ok_def
      fetch_and_install_def clean_up_def install_def and_then_def write_temp_def make_executable_def move_temp_def no_faults_def temp_path_def Let_def)

section \<open>Repositories\<close>

definition plain_part :: "string \<Rightarrow> bool" where
  "plain_part s \<longleftrightarrow> s \<noteq> [] \<and> list_all part_char s"

lemma owner_and_name_at:
  assumes "plain_part owner" "plain_part name" "\<not> strip \<or> length name \<le> 4 \<or> toLowerCase (drop (length name - 4) name) \<noteq> ''.git''"
  shows "owner_and_name strip (owner @ ''/'' @ name) = Some (owner @ ''/'' @ name)"
proof -
  have "takeWhile part_char (owner @ CHR ''/'' # name) = owner" "dropWhile part_char (owner @ CHR ''/'' # name) = CHR ''/'' # name"
    using assms(1) by (auto simp: plain_part_def list_all_iff part_char_def)
  then show ?thesis using assms by (auto simp: owner_and_name_def plain_part_def Let_def)
qed

lemma git_suffix_dropped:
  assumes "plain_part owner" "plain_part name"
  shows "owner_and_name True (owner @ ''/'' @ name @ ''.git'') = Some (owner @ ''/'' @ name)"
proof -
  have "takeWhile part_char (owner @ CHR ''/'' # name @ ''.git'') = owner"
      "dropWhile part_char (owner @ CHR ''/'' # name @ ''.git'') = CHR ''/'' # name @ ''.git''"
    using assms(1) by (auto simp: plain_part_def list_all_iff part_char_def)
  moreover have "list_all part_char ''.git''" by (simp add: part_char_def is_ws_def)
  ultimately show ?thesis
    using assms by (auto simp: owner_and_name_def plain_part_def Let_def toLowerCase_def lower_char_def)
qed

end
