(* ===== verification/RouteLru.thy ===== *)
theory RouteLru
  imports Prelude
begin

text \<open>
  The native cache of encoded responses, \<open>RouteCache\<close> in \<open>rsrc/src/router.rs\<close>: a doubly linked list in a vector of
  nodes, a map from keys to indices and a list of free indices.  \<open>NULL_NODE\<close> is \<open>None\<close>, an instant is a number, and
  the vector \<open>free_list\<close> is written with its top first.
\<close>

section \<open>The cache\<close>

record cache_entry =
  ce_response_bytes :: "byte list"
  ce_response_bytes_close :: "byte list"
  ce_expires_at :: int

record lru_node =
  ln_key :: nat
  ln_value :: "cache_entry option"
  ln_prev :: "nat option"
  ln_next :: "nat option"

record lru =
  lr_map :: "nat \<Rightarrow> nat option"
  lr_nodes :: "lru_node list"
  lr_head :: "nat option"
  lr_tail :: "nat option"
  lr_max_entries :: nat
  lr_free_list :: "nat list"

definition lru_new :: "nat \<Rightarrow> lru" where
  "lru_new max_entries =
     \<lparr>lr_map = Map.empty, lr_nodes = [], lr_head = None, lr_tail = None, lr_max_entries = max_entries, lr_free_list = []\<rparr>"

definition set_node :: "nat \<Rightarrow> (lru_node \<Rightarrow> lru_node) \<Rightarrow> lru \<Rightarrow> lru" where
  "set_node i f c = c\<lparr>lr_nodes := (lr_nodes c)[i := f (lr_nodes c ! i)]\<rparr>"

definition remove_link :: "nat \<Rightarrow> lru \<Rightarrow> lru" where
  "remove_link idx c =
     (let prev = ln_prev (lr_nodes c ! idx); nxt = ln_next (lr_nodes c ! idx);
          c1 = (case prev of Some p \<Rightarrow> set_node p (\<lambda>n. n\<lparr>ln_next := nxt\<rparr>) c | None \<Rightarrow> c\<lparr>lr_head := nxt\<rparr>) in
      (case nxt of Some n \<Rightarrow> set_node n (\<lambda>nd. nd\<lparr>ln_prev := prev\<rparr>) c1 | None \<Rightarrow> c1\<lparr>lr_tail := prev\<rparr>))"

definition push_head :: "nat \<Rightarrow> lru \<Rightarrow> lru" where
  "push_head idx c =
     (let c1 = set_node idx (\<lambda>n. n\<lparr>ln_prev := None, ln_next := lr_head c\<rparr>) c;
          c2 = (case lr_head c1 of Some h \<Rightarrow> set_node h (\<lambda>n. n\<lparr>ln_prev := Some idx\<rparr>) c1 | None \<Rightarrow> c1);
          c3 = c2\<lparr>lr_head := Some idx\<rparr> in
      if lr_tail c3 = None then c3\<lparr>lr_tail := Some idx\<rparr> else c3)"

definition move_to_head :: "nat \<Rightarrow> lru \<Rightarrow> lru" where
  "move_to_head idx c = (if lr_head c = Some idx then c else push_head idx (remove_link idx c))"

definition remove_node :: "nat \<Rightarrow> lru \<Rightarrow> lru" where
  "remove_node idx c =
     (let c1 = set_node idx (\<lambda>n. n\<lparr>ln_value := None\<rparr>) (remove_link idx c) in
      c1\<lparr>lr_free_list := idx # lr_free_list c1\<rparr>)"

definition lru_get :: "nat \<Rightarrow> int \<Rightarrow> lru \<Rightarrow> cache_entry option \<times> lru" where
  "lru_get key now c =
     (case lr_map c key of
        None \<Rightarrow> (None, c)
      | Some idx \<Rightarrow>
          (case ln_value (lr_nodes c ! idx) of
             Some val \<Rightarrow>
               if now < ce_expires_at val
               then let c1 = move_to_head idx c in (ln_value (lr_nodes c1 ! idx), c1)
               else let c1 = remove_node idx c in (None, c1\<lparr>lr_map := (lr_map c1)(key := None)\<rparr>)
           | None \<Rightarrow> let c1 = remove_node idx c in (None, c1\<lparr>lr_map := (lr_map c1)(key := None)\<rparr>)))"

text \<open>A free index: from the free list, a new node, or the one of the entry that is evicted.\<close>

definition take_index :: "lru \<Rightarrow> (nat \<times> lru) option" where
  "take_index c =
     (case lr_free_list c of
        idx # rest \<Rightarrow> Some (idx, c\<lparr>lr_free_list := rest\<rparr>)
      | [] \<Rightarrow>
          if length (lr_nodes c) < lr_max_entries c
          then Some (length (lr_nodes c),
            c\<lparr>lr_nodes := lr_nodes c @ [\<lparr>ln_key = 0, ln_value = None, ln_prev = None, ln_next = None\<rparr>]\<rparr>)
          else
            (case lr_tail c of
               None \<Rightarrow> None
             | Some tail_idx \<Rightarrow>
                 let tail_key = ln_key (lr_nodes c ! tail_idx); c1 = remove_node tail_idx c in
                 Some (tail_idx, c1\<lparr>lr_map := (lr_map c1)(tail_key := None)\<rparr>)))"

definition lru_insert :: "nat \<Rightarrow> cache_entry \<Rightarrow> lru \<Rightarrow> lru" where
  "lru_insert key entry c =
     (case lr_map c key of
        Some idx \<Rightarrow> move_to_head idx (set_node idx (\<lambda>n. n\<lparr>ln_value := Some entry\<rparr>) c)
      | None \<Rightarrow>
          (case take_index c of
             None \<Rightarrow> c
           | Some (new_idx, c1) \<Rightarrow>
               let c2 = set_node new_idx (\<lambda>n. n\<lparr>ln_key := key, ln_value := Some entry\<rparr>) c1 in
               push_head new_idx (c2\<lparr>lr_map := (lr_map c2)(key \<mapsto> new_idx)\<rparr>)))"

definition lru_invalidate :: "nat \<Rightarrow> lru \<Rightarrow> lru" where
  "lru_invalidate key c =
     (case lr_map c key of
        None \<Rightarrow> c
      | Some idx \<Rightarrow> let c1 = remove_node idx c in c1\<lparr>lr_map := (lr_map c1)(key := None)\<rparr>)"

section \<open>The caches of all routes\<close>

text \<open>\<open>namespaces\<close> are the ones of the routes that are served; when their generation changed the caches of the
  others are dropped.\<close>

record route_caches =
  rcs_caches :: "nat \<Rightarrow> lru option"
  rcs_seen_generation :: nat

definition sync_route_caches :: "nat \<Rightarrow> nat set \<Rightarrow> route_caches \<Rightarrow> route_caches" where
  "sync_route_caches generation namespaces r =
     (if rcs_seen_generation r = generation then r
      else \<lparr>rcs_caches = rcs_caches r |` namespaces, rcs_seen_generation = generation\<rparr>)"

definition get_cached_response ::
  "nat \<Rightarrow> nat set \<Rightarrow> nat \<Rightarrow> nat \<Rightarrow> bool \<Rightarrow> int \<Rightarrow> route_caches \<Rightarrow> byte list option \<times> route_caches" where
  "get_cached_response generation namespaces namespace key keep_alive now r =
     (let r1 = sync_route_caches generation namespaces r in
      case rcs_caches r1 namespace of
        None \<Rightarrow> (None, r1)
      | Some cache \<Rightarrow>
          let (entry, cache') = lru_get key now cache in
          (map_option (\<lambda>e. if keep_alive then ce_response_bytes e else ce_response_bytes_close e) entry,
           r1\<lparr>rcs_caches := (rcs_caches r1)(namespace \<mapsto> cache')\<rparr>))"

definition insert_cached_response ::
  "nat \<Rightarrow> nat set \<Rightarrow> nat \<Rightarrow> nat \<Rightarrow> cache_entry \<Rightarrow> nat \<Rightarrow> route_caches \<Rightarrow> route_caches" where
  "insert_cached_response generation namespaces namespace key entry max_entries r =
     (let r1 = sync_route_caches generation namespaces r;
          cache = (case rcs_caches r1 namespace of Some c \<Rightarrow> c | None \<Rightarrow> lru_new max_entries) in
      r1\<lparr>rcs_caches := (rcs_caches r1)(namespace \<mapsto> lru_insert key entry (cache\<lparr>lr_max_entries := max max_entries 1\<rparr>))\<rparr>)"

section \<open>Linked segments\<close>

definition first_or :: "nat list \<Rightarrow> nat option \<Rightarrow> nat option" where
  "first_or xs e = (case xs of [] \<Rightarrow> e | x # _ \<Rightarrow> Some x)"

definition last_or :: "nat list \<Rightarrow> nat option \<Rightarrow> nat option" where
  "last_or xs e = (if xs = [] then e else Some (last xs))"

lemma first_or_simps [simp]: "first_or [] e = e" "first_or (x # xs) e = Some x"
  by (simp_all add: first_or_def)

lemma first_or_append [simp]: "first_or (xs @ ys) e = first_or xs (first_or ys e)"
  by (simp add: first_or_def split: list.split)

lemma last_or_simps [simp]: "last_or [] e = e" "last_or (x # xs) e = last_or xs (Some x)" "last_or (xs @ [x]) e = Some x"
  by (simp_all add: last_or_def)

text \<open>The nodes \<open>xs\<close> are linked in this order, with \<open>p\<close> before and \<open>e\<close> behind them.\<close>

fun seg :: "lru_node list \<Rightarrow> nat option \<Rightarrow> nat list \<Rightarrow> nat option \<Rightarrow> bool" where
  "seg ns p [] e \<longleftrightarrow> True"
| "seg ns p (i # xs) e \<longleftrightarrow> i < length ns \<and> ln_prev (ns ! i) = p \<and> ln_next (ns ! i) = first_or xs e \<and> seg ns (Some i) xs e"

lemma seg_append: "seg ns p (xs @ ys) e \<longleftrightarrow> seg ns p xs (first_or ys e) \<and> seg ns (last_or xs p) ys e"
  by (induction xs arbitrary: p) auto

lemma seg_frame: "j \<notin> set xs \<Longrightarrow> seg (ns[j := n]) p xs e = seg ns p xs e"
  by (induction xs arbitrary: p) auto

lemma upd_nth: "xs[i := v] ! j = (if i = j \<and> j < length xs then v else xs ! j)"
  by (cases "i < length xs") (auto simp: nth_list_update list_update_beyond)

lemma seg_values:
  "ln_prev n = ln_prev (ns ! j) \<Longrightarrow> ln_next n = ln_next (ns ! j) \<Longrightarrow> seg (ns[j := n]) p xs e = seg ns p xs e"
  by (induction xs arbitrary: p) (auto simp: upd_nth)

lemma seg_bound: "seg ns p xs e \<Longrightarrow> set xs \<subseteq> {..<length ns}"
  by (induction xs arbitrary: p) auto

lemma seg_more: "seg ns p xs e \<Longrightarrow> seg (ns @ ms) p xs e"
  by (induction xs arbitrary: p) (auto simp: nth_append)

lemma seg_set_end:
  "seg ns p xs e \<Longrightarrow> distinct xs \<Longrightarrow> xs \<noteq> [] \<Longrightarrow> seg (ns[last xs := (ns ! last xs)\<lparr>ln_next := e'\<rparr>]) p xs e'"
proof (induction xs arbitrary: p)
  case (Cons i xs)
  show ?case
  proof (cases xs)
    case Nil
    then show ?thesis using Cons.prems by simp
  next
    case (Cons j ys)
    then have "last xs \<noteq> i" using Cons.prems(2) last_in_set [of xs] by auto
    then show ?thesis using Cons Cons.prems Cons.IH [of "Some i"] by (simp add: nth_list_update)
  qed
qed simp

lemma seg_set_start:
  "seg ns p (y # ys) e \<Longrightarrow> distinct (y # ys) \<Longrightarrow> seg (ns[y := (ns ! y)\<lparr>ln_prev := p'\<rparr>]) p' (y # ys) e"
  by (simp add: seg_frame)

section \<open>The links of a cache\<close>

definition linked :: "lru \<Rightarrow> nat list \<Rightarrow> bool" where
  "linked c order \<longleftrightarrow> distinct order \<and> seg (lr_nodes c) None order None
     \<and> lr_head c = first_or order None \<and> lr_tail c = last_or order None"

text \<open>Keys, values and everything beside the links.\<close>

definition same_data :: "lru \<Rightarrow> lru \<Rightarrow> bool" where
  "same_data c c' \<longleftrightarrow> length (lr_nodes c') = length (lr_nodes c)
     \<and> (\<forall>i. ln_key (lr_nodes c' ! i) = ln_key (lr_nodes c ! i) \<and> ln_value (lr_nodes c' ! i) = ln_value (lr_nodes c ! i))
     \<and> lr_map c' = lr_map c \<and> lr_free_list c' = lr_free_list c \<and> lr_max_entries c' = lr_max_entries c"

lemma same_data_refl [simp]: "same_data c c"
  by (simp add: same_data_def)

lemma same_data_set:
  "same_data c d \<Longrightarrow> (\<And>n. ln_key (f n) = ln_key n \<and> ln_value (f n) = ln_value n) \<Longrightarrow> same_data c (set_node i f d)"
  by (simp add: same_data_def set_node_def upd_nth)

lemma same_data_ends: "same_data c d \<Longrightarrow> same_data c (d\<lparr>lr_head := h\<rparr>)" "same_data c d \<Longrightarrow> same_data c (d\<lparr>lr_tail := h\<rparr>)"
  by (simp_all add: same_data_def)

lemma same_data_trans: "same_data a b \<Longrightarrow> same_data b c \<Longrightarrow> same_data a c"
  by (simp add: same_data_def)

lemma remove_link_data: "same_data c (remove_link i c)"
  unfolding remove_link_def Let_def
  by (cases "ln_prev (lr_nodes c ! i)"; cases "ln_next (lr_nodes c ! i)")
    (simp_all add: same_data_set same_data_ends)

lemma push_head_data: "same_data c (push_head i c)"
  unfolding push_head_def Let_def
  by (simp add: same_data_set same_data_ends split: option.split)

lemma remove_link_linked:
  assumes "linked c (xs @ i # ys)"
  shows "linked (remove_link i c) (xs @ ys)"
proof -
  let ?ns = "lr_nodes c"
  have d: "distinct xs" "distinct ys" "i \<notin> set xs" "i \<notin> set ys" "set xs \<inter> set ys = {}"
    and sx: "seg ?ns None xs (Some i)" and sy: "seg ?ns (Some i) ys None"
    and l: "ln_prev (?ns ! i) = last_or xs None" "ln_next (?ns ! i) = first_or ys None"
    and h: "lr_head c = first_or (xs @ i # ys) None" "lr_tail c = last_or (xs @ i # ys) None"
    using assms by (auto simp: linked_def seg_append)
  let ?ns1 = "case last_or xs None of Some p \<Rightarrow> ?ns[p := (?ns ! p)\<lparr>ln_next := first_or ys None\<rparr>] | None \<Rightarrow> ?ns"
  have sx1: "seg ?ns1 None xs (first_or ys None)"
    using seg_set_end [OF sx d(1), of "first_or ys None"] by (cases "xs = []") (simp_all add: last_or_def)
  have sy1: "seg ?ns1 (Some i) ys None"
    using sy d(5) by (cases "xs = []") (auto simp: last_or_def seg_frame disjoint_iff)
  let ?ns2 = "case first_or ys None of Some n \<Rightarrow> ?ns1[n := (?ns1 ! n)\<lparr>ln_prev := last_or xs None\<rparr>] | None \<Rightarrow> ?ns1"
  have sx2: "seg ?ns2 None xs (first_or ys None)"
    using sx1 d(5) by (cases ys) (auto simp: seg_frame)
  have sy2: "seg ?ns2 (last_or xs None) ys None"
  proof (cases ys)
    case (Cons y zs)
    then show ?thesis using seg_set_start [of ?ns1 "Some i" y zs None "last_or xs None"] sy1 d(2) by simp
  qed simp
  have n2: "lr_nodes (remove_link i c) = ?ns2"
    by (simp add: remove_link_def Let_def l set_node_def split: option.split)
  have "lr_head (remove_link i c) = first_or (xs @ ys) None"
    using h(1) by (cases xs) (auto simp: remove_link_def Let_def l set_node_def last_or_def split: option.split)
  moreover have "lr_tail (remove_link i c) = last_or (xs @ ys) None"
    using h(2) by (cases ys) (auto simp: remove_link_def Let_def l set_node_def last_or_def split: option.split)
  moreover have "seg ?ns2 None (xs @ ys) None" using sx2 sy2 by (simp only: seg_append)
  ultimately show ?thesis using d n2 by (simp add: linked_def)
qed

lemma push_head_linked:
  assumes "linked c order" "i \<notin> set order" "i < length (lr_nodes c)"
  shows "linked (push_head i c) (i # order)"
proof -
  let ?ns = "lr_nodes c"
  let ?ns1 = "?ns[i := (?ns ! i)\<lparr>ln_prev := None, ln_next := first_or order None\<rparr>]"
  let ?ns2 = "case first_or order None of Some h \<Rightarrow> ?ns1[h := (?ns1 ! h)\<lparr>ln_prev := Some i\<rparr>] | None \<Rightarrow> ?ns1"
  have s: "seg ?ns None order None" "lr_head c = first_or order None" "lr_tail c = last_or order None" "distinct order"
    using assms by (simp_all add: linked_def)
  have s1: "seg ?ns1 None order None" using s(1) assms(2) by (simp add: seg_frame)
  have "seg ?ns2 (Some i) order None"
  proof (cases order)
    case (Cons y zs)
    then show ?thesis using seg_set_start [of ?ns1 None y zs None "Some i"] s1 s(4) by simp
  qed simp
  moreover have "ln_prev (?ns2 ! i) = None" "ln_next (?ns2 ! i) = first_or order None" "i < length ?ns2"
    using assms(2,3) by (cases order; auto simp: nth_list_update)+
  ultimately have "seg ?ns2 None (i # order) None" by simp
  moreover have "lr_nodes (push_head i c) = ?ns2" "lr_head (push_head i c) = Some i"
    using s(2) by (auto simp: push_head_def Let_def set_node_def split: option.split)
  moreover have "lr_tail (push_head i c) = last_or (i # order) None"
    using s(3) by (cases order) (auto simp: push_head_def Let_def set_node_def last_or_def split: option.split)
  ultimately show ?thesis using assms(2) s(4) by (simp add: linked_def)
qed

lemma linked_values:
  assumes "linked c order" "\<And>n. ln_prev (f n) = ln_prev n" "\<And>n. ln_next (f n) = ln_next n"
  shows "linked (set_node i f c) order"
  using assms by (simp add: linked_def set_node_def seg_values)

section \<open>The invariant\<close>

text \<open>\<open>order\<close> are the used indices, the most recently used first; the others are free.\<close>

definition lru_inv :: "lru \<Rightarrow> nat list \<Rightarrow> bool" where
  "lru_inv c order \<longleftrightarrow> linked c order
     \<and> distinct (lr_free_list c) \<and> set (lr_free_list c) \<inter> set order = {}
     \<and> set (lr_free_list c) \<union> set order = {..<length (lr_nodes c)}
     \<and> (\<forall>i\<in>set order. ln_value (lr_nodes c ! i) \<noteq> None)
     \<and> (\<forall>k i. lr_map c k = Some i \<longleftrightarrow> i \<in> set order \<and> ln_key (lr_nodes c ! i) = k)"

text \<open>What the cache holds, the most recently used entry first.\<close>

definition held :: "lru \<Rightarrow> nat \<Rightarrow> nat \<times> cache_entry" where
  "held c i = (ln_key (lr_nodes c ! i), the (ln_value (lr_nodes c ! i)))"

definition lru_holds :: "lru \<Rightarrow> (nat \<times> cache_entry) list \<Rightarrow> bool" where
  "lru_holds c xs \<longleftrightarrow> (\<exists>order. lru_inv c order \<and> xs = map (held c) order)"

text \<open>The abstract cache: a list of entries with distinct keys.\<close>

definition without :: "nat \<Rightarrow> (nat \<times> cache_entry) list \<Rightarrow> (nat \<times> cache_entry) list" where
  "without key xs = filter (\<lambda>e. fst e \<noteq> key) xs"

definition spec_get :: "nat \<Rightarrow> int \<Rightarrow> (nat \<times> cache_entry) list \<Rightarrow> cache_entry option \<times> (nat \<times> cache_entry) list" where
  "spec_get key now xs =
     (case map_of xs key of
        None \<Rightarrow> (None, xs)
      | Some e \<Rightarrow> if now < ce_expires_at e then (Some e, (key, e) # without key xs) else (None, without key xs))"

definition spec_insert :: "nat \<Rightarrow> cache_entry \<Rightarrow> (nat \<times> cache_entry) list \<Rightarrow> (nat \<times> cache_entry) list" where
  "spec_insert key entry xs = (key, entry) # without key xs"

lemma lru_inv_data:
  assumes "lru_inv c order" "same_data c c'" "linked c' order'" "set order' = set order"
  shows "lru_inv c' order'" "held c' = held c"
proof -
  have s: "length (lr_nodes c') = length (lr_nodes c)" "lr_free_list c' = lr_free_list c" "lr_map c' = lr_map c"
    "\<And>i. ln_key (lr_nodes c' ! i) = ln_key (lr_nodes c ! i)" "\<And>i. ln_value (lr_nodes c' ! i) = ln_value (lr_nodes c ! i)"
    using assms(2) by (simp_all add: same_data_def)
  then show "held c' = held c" by (simp add: held_def fun_eq_iff)
  show "lru_inv c' order'" using assms(1,3,4) unfolding lru_inv_def s by simp
qed

lemma lru_invD:
  assumes "lru_inv c order"
  shows "linked c order" "distinct (lr_free_list c)" "set (lr_free_list c) \<inter> set order = {}"
    "set (lr_free_list c) \<union> set order = {..<length (lr_nodes c)}"
    "i \<in> set order \<Longrightarrow> ln_value (lr_nodes c ! i) \<noteq> None"
    "lr_map c k = Some i \<longleftrightarrow> i \<in> set order \<and> ln_key (lr_nodes c ! i) = k"
  using assms unfolding lru_inv_def by blast+

lemma lru_inv_keys: "lru_inv c order \<Longrightarrow> i \<in> set order \<Longrightarrow> lr_map c (ln_key (lr_nodes c ! i)) = Some i"
  by (simp add: lru_inv_def)

lemma lru_inv_inj:
  assumes "lru_inv c order" "i \<in> set order" "j \<in> set order" "ln_key (lr_nodes c ! i) = ln_key (lr_nodes c ! j)"
  shows "i = j"
proof -
  have "lr_map c (ln_key (lr_nodes c ! i)) = Some j" unfolding assms(4) by (rule lru_inv_keys [OF assms(1,3)])
  then show ?thesis unfolding lru_inv_keys [OF assms(1,2)] by simp
qed

lemma without_held:
  assumes "lru_inv c order" "order = xs @ i # ys"
  shows "without (ln_key (lr_nodes c ! i)) (map (held c) order) = map (held c) (xs @ ys)"
proof -
  have "ln_key (lr_nodes c ! j) \<noteq> ln_key (lr_nodes c ! i)" if "j \<in> set (xs @ ys)" for j
  proof
    assume "ln_key (lr_nodes c ! j) = ln_key (lr_nodes c ! i)"
    then have "j = i" using lru_inv_inj [OF assms(1)] that assms(2) by simp
    then show False using assms that by (auto simp: lru_inv_def linked_def)
  qed
  then have "filter (\<lambda>j. ln_key (lr_nodes c ! j) \<noteq> ln_key (lr_nodes c ! i)) zs = zs" if "set zs \<subseteq> set (xs @ ys)" for zs
    using that by (intro filter_True) blast
  from this [of xs] this [of ys] show ?thesis by (simp add: without_def assms(2) filter_map comp_def held_def)
qed

lemma map_of_held:
  assumes "lru_inv c order" "lr_map c key = Some i"
  shows "map_of (map (held c) order) key = ln_value (lr_nodes c ! i)" "ln_value (lr_nodes c ! i) \<noteq> None"
proof -
  have i: "i \<in> set order" "ln_key (lr_nodes c ! i) = key" using assms by (auto simp: lru_inv_def)
  have "distinct (map fst (map (held c) order))"
  proof -
    have "inj_on (\<lambda>i. ln_key (lr_nodes c ! i)) (set order)"
      using lru_inv_inj [OF assms(1)] by (intro inj_onI) blast
    then show ?thesis using assms(1) by (simp add: comp_def held_def distinct_map lru_inv_def linked_def)
  qed
  moreover have "held c i \<in> set (map (held c) order)" using i by simp
  ultimately have "map_of (map (held c) order) key = Some (the (ln_value (lr_nodes c ! i)))"
    using i(2) by (simp add: held_def)
  moreover show "ln_value (lr_nodes c ! i) \<noteq> None" using assms(1) i(1) by (simp add: lru_inv_def)
  ultimately show "map_of (map (held c) order) key = ln_value (lr_nodes c ! i)" by simp
qed

lemma map_of_held_None:
  assumes "lru_inv c order" "lr_map c key = None"
  shows "map_of (map (held c) order) key = None" "without key (map (held c) order) = map (held c) order"
proof -
  have "ln_key (lr_nodes c ! i) \<noteq> key" if "i \<in> set order" for i using lru_inv_keys [OF assms(1) that] assms(2) by auto
  then show "map_of (map (held c) order) key = None" "without key (map (held c) order) = map (held c) order"
    by (force simp: map_of_eq_None_iff held_def without_def filter_id_conv)+
qed

section \<open>The operations\<close>

lemma move_to_head_holds:
  assumes "lru_inv c (xs @ i # ys)"
  shows "lru_inv (move_to_head i c) (i # xs @ ys) \<and> held (move_to_head i c) = held c"
proof (cases "lr_head c = Some i")
  case True
  have "xs = []"
  proof (cases xs)
    case (Cons x zs)
    then show ?thesis using assms True by (auto simp: lru_inv_def linked_def)
  qed simp
  then show ?thesis using assms True by (simp add: move_to_head_def)
next
  case False
  have l: "linked c (xs @ i # ys)" using assms by (simp add: lru_inv_def)
  have "i < length (lr_nodes c)" using assms unfolding lru_inv_def by auto
  then have "i < length (lr_nodes (remove_link i c))" using remove_link_data [of c i] by (simp add: same_data_def)
  moreover have "i \<notin> set (xs @ ys)" using l by (simp add: linked_def)
  ultimately have "linked (move_to_head i c) (i # xs @ ys)"
    using push_head_linked remove_link_linked [OF l] False by (simp add: move_to_head_def)
  moreover have "same_data c (move_to_head i c)"
    using same_data_trans [OF remove_link_data push_head_data] False by (simp add: move_to_head_def)
  ultimately show ?thesis using lru_inv_data [OF assms] by simp
qed

lemma remove_node_holds:
  assumes "lru_inv c (xs @ i # ys)" "key = ln_key (lr_nodes c ! i)"
    "c' = (remove_node i c)\<lparr>lr_map := (lr_map (remove_node i c))(key := None)\<rparr>"
  shows "lru_inv c' (xs @ ys)" "map (held c') (xs @ ys) = map (held c) (xs @ ys)"
    "lr_free_list c' = i # lr_free_list c" "length (lr_nodes c') = length (lr_nodes c)" "lr_max_entries c' = lr_max_entries c"
proof -
  let ?d = "remove_link i c"
  have l: "linked c (xs @ i # ys)" and inv: "lru_inv c (xs @ i # ys)" using assms(1) by (simp_all add: lru_inv_def)
  then have ni: "i \<notin> set (xs @ ys)" by (simp add: linked_def)
  have d: "length (lr_nodes ?d) = length (lr_nodes c)" "lr_free_list ?d = lr_free_list c" "lr_map ?d = lr_map c"
    "lr_max_entries ?d = lr_max_entries c"
    "\<And>j. ln_key (lr_nodes ?d ! j) = ln_key (lr_nodes c ! j)" "\<And>j. ln_value (lr_nodes ?d ! j) = ln_value (lr_nodes c ! j)"
    using remove_link_data [of c i] by (simp_all add: same_data_def)
  have c': "lr_nodes c' = (lr_nodes ?d)[i := (lr_nodes ?d ! i)\<lparr>ln_value := None\<rparr>]" "lr_free_list c' = i # lr_free_list c"
    "lr_map c' = (lr_map c)(key := None)" "lr_head c' = lr_head ?d" "lr_tail c' = lr_tail ?d" "lr_max_entries c' = lr_max_entries c"
    by (simp_all add: assms(3) remove_node_def Let_def set_node_def d)
  have "linked c' (xs @ ys)"
    using remove_link_linked [OF l] by (simp add: linked_def c' seg_values)
  moreover have "lr_map c' k = Some j \<longleftrightarrow> j \<in> set (xs @ ys) \<and> ln_key (lr_nodes c' ! j) = k" for k j
  proof -
    have kj: "ln_key (lr_nodes c' ! j) = ln_key (lr_nodes c ! j)" using d(5) [of j] by (auto simp: c' upd_nth)
    have i: "i \<in> set (xs @ i # ys)" by simp
    show ?thesis
    proof (cases "k = key")
      case True
      have "\<not> (j \<in> set (xs @ ys) \<and> ln_key (lr_nodes c ! j) = key)"
        using lru_inv_inj [OF inv _ i, of j] assms(2) ni by auto
      then show ?thesis using True kj by (simp add: c'(3))
    next
      case False
      then have "j \<noteq> i" if "ln_key (lr_nodes c ! j) = k" using that assms(2) by blast
      then have "lr_map c k = Some j \<longleftrightarrow> j \<in> set (xs @ ys) \<and> ln_key (lr_nodes c ! j) = k"
        unfolding lru_invD(6) [OF inv] by auto
      then show ?thesis using False kj by (simp add: c'(3))
    qed
  qed
  moreover have "ln_value (lr_nodes c' ! j) = ln_value (lr_nodes c ! j)" if "j \<in> set (xs @ ys)" for j
    using that ni by (auto simp: c' upd_nth d)
  moreover have "distinct (i # lr_free_list c)" "set (i # lr_free_list c) \<inter> set (xs @ ys) = {}"
      "set (i # lr_free_list c) \<union> set (xs @ ys) = {..<length (lr_nodes c)}"
    using lru_invD(2-4) [OF inv] ni by auto
  moreover have "length (lr_nodes c') = length (lr_nodes c)" by (simp add: c' d)
  moreover have "\<forall>j\<in>set (xs @ ys). ln_value (lr_nodes c' ! j) \<noteq> None"
    using lru_invD(5) [OF inv] calculation(3) by simp
  ultimately show "lru_inv c' (xs @ ys)"
    unfolding lru_inv_def c'(2) by (intro conjI allI) simp_all
  show "map (held c') (xs @ ys) = map (held c) (xs @ ys)"
    using ni by (auto simp: held_def c'(1) upd_nth d)
  show "lr_free_list c' = i # lr_free_list c" "length (lr_nodes c') = length (lr_nodes c)" "lr_max_entries c' = lr_max_entries c"
    by (simp_all add: c' d)
qed

lemma get_refines:
  assumes "lru_holds c xs"
  shows "fst (lru_get key now c) = fst (spec_get key now xs)" "lru_holds (snd (lru_get key now c)) (snd (spec_get key now xs))"
    "lr_max_entries (snd (lru_get key now c)) = lr_max_entries c"
proof -
  obtain order where inv: "lru_inv c order" and xs: "xs = map (held c) order" using assms by (auto simp: lru_holds_def)
  have "fst (lru_get key now c) = fst (spec_get key now xs) \<and> lru_holds (snd (lru_get key now c)) (snd (spec_get key now xs))
    \<and> lr_max_entries (snd (lru_get key now c)) = lr_max_entries c"
  proof (cases "lr_map c key")
    case None
    then show ?thesis using assms map_of_held_None [OF inv None] by (simp add: lru_get_def spec_get_def xs)
  next
    case (Some idx)
    then have "idx \<in> set order" and k: "ln_key (lr_nodes c ! idx) = key" using lru_invD(6) [OF inv] by auto
    then obtain l r where o1: "order = l @ idx # r" by (meson split_list)
    obtain e where e: "ln_value (lr_nodes c ! idx) = Some e" "map_of xs key = Some e"
      using map_of_held [OF inv Some] xs by auto
    have w: "without key xs = map (held c) (l @ r)" using without_held [OF inv o1] k xs by simp
    show ?thesis
    proof (cases "now < ce_expires_at e")
      case True
      note m = move_to_head_holds [OF inv [unfolded o1]]
      have "held (move_to_head idx c) idx = held c idx" using m by simp
      moreover have "ln_value (lr_nodes (move_to_head idx c) ! idx) \<noteq> None" using lru_invD(5) m by fastforce
      ultimately have "ln_value (lr_nodes (move_to_head idx c) ! idx) = Some e" using e by (auto simp: held_def)
      moreover have "held c idx = (key, e)" using k e by (simp add: held_def)
      then have "lru_holds (move_to_head idx c) ((key, e) # without key xs)" using m w by (auto simp: lru_holds_def)
      moreover have "lr_max_entries (move_to_head idx c) = lr_max_entries c"
        using push_head_data [of "remove_link idx c"] remove_link_data [of c] by (simp add: move_to_head_def same_data_def)
      ultimately show ?thesis using Some e True by (simp add: lru_get_def spec_get_def Let_def)
    next
      case False
      let ?c = "(remove_node idx c)\<lparr>lr_map := (lr_map (remove_node idx c))(key := None)\<rparr>"
      note n = remove_node_holds [OF inv [unfolded o1] k [symmetric] refl]
      have "lru_holds ?c (without key xs)" using n(1,2) w by (auto simp: lru_holds_def)
      then show ?thesis using Some e False n(5) by (simp add: lru_get_def spec_get_def Let_def)
    qed
  qed
  then show "fst (lru_get key now c) = fst (spec_get key now xs)" "lru_holds (snd (lru_get key now c)) (snd (spec_get key now xs))"
    "lr_max_entries (snd (lru_get key now c)) = lr_max_entries c" by auto
qed

text \<open>Room for one more: a free index or a node that may still be made.\<close>

definition has_room :: "lru \<Rightarrow> bool" where
  "has_room c \<longleftrightarrow> lr_free_list c \<noteq> [] \<or> length (lr_nodes c) < lr_max_entries c"

lemma take_index_room:
  assumes "lru_inv c order" "has_room c"
  obtains idx c1 where "take_index c = Some (idx, c1)" "idx \<notin> set order" "linked c1 order"
    "distinct (idx # lr_free_list c1)" "set (lr_free_list c1) \<inter> set order = {}"
    "set (lr_free_list c1) \<union> set (idx # order) = {..<length (lr_nodes c1)}"
    "\<And>j. j \<in> set order \<Longrightarrow> lr_nodes c1 ! j = lr_nodes c ! j" "lr_map c1 = lr_map c" "lr_max_entries c1 = lr_max_entries c"
proof (cases "lr_free_list c")
  case (Cons idx rest)
  let ?c1 = "c\<lparr>lr_free_list := rest\<rparr>"
  have "take_index c = Some (idx, ?c1)" using Cons by (simp add: take_index_def)
  moreover have "linked ?c1 order" using lru_invD(1) [OF assms(1)] by (simp add: linked_def)
  moreover have "idx \<notin> set order" "distinct (idx # lr_free_list ?c1)" "set (lr_free_list ?c1) \<inter> set order = {}"
      "set (lr_free_list ?c1) \<union> set (idx # order) = {..<length (lr_nodes ?c1)}"
    using lru_invD(2-4) [OF assms(1)] Cons by auto
  ultimately show ?thesis by (intro that [of idx ?c1]) simp_all
next
  case Nil
  let ?n = "length (lr_nodes c)"
  let ?c1 = "c\<lparr>lr_nodes := lr_nodes c @ [\<lparr>ln_key = 0, ln_value = None, ln_prev = None, ln_next = None\<rparr>]\<rparr>"
  have o1: "set order = {..<?n}" using lru_invD(4) [OF assms(1)] unfolding Nil by simp
  show ?thesis
  proof (rule that [of ?n ?c1])
    show "take_index c = Some (?n, ?c1)" using assms(2) Nil unfolding take_index_def has_room_def by simp
    show "linked ?c1 order" using lru_invD(1) [OF assms(1)] unfolding linked_def by (simp add: seg_more)
    show "set (lr_free_list ?c1) \<union> set (?n # order) = {..<length (lr_nodes ?c1)}" by (simp add: Nil o1 lessThan_Suc)
    show "lr_nodes ?c1 ! j = lr_nodes c ! j" if "j \<in> set order" for j using that o1 by (simp add: nth_append)
  qed (simp_all add: Nil o1)
qed

lemma insert_refines:
  assumes "lru_holds c xs" "map_of xs key \<noteq> None \<or> has_room c"
  shows "lru_holds (lru_insert key e c) (spec_insert key e xs)" "lr_max_entries (lru_insert key e c) = lr_max_entries c"
proof -
  obtain order where inv: "lru_inv c order" and xs: "xs = map (held c) order" using assms by (auto simp: lru_holds_def)
  have "lru_holds (lru_insert key e c) (spec_insert key e xs) \<and> lr_max_entries (lru_insert key e c) = lr_max_entries c"
  proof (cases "lr_map c key")
    case (Some idx)
    then have i: "idx \<in> set order" and k: "ln_key (lr_nodes c ! idx) = key" using lru_invD(6) [OF inv] by auto
    then obtain l r where o1: "order = l @ idx # r" by (meson split_list)
    let ?c = "set_node idx (\<lambda>n. n\<lparr>ln_value := Some e\<rparr>) c"
    have len: "idx < length (lr_nodes c)" using lru_invD(4) [OF inv] i by auto
    have key: "ln_key (lr_nodes ?c ! j) = ln_key (lr_nodes c ! j)" for j by (simp add: set_node_def upd_nth)
    have f: "lr_map ?c = lr_map c" "lr_free_list ?c = lr_free_list c" "length (lr_nodes ?c) = length (lr_nodes c)"
      by (simp_all add: set_node_def)
    have "linked ?c order" using lru_invD(1) [OF inv] by (intro linked_values) simp_all
    moreover have "\<forall>j\<in>set order. ln_value (lr_nodes ?c ! j) \<noteq> None"
      using lru_invD(5) [OF inv] by (simp add: set_node_def upd_nth)
    ultimately have inv': "lru_inv ?c order"
      using inv unfolding lru_inv_def key f by blast
    have "idx \<notin> set (l @ r)" using lru_invD(1) [OF inv] o1 by (simp add: linked_def)
    then have "map (held ?c) (l @ r) = map (held c) (l @ r)" by (auto simp: held_def set_node_def upd_nth)
    moreover have "held ?c idx = (key, e)" using k len by (simp add: held_def set_node_def upd_nth)
    moreover note m = move_to_head_holds [OF inv' [unfolded o1]]
    moreover have "without key xs = map (held c) (l @ r)" using without_held [OF inv o1] k xs by simp
    ultimately have "lru_holds (move_to_head idx ?c) (spec_insert key e xs)"
      unfolding lru_holds_def spec_insert_def by (intro exI [of _ "idx # l @ r"]) simp
    moreover have "lr_max_entries (move_to_head idx ?c) = lr_max_entries c"
      using push_head_data [of "remove_link idx ?c" idx] remove_link_data [of ?c idx]
      by (auto simp: move_to_head_def same_data_def set_node_def)
    ultimately show ?thesis using Some by (simp add: lru_insert_def)
  next
    case None
    then have "has_room c" "without key xs = xs" using assms(2) map_of_held_None [OF inv None] xs by auto
    then obtain idx c1 where t: "take_index c = Some (idx, c1)" "idx \<notin> set order" "linked c1 order"
        "distinct (idx # lr_free_list c1)" "set (lr_free_list c1) \<inter> set order = {}"
        "set (lr_free_list c1) \<union> set (idx # order) = {..<length (lr_nodes c1)}"
        "\<And>j. j \<in> set order \<Longrightarrow> lr_nodes c1 ! j = lr_nodes c ! j" "lr_map c1 = lr_map c" "lr_max_entries c1 = lr_max_entries c"
      using take_index_room [OF inv] by metis
    let ?c2 = "set_node idx (\<lambda>n. n\<lparr>ln_key := key, ln_value := Some e\<rparr>) c1"
    let ?c3 = "?c2\<lparr>lr_map := (lr_map ?c2)(key \<mapsto> idx)\<rparr>"
    let ?c4 = "push_head idx ?c3"
    have len: "idx < length (lr_nodes c1)" using t(6) by auto
    have "linked ?c3 order" using t(2,3) by (simp add: linked_def set_node_def seg_frame)
    then have l4: "linked ?c4 (idx # order)" using push_head_linked t(2) len by (simp add: set_node_def)
    have d: "length (lr_nodes ?c4) = length (lr_nodes c1)" "lr_free_list ?c4 = lr_free_list c1" "lr_map ?c4 = (lr_map c)(key \<mapsto> idx)"
        "lr_max_entries ?c4 = lr_max_entries c"
        "\<And>j. ln_key (lr_nodes ?c4 ! j) = ln_key (lr_nodes ?c2 ! j)" "\<And>j. ln_value (lr_nodes ?c4 ! j) = ln_value (lr_nodes ?c2 ! j)"
      using push_head_data [of ?c3 idx] by (simp_all add: same_data_def set_node_def t(8,9))
    have new: "ln_key (lr_nodes ?c4 ! idx) = key" "ln_value (lr_nodes ?c4 ! idx) = Some e"
      using len by (simp_all only: d) (simp_all add: set_node_def)
    have old: "ln_key (lr_nodes ?c4 ! j) = ln_key (lr_nodes c ! j) \<and> ln_value (lr_nodes ?c4 ! j) = ln_value (lr_nodes c ! j)"
      if "j \<in> set order" for j
      using t(2,7) that by (simp only: d) (auto simp: set_node_def upd_nth)
    have "lr_map ?c4 k = Some j \<longleftrightarrow> j \<in> set (idx # order) \<and> ln_key (lr_nodes ?c4 ! j) = k" for k j
    proof (cases "j = idx")
      case True
      moreover have "lr_map c k \<noteq> Some idx" using lru_invD(6) [OF inv] t(2) by simp
      ultimately show ?thesis using new(1) by (auto simp: d(3))
    next
      case False
      have "lr_map c k = Some j \<longleftrightarrow> j \<in> set order \<and> ln_key (lr_nodes c ! j) = k" by (rule lru_invD(6) [OF inv])
      moreover have "\<not> (j \<in> set order \<and> ln_key (lr_nodes c ! j) = key)"
        using lru_invD(6) [OF inv, of key j] None by simp
      ultimately show ?thesis using False old by (auto simp: d(3))
    qed
    moreover have "\<forall>j\<in>set (idx # order). ln_value (lr_nodes ?c4 ! j) \<noteq> None"
      using new(2) old lru_invD(5) [OF inv] by simp
    moreover have "set (lr_free_list c1) \<inter> set (idx # order) = {}" using t(4,5) by simp
    ultimately have inv4: "lru_inv ?c4 (idx # order)"
      unfolding lru_inv_def d(1,2) using l4 t(4,6) by (intro conjI allI) simp_all
    have "map (held ?c4) (idx # order) = (key, e) # map (held c) order"
      using new old by (simp add: held_def)
    then have "lru_holds ?c4 (spec_insert key e xs)"
      using inv4 \<open>without key xs = xs\<close> xs unfolding lru_holds_def spec_insert_def by metis
    then show ?thesis using None t(1) d(4) by (simp add: lru_insert_def Let_def)
  qed
  then show "lru_holds (lru_insert key e c) (spec_insert key e xs)" "lr_max_entries (lru_insert key e c) = lr_max_entries c" by auto
qed

section \<open>Runs\<close>

text \<open>The abstract cache of at most \<open>n\<close> entries drops the last one when it is full.\<close>

definition spec_put :: "nat \<Rightarrow> nat \<Rightarrow> cache_entry \<Rightarrow> (nat \<times> cache_entry) list \<Rightarrow> (nat \<times> cache_entry) list" where
  "spec_put n key entry xs = take n (spec_insert key entry xs)"

datatype cache_op = CacheGet nat int | CachePut nat cache_entry

text \<open>The answers of a run, and the cache after it.\<close>

fun lru_run :: "cache_op list \<Rightarrow> lru \<Rightarrow> cache_entry option list \<times> lru" where
  "lru_run [] c = ([], c)"
| "lru_run (CacheGet key now # ops) c =
     (let (r, c1) = lru_get key now c; (rs, c2) = lru_run ops c1 in (r # rs, c2))"
| "lru_run (CachePut key entry # ops) c = lru_run ops (lru_insert key entry c)"

fun spec_run :: "nat \<Rightarrow> cache_op list \<Rightarrow> (nat \<times> cache_entry) list \<Rightarrow> cache_entry option list \<times> (nat \<times> cache_entry) list" where
  "spec_run n [] xs = ([], xs)"
| "spec_run n (CacheGet key now # ops) xs =
     (let (r, ys) = spec_get key now xs; (rs, zs) = spec_run n ops ys in (r # rs, zs))"
| "spec_run n (CachePut key entry # ops) xs = spec_run n ops (spec_put n key entry xs)"

text \<open>No operation evicts an entry.\<close>

fun evicts_none :: "nat \<Rightarrow> cache_op list \<Rightarrow> (nat \<times> cache_entry) list \<Rightarrow> bool" where
  "evicts_none n [] xs = True"
| "evicts_none n (CacheGet key now # ops) xs = evicts_none n ops (snd (spec_get key now xs))"
| "evicts_none n (CachePut key entry # ops) xs =
     ((map_of xs key \<noteq> None \<or> length xs < n) \<and> evicts_none n ops (spec_put n key entry xs))"

text \<open>The entries along the links: from the head, and from the tail.\<close>

fun follow :: "(lru_node \<Rightarrow> nat option) \<Rightarrow> lru_node list \<Rightarrow> nat \<Rightarrow> nat option \<Rightarrow> (nat \<times> cache_entry option) list" where
  "follow link ns 0 i = []"
| "follow link ns (Suc n) None = []"
| "follow link ns (Suc n) (Some i) = (ln_key (ns ! i), ln_value (ns ! i)) # follow link ns n (link (ns ! i))"

definition newest_first :: "lru \<Rightarrow> (nat \<times> cache_entry option) list" where
  "newest_first c = follow ln_next (lr_nodes c) (length (lr_nodes c)) (lr_head c)"

definition oldest_first :: "lru \<Rightarrow> (nat \<times> cache_entry option) list" where
  "oldest_first c = follow ln_prev (lr_nodes c) (length (lr_nodes c)) (lr_tail c)"

lemma follow_next: "seg ns p xs None \<Longrightarrow> length xs \<le> n \<Longrightarrow>
    follow ln_next ns n (first_or xs None) = map (\<lambda>i. (ln_key (ns ! i), ln_value (ns ! i))) xs"
proof (induction xs arbitrary: p n)
  case Nil
  then show ?case by (cases n) simp_all
next
  case (Cons i xs)
  then show ?case by (cases n) auto
qed

lemma follow_prev: "seg ns None xs e \<Longrightarrow> length xs \<le> n \<Longrightarrow>
    follow ln_prev ns n (last_or xs None) = map (\<lambda>i. (ln_key (ns ! i), ln_value (ns ! i))) (rev xs)"
proof (induction xs arbitrary: e n rule: rev_induct)
  case Nil
  then show ?case by (cases n) simp_all
next
  case (snoc i xs)
  then show ?case by (cases n) (auto simp: seg_append)
qed

lemma linked_follow:
  assumes "linked c order"
  shows "newest_first c = map (\<lambda>i. (ln_key (lr_nodes c ! i), ln_value (lr_nodes c ! i))) order"
    "oldest_first c = rev (newest_first c)"
proof -
  have "seg (lr_nodes c) None order None" "distinct order" using assms by (simp_all add: linked_def)
  moreover from this have "length order \<le> length (lr_nodes c)"
    using seg_bound card_mono [of "{..<length (lr_nodes c)}" "set order"] by (force simp: distinct_card)
  ultimately show "newest_first c = map (\<lambda>i. (ln_key (lr_nodes c ! i), ln_value (lr_nodes c ! i))) order"
    "oldest_first c = rev (newest_first c)"
    using assms follow_next follow_prev by (auto simp: newest_first_def oldest_first_def linked_def rev_map)
qed

lemma holds_follow:
  assumes "lru_holds c xs"
  shows "newest_first c = map (\<lambda>(k, e). (k, Some e)) xs" "oldest_first c = rev (newest_first c)"
proof -
  obtain order where inv: "lru_inv c order" and xs: "xs = map (held c) order" using assms by (auto simp: lru_holds_def)
  note l = linked_follow [OF lru_invD(1) [OF inv]]
  show "oldest_first c = rev (newest_first c)" by (rule l(2))
  show "newest_first c = map (\<lambda>(k, e). (k, Some e)) xs"
    using lru_invD(5) [OF inv] by (auto simp: l(1) xs held_def)
qed

lemma new_holds: "lru_holds (lru_new n) []"
  unfolding lru_holds_def by (intro exI [of _ "[]"]) (simp add: lru_inv_def linked_def lru_new_def)

text \<open>The nodes stay within the bound, so a list shorter than the bound has room and a full one has none.\<close>

lemma take_index_nodes:
  "take_index c = Some (i, c1) \<Longrightarrow> length (lr_nodes c) \<le> lr_max_entries c \<Longrightarrow> length (lr_nodes c1) \<le> lr_max_entries c"
  using remove_link_data
  by (auto simp: take_index_def remove_node_def Let_def set_node_def same_data_def split: list.splits if_splits option.splits)

lemma nodes_bounded:
  assumes "length (lr_nodes c) \<le> lr_max_entries c"
  shows "length (lr_nodes (snd (lru_get key now c))) \<le> lr_max_entries c" "length (lr_nodes (lru_insert key e c)) \<le> lr_max_entries c"
proof -
  have r: "length (lr_nodes (remove_link i d)) = length (lr_nodes d)" and p: "length (lr_nodes (push_head i d)) = length (lr_nodes d)"
    for i d using remove_link_data [of d i] push_head_data [of d i] by (simp_all add: same_data_def)
  show "length (lr_nodes (snd (lru_get key now c))) \<le> lr_max_entries c"
    using assms by (auto simp: lru_get_def Let_def move_to_head_def remove_node_def set_node_def r p split: option.split)
  show "length (lr_nodes (lru_insert key e c)) \<le> lr_max_entries c"
    using assms take_index_nodes [OF _ assms]
    by (auto simp: lru_insert_def Let_def move_to_head_def set_node_def r p split: option.split)
qed

lemma room_by_length:
  assumes "lru_holds c xs" "length (lr_nodes c) \<le> lr_max_entries c"
  shows "has_room c \<longleftrightarrow> length xs < lr_max_entries c" "length xs \<le> lr_max_entries c"
proof -
  obtain order where inv: "lru_inv c order" and xs: "xs = map (held c) order" using assms(1) by (auto simp: lru_holds_def)
  have d: "distinct (lr_free_list c @ order)" "set (lr_free_list c @ order) = {..<length (lr_nodes c)}"
    using lru_invD [OF inv] by (auto simp: linked_def)
  have "length (lr_free_list c) + length order = length (lr_nodes c)"
    using distinct_card [OF d(1)] unfolding d(2) by simp
  then show "has_room c \<longleftrightarrow> length xs < lr_max_entries c" "length xs \<le> lr_max_entries c"
    using assms(2) by (cases "lr_free_list c"; auto simp: has_room_def xs)+
qed

lemma spec_get_length: "length (snd (spec_get key now xs)) \<le> length xs"
proof -
  have "length (without key xs) < length xs" if "map_of xs key = Some e" for e
    using map_of_SomeD [OF that] by (force simp: without_def intro: length_filter_less)
  then show ?thesis by (fastforce simp: spec_get_def split: option.split)
qed

lemma spec_put_fits:
  assumes "map_of xs key \<noteq> None \<or> length xs < n" "length xs \<le> n"
  shows "spec_put n key e xs = spec_insert key e xs" "length (spec_insert key e xs) \<le> n"
proof -
  have "length (without key xs) < length xs" if "map_of xs key = Some y" for y
    using map_of_SomeD [OF that] by (force simp: without_def intro: length_filter_less)
  moreover have "length (without key xs) \<le> length xs" by (simp add: without_def)
  ultimately show "length (spec_insert key e xs) \<le> n" using assms by (fastforce simp: spec_insert_def)
  then show "spec_put n key e xs = spec_insert key e xs" by (simp add: spec_put_def)
qed

lemma run_refines:
  assumes "lru_holds c xs" "lr_max_entries c = n" "length (lr_nodes c) \<le> n" "evicts_none n ops xs"
  shows "fst (lru_run ops c) = fst (spec_run n ops xs) \<and> lru_holds (snd (lru_run ops c)) (snd (spec_run n ops xs))
    \<and> lr_max_entries (snd (lru_run ops c)) = n \<and> length (lr_nodes (snd (lru_run ops c))) \<le> n"
  using assms
proof (induction ops arbitrary: c xs)
  case (Cons op ops)
  show ?case
  proof (cases op)
    case (CacheGet key now)
    note g = get_refines [OF Cons.prems(1), of key now]
    have "length (lr_nodes (snd (lru_get key now c))) \<le> n" using nodes_bounded(1) Cons.prems(2,3) by metis
    then show ?thesis
      using Cons.IH [OF g(2)] g(1,3) Cons.prems(2,4) CacheGet by (simp add: case_prod_beta Let_def)
  next
    case (CachePut key entry)
    have fit: "map_of xs key \<noteq> None \<or> length xs < n" using Cons.prems(4) CachePut by simp
    have "has_room c \<longleftrightarrow> length xs < n" "length xs \<le> n" using room_by_length [OF Cons.prems(1)] Cons.prems(2,3) by simp_all
    then have i: "map_of xs key \<noteq> None \<or> has_room c" "spec_put n key entry xs = spec_insert key entry xs"
      using fit spec_put_fits(1) [OF fit] by auto
    have "length (lr_nodes (lru_insert key entry c)) \<le> n" using nodes_bounded(2) Cons.prems(2,3) by metis
    then show ?thesis
      using Cons.IH [OF insert_refines(1) [OF Cons.prems(1) i(1)]] insert_refines(2) [OF Cons.prems(1) i(1)] Cons.prems(2,4) CachePut
      by (simp add: i(2))
  qed
qed simp

text \<open>A full cache drops its last entry for a new one.\<close>

lemma evicting_links:
  assumes "lru_inv c (xs @ [t])" "\<not> has_room c" "lr_map c key = None"
  shows "linked (lru_insert key e c) (t # xs)" "lr_free_list (lru_insert key e c) = [t]"
    "lr_map (lru_insert key e c) = (lr_map c)(ln_key (lr_nodes c ! t) := None, key \<mapsto> t)"
    "ln_key (lr_nodes (lru_insert key e c) ! t) = key" "ln_value (lr_nodes (lru_insert key e c) ! t) = Some e"
    "\<And>j. j \<in> set xs \<Longrightarrow> ln_key (lr_nodes (lru_insert key e c) ! j) = ln_key (lr_nodes c ! j)
      \<and> ln_value (lr_nodes (lru_insert key e c) ! j) = ln_value (lr_nodes c ! j)"
    "t < length (lr_nodes (lru_insert key e c))"
proof -
  have tail: "lr_tail c = Some t" using lru_invD(1) [OF assms(1)] by (simp add: linked_def last_or_def)
  let ?c1 = "(remove_node t c)\<lparr>lr_map := (lr_map (remove_node t c))(ln_key (lr_nodes c ! t) := None)\<rparr>"
  note n = remove_node_holds [of c xs t "[]", OF assms(1) refl refl]
  have t: "t \<notin> set xs" "t < length (lr_nodes c)"
    using lru_invD(1,4) [OF assms(1)] by (auto simp: linked_def)
  have take1: "take_index c = Some (t, ?c1)" using assms(2) tail by (simp add: take_index_def has_room_def Let_def)
  let ?c2 = "set_node t (\<lambda>n. n\<lparr>ln_key := key, ln_value := Some e\<rparr>) ?c1"
  let ?c3 = "?c2\<lparr>lr_map := (lr_map ?c2)(key \<mapsto> t)\<rparr>"
  have ins: "lru_insert key e c = push_head t ?c3" using assms(3) take1 by (simp add: lru_insert_def Let_def)
  have "lr_map (remove_node t c) = lr_map c"
    using remove_link_data [of c t] by (simp add: remove_node_def Let_def set_node_def same_data_def)
  then have m: "lr_map ?c1 = (lr_map c)(ln_key (lr_nodes c ! t) := None)" by simp
  have d: "lr_free_list (push_head t ?c3) = lr_free_list ?c1" "lr_map (push_head t ?c3) = (lr_map ?c1)(key \<mapsto> t)"
      "length (lr_nodes (push_head t ?c3)) = length (lr_nodes ?c1)"
      "\<And>j. ln_key (lr_nodes (push_head t ?c3) ! j) = ln_key (lr_nodes ?c2 ! j)"
      "\<And>j. ln_value (lr_nodes (push_head t ?c3) ! j) = ln_value (lr_nodes ?c2 ! j)"
    using push_head_data [of ?c3 t] by (simp_all add: same_data_def set_node_def)
  have len: "t < length (lr_nodes ?c1)" using t(2) n(4) by simp
  have "linked ?c3 xs" using lru_invD(1) [OF n(1)] t(1) by (simp add: linked_def set_node_def seg_frame)
  then show "linked (lru_insert key e c) (t # xs)"
    unfolding ins using push_head_linked t(1) len by (simp add: set_node_def)
  show "lr_free_list (lru_insert key e c) = [t]" unfolding ins d using n(3) assms(2) by (simp add: has_room_def)
  show "lr_map (lru_insert key e c) = (lr_map c)(ln_key (lr_nodes c ! t) := None, key \<mapsto> t)" unfolding ins d m ..
  show "ln_key (lr_nodes (lru_insert key e c) ! t) = key" "ln_value (lr_nodes (lru_insert key e c) ! t) = Some e"
    unfolding ins d(4,5) using len by (simp_all add: set_node_def)
  show "t < length (lr_nodes (lru_insert key e c))" unfolding ins d using len .
  have keep: "lr_nodes ?c1 ! j = lr_nodes (remove_link t c) ! j" if "j \<noteq> t" for j
    using that by (simp add: remove_node_def Let_def set_node_def)
  show "ln_key (lr_nodes (lru_insert key e c) ! j) = ln_key (lr_nodes c ! j)
      \<and> ln_value (lr_nodes (lru_insert key e c) ! j) = ln_value (lr_nodes c ! j)" if "j \<in> set xs" for j
  proof -
    have "j \<noteq> t" using that t(1) by blast
    then show ?thesis
      unfolding ins d(4,5) using keep remove_link_data [of c t] by (simp add: set_node_def same_data_def)
  qed
qed

lemma put_lists:
  assumes "lru_holds c xs" "lr_max_entries c = n" "length (lr_nodes c) \<le> n"
  shows "newest_first (lru_insert key e c) = map (\<lambda>(k, e). (k, Some e)) (spec_put n key e xs)
    \<and> oldest_first (lru_insert key e c) = rev (newest_first (lru_insert key e c))"
proof (cases "map_of xs key \<noteq> None \<or> length xs < n")
  case True
  have "has_room c \<longleftrightarrow> length xs < n" "length xs \<le> n" using room_by_length [OF assms(1)] assms(2,3) by simp_all
  then show ?thesis
    using holds_follow [OF insert_refines(1) [OF assms(1), of key e]] spec_put_fits(1) [OF True] True by simp
next
  case False
  obtain order where inv: "lru_inv c order" and xs: "xs = map (held c) order" using assms(1) by (auto simp: lru_holds_def)
  have full: "\<not> has_room c" "length xs = n" using room_by_length [OF assms(1)] assms(2,3) False by simp_all
  have none: "lr_map c key = None"
    using False map_of_held [OF inv, of key] xs by (cases "lr_map c key") auto
  have w: "without key xs = xs" using map_of_held_None(2) [OF inv none] xs by simp
  show ?thesis
  proof (cases order rule: rev_cases)
    case Nil
    then have "take_index c = None" using full lru_invD(1) [OF inv] by (auto simp: take_index_def has_room_def linked_def split: list.split)
    then have "lru_insert key e c = c" using none by (simp add: lru_insert_def)
    then show ?thesis using Nil xs full holds_follow [OF assms(1)] by (simp add: spec_put_def)
  next
    case (snoc ys t)
    note ev = evicting_links [OF inv [unfolded snoc] full(1) none, where e = e]
    have "n = Suc (length ys)" using full(2) xs snoc by simp
    then have "spec_put n key e xs = (key, e) # map (held c) ys"
      using xs w by (simp add: spec_put_def spec_insert_def snoc)
    moreover have "ln_value (lr_nodes c ! j) \<noteq> None" if "j \<in> set ys" for j using lru_invD(5) [OF inv] that snoc by simp
    ultimately show ?thesis
      using linked_follow [OF ev(1)] ev(4-6) by (auto simp: held_def)
  qed
qed

text \<open>C31: Through any run of reads and writes that evicts nothing the native response cache gives the answers of an
  abstract cache, a list of at most \<open>max_entries\<close> entries with the most recently used one first.  Afterwards the
  links read from the head give exactly this list, and read from the tail its reverse; and one more write, be it
  to a full cache, leaves the list with the new entry in front, cut to \<open>max_entries\<close>: what is evicted is the entry
  used longest ago.\<close>

theorem route_cache_refines_list:
  assumes "evicts_none max_entries ops []"
  shows "let (answers, c) = lru_run ops (lru_new max_entries); (expected, xs) = spec_run max_entries ops [] in
    answers = expected
    \<and> newest_first c = map (\<lambda>(k, e). (k, Some e)) xs \<and> oldest_first c = rev (newest_first c)
    \<and> newest_first (lru_insert key entry c) = map (\<lambda>(k, e). (k, Some e)) (spec_put max_entries key entry xs)
    \<and> oldest_first (lru_insert key entry c) = rev (newest_first (lru_insert key entry c))"
proof -
  have new: "lr_max_entries (lru_new max_entries) = max_entries" "length (lr_nodes (lru_new max_entries)) \<le> max_entries"
    by (simp_all add: lru_new_def)
  let ?c = "snd (lru_run ops (lru_new max_entries))" and ?xs = "snd (spec_run max_entries ops [])"
  have r: "fst (lru_run ops (lru_new max_entries)) = fst (spec_run max_entries ops [])" "lru_holds ?c ?xs"
      "lr_max_entries ?c = max_entries" "length (lr_nodes ?c) \<le> max_entries"
    using run_refines [OF new_holds new assms] by blast+
  show ?thesis
    using r(1) holds_follow [OF r(2)] put_lists [OF r(2-4)] by (simp add: case_prod_beta Let_def)
qed

definition sample_entry :: "byte \<Rightarrow> cache_entry" where
  "sample_entry b = \<lparr>ce_response_bytes = [b], ce_response_bytes_close = [b], ce_expires_at = 10\<rparr>"

theorem route_cache_refines_list_witness:
  "newest_first (snd (lru_run [CachePut 1 (sample_entry 1), CachePut 2 (sample_entry 2), CacheGet 1 5] (lru_new 2)))
      = [(1, Some (sample_entry 1)), (2, Some (sample_entry 2))]
    \<and> newest_first (lru_insert 3 (sample_entry 3)
        (snd (lru_run [CachePut 1 (sample_entry 1), CachePut 2 (sample_entry 2), CacheGet 1 5] (lru_new 2))))
      = [(3, Some (sample_entry 3)), (1, Some (sample_entry 1))]"
proof -
  let ?ops = "[CachePut 1 (sample_entry 1), CachePut 2 (sample_entry 2), CacheGet 1 5]"
  have x: "snd (spec_run 2 ?ops []) = [(1, sample_entry 1), (2, sample_entry 2)]"
    by (simp add: spec_put_def spec_get_def spec_insert_def without_def sample_entry_def)
  have "evicts_none 2 ?ops []" by (simp add: spec_put_def spec_insert_def without_def)
  from route_cache_refines_list [OF this, of 3 "sample_entry 3"] show ?thesis
    unfolding case_prod_beta Let_def x by (simp add: spec_put_def spec_insert_def without_def)
qed

section \<open>Eviction\<close>

text \<open>The entry that is evicted leaves its index on the free list, although it is used again at once.  So the next new
  key takes the same node, while the map still leads the key before it there.\<close>

lemma head_after_push [simp]: "lr_head (push_head i c) = Some i"
  by (simp add: push_head_def Let_def)

lemma eviction_frees_used_index:
  assumes "lru_inv c order" "lr_free_list c = []" "\<not> has_room c" "order \<noteq> []" "lr_map c key = None" "t = last order"
  shows "lr_free_list (lru_insert key e c) = [t]" "lr_map (lru_insert key e c) key = Some t"
    "t < length (lr_nodes (lru_insert key e c))" "\<And>k. lr_map c k = None \<Longrightarrow> k \<noteq> key \<Longrightarrow> lr_map (lru_insert key e c) k = None"
proof -
  obtain xs where o1: "order = xs @ [t]" using assms(4,6) by (metis append_butlast_last_id)
  note ev = evicting_links [OF assms(1) [unfolded o1] assms(3,5), where e = e]
  show "lr_free_list (lru_insert key e c) = [t]" "lr_map (lru_insert key e c) key = Some t"
      "t < length (lr_nodes (lru_insert key e c))" "\<And>k. lr_map c k = None \<Longrightarrow> k \<noteq> key \<Longrightarrow> lr_map (lru_insert key e c) k = None"
    by (simp_all add: ev(2,3,7))
qed

text \<open>Eviction breaks the cache: when a full cache takes two new keys one after the other, asking for the first
  answers with the entry stored for the second, that is with the response to another request.\<close>

theorem eviction_answers_for_another_key:
  assumes "lru_inv c order" "order \<noteq> []" "\<not> has_room c" "lr_map c a = None" "lr_map c b = None" "a \<noteq> b"
    "now < ce_expires_at eb"
  shows "fst (lru_get a now (lru_insert b eb (lru_insert a ea c))) = Some eb"
proof -
  let ?t = "last order" and ?c = "lru_insert a ea c"
  have "lr_free_list c = []" using assms(3) by (simp add: has_room_def)
  note ev = eviction_frees_used_index [OF assms(1) this assms(3,2,4) refl, where e = ea]
  have mb: "lr_map ?c b = None" using ev(4) assms(5,6) by simp
  let ?c1 = "?c\<lparr>lr_free_list := []\<rparr>"
  let ?c2 = "set_node ?t (\<lambda>n. n\<lparr>ln_key := b, ln_value := Some eb\<rparr>) ?c1"
  let ?c3 = "?c2\<lparr>lr_map := (lr_map ?c2)(b \<mapsto> ?t)\<rparr>"
  have ins: "lru_insert b eb ?c = push_head ?t ?c3" using ev(1) mb by (simp add: lru_insert_def take_index_def Let_def)
  have d: "lr_map (push_head ?t ?c3) = (lr_map ?c)(b \<mapsto> ?t)" "ln_value (lr_nodes (push_head ?t ?c3) ! ?t) = Some eb"
    using push_head_data [of ?c3 ?t] ev(3) by (simp_all add: same_data_def set_node_def)
  show ?thesis
    unfolding ins using ev(2) assms(6,7) d by (simp add: lru_get_def Let_def move_to_head_def)
qed

lemma full_cache: "lru_inv (lru_insert 1 (sample_entry 1) (lru_new 1)) [0] \<and> \<not> has_room (lru_insert 1 (sample_entry 1) (lru_new 1))"
  by (auto simp: lru_insert_def lru_new_def take_index_def push_head_def set_node_def lru_inv_def linked_def has_room_def Let_def)

theorem eviction_answers_for_another_key_witness:
  "fst (lru_get 2 5 (lru_insert 3 (sample_entry 3) (lru_insert 2 (sample_entry 2) (lru_insert 1 (sample_entry 1) (lru_new 1)))))
     = Some (sample_entry 3)"
  using full_cache
  by (intro eviction_answers_for_another_key [of _ "[0]"])
    (auto simp: sample_entry_def lru_insert_def lru_new_def take_index_def push_head_def set_node_def Let_def)

section \<open>Namespaces\<close>

text \<open>A response stored for a route is found again as long as it has not expired and the generation is the same.\<close>

lemma stored_response_is_found:
  assumes "rcs_seen_generation r = generation" "rcs_caches r namespace = None" "now < ce_expires_at e"
  shows "fst (get_cached_response generation namespaces namespace key keep_alive now
      (insert_cached_response generation namespaces namespace key e max_entries r))
    = Some (if keep_alive then ce_response_bytes e else ce_response_bytes_close e)"
proof -
  let ?n = "(lru_new max_entries)\<lparr>lr_max_entries := max max_entries 1\<rparr>"
  have "?n = lru_new (max max_entries 1)" by (simp add: lru_new_def)
  then have "lru_holds ?n []" "has_room ?n" by (simp_all add: new_holds) (simp add: lru_new_def has_room_def)
  note i = insert_refines(1) [OF this(1) disjI2 [OF this(2)], of key e]
  have "fst (lru_get key now (lru_insert key e ?n)) = Some e"
    using get_refines(1) [OF i, of key now] assms(3) by (simp add: spec_insert_def spec_get_def)
  then show ?thesis
    using assms(1,2) by (simp add: get_cached_response_def insert_cached_response_def sync_route_caches_def Let_def case_prod_beta)
qed

end
