(* ===== verification/Router.thy ===== *)
theory Router
  imports Paths
begin

text \<open>
  The router of the native layer, \<open>rsrc/src/router.rs\<close>: tables of exact and static routes, and per method a tree
  over the segments of paths with parameters.  What \<open>analyzer.rs\<close> makes of the source of a handler, a finished
  response or a template, is a parameter; of an exact static route only what its bytes are built from is kept, and
  a cache namespace before it is hashed.
\<close>

section \<open>Input\<close>

datatype path_segment = StaticSegment string | ParamSegment

record cache_input =
  ci_ttl_secs :: int
  ci_max_entries :: int
  ci_vary_by :: "(string \<times> string) list"

record static_input =
  si_status :: int
  si_headers :: "(string \<times> string) list"
  si_body :: string

record route_input =
  ri_method :: string
  ri_method_code :: nat
  ri_path :: string
  ri_route_kind :: nat
  ri_handler_id :: nat
  ri_cache_namespace :: string
  ri_handler_source :: string
  ri_param_names :: "string list"
  ri_header_keys :: "string list"
  ri_full_headers :: bool
  ri_needs_path :: bool
  ri_needs_url :: bool
  ri_needs_query :: bool
  ri_cache :: "cache_input option"
  ri_static_response :: "static_input option"
  ri_max_body_bytes :: "nat option"

record manifest_input =
  mi_middlewares :: "string list"
  mi_routes :: "route_input list"
  mi_ws_routes :: "(string \<times> nat) list"

definition ROUTE_KIND_EXACT :: nat where "ROUTE_KIND_EXACT = 1"
definition ROUTE_KIND_PARAM :: nat where "ROUTE_KIND_PARAM = 2"
definition MAX_STACK_SEGMENTS :: nat where "MAX_STACK_SEGMENTS = 16"

section \<open>Paths\<close>

definition trim_start_slashes :: "string \<Rightarrow> string" where
  "trim_start_slashes s = dropWhile (\<lambda>c. c = CHR ''/'') s"

definition nonempty_segments :: "string \<Rightarrow> string list" where
  "nonempty_segments s = filter (\<lambda>p. p \<noteq> []) (split_on (CHR ''/'') (trim_start_slashes s))"

definition normalize_path :: "string \<Rightarrow> string" where
  "normalize_path path =
     (if path = ''/'' then ''/''
      else let trimmed = strip_slashes path in if startsWith trimmed ''/'' then trimmed else CHR ''/'' # trimmed)"

definition parse_segments :: "string \<Rightarrow> path_segment list" where
  "parse_segments path =
     (if path = ''/'' then []
      else map (\<lambda>s. if startsWith s '':'' then ParamSegment else StaticSegment s) (nonempty_segments (normalize_path path)))"

definition split_request_segments :: "string \<Rightarrow> string list" where
  "split_request_segments path = (if path = ''/'' then [] else nonempty_segments path)"

text \<open>Into a buffer of \<open>n\<close> segments: how many there are, and the buffer as far as it is written.  One too many is
  only counted.\<close>

fun fill_segments :: "nat \<Rightarrow> string list \<Rightarrow> string list \<Rightarrow> nat \<times> string list" where
  "fill_segments n [] buf = (length buf, buf)"
| "fill_segments n (s # ss) buf =
     (if s = [] then fill_segments n ss buf
      else if length buf \<ge> n then (length buf + 1, buf)
      else fill_segments n ss (buf @ [s]))"

definition split_segments_stack :: "nat \<Rightarrow> string \<Rightarrow> nat \<times> string list" where
  "split_segments_stack n path =
     (if path = ''/'' then (0, []) else fill_segments n (split_on (CHR ''/'') (trim_start_slashes path)) [])"

text \<open>\<open>normalize_runtime_path\<close> of \<open>lib.rs\<close>, which the path of a request goes through first.\<close>

definition normalize_runtime_path :: "string \<Rightarrow> string" where
  "normalize_runtime_path path =
     (if path = ''/'' \<or> \<not> endsWith path ''/'' then path
      else
        let trimmed = strip_slashes path in
        if trimmed = [] then ''/'' else if startsWith trimmed ''/'' then trimmed else CHR ''/'' # trimmed)"

section \<open>The tree\<close>

datatype 's radix_node = RadixNode (children: "(string \<times> 's radix_node) list") (handler: "'s option")
  (param_child: "'s radix_node option")

definition radix_new :: "'s radix_node" where "radix_new = RadixNode [] None None"

text \<open>The first child with the segment is changed, or a new one is made at the end.\<close>

fun at_child :: "string \<Rightarrow> ('s radix_node \<Rightarrow> 's radix_node) \<Rightarrow> (string \<times> 's radix_node) list \<Rightarrow> (string \<times> 's radix_node) list" where
  "at_child v f [] = [(v, f radix_new)]"
| "at_child v f ((s, n) # cs) = (if s = v then (s, f n) # cs else (s, n) # at_child v f cs)"

fun radix_insert :: "path_segment list \<Rightarrow> 's \<Rightarrow> 's radix_node \<Rightarrow> 's radix_node" where
  "radix_insert [] spec n = RadixNode (children n) (Some spec) (param_child n)"
| "radix_insert (StaticSegment v # rest) spec n =
     RadixNode (at_child v (radix_insert rest spec) (children n)) (handler n) (param_child n)"
| "radix_insert (ParamSegment # rest) spec n =
     RadixNode (children n) (handler n)
       (Some (radix_insert rest spec (case param_child n of Some c \<Rightarrow> c | None \<Rightarrow> radix_new)))"

text \<open>Matching fills \<open>param_values\<close>, which holds 16 values: \<open>None\<close> is the panic of a push beyond.\<close>

fun try_children ::
  "(string list \<Rightarrow> 's radix_node \<Rightarrow> ('s option \<times> string list) option) \<Rightarrow> string \<Rightarrow> (string \<times> 's radix_node) list
    \<Rightarrow> string list \<Rightarrow> ('s option \<times> string list) option" where
  "try_children f segment [] vs = Some (None, vs)"
| "try_children f segment ((s, c) # cs) vs =
     (if s = segment
      then (case f vs c of
              Some (None, vs') \<Rightarrow> try_children f segment cs vs'
            | r \<Rightarrow> r)
      else try_children f segment cs vs)"

fun match_path :: "string list \<Rightarrow> string list \<Rightarrow> 's radix_node \<Rightarrow> ('s option \<times> string list) option" where
  "match_path [] vs n = Some (handler n, vs)"
| "match_path (segment # rest) vs n =
     (case try_children (match_path rest) segment (children n) vs of
        Some (None, vs1) \<Rightarrow>
          (case param_child n of
             None \<Rightarrow> Some (None, vs1)
           | Some c \<Rightarrow>
               if length vs1 \<ge> MAX_STACK_SEGMENTS then None
               else
                 (case match_path rest (vs1 @ [segment]) c of
                    Some (None, vs2) \<Rightarrow> Some (None, take (length vs1) vs2)
                  | r \<Rightarrow> r))
      | r \<Rightarrow> r)"

section \<open>The router\<close>

datatype method_key = MDelete | MGet | MHead | MOptions | MPatch | MPost | MPut

definition method_from_str :: "string \<Rightarrow> method_key option" where
  "method_from_str m = map_of [(''DELETE'', MDelete), (''GET'', MGet), (''HEAD'', MHead), (''OPTIONS'', MOptions),
     (''PATCH'', MPatch), (''POST'', MPost), (''PUT'', MPut)] m"

definition method_from_code :: "nat \<Rightarrow> method_key option" where
  "method_from_code code = map_of [(1, MGet), (2, MPost), (3, MPut), (4, MDelete), (5, MPatch), (6, MOptions), (7, MHead)] code"

datatype vary_key = QueryParam string | PathParam string | HeaderKey string

record cache_config =
  cc_ttl_secs :: int
  cc_max_entries :: int
  cc_vary_keys :: "vary_key list"

record 'f dynamic_spec =
  ds_handler_id :: nat
  ds_cache_namespace :: string
  ds_param_names :: "string list"
  ds_header_keys :: "string list"
  ds_full_headers :: bool
  ds_needs_path :: bool
  ds_needs_url :: bool
  ds_needs_query :: bool
  ds_fast_path :: "'f option"
  ds_cache_config :: "cache_config option"
  ds_max_body_bytes :: "nat option"

text \<open>\<open>analyze_route\<close> and \<open>analyze_dynamic_fast_path\<close>.\<close>

record ('e, 'f) analyzer =
  ay_static :: "route_input \<Rightarrow> string list \<Rightarrow> 'e option"
  ay_dynamic :: "route_input \<Rightarrow> string list \<Rightarrow> 'f option"

datatype 'e exact_static = Declared static_input | Analysed 'e

record ('e, 'f) router =
  rt_exact_get_root :: "'e exact_static option"
  rt_dynamic_exact_routes :: "method_key \<Rightarrow> string \<Rightarrow> 'f dynamic_spec option"
  rt_exact_static_routes :: "method_key \<Rightarrow> string \<Rightarrow> 'e exact_static option"
  rt_radix_trees :: "method_key \<Rightarrow> 'f dynamic_spec radix_node option"
  rt_ws_routes :: "string \<Rightarrow> nat option"

definition vary_key :: "string \<times> string \<Rightarrow> vary_key" where
  "vary_key v =
     (if fst v = ''query'' then QueryParam (snd v) else if fst v = ''params'' then PathParam (snd v)
      else if fst v = ''headers'' \<or> fst v = ''header'' then HeaderKey (snd v) else QueryParam (snd v))"

definition compile_dynamic_route_spec :: "('e, 'f) analyzer \<Rightarrow> route_input \<Rightarrow> string list \<Rightarrow> 'f dynamic_spec" where
  "compile_dynamic_route_spec ay route middlewares =
     \<lparr>ds_handler_id = ri_handler_id route, ds_cache_namespace = ri_cache_namespace route,
      ds_param_names = ri_param_names route, ds_header_keys = ri_header_keys route,
      ds_full_headers = ri_full_headers route, ds_needs_path = ri_needs_path route, ds_needs_url = ri_needs_url route,
      ds_needs_query = ri_needs_query route, ds_fast_path = ay_dynamic ay route middlewares,
      ds_cache_config = map_option (\<lambda>c. \<lparr>cc_ttl_secs = ci_ttl_secs c, cc_max_entries = max (ci_max_entries c) 1,
        cc_vary_keys = map vary_key (ci_vary_by c)\<rparr>) (ri_cache route),
      ds_max_body_bytes = ri_max_body_bytes route\<rparr>"

definition empty_router :: "('e, 'f) router" where
  "empty_router = \<lparr>rt_exact_get_root = None, rt_dynamic_exact_routes = (\<lambda>_. Map.empty), rt_exact_static_routes = (\<lambda>_. Map.empty),
     rt_radix_trees = (\<lambda>_. None), rt_ws_routes = Map.empty\<rparr>"

definition add_static :: "string \<Rightarrow> string \<Rightarrow> 'e exact_static \<Rightarrow> ('e, 'f) router \<Rightarrow> ('e, 'f) router" where
  "add_static meth path ex r =
     (case method_from_str meth of
        None \<Rightarrow> r
      | Some key \<Rightarrow>
          if key = MGet \<and> path = ''/'' then r\<lparr>rt_exact_get_root := Some ex\<rparr>
          else r\<lparr>rt_exact_static_routes := (rt_exact_static_routes r)(key := (rt_exact_static_routes r key)(path \<mapsto> ex))\<rparr>)"

definition add_dynamic :: "('e, 'f) analyzer \<Rightarrow> string list \<Rightarrow> route_input \<Rightarrow> string \<Rightarrow> ('e, 'f) router \<Rightarrow> ('e, 'f) router" where
  "add_dynamic ay middlewares route path r =
     (case method_from_code (ri_method_code route) of
        None \<Rightarrow> r
      | Some key \<Rightarrow>
          let spec = compile_dynamic_route_spec ay route middlewares in
          if ri_route_kind route = ROUTE_KIND_EXACT
          then r\<lparr>rt_dynamic_exact_routes := (rt_dynamic_exact_routes r)(key := (rt_dynamic_exact_routes r key)(path \<mapsto> spec))\<rparr>
          else if ri_route_kind route = ROUTE_KIND_PARAM
          then r\<lparr>rt_radix_trees := (rt_radix_trees r)(key :=
            Some (radix_insert (parse_segments path) spec (case rt_radix_trees r key of Some t \<Rightarrow> t | None \<Rightarrow> radix_new)))\<rparr>
          else r)"

definition static_of :: "('e, 'f) analyzer \<Rightarrow> string list \<Rightarrow> route_input \<Rightarrow> 'e exact_static option" where
  "static_of ay middlewares route =
     (case ri_static_response route of
        Some s \<Rightarrow> Some (Declared s)
      | None \<Rightarrow> map_option Analysed (ay_static ay route middlewares))"

definition load_route :: "('e, 'f) analyzer \<Rightarrow> string list \<Rightarrow> route_input \<Rightarrow> ('e, 'f) router \<Rightarrow> ('e, 'f) router" where
  "load_route ay middlewares route r =
     (let meth = toUpperCase (ri_method route); path = normalize_path (ri_path route) in
      case static_of ay middlewares route of
        Some ex \<Rightarrow> add_static meth path ex r
      | None \<Rightarrow> add_dynamic ay middlewares route path r)"

definition from_manifest :: "('e, 'f) analyzer \<Rightarrow> manifest_input \<Rightarrow> ('e, 'f) router" where
  "from_manifest ay m =
     (let r = foldl (\<lambda>r route. load_route ay (mi_middlewares m) route r) empty_router (mi_routes m) in
      r\<lparr>rt_ws_routes := foldl (\<lambda>ws (path, i). ws(normalize_path path \<mapsto> i)) Map.empty (mi_ws_routes m)\<rparr>)"

datatype 'a outcome = Panics | Misses | Finds 'a

definition match_route :: "('e, 'f) router \<Rightarrow> nat \<Rightarrow> string \<Rightarrow> ('f dynamic_spec \<times> string list) outcome" where
  "match_route r code path =
     (case method_from_code code of
        None \<Rightarrow> Misses
      | Some key \<Rightarrow>
          (case rt_dynamic_exact_routes r key path of
             Some spec \<Rightarrow> Finds (spec, [])
           | None \<Rightarrow>
               (case rt_radix_trees r key of
                  None \<Rightarrow> Misses
                | Some tree \<Rightarrow>
                    let (count, buf) = split_segments_stack MAX_STACK_SEGMENTS path in
                    (case match_path (if count \<le> MAX_STACK_SEGMENTS then take count buf else split_request_segments path) [] tree of
                       None \<Rightarrow> Panics
                     | Some (None, vs) \<Rightarrow> Misses
                     | Some (Some spec, vs) \<Rightarrow> Finds (spec, vs)))))"

definition exact_static_route :: "('e, 'f) router \<Rightarrow> string \<Rightarrow> string \<Rightarrow> 'e exact_static option" where
  "exact_static_route r meth path =
     (if meth = ''GET'' \<and> path = ''/'' then rt_exact_get_root r
      else Option.bind (method_from_str meth) (\<lambda>key. rt_exact_static_routes r key path))"

definition match_ws_route :: "('e, 'f) router \<Rightarrow> string \<Rightarrow> nat option" where
  "match_ws_route r path = rt_ws_routes r path"

section \<open>The tree as a table of patterns\<close>

fun lookup_pattern :: "path_segment list \<Rightarrow> 's radix_node \<Rightarrow> 's option" where
  "lookup_pattern [] n = handler n"
| "lookup_pattern (StaticSegment v # p) n = (case map_of (children n) v of None \<Rightarrow> None | Some c \<Rightarrow> lookup_pattern p c)"
| "lookup_pattern (ParamSegment # p) n = (case param_child n of None \<Rightarrow> None | Some c \<Rightarrow> lookup_pattern p c)"

lemma pattern_cases:
  obtains "p = []" | v q where "p = StaticSegment v # q" | q where "p = ParamSegment # q"
  by (cases p; cases "hd p") auto

fun fits :: "path_segment list \<Rightarrow> string list \<Rightarrow> bool" where
  "fits [] [] \<longleftrightarrow> True"
| "fits (StaticSegment v # p) (s # ss) \<longleftrightarrow> v = s \<and> fits p ss"
| "fits (ParamSegment # p) (s # ss) \<longleftrightarrow> fits p ss"
| "fits _ _ \<longleftrightarrow> False"

fun captures :: "path_segment list \<Rightarrow> string list \<Rightarrow> string list" where
  "captures (StaticSegment v # p) (s # ss) = captures p ss"
| "captures (ParamSegment # p) (s # ss) = s # captures p ss"
| "captures _ _ = []"

text \<open>Where two patterns differ first, the preferred one has the literal segment.\<close>

fun prefers :: "path_segment list \<Rightarrow> path_segment list \<Rightarrow> bool" where
  "prefers [] [] \<longleftrightarrow> True"
| "prefers (StaticSegment v # p) (StaticSegment w # q) \<longleftrightarrow> prefers p q"
| "prefers (StaticSegment v # p) (ParamSegment # q) \<longleftrightarrow> True"
| "prefers (ParamSegment # p) (ParamSegment # q) \<longleftrightarrow> prefers p q"
| "prefers _ _ \<longleftrightarrow> False"

inductive wf_radix :: "'s radix_node \<Rightarrow> bool" where
  "distinct (map fst cs) \<Longrightarrow> (\<forall>e\<in>set cs. wf_radix (snd e)) \<Longrightarrow> (\<forall>c\<in>set_option p. wf_radix c) \<Longrightarrow> wf_radix (RadixNode cs h p)"

inductive_simps wf_radix_iff: "wf_radix n"

lemma wf_radixD:
  assumes "wf_radix n"
  shows "distinct (map fst (children n))" "map_of (children n) v = Some c \<Longrightarrow> wf_radix c" "param_child n = Some c \<Longrightarrow> wf_radix c"
  using assms by (force simp: wf_radix_iff [of n] dest: map_of_SomeD)+

lemma wf_radixI:
  "distinct (map fst cs) \<Longrightarrow> (\<And>v c. (v, c) \<in> set cs \<Longrightarrow> wf_radix c) \<Longrightarrow> (\<And>c. p = Some c \<Longrightarrow> wf_radix c) \<Longrightarrow> wf_radix (RadixNode cs h p)"
  by (rule wf_radix.intros) auto

lemma wf_new: "wf_radix radix_new"
  unfolding radix_new_def by (rule wf_radixI) simp_all

lemma lookup_new [simp]: "lookup_pattern p radix_new = None"
  by (cases p rule: pattern_cases) (simp_all add: radix_new_def)

definition child_or_new :: "'s radix_node option \<Rightarrow> 's radix_node" where
  "child_or_new c = (case c of Some n \<Rightarrow> n | None \<Rightarrow> radix_new)"

lemma map_of_at_child: "map_of (at_child v f cs) w = (if w = v then Some (f (child_or_new (map_of cs v))) else map_of cs w)"
  by (induction cs) (auto simp: child_or_new_def)

lemma at_child_keys: "fst ` set (at_child v f cs) = insert v (fst ` set cs)"
proof (induction cs)
  case (Cons e cs)
  then show ?case by (cases e; cases "fst e = v") auto
qed simp

lemma at_child_distinct: "distinct (map fst cs) \<Longrightarrow> distinct (map fst (at_child v f cs))"
proof (induction cs)
  case (Cons e cs)
  then show ?case using at_child_keys [of v f cs] by (cases e; cases "fst e = v") auto
qed simp

lemma wf_insert: "wf_radix n \<Longrightarrow> wf_radix (radix_insert q spec n)"
proof (induction q arbitrary: n rule: list.induct)
  case Nil
  then show ?case by (cases n) (auto simp: wf_radix_iff [of "RadixNode _ _ _"])
next
  case (Cons a q)
  have new: "wf_radix (child_or_new c)" if "\<And>m. c = Some m \<Longrightarrow> wf_radix m" for c
    using that wf_new by (cases c) (simp_all add: child_or_new_def)
  show ?case
  proof (cases a)
    case (StaticSegment v)
    let ?cs = "at_child v (radix_insert q spec) (children n)"
    have d: "distinct (map fst ?cs)" using wf_radixD(1) [OF Cons.prems] by (rule at_child_distinct)
    have "wf_radix c" if "(w, c) \<in> set ?cs" for w c
    proof -
      have "map_of ?cs w = Some c" using that d by simp
      then show ?thesis
        using wf_radixD(2) [OF Cons.prems] Cons.IH [OF new [of "map_of (children n) v"]]
        by (cases "w = v") (auto simp: map_of_at_child)
    qed
    then show ?thesis using d wf_radixD(3) [OF Cons.prems] StaticSegment by (auto intro: wf_radixI)
  next
    case ParamSegment
    have "wf_radix (radix_insert q spec (child_or_new (param_child n)))"
      using Cons.IH new wf_radixD(3) [OF Cons.prems] by blast
    moreover have "wf_radix c" if "(v, c) \<in> set (children n)" for v c
      using that wf_radixD(1,2) [OF Cons.prems] by simp
    ultimately show ?thesis
      using wf_radixD(1) [OF Cons.prems] ParamSegment by (auto simp: child_or_new_def intro: wf_radixI)
  qed
qed

lemma lookup_insert: "lookup_pattern p (radix_insert q spec n) = (if p = q then Some spec else lookup_pattern p n)"
proof (induction q arbitrary: p n rule: list.induct)
  case Nil
  show ?case by (cases p rule: pattern_cases) simp_all
next
  case (Cons a q)
  have new: "lookup_pattern p (child_or_new c) = (case c of None \<Rightarrow> None | Some m \<Rightarrow> lookup_pattern p m)" for p c
    by (simp add: child_or_new_def split: option.split)
  show ?case
  proof (cases a)
    case (StaticSegment v)
    then show ?thesis by (cases p rule: pattern_cases) (auto simp: map_of_at_child Cons.IH new)
  next
    case ParamSegment
    then show ?thesis
      by (cases p rule: pattern_cases) (simp_all add: Cons.IH new child_or_new_def [symmetric])
  qed
qed

section \<open>Matching finds the preferred pattern\<close>

lemma try_children_eq:
  "distinct (map fst cs) \<Longrightarrow>
    try_children f segment cs vs = (case map_of cs segment of None \<Rightarrow> Some (None, vs) | Some c \<Rightarrow> f vs c)"
proof (induction cs)
  case (Cons e cs)
  have none: "try_children f segment cs ws = Some (None, ws)" if "segment \<notin> fst ` set cs" for ws
    using that by (induction cs) auto
  show ?case
  proof (cases "fst e = segment")
    case True
    then have "segment \<notin> fst ` set cs" using Cons.prems by auto
    then show ?thesis using none True by (cases e) (auto split: option.split)
  qed (use Cons in \<open>cases e; simp\<close>)
qed simp

definition match_ok :: "string list \<Rightarrow> string list \<Rightarrow> 's radix_node \<Rightarrow> 's option \<times> string list \<Rightarrow> bool" where
  "match_ok segs vs n r \<longleftrightarrow>
     (case fst r of
        None \<Rightarrow> snd r = vs \<and> (\<forall>p. fits p segs \<longrightarrow> lookup_pattern p n = None)
      | Some spec \<Rightarrow> \<exists>p. fits p segs \<and> lookup_pattern p n = Some spec \<and> snd r = vs @ captures p segs
          \<and> (\<forall>q. fits q segs \<longrightarrow> lookup_pattern q n \<noteq> None \<longrightarrow> prefers p q))"

lemma fits_Cons: "fits p (s # ss) \<longleftrightarrow> (\<exists>q. (p = StaticSegment s # q \<or> p = ParamSegment # q) \<and> fits q ss)"
  by (cases p rule: pattern_cases) auto

lemma fits_Nil [simp]: "fits p [] \<longleftrightarrow> p = []"
  by (cases p rule: pattern_cases) auto

lemma match_path_ok:
  assumes "wf_radix n" "match_path segs vs n = Some r"
  shows "match_ok segs vs n r"
  using assms
proof (induction segs arbitrary: vs n r)
  case Nil
  then show ?case by (auto simp: match_ok_def split: option.split)
next
  case (Cons s ss)
  define child where "child = (case map_of (children n) s of None \<Rightarrow> Some (None, vs) | Some c \<Rightarrow> match_path ss vs c)"
  have try1: "try_children (match_path ss) s (children n) vs = child"
    using try_children_eq [OF wf_radixD(1) [OF Cons.prems(1)]] by (simp add: child_def)
  have static: "lookup_pattern (StaticSegment s # q) n = None"
    if "child = Some (None, vs1)" "fits q ss" for q vs1
    using that Cons.IH wf_radixD(2) [OF Cons.prems(1)] by (fastforce simp: child_def match_ok_def split: option.splits)
  have same: "vs1 = vs" if "child = Some (None, vs1)" for vs1
    using that Cons.IH wf_radixD(2) [OF Cons.prems(1)] by (fastforce simp: child_def match_ok_def split: option.splits)
  show ?case
  proof (cases child)
    case None
    then show ?thesis using Cons.prems(2) by (simp add: try1)
  next
    case (Some x)
    obtain found vs1 where x: "x = (found, vs1)" by fastforce
    show ?thesis
    proof (cases found)
      case (Some spec)
      then have c: "child = Some (Some spec, vs1)" using \<open>child = Some x\<close> x by simp
      then obtain m where m: "map_of (children n) s = Some m" "match_path ss vs m = Some (Some spec, vs1)"
        by (auto simp: child_def split: option.splits)
      obtain p where p: "fits p ss" "lookup_pattern p m = Some spec" "vs1 = vs @ captures p ss"
          "\<forall>q. fits q ss \<longrightarrow> lookup_pattern q m \<noteq> None \<longrightarrow> prefers p q"
        using Cons.IH [OF wf_radixD(2) [OF Cons.prems(1) m(1)] m(2)] by (auto simp: match_ok_def)
      have r: "r = (Some spec, vs1)" using Cons.prems(2) c by (simp add: try1)
      have "prefers (StaticSegment s # p) q" if "fits q (s # ss)" "lookup_pattern q n \<noteq> None" for q
        using that p(4) m(1) by (auto simp: fits_Cons)
      moreover have "fits (StaticSegment s # p) (s # ss)" "lookup_pattern (StaticSegment s # p) n = Some spec"
          "vs1 = vs @ captures (StaticSegment s # p) (s # ss)"
        using p m(1) by simp_all
      ultimately show ?thesis unfolding match_ok_def r fst_conv snd_conv option.case
        by (intro exI [of _ "StaticSegment s # p"]) blast
    next
      case None
      then have c: "child = Some (None, vs1)" using \<open>child = Some x\<close> x by simp
      have v: "vs1 = vs" using same [OF c] .
      show ?thesis
      proof (cases "param_child n")
        case None
        then have "r = (None, vs)" using Cons.prems(2) c v by (simp add: try1)
        then show ?thesis using static [OF c] None by (auto simp: match_ok_def fits_Cons)
      next
        case (Some m)
        note IH = Cons.IH [OF wf_radixD(3) [OF Cons.prems(1) Some], of "vs @ [s]"]
        obtain y where y: "match_path ss (vs @ [s]) m = Some y"
            "r = (case y of (None, vs2) \<Rightarrow> (None, take (length vs) vs2) | (Some spec, vs2) \<Rightarrow> (Some spec, vs2))"
          using Cons.prems(2) c v Some by (auto simp: try1 split: option.splits if_splits)
        have ok: "match_ok ss (vs @ [s]) m y" by (rule IH [OF y(1)])
        show ?thesis
        proof (cases "fst y")
          case None
          then show ?thesis
            using ok y(2) static [OF c] Some by (cases y) (auto simp: match_ok_def fits_Cons)
        next
          case (Some spec)
          then obtain p where p: "fits p ss" "lookup_pattern p m = Some spec" "snd y = (vs @ [s]) @ captures p ss"
              "\<forall>q. fits q ss \<longrightarrow> lookup_pattern q m \<noteq> None \<longrightarrow> prefers p q"
            using ok by (auto simp: match_ok_def)
          have "prefers (ParamSegment # p) q" if "fits q (s # ss)" "lookup_pattern q n \<noteq> None" for q
            using that p(4) static [OF c] \<open>param_child n = Some m\<close> by (auto simp: fits_Cons)
          moreover have "fits (ParamSegment # p) (s # ss)" "lookup_pattern (ParamSegment # p) n = Some spec"
              "snd r = vs @ captures (ParamSegment # p) (s # ss)" "fst r = Some spec"
            using p \<open>param_child n = Some m\<close> y(2) Some by (auto split: prod.splits)
          ultimately show ?thesis unfolding match_ok_def \<open>fst r = Some spec\<close> option.case
            by (intro exI [of _ "ParamSegment # p"]) blast
        qed
      qed
    qed
  qed
qed

lemma match_path_returns:
  assumes "wf_radix n" "length vs + length segs \<le> MAX_STACK_SEGMENTS"
  shows "match_path segs vs n \<noteq> None"
  using assms
proof (induction segs arbitrary: vs n)
  case (Cons s ss)
  have "(case map_of (children n) s of None \<Rightarrow> Some (None, vs) | Some c \<Rightarrow> match_path ss vs c) \<noteq> None"
    using Cons.IH [of _ vs] wf_radixD(2) [OF Cons.prems(1)] Cons.prems(2) by (auto split: option.split)
  then obtain found vs1 where t: "try_children (match_path ss) s (children n) vs = Some (found, vs1)"
    using try_children_eq [OF wf_radixD(1) [OF Cons.prems(1)], of "match_path ss" s vs] by fastforce
  show ?case
  proof (cases found)
    case None
    have "vs1 = vs"
    proof (cases "map_of (children n) s")
      case None
      then show ?thesis using t try_children_eq [OF wf_radixD(1) [OF Cons.prems(1)], of "match_path ss" s vs] \<open>found = None\<close> by simp
    next
      case (Some c)
      then have "match_path ss vs c = Some (None, vs1)"
        using t try_children_eq [OF wf_radixD(1) [OF Cons.prems(1)], of "match_path ss" s vs] \<open>found = None\<close> by simp
      from match_path_ok [OF wf_radixD(2) [OF Cons.prems(1) Some] this] show ?thesis by (simp add: match_ok_def)
    qed
    moreover have "match_path ss (vs @ [s]) c \<noteq> None" if "param_child n = Some c" for c
      using Cons.IH [OF wf_radixD(3) [OF Cons.prems(1) that], of "vs @ [s]"] Cons.prems(2) by simp
    ultimately show ?thesis using t None Cons.prems(2) by (auto split: option.splits)
  qed (simp add: t)
qed simp

text \<open>The buffer of values overflows only in a tree with more than 16 parameters on a way down.\<close>

definition param_count :: "path_segment list \<Rightarrow> nat" where
  "param_count p = length (filter (\<lambda>s. s = ParamSegment) p)"

inductive shallow :: "nat \<Rightarrow> 's radix_node \<Rightarrow> bool" where
  "(\<forall>e\<in>set cs. shallow k (snd e)) \<Longrightarrow> (\<forall>c\<in>set_option p. \<exists>j. k = Suc j \<and> shallow j c) \<Longrightarrow> shallow k (RadixNode cs h p)"

inductive_simps shallow_iff: "shallow k n"

lemma shallowI:
  "(\<And>v c. (v, c) \<in> set cs \<Longrightarrow> shallow k c) \<Longrightarrow> (\<And>c. p = Some c \<Longrightarrow> \<exists>j. k = Suc j \<and> shallow j c) \<Longrightarrow> shallow k (RadixNode cs h p)"
  by (rule shallow.intros) auto

lemma shallowD:
  assumes "shallow k n"
  shows "(v, c) \<in> set (children n) \<Longrightarrow> shallow k c" "param_child n = Some c \<Longrightarrow> \<exists>j. k = Suc j \<and> shallow j c"
  using assms by (force simp: shallow_iff [of k n])+

lemma shallow_new: "shallow k radix_new"
  unfolding radix_new_def by (rule shallowI) simp_all

lemma at_child_members: "(w, c) \<in> set (at_child v f cs) \<Longrightarrow> (w, c) \<in> set cs \<or> (\<exists>d. c = f d \<and> (d = radix_new \<or> (v, d) \<in> set cs))"
proof (induction cs)
  case (Cons e cs)
  then show ?case by (cases e; cases "fst e = v") auto
qed auto

lemma shallow_insert: "shallow k n \<Longrightarrow> param_count q \<le> k \<Longrightarrow> shallow k (radix_insert q spec n)"
proof (induction q arbitrary: k n rule: list.induct)
  case Nil
  then show ?case by (cases n) (auto simp: shallow_iff [of k "RadixNode _ _ _"])
next
  case (Cons a q)
  show ?case
  proof (cases a)
    case (StaticSegment v)
    have "shallow k c" if "(w, c) \<in> set (at_child v (radix_insert q spec) (children n))" for w c
      using at_child_members [OF that] shallowD(1) [OF Cons.prems(1)] Cons.IH [of k] shallow_new Cons.prems(2) StaticSegment
      by (auto simp: param_count_def)
    then show ?thesis using shallowD(2) [OF Cons.prems(1)] StaticSegment by (auto intro: shallowI)
  next
    case ParamSegment
    then obtain j where j: "k = Suc j" "param_count q \<le> j" using Cons.prems(2) by (cases k) (auto simp: param_count_def)
    have "shallow j (radix_insert q spec (case param_child n of Some c \<Rightarrow> c | None \<Rightarrow> radix_new))"
      using Cons.IH [of j] shallowD(2) [OF Cons.prems(1)] shallow_new j by (auto split: option.split)
    then show ?thesis using ParamSegment shallowD(1) [OF Cons.prems(1)] j(1) by (auto intro: shallowI)
  qed
qed

lemma shallow_returns:
  assumes "wf_radix n" "shallow k n" "length vs + k \<le> MAX_STACK_SEGMENTS"
  shows "match_path segs vs n \<noteq> None"
  using assms
proof (induction segs arbitrary: vs n k)
  case (Cons s ss)
  note try1 = try_children_eq [OF wf_radixD(1) [OF Cons.prems(1)], of "match_path ss" s vs]
  have down: "match_path ss vs c \<noteq> None" if "map_of (children n) s = Some c" for c
    using Cons.IH [OF wf_radixD(2) [OF Cons.prems(1) that] shallowD(1) [OF Cons.prems(2) map_of_SomeD [OF that]] Cons.prems(3)] .
  have "(case map_of (children n) s of None \<Rightarrow> Some (None, vs) | Some c \<Rightarrow> match_path ss vs c) \<noteq> None"
    using down by (auto split: option.split)
  then obtain found vs1 where t: "try_children (match_path ss) s (children n) vs = Some (found, vs1)"
    using try1 by fastforce
  show ?case
  proof (cases found)
    case None
    have "vs1 = vs"
    proof (cases "map_of (children n) s")
      case None
      then show ?thesis using t try1 \<open>found = None\<close> by simp
    next
      case (Some c)
      then have "match_path ss vs c = Some (None, vs1)" using t try1 \<open>found = None\<close> by simp
      from match_path_ok [OF wf_radixD(2) [OF Cons.prems(1) Some] this] show ?thesis by (simp add: match_ok_def)
    qed
    moreover have "length vs < MAX_STACK_SEGMENTS \<and> match_path ss (vs @ [s]) c \<noteq> None" if "param_child n = Some c" for c
    proof -
      from shallowD(2) [OF Cons.prems(2) that] obtain j where j: "k = Suc j" "shallow j c" by blast
      then show ?thesis using Cons.IH [OF wf_radixD(3) [OF Cons.prems(1) that] j(2), of "vs @ [s]"] Cons.prems(3) by simp
    qed
    ultimately show ?thesis using t None by (auto split: option.splits)
  qed (simp add: t)
qed simp

section \<open>Tables\<close>

text \<open>What the router expects of a table of routes: a fresh one is empty, and an added route is found under its key
  while the others stay.  The tree of segments and the maps of the exact routes are such tables.\<close>

locale spec_table =
  fixes fresh :: "'t" and add :: "'k \<Rightarrow> 's \<Rightarrow> 't \<Rightarrow> 't" and look :: "'k \<Rightarrow> 't \<Rightarrow> 's option" and ok :: "'t \<Rightarrow> bool"
  assumes ok_fresh: "ok fresh" and look_fresh: "look k fresh = None"
    and ok_add: "ok t \<Longrightarrow> ok (add k s t)"
    and look_add: "ok t \<Longrightarrow> look k' (add k s t) = (if k' = k then Some s else look k' t)"
begin

lemma holds_fresh: "ok fresh \<and> (\<forall>k. look k fresh = map_of [] k)"
  by (simp add: ok_fresh look_fresh)

lemma holds_add:
  "ok t \<and> (\<forall>k. look k t = map_of kvs k) \<Longrightarrow> ok (add k s t) \<and> (\<forall>k'. look k' (add k s t) = map_of ((k, s) # kvs) k')"
  by (simp add: ok_add look_add)

lemma holds_all: "ok (foldl (\<lambda>t (k, s). add k s t) fresh kvs) \<and> (\<forall>k. look k (foldl (\<lambda>t (k, s). add k s t) fresh kvs) = map_of (rev kvs) k)"
proof (induction kvs rule: rev_induct)
  case (snoc e kvs)
  from holds_add [OF snoc.IH, of "fst e" "snd e"] show ?case by (cases e) simp
qed (simp add: ok_fresh look_fresh)

end

interpretation radix: spec_table radix_new radix_insert lookup_pattern wf_radix
  by unfold_locales (simp_all add: wf_new wf_insert lookup_insert)

interpretation exact: spec_table "Map.empty" "\<lambda>k s t. t(k \<mapsto> s)" "\<lambda>k t. t k" "\<lambda>_. True"
  by unfold_locales simp_all

section \<open>The tables of a router\<close>

text \<open>The routes of a manifest that are dispatched, of one method and kind.\<close>

definition dispatched :: "('e, 'f) analyzer \<Rightarrow> manifest_input \<Rightarrow> method_key \<Rightarrow> nat \<Rightarrow> route_input list" where
  "dispatched ay m key kind =
     filter (\<lambda>r. static_of ay (mi_middlewares m) r = None \<and> method_from_code (ri_method_code r) = Some key
       \<and> ri_route_kind r = kind) (mi_routes m)"

definition spec_of :: "('e, 'f) analyzer \<Rightarrow> manifest_input \<Rightarrow> route_input \<Rightarrow> 'f dynamic_spec" where
  "spec_of ay m r = compile_dynamic_route_spec ay r (mi_middlewares m)"

text \<open>Of several routes with the same path or pattern the last one counts.\<close>

definition exact_table :: "('e, 'f) analyzer \<Rightarrow> manifest_input \<Rightarrow> method_key \<Rightarrow> (string \<times> 'f dynamic_spec) list" where
  "exact_table ay m key = rev (map (\<lambda>r. (normalize_path (ri_path r), spec_of ay m r)) (dispatched ay m key ROUTE_KIND_EXACT))"

definition pattern_of :: "route_input \<Rightarrow> path_segment list" where
  "pattern_of r = parse_segments (normalize_path (ri_path r))"

definition pattern_table :: "('e, 'f) analyzer \<Rightarrow> manifest_input \<Rightarrow> method_key \<Rightarrow> (path_segment list \<times> 'f dynamic_spec) list" where
  "pattern_table ay m key = rev (map (\<lambda>r. (pattern_of r, spec_of ay m r)) (dispatched ay m key ROUTE_KIND_PARAM))"

definition tree_ok :: "('e, 'f) router \<Rightarrow> method_key \<Rightarrow> (path_segment list \<times> 'f dynamic_spec) list \<Rightarrow> bool" where
  "tree_ok r key table \<longleftrightarrow>
     (case rt_radix_trees r key of
        None \<Rightarrow> table = []
      | Some t \<Rightarrow> wf_radix t \<and> (\<forall>p. lookup_pattern p t = map_of table p))"

definition router_ok :: "('e, 'f) analyzer \<Rightarrow> manifest_input \<Rightarrow> ('e, 'f) router \<Rightarrow> bool" where
  "router_ok ay m r \<longleftrightarrow>
     (\<forall>key. rt_dynamic_exact_routes r key = map_of (exact_table ay m key) \<and> tree_ok r key (pattern_table ay m key))"

lemma kinds_differ [simp]: "ROUTE_KIND_EXACT \<noteq> ROUTE_KIND_PARAM" "ROUTE_KIND_PARAM \<noteq> ROUTE_KIND_EXACT"
  by (simp_all add: ROUTE_KIND_EXACT_def ROUTE_KIND_PARAM_def)

lemma tables_snoc:
  assumes "m' = m\<lparr>mi_routes := mi_routes m @ [r]\<rparr>"
  shows "exact_table ay m' key =
      (if static_of ay (mi_middlewares m) r = None \<and> method_from_code (ri_method_code r) = Some key \<and> ri_route_kind r = ROUTE_KIND_EXACT
       then (normalize_path (ri_path r), spec_of ay m r) # exact_table ay m key else exact_table ay m key)"
    and "pattern_table ay m' key =
      (if static_of ay (mi_middlewares m) r = None \<and> method_from_code (ri_method_code r) = Some key \<and> ri_route_kind r = ROUTE_KIND_PARAM
       then (pattern_of r, spec_of ay m r) # pattern_table ay m key else pattern_table ay m key)"
  by (simp_all add: assms exact_table_def pattern_table_def dispatched_def spec_of_def)

lemma tree_ok_insert:
  assumes "tree_ok r key table"
  shows "tree_ok (r\<lparr>rt_radix_trees := (rt_radix_trees r)(key :=
      Some (radix_insert p spec (case rt_radix_trees r key of Some t \<Rightarrow> t | None \<Rightarrow> radix_new)))\<rparr>) key ((p, spec) # table)"
proof -
  have "wf_radix (case rt_radix_trees r key of Some t \<Rightarrow> t | None \<Rightarrow> radix_new)
      \<and> (\<forall>q. lookup_pattern q (case rt_radix_trees r key of Some t \<Rightarrow> t | None \<Rightarrow> radix_new) = map_of table q)"
    using assms radix.holds_fresh by (auto simp: tree_ok_def split: option.splits)
  from radix.holds_add [OF this, of p spec] show ?thesis by (simp add: tree_ok_def)
qed

lemma add_static_tables [simp]:
  "rt_dynamic_exact_routes (add_static meth path ex r) = rt_dynamic_exact_routes r"
  "rt_radix_trees (add_static meth path ex r) = rt_radix_trees r"
  by (simp_all add: add_static_def split: option.split)

lemma load_route_ok:
  assumes "router_ok ay m r" "m' = m\<lparr>mi_routes := mi_routes m @ [route]\<rparr>"
  shows "router_ok ay m' (load_route ay (mi_middlewares m) route r)"
proof -
  have t: "rt_dynamic_exact_routes r k = map_of (exact_table ay m k)" "tree_ok r k (pattern_table ay m k)" for k
    using assms(1) by (simp_all add: router_ok_def)
  note snoc = tables_snoc [OF assms(2), of ay]
  show ?thesis
  proof (cases "static_of ay (mi_middlewares m) route")
    case (Some ex)
    then show ?thesis using t by (simp add: router_ok_def snoc load_route_def Let_def tree_ok_def)
  next
    case None
    note st = None
    show ?thesis
    proof (cases "method_from_code (ri_method_code route)")
      case None
      then show ?thesis using st t by (simp add: router_ok_def snoc load_route_def add_dynamic_def Let_def)
    next
      case (Some key)
      let ?spec = "spec_of ay m route"
      consider "ri_route_kind route = ROUTE_KIND_EXACT" | "ri_route_kind route = ROUTE_KIND_PARAM"
        | "ri_route_kind route \<noteq> ROUTE_KIND_EXACT \<and> ri_route_kind route \<noteq> ROUTE_KIND_PARAM" by blast
      then show ?thesis
      proof cases
        case 1
        then show ?thesis
          using st Some t by (auto simp: router_ok_def snoc load_route_def add_dynamic_def Let_def spec_of_def tree_ok_def)
      next
        case 2
        let ?r = "r\<lparr>rt_radix_trees := (rt_radix_trees r)(key :=
          Some (radix_insert (pattern_of route) ?spec (case rt_radix_trees r key of Some t \<Rightarrow> t | None \<Rightarrow> radix_new)))\<rparr>"
        have "load_route ay (mi_middlewares m) route r = ?r"
          using st Some 2 by (simp add: load_route_def add_dynamic_def Let_def spec_of_def pattern_of_def)
        moreover have "tree_ok ?r k (pattern_table ay m' k)" for k
          using tree_ok_insert [OF t(2) [of key], of "pattern_of route" ?spec] t(2) [of k] st Some 2
          by (cases "k = key") (simp_all add: snoc tree_ok_def)
        ultimately show ?thesis using st Some 2 t(1) by (simp add: router_ok_def snoc)
      next
        case 3
        then show ?thesis using st Some t by (simp add: router_ok_def snoc load_route_def add_dynamic_def Let_def)
      qed
    qed
  qed
qed

lemma from_manifest_ok: "router_ok ay m (from_manifest ay m)"
proof -
  have "router_ok ay (m\<lparr>mi_routes := rs\<rparr>) (foldl (\<lambda>r route. load_route ay (mi_middlewares m) route r) empty_router rs)" for rs
  proof (induction rs rule: rev_induct)
    case Nil
    then show ?case
      by (simp add: router_ok_def empty_router_def exact_table_def pattern_table_def dispatched_def tree_ok_def)
  next
    case (snoc route rs)
    then show ?case using load_route_ok [OF snoc.IH, of _ route] by simp
  qed
  from this [of "mi_routes m"] show ?thesis by (simp add: from_manifest_def Let_def router_ok_def tree_ok_def)
qed

lemma load_route_shallow:
  assumes "\<And>key t. rt_radix_trees r key = Some t \<Longrightarrow> shallow k t" "param_count (pattern_of i) \<le> k"
    "rt_radix_trees (load_route ay ms i r) key = Some t"
  shows "shallow k t"
proof -
  have grown: "shallow k (radix_insert (pattern_of i) s u)" if "rt_radix_trees r key' = Some u \<or> u = radix_new" for s u key'
    using that assms(1,2) shallow_new by (intro shallow_insert) auto
  show ?thesis
    using assms(1) [of key t] assms(3) grown [of key]
    by (auto simp: load_route_def add_dynamic_def Let_def pattern_of_def split: option.splits if_splits)
qed

lemma shallow_trees:
  assumes "\<forall>i\<in>set (mi_routes m). param_count (pattern_of i) \<le> k" "rt_radix_trees (from_manifest ay m) key = Some t"
  shows "shallow k t"
proof -
  have "\<forall>key t. rt_radix_trees (foldl (\<lambda>r route. load_route ay (mi_middlewares m) route r) empty_router rs) key = Some t \<longrightarrow> shallow k t"
    if "\<forall>i\<in>set rs. param_count (pattern_of i) \<le> k" for rs
    using that
  proof (induction rs rule: rev_induct)
    case (snoc i rs)
    then show ?case by (auto intro: load_route_shallow)
  qed (simp add: empty_router_def)
  then show ?thesis using assms by (simp add: from_manifest_def Let_def)
qed

text \<open>Of several socket routes with the same path the last one counts.\<close>

lemma ws_route_is_last:
  "match_ws_route (from_manifest ay m) path = map_of (rev (map (\<lambda>(p, i). (normalize_path p, i)) (mi_ws_routes m))) path"
  using exact.holds_all [of "map (\<lambda>(p, i). (normalize_path p, i)) (mi_ws_routes m)"]
  by (simp add: match_ws_route_def from_manifest_def Let_def foldl_map split_def)

section \<open>Routing\<close>

lemma fill_segments_eq:
  "length buf \<le> n \<Longrightarrow> (let all = buf @ filter (\<lambda>s. s \<noteq> []) ss; (count, out) = fill_segments n ss buf in
    if length all \<le> n then count = length all \<and> out = all else count > n)"
proof (induction n ss buf rule: fill_segments.induct)
  case (2 n s ss buf)
  then show ?case by (cases "s = []") (auto simp: Let_def split: prod.splits if_splits)
qed simp

lemma stack_segments:
  "split_segments_stack n path = (count, buf) \<Longrightarrow>
    (if count \<le> n then take count buf else split_request_segments path) = split_request_segments path
    \<and> (count \<le> n \<longleftrightarrow> length (split_request_segments path) \<le> n)"
  using fill_segments_eq [of "[]" n "split_on (CHR ''/'') (trim_start_slashes path)"]
  by (auto simp: split_segments_stack_def split_request_segments_def nonempty_segments_def Let_def split: if_splits prod.splits)

lemma match_route_eq:
  "match_route r code path =
     (case method_from_code code of
        None \<Rightarrow> Misses
      | Some key \<Rightarrow>
          (case rt_dynamic_exact_routes r key path of
             Some spec \<Rightarrow> Finds (spec, [])
           | None \<Rightarrow>
               (case rt_radix_trees r key of
                  None \<Rightarrow> Misses
                | Some tree \<Rightarrow>
                    (case match_path (split_request_segments path) [] tree of
                       None \<Rightarrow> Panics
                     | Some (None, vs) \<Rightarrow> Misses
                     | Some (Some spec, vs) \<Rightarrow> Finds (spec, vs)))))"
  using stack_segments [of MAX_STACK_SEGMENTS path]
  by (auto simp: match_route_def Let_def split: option.split prod.split)

text \<open>The reference: an exact route, else the preferred one of the fitting patterns.\<close>

definition routed_by ::
  "('e, 'f) analyzer \<Rightarrow> manifest_input \<Rightarrow> method_key \<Rightarrow> string \<Rightarrow> 'f dynamic_spec \<Rightarrow> string list \<Rightarrow> bool" where
  "routed_by ay m key path spec vs \<longleftrightarrow>
     (if map_of (exact_table ay m key) path \<noteq> None
      then map_of (exact_table ay m key) path = Some spec \<and> vs = []
      else
        let segs = split_request_segments path in
        \<exists>p. fits p segs \<and> map_of (pattern_table ay m key) p = Some spec \<and> vs = captures p segs
          \<and> (\<forall>q. fits q segs \<longrightarrow> map_of (pattern_table ay m key) q \<noteq> None \<longrightarrow> prefers p q))"

definition unrouted :: "('e, 'f) analyzer \<Rightarrow> manifest_input \<Rightarrow> method_key \<Rightarrow> string \<Rightarrow> bool" where
  "unrouted ay m key path \<longleftrightarrow> map_of (exact_table ay m key) path = None
     \<and> (\<forall>p. fits p (split_request_segments path) \<longrightarrow> map_of (pattern_table ay m key) p = None)"

lemma match_route_ok:
  assumes "method_from_code code = Some key"
  shows "case match_route (from_manifest ay m) code path of
      Panics \<Rightarrow> 16 < length (split_request_segments path) \<and> (\<exists>i\<in>set (mi_routes m). 16 < param_count (pattern_of i))
    | Misses \<Rightarrow> unrouted ay m key path
    | Finds (spec, vs) \<Rightarrow> routed_by ay m key path spec vs"
proof -
  let ?r = "from_manifest ay m" and ?segs = "split_request_segments path"
  have t: "rt_dynamic_exact_routes ?r key = map_of (exact_table ay m key)" "tree_ok ?r key (pattern_table ay m key)"
    using from_manifest_ok [of ay m] by (simp_all add: router_ok_def)
  show ?thesis
  proof (cases "map_of (exact_table ay m key) path")
    case (Some spec)
    then show ?thesis using assms t(1) by (simp add: match_route_eq routed_by_def)
  next
    case None
    note ex = None
    show ?thesis
    proof (cases "rt_radix_trees ?r key")
      case None
      then show ?thesis using assms t ex by (simp add: match_route_eq tree_ok_def unrouted_def)
    next
      case (Some tree)
      then have w: "wf_radix tree" "\<And>p. lookup_pattern p tree = map_of (pattern_table ay m key) p"
        using t(2) by (simp_all add: tree_ok_def)
      show ?thesis
      proof (cases "match_path ?segs [] tree")
        case None
        then have "\<not> length ?segs \<le> 16" using match_path_returns [OF w(1), of "[]" ?segs] by (auto simp: MAX_STACK_SEGMENTS_def)
        moreover have "\<not> (\<forall>i\<in>set (mi_routes m). param_count (pattern_of i) \<le> 16)"
          using shallow_returns [OF w(1), of 16 "[]" ?segs] shallow_trees [OF _ Some, of 16] None
          by (auto simp: MAX_STACK_SEGMENTS_def)
        ultimately show ?thesis using assms t(1) ex None Some by (auto simp: match_route_eq not_le)
      next
        case (Some res)
        have "match_ok ?segs [] tree res" by (rule match_path_ok [OF w(1) Some])
        then show ?thesis
          using assms t(1) ex Some \<open>rt_radix_trees ?r key = Some tree\<close> w(2)
          by (cases res; cases "fst res") (auto simp: match_route_eq match_ok_def unrouted_def routed_by_def Let_def)
      qed
    qed
  qed
qed

text \<open>C2: For every request path, short or long, and every known method the router does what the reference says: it
  finds the exact route with this path, else the fitting pattern that has the literal segment wherever it differs first
  from another fitting one, with the values of its parameters in order; it finds nothing only if no route of the
  method fits; and it panics only on a path of more than 16 segments when some route has more than 16 parameters.\<close>

theorem router_finds_preferred_route:
  assumes "method_from_code code = Some key"
  shows "case match_route (from_manifest ay m) code path of
      Panics \<Rightarrow> 16 < length (split_request_segments path) \<and> (\<exists>i\<in>set (mi_routes m). 16 < param_count (pattern_of i))
    | Misses \<Rightarrow> unrouted ay m key path
    | Finds (spec, vs) \<Rightarrow> routed_by ay m key path spec vs"
  by (rule match_route_ok [OF assms])

definition sample_input :: "string \<Rightarrow> nat \<Rightarrow> nat \<Rightarrow> string list \<Rightarrow> route_input" where
  "sample_input path kind i names =
     \<lparr>ri_method = ''GET'', ri_method_code = 1, ri_path = path, ri_route_kind = kind, ri_handler_id = i, ri_cache_namespace = [],
      ri_handler_source = [], ri_param_names = names, ri_header_keys = [], ri_full_headers = False, ri_needs_path = False,
      ri_needs_url = False, ri_needs_query = False, ri_cache = None, ri_static_response = None, ri_max_body_bytes = None\<rparr>"

definition no_analysis :: "(unit, unit) analyzer" where
  "no_analysis = \<lparr>ay_static = (\<lambda>_ _. None), ay_dynamic = (\<lambda>_ _. None)\<rparr>"

definition sample_manifest :: manifest_input where
  "sample_manifest = \<lparr>mi_middlewares = [],
     mi_routes = [sample_input ''/users/:id'' 2 1 [''id''], sample_input ''/users/me'' 1 2 [],
       sample_input ''/:kind/list/:page'' 2 3 [''kind'', ''page'']], mi_ws_routes = []\<rparr>"

definition found_id :: "('f dynamic_spec \<times> string list) outcome \<Rightarrow> (nat \<times> string list) option" where
  "found_id r = (case r of Finds (spec, vs) \<Rightarrow> Some (ds_handler_id spec, vs) | _ \<Rightarrow> None)"

lemma sample_routing:
  "found_id (match_route (from_manifest no_analysis sample_manifest) 1 ''/users/7'') = Some (1, [''7''])"
  "found_id (match_route (from_manifest no_analysis sample_manifest) 1 ''/users/me'') = Some (2, [])"
  "found_id (match_route (from_manifest no_analysis sample_manifest) 1 ''/users/list/2'') = Some (3, [''users'', ''2''])"
  "match_route (from_manifest no_analysis sample_manifest) 1 ''/none'' = Misses"
  by code_simp+

theorem router_finds_preferred_route_witness:
  "unrouted no_analysis sample_manifest MGet ''/none''"
proof -
  have m: "match_route (from_manifest no_analysis sample_manifest) 1 ''/none'' = Misses" by (rule sample_routing)
  have k: "method_from_code 1 = Some MGet" by (simp add: method_from_code_def)
  show ?thesis using router_finds_preferred_route [OF k, where ay = no_analysis and m = sample_manifest and path = "''/none''"] m by simp
qed

text \<open>The buffer of parameter values holds 16: a request that fits a route with 17 parameters ends the process, which
  is built to abort on a panic.\<close>

definition deep_manifest :: manifest_input where
  "deep_manifest = \<lparr>mi_middlewares = [], mi_routes = [sample_input (concat (replicate 17 ''/:p'')) 2 1 (replicate 17 ''p'')],
     mi_ws_routes = []\<rparr>"

lemma deep_route_panics:
  "match_route (from_manifest no_analysis deep_manifest) 1 (concat (replicate 17 ''/x'')) = Panics"
  by code_simp

text \<open>A static page is looked up under the path as it came in, every other route under the normalised path: with a
  slash at the end the page is not found.\<close>

definition page_manifest :: manifest_input where
  "page_manifest = \<lparr>mi_middlewares = [], mi_routes = [(sample_input ''/about'' 1 1 [])\<lparr>ri_static_response :=
       Some \<lparr>si_status = 200, si_headers = [], si_body = ''About''\<rparr>\<rparr>, sample_input ''/other'' 1 2 []], mi_ws_routes = []\<rparr>"

lemma slash_hides_static_page:
  "exact_static_route (from_manifest no_analysis page_manifest) ''GET'' ''/about'' \<noteq> None"
  "exact_static_route (from_manifest no_analysis page_manifest) ''GET'' ''/about/'' = None"
  "match_route (from_manifest no_analysis page_manifest) 1 (normalize_runtime_path ''/about/'') = Misses"
  "found_id (match_route (from_manifest no_analysis page_manifest) 1 (normalize_runtime_path ''/other/'')) = Some (2, [])"
  by code_simp+

end
