(* ===== verification/NativeRouting.thy ===== *)
theory NativeRouting
  imports Compile Router
begin

text \<open>
  From a registered route to the dispatcher through the native layer: the manifest that \<open>index.js\<close> writes
  (\<open>Compile\<close>) is read by \<open>rsrc/src/manifest.rs\<close>, its routes become the tables of the router (\<open>Router\<close>), and the
  handler id of the route that a request matches is looked up by the dispatcher.  Reading the text as JSON is a
  library's work, of the members of the manifest only the ones of the router are read here.
\<close>

section \<open>Reading the manifest\<close>

definition member :: "string \<Rightarrow> json \<Rightarrow> json option" where
  "member k j = (case j of JObj ms \<Rightarrow> map_of ms k | _ \<Rightarrow> None)"

definition as_str :: "json \<Rightarrow> string option" where
  "as_str j = (case j of JStr s \<Rightarrow> Some s | _ \<Rightarrow> None)"

definition as_bool :: "json \<Rightarrow> bool option" where
  "as_bool j = (case j of JBool b \<Rightarrow> Some b | _ \<Rightarrow> None)"

text \<open>An unsigned integer of \<open>w\<close> bits.\<close>

definition as_uint :: "nat \<Rightarrow> json \<Rightarrow> nat option" where
  "as_uint w j = (case j of JNum i \<Rightarrow> if 0 \<le> i \<and> i < 2 ^ w then Some (nat i) else None | _ \<Rightarrow> None)"

definition as_list :: "(json \<Rightarrow> 'a option) \<Rightarrow> json \<Rightarrow> 'a list option" where
  "as_list f j = (case j of JArr xs \<Rightarrow> those (map f xs) | _ \<Rightarrow> None)"

definition needed :: "string \<Rightarrow> (json \<Rightarrow> 'a option) \<Rightarrow> json \<Rightarrow> 'a option" where
  "needed k f j = Option.bind (member k j) f"

text \<open>\<open>#[serde(default)]\<close>: the default of a missing member; \<open>null\<close> is the default of an \<open>Option\<close>.\<close>

definition defaulted :: "string \<Rightarrow> 'a \<Rightarrow> (json \<Rightarrow> 'a option) \<Rightarrow> json \<Rightarrow> 'a option" where
  "defaulted k d f j = (case member k j of None \<Rightarrow> Some d | Some v \<Rightarrow> f v)"

definition as_option :: "(json \<Rightarrow> 'a option) \<Rightarrow> json \<Rightarrow> 'a option option" where
  "as_option f j = (if j = JNull then Some None else map_option Some (f j))"

definition read_vary :: "json \<Rightarrow> (string \<times> string) option" where
  "read_vary j = Option.bind (needed ''source'' as_str j) (\<lambda>s. map_option (\<lambda>n. (s, n)) (needed ''name'' as_str j))"

definition read_cache :: "json \<Rightarrow> cache_input option" where
  "read_cache j =
     Option.bind (needed ''ttlSecs'' (as_uint 64) j) (\<lambda>ttl.
     Option.bind (needed ''maxEntries'' (as_uint 64) j) (\<lambda>entries.
     Option.bind (needed ''varyBy'' (as_list read_vary) j) (\<lambda>vary.
     Some \<lparr>ci_ttl_secs = int ttl, ci_max_entries = int entries, ci_vary_by = vary\<rparr>)))"

definition read_headers :: "json \<Rightarrow> (string \<times> string) list option" where
  "read_headers j = (case j of
     JObj ms \<Rightarrow> those (map (\<lambda>(k, v). map_option (\<lambda>s. (k, s)) (as_str v)) ms)
   | _ \<Rightarrow> None)"

definition read_static :: "json \<Rightarrow> static_input option" where
  "read_static j =
     Option.bind (needed ''status'' (as_uint 16) j) (\<lambda>status.
     Option.bind (defaulted ''headers'' [] read_headers j) (\<lambda>headers.
     Option.bind (needed ''body'' as_str j) (\<lambda>body.
     Some \<lparr>si_status = int status, si_headers = headers, si_body = body\<rparr>)))"

definition read_route :: "json \<Rightarrow> route_input option" where
  "read_route j =
     Option.bind (needed ''method'' as_str j) (\<lambda>meth.
     Option.bind (needed ''methodCode'' (as_uint 8) j) (\<lambda>code.
     Option.bind (needed ''path'' as_str j) (\<lambda>path.
     Option.bind (needed ''routeKind'' (as_uint 8) j) (\<lambda>kind.
     Option.bind (needed ''handlerId'' (as_uint 32) j) (\<lambda>handlerId.
     Option.bind (needed ''cacheNamespace'' as_str j) (\<lambda>namespace.
     Option.bind (needed ''handlerSource'' as_str j) (\<lambda>source.
     Option.bind (needed ''paramNames'' (as_list as_str) j) (\<lambda>names.
     Option.bind (needed ''segmentCount'' (as_uint 16) j) (\<lambda>_.
     Option.bind (needed ''headerKeys'' (as_list as_str) j) (\<lambda>keys.
     Option.bind (needed ''fullHeaders'' as_bool j) (\<lambda>full.
     Option.bind (defaulted ''needsPath'' False as_bool j) (\<lambda>needsPath.
     Option.bind (defaulted ''needsUrl'' False as_bool j) (\<lambda>needsUrl.
     Option.bind (defaulted ''needsQuery'' False as_bool j) (\<lambda>needsQuery.
     Option.bind (defaulted ''needsSession'' False as_bool j) (\<lambda>_.
     Option.bind (defaulted ''cache'' None (as_option read_cache) j) (\<lambda>cache.
     Option.bind (defaulted ''staticResponse'' None (as_option read_static) j) (\<lambda>static.
     Option.bind (defaulted ''maxBodyBytes'' None (as_option (as_uint 64)) j) (\<lambda>maxBody.
     Some \<lparr>ri_method = meth, ri_method_code = code, ri_path = path, ri_route_kind = kind, ri_handler_id = handlerId,
       ri_cache_namespace = namespace, ri_handler_source = source, ri_param_names = names, ri_header_keys = keys,
       ri_full_headers = full, ri_needs_path = needsPath, ri_needs_url = needsUrl, ri_needs_query = needsQuery,
       ri_cache = cache, ri_static_response = static, ri_max_body_bytes = maxBody\<rparr>))))))))))))))))))"

definition read_ws_route :: "json \<Rightarrow> (string \<times> nat) option" where
  "read_ws_route j = Option.bind (needed ''path'' as_str j) (\<lambda>p. map_option (\<lambda>i. (p, i)) (needed ''handlerId'' (as_uint 32) j))"

definition read_manifest :: "json \<Rightarrow> manifest_input option" where
  "read_manifest j =
     Option.bind (needed ''version'' (as_uint 32) j) (\<lambda>_.
     Option.bind (needed ''middlewares'' (as_list (needed ''pathPrefix'' as_str)) j) (\<lambda>middlewares.
     Option.bind (needed ''routes'' (as_list read_route) j) (\<lambda>routes.
     Option.bind (defaulted ''wsRoutes'' [] (as_list read_ws_route) j) (\<lambda>wsRoutes.
     Some \<lparr>mi_middlewares = middlewares, mi_routes = routes, mi_ws_routes = wsRoutes\<rparr>))))"

lemmas read_defs = needed_def defaulted_def member_def as_str_def as_bool_def as_uint_def as_list_def

lemma those_map: "those (map f xs) = Some ys \<longleftrightarrow> list_all2 (\<lambda>x y. f x = Some y) xs ys"
  by (induction xs arbitrary: ys) (auto simp: list_all2_Cons1 split: option.splits)

lemma those_strings [simp]: "those (map (as_str \<circ> JStr) xs) = Some xs"
  by (induction xs) (simp_all add: as_str_def)

lemma routes_of_manifest:
  assumes "read_manifest (build_manifest app cfg tls middlewares routes) = Some m"
  shows "list_all2 (\<lambda>r i. read_route (manifest_route r) = Some i) routes (mi_routes m)"
  using assms
  by (auto simp: read_manifest_def build_manifest_def read_defs those_map list_all2_map1 bind_eq_Some_conv)

text \<open>What the native layer knows of a route is what the compiler knows; a limit of the body is not among it.\<close>

lemma read_route_fields:
  assumes "read_route (manifest_route r) = Some i"
  shows "ri_method_code i = sh_methodCode (sr_shape r)" "ri_route_kind i = sh_routeKind (sr_shape r)"
    "ri_path i = rr_path r" "ri_handler_id i = rr_handlerId r" "ri_param_names i = sh_paramNames (sr_shape r)"
    "ri_max_body_bytes i = None" "ri_static_response i = None \<longleftrightarrow> rr_staticResponse r = None"
  using assms
  by (auto simp: read_static_def as_option_def read_route_def manifest_route_def Let_def read_defs bind_eq_Some_conv strings_json_def nat_json_def
      split: if_splits option.splits prod.splits)

section \<open>Segments\<close>

lemma nonempty_slash: "filter (\<lambda>s. s \<noteq> []) (split_on c (c # s)) = filter (\<lambda>s. s \<noteq> []) (split_on c s)"
  by simp

lemma nonempty_trim: "nonempty_segments s = segments s"
proof -
  have "filter (\<lambda>p. p \<noteq> []) (split_on (CHR ''/'') (dropWhile (\<lambda>c. c = CHR ''/'') s)) = segments s"
    by (induction s) (simp_all add: segments_def)
  then show ?thesis by (simp add: nonempty_segments_def trim_start_slashes_def)
qed

lemma request_segments: "split_request_segments path = segments path"
  by (simp add: split_request_segments_def nonempty_trim segments_def)

lemma route_segments: "startsWith path ''/'' \<Longrightarrow> path_segments path = segments path"
  by (cases path) (auto simp: path_segments_def segments_def startsWith_Cons)

lemma normal_slash: "normal_path p \<Longrightarrow> startsWith p ''/''"
  by (auto simp: normal_path_def startsWith_Cons)

lemma normalize_path_id: "normal_path p \<Longrightarrow> normalize_path p = p"
  by (auto simp: normalize_path_def normal_path_def strip_slashes_id startsWith_Cons Let_def)

definition to_pattern :: "string list \<Rightarrow> path_segment list" where
  "to_pattern = map (\<lambda>s. if startsWith s '':'' then ParamSegment else StaticSegment s)"

lemma parse_normal: "normal_path p \<Longrightarrow> parse_segments p = to_pattern (segments p)"
  by (auto simp: parse_segments_def to_pattern_def normalize_path_id nonempty_trim) (simp_all add: segments_def)

definition is_param :: "string \<Rightarrow> bool" where "is_param s \<longleftrightarrow> startsWith s '':''"

lemma is_param_abs: "(\<lambda>s. startsWith s '':'') = is_param"
  by (simp add: fun_eq_iff is_param_def)

definition route_params :: "'g route_reg \<Rightarrow> string list" where
  "route_params r = map tl (filter is_param (segments (rr_path r)))"

text \<open>What a request path binds the parameters of a route path to.\<close>

fun path_bindings :: "string list \<Rightarrow> string list \<Rightarrow> (string \<times> string) list" where
  "path_bindings (p # ps) (s # ss) = (if is_param p then (tl p, s) # path_bindings ps ss else path_bindings ps ss)"
| "path_bindings _ _ = []"

text \<open>A route without parameters is meant by its own path only, the others by every path that fits.\<close>

definition route_fits :: "'g route_reg \<Rightarrow> string \<Rightarrow> bool" where
  "route_fits r path \<longleftrightarrow>
     (if route_params r = [] then path = rr_path r else fits (to_pattern (segments (rr_path r))) (segments path))"

lemma bindings_of_captures:
  "fits (to_pattern ps) ss \<Longrightarrow> zip (map tl (filter is_param ps)) (captures (to_pattern ps) ss) = path_bindings ps ss
    \<and> length (captures (to_pattern ps) ss) = length (filter is_param ps)"
proof (induction ps arbitrary: ss)
  case (Cons p ps)
  then show ?case by (cases ss) (auto simp: to_pattern_def is_param_def split: if_splits)
qed (simp add: to_pattern_def)

lemma no_bindings: "filter is_param ps = [] \<Longrightarrow> path_bindings ps ss = []"
  by (induction ps ss rule: path_bindings.induct) (auto split: if_splits)

section \<open>Registered routes in the tables of the router\<close>

definition same_route :: "'g route_reg \<Rightarrow> route_input \<Rightarrow> bool" where
  "same_route r i \<longleftrightarrow> map_of METHOD_CODES (rr_method r) = Some (ri_method_code i) \<and> ri_path i = rr_path r
     \<and> ri_handler_id i = rr_handlerId r \<and> ri_param_names i = route_params r
     \<and> ri_route_kind i = (if route_params r = [] then ROUTE_KIND_EXACT else ROUTE_KIND_PARAM)
     \<and> (ri_static_response i = None \<longleftrightarrow> rr_staticResponse r = None)"

lemma compiled_static [simp]:
  "rr_staticResponse (compileRouteDispatch y ms ps b) = rr_staticResponse y" "rr_cache (compileRouteDispatch y ms ps b) = rr_cache y"
  by (cases y; simp add: compileRouteDispatch_def Let_def shaped_route.defs)+

lemma shape_of_route:
  assumes "compileRouteShape (rr_method r) (rr_path r) = Inr sh" "normal_path (rr_path r)"
  shows "map_of METHOD_CODES (rr_method r) = Some (sh_methodCode sh)" "sh_paramNames sh = route_params r"
    "sh_routeKind sh = (if route_params r = [] then ROUTE_KIND_EXACT else ROUTE_KIND_PARAM)"
  using assms(1) route_segments [OF normal_slash [OF assms(2)]]
  by (auto simp: compileRouteShape_def Let_def route_params_def is_param_abs EXACT_def PARAM_def ROUTE_KIND_EXACT_def
      ROUTE_KIND_PARAM_def split: option.splits)

lemma manifest_of_app:
  assumes "app_ok app" "buildCompiledApplication analyze runMock cfg tls optCache app = Inr c"
    "read_manifest (build_manifest app cfg' tls' ms (ca_routes c)) = Some m"
  shows "list_all2 same_route (an_routes app) (mi_routes m)"
proof -
  from assms(2) obtain shaped where
    l: "list_all2 (\<lambda>r y. shape_route analyze runMock r = Inr y) (an_routes app) shaped" and
    c: "ca_routes c = map (\<lambda>y. compileRouteDispatch y (map (compileMiddlewareRegistration analyze) (an_middlewares app))
        (map (\<lambda>_. ERROR_HANDLER_PLAN) (an_errorHandlers app)) optCache) shaped"
    by (rule built_routes)
  have l': "list_all2 (\<lambda>r y. shape_route analyze runMock r = Inr y \<and> normal_path (rr_path r)) (an_routes app) shaped"
    using assms(1) by (intro list.rel_mono_strong [OF l]) (simp add: app_ok_def route_ok_def)
  have s: "list_all2 (\<lambda>y (i::route_input). ri_method_code i = sh_methodCode (sr_shape y) \<and> ri_route_kind i = sh_routeKind (sr_shape y)
      \<and> ri_path i = rr_path y \<and> ri_handler_id i = rr_handlerId y \<and> ri_param_names i = sh_paramNames (sr_shape y)
      \<and> (ri_static_response i = None \<longleftrightarrow> rr_staticResponse y = None)) shaped (mi_routes m)"
    using routes_of_manifest [OF assms(3)] unfolding c list_all2_map1
    by (rule list_all2_mono) (auto simp: read_route_fields)
  show ?thesis
  proof (rule list_all2_trans [OF _ l' s], clarify)
    fix r y and i :: route_input
    assume y: "shape_route analyze runMock r = Inr y" "normal_path (rr_path r)"
      and i: "ri_method_code i = sh_methodCode (sr_shape y)" "ri_route_kind i = sh_routeKind (sr_shape y)"
        "ri_path i = rr_path y" "ri_handler_id i = rr_handlerId y" "ri_param_names i = sh_paramNames (sr_shape y)"
        "ri_static_response i = None \<longleftrightarrow> rr_staticResponse y = None"
    from shape_of_route [OF shape_route_fields(7) [OF y(1)] y(2)] show "same_route r i"
      by (simp add: same_route_def i shape_route_fields(1,3,5) [OF y(1)])
  qed
qed

lemma fits_own_segments: "filter is_param ps = [] \<Longrightarrow> fits (to_pattern ps) ps"
  by (induction ps) (auto simp: to_pattern_def is_param_def split: if_splits)

lemma exact_entry:
  "map_of (exact_table ay m key) path = Some spec \<Longrightarrow>
    \<exists>i\<in>set (mi_routes m). method_from_code (ri_method_code i) = Some key \<and> ri_route_kind i = ROUTE_KIND_EXACT
      \<and> normalize_path (ri_path i) = path \<and> spec = spec_of ay m i"
  by (force simp: exact_table_def dispatched_def dest!: map_of_SomeD)

lemma pattern_entry:
  "map_of (pattern_table ay m key) p = Some spec \<Longrightarrow>
    \<exists>i\<in>set (mi_routes m). method_from_code (ri_method_code i) = Some key \<and> ri_route_kind i = ROUTE_KIND_PARAM
      \<and> pattern_of i = p \<and> spec = spec_of ay m i"
  by (force simp: pattern_table_def dispatched_def dest!: map_of_SomeD)

lemma dispatched_entry:
  assumes "i \<in> set (mi_routes m)" "static_of ay (mi_middlewares m) i = None" "method_from_code (ri_method_code i) = Some key"
  shows "ri_route_kind i = ROUTE_KIND_EXACT \<Longrightarrow> map_of (exact_table ay m key) (normalize_path (ri_path i)) \<noteq> None"
    and "ri_route_kind i = ROUTE_KIND_PARAM \<Longrightarrow> map_of (pattern_table ay m key) (pattern_of i) \<noteq> None"
  using assms by (auto simp: exact_table_def pattern_table_def dispatched_def map_of_eq_None_iff image_image image_iff)

lemma spec_fields [simp]:
  "ds_handler_id (spec_of ay m i) = ri_handler_id i" "ds_param_names (spec_of ay m i) = ri_param_names i"
  by (simp_all add: spec_of_def compile_dynamic_route_spec_def)

text \<open>The code of a method means one method to both sides.\<close>

lemma method_code_key:
  "map_of METHOD_CODES meth = Some code \<Longrightarrow> method_from_str meth = method_from_code code \<and> method_from_code code \<noteq> None"
  by (auto simp: METHOD_CODES_def method_from_str_def method_from_code_def split: if_splits)

lemma same_key:
  "map_of METHOD_CODES meth = Some code \<Longrightarrow> map_of METHOD_CODES meth' = Some code' \<Longrightarrow>
    method_from_code code = method_from_code code' \<longleftrightarrow> meth = meth'"
  by (auto simp: METHOD_CODES_def method_from_code_def split: if_splits)

section \<open>The way of a request\<close>

lemma dispatched_route:
  assumes "app_ok app" "buildCompiledApplication analyze runMock cfg tls optCache app = Inr c" "r \<in> set (an_routes app)"
  shows "\<exists>rt. find_route (buildDispatchState production alloc c) (rr_handlerId r) = Some rt
    \<and> rt_handler rt = fn_handler (rr_handler r) \<and> rt_paramNames rt = route_params r
    \<and> rt_middlewares rt = map (mf_middleware \<circ> mr_handler)
        (filter (\<lambda>m. pathPrefixMatches (mr_pathPrefix m) (rr_path r)) (an_middlewares app))"
proof -
  obtain y where y: "shape_route analyze runMock r = Inr y"
    and f: "find_route (buildDispatchState production alloc c) (rr_handlerId r)
      = Some (dispatch_route (compileRouteDispatch y (map (compileMiddlewareRegistration analyze) (an_middlewares app))
          (map (\<lambda>_. ERROR_HANDLER_PLAN) (an_errorHandlers app)) optCache))"
    by (rule built_route [OF assms])
  have n: "normal_path (rr_path r)" using assms(1,3) by (simp add: app_ok_def route_ok_def)
  note fs = shape_route_fields [OF y]
  show ?thesis
    using f fs(3,4) shape_of_route(2) [OF fs(7) n] by (simp add: dispatch_route_def applicable_compiled comp_def)
qed

text \<open>Whether the native layer answers the route by itself, without the dispatcher.\<close>

definition answered_natively :: "('e, 'f) analyzer \<Rightarrow> manifest_input \<Rightarrow> 'g route_reg \<Rightarrow> bool" where
  "answered_natively ay m r \<longleftrightarrow> (\<exists>i\<in>set (mi_routes m). ri_handler_id i = rr_handlerId r \<and> static_of ay (mi_middlewares m) i \<noteq> None)"

lemma same_route_fits:
  assumes "same_route r i" "normal_path (rr_path r)"
  shows "ri_route_kind i = ROUTE_KIND_EXACT \<Longrightarrow> route_fits r path \<longleftrightarrow> normalize_path (ri_path i) = path"
    and "ri_route_kind i = ROUTE_KIND_PARAM \<Longrightarrow> route_fits r path \<longleftrightarrow> fits (pattern_of i) (split_request_segments path)"
  using assms
  by (auto simp: same_route_def route_fits_def normalize_path_id pattern_of_def parse_normal request_segments)

lemma same_route_binds:
  assumes "same_route r i" "normal_path (rr_path r)" "ri_route_kind i = ROUTE_KIND_PARAM" "fits (pattern_of i) (split_request_segments path)"
  shows "zip (route_params r) (captures (pattern_of i) (split_request_segments path)) = path_bindings (segments (rr_path r)) (segments path)
    \<and> length (captures (pattern_of i) (split_request_segments path)) = length (route_params r)"
  using assms bindings_of_captures [of "segments (rr_path r)" "segments path"]
  by (auto simp: same_route_def route_params_def normalize_path_id pattern_of_def parse_normal request_segments)

lemma same_route_params:
  assumes "same_route r i" "normal_path (rr_path r)"
  shows "param_count (pattern_of i) = length (route_params r)"
  using assms
  by (simp add: same_route_def param_count_def pattern_of_def normalize_path_id parse_normal to_pattern_def route_params_def
      filter_map comp_def is_param_abs if_distrib [of "\<lambda>s. s = ParamSegment"])

text \<open>Which registered route a matched specification belongs to, and which routes an unmatched path does not fit.\<close>

lemma matched_route:
  assumes "list_all2 same_route (an_routes app) (mi_routes m)" "\<forall>r\<in>set (an_routes app). normal_path (rr_path r)"
    "method_from_code code = Some key" "map_of METHOD_CODES meth = Some code" "routed_by ay m key path spec vs"
  shows "\<exists>r\<in>set (an_routes app). rr_method r = meth \<and> ds_handler_id spec = rr_handlerId r \<and> route_fits r path
    \<and> length vs = length (route_params r) \<and> zip (route_params r) vs = path_bindings (segments (rr_path r)) (segments path)"
proof -
  have reg: "\<exists>r\<in>set (an_routes app). same_route r i \<and> rr_method r = meth"
    if "i \<in> set (mi_routes m)" "method_from_code (ri_method_code i) = Some key" for i
  proof -
    obtain r where r: "r \<in> set (an_routes app)" "same_route r i" using list_all2_sides [OF assms(1)] \<open>i \<in> _\<close> by blast
    then have "rr_method r = meth"
      using same_key [OF assms(4), of "rr_method r" "ri_method_code i"] that(2) assms(3) by (simp add: same_route_def)
    with r show ?thesis by blast
  qed
  show ?thesis
  proof (cases "map_of (exact_table ay m key) path")
    case (Some spec')
    then have "spec' = spec" "vs = []" using assms(5) by (auto simp: routed_by_def)
    from exact_entry [OF Some] obtain i where i: "i \<in> set (mi_routes m)" "method_from_code (ri_method_code i) = Some key"
      "ri_route_kind i = ROUTE_KIND_EXACT" "normalize_path (ri_path i) = path" "spec' = spec_of ay m i" by blast
    from reg [OF i(1,2)] obtain r where r: "r \<in> set (an_routes app)" "same_route r i" "rr_method r = meth" by blast
    have f: "route_fits r path" using same_route_fits(1) [OF r(2) _ i(3)] assms(2) r(1) i(4) by simp
    have p: "route_params r = []" using r(2) i(3) by (simp add: same_route_def split: if_splits)
    then have "path_bindings (segments (rr_path r)) (segments path) = []" by (intro no_bindings) (simp add: route_params_def)
    then show ?thesis using r f p \<open>spec' = spec\<close> \<open>vs = []\<close> i(5) by (intro bexI [of _ r]) (auto simp: same_route_def)
  next
    case None
    then obtain p where p: "fits p (split_request_segments path)" "map_of (pattern_table ay m key) p = Some spec"
      "vs = captures p (split_request_segments path)" using assms(5) by (auto simp: routed_by_def Let_def)
    from pattern_entry [OF p(2)] obtain i where i: "i \<in> set (mi_routes m)" "method_from_code (ri_method_code i) = Some key"
      "ri_route_kind i = ROUTE_KIND_PARAM" "pattern_of i = p" "spec = spec_of ay m i" by blast
    from reg [OF i(1,2)] obtain r where r: "r \<in> set (an_routes app)" "same_route r i" "rr_method r = meth" by blast
    have n: "normal_path (rr_path r)" using assms(2) r(1) by simp
    show ?thesis
      using r same_route_fits(2) [OF r(2) n i(3)] same_route_binds [OF r(2) n i(3)] p(1,3) i(4,5)
      by (intro bexI [of _ r]) (auto simp: same_route_def)
  qed
qed

lemma unmatched_route:
  assumes "list_all2 same_route (an_routes app) (mi_routes m)" "\<forall>r\<in>set (an_routes app). normal_path (rr_path r)"
    "method_from_code code = Some key" "map_of METHOD_CODES meth = Some code" "unrouted ay m key path"
    "r \<in> set (an_routes app)" "rr_method r = meth" "route_fits r path"
  shows "answered_natively ay m r"
proof -
  obtain i where i: "i \<in> set (mi_routes m)" "same_route r i" using list_all2_sides [OF assms(1)] assms(6) by blast
  have n: "normal_path (rr_path r)" using assms(2,6) by simp
  have "method_from_code (ri_method_code i) = Some key" using i(2) assms(3,4,7) by (simp add: same_route_def)
  note d = dispatched_entry [OF i(1) _ this]
  have "static_of ay (mi_middlewares m) i \<noteq> None"
  proof
    assume none: "static_of ay (mi_middlewares m) i = None"
    have "ri_route_kind i = ROUTE_KIND_EXACT \<or> ri_route_kind i = ROUTE_KIND_PARAM"
      using i(2) by (simp add: same_route_def)
    then show False
      using d [OF none] same_route_fits [OF i(2) n, of path] assms(5,8) by (auto simp: unrouted_def)
  qed
  then show ?thesis using i by (auto simp: answered_natively_def same_route_def)
qed

lemma route_of_request:
  assumes "app_ok app" "buildCompiledApplication analyze runMock cfg tls optCache app = Inr c"
    "read_manifest (build_manifest app cfg tls (ca_middlewares c) (ca_routes c)) = Some m"
    "map_of METHOD_CODES meth = Some code"
  shows "case match_route (from_manifest ay m) code path of
      Panics \<Rightarrow> 16 < length (split_request_segments path) \<and> (\<exists>r\<in>set (an_routes app). 16 < length (route_params r))
    | Misses \<Rightarrow> \<forall>r\<in>set (an_routes app). rr_method r = meth \<and> route_fits r path \<longrightarrow> answered_natively ay m r
    | Finds (spec, vs) \<Rightarrow> \<exists>r\<in>set (an_routes app). \<exists>rt. rr_method r = meth \<and> route_fits r path
        \<and> find_route (buildDispatchState production alloc c) (ds_handler_id spec) = Some rt
        \<and> rt_handler rt = fn_handler (rr_handler r)
        \<and> rt_middlewares rt = map (mf_middleware \<circ> mr_handler)
            (filter (\<lambda>m. pathPrefixMatches (mr_pathPrefix m) (rr_path r)) (an_middlewares app))
        \<and> length vs = length (rt_paramNames rt)
        \<and> zip (rt_paramNames rt) vs = path_bindings (segments (rr_path r)) (segments path)"
proof -
  obtain key where key: "method_from_code code = Some key" using method_code_key [OF assms(4)] by blast
  have l: "list_all2 same_route (an_routes app) (mi_routes m)" by (rule manifest_of_app [OF assms(1-3)])
  have n: "\<forall>r\<in>set (an_routes app). normal_path (rr_path r)" using assms(1) by (simp add: app_ok_def route_ok_def)
  note ok = match_route_ok [OF key, where ay = ay and m = m and path = path]
  show ?thesis
  proof (cases "match_route (from_manifest ay m) code path")
    case Panics
    with ok obtain i where i: "i \<in> set (mi_routes m)" "16 < param_count (pattern_of i)" "16 < length (split_request_segments path)"
      by auto
    obtain r where r: "r \<in> set (an_routes app)" "same_route r i" using list_all2_sides [OF l] i(1) by blast
    then show ?thesis using Panics i(2,3) n same_route_params [OF r(2)] by auto
  next
    case Misses
    then show ?thesis using ok unmatched_route [OF l n key assms(4)] by auto
  next
    case (Finds f)
    obtain spec vs where f: "f = (spec, vs)" by (cases f)
    from ok Finds f have "routed_by ay m key path spec vs" by simp
    from matched_route [OF l n key assms(4) this] obtain r where r: "r \<in> set (an_routes app)" "rr_method r = meth"
      "ds_handler_id spec = rr_handlerId r" "route_fits r path" "length vs = length (route_params r)"
      "zip (route_params r) vs = path_bindings (segments (rr_path r)) (segments path)" by blast
    obtain rt where "find_route (buildDispatchState production alloc c) (rr_handlerId r) = Some rt"
      "rt_handler rt = fn_handler (rr_handler r)" "rt_paramNames rt = route_params r"
      "rt_middlewares rt = map (mf_middleware \<circ> mr_handler)
        (filter (\<lambda>m. pathPrefixMatches (mr_pathPrefix m) (rr_path r)) (an_middlewares app))"
      using dispatched_route [OF assms(1,2) r(1)] n r(1) by blast
    then show ?thesis using Finds f r by auto
  qed
qed

text \<open>C12: A request reaches the handler it is registered for: what the native layer finds for method and path is the
  handler id of a registered route of this method that fits the path, under this id the dispatcher has the handler
  of the route and the middlewares whose prefix matches its path, and the values pair up with the parameter names
  as the path binds them.  If nothing is found, every registered route that fits is answered natively.  The native
  layer panics only on a path of more than 16 segments in an application with a route of more than 16 parameters.\<close>

theorem request_reaches_its_route:
  assumes "app_ok app" "buildCompiledApplication analyze runMock cfg tls optCache app = Inr c"
    "read_manifest (build_manifest app cfg tls (ca_middlewares c) (ca_routes c)) = Some m"
    "map_of METHOD_CODES meth = Some code"
  shows "case match_route (from_manifest ay m) code path of
      Panics \<Rightarrow> 16 < length (split_request_segments path) \<and> (\<exists>r\<in>set (an_routes app). 16 < length (route_params r))
    | Misses \<Rightarrow> \<forall>r\<in>set (an_routes app). rr_method r = meth \<and> route_fits r path \<longrightarrow> answered_natively ay m r
    | Finds (spec, vs) \<Rightarrow> \<exists>r\<in>set (an_routes app). \<exists>rt. rr_method r = meth \<and> route_fits r path
        \<and> find_route (buildDispatchState production alloc c) (ds_handler_id spec) = Some rt
        \<and> rt_handler rt = fn_handler (rr_handler r)
        \<and> rt_middlewares rt = map (mf_middleware \<circ> mr_handler)
            (filter (\<lambda>m. pathPrefixMatches (mr_pathPrefix m) (rr_path r)) (an_middlewares app))
        \<and> length vs = length (rt_paramNames rt)
        \<and> zip (rt_paramNames rt) vs = path_bindings (segments (rr_path r)) (segments path)"
  by (rule route_of_request [OF assms])

section \<open>An application\<close>

text \<open>The manifest is read if the numbers in it fit, here for routes without cache options.\<close>

lemma route_is_read:
  assumes "sh_methodCode (sr_shape r) < 256" "sh_routeKind (sr_shape r) < 256" "rr_handlerId r < 2 ^ 32"
    "sh_segmentCount (sr_shape r) < 65536" "rr_cache r = None" "rr_staticResponse r = None"
  shows "\<exists>i. read_route (manifest_route r) = Some i"
  using assms
  by (simp add: read_route_def manifest_route_def Let_def read_defs strings_json_def nat_json_def as_option_def
      normalizeManifestCache_def)

lemma those_some: "(\<forall>x\<in>set xs. \<exists>y. f x = Some y) \<Longrightarrow> \<exists>ys. those (map f xs) = Some ys"
  by (induction xs) auto

lemma manifest_is_read:
  assumes "\<forall>r\<in>set routes. \<exists>i. read_route (manifest_route r) = Some i" "an_wsRoutes app = []"
  shows "\<exists>m. read_manifest (build_manifest app cfg tls middlewares routes) = Some m"
proof -
  let ?j = "build_manifest app cfg tls middlewares routes"
  have version: "needed ''version'' (as_uint 32) ?j = Some 1"
    by (simp add: build_manifest_def read_defs)
  have ms: "\<exists>ps. needed ''middlewares'' (as_list (needed ''pathPrefix'' as_str)) ?j = Some ps"
    using those_some [of middlewares "needed ''pathPrefix'' as_str \<circ> (\<lambda>m. JObj [(''pathPrefix'', JStr (mr_pathPrefix m))])"]
    by (simp add: build_manifest_def needed_def member_def as_list_def as_str_def)
  have rs: "\<exists>is. needed ''routes'' (as_list read_route) ?j = Some is"
    using those_some [of routes "read_route \<circ> manifest_route"] assms(1)
    by (simp add: build_manifest_def needed_def member_def as_list_def)
  have ws: "defaulted ''wsRoutes'' [] (as_list read_ws_route) ?j = Some []"
    using assms(2) by (simp add: build_manifest_def defaulted_def member_def as_list_def)
  show ?thesis using version ms rs ws by (auto simp: read_manifest_def)
qed

definition admin_program :: "nat command list" where
  "admin_program = [Use (Some ''/admin'') (Some quiet_mw), Route ''GET'' ''/:section/stats'' no_options (Some reading_func) None]"

definition admin_application :: "nat application" where
  "admin_application = snd (run_commands admin_program createApp)"

lemma admin_registrations:
  "map (\<lambda>r. (rr_method r, rr_path r, rr_handlerId r, rr_staticResponse r = None, rr_cache r = None)) (an_routes admin_application)
     = [(''GET'', ''/:section/stats'', 1, True, True)]
   \<and> map mr_pathPrefix (an_middlewares admin_application) = [''/admin''] \<and> an_wsRoutes admin_application = []"
  by code_simp

lemma admin_ok: "app_ok admin_application"
  unfolding admin_application_def by (rule program_ok(2) [OF createApp_ok])

lemma admin_segments:
  "segments ''/:section/stats'' = ['':section'', ''stats'']" "segments ''/admin/stats'' = [''admin'', ''stats'']"
  "path_segments ''/:section/stats'' = ['':section'', ''stats'']"
  by code_simp+

lemma admin_parts:
  obtains r mw where "an_routes admin_application = [r]" "an_middlewares admin_application = [mw]" "rr_path r = ''/:section/stats''"
    "rr_method r = ''GET''" "rr_handlerId r = 1" "rr_staticResponse r = None" "rr_cache r = None" "mr_pathPrefix mw = ''/admin''"
  using admin_registrations by (auto simp: map_eq_Cons_conv)

lemma admin_compiles:
  "\<exists>c m. buildCompiledApplication demo_analyze no_mock httpServerConfig None False admin_application = Inr c
    \<and> read_manifest (build_manifest admin_application httpServerConfig None (ca_middlewares c) (ca_routes c)) = Some m"
proof (rule admin_parts)
  fix r mw
  assume a: "an_routes admin_application = [r]" "an_middlewares admin_application = [mw]" "rr_path r = ''/:section/stats''"
    "rr_method r = ''GET''" "rr_handlerId r = 1" "rr_staticResponse r = None" "rr_cache r = None"
  have "list_all (\<lambda>r. rr_method r \<in> set HTTP_METHODS) (an_routes admin_application)"
    by (simp add: a HTTP_METHODS_def)
  from static_check [OF this, of demo_analyze no_mock httpServerConfig None False]
  obtain c where c: "buildCompiledApplication demo_analyze no_mock httpServerConfig None False admin_application = Inr c"
    by (auto simp: a split: sum.splits)
  then obtain shaped where
    l: "list_all2 (\<lambda>r y. shape_route demo_analyze no_mock r = Inr y) (an_routes admin_application) shaped" and
    routes: "ca_routes c = map (\<lambda>y. compileRouteDispatch y (map (compileMiddlewareRegistration demo_analyze) (an_middlewares admin_application))
        (map (\<lambda>_. ERROR_HANDLER_PLAN) (an_errorHandlers admin_application)) False) shaped"
    by (rule built_routes)
  from l obtain y where y: "shaped = [y]" "shape_route demo_analyze no_mock r = Inr y" by (auto simp: a list_all2_Cons1)
  note fs = shape_route_fields [OF y(2)]
  have e: "Inr (sr_shape y) = compileRouteShape ''GET'' ''/:section/stats''" using fs(7) by (simp add: a)
  have sh: "sh_methodCode (sr_shape y) = 1" "sh_routeKind (sr_shape y) \<le> 2" "sh_segmentCount (sr_shape y) = 2"
    using e by (simp_all add: compileRouteShape_def METHOD_CODES_def Let_def EXACT_def PARAM_def admin_segments)
  have "\<forall>r\<in>set (ca_routes c). \<exists>i. read_route (manifest_route r) = Some i"
    unfolding routes y(1) using sh fs(1,5,6) by (auto simp: a intro!: route_is_read)
  from manifest_is_read [OF this] admin_registrations c show ?thesis by blast
qed

lemma admin_fits:
  assumes "buildCompiledApplication demo_analyze no_mock httpServerConfig None False admin_application = Inr c"
    "read_manifest (build_manifest admin_application httpServerConfig None (ca_middlewares c) (ca_routes c)) = Some m"
    "an_routes admin_application = [r]" "rr_path r = ''/:section/stats''" "rr_staticResponse r = None"
  shows "map_of METHOD_CODES ''GET'' = Some 1" "length (split_request_segments ''/admin/stats'') = 2"
    "route_fits r ''/admin/stats''" "\<not> answered_natively no_analysis m r"
proof -
  have "list_all2 same_route (an_routes admin_application) (mi_routes m)" by (rule manifest_of_app [OF admin_ok assms(1,2)])
  then show "\<not> answered_natively no_analysis m r"
    using assms by (auto simp: list_all2_Cons1 same_route_def answered_natively_def static_of_def no_analysis_def)
qed (simp_all add: METHOD_CODES_def request_segments route_fits_def route_params_def assms(4) admin_segments is_param_def
    to_pattern_def startsWith_Cons)

theorem request_reaches_its_route_witness:
  "\<exists>c m spec vs rt. buildCompiledApplication demo_analyze no_mock httpServerConfig None False admin_application = Inr c
    \<and> match_route (from_manifest no_analysis m) 1 ''/admin/stats'' = Finds (spec, vs)
    \<and> find_route (buildDispatchState True (\<lambda>n. replicate n 0) c) (ds_handler_id spec) = Some rt
    \<and> zip (rt_paramNames rt) vs = [(''section'', ''admin'')]"
proof (rule admin_parts)
  fix r mw
  assume a: "an_routes admin_application = [r]" "rr_path r = ''/:section/stats''" "rr_method r = ''GET''" "rr_staticResponse r = None"
  obtain c m where c: "buildCompiledApplication demo_analyze no_mock httpServerConfig None False admin_application = Inr c"
    "read_manifest (build_manifest admin_application httpServerConfig None (ca_middlewares c) (ca_routes c)) = Some m"
    using admin_compiles by blast
  note f = admin_fits [OF c a(1,2,4)]
  from request_reaches_its_route [OF admin_ok c f(1), where ay = no_analysis and production = True and alloc = "\<lambda>n. replicate n 0" and path = "''/admin/stats''"] c(1) f(2-4) show ?thesis
    by (cases "match_route (from_manifest no_analysis m) 1 ''/admin/stats''")
      (auto simp: a admin_segments is_param_def startsWith_Cons)
qed

text \<open>The prefix of a middleware is compared with the path of the route, not with the one of the request: a path
  below the prefix that a parameter fits is answered without the middleware.\<close>

lemma parameter_passes_by_middleware:
  "pathPrefixMatches ''/admin'' ''/admin/stats''"
  "\<exists>c m spec vs rt. buildCompiledApplication demo_analyze no_mock httpServerConfig None False admin_application = Inr c
    \<and> read_manifest (build_manifest admin_application httpServerConfig None (ca_middlewares c) (ca_routes c)) = Some m
    \<and> map mr_pathPrefix (an_middlewares admin_application) = [''/admin'']
    \<and> match_route (from_manifest no_analysis m) 1 ''/admin/stats'' = Finds (spec, vs)
    \<and> find_route (buildDispatchState True (\<lambda>n. replicate n 0) c) (ds_handler_id spec) = Some rt \<and> rt_middlewares rt = []"
proof -
  show "pathPrefixMatches ''/admin'' ''/admin/stats''" by code_simp
next
  have no: "\<not> pathPrefixMatches ''/admin'' ''/:section/stats''" by code_simp
  obtain r mw where a: "an_routes admin_application = [r]" "an_middlewares admin_application = [mw]" "rr_path r = ''/:section/stats''"
    "rr_method r = ''GET''" "rr_staticResponse r = None" "mr_pathPrefix mw = ''/admin''" by (rule admin_parts)
  obtain c m where c: "buildCompiledApplication demo_analyze no_mock httpServerConfig None False admin_application = Inr c"
    "read_manifest (build_manifest admin_application httpServerConfig None (ca_middlewares c) (ca_routes c)) = Some m"
    using admin_compiles by blast
  note f = admin_fits [OF c a(1,3,5)]
  from route_of_request [OF admin_ok c f(1), where ay = no_analysis and production = True and alloc = "\<lambda>n. replicate n 0" and path = "''/admin/stats''"] c f(2-4) no
  show "\<exists>c m spec vs rt. buildCompiledApplication demo_analyze no_mock httpServerConfig None False admin_application = Inr c
    \<and> read_manifest (build_manifest admin_application httpServerConfig None (ca_middlewares c) (ca_routes c)) = Some m
    \<and> map mr_pathPrefix (an_middlewares admin_application) = [''/admin'']
    \<and> match_route (from_manifest no_analysis m) 1 ''/admin/stats'' = Finds (spec, vs)
    \<and> find_route (buildDispatchState True (\<lambda>n. replicate n 0) c) (ds_handler_id spec) = Some rt \<and> rt_middlewares rt = []"
    by (cases "match_route (from_manifest no_analysis m) 1 ''/admin/stats''") (auto simp: a)
qed

end
