(* ===== verification/RouteSource.thy ===== *)
theory RouteSource
  imports Registration
begin

text \<open>
  Small parts of \<open>src/src/index.js\<close> around registration: where in the user's files a route was registered, read off
  a stack trace (\<open>captureRouteRegistrationLocation\<close>), plugins made with \<open>definePlugin\<close>, decorators put on a request,
  and the chains of lifecycle hooks.  The text of the stack, \<open>fileURLToPath\<close>, the file system and the path of the
  module itself are inputs.
\<close>

section \<open>The place of a registration\<close>

text \<open>The parts of the regular expression \<open>\(?((?:file:\/\/)?[^)\s]+):(\d+):(\d+)\)?\<close>: line and column, the longest
  name before them (\<open>file://\<close> consists of characters of a name), an optional parenthesis, and the first place where
  the expression matches.\<close>

definition name_char :: "char \<Rightarrow> bool" where
  "name_char c \<longleftrightarrow> c \<noteq> CHR '')'' \<and> \<not> is_ws c"

definition line_and_column :: "string \<Rightarrow> (nat \<times> nat) option" where
  "line_and_column s =
     (if \<not> startsWith s '':'' then None
      else
        let ds = takeWhile is_digit (tl s); rest = dropWhile is_digit (tl s) in
        if ds = [] \<or> \<not> startsWith rest '':'' then None
        else let cs = takeWhile is_digit (tl rest) in if cs = [] then None else Some (digits_val ds, digits_val cs))"

fun longest_name :: "nat \<Rightarrow> string \<Rightarrow> (string \<times> nat \<times> nat) option" where
  "longest_name 0 s = None"
| "longest_name (Suc k) s =
     (case line_and_column (drop (Suc k) s) of
        Some (l, c) \<Rightarrow> Some (take (Suc k) s, l, c)
      | None \<Rightarrow> longest_name k s)"

definition name_at :: "string \<Rightarrow> (string \<times> nat \<times> nat) option" where
  "name_at s = longest_name (length (takeWhile name_char s)) s"

definition frame_at :: "string \<Rightarrow> (string \<times> nat \<times> nat) option" where
  "frame_at s =
     (case (if startsWith s ''('' then name_at (tl s) else None) of
        Some r \<Rightarrow> Some r
      | None \<Rightarrow> name_at s)"

fun match_frame :: "string \<Rightarrow> (string \<times> nat \<times> nat) option" where
  "match_frame [] = frame_at []"
| "match_frame (c # s) = (case frame_at (c # s) of Some r \<Rightarrow> Some r | None \<Rightarrow> match_frame s)"

record source_env =
  sn_fileURLToPath :: "string \<Rightarrow> string option"
  sn_cwd :: "string list"
  sn_exists :: "string \<Rightarrow> bool"
  sn_module :: string

type_synonym exists_cache = "string \<Rightarrow> bool option"

definition cachedExistsSync :: "source_env \<Rightarrow> string \<Rightarrow> exists_cache \<Rightarrow> bool \<times> exists_cache" where
  "cachedExistsSync env filePath cache =
     (case cache filePath of
        Some b \<Rightarrow> (b, cache)
      | None \<Rightarrow> (sn_exists env filePath, cache(filePath \<mapsto> sn_exists env filePath)))"

definition frame_file :: "source_env \<Rightarrow> string \<Rightarrow> string option" where
  "frame_file env raw =
     map_option (\<lambda>p. if startsWith p ''/'' then p else resolve (sn_cwd env) p)
       (if startsWith raw ''file://'' then sn_fileURLToPath env raw else Some raw)"

fun locate :: "source_env \<Rightarrow> string list \<Rightarrow> exists_cache \<Rightarrow> location option \<times> exists_cache" where
  "locate env [] cache = (None, cache)"
| "locate env (stackLine # rest) cache =
     (let line = trim stackLine in
      if line = [] \<or> contains line ''node:internal'' \<or> contains line ''internal/'' then locate env rest cache
      else
        (case match_frame line of
           None \<Rightarrow> locate env rest cache
         | Some (raw, l, c) \<Rightarrow>
             (case frame_file env raw of
                None \<Rightarrow> locate env rest cache
              | Some filePath \<Rightarrow>
                  let (found, cache') = cachedExistsSync env filePath cache in
                  if \<not> found then locate env rest cache'
                  else if filePath = [] \<or> filePath = sn_module env then locate env rest cache'
                  else (Some \<lparr>lo_filePath = filePath, lo_line = l, lo_column = c\<rparr>, cache'))))"

definition captureRouteRegistrationLocation :: "source_env \<Rightarrow> string option \<Rightarrow> exists_cache \<Rightarrow> location option \<times> exists_cache" where
  "captureRouteRegistrationLocation env stack cache =
     (case stack of
        None \<Rightarrow> (None, cache)
      | Some s \<Rightarrow> if s = [] then (None, cache) else locate env (tl (split_on LF s)) cache)"

section \<open>Plugins, decorators and hooks\<close>

record 'f plugin_def =
  pd_name :: "string option"
  pd_version :: "string option"
  pd_setup :: "'f option"
  pd_teardown :: "'f option"

text \<open>A property that is missing or not a function is \<open>None\<close>.\<close>

definition definePlugin :: "'f plugin_def \<Rightarrow> reg_error + 'f plugin_def" where
  "definePlugin d =
     (if \<not> truthy_str (pd_name d) then Inl (Fault ''Plugin must have a name'')
      else if pd_setup d = None then Inl (Fault ''Plugin must have a setup function'')
      else Inr \<lparr>pd_name = pd_name d, pd_version = Some (case pd_version d of Some v \<Rightarrow> v | None \<Rightarrow> ''0.0.0''),
        pd_setup = pd_setup d, pd_teardown = pd_teardown d\<rparr>)"

definition applyDecorators :: "(string \<times> 'v) list \<Rightarrow> (string \<times> 'v) list \<Rightarrow> (string \<times> 'v) list" where
  "applyDecorators decorators req = foldl (\<lambda>r (key, v). AList.update key v r) req decorators"

text \<open>A hook changes the state or throws; \<open>None\<close> is the chain that is \<open>undefined\<close>.\<close>

type_synonym ('s, 'e) hook = "'s \<Rightarrow> 'e + 's"

fun run_hooks :: "('s, 'e) hook list \<Rightarrow> ('s, 'e) hook" where
  "run_hooks [] s = Inr s"
| "run_hooks (f # fs) s = ebind (f s) (run_hooks fs)"

definition compileHookChain :: "('s, 'e) hook list \<Rightarrow> ('s, 'e) hook option" where
  "compileHookChain fns = (case fns of [] \<Rightarrow> None | [f] \<Rightarrow> Some f | _ \<Rightarrow> Some (run_hooks fns))"

section \<open>What is found\<close>

lemma no_place_without_colon: "\<not> startsWith s '':'' \<Longrightarrow> line_and_column s = None"
  by (simp add: line_and_column_def)

lemma longest_none: "(\<And>j. 1 \<le> j \<Longrightarrow> j \<le> k \<Longrightarrow> line_and_column (drop j s) = None) \<Longrightarrow> longest_name k s = None"
  by (induction k) auto

lemma longest_skip:
  "(\<And>j. m < j \<Longrightarrow> j \<le> k \<Longrightarrow> line_and_column (drop j s) = None) \<Longrightarrow> m \<le> k \<Longrightarrow> longest_name k s = longest_name m s"
proof (induction k)
  case (Suc k)
  then show ?case by (cases "m = Suc k") auto
qed simp

text \<open>Words before the place, which end with a blank and hold no colon, are passed over.\<close>

lemma name_at_word:
  assumes "CHR '':'' \<notin> set u" "CHR 0x20 \<in> set u"
  shows "name_at (u @ s) = None"
  unfolding name_at_def
proof (rule longest_none)
  fix j assume "1 \<le> j" and j: "j \<le> length (takeWhile name_char (u @ s))"
  obtain v w where u: "u = v @ CHR 0x20 # w" using assms(2) by (auto simp: in_set_conv_decomp)
  have "takeWhile name_char (u @ s) = takeWhile name_char v"
    unfolding u by (induction v) (simp_all add: name_char_def is_ws_def)
  then have "j \<le> length v" using j takeWhile_append length_takeWhile_le [of name_char v] by simp
  then have "drop j (u @ s) = drop j v @ CHR 0x20 # w @ s" by (simp add: u)
  moreover have "hd (drop j v @ CHR 0x20 # w @ s) \<noteq> CHR '':''"
    using assms(1) in_set_dropD [of "hd (drop j v)" j v] by (cases "drop j v") (auto simp: u)
  ultimately have "\<not> startsWith (drop j (u @ s)) '':''"
    by (cases "drop j v @ CHR 0x20 # w @ s") (auto simp: startsWith_Cons)
  then show "line_and_column (drop j (u @ s)) = None" by (rule no_place_without_colon)
qed

lemma frame_at_word:
  "u \<noteq> [] \<Longrightarrow> CHR '':'' \<notin> set u \<Longrightarrow> CHR ''('' \<notin> set u \<Longrightarrow> CHR 0x20 \<in> set u \<Longrightarrow> frame_at (u @ s) = None"
  using name_at_word [of u s] by (cases u) (auto simp: frame_at_def startsWith_Cons)

lemma match_frame_words:
  "CHR '':'' \<notin> set u \<Longrightarrow> CHR ''('' \<notin> set u \<Longrightarrow> match_frame (u @ CHR 0x20 # s) = match_frame s"
proof (induction u)
  case Nil
  then show ?case using frame_at_word [of "[CHR 0x20]" s] by simp
next
  case (Cons c u)
  then show ?case using frame_at_word [of "c # u @ [CHR 0x20]" s] by simp
qed

definition place_text :: "string \<Rightarrow> nat \<Rightarrow> nat \<Rightarrow> string" where
  "place_text p l c = p @ '':'' @ nat_digits l @ '':'' @ nat_digits c"

lemma take_digits [simp]:
  "takeWhile is_digit (nat_digits n @ s) = nat_digits n @ takeWhile is_digit s"
  "dropWhile is_digit (nat_digits n @ s) = dropWhile is_digit s"
  using nat_digits_digits [of n] by (simp_all add: takeWhile_append2 dropWhile_append2)

lemma not_digits: "\<not> is_digit (CHR '':'')" "\<not> is_digit (CHR '')'')"
  by (simp_all add: is_digit_def)

lemma place_read:
  assumes "\<forall>d t. s = d # t \<longrightarrow> \<not> is_digit d"
  shows "line_and_column ('':'' @ nat_digits l @ '':'' @ nat_digits c @ s) = Some (l, c)"
proof -
  have "takeWhile is_digit s = []" using assms by (cases s) auto
  then show ?thesis
    by (simp add: line_and_column_def Let_def startsWith_Cons not_digits digits_val_nat_digits)
qed

text \<open>Behind the name no later colon begins a line and a column.\<close>

lemma no_later_place:
  assumes "s = [] \<or> s = '')''" "1 \<le> j"
  shows "line_and_column (drop j ('':'' @ nat_digits l @ '':'' @ nat_digits c @ s)) = None"
proof -
  have digit: "line_and_column (d # t) = None" if "is_digit d" for d t
    using that not_digits by (intro no_place_without_colon) (auto simp: startsWith_Cons)
  have tail: "line_and_column (drop i (nat_digits n @ t)) = None" if "line_and_column t = None" "i \<le> length (nat_digits n)" for i n t
  proof (cases "drop i (nat_digits n)")
    case (Cons d ds)
    then have "is_digit d" using nat_digits_digits [of n] in_set_dropD [of d i "nat_digits n"] by simp
    then show ?thesis using digit Cons that(2) by simp
  qed (use that in simp)
  have last: "line_and_column (drop i s) = None" for i
    using assms(1) by (cases i) (auto simp: line_and_column_def startsWith_Cons)
  have second: "line_and_column ('':'' @ nat_digits c @ s) = None"
    using assms(1) by (auto simp: line_and_column_def Let_def startsWith_Cons not_digits)
  have third: "line_and_column (drop i (nat_digits c @ s)) = None" for i
    using tail [of s i c] last [of 0] last [of "i - length (nat_digits c)"] by (cases "i \<le> length (nat_digits c)") simp_all
  obtain i where i: "j = Suc i" using assms(2) by (cases j) auto
  show ?thesis
  proof (cases "i \<le> length (nat_digits l)")
    case True
    then show ?thesis using tail [OF second] i by simp
  next
    case False
    then obtain k where "i = length (nat_digits l) + Suc k" by (metis add_Suc_right less_imp_Suc_add not_le)
    then show ?thesis using third [of k] i by simp
  qed
qed

lemma digit_name: "is_digit x \<Longrightarrow> name_char x"
  by (cases "x = CHR '')''"; cases "is_ws x") (auto simp: name_char_def is_ws_def is_digit_def)

lemma name_at_place:
  assumes "p \<noteq> []" "\<forall>x\<in>set p. name_char x" "s = [] \<or> s = '')''"
  shows "name_at (place_text p l c @ s) = Some (p, l, c)"
proof -
  let ?t = "place_text p l c @ s"
  have digits: "\<forall>x\<in>set (nat_digits n). name_char x" for n
    using nat_digits_digits [of n] digit_name by blast
  have colon: "name_char (CHR '':'')" by (simp add: name_char_def is_ws_def)
  have "\<forall>x\<in>set (place_text p l c). name_char x"
    using assms(2) digits [of l] digits [of c] colon unfolding place_text_def by auto
  then have "takeWhile name_char ?t = place_text p l c @ takeWhile name_char s" by (simp add: takeWhile_append2)
  also have "takeWhile name_char s = []" using assms(3) by (auto simp: name_char_def)
  finally have "takeWhile name_char ?t = place_text p l c" by simp
  then have "name_at ?t = longest_name (length (place_text p l c)) ?t" by (simp add: name_at_def)
  also have "\<dots> = longest_name (length p) ?t"
  proof (rule longest_skip)
    fix j assume "length p < j"
    then show "line_and_column (drop j ?t) = None"
      using no_later_place [OF assms(3), of "j - length p" l c] by (simp add: place_text_def)
  qed (simp add: place_text_def)
  also have "\<dots> = Some (p, l, c)"
  proof -
    obtain k where k: "length p = Suc k" using assms(1) by (cases p) auto
    have d: "drop (length p) ?t = '':'' @ nat_digits l @ '':'' @ nat_digits c @ s" "take (length p) ?t = p"
      by (simp_all add: place_text_def)
    have "line_and_column (drop (length p) ?t) = Some (l, c)"
      unfolding d by (rule place_read) (use assms(3) not_digits in auto)
    then show ?thesis using d(2) unfolding k by simp
  qed
  finally show ?thesis .
qed

text \<open>Frames in both forms of a stack trace: \<open>at name (file:line:column)\<close> and \<open>at file:line:column\<close>.\<close>

lemma frame_is_read:
  assumes "p \<noteq> []" "\<forall>x\<in>set p. name_char x" "hd p \<noteq> CHR ''(''" "CHR '':'' \<notin> set name" "CHR ''('' \<notin> set name"
  shows "match_frame (name @ '' ('' @ place_text p l c @ '')'') = Some (p, l, c)"
    and "match_frame (name @ '' '' @ place_text p l c) = Some (p, l, c)"
proof -
  have "frame_at (CHR ''('' # place_text p l c @ '')'') = Some (p, l, c)"
    using name_at_place [OF assms(1,2), of "'')''" l c] by (simp add: frame_at_def startsWith_Cons)
  then show "match_frame (name @ '' ('' @ place_text p l c @ '')'') = Some (p, l, c)"
    using match_frame_words [OF assms(4,5)] by simp
  obtain d t where p: "place_text p l c = d # t" "d \<noteq> CHR ''(''" using assms(1,3) by (cases p) (auto simp: place_text_def)
  have "frame_at (place_text p l c) = Some (p, l, c)"
    using name_at_place [OF assms(1,2), of "[]" l c] p by (simp add: frame_at_def startsWith_Cons)
  then have "match_frame (place_text p l c) = Some (p, l, c)" using p(1) by (cases "place_text p l c") simp_all
  then show "match_frame (name @ '' '' @ place_text p l c) = Some (p, l, c)"
    using match_frame_words [OF assms(4,5)] by simp
qed

text \<open>What is reported exists, as far as the cache of earlier answers is right, and is not the module itself.\<close>

definition cache_right :: "source_env \<Rightarrow> exists_cache \<Rightarrow> bool" where
  "cache_right env cache \<longleftrightarrow> (\<forall>p b. cache p = Some b \<longrightarrow> b = sn_exists env p)"

lemma cached_exists:
  "cache_right env cache \<Longrightarrow> cachedExistsSync env p cache = (b, cache') \<Longrightarrow> b = sn_exists env p \<and> cache_right env cache'"
  by (auto simp: cachedExistsSync_def cache_right_def split: option.splits if_splits)

lemma located_file:
  "cache_right env cache \<Longrightarrow> locate env ls cache = (found, cache') \<Longrightarrow>
    cache_right env cache' \<and> (\<forall>loc. found = Some loc \<longrightarrow> sn_exists env (lo_filePath loc) \<and> lo_filePath loc \<noteq> sn_module env)"
proof (induction ls arbitrary: cache)
  case (Cons stackLine rest)
  then show ?case
    by (auto simp: Let_def dest: cached_exists split: if_splits option.splits prod.splits)
qed simp

text \<open>A file is not recognised as a user's file when a directory of its path ends in \<open>internal\<close>, and only the part
  behind the last blank of its path is read.\<close>

definition sample_env :: source_env where
  "sample_env = \<lparr>sn_fileURLToPath = (\<lambda>_. None), sn_cwd = [''srv''], sn_exists = (\<lambda>p. p \<in> {''/srv/app.js'', ''/srv/internal/app.js'',
     ''/my app/main.js''}), sn_module = ''/srv/lib/index.js''\<rparr>"

definition trace :: "string list \<Rightarrow> string option" where
  "trace frames = Some (join [LF] (''Error'' # map (\<lambda>f. ''    at '' @ f) frames))"

lemma some_files_are_not_located:
  "map_option lo_filePath (fst (captureRouteRegistrationLocation sample_env (trace [''get (/srv/app.js:3:5)'']) Map.empty)) = Some ''/srv/app.js''"
  "fst (captureRouteRegistrationLocation sample_env (trace [''get (/srv/internal/app.js:3:5)'']) Map.empty) = None"
  "fst (captureRouteRegistrationLocation sample_env (trace [''get (/my app/main.js:3:5)'']) Map.empty) = None"
  by code_simp+

text \<open>The chain of any number of hooks runs them in order and stops at the first that throws.\<close>

lemma chain_runs_all: "compileHookChain fns = Some h \<Longrightarrow> h s = run_hooks fns s"
  by (cases fns; cases "tl fns") (auto simp: compileHookChain_def ebind_def split: sum.splits)

lemma run_hooks_append: "run_hooks (fs @ gs) s = ebind (run_hooks fs s) (run_hooks gs)"
  by (induction fs arbitrary: s) (auto simp: ebind_def split: sum.splits)

text \<open>A decorated request has every decorator under its name.\<close>

lemma decorated: "map_of (applyDecorators ds req) k = (case map_of (rev ds) k of Some v \<Rightarrow> Some v | None \<Rightarrow> map_of req k)"
proof (induction ds rule: rev_induct)
  case (snoc d ds)
  then show ?case by (cases d) (auto simp: applyDecorators_def update_conv')
qed (simp add: applyDecorators_def)

end
