(* ===== verification/Spec2Isabelle.thy ===== *)
theory Spec2Isabelle
  imports Dispatcher CircuitBreaker IpFilter Cors Csrf BodyLimit HeaderMiddlewares SessionStore Session
    RateLimit Multipart Validate Logging Tracing HttpErrors Config OpenApi Optimizer
    Registration FastPathProbe Compile Server HotReload DevComments DevServer Serving Notifier CommandLine
    SourceFallback NativeSetup RouteLru Router NativeRouting RouteSource
begin

text \<open>
  A model of the http-native framework: a JavaScript package (\<open>src/src/\<close>, with scripts in \<open>scripts/\<close>) on top of a
  native HTTP server in Rust (\<open>rsrc/src/\<close>).  All paths below are relative to the repository.

  \<^bold>\<open>How the parts work together.\<close>  A program registers routes, middlewares, error handlers, groups and plugins on an
  application (\<open>Registration\<close>).  Compilation (\<open>Compile\<close>) reads the source text of every handler to find out what of
  the request it needs (\<open>AccessPlan\<close>, \<open>SourceFallback\<close>), may replace it by a template found by calling it once with
  mocks (\<open>FastPathProbe\<close>), selects the middlewares of each route by path prefix (\<open>Paths\<close>) and writes a manifest.  The
  native layer reads the manifest (\<open>NativeRouting\<close>), matches requests (\<open>Router\<close>), caches responses (\<open>RouteLru\<close>),
  keeps sessions (\<open>SessionStore\<close>) and rate windows (\<open>RateLimit\<close>), and sends each matched request as a binary envelope
  (\<open>BridgeCodec\<close>) to the dispatcher (\<open>Dispatcher\<close>, \<open>Serving\<close>).  That builds a lazy request object (\<open>QueryParams\<close>,
  \<open>RequestObject\<close>) and a response object (\<open>Response\<close>, \<open>Json\<close>), runs the chain of middlewares (\<open>Middleware\<close>) and the
  handler, and answers with an encoded response; responses that stay the same are promoted to a cache
  (\<open>RouteCache\<close>).  A server handle starts, exchanges and closes compiled applications (\<open>Server\<close>); in development
  files are watched (\<open>HotReload\<close>), programs are loaded again (\<open>DevServer\<close>) and comments are written above routes
  (\<open>DevComments\<close>).

  \<^bold>\<open>How the code is represented.\<close>  A definition has the name of the function it models where Isabelle allows it.
  Objects and structs are records whose fields have a short prefix, unions are datatypes.  State is passed and
  returned; a throw is the left side of a sum or a value of an error type, \<open>None\<close> is \<open>null\<close>, \<open>undefined\<close> or a panic as
  said at the place.  Text is the list of its UTF-8 bytes (\<open>Prelude\<close>), plain objects are association lists in
  insertion order, numbers are integers, exact rationals or the IEEE specials, fields of the wire and hashes are
  words of their width.  Handlers and middlewares are trees of effects, awaits, throws and calls of \<open>next\<close>
  (\<open>Middleware\<close>); what an await leaves behind is a value of its own, so that the order of code before and after
  the reply is part of the statements.  Everything that is no code of the repository is a parameter: the parsers
  acorn and \<open>JSON.parse\<close>, HMAC, random ids, clocks, the file system, the network, the console, the Redis client and
  the functions of the user.

  \<^bold>\<open>Theories, the code they model and what they show.\<close>
  \<^item> \<open>Prelude\<close>: strings, bytes, numbers and results shared by all, and the collections \<open>wire_simps\<close>, \<open>str_simps\<close> and
    \<open>beh_simps\<close>.
  \<^item> \<open>BridgeCodec\<close> (\<open>bridge.js\<close>: readers, writers, \<open>decodeRequestEnvelope\<close>, \<open>encodeResponseEnvelope\<close>): round trip of
    requests, layout of responses; the locale \<open>wire_field\<close> lifts one field to counted lists.
  \<^item> \<open>AccessPlan\<close> (\<open>bridge.js\<close>: analysis of the syntax tree, merging of plans) and \<open>SourceFallback\<close> (the search by
    regular expressions): member reads and destructurings of the request are covered by the plan (what the analysis
    does not see is named by lemmas of its own), merging is the least upper bound.
  \<^item> \<open>QueryParams\<close>, \<open>RequestObject\<close> (\<open>bridge.js\<close>: query parser, \<open>materialize...\<close>, request factory, pools): on the
    keys a plan covers, the lazy object shows what a full one shows; pools stay bounded and clean.
  \<^item> \<open>Json\<close> (\<open>createJsonSerializer\<close>), \<open>Paths\<close> (prefixes, groups and \<open>node:path\<close>), \<open>Response\<close> (\<open>RESPONSE_PROTO\<close>): the
    specialised serializer agrees, prefixes compose, no line break enters a header, the first body wins.
  \<^item> \<open>Middleware\<close> (\<open>createMiddlewareRunner\<close>), \<open>RouteCache\<close>, \<open>Dispatcher\<close>, \<open>Serving\<close> (\<open>createDispatcher\<close> in \<open>index.js\<close>):
    order and nesting of the chain, every error ends in a reply, production errors are opaque, the reply of a
    successful request, promotion only after sixteen equal responses, open sockets follow the events.
  \<^item> \<open>MiddlewareKit\<close>: the contract of middlewares that stop or pass a request (locales \<open>checkpoint\<close>, \<open>gate\<close>, \<open>guard\<close>,
    \<open>observer\<close>; \<open>finisher\<close> in \<open>Tracing\<close> for one whose \<open>finally\<close> block may throw), used by \<open>IpFilter\<close>, \<open>Cors\<close>, \<open>Csrf\<close>, \<open>BodyLimit\<close>, \<open>HeaderMiddlewares\<close> (\<open>request-id.js\<close>, \<open>helmet.js\<close>,
    \<open>compress.js\<close>), \<open>Session\<close>, \<open>RateLimit\<close>, \<open>Multipart\<close>, \<open>Validate\<close>, \<open>Logging\<close> (\<open>logger.js\<close>, \<open>audit-log.js\<close>),
    \<open>Tracing\<close> (\<open>otel.js\<close>) and \<open>OpenApi\<close>: who is let through, with what answer otherwise, and what is recorded.
  \<^item> \<open>SessionStore\<close> (\<open>session.rs\<close>, the stores of \<open>session.js\<close>): both stores are maps from keys to values (locale
    \<open>session_store\<close>) at one instant, the memory store also over time, each session until its age has passed; the
    native one is bounded, cookies are verified.
  \<^item> \<open>CircuitBreaker\<close>: a step relation over begins and ends of calls with its invariants.
  \<^item> \<open>HttpErrors\<close> (\<open>error.js\<close>) and \<open>Config\<close> (\<open>env.js\<close>, \<open>http-server.config.js\<close>): replies of error objects, typed
    environments.
  \<^item> \<open>Registration\<close>, \<open>RouteSource\<close>, \<open>FastPathProbe\<close>, \<open>Compile\<close> (\<open>createApp\<close>, \<open>captureRouteRegistrationLocation\<close>,
    \<open>probeHandlerForFastPath\<close>, \<open>buildCompiledApplication\<close> in \<open>index.js\<close>): handler ids are unique, groups confine
    what they register, a probed source holds what the handler answered for placeholder texts, plans cover whole
    chains.
  \<^item> \<open>Server\<close> (\<open>listen\<close>, \<open>startCompiledServer\<close>), \<open>HotReload\<close>, \<open>DevServer\<close>, \<open>DevComments\<close> (\<open>dev/\<close>), \<open>CommandLine\<close>
    (\<open>cli.js\<close>, \<open>hot.js\<close>): snapshots are disposed of exactly once, changes are debounced, reloads keep one server,
    comments stand above their routes, and cleanup leaves of every file its text without the generated comments.
  \<^item> \<open>Optimizer\<close>, \<open>Notifier\<close> (\<open>opt/\<close>): what is learned from dispatches and printed.
  \<^item> \<open>NativeSetup\<close> (\<open>scripts/native/\<close>, \<open>setup-native.mjs\<close>, \<open>ensure-native.mjs\<close>, \<open>native.js\<close>): a download replaces the
    binary or keeps it.
  \<^item> \<open>RouteLru\<close>, \<open>Router\<close>, \<open>NativeRouting\<close> (\<open>router.rs\<close>, \<open>manifest.rs\<close> and the paths of \<open>analyzer.rs\<close>): the cache is a
    list of entries in the order of their last use, forwards and backwards along its links, up to and including the
    first eviction, which breaks it; the tree of segments finds what the
    list of routes says (locale \<open>spec_table\<close>); and over the two languages a request reaches the handler it is
    registered for, with its parameters bound to their names.

  \<^bold>\<open>Bounds, recursion and fuel.\<close>  No definition takes fuel: recursion is structural or ends by a measure, except the
  loop over the parts of a multipart body, which is a partial function and is shown to return for every input.
  The limits of the code are its own constants (16 path segments on the stack, longer paths on the heap, 16 parameters, more than which panic, 512 pooled
  objects and spans, 10000 durations, 16 equal responses) or options; hypotheses of theorems name them.

  \<^bold>\<open>Not modelled.\<close>
  \<^item> Of the Rust side: sockets, TLS, HTTP/1, HTTP/2 and HTTP/3 parsing, compression, the bytes of static responses,
    and the analysis of handler sources in \<open>analyzer.rs\<close> (a parameter of \<open>Router\<close>).  They are outside of the language
    of the framework; of them only what meets its JavaScript is here.
  \<^item> Calls of \<open>next()\<close> that are not awaited; in the redaction of logs, paths through \<open>__proto__\<close> and the error of an
    assignment to the length of an array; in the property of open sockets, events for handlers that are not
    registered, which the dispatcher answers without tracking (\<open>Serving\<close> models this answer).
  \<^item> The decoding of malformed UTF-8 and byte order marks, case mapping outside of ASCII, fractions in JSON numbers.
  \<^item> Effects of the process: signal handlers, the test whether a port is free, spawning the build of the native
    binary, the write of an upload, lines on the console where they are not the purpose of the code.
  \<^item> Tests, examples, benchmarks and type declarations.
\<close>

end
